(* ===== verification/YH_Prelude.thy ===== *)
theory YH_Prelude
  imports Main "HOL-Library.Word" "HOL-Library.Monad_Syntax"
begin

text \<open>
  Shared vocabulary of the development: the C integer types as words, checked accesses to C
  arrays, \<open>memmove\<close> on arrays, ring buffers read as lists, and the lemmas on masks and
  remainders that the component theories share.
\<close>

unbundle bit_operations_syntax

section \<open>C types\<close>

type_synonym u8 = "8 word"
type_synonym u16 = "16 word"
type_synonym u32 = "32 word"

text \<open>Addresses are natural numbers; 0 is the null pointer.\<close>

type_synonym addr = nat

named_theorems ring_lemmas \<open>ring buffers read as lists\<close>
named_theorems array_simps \<open>checked array accesses\<close>

section \<open>Arrays with checked accesses\<close>

text \<open>
  A C array is a list of the length it was allocated with. An access outside it is undefined
  behaviour in C; every access of the models goes through these functions, which return \<open>None\<close>
  there, so that a theorem with a result \<open>Some\<close> also says that no access was out of bounds.
\<close>

definition rd :: "'a list \<Rightarrow> nat \<Rightarrow> 'a option" where
  "rd b i = (if i < length b then Some (b ! i) else None)"

definition wr :: "'a list \<Rightarrow> nat \<Rightarrow> 'a \<Rightarrow> 'a list option" where
  "wr b i x = (if i < length b then Some (b[i := x]) else None)"

text \<open>\<open>memmove (&dst[di], &src[si], n)\<close>: the source block is read as a whole first.\<close>

definition blit :: "'a list \<Rightarrow> nat \<Rightarrow> 'a list \<Rightarrow> nat \<Rightarrow> nat \<Rightarrow> 'a list option" where
  "blit dst di src si n =
     (if si + n \<le> length src \<and> di + n \<le> length dst
      then Some (take di dst @ take n (drop si src) @ drop (di + n) dst) else None)"

lemma rd_Some [array_simps]: "i < length b \<Longrightarrow> rd b i = Some (b ! i)"
  by (simp add: rd_def)

lemma wr_Some [array_simps]: "i < length b \<Longrightarrow> wr b i x = Some (b[i := x])"
  by (simp add: wr_def)

lemma rd_None: "\<not> i < length b \<Longrightarrow> rd b i = None"
  by (simp add: rd_def)

lemma length_blit: "blit dst di src si n = Some r \<Longrightarrow> length r = length dst"
  by (auto simp: blit_def split: if_splits)

section \<open>Ring buffers as lists\<close>

text \<open>The \<open>n\<close> cells of the array \<open>b\<close> from cell \<open>f\<close> on, wrapping at the end of the array.\<close>

definition ring_list :: "'a list \<Rightarrow> nat \<Rightarrow> nat \<Rightarrow> 'a list" where
  "ring_list b f n = map (\<lambda>i. b ! ((f + i) mod length b)) [0..<n]"

lemma length_ring_list [simp]: "length (ring_list b f n) = n"
  by (simp add: ring_list_def)

lemma ring_list_0 [simp]: "ring_list b f 0 = []"
  by (simp add: ring_list_def)

lemma nth_ring_list [simp]: "i < n \<Longrightarrow> ring_list b f n ! i = b ! ((f + i) mod length b)"
  by (simp add: ring_list_def)

lemma ring_list_Suc [ring_lemmas]:
  "ring_list b f (Suc n) = ring_list b f n @ [b ! ((f + n) mod length b)]"
  by (simp add: ring_list_def)

lemma ring_list_Cons [ring_lemmas]:
  "ring_list b f (Suc n) = b ! (f mod length b) # ring_list b (Suc f mod length b) n"
proof (rule nth_equalityI)
  fix i assume "i < length (ring_list b f (Suc n))"
  then show "ring_list b f (Suc n) ! i
      = (b ! (f mod length b) # ring_list b (Suc f mod length b) n) ! i"
    by (cases i) (auto simp: mod_simps)
qed simp

text \<open>Two different offsets below the capacity name two different cells.\<close>

lemma ring_cells_differ:
  fixes f i j c :: nat
  assumes "i < c" "j < c" "i \<noteq> j"
  shows "(f + i) mod c \<noteq> (f + j) mod c"
proof
  assume "(f + i) mod c = (f + j) mod c"
  then have "i mod c = j mod c"
    by (simp add: mod_eq_iff_dvd_symdiff_nat)
  with assms show False by simp
qed

lemma ring_list_upd_free:
  assumes "n \<le> m" "m < length b"
  shows "ring_list (b[(f + m) mod length b := x]) f n = ring_list b f n"
proof (rule nth_equalityI)
  fix i assume "i < length (ring_list (b[(f + m) mod length b := x]) f n)"
  then have i: "i < n" by simp
  with assms have "(f + i) mod length b \<noteq> (f + m) mod length b"
    by (intro ring_cells_differ) auto
  then show "ring_list (b[(f + m) mod length b := x]) f n ! i = ring_list b f n ! i"
    using i by simp
qed simp

lemma ring_list_update [ring_lemmas]:
  assumes "m < n" "n \<le> length b"
  shows "ring_list (b[(f + m) mod length b := x]) f n = (ring_list b f n)[m := x]"
proof (rule nth_equalityI)
  fix i assume "i < length (ring_list (b[(f + m) mod length b := x]) f n)"
  then have i: "i < n" by simp
  have c: "(f + m) mod length b < length b" using assms by (intro mod_less_divisor) auto
  have "(f + i) mod length b \<noteq> (f + m) mod length b" if "i \<noteq> m"
    using that i assms by (intro ring_cells_differ) auto
  then show "ring_list (b[(f + m) mod length b := x]) f n ! i = (ring_list b f n)[m := x] ! i"
    using i c assms by (cases "i = m") auto
qed simp

lemma ring_list_snoc [ring_lemmas]:
  assumes "n < length b"
  shows "ring_list (b[(f + n) mod length b := x]) f (Suc n) = ring_list b f n @ [x]"
proof -
  have "(f + n) mod length b < length b" using assms by (intro mod_less_divisor) auto
  then show ?thesis
    using assms by (simp add: ring_list_Suc ring_list_upd_free)
qed

lemma ring_list_push [ring_lemmas]:
  assumes "n < length b" "f < length b" "g < length b" "Suc g mod length b = f"
  shows "ring_list (b[g := x]) g (Suc n) = x # ring_list b f n"
proof -
  have g: "(f + (length b - 1)) mod length b = g"
  proof (cases "Suc g = length b")
    case True
    then show ?thesis using assms by (simp add: mod_if)
  next
    case False
    then have "f = Suc g" using assms by simp
    then have "f + (length b - 1) = g + length b" using assms by simp
    then show ?thesis using assms by simp
  qed
  have "ring_list (b[g := x]) f n = ring_list b f n"
    using ring_list_upd_free [of n "length b - 1" b f x] assms g by simp
  then show ?thesis
    using assms by (simp add: ring_list_Cons)
qed

text \<open>Copying the ring to the start of a longer array unrolls it.\<close>

lemma ring_list_unrolled:
  assumes "n \<le> length b" "length b \<le> length r" "\<And>i. i < n \<Longrightarrow> r ! i = b ! ((f + i) mod length b)"
  shows "ring_list r 0 n = ring_list b f n"
  using assms by (intro nth_equalityI) auto

section \<open>Masks and remainders\<close>

lemma and_mask_mod:
  fixes x c :: "'a::len word"
  assumes "unat c = 2 ^ k"
  shows "unat (x AND (c - 1)) = unat x mod unat c"
proof -
  have k: "k < LENGTH('a)"
    using assms unsigned_less [of c] by (metis power_less_imp_less_exp one_less_numeral_iff semiring_norm(76))
  have "c = of_nat (unat c)" by simp
  then have c: "c = 2 ^ k" using assms by (simp del: of_nat_unat)
  then have "c - 1 = mask k" by (simp add: mask_eq_decr_exp)
  then have "x AND (c - 1) = take_bit k x" by (simp add: take_bit_eq_mask)
  then show ?thesis using assms by (simp add: unsigned_take_bit_eq take_bit_nat_def)
qed

lemma pow2_dvd_word:
  fixes c :: "'a::len word"
  assumes "unat c = 2 ^ k"
  shows "(2::nat) ^ k dvd 2 ^ LENGTH('a)"
proof -
  have "k < LENGTH('a)"
    using assms unsigned_less [of c] by (metis power_less_imp_less_exp one_less_numeral_iff semiring_norm(76))
  then show ?thesis by (intro le_imp_power_dvd) simp
qed

lemma and_mask_add [ring_lemmas]:
  fixes x y c :: "'a::len word"
  assumes "unat c = 2 ^ k"
  shows "unat ((x + y) AND (c - 1)) = (unat x + unat y) mod 2 ^ k"
  using pow2_dvd_word [OF assms]
  by (simp add: and_mask_mod [OF assms] assms unat_word_ariths mod_mod_cancel)

lemma and_mask_pred [ring_lemmas]:
  fixes x c :: "'a::len word"
  assumes "unat c = 2 ^ k"
  shows "unat ((x - 1) AND (c - 1)) = (unat x + (2 ^ k - 1)) mod 2 ^ k"
proof -
  have "unat ((x + (c - 1)) AND (c - 1)) = (unat x + unat (c - 1)) mod 2 ^ k"
    by (rule and_mask_add [OF assms])
  moreover have "unat (c - 1) = 2 ^ k - 1"
  proof -
    have "c \<noteq> 0" using assms by auto
    then show ?thesis using assms by (simp add: unat_minus_one)
  qed
  moreover have "(x + (c - 1)) AND (c - 1) = (x - 1) AND (c - 1)"
  proof (rule iffD2 [OF word_unat_eq_iff])
    have "unat (x + (c - 1)) mod 2 ^ k = unat (x - 1 + c) mod 2 ^ k" by (simp add: algebra_simps)
    also have "\<dots> = (unat (x - 1) + unat c) mod 2 ^ k"
      using pow2_dvd_word [OF assms] by (simp add: unat_word_ariths mod_mod_cancel)
    also have "\<dots> = unat (x - 1) mod 2 ^ k" using assms by simp
    finally show "unat ((x + (c - 1)) AND (c - 1)) = unat ((x - 1) AND (c - 1))"
      by (simp add: and_mask_mod [OF assms] assms)
  qed
  ultimately show ?thesis by simp
qed

lemma mod_Suc_pred:
  assumes "0 < (c::nat)"
  shows "(Suc x mod c + (c - 1)) mod c = x mod c"
proof -
  have "(Suc x mod c + (c - 1)) mod c = (Suc x + (c - 1)) mod c" by (rule mod_add_left_eq)
  also have "Suc x + (c - 1) = x + c" using assms by simp
  finally show ?thesis by simp
qed

lemma unat_pow2: "k < LENGTH('a) \<Longrightarrow> unat (2 ^ k :: 'a::len word) = 2 ^ k"
proof -
  assume k: "k < LENGTH('a)"
  have "unat (of_nat (2 ^ k) :: 'a word) = take_bit LENGTH('a) (2 ^ k)" by (subst unsigned_of_nat) (simp del: of_nat_power)
  moreover have "(2::nat) ^ k < 2 ^ LENGTH('a)" using k by (intro power_strict_increasing) auto
  ultimately show ?thesis by (simp add: take_bit_nat_eq_self)
qed

lemma unat_plus_no_wrap:
  "unat a + unat b < 2 ^ LENGTH('a) \<Longrightarrow> unat (a + b :: 'a::len word) = unat a + unat b"
  by (simp add: unat_word_ariths)

lemma unat_u32_less: "unat (w :: u32) < 2 ^ 32"
proof -
  have "unat w < 2 ^ LENGTH(32)" by (rule unsigned_less)
  then show ?thesis by simp
qed

end
