(* ===== verification/Allocator.thy ===== *)
theory Allocator
  imports YH_Prelude
begin

text \<open>
  The memory interface the other components are built on: what the clients of \<open>pvPortMalloc\<close>,
  \<open>pvPortCalloc\<close> and \<open>vPortFree\<close> rely on. A block is named by the address the client holds; \<open>live h al\<close>
  says that \<open>al\<close> are the blocks handed out in the heap state \<open>h\<close>, with their sizes. A result \<open>None\<close> is a
  fault. \<open>LibMem_Thms\<close> interprets the interfaces on the model of \<open>lib_mem.c\<close>.
\<close>

section \<open>The interface the clients use\<close>

locale allocator =
  fixes live :: "'h \<Rightarrow> (addr \<rightharpoonup> nat) \<Rightarrow> bool"
    and alloc :: "'h \<Rightarrow> u32 \<Rightarrow> (addr \<times> 'h) option"
    and release :: "'h \<Rightarrow> addr \<Rightarrow> 'h option"
  assumes alloc_step: "live h al \<Longrightarrow>
      (alloc h w = Some (0, h)) \<or>
      (\<exists>p h' s. alloc h w = Some (p, h') \<and> p \<noteq> 0 \<and> p \<notin> dom al \<and> unat w \<le> s \<and> live h' (al(p \<mapsto> s)))"
    and release_step: "live h al \<Longrightarrow> p \<in> dom al \<Longrightarrow>
      \<exists>h'. release h p = Some h' \<and> live h' (al(p := None))"
    and release_null: "release h 0 = Some h"
    and live_disjoint: "live h al \<Longrightarrow> al p = Some s \<Longrightarrow> al q = Some t \<Longrightarrow> p \<noteq> q \<Longrightarrow>
      p + s \<le> q \<or> q + t \<le> p"
begin

text \<open>Asking for two blocks: either both are there, or the first can be given back.\<close>

lemma alloc_release:
  assumes "live h al" "alloc h w = Some (p, h')" "p \<noteq> 0"
  shows "\<exists>h''. release h' p = Some h'' \<and> live h'' al"
proof -
  obtain s where "live h' (al(p \<mapsto> s))" "p \<notin> dom al"
    using alloc_step [OF assms(1), of w] assms(2,3) by auto
  moreover have "(al(p := None)) = al" if "p \<notin> dom al" using that by (auto simp: domIff)
  ultimately show ?thesis using release_step [of h' "al(p \<mapsto> s)" p] by fastforce
qed

lemma alloc_two:
  assumes "live h al" "alloc h v = Some (p, h')" "p \<noteq> 0" "alloc h' w = Some (q, h'')" "q \<noteq> 0"
  shows "\<exists>s t. live h'' (al(p \<mapsto> s, q \<mapsto> t)) \<and> unat v \<le> s \<and> unat w \<le> t \<and> (p + s \<le> q \<or> q + t \<le> p)"
proof -
  obtain s where s: "live h' (al(p \<mapsto> s))" "unat v \<le> s"
    using alloc_step [OF assms(1), of v] assms(2,3) by auto
  obtain t where t: "live h'' (al(p \<mapsto> s, q \<mapsto> t))" "unat w \<le> t" "q \<notin> dom (al(p \<mapsto> s))"
    using alloc_step [OF s(1), of w] assms(4,5) by auto
  then have "p \<noteq> q" by auto
  then have "p + s \<le> q \<or> q + t \<le> p"
    using live_disjoint [OF t(1), of p s q t] by auto
  then show ?thesis using s t by blast
qed

end

text \<open>With a \<open>calloc\<close> that may fault when memory is short, but never on a request of 0 bytes.\<close>

locale callocator = allocator live alloc release
  for live :: "'h \<Rightarrow> (addr \<rightharpoonup> nat) \<Rightarrow> bool"
    and alloc :: "'h \<Rightarrow> u32 \<Rightarrow> (addr \<times> 'h) option"
    and release :: "'h \<Rightarrow> addr \<Rightarrow> 'h option" +
  fixes calloc :: "'h \<Rightarrow> u32 \<Rightarrow> u32 \<Rightarrow> (addr \<times> 'h) option"
  assumes calloc_step: "live h al \<Longrightarrow>
      calloc h n w = None \<or> calloc h n w = Some (0, h) \<or>
      (\<exists>p h' s. calloc h n w = Some (p, h') \<and> p \<noteq> 0 \<and> p \<notin> dom al \<and> unat (n * w) \<le> s
        \<and> live h' (al(p \<mapsto> s)))"
    and calloc_zero: "live h al \<Longrightarrow> n * w = 0 \<Longrightarrow> calloc h n w = Some (0, h)"
begin

lemma calloc_served:
  assumes "live h al" "calloc h n w = Some (p, h')" "p \<noteq> 0"
  shows "n * w \<noteq> 0 \<and> p \<notin> dom al \<and> (\<exists>s \<ge> unat (n * w). live h' (al(p \<mapsto> s)))"
proof -
  have "n * w \<noteq> 0" using calloc_zero [OF assms(1), of n w] assms(2,3) by auto
  then show ?thesis using calloc_step [OF assms(1), of n w] assms(2,3) by auto
qed

end

end
