(* ===== verification/LibMem_List.thy ===== *)
theory LibMem_List
  imports LibMem
begin

text \<open>
  The free list of \<open>LibMem\<close> as a list of (address, size) pairs: the path predicate on the store,
  what the two traversal loops find, and the effect of \<open>prvInsertBlockIntoFreeList\<close>, which joins
  the block with its neighbours (\<open>join_block\<close>).
\<close>

section \<open>Paths\<close>

text \<open>The list of free blocks: \<open>free_path m p bs e\<close> follows the links from \<open>p\<close> through the blocks
  \<open>bs\<close>, given as address and size, to \<open>e\<close>.\<close>

fun free_path :: "store \<Rightarrow> addr \<Rightarrow> (addr \<times> nat) list \<Rightarrow> addr \<Rightarrow> bool" where
  "free_path m p [] e = (pxNextFreeBlock (m p) = e)"
| "free_path m p ((a, s) # bs) e =
     (pxNextFreeBlock (m p) = a \<and> unat (xBlockSize (m a)) = s \<and> free_path m a bs e)"

definition last_at :: "addr \<Rightarrow> (addr \<times> nat) list \<Rightarrow> addr" where
  "last_at p bs = (if bs = [] then p else fst (last bs))"

definition head_at :: "(addr \<times> nat) list \<Rightarrow> addr \<Rightarrow> addr" where
  "head_at bs e = (if bs = [] then e else fst (hd bs))"

lemma last_at_simps [simp]:
  "last_at p [] = p" "last_at p ((a, s) # bs) = last_at a bs" "last_at p (bs @ [x]) = fst x"
  by (auto simp: last_at_def)

lemma head_at_simps [simp]: "head_at [] e = e" "head_at ((a, s) # bs) e = a"
  by (auto simp: head_at_def)

lemma set_next_simps [simp]:
  "pxNextFreeBlock (set_next m a v b) = (if b = a then v else pxNextFreeBlock (m b))"
  "xBlockSize (set_next m a v b) = xBlockSize (m b)"
  by (auto simp: set_next_def)

lemma set_size_simps [simp]:
  "pxNextFreeBlock (set_size m a v b) = pxNextFreeBlock (m b)"
  "xBlockSize (set_size m a v b) = (if b = a then v else xBlockSize (m b))"
  by (auto simp: set_size_def)

lemma free_path_append:
  "free_path m p (l @ r) e \<longleftrightarrow> free_path m p l (head_at r e) \<and> free_path m (last_at p l) r e"
proof (induction l arbitrary: p)
  case Nil
  show ?case by (cases r) auto
qed auto

lemma free_path_head: "free_path m p bs e \<Longrightarrow> pxNextFreeBlock (m p) = head_at bs e"
  by (cases bs) auto

lemma free_path_last: "free_path m p bs e \<Longrightarrow> pxNextFreeBlock (m (last_at p bs)) = e"
  by (induction m p bs e rule: free_path.induct) auto

lemma free_path_size: "free_path m p bs e \<Longrightarrow> (a, s) \<in> set bs \<Longrightarrow> unat (xBlockSize (m a)) = s"
  by (induction m p bs e rule: free_path.induct) auto

lemma free_path_cong:
  assumes "free_path m p bs e" "pxNextFreeBlock (m' p) = pxNextFreeBlock (m p)"
    "\<forall>x \<in> set bs. m' (fst x) = m (fst x)"
  shows "free_path m' p bs e"
  using assms by (induction m p bs e rule: free_path.induct) auto

lemma free_path_set_next:
  assumes "free_path m p l c" "distinct (p # map fst l)"
  shows "free_path (set_next m (last_at p l) b) p l b"
  using assms
proof (induction m p l c rule: free_path.induct)
  case (2 m p a s bs e)
  then have "p \<noteq> last_at a bs" by (auto simp: last_at_def)
  with 2 show ?case by auto
qed auto

lemma free_path_frame_next:
  "a \<notin> set (p # map fst bs) \<Longrightarrow> free_path (set_next m a v) p bs e = free_path m p bs e"
  by (induction m p bs e rule: free_path.induct) auto

lemma free_path_frame_size:
  "a \<notin> set (map fst bs) \<Longrightarrow> free_path (set_size m a v) p bs e = free_path m p bs e"
  by (induction m p bs e rule: free_path.induct) auto

lemma free_path_start:
  "free_path m p bs e \<Longrightarrow> pxNextFreeBlock (m q) = pxNextFreeBlock (m p) \<Longrightarrow> free_path m q bs e"
  by (cases bs) auto

lemmas free_path_frame = free_path_frame_next free_path_frame_size

lemma insert_pos_walk:
  assumes "free_path m p (l @ r) e" "\<forall>x \<in> set l. fst x < b" "b \<le> head_at r e"
  shows "insert_pos m b p = Some (last_at p l)"
  using assms
proof (induction l arbitrary: p)
  case Nil
  then have "pxNextFreeBlock (m p) = head_at r e" by (auto dest: free_path_head)
  then show ?case using Nil by (subst insert_pos.simps) simp
next
  case (Cons x l)
  obtain a s where x: "x = (a, s)" by (cases x)
  with Cons show ?case by (subst insert_pos.simps) auto
qed

lemma find_block_walk:
  assumes "free_path m p l b" "\<forall>x \<in> set l. snd x < unat w \<and> fst x \<noteq> 0" "b \<noteq> 0"
    "\<not> (xBlockSize (m b) < w \<and> pxNextFreeBlock (m b) \<noteq> 0)"
  shows "find_block m w p (pxNextFreeBlock (m p)) = Some (last_at p l, b)"
  using assms
proof (induction l arbitrary: p)
  case Nil
  then show ?case by (subst find_block.simps) auto
next
  case (Cons x l)
  obtain a s where x: "x = (a, s)" by (cases x)
  have nz: "pxNextFreeBlock (m a) \<noteq> 0"
    using Cons.prems x by (cases l) auto
  have "xBlockSize (m a) < w" using Cons.prems x by (auto simp: word_less_nat_alt)
  with Cons x nz show ?case by (subst find_block.simps) auto
qed

section \<open>Well-formed free lists\<close>

text \<open>Ascending, with a gap between any two blocks, aligned, inside \<open>lo .. hi\<close>.\<close>

definition blocks_ok :: "nat \<Rightarrow> nat \<Rightarrow> (addr \<times> nat) list \<Rightarrow> bool" where
  "blocks_ok lo hi bs \<longleftrightarrow>
     sorted_wrt (\<lambda>x y. fst x + snd x < fst y) bs \<and>
     (\<forall>(a, s) \<in> set bs. lo \<le> a \<and> a + s \<le> hi \<and> 16 \<le> s \<and> 8 dvd a \<and> 8 dvd s)"

text \<open>What the insertion does to the list: the block is joined to an adjacent neighbour.\<close>

definition join_next :: "addr \<Rightarrow> nat \<Rightarrow> (addr \<times> nat) list \<Rightarrow> (addr \<times> nat) list" where
  "join_next b s r =
     (case r of [] \<Rightarrow> [(b, s)]
      | (c, t) # r' \<Rightarrow> if b + s = c then (b, s + t) # r' else (b, s) # r)"

definition join_block ::
  "(addr \<times> nat) list \<Rightarrow> addr \<Rightarrow> nat \<Rightarrow> (addr \<times> nat) list \<Rightarrow> (addr \<times> nat) list" where
  "join_block l b s r =
     (if l \<noteq> [] \<and> fst (last l) + snd (last l) = b
      then butlast l @ join_next (fst (last l)) (snd (last l) + s) r
      else l @ join_next b s r)"

lemma blocks_ok_append:
  "blocks_ok lo hi (l @ r) \<longleftrightarrow>
     blocks_ok lo hi l \<and> blocks_ok lo hi r \<and> (\<forall>x \<in> set l. \<forall>y \<in> set r. fst x + snd x < fst y)"
  by (auto simp: blocks_ok_def sorted_wrt_append)

lemma blocks_ok_Cons:
  "blocks_ok lo hi ((a, s) # r) \<longleftrightarrow>
     lo \<le> a \<and> a + s \<le> hi \<and> 16 \<le> s \<and> 8 dvd a \<and> 8 dvd s \<and>
     (\<forall>y \<in> set r. a + s < fst y) \<and> blocks_ok lo hi r"
  by (auto simp: blocks_ok_def)

lemma blocks_ok_Nil [simp]: "blocks_ok lo hi []"
  by (simp add: blocks_ok_def)

lemma join_next_ok:
  assumes "blocks_ok lo hi r" "lo \<le> b" "b + s \<le> hi" "16 \<le> s" "8 dvd b" "8 dvd s"
    "\<forall>y \<in> set r. b + s \<le> fst y"
  shows "blocks_ok lo hi (join_next b s r) \<and> (\<forall>y \<in> set (join_next b s r). b \<le> fst y)"
proof (cases r)
  case Nil
  then show ?thesis using assms by (simp add: join_next_def blocks_ok_Cons)
next
  case (Cons y r')
  obtain c t where y: "y = (c, t)" by (cases y)
  have "\<forall>z \<in> set r'. b + s < fst z \<and> b + (s + t) \<le> c + t \<and> c + t < fst z"
    using assms Cons y by (auto simp: blocks_ok_Cons)
  then show ?thesis using assms Cons y by (auto simp: join_next_def blocks_ok_Cons)
qed

lemma join_block_ok:
  assumes "blocks_ok lo hi (l @ r)" "lo \<le> b" "b + s \<le> hi" "16 \<le> s" "8 dvd b" "8 dvd s"
    "\<forall>x \<in> set l. fst x + snd x \<le> b" "\<forall>y \<in> set r. b + s \<le> fst y"
  shows "blocks_ok lo hi (join_block l b s r)"
proof (cases l rule: rev_cases)
  case Nil
  then show ?thesis using assms join_next_ok [of lo hi r b s] by (simp add: join_block_def)
next
  case (snoc l' x)
  obtain a t where x: "x = (a, t)" by (cases x)
  have l': "blocks_ok lo hi l'" "blocks_ok lo hi r" "\<forall>y \<in> set l'. fst y + snd y < a"
    "lo \<le> a" "a + t \<le> hi" "16 \<le> t" "8 dvd a" "8 dvd t"
    using assms(1) snoc x by (auto simp: blocks_ok_append blocks_ok_Cons)
  show ?thesis
  proof (cases "a + t = b")
    case True
    have "blocks_ok lo hi (join_next a (t + s) r)
        \<and> (\<forall>y \<in> set (join_next a (t + s) r). a \<le> fst y)"
      using l' assms True by (intro join_next_ok) auto
    with True l' snoc x show ?thesis by (fastforce simp: join_block_def blocks_ok_append)
  next
    case False
    have "blocks_ok lo hi (join_next b s r) \<and> (\<forall>y \<in> set (join_next b s r). b \<le> fst y)"
      using l' assms by (intro join_next_ok) auto
    with False l' snoc x assms show ?thesis
      by (fastforce simp: join_block_def blocks_ok_append blocks_ok_Cons)
  qed
qed

lemma sum_join_block: "sum_list (map snd (join_block l b s r)) = sum_list (map snd (l @ r)) + s"
proof -
  have n: "sum_list (map snd (join_next a t r)) = t + sum_list (map snd r)" for a t
    by (cases r) (auto simp: join_next_def)
  show ?thesis by (cases l rule: rev_cases) (auto simp: join_block_def n)
qed


section \<open>The insertion, on the store\<close>

text \<open>Where a block \<open>b\<close> of size \<open>s\<close> is inserted: between the blocks \<open>l\<close> and \<open>r\<close> of the list.\<close>

definition insert_site ::
  "heap \<Rightarrow> (addr \<times> nat) list \<Rightarrow> (addr \<times> nat) list \<Rightarrow> addr \<Rightarrow> nat \<Rightarrow> bool" where
  "insert_site h l r b s \<longleftrightarrow>
     free_path (hmem h) (xStart_at h) (l @ r) (pxEnd h) \<and> xBlockSize (hmem h (xStart_at h)) = 0 \<and>
     distinct (xStart_at h # b # pxEnd h # map fst (l @ r)) \<and>
     (\<forall>y \<in> set l. fst y + snd y \<le> b \<and> fst y < b) \<and>
     (\<forall>y \<in> set r. b + s \<le> fst y \<and> fst y + snd y \<le> pxEnd h) \<and>
     unat (xBlockSize (hmem h b)) = s \<and> b + s \<le> pxEnd h \<and> pxEnd h < 2 ^ 32 \<and> 0 < s"

definition inserted ::
  "heap \<Rightarrow> addr \<Rightarrow> (addr \<times> nat) list \<Rightarrow> (addr \<times> nat) list \<Rightarrow> (addr \<times> nat) list \<Rightarrow> store \<Rightarrow> bool" where
  "inserted h b l r bs m' \<longleftrightarrow>
     prvInsertBlockIntoFreeList h b = Some (h\<lparr>hmem := m'\<rparr>) \<and>
     free_path m' (xStart_at h) bs (pxEnd h) \<and>
     (\<forall>a. a \<notin> set (xStart_at h # b # map fst (l @ r)) \<longrightarrow> m' a = hmem h a) \<and>
     xBlockSize (m' (xStart_at h)) = 0"

lemma insert_site_facts:
  fixes h l r b s
  defines "x \<equiv> xStart_at h" and "m \<equiv> hmem h" and "e \<equiv> pxEnd h"
  defines "it \<equiv> last_at x l" and "nxt \<equiv> head_at r e"
  assumes "insert_site h l r b s"
  shows "insert_pos m b x = Some it" "free_path m x l nxt" "free_path m it r e"
    "pxNextFreeBlock (m it) = nxt" "it \<in> set (x # map fst l)"
    "it \<noteq> b" "it \<noteq> e" "it \<notin> set (map fst r)" "b \<notin> set (map fst (l @ r))"
    "distinct (x # map fst l)" "l \<noteq> [] \<Longrightarrow> unat (xBlockSize (m it)) = snd (last l)"
proof -
  have path: "free_path m x (l @ r) e" and dist: "distinct (x # b # e # map fst (l @ r))"
    and lr: "\<forall>y \<in> set l. fst y < b" "\<forall>y \<in> set r. b + s \<le> fst y" and s: "b + s \<le> e" "0 < s"
    using assms(6) unfolding insert_site_def x_def m_def e_def by auto
  have "b < nxt" using lr s by (cases r) (auto simp: nxt_def)
  then show "insert_pos m b x = Some it"
    using path lr unfolding it_def nxt_def by (intro insert_pos_walk) auto
  show pl: "free_path m x l nxt" and pr: "free_path m it r e"
    using path by (auto simp: free_path_append it_def nxt_def)
  show "pxNextFreeBlock (m it) = nxt" using pr by (simp add: free_path_head nxt_def)
  show it_in: "it \<in> set (x # map fst l)" by (auto simp: it_def last_at_def)
  then show "it \<noteq> b" "it \<noteq> e" "it \<notin> set (map fst r)" "b \<notin> set (map fst (l @ r))"
    using dist by auto
  show "distinct (x # map fst l)" using dist by auto
  show "unat (xBlockSize (m it)) = snd (last l)" if "l \<noteq> []"
    using pl free_path_size [of m x l nxt it "snd (last l)"] that
    by (cases l rule: rev_cases) (auto simp: it_def)
qed

lemma no_prev_join:
  assumes "insert_site h l r b s" "\<not> (l \<noteq> [] \<and> fst (last l) + snd (last l) = b)"
  defines "it \<equiv> last_at (xStart_at h) l"
  shows "it + unat (xBlockSize (hmem h it)) \<noteq> b" "join_block l b s r = l @ join_next b s r"
proof -
  show "it + unat (xBlockSize (hmem h it)) \<noteq> b"
    using assms insert_site_facts(6,11) [OF assms(1)]
    by (cases l rule: rev_cases) (auto simp: it_def insert_site_def)
  show "join_block l b s r = l @ join_next b s r"
    unfolding join_block_def by (rule if_not_P [OF assms(2)])
qed

lemmas insert_defs = prvInsertBlockIntoFreeList_def inserted_def Let_def

text \<open>The block touches its successor only.\<close>

lemma insert_join_next:
  assumes site: "insert_site h l r b s" and no: "\<not> (l \<noteq> [] \<and> fst (last l) + snd (last l) = b)"
    and rr: "r = (c, t) # r'" and c: "b + s = c"
  shows "\<exists>m'. inserted h b l r (join_block l b s r) m'"
proof -
  define x m e where d: "x = xStart_at h" "m = hmem h" "e = pxEnd h"
  define it where "it = last_at x l"
  note F = insert_site_facts [OF site, folded d, folded it_def]
  note N = no_prev_join [OF site no, folded d, folded it_def]
  have S: "distinct (x # b # e # map fst (l @ r))" "xBlockSize (m x) = 0"
    "\<forall>y \<in> set r. b + s \<le> fst y \<and> fst y + snd y \<le> e" "unat (xBlockSize (m b)) = s" "e < 2 ^ 32" "0 < s"
    using site unfolding insert_site_def d by auto
  have nxt: "head_at r e = c" "c \<noteq> e" and cb: "c \<noteq> b" using rr c S(1,6) by auto
  define m1 where "m1 = set_next (set_size m b (xBlockSize (m b) + xBlockSize (m c))) b
    (pxNextFreeBlock (m c))"
  have "unat (xBlockSize (m c)) = t" using F(3) rr by simp
  then have sz: "unat (xBlockSize (m b) + xBlockSize (m c)) = s + t"
    using S rr c by (subst unat_plus_no_wrap) auto
  have "free_path m1 x l (head_at r e)"
    using F(2,9) S(1) unfolding m1_def by (subst free_path_frame; auto)+
  then have p1: "free_path (set_next m1 it b) x l b"
    unfolding it_def using F(10) by (rule free_path_set_next)
  have "free_path m c r' e" using F(3) rr by simp
  then have "free_path m1 c r' e"
    unfolding m1_def using F(9) rr cb by (auto simp: free_path_frame)
  then have "free_path m1 b r' e" by (rule free_path_start) (auto simp: m1_def)
  then have p2: "free_path (set_next m1 it b) b r' e"
    using F(6,8) rr by (subst free_path_frame) auto
  have "free_path (set_next m1 it b) x (join_block l b s r) e"
    using p1 p2 F(6) sz c unfolding N(2)
    by (simp add: free_path_append join_next_def rr m1_def flip: it_def)
  moreover have "prvInsertBlockIntoFreeList h b = Some (h\<lparr>hmem := set_next m1 it b\<rparr>)"
    using N(1) S(4) c nxt F(6) by (simp add: insert_defs m1_def F(1,4) flip: d)
  moreover have "\<forall>a. a \<notin> set (x # b # map fst (l @ r)) \<longrightarrow> set_next m1 it b a = m a"
    using F(5) by (auto simp: m1_def set_next_def set_size_def)
  moreover have "xBlockSize (set_next m1 it b x) = 0" using S by (simp add: m1_def)
  ultimately show ?thesis unfolding inserted_def d [symmetric] by blast
qed

text \<open>The block touches neither neighbour.\<close>

lemma insert_join_none:
  assumes site: "insert_site h l r b s" and no: "\<not> (l \<noteq> [] \<and> fst (last l) + snd (last l) = b)"
    and nn: "\<not> (r \<noteq> [] \<and> b + s = fst (hd r))"
  shows "\<exists>m'. inserted h b l r (join_block l b s r) m'"
proof -
  define x m e where d: "x = xStart_at h" "m = hmem h" "e = pxEnd h"
  define it where "it = last_at x l"
  note F = insert_site_facts [OF site, folded d, folded it_def]
  note N = no_prev_join [OF site no, folded d, folded it_def]
  have S: "distinct (x # b # e # map fst (l @ r))" "xBlockSize (m x) = 0" "unat (xBlockSize (m b)) = s"
    using site unfolding insert_site_def d by auto
  define m1 where "m1 = set_next m b (head_at r e)"
  have jn: "join_next b s r = (b, s) # r" using nn by (cases r) (auto simp: join_next_def)
  have last: "b + s = head_at r e \<Longrightarrow> head_at r e = e" using nn by (auto simp: head_at_def)
  have "free_path m1 x l (head_at r e)"
    using F(2,9) S(1) unfolding m1_def by (subst free_path_frame; auto)
  then have p1: "free_path (set_next m1 it b) x l b"
    unfolding it_def using F(10) by (rule free_path_set_next)
  have "free_path m1 it r e"
    using F(3,6,9) unfolding m1_def by (subst free_path_frame; auto)
  then have "free_path m1 b r e"
    using F(4,6) by (rule_tac free_path_start) (auto simp: m1_def)
  then have p2: "free_path (set_next m1 it b) b r e"
    using F(6,8) by (subst free_path_frame) auto
  have "free_path (set_next m1 it b) x (join_block l b s r) e"
    using p1 p2 F(6) S(3) unfolding N(2) jn
    by (simp add: free_path_append m1_def flip: it_def)
  moreover have "prvInsertBlockIntoFreeList h b = Some (h\<lparr>hmem := set_next m1 it b\<rparr>)"
    using N(1) last S(3) F(6) by (auto simp add: insert_defs m1_def F(1,4) simp flip: d)
  moreover have "\<forall>a. a \<notin> set (x # b # map fst (l @ r)) \<longrightarrow> set_next m1 it b a = m a"
    using F(5) by (auto simp: m1_def set_next_def)
  moreover have "xBlockSize (set_next m1 it b x) = 0" using S by (simp add: m1_def)
  ultimately show ?thesis unfolding inserted_def d [symmetric] by blast
qed

text \<open>The block touches its predecessor \<open>a\<close>, and perhaps its successor too.\<close>

lemma insert_join_prev:
  assumes site: "insert_site h l r b s" and ll: "l = l' @ [(a, s0)]" and adj: "a + s0 = b"
  shows "\<exists>m'. inserted h b l r (join_block l b s r) m'"
proof -
  define x m e where d: "x = xStart_at h" "m = hmem h" "e = pxEnd h"
  have it: "last_at x l = a" by (simp add: ll)
  note F = insert_site_facts [OF site, folded d, unfolded it]
  have S: "distinct (x # b # e # map fst (l @ r))" "xBlockSize (m x) = 0"
    "\<forall>y \<in> set r. b + s \<le> fst y \<and> fst y + snd y \<le> e" "unat (xBlockSize (m b)) = s" "e < 2 ^ 32" "0 < s"
    "b + s \<le> e"
    using site unfolding insert_site_def d by auto
  have jb: "join_block l b s r = l' @ join_next a (s0 + s) r"
    unfolding join_block_def ll by (simp add: adj)
  have s0: "unat (xBlockSize (m a)) = s0" and pl': "free_path m x l' a"
    using F(2) ll by (auto simp: free_path_append)
  have ad: "a \<noteq> x" "a \<notin> set (map fst l')" "a \<notin> set (map fst r)" using S(1) ll by auto
  define ab where "ab = xBlockSize (m a) + xBlockSize (m b)"
  have ab: "unat ab = s0 + s" unfolding ab_def using S s0 adj by (subst unat_plus_no_wrap) auto
  define j where "j = (r \<noteq> [] \<and> b + s = fst (hd r))"
  define c where "c = head_at r e"
  define m1 where "m1 = (if j then set_next (set_size (set_size m a ab) a (ab + xBlockSize (m c))) a
      (pxNextFreeBlock (m c)) else set_next (set_size m a ab) a c)"
  have cd: "j \<Longrightarrow> c = b + s \<and> c \<noteq> e \<and> c \<noteq> a"
    using S(1,6) adj by (cases r) (auto simp: j_def c_def)
  have last: "\<not> j \<Longrightarrow> b + s = c \<Longrightarrow> c = e" by (auto simp: j_def c_def head_at_def)
  have p1: "free_path m1 x l' a"
    using pl' ad unfolding m1_def by (auto simp: free_path_frame)
  have "free_path m1 a (tl (join_next a (s0 + s) r)) e
      \<and> join_next a (s0 + s) r = (a, unat (xBlockSize (m1 a))) # tl (join_next a (s0 + s) r)"
  proof (cases j)
    case True
    then obtain t r' where r: "r = (c, t) # r'" by (cases r) (auto simp: j_def c_def)
    have t: "unat (xBlockSize (m c)) = t" "free_path m c r' e" using F(3) r by auto
    then have "free_path m1 c r' e"
      using True ad r cd unfolding m1_def by (auto simp: free_path_frame)
    then have "free_path m1 a r' e"
      using True by (rule_tac free_path_start) (auto simp: m1_def cd)
    moreover have "unat (ab + xBlockSize (m c)) = s0 + s + t"
      using S r t ab adj by (subst unat_plus_no_wrap) auto
    ultimately show ?thesis using True cd adj r by (simp add: join_next_def m1_def)
  next
    case False
    then have "join_next a (s0 + s) r = (a, s0 + s) # r"
      using adj by (cases r) (auto simp: join_next_def j_def)
    moreover have "free_path m1 a r e"
      using F(4) ad False
      by (intro free_path_cong [OF F(3)]) (auto simp: m1_def c_def set_next_def set_size_def)
    ultimately show ?thesis using False ab by (simp add: m1_def)
  qed
  then have "free_path m1 x (join_block l b s r) e"
    using p1 free_path_last [OF p1] unfolding jb
    by (metis free_path.simps(2) free_path_append head_at_simps(2))
  moreover have "prvInsertBlockIntoFreeList h b = Some (h\<lparr>hmem := m1\<rparr>)"
  proof -
    have "a + unat (xBlockSize (m a)) = b" "a + unat ab = b + s" using s0 ab adj by auto
    moreover have "pxNextFreeBlock (m a) = c" using F(4) by (simp add: c_def)
    moreover have "c \<noteq> a" if j using cd that by blast
    ultimately show ?thesis
      using cd last F(1) unfolding prvInsertBlockIntoFreeList_def d [symmetric]
      by (cases j) (auto simp: m1_def Let_def ab_def [symmetric])
  qed
  moreover have "\<forall>y. y \<notin> set (x # b # map fst (l @ r)) \<longrightarrow> m1 y = m y"
    by (auto simp: m1_def set_next_def set_size_def ll)
  moreover have "xBlockSize (m1 x) = 0" using S ad by (simp add: m1_def)
  ultimately show ?thesis unfolding inserted_def d [symmetric] by blast
qed

lemma prvInsert_path:
  assumes "insert_site h l r b s"
  shows "\<exists>m'. inserted h b l r (join_block l b s r) m'"
proof (cases "l \<noteq> [] \<and> fst (last l) + snd (last l) = b")
  case True
  then obtain l' a s0 where "l = l' @ [(a, s0)]" "a + s0 = b"
    by (cases l rule: rev_cases) auto
  then show ?thesis by (rule insert_join_prev [OF assms])
next
  case False
  show ?thesis
  proof (cases "r \<noteq> [] \<and> b + s = fst (hd r)")
    case True
    then obtain c t r' where "r = (c, t) # r'" "b + s = c" by (cases r) auto
    then show ?thesis by (rule insert_join_next [OF assms False])
  next
    case nn: False
    show ?thesis by (rule insert_join_none [OF assms False nn])
  qed
qed

end
