(* ===== verification/LibMem_Inv.thy ===== *)
theory LibMem_Inv
  imports LibMem_List
begin

text \<open>
  The invariant of the allocator \<open>heap_inv h bs al\<close>: \<open>bs\<close> is the list of free blocks the code links,
  \<open>al\<close> the blocks it handed out. Initialisation, allocation and release keep it.
\<close>

section \<open>The heap invariant\<close>

abbreviation heap_lo :: addr where "heap_lo \<equiv> 1744830472"
abbreviation heap_hi :: addr where "heap_hi \<equiv> 1745830456"

definition alloc_bit :: u32 where "alloc_bit = push_bit 31 1"

text \<open>\<open>bs\<close> are the free blocks in list order, \<open>al\<close> the blocks handed out, by header address.\<close>

definition free_part :: "heap \<Rightarrow> (addr \<times> nat) list \<Rightarrow> bool" where
  "free_part h bs \<longleftrightarrow>
     pxEnd h = heap_hi \<and> pxNextFreeBlock (hmem h heap_hi) = 0 \<and> xBlockSize (hmem h heap_hi) = 0 \<and>
     (xStart_at h < heap_lo \<or> heap_hi + 8 \<le> xStart_at h) \<and> xBlockSize (hmem h (xStart_at h)) = 0 \<and>
     xBlockAllocatedBit h = alloc_bit \<and>
     free_path (hmem h) (xStart_at h) bs heap_hi \<and> blocks_ok heap_lo heap_hi bs \<and>
     unat (xFreeBytesRemaining h) = sum_list (map snd bs)"

definition apart :: "addr \<Rightarrow> nat \<Rightarrow> addr \<Rightarrow> nat \<Rightarrow> bool" where
  "apart a s b t \<longleftrightarrow> a + s \<le> b \<or> b + t \<le> a"

definition alloc_part :: "heap \<Rightarrow> (addr \<times> nat) list \<Rightarrow> (addr \<rightharpoonup> nat) \<Rightarrow> bool" where
  "alloc_part h bs al \<longleftrightarrow>
     finite (dom al) \<and>
     (\<forall>a s. al a = Some s \<longrightarrow>
        heap_lo \<le> a \<and> a + s \<le> heap_hi \<and> 16 \<le> s \<and> 8 dvd a \<and> 8 dvd s \<and>
        hmem h a = \<lparr>pxNextFreeBlock = 0, xBlockSize = of_nat s OR alloc_bit\<rparr> \<and>
        (\<forall>(b, t) \<in> set bs. apart a s b t) \<and>
        (\<forall>b t. al b = Some t \<longrightarrow> a \<noteq> b \<longrightarrow> apart a s b t))"

definition heap_inv :: "heap \<Rightarrow> (addr \<times> nat) list \<Rightarrow> (addr \<rightharpoonup> nat) \<Rightarrow> bool" where
  "heap_inv h bs al \<longleftrightarrow> free_part h bs \<and> alloc_part h bs al \<and>
     sum_list (map snd bs) + (\<Sum>a \<in> dom al. the (al a)) = heap_hi - heap_lo"

lemma mask7: "unat ((x :: u32) AND 7) = unat x mod 8"
proof -
  have "x AND 7 = take_bit 3 x" by (simp add: take_bit_eq_mask mask_eq_exp_minus_1)
  then show ?thesis by (simp add: unsigned_take_bit_eq take_bit_nat_def)
qed

lemma heap_consts [simp]:
  "heapSTRUCT_SIZE = 8" "heapMINIMUM_BLOCK_SIZE = 16" "portBYTE_ALIGNMENT = 8"
  "portBYTE_ALIGNMENT_MASK = 7" "xTotalHeapSize = 999992" "pucAlignedHeap = heap_lo"
  by (simp_all add: heapSTRUCT_SIZE_def heapMINIMUM_BLOCK_SIZE_def portBYTE_ALIGNMENT_def
      portBYTE_ALIGNMENT_MASK_def xTotalHeapSize_def heapADJUSTED_HEAP_SIZE_def
      configTOTAL_HEAP_SIZE_def pucAlignedHeap_def ucHeap_def)

lemma bit_alloc_bit [simp]: "bit alloc_bit n \<longleftrightarrow> n = 31"
  unfolding alloc_bit_def bit_push_bit_iff by (auto simp: bit_1_iff)

lemma top_bit_clear:
  assumes "w AND alloc_bit = 0"
  shows "unat w < 2 ^ 31"
proof -
  have "\<not> bit w 31"
  proof
    assume "bit w 31"
    then have "bit (w AND alloc_bit) 31" by (simp add: bit_simps)
    then show False using assms by simp
  qed
  then have "\<not> bit (unat w) 31" by (simp add: bit_unsigned_iff)
  then have "even (unat w div 2 ^ 31)" by (simp add: bit_iff_odd)
  moreover have "unat w div 2 ^ 31 < 2" using unat_u32_less [of w] by (simp add: less_mult_imp_div_less)
  ultimately have "unat w div 2 ^ 31 = 0" by (auto simp: less_2_cases_iff)
  then show ?thesis by (simp add: div_eq_0_iff)
qed

lemma top_bit_set:
  assumes "s < 2 ^ 31"
  shows "(of_nat s OR alloc_bit) AND alloc_bit \<noteq> 0"
    "(of_nat s OR alloc_bit) AND NOT alloc_bit = (of_nat s :: u32)"
proof -
  have "bit ((of_nat s OR alloc_bit) AND alloc_bit) 31" by (simp add: bit_simps)
  then show "(of_nat s OR alloc_bit) AND alloc_bit \<noteq> 0" by (metis bit_0_eq bot_apply bot_bool_def)
  have "\<not> bit (of_nat s :: u32) 31" using assms by (simp add: bit_of_nat_iff bit_iff_odd [of s])
  then show "(of_nat s OR alloc_bit) AND NOT alloc_bit = (of_nat s :: u32)"
    by (intro bit_word_eqI) (auto simp: bit_simps)
qed

lemma wanted_size_unat:
  assumes "w > 0" "w AND alloc_bit = 0"
  shows "unat (wanted_size w) = (unat w + 15) div 8 * 8"
proof -
  have w: "unat w < 2 ^ 31" using assms(2) by (rule top_bit_clear)
  have w8: "unat (w + 8) = unat w + 8" using w by (subst unat_plus_no_wrap) auto
  define r where "r = (w + 8) AND 7"
  have r: "unat r = unat w mod 8" using w8 by (simp add: mask7 r_def)
  have "unat w mod 8 < 8" by simp
  then have "r \<le> 8" using r by (simp add: word_le_nat_alt del: mod_less_divisor)
  then have d: "unat (8 - r) = 8 - unat w mod 8" using r by (simp add: unat_sub)
  have e: "unat (w + 8 + (8 - r)) = unat w + 8 + (8 - unat w mod 8)"
    using w w8 d by (subst unat_plus_no_wrap) auto
  have z: "(r = 0) = (unat w mod 8 = 0)"
    using r by (metis unat_eq_zero)
  have "unat (wanted_size w) = (if unat w mod 8 = 0 then unat w + 8 else unat w + 8 + (8 - unat w mod 8))"
    using assms(1) w8 e z by (simp add: wanted_size_def Let_def flip: r_def)
  also have "\<dots> = (unat w + 15) div 8 * 8" by presburger
  finally show ?thesis .
qed


section \<open>Initialisation\<close>

text \<open>The state before the first request: \<open>pxEnd\<close> is null and the counters are as declared.\<close>

definition heap_fresh :: "heap \<Rightarrow> bool" where
  "heap_fresh h \<longleftrightarrow> pxEnd h = 0 \<and> xFreeBytesRemaining h = xTotalHeapSize \<and> xBlockAllocatedBit h = 0 \<and>
     (xStart_at h < heap_lo \<or> heap_hi + 8 \<le> xStart_at h)"

lemma prvHeapInit_inv:
  assumes "heap_fresh h"
  shows "heap_inv (prvHeapInit h) [(heap_lo, 999984)] Map.empty"
  using assms
  by (auto simp: heap_inv_def free_part_def alloc_part_def prvHeapInit_def heap_fresh_def Let_def
      blocks_ok_def alloc_bit_def)

section \<open>Allocation\<close>

lemma sum_list_mem_le: "(a, s) \<in> set bs \<Longrightarrow> s \<le> sum_list (map snd (bs :: (addr \<times> nat) list))"
  by (induction bs) auto

text \<open>The search stops at the first block that is large enough, or at the end marker.\<close>

lemma find_block_first:
  assumes inv: "free_part h bs" and w: "0 < w"
  defines "l \<equiv> takeWhile (\<lambda>x. snd x < unat w) bs"
  shows "find_block (hmem h) w (xStart_at h) (pxNextFreeBlock (hmem h (xStart_at h)))
    = Some (last_at (xStart_at h) l, head_at (dropWhile (\<lambda>x. snd x < unat w) bs) heap_hi)"
proof -
  define r where "r = dropWhile (\<lambda>x. snd x < unat w) bs"
  have bs: "bs = l @ r" by (simp add: l_def r_def)
  have path: "free_path (hmem h) (xStart_at h) l (head_at r heap_hi)"
    "free_path (hmem h) (last_at (xStart_at h) l) r heap_hi"
    using inv bs by (auto simp: free_part_def free_path_append)
  have ok: "blocks_ok heap_lo heap_hi bs" using inv by (simp add: free_part_def)
  then have nz: "\<forall>x \<in> set bs. fst x \<noteq> 0" by (auto simp: blocks_ok_def)
  have stop: "\<not> (xBlockSize (hmem h (head_at r heap_hi)) < w \<and> pxNextFreeBlock (hmem h (head_at r heap_hi)) \<noteq> 0)"
  proof (cases r)
    case Nil
    then show ?thesis using inv by (simp add: free_part_def)
  next
    case (Cons x r')
    moreover have "\<not> snd (hd r) < unat w"
      using Cons unfolding r_def by (metis hd_dropWhile list.distinct(1))
    ultimately show ?thesis
      using path(2) by (cases x) (simp add: word_less_nat_alt)
  qed
  show ?thesis unfolding r_def [symmetric]
  proof (rule find_block_walk [OF path(1) _ _ stop])
    show "\<forall>x \<in> set l. snd x < unat w \<and> fst x \<noteq> 0"
      using nz unfolding l_def by (auto dest: set_takeWhileD)
    show "head_at r heap_hi \<noteq> 0" using nz bs by (cases r) auto
  qed
qed

lemma fst_notin: "(\<And>c u. (c, u) \<in> set bs \<Longrightarrow> z \<noteq> c) \<Longrightarrow> z \<notin> set (map fst bs)"
  by fastforce

lemma alloc_partD:
  assumes "alloc_part h bs al" "al a = Some s"
  shows "heap_lo \<le> a" "a + s \<le> heap_hi" "16 \<le> s" "8 dvd a" "8 dvd s"
    "hmem h a = \<lparr>pxNextFreeBlock = 0, xBlockSize = of_nat s OR alloc_bit\<rparr>"
    "(b, t) \<in> set bs \<Longrightarrow> apart a s b t" "al b = Some t \<Longrightarrow> a \<noteq> b \<Longrightarrow> apart a s b t"
  using assms unfolding alloc_part_def by blast+

lemma alloc_part_shrink:
  assumes "alloc_part h bs al" "\<forall>a \<in> dom al. hmem h' a = hmem h a"
    "\<forall>(b, t) \<in> set bs'. \<exists>(c, u) \<in> set bs. c \<le> b \<and> b + t \<le> c + u"
  shows "alloc_part h' bs' al"
proof -
  have "apart a s b t" if "al a = Some s" "(b, t) \<in> set bs'" for a s b t
  proof -
    from that assms(3) obtain c u where "(c, u) \<in> set bs" "c \<le> b" "b + t \<le> c + u" by blast
    moreover have "apart a s c u" using alloc_partD(7) [OF assms(1) that(1)] calculation by blast
    ultimately show ?thesis by (auto simp: apart_def)
  qed
  with assms(1,2) show ?thesis unfolding alloc_part_def by (auto simp: domI)
qed

lemma alloc_part_add:
  assumes "alloc_part h bs al" "heap_lo \<le> a" "a + s \<le> heap_hi" "16 \<le> s" "8 dvd a" "8 dvd s"
    "hmem h a = \<lparr>pxNextFreeBlock = 0, xBlockSize = of_nat s OR alloc_bit\<rparr>"
    "\<forall>(b, t) \<in> set bs. apart a s b t" "\<forall>b t. al b = Some t \<longrightarrow> apart a s b t"
  shows "alloc_part h bs (al(a \<mapsto> s))"
proof -
  have sym: "apart a s b t \<longleftrightarrow> apart b t a s" for a s b t by (auto simp: apart_def)
  show ?thesis using assms sym unfolding alloc_part_def by (auto split: if_splits)
qed

lemma alloc_part_free_notin:
  assumes "alloc_part h bs al" "(a, s) \<in> set bs" "16 \<le> s"
  shows "a \<notin> dom al"
proof
  assume "a \<in> dom al"
  then obtain t where "al a = Some t" by auto
  then have "apart a t a s" "16 \<le> t" using alloc_partD [OF assms(1)] assms(2) by blast+
  then show False using assms(3) by (auto simp: apart_def)
qed

text \<open>Taking a block out of the free list and splitting it when it is much larger.\<close>

definition split_rest :: "addr \<Rightarrow> nat \<Rightarrow> nat \<Rightarrow> (addr \<times> nat) list" where
  "split_rest a s n = (if s - n > 16 then [(a + n, s - n)] else [])"

definition split_size :: "nat \<Rightarrow> nat \<Rightarrow> nat" where
  "split_size s n = (if s - n > 16 then n else s)"

lemma blocks_ok_distinct:
  assumes "blocks_ok lo hi bs" shows "distinct (map fst bs)"
proof -
  have "sorted_wrt (\<lambda>x y. fst x < fst y) bs"
    using assms unfolding blocks_ok_def by (auto elim: sorted_wrt_mono_rel [rotated])
  then show ?thesis by (induction bs) auto
qed

lemma malloc_unlink:
  assumes inv: "free_part h (l @ (a, s) # r)" and n: "unat w = n" "16 \<le> n" "n \<le> s" "8 dvd n"
  defines "x \<equiv> xStart_at h"
  defines "m \<equiv> set_next (hmem h) (last_at x l) (pxNextFreeBlock (hmem h a))"
  shows "\<exists>m'. split_block (h\<lparr>hmem := m\<rparr>) w a = Some (h\<lparr>hmem := m'\<rparr>)
    \<and> free_path m' x (l @ split_rest a s n @ r) heap_hi \<and> xBlockSize (m' x) = 0
    \<and> unat (xBlockSize (m' a)) = split_size s n
    \<and> (\<forall>c. c \<notin> set (x # map fst (l @ (a, s) # split_rest a s n @ r)) \<longrightarrow> m' c = hmem h c)"
proof -
  have ok: "blocks_ok heap_lo heap_hi (l @ (a, s) # r)" and e: "pxEnd h = heap_hi"
    and path: "free_path (hmem h) x (l @ (a, s) # r) heap_hi"
    and x: "x < heap_lo \<or> heap_hi + 8 \<le> x" "xBlockSize (hmem h x) = 0"
    using inv by (auto simp: free_part_def x_def)
  have dl: "distinct (map fst (l @ (a, s) # r))" using ok by (rule blocks_ok_distinct)
  have rng: "heap_lo \<le> c \<and> c + u \<le> heap_hi \<and> 16 \<le> u" if "(c, u) \<in> set (l @ (a, s) # r)" for c u
    using ok that by (auto simp: blocks_ok_def)
  have "x \<noteq> c" if "(c, u) \<in> set (l @ (a, s) # r)" for c u
    using rng [OF that] x by linarith
  then have "x \<notin> set (map fst (l @ (a, s) # r))"
    by (rule fst_notin)
  moreover have "x \<noteq> heap_hi" "x \<noteq> a + n" using x n rng [of a s] by auto
  ultimately have xd: "x \<notin> set (map fst (l @ (a, s) # r))" "x \<noteq> heap_hi" "x \<noteq> a + n"
    by blast+
  have it: "last_at x l \<in> set (x # map fst l)" by (auto simp: last_at_def)
  have "a \<notin> set (x # map fst l)" "set (x # map fst l) \<inter> set (map fst r) = {}"
    using dl xd by auto
  with it have itn: "last_at x l \<noteq> a" "last_at x l \<notin> set (map fst r)"
    by (metis, blast)
  have sz: "unat (xBlockSize (m a)) = s" using path by (simp add: m_def free_path_append)
  have "pxNextFreeBlock (hmem h a) = head_at r heap_hi"
    using path by (auto simp: free_path_append dest: free_path_head)
  then have "free_path m x l (head_at r heap_hi)"
    unfolding m_def using path dl xd
    by (auto simp: free_path_append intro: free_path_set_next)
  moreover have "free_path m (last_at x l) r heap_hi"
  proof -
    have "free_path (hmem h) a r heap_hi" using path by (simp add: free_path_append)
    then have "free_path m a r heap_hi"
      unfolding m_def using itn by (subst free_path_frame) auto
    then show ?thesis by (rule free_path_start) (simp add: m_def)
  qed
  ultimately have pm: "free_path m x (l @ r) heap_hi" by (simp add: free_path_append)
  have fr: "\<forall>c. c \<notin> set (x # map fst l) \<longrightarrow> m c = hmem h c"
    using it by (auto simp: m_def set_next_def)
  have "w \<le> xBlockSize (m a)" using sz n by (simp add: word_le_nat_alt)
  then have d: "unat (xBlockSize (m a) - w) = s - n" using sz n by (simp add: unat_sub)
  show ?thesis
  proof (cases "s - n > 16")
    case False
    then have "\<not> xBlockSize (m a) - w > heapMINIMUM_BLOCK_SIZE"
      using d by (simp add: word_less_nat_alt)
    with False pm sz fr x show ?thesis
      by (auto simp: split_block_def split_rest_def split_size_def m_def)
  next
    case True
    then have big: "xBlockSize (m a) - w > heapMINIMUM_BLOCK_SIZE"
      using d by (simp add: word_less_nat_alt)
    let ?nb = "a + n" and ?m2 = "set_size (set_size m (a + n) (xBlockSize (m a) - w)) a w"
    have sep: "\<forall>y \<in> set l. fst y + snd y < a" "\<forall>y \<in> set r. a + s < fst y"
      using ok by (auto simp: blocks_ok_append blocks_ok_Cons)
    have "a + n \<noteq> c" if "(c, u) \<in> set (l @ r)" for c u
      using sep rng [of c u] n that by fastforce
    then have "?nb \<notin> set (map fst (l @ r))"
      by (rule fst_notin)
    moreover have "a \<notin> set (map fst (l @ r))" "?nb \<noteq> heap_hi"
      using dl rng [of a s] True by auto
    ultimately have nbn: "?nb \<notin> set (map fst (l @ r))" "a \<notin> set (map fst (l @ r))" "?nb \<noteq> heap_hi"
      by blast+
    have p2: "free_path ?m2 x (l @ r) heap_hi"
      using pm nbn by (subst free_path_frame; auto)+
    have j: "join_block l ?nb (s - n) r = l @ (?nb, s - n) # r"
    proof -
      have "join_next ?nb (s - n) r = (?nb, s - n) # r"
        using sep n by (cases r) (auto simp: join_next_def)
      moreover have "fst (last l) + snd (last l) \<noteq> ?nb" if "l \<noteq> []"
      proof -
        have "fst (last l) + snd (last l) < a" using sep(1) that by simp
        then show ?thesis by simp
      qed
      ultimately show ?thesis by (auto simp: join_block_def)
    qed
    have hd: "distinct (x # ?nb # heap_hi # map fst (l @ r))"
    proof -
      have "heap_hi \<noteq> c" if "(c, u) \<in> set (l @ r)" for c u
        using rng [of c u] that by auto
      then have "heap_hi \<notin> set (map fst (l @ r))" by (rule fst_notin)
      then show ?thesis using xd nbn dl by auto
    qed
    obtain m' where m': "prvInsertBlockIntoFreeList (h\<lparr>hmem := ?m2\<rparr>) ?nb = Some (h\<lparr>hmem := m'\<rparr>)"
      "free_path m' x (join_block l ?nb (s - n) r) heap_hi"
      "\<forall>c. c \<notin> set (x # ?nb # map fst (l @ r)) \<longrightarrow> m' c = ?m2 c" "xBlockSize (m' x) = 0"
    proof -
      have "\<forall>y \<in> set l. fst y + snd y \<le> ?nb \<and> fst y < ?nb"
        using sep(1) by (auto dest!: bspec)
      moreover have "\<forall>y \<in> set r. ?nb + (s - n) \<le> fst y \<and> fst y + snd y \<le> heap_hi"
        using sep(2) rng n by (auto dest!: bspec)
      moreover have "xBlockSize (?m2 x) = 0" using x xd dl by (auto simp: m_def)
      ultimately have "insert_site (h\<lparr>hmem := ?m2\<rparr>) l r ?nb (s - n)"
        using p2 e hd d True n rng [of a s] by (simp add: insert_site_def x_def)
      then show ?thesis using prvInsert_path that e by (fastforce simp: inserted_def x_def)
    qed
    have "unat (xBlockSize (m' a)) = n"
      using m'(3) xd nbn n by auto
    moreover have "\<forall>c. c \<notin> set (x # map fst (l @ (a, s) # split_rest a s n @ r)) \<longrightarrow> m' c = hmem h c"
      using m'(3) fr True by (auto simp: set_size_def split_rest_def)
    ultimately show ?thesis
      using big True m' n(1) unfolding j
      by (intro exI [of _ m']) (simp add: split_block_def Let_def split_rest_def split_size_def)
  qed
qed

lemma split_rest_ok:
  assumes "blocks_ok heap_lo heap_hi (l @ (a, s) # r)" "16 \<le> n" "n \<le> s" "8 dvd n"
  shows "blocks_ok heap_lo heap_hi (l @ split_rest a s n @ r)"
    "sum_list (map snd (l @ split_rest a s n @ r)) + split_size s n
      = sum_list (map snd (l @ (a, s) # r))"
    "\<forall>(b, t) \<in> set (l @ split_rest a s n @ r).
       (\<exists>(c, u) \<in> set (l @ (a, s) # r). c \<le> b \<and> b + t \<le> c + u) \<and> apart a (split_size s n) b t"
    "16 \<le> split_size s n" "split_size s n \<le> s" "8 dvd split_size s n" "n \<le> split_size s n"
    "split_size s n \<le> n + 16"
proof -
  have ll: "b + t < a" if "(b, t) \<in> set l" for b t
    using assms(1) that by (auto simp: blocks_ok_append blocks_ok_Cons dest!: bspec)
  have rr: "a + s < b" if "(b, t) \<in> set r" for b t
    using assms(1) that by (auto simp: blocks_ok_append blocks_ok_Cons dest!: bspec)
  show "blocks_ok heap_lo heap_hi (l @ split_rest a s n @ r)"
    using assms rr ll
    by (auto simp: blocks_ok_append blocks_ok_Cons split_rest_def) (fastforce dest: ll)+
  show "sum_list (map snd (l @ split_rest a s n @ r)) + split_size s n
      = sum_list (map snd (l @ (a, s) # r))"
    using assms by (auto simp: split_rest_def split_size_def)
  show "\<forall>(b, t) \<in> set (l @ split_rest a s n @ r).
       (\<exists>(c, u) \<in> set (l @ (a, s) # r). c \<le> b \<and> b + t \<le> c + u) \<and> apart a (split_size s n) b t"
    using assms ll rr by (fastforce simp: split_rest_def split_size_def apart_def)
  show "16 \<le> split_size s n" "split_size s n \<le> s" "8 dvd split_size s n" "n \<le> split_size s n"
    "split_size s n \<le> n + 16"
    using assms by (auto simp: split_size_def blocks_ok_append blocks_ok_Cons)
qed

lemma malloc_block_inv:
  assumes inv: "heap_inv h (l @ (a, s) # r) al"
    and n: "unat w = n" "16 \<le> n" "n \<le> s" "8 dvd n"
  shows "\<exists>h'. malloc_block h w (last_at (xStart_at h) l) a = Some (a + 8, h')
    \<and> heap_inv h' (l @ split_rest a s n @ r) (al(a \<mapsto> split_size s n))
    \<and> a \<notin> dom al \<and> hbytes h' = hbytes h"
proof -
  define x where "x = xStart_at h"
  define bs where "bs = l @ split_rest a s n @ r"
  define s' where "s' = split_size s n"
  have fp: "free_part h (l @ (a, s) # r)" and ap: "alloc_part h (l @ (a, s) # r) al"
    and sum: "sum_list (map snd (l @ (a, s) # r)) + (\<Sum>a \<in> dom al. the (al a)) = heap_hi - heap_lo"
    using inv by (auto simp: heap_inv_def)
  have ok: "blocks_ok heap_lo heap_hi (l @ (a, s) # r)" using fp by (simp add: free_part_def)
  note sp = split_rest_ok [OF ok n(2-4), folded bs_def s'_def]
  have as: "heap_lo \<le> a" "a + s \<le> heap_hi" "8 dvd a" "16 \<le> s"
    using ok by (auto simp: blocks_ok_append blocks_ok_Cons)
  have anew: "a \<notin> dom al" using alloc_part_free_notin [OF ap _ as(4)] by auto
  obtain m' where m': "split_block (h\<lparr>hmem := set_next (hmem h) (last_at x l) (pxNextFreeBlock (hmem h a))\<rparr>) w a
      = Some (h\<lparr>hmem := m'\<rparr>)"
    "free_path m' x bs heap_hi" "xBlockSize (m' x) = 0" "unat (xBlockSize (m' a)) = s'"
    "\<forall>c. c \<notin> set (x # map fst (l @ (a, s) # split_rest a s n @ r)) \<longrightarrow> m' c = hmem h c"
    using malloc_unlink [OF fp n] unfolding x_def bs_def s'_def by blast
  define m2 where "m2 = set_next (set_size m' a (xBlockSize (m' a) OR alloc_bit)) a 0"
  define h' where "h' = h\<lparr>hmem := m2, xFreeBytesRemaining := xFreeBytesRemaining h - xBlockSize (m' a)\<rparr>"
  have nx: "pxNextFreeBlock (hmem h (last_at x l)) = a"
    using fp by (auto simp: free_part_def free_path_append x_def)
  have bit: "xBlockAllocatedBit h = alloc_bit" using fp by (simp add: free_part_def)
  have run: "malloc_block h w (last_at x l) a = Some (a + 8, h')"
    using m'(1) bit by (simp add: malloc_block_def Let_def nx h'_def m2_def)
  have xs: "x < heap_lo \<or> heap_hi + 8 \<le> x" using fp by (simp add: free_part_def x_def)
  then have xa: "x \<noteq> a" using as by auto
  have "a \<noteq> c" if "(c, u) \<in> set bs" for c u
    using sp(3,4) sp(1) that by (fastforce simp: apart_def blocks_ok_def)
  then have abs: "a \<notin> set (map fst bs)" by (rule fst_notin)
  have keep: "m2 c = hmem h c" if "c \<noteq> x" "c \<noteq> a" "c \<notin> set (map fst bs)" for c
    using m'(5) that by (auto simp: m2_def set_next_def set_size_def bs_def)
  have "free_path m2 x bs heap_hi"
    using m'(2) abs xa unfolding m2_def by (subst free_path_frame; auto)+
  moreover have "m2 heap_hi = hmem h heap_hi"
  proof (rule keep)
    have "heap_hi \<noteq> c" if "(c, u) \<in> set bs" for c u
      using sp(1) that by (auto simp: blocks_ok_def)
    then show "heap_hi \<notin> set (map fst bs)" by (rule fst_notin)
  qed (use xs as in auto)
  moreover have "unat (xFreeBytesRemaining h - xBlockSize (m' a)) = sum_list (map snd bs)"
    using fp sp(2) m'(4) by (simp add: free_part_def unat_sub word_le_nat_alt)
  ultimately have "free_part h' bs"
    using fp sp(1) m'(3) xa by (simp add: free_part_def h'_def x_def m2_def)
  moreover have "alloc_part h' bs (al(a \<mapsto> s'))"
  proof (rule alloc_part_add)
    show "alloc_part h' bs al"
    proof (rule alloc_part_shrink [OF ap])
      have "c \<notin> set (map fst bs) \<and> c \<noteq> x \<and> c \<noteq> a" if alc: "al c = Some t" for c t
      proof -
        have c: "heap_lo \<le> c" "c + t \<le> heap_hi" "16 \<le> t"
          using alloc_partD [OF ap alc] by auto
        have "c \<noteq> d" if d: "(d, u) \<in> set bs" for d u
        proof -
          obtain e v where ev: "(e, v) \<in> set (l @ (a, s) # r)" "e \<le> d" "d + u \<le> e + v"
            using sp(3) d by blast
          have "apart c t e v" using alloc_partD(7) [OF ap alc ev(1)] .
          moreover have "16 \<le> u" using sp(1) d by (auto simp: blocks_ok_def)
          ultimately show ?thesis using ev c by (auto simp: apart_def)
        qed
        then have "c \<notin> set (map fst bs)" by (rule fst_notin)
        then show ?thesis using alc anew xs c by auto
      qed
      then show "\<forall>c \<in> dom al. hmem h' c = hmem h c" using keep by (auto simp: h'_def)
    qed (use sp(3) in auto)
    show "hmem h' a = \<lparr>pxNextFreeBlock = 0, xBlockSize = of_nat s' OR alloc_bit\<rparr>"
      using m'(4) by (auto simp: h'_def m2_def set_next_def set_size_def)
    show "\<forall>(b, t) \<in> set bs. apart a s' b t" using sp(3) by auto
    show "\<forall>b t. al b = Some t \<longrightarrow> apart a s' b t"
      using alloc_partD(7) [OF ap, where b = a and t = s] sp(5) by (fastforce simp: apart_def)
  qed (use as sp in auto)
  moreover have "sum_list (map snd bs) + (\<Sum>c \<in> dom (al(a \<mapsto> s')). the ((al(a \<mapsto> s')) c)) = heap_hi - heap_lo"
  proof -
    have "finite (dom al)" using ap by (simp add: alloc_part_def)
    moreover have "(\<Sum>c \<in> dom al. the ((al(a \<mapsto> s')) c)) = (\<Sum>c \<in> dom al. the (al c))"
      using anew by (intro sum.cong) auto
    ultimately show ?thesis using anew sum sp(2) by simp
  qed
  ultimately have "heap_inv h' bs (al(a \<mapsto> s'))" by (simp add: heap_inv_def)
  then show ?thesis using run anew by (auto simp: x_def bs_def s'_def h'_def)
qed

text \<open>The smallest free block size that serves a request of \<open>w\<close> bytes.\<close>

definition block_need :: "u32 \<Rightarrow> nat" where
  "block_need w = (unat w + 15) div 8 * 8"

lemma block_need_props:
  "0 < unat w \<Longrightarrow> 16 \<le> block_need w" "8 dvd block_need w" "unat w + 8 \<le> block_need w"
  "block_need w \<le> unat w + 15"
  unfolding block_need_def by presburger+

lemma heap_inv_started: "heap_inv h bs al \<Longrightarrow> pxEnd h \<noteq> 0"
  by (simp add: heap_inv_def free_part_def)

lemma wanted_size_0: "wanted_size 0 = 0"
  by (simp add: wanted_size_def)

text \<open>A request that cannot be served: nothing asked for, too large for a size, or no block fits.\<close>

definition refused :: "u32 \<Rightarrow> (addr \<times> nat) list \<Rightarrow> bool" where
  "refused w bs \<longleftrightarrow> w = 0 \<or> 2 ^ 31 \<le> unat w \<or> (\<forall>(a, s) \<in> set bs. s < block_need w)"

lemma top_bit_iff: "w AND alloc_bit = 0 \<longleftrightarrow> unat w < 2 ^ 31"
proof
  assume "unat w < 2 ^ 31"
  then have "\<not> bit (unat w) 31" by (simp add: bit_iff_odd)
  then have "\<not> bit w 31" by (simp add: bit_unsigned_iff)
  then show "w AND alloc_bit = 0" by (intro bit_word_eqI) (auto simp: bit_simps)
qed (rule top_bit_clear)

lemma pvPortMalloc_refused:
  assumes inv: "heap_inv h bs al" and "refused w bs"
  shows "pvPortMalloc h w = Some (0, h)"
proof -
  have fp: "free_part h bs" using inv by (simp add: heap_inv_def)
  note st = heap_inv_started [OF inv]
  have bit: "xBlockAllocatedBit h = alloc_bit" and e: "pxEnd h = heap_hi"
    using fp by (auto simp: free_part_def)
  show ?thesis
  proof (cases "w AND alloc_bit = 0 \<and> w \<noteq> 0")
    case False
    then show ?thesis using st bit
      by (auto simp: pvPortMalloc_def Let_def wanted_size_0)
  next
    case True
    then have n: "unat (wanted_size w) = block_need w"
      using wanted_size_unat [of w] by (simp add: block_need_def word_neq_0_conv)
    then have pos: "0 < wanted_size w"
      using block_need_props(3) [of w] by (simp add: word_less_nat_alt)
    have small: "\<forall>x \<in> set bs. snd x < unat (wanted_size w)"
      using assms(2) True n by (auto simp: refused_def top_bit_iff)
    then have dw: "dropWhile (\<lambda>x. snd x < unat (wanted_size w)) bs = []"
      by (simp add: dropWhile_eq_Nil_conv)
    show ?thesis
      using find_block_first [OF fp pos, unfolded dw] st bit True e by (simp add: pvPortMalloc_def Let_def)
  qed
qed

text \<open>The block taken is the first one that is large enough.\<close>

lemma pvPortMalloc_first_fit:
  assumes inv: "heap_inv h bs al" and "\<not> refused w bs"
  shows "\<exists>l a s r h'. bs = l @ (a, s) # r \<and> (\<forall>x \<in> set l. snd x < block_need w) \<and> block_need w \<le> s
    \<and> pvPortMalloc h w = Some (a + 8, h')
    \<and> heap_inv h' (l @ split_rest a s (block_need w) @ r) (al(a \<mapsto> split_size s (block_need w)))
    \<and> a \<notin> dom al \<and> unat w + 8 \<le> split_size s (block_need w)
    \<and> split_size s (block_need w) \<le> unat w + 31 \<and> hbytes h' = hbytes h"
proof -
  have fp: "free_part h bs" using inv by (simp add: heap_inv_def)
  have bit: "xBlockAllocatedBit h = alloc_bit" and e: "pxEnd h = heap_hi"
    and ok: "blocks_ok heap_lo heap_hi bs"
    using fp by (auto simp: free_part_def)
  define W where "W = wanted_size w"
  have w: "w AND alloc_bit = 0" "w > 0"
    using assms(2) by (auto simp: refused_def top_bit_iff word_neq_0_conv)
  then have n: "unat W = block_need w"
    using wanted_size_unat [of w] by (simp add: W_def block_need_def)
  then have pos: "0 < W" using block_need_props(3) [of w] by (simp add: word_less_nat_alt)
  define l where "l = takeWhile (\<lambda>x. snd x < unat W) bs"
  have "dropWhile (\<lambda>x. snd x < unat W) bs \<noteq> []"
    using assms(2) n by (fastforce simp: refused_def dropWhile_eq_Nil_conv)
  then obtain a s r where d: "dropWhile (\<lambda>x. snd x < unat W) bs = (a, s) # r"
    by (metis list.exhaust prod.collapse)
  then have bs: "bs = l @ (a, s) # r" by (metis l_def takeWhile_dropWhile_id)
  have big: "block_need w \<le> s"
    using d n by (metis dropWhile_eq_Cons_conv not_less snd_conv)
  have fnd: "find_block (hmem h) W (xStart_at h) (pxNextFreeBlock (hmem h (xStart_at h)))
      = Some (last_at (xStart_at h) l, a)"
    using find_block_first [OF fp pos] d by (simp add: l_def)
  have "a + s \<le> heap_hi" "16 \<le> s" using ok bs by (auto simp: blocks_ok_append blocks_ok_Cons)
  then have ne: "a \<noteq> pxEnd h" using e by auto
  have "s \<le> unat (xFreeBytesRemaining h)"
    using fp sum_list_mem_le [of a s bs] bs by (simp add: free_part_def)
  then have le: "W \<le> xFreeBytesRemaining h" using n big by (simp add: word_le_nat_alt)
  have run: "pvPortMalloc h w = malloc_block h W (last_at (xStart_at h) l) a"
    using heap_inv_started [OF inv] w bit pos le fnd ne
    by (simp add: pvPortMalloc_def Let_def flip: W_def)
  have n16: "16 \<le> block_need w" using block_need_props(1) [of w] w by (simp add: word_less_nat_alt)
  obtain h' where h': "malloc_block h W (last_at (xStart_at h) l) a = Some (a + 8, h')"
    "heap_inv h' (l @ split_rest a s (block_need w) @ r) (al(a \<mapsto> split_size s (block_need w)))"
    "a \<notin> dom al" "hbytes h' = hbytes h"
    using malloc_block_inv [OF inv [unfolded bs] n n16 big block_need_props(2)] by blast
  have "unat w + 8 \<le> split_size s (block_need w)" "split_size s (block_need w) \<le> unat w + 31"
    using split_rest_ok(7,8) [OF ok [unfolded bs] n16 big block_need_props(2)]
      block_need_props(3,4) [of w] by auto
  moreover have "\<forall>x \<in> set l. snd x < block_need w"
    using n set_takeWhileD [of _ "\<lambda>x. snd x < unat W" bs] by (auto simp: l_def)
  ultimately have "bs = l @ (a, s) # r \<and> (\<forall>x \<in> set l. snd x < block_need w) \<and> block_need w \<le> s
    \<and> pvPortMalloc h w = Some (a + 8, h')
    \<and> heap_inv h' (l @ split_rest a s (block_need w) @ r) (al(a \<mapsto> split_size s (block_need w)))
    \<and> a \<notin> dom al \<and> unat w + 8 \<le> split_size s (block_need w)
    \<and> split_size s (block_need w) \<le> unat w + 31 \<and> hbytes h' = hbytes h"
    using run h' big bs by simp
  then show ?thesis by (intro exI)
qed

lemma pvPortMalloc_served:
  assumes "heap_inv h bs al" "\<not> refused w bs"
  shows "\<exists>a s h' bs'. pvPortMalloc h w = Some (a + 8, h') \<and> heap_inv h' bs' (al(a \<mapsto> s))
    \<and> a \<notin> dom al \<and> unat w + 8 \<le> s \<and> s \<le> unat w + 31 \<and> hbytes h' = hbytes h"
  using pvPortMalloc_first_fit [OF assms] by blast

text \<open>From one large block: the request is cut from its front.\<close>

lemma pvPortMalloc_single:
  assumes "heap_inv h [(a, s)] al" "0 < unat w" "unat w < 2 ^ 31" "block_need w + 16 < s"
  shows "\<exists>h'. pvPortMalloc h w = Some (a + 8, h') \<and>
    heap_inv h' [(a + block_need w, s - block_need w)] (al(a \<mapsto> block_need w))"
proof -
  have "\<not> refused w [(a, s)]" using assms(2-4) by (auto simp: refused_def)
  from pvPortMalloc_first_fit [OF assms(1) this] obtain l b t r h' where r:
    "[(a, s)] = l @ (b, t) # r" "pvPortMalloc h w = Some (b + 8, h')"
    "heap_inv h' (l @ split_rest b t (block_need w) @ r) (al(b \<mapsto> split_size t (block_need w)))"
    by blast
  then have "l = []" "b = a" "t = s" "r = []" by (auto simp: Cons_eq_append_conv)
  moreover have "16 < s - block_need w" using assms(4) by simp
  ultimately show ?thesis using r by (auto simp: split_rest_def split_size_def)
qed

section \<open>Release\<close>

lemma join_next_apart:
  assumes "(c, u) \<in> set (join_next b s r)" "apart a t b s" "0 < s" "0 < t"
    "\<And>d v. (d, v) \<in> set r \<Longrightarrow> apart a t d v \<and> 0 < v"
  shows "apart a t c u"
proof (cases r)
  case Nil
  then show ?thesis using assms by (simp add: join_next_def)
next
  case (Cons y r')
  obtain d v where y: "y = (d, v)" by (cases y)
  have "apart a t d v" "0 < v" using assms(5) Cons y by auto
  then show ?thesis
    using assms(1-4) assms(5) [of c u] Cons y
    by (auto simp: join_next_def apart_def split: if_splits)
qed

lemma join_block_apart:
  assumes "(c, u) \<in> set (join_block l b s r)" "apart a t b s" "0 < s" "0 < t"
    "\<And>d v. (d, v) \<in> set (l @ r) \<Longrightarrow> apart a t d v \<and> 0 < v"
  shows "apart a t c u"
proof (cases l rule: rev_cases)
  case Nil
  then show ?thesis
    using assms join_next_apart [of c u b s r a t] by (simp add: join_block_def)
next
  case (snoc l' y)
  obtain d v where y: "y = (d, v)" by (cases y)
  have dv: "apart a t d v" "0 < v" using assms(5) snoc y by auto
  show ?thesis
  proof (cases "(c, u) \<in> set l")
    case True
    then show ?thesis using assms(5) by simp
  next
    case False
    then have "(c, u) \<in> set (if d + v = b then join_next d (v + s) r else join_next b s r)"
      using assms(1) snoc y by (auto simp: join_block_def split: if_splits)
    moreover have "d + v = b \<Longrightarrow> apart a t d (v + s)"
      using dv assms(2-4) by (auto simp: apart_def)
    ultimately show ?thesis
      using join_next_apart [of c u d "v + s" r a t] join_next_apart [of c u b s r a t] assms(2-5)
      by (auto split: if_splits)
  qed
qed

lemma alloc_part_del:
  assumes "alloc_part h bs al" "\<And>c t. al c = Some t \<Longrightarrow> c \<noteq> a \<Longrightarrow> hmem h' c = hmem h c"
    "\<And>c t b u. al c = Some t \<Longrightarrow> c \<noteq> a \<Longrightarrow> (b, u) \<in> set bs' \<Longrightarrow> apart c t b u"
  shows "alloc_part h' bs' (al(a := None))"
  using assms unfolding alloc_part_def by (auto split: if_splits)

text \<open>Where a released block goes in the list of free blocks.\<close>

lemma free_list_split:
  assumes ok: "blocks_ok heap_lo heap_hi bs" and ap: "alloc_part h bs al" and p: "al a = Some s"
  obtains l r where "bs = l @ r" "\<forall>y \<in> set l. fst y + snd y \<le> a \<and> fst y < a"
    "\<forall>y \<in> set r. a + s \<le> fst y \<and> fst y + snd y \<le> heap_hi"
proof -
  define l where "l = takeWhile (\<lambda>y. fst y < a) bs"
  define r where "r = dropWhile (\<lambda>y. fst y < a) bs"
  have bs: "bs = l @ r" by (simp add: l_def r_def)
  have s: "16 \<le> s" using alloc_partD(3) [OF ap p] .
  have far: "apart a s b t \<and> 16 \<le> t \<and> b + t \<le> heap_hi" if "(b, t) \<in> set bs" for b t
    using alloc_partD(7) [OF ap p that] ok that by (auto simp: blocks_ok_def)
  have "fst y + snd y \<le> a \<and> fst y < a" if "y \<in> set l" for y
  proof -
    have "fst y < a" using that set_takeWhileD [of y "\<lambda>y. fst y < a" bs] by (simp add: l_def)
    moreover have "apart a s (fst y) (snd y)" using far [of "fst y" "snd y"] that bs by simp
    ultimately show ?thesis using s by (auto simp: apart_def)
  qed
  moreover have "a + s \<le> fst y \<and> fst y + snd y \<le> heap_hi" if "y \<in> set r" for y
  proof -
    obtain z r' where z: "r = z # r'" using \<open>y \<in> set r\<close> by (cases r) auto
    then have "\<not> fst z < a" unfolding r_def by (simp add: dropWhile_eq_Cons_conv)
    moreover have "y = z \<or> fst z + snd z < fst y"
      using ok bs z that by (auto simp: blocks_ok_def sorted_wrt_append)
    ultimately show ?thesis using far [of "fst y" "snd y"] bs that s by (auto simp: apart_def)
  qed
  ultimately show thesis using that bs by blast
qed

lemma vPortFree_inv:
  assumes inv: "heap_inv h bs al" and p: "al a = Some s"
  shows "\<exists>h' bs'. vPortFree h (a + 8) = Some h' \<and> heap_inv h' bs' (al(a := None))
    \<and> unat (xFreeBytesRemaining h') = unat (xFreeBytesRemaining h) + s \<and> hbytes h' = hbytes h"
proof -
  define x where "x = xStart_at h"
  have fp: "free_part h bs" and ap: "alloc_part h bs al"
    and sum: "sum_list (map snd bs) + (\<Sum>a \<in> dom al. the (al a)) = heap_hi - heap_lo"
    using inv by (auto simp: heap_inv_def)
  have ok: "blocks_ok heap_lo heap_hi bs" and path: "free_path (hmem h) x bs heap_hi"
    and bit: "xBlockAllocatedBit h = alloc_bit" and e: "pxEnd h = heap_hi"
    and xs: "x < heap_lo \<or> heap_hi + 8 \<le> x" "xBlockSize (hmem h x) = 0"
    using fp by (auto simp: free_part_def x_def)
  note A = alloc_partD [OF ap p]
  have s31: "s < 2 ^ 31" using A by simp
  then have us: "unat (of_nat s :: u32) = s" by (simp add: unat_of_nat take_bit_nat_eq_self)
  obtain l r where bs: "bs = l @ r" and l: "\<forall>y \<in> set l. fst y + snd y \<le> a \<and> fst y < a"
    and r: "\<forall>y \<in> set r. a + s \<le> fst y \<and> fst y + snd y \<le> heap_hi"
    by (rule free_list_split [OF ok ap p])
  have rng: "heap_lo \<le> c \<and> c + u \<le> heap_hi \<and> 16 \<le> u" if "(c, u) \<in> set bs" for c u
    using ok that by (auto simp: blocks_ok_def)
  have "x \<noteq> c \<and> heap_hi \<noteq> c \<and> a \<noteq> c" if "(c, u) \<in> set bs" for c u
    using rng [OF that] xs(1) A(7) [OF that] A(3) by (auto simp: apart_def)
  then have "x \<notin> set (map fst bs)" "heap_hi \<notin> set (map fst bs)" "a \<notin> set (map fst bs)"
    by (metis fst_notin)+
  moreover have "x \<noteq> heap_hi" "x \<noteq> a" "a \<noteq> heap_hi" using xs(1) A by auto
  ultimately have dist: "distinct (x # a # heap_hi # map fst bs)"
    using blocks_ok_distinct [OF ok] by simp
  define m1 where "m1 = set_size (hmem h) a (of_nat s)"
  define f where "f = xFreeBytesRemaining h + of_nat s"
  have p1: "free_path m1 x bs heap_hi"
    using path dist unfolding m1_def by (subst free_path_frame) auto
  define h1 where "h1 = h\<lparr>hmem := m1, xFreeBytesRemaining := f\<rparr>"
  have h1: "xStart_at h1 = x" "hmem h1 = m1" "pxEnd h1 = heap_hi"
    using e by (auto simp: h1_def x_def)
  have "xBlockSize (m1 x) = 0" "unat (xBlockSize (m1 a)) = s"
    using xs us dist by (auto simp: m1_def)
  then have site: "insert_site h1 l r a s"
    using p1 dist l r A(2,3) xs(1) h1 by (simp add: insert_site_def bs)
  obtain m' where m': "prvInsertBlockIntoFreeList h1 a = Some (h1\<lparr>hmem := m'\<rparr>)"
    "free_path m' x (join_block l a s r) heap_hi" "xBlockSize (m' x) = 0"
    "\<forall>c. c \<notin> set (x # a # map fst bs) \<longrightarrow> m' c = m1 c"
    using prvInsert_path [OF site] h1 unfolding inserted_def bs by auto
  define bs' where "bs' = join_block l a s r"
  define h' where "h' = h1\<lparr>hmem := m'\<rparr>"
  have run: "vPortFree h (a + 8) = Some h'"
    using A(6) bit top_bit_set [OF s31] m'(1)
    by (simp add: vPortFree_def Let_def h'_def h1_def m1_def f_def)
  have sb: "sum_list (map snd bs') = sum_list (map snd bs) + s"
    by (simp add: bs'_def sum_join_block bs)
  have total: "sum_list (map snd bs) + s \<le> heap_hi - heap_lo"
  proof -
    have "finite (dom al)" using ap by (simp add: alloc_part_def)
    moreover have "a \<in> dom al" using p by auto
    ultimately have "the (al a) \<le> (\<Sum>c \<in> dom al. the (al c))" by (intro member_le_sum) auto
    then show ?thesis using sum p by simp
  qed
  then have f: "unat f = sum_list (map snd bs) + s"
    using fp us unfolding f_def by (subst unat_plus_no_wrap) (auto simp: free_part_def)
  have ok': "blocks_ok heap_lo heap_hi bs'"
    unfolding bs'_def using ok l r A by (intro join_block_ok) (auto simp: bs)
  have hi: "m' heap_hi = hmem h heap_hi"
    using m'(4) dist by (auto simp: m1_def set_size_def)
  have "free_part h' bs'"
    using fp m' ok' f sb hi by (simp add: free_part_def h'_def h1_def x_def bs'_def)
  moreover have "alloc_part h' bs' (al(a := None))"
  proof (rule alloc_part_del [OF ap])
    fix c t assume c: "al c = Some t" "c \<noteq> a"
    have "c \<noteq> d" if "(d, u) \<in> set bs" for d u
      using alloc_partD(3,7) [OF ap c(1)] that rng [OF that] by (fastforce simp: apart_def)
    then have "c \<notin> set (map fst bs)" by (rule fst_notin)
    moreover have "c \<noteq> x" using xs alloc_partD [OF ap c(1)] by auto
    ultimately show "hmem h' c = hmem h c"
      using m'(4) c by (auto simp: h'_def h1_def m1_def set_size_def)
  next
    fix c t b u assume c: "al c = Some t" "c \<noteq> a" "(b, u) \<in> set bs'"
    show "apart c t b u"
    proof (rule join_block_apart [OF c(3) [unfolded bs'_def]])
      show "apart c t a s" using alloc_partD(8) [OF ap c(1) p c(2)] .
      show "0 < s" "0 < t" using A(3) alloc_partD(3) [OF ap c(1)] by auto
      show "apart c t d v \<and> 0 < v" if "(d, v) \<in> set (l @ r)" for d v
        using alloc_partD(7) [OF ap c(1)] rng [of d v] that by (auto simp: bs)
    qed
  qed
  moreover have "sum_list (map snd bs') + (\<Sum>c \<in> dom (al(a := None)). the ((al(a := None)) c)) = heap_hi - heap_lo"
  proof -
    have "finite (dom al)" "a \<in> dom al" using ap p by (auto simp: alloc_part_def)
    then have "(\<Sum>c \<in> dom al. the (al c)) = s + (\<Sum>c \<in> dom al - {a}. the (al c))"
      using p by (simp add: sum.remove)
    moreover have "(\<Sum>c \<in> dom al - {a}. the ((al(a := None)) c)) = (\<Sum>c \<in> dom al - {a}. the (al c))"
      by (intro sum.cong) auto
    ultimately show ?thesis using sum sb by simp
  qed
  ultimately have "heap_inv h' bs' (al(a := None))" by (simp add: heap_inv_def)
  then show ?thesis using run f fp by (auto simp: h'_def h1_def free_part_def)
qed

end
