(* ===== verification/LibMem_Thms.thy ===== *)
theory LibMem_Thms
  imports LibMem_Inv Allocator
begin

text \<open>
  What the allocator promises: the interfaces \<open>allocator\<close> and \<open>callocator\<close> interpreted on the code's
  model (a client holds the address eight bytes after the header of its block), and the properties
  of the allocator.
\<close>

section \<open>The interface\<close>

text \<open>The blocks as the client sees them: the payload after the header.\<close>

definition payloads :: "(addr \<rightharpoonup> nat) \<Rightarrow> (addr \<rightharpoonup> nat)" where
  "payloads al = (\<lambda>p. if p < 8 then None else map_option (\<lambda>s. s - 8) (al (p - 8)))"

definition heap_live :: "heap \<Rightarrow> (addr \<rightharpoonup> nat) \<Rightarrow> bool" where
  "heap_live h al \<longleftrightarrow> (\<exists>bs bl. heap_inv h bs bl \<and> al = payloads bl)"

lemma payloads_upd: "payloads (bl(a \<mapsto> s)) = (payloads bl)(a + 8 \<mapsto> s - 8)"
  by (rule ext) (auto simp: payloads_def)

lemma payloads_del: "payloads (bl(a := None)) = (payloads bl)(a + 8 := None)"
  by (rule ext) (auto simp: payloads_def)

lemma payloads_dom: "p \<in> dom (payloads bl) \<longleftrightarrow> 8 \<le> p \<and> p - 8 \<in> dom bl"
  by (auto simp: payloads_def split: if_splits)

interpretation lib_mem: allocator heap_live pvPortMalloc vPortFree
proof
  fix h al w assume "heap_live h al"
  then obtain bs bl where inv: "heap_inv h bs bl" and al: "al = payloads bl"
    by (auto simp: heap_live_def)
  show "(pvPortMalloc h w = Some (0, h)) \<or>
      (\<exists>p h' s. pvPortMalloc h w = Some (p, h') \<and> p \<noteq> 0 \<and> p \<notin> dom al \<and> unat w \<le> s \<and> heap_live h' (al(p \<mapsto> s)))"
  proof (cases "refused w bs")
    case True
    then show ?thesis using pvPortMalloc_refused [OF inv] by blast
  next
    case False
    then obtain a s h' bs' where r: "pvPortMalloc h w = Some (a + 8, h')" "heap_inv h' bs' (bl(a \<mapsto> s))"
      "a \<notin> dom bl" "unat w + 8 \<le> s"
      using pvPortMalloc_served [OF inv] by blast
    then have "heap_live h' (al(a + 8 \<mapsto> s - 8))" "a + 8 \<notin> dom al"
      unfolding heap_live_def al by (auto simp: payloads_upd [symmetric] payloads_dom)
    then show ?thesis using r by (intro disjI2 exI [of _ "a + 8"]) auto
  qed
next
  fix h al p assume "heap_live h al" "p \<in> dom al"
  then obtain bs bl where inv: "heap_inv h bs bl" and al: "al = payloads bl"
    by (auto simp: heap_live_def)
  with \<open>p \<in> dom al\<close> have p: "8 \<le> p" "p - 8 \<in> dom bl" by (simp_all add: payloads_dom)
  then obtain s where s: "bl (p - 8) = Some s" by auto
  from p have p8: "p - 8 + 8 = p" by simp
  from vPortFree_inv [OF inv s] obtain h' bs' where
    "vPortFree h p = Some h'" "heap_inv h' bs' (bl(p - 8 := None))" by (auto simp: p8)
  moreover have "payloads (bl(p - 8 := None)) = al(p := None)"
    using payloads_del [of bl "p - 8"] al p8 by simp
  ultimately show "\<exists>h'. vPortFree h p = Some h' \<and> heap_live h' (al(p := None))"
    by (metis heap_live_def)
next
  fix h show "vPortFree h 0 = Some h" by (simp add: vPortFree_def)
next
  fix h al p s q t
  assume a: "heap_live h al" "al p = Some s" "al q = Some t" "p \<noteq> q"
  then obtain bs bl where inv: "heap_inv h bs bl" and al: "al = payloads bl"
    by (auto simp: heap_live_def)
  from a al obtain s' t' where b: "bl (p - 8) = Some s'" "bl (q - 8) = Some t'" "8 \<le> p" "8 \<le> q"
    "s = s' - 8" "t = t' - 8"
    by (auto simp: payloads_def split: if_splits)
  have "alloc_part h bs bl" using inv by (simp add: heap_inv_def)
  then have "apart (p - 8) s' (q - 8) t'" "16 \<le> s'" "16 \<le> t'"
    using alloc_partD(3,8) b a(4) by auto
  then show "p + s \<le> q \<or> q + t \<le> p" using b by (auto simp: apart_def)
qed

lemma pvPortCalloc_alloc:
  assumes "pvPortMalloc h (n * w) = Some (p, h')" "p \<noteq> 0 \<or> n * w = 0"
  shows "pvPortCalloc h n w = Some (p, h'\<lparr>hbytes := mem_zero (hbytes h') p (unat (n * w))\<rparr>)"
  using assms by (auto simp: pvPortCalloc_def)

lemma heap_live_bytes: "heap_live h al \<Longrightarrow> heap_live (h\<lparr>hbytes := f\<rparr>) al"
  by (auto simp: heap_live_def heap_inv_def free_part_def alloc_part_def)

interpretation lib_mem: callocator heap_live pvPortMalloc vPortFree pvPortCalloc
proof
  fix h al n w assume live: "heap_live h al"
  from lib_mem.alloc_step [OF live, of "n * w"]
  show "pvPortCalloc h n w = None \<or> pvPortCalloc h n w = Some (0, h) \<or>
      (\<exists>p h' s. pvPortCalloc h n w = Some (p, h') \<and> p \<noteq> 0 \<and> p \<notin> dom al \<and> unat (n * w) \<le> s
        \<and> heap_live h' (al(p \<mapsto> s)))"
  proof (elim disjE exE conjE)
    assume r: "pvPortMalloc h (n * w) = Some (0, h)"
    then show ?thesis
      by (cases "n * w = 0") (auto simp: pvPortCalloc_def mem_zero_def)
  next
    fix p h' s assume r: "pvPortMalloc h (n * w) = Some (p, h')" "p \<noteq> 0" "p \<notin> dom al"
      "unat (n * w) \<le> s" "heap_live h' (al(p \<mapsto> s))"
    then show ?thesis
      using pvPortCalloc_alloc [OF r(1)] heap_live_bytes [OF r(5)] by blast
  qed
next
  fix h al and n w :: u32 assume live: "heap_live h al" and z: "n * w = 0"
  have "pvPortMalloc h 0 = Some (0, h)"
    using live pvPortMalloc_refused [of h _ _ 0] by (auto simp: heap_live_def refused_def)
  then show "pvPortCalloc h n w = Some (0, h)"
    using z by (simp add: pvPortCalloc_def mem_zero_def)
qed

section \<open>The heap at rest\<close>

lemma blocks_fill:
  assumes "blocks_ok lo hi bs" "bs \<noteq> []"
  shows "sum_list (map snd bs) + fst (hd bs) + (length bs - 1) \<le> hi"
  using assms
proof (induction bs)
  case (Cons x bs)
  then show ?case
    by (cases x; cases bs) (auto simp: blocks_ok_Cons)
qed simp

text \<open>With nothing handed out the free list is one block.\<close>

lemma empty_heap_full:
  assumes "heap_inv h bs Map.empty"
  shows "bs = [(heap_lo, 999984)] \<and> xPortGetFreeHeapSize h = 999984"
proof -
  have fp: "free_part h bs" and sum: "sum_list (map snd bs) = 999984"
    using assms by (auto simp: heap_inv_def)
  have ok: "blocks_ok heap_lo heap_hi bs" using fp by (simp add: free_part_def)
  have ne: "bs \<noteq> []" using sum by auto
  then have "heap_lo \<le> fst (hd bs)" using ok by (cases bs) (auto simp: blocks_ok_def)
  then have "length bs - 1 = 0" "fst (hd bs) = heap_lo"
    using blocks_fill [OF ok ne] sum by auto
  then have bs: "bs = [(heap_lo, 999984)]"
    using sum ne by (cases bs) auto
  have "unat (xFreeBytesRemaining h) = unat (999984 :: u32)"
    using fp sum by (simp add: free_part_def)
  then have "xFreeBytesRemaining h = 999984" by (simp only: word_unat_eq_iff)
  then show ?thesis using bs by (simp add: xPortGetFreeHeapSize_def)
qed

text \<open>A concrete heap, for the witnesses: \<open>xStart\<close> in the internal SRAM.\<close>

definition heap0 :: heap where
  "heap0 = \<lparr>hmem = (\<lambda>_. \<lparr>pxNextFreeBlock = 0, xBlockSize = 0\<rparr>), hbytes = (\<lambda>_. 0),
     xStart_at = 0x20000000, pxEnd = 0, xFreeBytesRemaining = xTotalHeapSize, xBlockAllocatedBit = 0\<rparr>"

lemma heap0_inv: "heap_inv (prvHeapInit heap0) [(heap_lo, 999984)] Map.empty"
  by (rule prvHeapInit_inv) (simp add: heap_fresh_def heap0_def)

lemma heap0_not_refused: "\<not> refused 100 [(heap_lo, 999984)]"
  by (simp add: refused_def block_need_def)

section \<open>Properties\<close>

text \<open>C1. On a well-formed heap \<open>pvPortMalloc\<close> always returns. It refuses exactly the requests of 0
  bytes, of 2 GB or more, and those no free block can hold, and then leaves the heap as it was;
  otherwise it takes the first free block that is large enough and returns the address after a new
  header at its start: 8-byte aligned, inside the heap, of at least the size asked for and at most
  31 bytes more with the header, apart from every block handed out before, and the heap is well
  formed with this block added.\<close>

theorem pvPortMalloc_correct:
  assumes "heap_inv h bs al"
  shows "if refused w bs then pvPortMalloc h w = Some (0, h)
    else \<exists>l a t r s h' bs'. bs = l @ (a, t) # r \<and> (\<forall>x \<in> set l. snd x < block_need w)
      \<and> pvPortMalloc h w = Some (a + 8, h') \<and> heap_inv h' bs' (al(a \<mapsto> s)) \<and> al a = None
      \<and> 8 dvd a + 8 \<and> heap_lo \<le> a \<and> a + s \<le> heap_hi \<and> unat w + 8 \<le> s \<and> s \<le> unat w + 31
      \<and> (\<forall>b t. al b = Some t \<longrightarrow> a + s \<le> b \<or> b + t \<le> a) \<and> hbytes h' = hbytes h"
proof (cases "refused w bs")
  case True
  then show ?thesis using pvPortMalloc_refused [OF assms] by simp
next
  case False
  then obtain l a t r s h' bs' where r: "bs = l @ (a, t) # r" "\<forall>x \<in> set l. snd x < block_need w"
    "pvPortMalloc h w = Some (a + 8, h')" "heap_inv h' bs' (al(a \<mapsto> s))"
    "a \<notin> dom al" "unat w + 8 \<le> s" "s \<le> unat w + 31" "hbytes h' = hbytes h"
    using pvPortMalloc_first_fit [OF assms] by blast
  have ap: "alloc_part h' bs' (al(a \<mapsto> s))" using r(4) by (simp add: heap_inv_def)
  note A = alloc_partD [OF ap, of a s]
  have "a + s \<le> b \<or> b + t \<le> a" if "al b = Some t" for b t
    using A(8) [of b t] that r(5) by (cases "a = b") (auto simp: apart_def)
  moreover have "al a = None" "8 dvd a + 8" using r(5) A by auto
  ultimately have "bs = l @ (a, t) # r \<and> (\<forall>x \<in> set l. snd x < block_need w)
      \<and> pvPortMalloc h w = Some (a + 8, h') \<and> heap_inv h' bs' (al(a \<mapsto> s)) \<and> al a = None
      \<and> 8 dvd a + 8 \<and> heap_lo \<le> a \<and> a + s \<le> heap_hi \<and> unat w + 8 \<le> s \<and> s \<le> unat w + 31
      \<and> (\<forall>b t. al b = Some t \<longrightarrow> a + s \<le> b \<or> b + t \<le> a) \<and> hbytes h' = hbytes h"
    using r A by simp
  then show ?thesis unfolding if_not_P [OF False] by metis
qed

theorem pvPortMalloc_correct_witness:
  "\<exists>a h'. pvPortMalloc (prvHeapInit heap0) 100 = Some (a + 8, h') \<and> 8 dvd a + 8 \<and> heap_lo \<le> a"
  using pvPortMalloc_correct [OF heap0_inv, of 100] heap0_not_refused by auto

text \<open>C13. Releasing a block that was handed out always returns, keeps the heap well formed without
  that block, gives its whole size back to the free byte count and touches no application byte.\<close>

theorem vPortFree_correct:
  assumes "heap_inv h bs al" "al a = Some s"
  shows "\<exists>h' bs'. vPortFree h (a + 8) = Some h' \<and> heap_inv h' bs' (al(a := None))
    \<and> unat (xPortGetFreeHeapSize h') = unat (xPortGetFreeHeapSize h) + s \<and> hbytes h' = hbytes h"
  unfolding xPortGetFreeHeapSize_def by (rule vPortFree_inv [OF assms])

theorem vPortFree_correct_witness:
  "\<exists>p h1 h2. pvPortMalloc (prvHeapInit heap0) 100 = Some (p, h1) \<and> vPortFree h1 p = Some h2"
proof -
  obtain a s h1 bs' where "pvPortMalloc (prvHeapInit heap0) 100 = Some (a + 8, h1)"
    "heap_inv h1 bs' (Map.empty(a \<mapsto> s))"
    using pvPortMalloc_served [OF heap0_inv heap0_not_refused] by blast
  with vPortFree_correct [OF this(2), of a s] show ?thesis by auto
qed



text \<open>\<open>pvPortCalloc\<close> does not test the result of \<open>pvPortMalloc\<close>: when the request is refused it
  writes to the null page (the model has no result), and otherwise it returns a block whose first
  \<open>n * sz\<close> bytes (the 32-bit product) are zero.\<close>

theorem pvPortCalloc_clears:
  assumes "heap_inv h bs al" "n * sz \<noteq> 0"
  shows "if refused (n * sz) bs then pvPortCalloc h n sz = None
    else \<exists>p h'. pvPortCalloc h n sz = Some (p, h') \<and> p \<noteq> 0
      \<and> (\<forall>i < unat (n * sz). hbytes h' (p + i) = 0)"
proof (cases "refused (n * sz) bs")
  case True
  then show ?thesis
    using pvPortMalloc_refused [OF assms(1)] assms(2) by (simp add: pvPortCalloc_def)
next
  case False
  then show ?thesis
    using pvPortMalloc_served [OF assms(1) False] by (auto simp: pvPortCalloc_def mem_zero_def)
qed

theorem pvPortCalloc_clears_witness:
  "pvPortCalloc (prvHeapInit heap0) 1000 1000 = None"
proof -
  have "refused (1000 * 1000) [(heap_lo, 999984)]" by (simp add: refused_def block_need_def)
  then show ?thesis using pvPortCalloc_clears [OF heap0_inv, of 1000 1000] by simp
qed

end
