(* ===== verification/Deque.thy ===== *)
theory Deque
  imports YH_Prelude
begin

text \<open>
  The double-ended queue \<open>src/collect/deque.c\<close>, translated operation by operation. A deque carries
  the memory functions it was configured with; operations that allocate or free thread the heap
  state \<open>'h\<close> of these functions. The pointers stored in the deque are addresses. Every access to
  the buffer is checked (\<open>rd\<close>, \<open>wr\<close>, \<open>blit\<close>); a result \<open>None\<close> is an access outside the buffer or a
  fault of the memory functions. An \<open>out\<close> parameter is a result, \<open>None\<close> when it is not written.
\<close>

section \<open>Data\<close>

datatype cc_stat = CC_OK | CC_ERR_ALLOC | CC_ERR_INVALID_CAPACITY | CC_ERR_INVALID_RANGE
  | CC_ERR_MAX_CAPACITY | CC_ERR_KEY_NOT_FOUND | CC_ERR_VALUE_NOT_FOUND | CC_ERR_OUT_OF_RANGE
  | CC_ITER_END

definition cc_common_cmp_ptr :: "addr \<Rightarrow> addr \<Rightarrow> int" where
  "cc_common_cmp_ptr ptr1 ptr2 = (if ptr1 < ptr2 then - 1 else if ptr1 > ptr2 then 1 else 0)"

record 'h mem_ops =
  mem_alloc :: "'h \<Rightarrow> u32 \<Rightarrow> (addr \<times> 'h) option"
  mem_calloc :: "'h \<Rightarrow> u32 \<Rightarrow> u32 \<Rightarrow> (addr \<times> 'h) option"
  mem_free :: "'h \<Rightarrow> addr \<Rightarrow> 'h option"

record 'h deque_conf =
  conf_capacity :: u32
  conf_mem :: "'h mem_ops"

text \<open>\<open>deque_at\<close> and \<open>buffer_at\<close> are the addresses of the structure and of its buffer.\<close>

record 'h deque =
  dsize :: u32
  capacity :: u32
  first :: u32
  dlast :: u32
  buffer :: "addr list"
  mem :: "'h mem_ops"
  deque_at :: addr
  buffer_at :: addr

definition DEFAULT_CAPACITY :: u32 where "DEFAULT_CAPACITY = 8"
definition MAX_POW_TWO :: u32 where "MAX_POW_TWO = push_bit 31 1"
definition sizeof_ptr :: u32 where "sizeof_ptr = 4"
definition sizeof_Deque :: u32 where "sizeof_Deque = 32"

text \<open>The cells of a block of \<open>n\<close> bytes; \<open>old\<close> is what the block happens to hold.\<close>

definition cells_of :: "u32 \<Rightarrow> (nat \<Rightarrow> addr) \<Rightarrow> addr list" where
  "cells_of n old = map old [0..<unat n div 4]"

section \<open>Capacity\<close>

definition upper_pow_two :: "u32 \<Rightarrow> u32" where
  "upper_pow_two n =
     (if n \<ge> MAX_POW_TWO then MAX_POW_TWO
      else if n = 0 then 2
      else let n = n - 1;
               n = n OR drop_bit 1 n;
               n = n OR drop_bit 2 n;
               n = n OR drop_bit 4 n;
               n = n OR drop_bit 8 n;
               n = n OR drop_bit 16 n
           in n + 1)"

text \<open>The cell of the element at an index.\<close>

definition cell :: "'h deque \<Rightarrow> u32 \<Rightarrow> nat" where
  "cell d i = unat ((first d + i) AND (capacity d - 1))"

primrec copy_each :: "'h deque \<Rightarrow> addr list \<Rightarrow> (addr \<Rightarrow> addr) \<Rightarrow> nat \<Rightarrow> addr list option" where
  "copy_each d buff cp 0 = Some buff"
| "copy_each d buff cp (Suc i) = do {
     buff \<leftarrow> copy_each d buff cp i;
     v \<leftarrow> rd (buffer d) (cell d (of_nat i));
     wr buff i (cp v)
   }"

definition copy_buffer :: "'h deque \<Rightarrow> addr list \<Rightarrow> (addr \<Rightarrow> addr) option \<Rightarrow> addr list option" where
  "copy_buffer d buff cp =
     (case cp of
        None \<Rightarrow>
          if dlast d > first d
          then blit buff 0 (buffer d) (unat (first d)) (unat (dsize d))
          else do {
            let l = dlast d;
            let e = capacity d - first d;
            buff \<leftarrow> blit buff 0 (buffer d) (unat (first d)) (unat e);
            blit buff (unat e) (buffer d) 0 (unat l)
          }
      | Some f \<Rightarrow> copy_each d buff f (unat (dsize d)))"

definition expand_capacity :: "'h \<Rightarrow> 'h deque \<Rightarrow> (cc_stat \<times> 'h \<times> 'h deque) option" where
  "expand_capacity h d =
     (if capacity d = MAX_POW_TWO then Some (CC_ERR_MAX_CAPACITY, h, d)
      else do {
        let new_capacity = push_bit 1 (capacity d);
        (new_buffer, h) \<leftarrow> mem_calloc (mem d) h new_capacity sizeof_ptr;
        if new_buffer = 0 then Some (CC_ERR_ALLOC, h, d)
        else do {
          b \<leftarrow> copy_buffer d (cells_of (new_capacity * sizeof_ptr) (\<lambda>_. 0)) None;
          h \<leftarrow> mem_free (mem d) h (buffer_at d);
          Some (CC_OK, h, d\<lparr>first := 0, dlast := dsize d, capacity := new_capacity,
                          buffer := b, buffer_at := new_buffer\<rparr>)
        }
      })"

section \<open>Creation and destruction\<close>

definition deque_conf_init :: "'h mem_ops \<Rightarrow> 'h deque_conf" where
  "deque_conf_init lib = \<lparr>conf_capacity = DEFAULT_CAPACITY, conf_mem = lib\<rparr>"

definition deque_new_conf ::
  "(nat \<Rightarrow> addr) \<Rightarrow> 'h deque_conf \<Rightarrow> 'h \<Rightarrow> (cc_stat \<times> 'h \<times> 'h deque option) option" where
  "deque_new_conf old conf h = do {
     (p, h) \<leftarrow> mem_calloc (conf_mem conf) h 1 sizeof_Deque;
     if p = 0 then Some (CC_ERR_ALLOC, h, None)
     else do {
       (b, h) \<leftarrow> mem_alloc (conf_mem conf) h (conf_capacity conf * sizeof_ptr);
       if b = 0 then do {
         h \<leftarrow> mem_free (conf_mem conf) h p;
         Some (CC_ERR_ALLOC, h, None)
       } else
         Some (CC_OK, h, Some \<lparr>dsize = 0, capacity = upper_pow_two (conf_capacity conf),
           first = 0, dlast = 0, buffer = cells_of (conf_capacity conf * sizeof_ptr) old,
           mem = conf_mem conf, deque_at = p, buffer_at = b\<rparr>)
     }
   }"

definition deque_new ::
  "'h mem_ops \<Rightarrow> (nat \<Rightarrow> addr) \<Rightarrow> 'h \<Rightarrow> (cc_stat \<times> 'h \<times> 'h deque option) option" where
  "deque_new lib old h = deque_new_conf old (deque_conf_init lib) h"

definition deque_destroy :: "'h \<Rightarrow> 'h deque \<Rightarrow> 'h option" where
  "deque_destroy h d = do {
     h \<leftarrow> mem_free (mem d) h (buffer_at d);
     mem_free (mem d) h (deque_at d)
   }"

section \<open>Insertion at the ends\<close>

text \<open>\<open>if (... \<and> expand_capacity (deque) \<noteq> CC_OK) return CC_ERR_ALLOC;\<close> then the rest.\<close>

definition expand_if ::
  "bool \<Rightarrow> 'h \<Rightarrow> 'h deque \<Rightarrow> ('h \<Rightarrow> 'h deque \<Rightarrow> (cc_stat \<times> 'h \<times> 'h deque) option)
    \<Rightarrow> (cc_stat \<times> 'h \<times> 'h deque) option" where
  "expand_if full h d k =
     (if full then do {
        (st, h, d) \<leftarrow> expand_capacity h d;
        if st \<noteq> CC_OK then Some (CC_ERR_ALLOC, h, d) else k h d
      } else k h d)"

definition deque_add_first :: "'h \<Rightarrow> 'h deque \<Rightarrow> addr \<Rightarrow> (cc_stat \<times> 'h \<times> 'h deque) option" where
  "deque_add_first h d element =
     expand_if (dsize d \<ge> capacity d) h d (\<lambda>h d. do {
       let f = (first d - 1) AND (capacity d - 1);
       b \<leftarrow> wr (buffer d) (unat f) element;
       Some (CC_OK, h, d\<lparr>first := f, buffer := b, dsize := dsize d + 1\<rparr>)
     })"

definition deque_add_last :: "'h \<Rightarrow> 'h deque \<Rightarrow> addr \<Rightarrow> (cc_stat \<times> 'h \<times> 'h deque) option" where
  "deque_add_last h d element =
     expand_if (capacity d = dsize d) h d (\<lambda>h d. do {
       b \<leftarrow> wr (buffer d) (unat (dlast d)) element;
       Some (CC_OK, h, d\<lparr>dlast := (dlast d + 1) AND (capacity d - 1), buffer := b,
                       dsize := dsize d + 1\<rparr>)
     })"

definition deque_add :: "'h \<Rightarrow> 'h deque \<Rightarrow> addr \<Rightarrow> (cc_stat \<times> 'h \<times> 'h deque) option" where
  "deque_add h d element = deque_add_last h d element"

section \<open>Insertion by index\<close>

text \<open>The two branches of \<open>deque_add_at\<close> that make room, each with its two \<open>memmove\<close> layouts; the
  arguments are the locals \<open>c\<close>, \<open>f\<close>, \<open>l\<close> and \<open>p\<close> of the code.\<close>

definition add_at_front ::
  "addr list \<Rightarrow> u32 \<Rightarrow> u32 \<Rightarrow> u32 \<Rightarrow> u32 \<Rightarrow> addr list option" where
  "add_at_front b c f p index =
     (if p < f \<or> f = 0 then do {
        let r_move = (if f \<noteq> 0 then c - f + 1 else 0);
        let l_move = p;
        e_first \<leftarrow> rd b 0;
        b \<leftarrow> (if f \<noteq> 0 then blit b (unat (f - 1)) b (unat f) (unat r_move) else Some b);
        b \<leftarrow> (if p \<noteq> 0 then blit b 0 b 1 (unat l_move) else Some b);
        wr b (unat c) e_first
      } else blit b (unat (f - 1)) b (unat f) (unat index))"

definition add_at_back ::
  "addr list \<Rightarrow> u32 \<Rightarrow> u32 \<Rightarrow> u32 \<Rightarrow> u32 \<Rightarrow> u32 \<Rightarrow> addr list option" where
  "add_at_back b c l p n index =
     (if p > l \<or> l = c then do {
        e_last \<leftarrow> rd b (unat c);
        b \<leftarrow> (if p \<noteq> c then blit b (unat (p + 1)) b (unat p) (unat (c - p)) else Some b);
        b \<leftarrow> (if l \<noteq> c then blit b 1 b 0 (unat (l + 1)) else Some b);
        wr b 0 e_last
      } else blit b (unat (p + 1)) b (unat p) (unat (n - index)))"

definition deque_add_at ::
  "'h \<Rightarrow> 'h deque \<Rightarrow> addr \<Rightarrow> u32 \<Rightarrow> (cc_stat \<times> 'h \<times> 'h deque) option" where
  "deque_add_at h d element index =
     (if index \<ge> dsize d then Some (CC_ERR_OUT_OF_RANGE, h, d)
      else expand_if (capacity d = dsize d) h d (\<lambda>h d.
        let c = capacity d - 1;
            l = dlast d AND c;
            f = first d AND c;
            p = (first d + index) AND c
        in if index = 0 then deque_add_first h d element
           else if index = c then deque_add_last h d element
           else do {
             d \<leftarrow> (if index \<le> dsize d div 2 - 1 then do {
                    b \<leftarrow> add_at_front (buffer d) c f p index;
                    Some (d\<lparr>buffer := b, first := (first d - 1) AND c\<rparr>)
                  } else do {
                    b \<leftarrow> add_at_back (buffer d) c l p (dsize d) index;
                    Some (d\<lparr>buffer := b, dlast := (dlast d + 1) AND c\<rparr>)
                  });
             b \<leftarrow> wr (buffer d) (unat p) element;
             Some (CC_OK, h, d\<lparr>buffer := b, dsize := dsize d + 1\<rparr>)
           }))"

section \<open>Removal\<close>

definition deque_replace_at ::
  "'h deque \<Rightarrow> addr \<Rightarrow> u32 \<Rightarrow> (cc_stat \<times> addr option \<times> 'h deque) option" where
  "deque_replace_at d element index =
     (if index \<ge> dsize d then Some (CC_ERR_OUT_OF_RANGE, None, d)
      else do {
        let i = cell d index;
        v \<leftarrow> rd (buffer d) i;
        b \<leftarrow> wr (buffer d) i element;
        Some (CC_OK, Some v, d\<lparr>buffer := b\<rparr>)
      })"

definition deque_remove_first :: "'h deque \<Rightarrow> (cc_stat \<times> addr option \<times> 'h deque) option" where
  "deque_remove_first d =
     (if dsize d = 0 then Some (CC_ERR_OUT_OF_RANGE, None, d)
      else do {
        v \<leftarrow> rd (buffer d) (unat (first d));
        Some (CC_OK, Some v, d\<lparr>first := (first d + 1) AND (capacity d - 1), dsize := dsize d - 1\<rparr>)
      })"

definition deque_remove_last :: "'h deque \<Rightarrow> (cc_stat \<times> addr option \<times> 'h deque) option" where
  "deque_remove_last d =
     (if dsize d = 0 then Some (CC_ERR_OUT_OF_RANGE, None, d)
      else do {
        let l = (dlast d - 1) AND (capacity d - 1);
        v \<leftarrow> rd (buffer d) (unat l);
        Some (CC_OK, Some v, d\<lparr>dlast := l, dsize := dsize d - 1\<rparr>)
      })"

text \<open>The two branches of \<open>deque_remove_at\<close> that close the gap.\<close>

definition remove_at_front ::
  "addr list \<Rightarrow> u32 \<Rightarrow> u32 \<Rightarrow> u32 \<Rightarrow> u32 \<Rightarrow> addr list option" where
  "remove_at_front b c f p index =
     (if p < f then do {
        e \<leftarrow> rd b (unat c);
        b \<leftarrow> (if f \<noteq> c then blit b (unat (f + 1)) b (unat f) (unat (c - f)) else Some b);
        b \<leftarrow> (if p \<noteq> 0 then blit b 1 b 0 (unat p) else Some b);
        wr b 0 e
      } else blit b (unat (f + 1)) b (unat f) (unat index))"

definition remove_at_back :: "addr list \<Rightarrow> u32 \<Rightarrow> u32 \<Rightarrow> u32 \<Rightarrow> addr list option" where
  "remove_at_back b c l p =
     (if p > l then do {
        e \<leftarrow> rd b 0;
        b \<leftarrow> (if p \<noteq> c then blit b (unat p) b (unat (p + 1)) (unat (c - p)) else Some b);
        b \<leftarrow> (if p \<noteq> 0 then blit b 1 b 0 (unat l) else Some b);
        wr b (unat c) e
      } else blit b (unat p) b (unat (p + 1)) (unat (l - p)))"

definition deque_remove_at ::
  "'h deque \<Rightarrow> u32 \<Rightarrow> (cc_stat \<times> addr option \<times> 'h deque) option" where
  "deque_remove_at d index =
     (if index \<ge> dsize d then Some (CC_ERR_OUT_OF_RANGE, None, d)
      else do {
        let c = capacity d - 1;
        let l = dlast d AND c;
        let f = first d AND c;
        let p = (first d + index) AND c;
        removed \<leftarrow> rd (buffer d) (unat index);
        if index = 0 then deque_remove_first d
        else if index = c then deque_remove_last d
        else do {
          d \<leftarrow> (if index \<le> dsize d div 2 - 1 then do {
                 b \<leftarrow> remove_at_front (buffer d) c f p index;
                 Some (d\<lparr>buffer := b, first := (first d + 1) AND c\<rparr>)
               } else do {
                 b \<leftarrow> remove_at_back (buffer d) c l p;
                 Some (d\<lparr>buffer := b, dlast := (dlast d - 1) AND c\<rparr>)
               });
          Some (CC_OK, Some removed, d\<lparr>dsize := dsize d - 1\<rparr>)
        }
      })"

text \<open>The loop of \<open>deque_index_of\<close>: \<open>i\<close> counts up, \<open>n\<close> is the number of elements left.\<close>

fun index_of_from :: "'h deque \<Rightarrow> addr \<Rightarrow> nat \<Rightarrow> nat \<Rightarrow> (cc_stat \<times> u32 option) option" where
  "index_of_from d element i 0 = Some (CC_ERR_OUT_OF_RANGE, None)"
| "index_of_from d element i (Suc n) = do {
     v \<leftarrow> rd (buffer d) (cell d (of_nat i));
     if v = element then Some (CC_OK, Some (of_nat i)) else index_of_from d element (Suc i) n
   }"

definition deque_index_of :: "'h deque \<Rightarrow> addr \<Rightarrow> (cc_stat \<times> u32 option) option" where
  "deque_index_of d element = index_of_from d element 0 (unat (dsize d))"

definition deque_remove :: "'h deque \<Rightarrow> addr \<Rightarrow> (cc_stat \<times> addr option \<times> 'h deque) option" where
  "deque_remove d element = do {
     (status, index) \<leftarrow> deque_index_of d element;
     case index of
       None \<Rightarrow> Some (status, None, d)
     | Some i \<Rightarrow> deque_remove_at d i
   }"

definition deque_remove_all :: "'h deque \<Rightarrow> 'h deque" where
  "deque_remove_all d = d\<lparr>first := 0, dlast := 0, dsize := 0\<rparr>"

text \<open>\<open>deque_foreach\<close> with a function that changes a state, here the heap.\<close>

fun foreach_from :: "'h deque \<Rightarrow> ('s \<Rightarrow> addr \<Rightarrow> 's option) \<Rightarrow> 's \<Rightarrow> nat \<Rightarrow> nat \<Rightarrow> 's option" where
  "foreach_from d fn s i 0 = Some s"
| "foreach_from d fn s i (Suc n) = do {
     v \<leftarrow> rd (buffer d) (cell d (of_nat i));
     s \<leftarrow> fn s v;
     foreach_from d fn s (Suc i) n
   }"

definition deque_foreach :: "'h deque \<Rightarrow> ('s \<Rightarrow> addr \<Rightarrow> 's option) \<Rightarrow> 's \<Rightarrow> 's option" where
  "deque_foreach d fn s = foreach_from d fn s 0 (unat (dsize d))"

definition deque_remove_all_free :: "'h \<Rightarrow> 'h deque \<Rightarrow> ('h \<times> 'h deque) option" where
  "deque_remove_all_free h d = do {
     h \<leftarrow> deque_foreach d (mem_free (mem d)) h;
     Some (h, deque_remove_all d)
   }"

definition deque_destroy_free :: "'h \<Rightarrow> 'h deque \<Rightarrow> 'h option" where
  "deque_destroy_free h d = do {
     (h, d) \<leftarrow> deque_remove_all_free h d;
     deque_destroy h d
   }"

section \<open>Access\<close>

definition deque_get_at :: "'h deque \<Rightarrow> u32 \<Rightarrow> (cc_stat \<times> addr option) option" where
  "deque_get_at d index =
     (if index > dsize d then Some (CC_ERR_OUT_OF_RANGE, None)
      else do {
        v \<leftarrow> rd (buffer d) (cell d index);
        Some (CC_OK, Some v)
      })"

definition deque_get_first :: "'h deque \<Rightarrow> (cc_stat \<times> addr option) option" where
  "deque_get_first d =
     (if dsize d = 0 then Some (CC_ERR_OUT_OF_RANGE, None)
      else do {
        v \<leftarrow> rd (buffer d) (unat (first d));
        Some (CC_OK, Some v)
      })"

definition deque_get_last :: "'h deque \<Rightarrow> (cc_stat \<times> addr option) option" where
  "deque_get_last d =
     (if dsize d = 0 then Some (CC_ERR_OUT_OF_RANGE, None)
      else do {
        v \<leftarrow> rd (buffer d) (unat ((dlast d - 1) AND (capacity d - 1)));
        Some (CC_OK, Some v)
      })"

definition deque_size :: "'h deque \<Rightarrow> u32" where "deque_size d = dsize d"
definition deque_capacity :: "'h deque \<Rightarrow> u32" where "deque_capacity d = capacity d"
definition deque_get_buffer :: "'h deque \<Rightarrow> addr list" where "deque_get_buffer d = buffer d"

fun count_from :: "'h deque \<Rightarrow> (addr \<Rightarrow> addr \<Rightarrow> int) \<Rightarrow> addr \<Rightarrow> nat \<Rightarrow> nat \<Rightarrow> u32 \<Rightarrow> u32 option" where
  "count_from d cmp element i 0 ct = Some ct"
| "count_from d cmp element i (Suc n) ct = do {
     v \<leftarrow> rd (buffer d) (cell d (of_nat i));
     count_from d cmp element (Suc i) n (if cmp v element = 0 then ct + 1 else ct)
   }"

definition deque_contains_value ::
  "'h deque \<Rightarrow> addr \<Rightarrow> (addr \<Rightarrow> addr \<Rightarrow> int) \<Rightarrow> u32 option" where
  "deque_contains_value d element cmp = count_from d cmp element 0 (unat (dsize d)) 0"

definition deque_contains :: "'h deque \<Rightarrow> addr \<Rightarrow> u32 option" where
  "deque_contains d element = deque_contains_value d element cc_common_cmp_ptr"

section \<open>Copies and whole-deque operations\<close>

text \<open>\<open>deque_copy_shallow\<close> (\<open>cp = None\<close>) and \<open>deque_copy_deep\<close> differ only in the copy function.\<close>

definition deque_copy ::
  "(nat \<Rightarrow> addr) \<Rightarrow> (addr \<Rightarrow> addr) option \<Rightarrow> 'h \<Rightarrow> 'h deque
    \<Rightarrow> (cc_stat \<times> 'h \<times> 'h deque option) option" where
  "deque_copy old cp h d = do {
     (p, h) \<leftarrow> mem_alloc (mem d) h sizeof_Deque;
     if p = 0 then Some (CC_ERR_ALLOC, h, None)
     else do {
       (b, h) \<leftarrow> mem_alloc (mem d) h (capacity d * sizeof_ptr);
       if b = 0 then do {
         h \<leftarrow> mem_free (mem d) h p;
         Some (CC_ERR_ALLOC, h, None)
       } else do {
         cells \<leftarrow> copy_buffer d (cells_of (capacity d * sizeof_ptr) old) cp;
         Some (CC_OK, h, Some \<lparr>dsize = dsize d, capacity = capacity d, first = 0,
           dlast = dsize d, buffer = cells, mem = mem d, deque_at = p, buffer_at = b\<rparr>)
       }
     }
   }"

definition deque_copy_shallow ::
  "(nat \<Rightarrow> addr) \<Rightarrow> 'h \<Rightarrow> 'h deque \<Rightarrow> (cc_stat \<times> 'h \<times> 'h deque option) option" where
  "deque_copy_shallow old h d = deque_copy old None h d"

definition deque_copy_deep ::
  "(nat \<Rightarrow> addr) \<Rightarrow> (addr \<Rightarrow> addr) \<Rightarrow> 'h \<Rightarrow> 'h deque \<Rightarrow> (cc_stat \<times> 'h \<times> 'h deque option) option" where
  "deque_copy_deep old cp h d = deque_copy old (Some cp) h d"

definition deque_trim_capacity ::
  "(nat \<Rightarrow> addr) \<Rightarrow> 'h \<Rightarrow> 'h deque \<Rightarrow> (cc_stat \<times> 'h \<times> 'h deque) option" where
  "deque_trim_capacity old h d =
     (if capacity d = dsize d then Some (CC_OK, h, d)
      else let new_size = upper_pow_two (dsize d)
      in if new_size = capacity d then Some (CC_OK, h, d)
      else do {
        (new_buff, h) \<leftarrow> mem_alloc (mem d) h (sizeof_ptr * new_size);
        if new_buff = 0 then Some (CC_ERR_ALLOC, h, d)
        else do {
          b \<leftarrow> copy_buffer d (cells_of (sizeof_ptr * new_size) old) None;
          h \<leftarrow> mem_free (mem d) h (buffer_at d);
          Some (CC_OK, h, d\<lparr>buffer := b, buffer_at := new_buff, first := 0, dlast := dsize d,
                          capacity := new_size\<rparr>)
        }
      })"

text \<open>The swaps of \<open>deque_reverse\<close>, \<open>n\<close> of them from the indices \<open>i\<close> and \<open>j\<close> on.\<close>

fun reverse_swaps :: "'h deque \<Rightarrow> u32 \<Rightarrow> u32 \<Rightarrow> nat \<Rightarrow> 'h deque option" where
  "reverse_swaps d i j 0 = Some d"
| "reverse_swaps d i j (Suc n) = do {
     let f = cell d i;
     let l = cell d j;
     tmp \<leftarrow> rd (buffer d) f;
     v \<leftarrow> rd (buffer d) l;
     b \<leftarrow> wr (buffer d) f v;
     b \<leftarrow> wr b l tmp;
     reverse_swaps (d\<lparr>buffer := b\<rparr>) (i + 1) (j - 1) n
   }"

definition deque_reverse :: "'h deque \<Rightarrow> 'h deque option" where
  "deque_reverse d = reverse_swaps d 0 (dsize d - 1) (unat ((dsize d - 1) div 2))"

text \<open>The loop of \<open>deque_filter_mut\<close>: every turn either moves on or removes, so it takes as many
  turns as there are elements.\<close>

fun filter_mut_loop :: "'h deque \<Rightarrow> (addr \<Rightarrow> bool) \<Rightarrow> u32 \<Rightarrow> nat \<Rightarrow> 'h deque option" where
  "filter_mut_loop d pred i 0 = Some d"
| "filter_mut_loop d pred i (Suc n) =
     (if i < dsize d then do {
        v \<leftarrow> rd (buffer d) (cell d i);
        if \<not> pred v then do {
          (st, out, d) \<leftarrow> deque_remove_at d i;
          filter_mut_loop d pred i n
        } else filter_mut_loop d pred (i + 1) n
      } else Some d)"

definition deque_filter_mut ::
  "'h deque \<Rightarrow> (addr \<Rightarrow> bool) \<Rightarrow> (cc_stat \<times> 'h deque) option" where
  "deque_filter_mut d pred =
     (if dsize d = 0 then Some (CC_ERR_OUT_OF_RANGE, d)
      else do {
        d \<leftarrow> filter_mut_loop d pred 0 (unat (dsize d));
        Some (CC_OK, d)
      })"

fun filter_from ::
  "'h deque \<Rightarrow> (addr \<Rightarrow> bool) \<Rightarrow> nat \<Rightarrow> nat \<Rightarrow> 'h \<Rightarrow> 'h deque \<Rightarrow> ('h \<times> 'h deque) option" where
  "filter_from d pred i 0 h out = Some (h, out)"
| "filter_from d pred i (Suc n) h out = do {
     v \<leftarrow> rd (buffer d) (cell d (of_nat i));
     if pred v then do {
       (st, h, out) \<leftarrow> deque_add h out v;
       filter_from d pred (Suc i) n h out
     } else filter_from d pred (Suc i) n h out
   }"

definition deque_filter ::
  "'h mem_ops \<Rightarrow> (nat \<Rightarrow> addr) \<Rightarrow> 'h \<Rightarrow> 'h deque \<Rightarrow> (addr \<Rightarrow> bool)
    \<Rightarrow> (cc_stat \<times> 'h \<times> 'h deque option) option" where
  "deque_filter lib old h d pred =
     (if dsize d = 0 then Some (CC_ERR_OUT_OF_RANGE, h, None)
      else do {
        (st, h, r) \<leftarrow> deque_new lib old h;
        case r of
          None \<Rightarrow> Some (CC_ERR_ALLOC, h, None)
        | Some filtered \<Rightarrow> do {
            (h, filtered) \<leftarrow> filter_from d pred 0 (unat (dsize d)) h filtered;
            Some (CC_OK, h, Some filtered)
          }
      })"

section \<open>Iterators\<close>

text \<open>An iterator points to its deque; here the deque is a second argument and result.\<close>

record deque_iter =
  index :: u32
  last_removed :: bool

definition deque_iter_init :: deque_iter where
  "deque_iter_init = \<lparr>index = 0, last_removed = False\<rparr>"

definition deque_iter_next ::
  "deque_iter \<Rightarrow> 'h deque \<Rightarrow> (cc_stat \<times> addr option \<times> deque_iter) option" where
  "deque_iter_next it d =
     (let c = capacity d - 1;
          l = dlast d AND c;
          f = first d AND c
      in if l = f \<or> index it \<ge> dsize d then Some (CC_ITER_END, None, it)
         else do {
           v \<leftarrow> rd (buffer d) (unat ((first d + index it) AND c));
           Some (CC_OK, Some v, it\<lparr>index := index it + 1, last_removed := False\<rparr>)
         })"

definition deque_iter_remove ::
  "deque_iter \<Rightarrow> 'h deque \<Rightarrow> (cc_stat \<times> addr option \<times> deque_iter \<times> 'h deque) option" where
  "deque_iter_remove it d =
     (if last_removed it then Some (CC_ERR_VALUE_NOT_FOUND, None, it, d)
      else do {
        (status, rm, d) \<leftarrow> deque_remove_at d (index it);
        if status = CC_OK
        then Some (status, rm, it\<lparr>index := index it - 1, last_removed := True\<rparr>, d)
        else Some (status, None, it, d)
      })"

definition deque_iter_add ::
  "'h \<Rightarrow> deque_iter \<Rightarrow> 'h deque \<Rightarrow> addr \<Rightarrow> (cc_stat \<times> 'h \<times> deque_iter \<times> 'h deque) option" where
  "deque_iter_add h it d element = do {
     (status, h, d) \<leftarrow> deque_add_at h d element (index it);
     Some (status, h, if status = CC_OK then it\<lparr>index := index it + 1\<rparr> else it, d)
   }"

definition deque_iter_replace ::
  "deque_iter \<Rightarrow> 'h deque \<Rightarrow> addr \<Rightarrow> (cc_stat \<times> addr option \<times> 'h deque) option" where
  "deque_iter_replace it d replacement = deque_replace_at d replacement (index it)"

definition deque_iter_index :: "deque_iter \<Rightarrow> u32" where
  "deque_iter_index it = index it - 1"

definition deque_zip_iter_init :: deque_iter where
  "deque_zip_iter_init = \<lparr>index = 0, last_removed = False\<rparr>"

definition deque_zip_iter_next ::
  "deque_iter \<Rightarrow> 'h deque \<Rightarrow> 'h deque
    \<Rightarrow> (cc_stat \<times> (addr \<times> addr) option \<times> deque_iter) option" where
  "deque_zip_iter_next it d1 d2 =
     (let c1 = capacity d1 - 1; c2 = capacity d2 - 1
      in if dlast d1 AND c1 = first d1 AND c1 \<or> index it \<ge> dsize d1 then Some (CC_ITER_END, None, it)
         else if dlast d2 AND c2 = first d2 AND c2 \<or> index it \<ge> dsize d2
         then Some (CC_ITER_END, None, it)
         else do {
           v1 \<leftarrow> rd (buffer d1) (unat ((first d1 + index it) AND c1));
           v2 \<leftarrow> rd (buffer d2) (unat ((first d2 + index it) AND c2));
           Some (CC_OK, Some (v1, v2), it\<lparr>index := index it + 1, last_removed := False\<rparr>)
         })"

text \<open>\<open>A && B && C && D\<close> of the guard, left to right, with the effects of the two expansions.\<close>

definition deque_zip_iter_add ::
  "'h \<Rightarrow> deque_iter \<Rightarrow> 'h deque \<Rightarrow> 'h deque \<Rightarrow> addr \<Rightarrow> addr
    \<Rightarrow> (cc_stat \<times> 'h \<times> deque_iter \<times> 'h deque \<times> 'h deque) option" where
  "deque_zip_iter_add h it d1 d2 e1 e2 =
     (if index it \<ge> dsize d1 \<or> index it \<ge> dsize d2 then Some (CC_ERR_OUT_OF_RANGE, h, it, d1, d2)
      else do {
        (st1, h, d1) \<leftarrow> (if capacity d1 = dsize d1 then expand_capacity h d1 else Some (CC_OK, h, d1));
        (st2, h, d2) \<leftarrow> (if st1 \<noteq> CC_OK \<and> capacity d2 = dsize d2 then expand_capacity h d2
                        else Some (CC_OK, h, d2));
        if st1 \<noteq> CC_OK \<and> st2 \<noteq> CC_OK then Some (CC_ERR_ALLOC, h, it, d1, d2)
        else do {
          (st, h, d1) \<leftarrow> deque_add_at h d1 e1 (index it);
          (st, h, d2) \<leftarrow> deque_add_at h d2 e2 (index it);
          Some (CC_OK, h, it\<lparr>index := index it + 1\<rparr>, d1, d2)
        }
      })"

definition deque_zip_iter_remove ::
  "deque_iter \<Rightarrow> 'h deque \<Rightarrow> 'h deque
    \<Rightarrow> (cc_stat \<times> (addr option \<times> addr option) \<times> deque_iter \<times> 'h deque \<times> 'h deque) option" where
  "deque_zip_iter_remove it d1 d2 =
     (if last_removed it then Some (CC_ERR_VALUE_NOT_FOUND, (None, None), it, d1, d2)
      else if index it - 1 \<ge> dsize d1 \<or> index it - 1 \<ge> dsize d2
      then Some (CC_ERR_OUT_OF_RANGE, (None, None), it, d1, d2)
      else do {
        (st, out1, d1) \<leftarrow> deque_remove_at d1 (index it - 1);
        (st, out2, d2) \<leftarrow> deque_remove_at d2 (index it - 1);
        Some (CC_OK, (out1, out2), it\<lparr>index := index it - 1, last_removed := True\<rparr>, d1, d2)
      })"

definition deque_zip_iter_replace ::
  "deque_iter \<Rightarrow> 'h deque \<Rightarrow> 'h deque \<Rightarrow> addr \<Rightarrow> addr
    \<Rightarrow> (cc_stat \<times> (addr option \<times> addr option) \<times> 'h deque \<times> 'h deque) option" where
  "deque_zip_iter_replace it d1 d2 e1 e2 =
     (if index it - 1 \<ge> dsize d1 \<or> index it - 1 \<ge> dsize d2
      then Some (CC_ERR_OUT_OF_RANGE, (None, None), d1, d2)
      else do {
        (st, out1, d1) \<leftarrow> deque_replace_at d1 e1 (index it - 1);
        (st, out2, d2) \<leftarrow> deque_replace_at d2 e2 (index it - 1);
        Some (CC_OK, (out1, out2), d1, d2)
      })"

definition deque_zip_iter_index :: "deque_iter \<Rightarrow> u32" where
  "deque_zip_iter_index it = index it - 1"

end
