(* ===== verification/Deque_Ring.thy ===== *)
theory Deque_Ring
  imports Deque
begin

text \<open>
  The deque as a list. \<open>deque_inv\<close> is the well-formedness the operations at the ends keep,
  \<open>contents\<close> the list a deque stands for; each operation is shown to act on this list.
\<close>

section \<open>Invariant and contents\<close>

definition deque_inv :: "'h deque \<Rightarrow> bool" where
  "deque_inv d \<longleftrightarrow>
     (\<exists>k. unat (capacity d) = 2 ^ k) \<and> length (buffer d) = unat (capacity d) \<and>
     unat (first d) < unat (capacity d) \<and> unat (dsize d) \<le> unat (capacity d) \<and>
     unat (dlast d) = (unat (first d) + unat (dsize d)) mod unat (capacity d)"

definition contents :: "'h deque \<Rightarrow> addr list" where
  "contents d = ring_list (buffer d) (unat (first d)) (unat (dsize d))"

lemma length_contents [simp]: "length (contents d) = unat (dsize d)"
  by (simp add: contents_def)

lemma contents_Nil_iff: "contents d = [] \<longleftrightarrow> dsize d = 0"
  by (metis length_0_conv length_contents unat_eq_zero)

lemma deque_invE:
  assumes "deque_inv d"
  obtains k where "unat (capacity d) = 2 ^ k" "length (buffer d) = 2 ^ k" "unat (first d) < 2 ^ k"
    "unat (dsize d) \<le> 2 ^ k" "unat (dlast d) = (unat (first d) + unat (dsize d)) mod 2 ^ k"
    "unat (dlast d) < 2 ^ k"
  using assms unfolding deque_inv_def by auto

lemma deque_invI:
  assumes "unat (capacity d) = 2 ^ k" "length (buffer d) = 2 ^ k" "unat (first d) < 2 ^ k"
    "unat (dsize d) \<le> 2 ^ k" "unat (dlast d) = (unat (first d) + unat (dsize d)) mod 2 ^ k"
  shows "deque_inv d"
  using assms unfolding deque_inv_def by auto

lemma cell_mod:
  assumes "deque_inv d"
  shows "cell d i = (unat (first d) + unat i) mod length (buffer d)"
proof -
  obtain k where "unat (capacity d) = 2 ^ k" "length (buffer d) = 2 ^ k"
    using assms by (rule deque_invE)
  then show ?thesis by (simp add: cell_def and_mask_add)
qed

lemma cell_less: "deque_inv d \<Longrightarrow> cell d i < length (buffer d)"
  by (metis cell_mod deque_invE mod_less_divisor zero_less_numeral zero_less_power)

lemma rd_cell:
  assumes "deque_inv d" "i < unat (dsize d)"
  shows "rd (buffer d) (cell d (of_nat i)) = Some (contents d ! i)"
proof -
  have "i < 2 ^ 32" using assms(2) unat_u32_less [of "dsize d"] by simp
  then have "unat (of_nat i :: u32) = i" by (simp add: unat_of_nat take_bit_nat_eq_self)
  then show ?thesis
    using assms cell_less [OF assms(1), of "of_nat i"] cell_mod [OF assms(1), of "of_nat i"]
    by (simp add: rd_def contents_def)
qed

lemma unat_inc: "unat (w :: u32) < 2 ^ k \<Longrightarrow> unat (c :: u32) = 2 ^ k \<Longrightarrow> unat (w + 1) = Suc (unat w)"
  using unat_u32_less [of c] by (subst unat_plus_no_wrap) auto

lemma unat_dec: "(w :: u32) \<noteq> 0 \<Longrightarrow> unat (w - 1) = unat w - 1"
  by (simp add: unat_minus_one)

section \<open>Insertion and removal at the ends\<close>

text \<open>What an operation on the elements leaves alone.\<close>

definition same_block :: "'h deque \<Rightarrow> 'h deque \<Rightarrow> bool" where
  "same_block d d' \<longleftrightarrow> capacity d' = capacity d \<and> mem d' = mem d \<and> deque_at d' = deque_at d \<and>
     buffer_at d' = buffer_at d"

lemma add_last_room:
  assumes "deque_inv d" "dsize d < capacity d"
  shows "\<exists>d'. deque_add_last h d x = Some (CC_OK, h, d') \<and> deque_inv d' \<and>
    contents d' = contents d @ [x] \<and> same_block d d'"
proof -
  obtain k where k: "unat (capacity d) = 2 ^ k" "length (buffer d) = 2 ^ k" "unat (first d) < 2 ^ k"
    "unat (dlast d) = (unat (first d) + unat (dsize d)) mod 2 ^ k" "unat (dlast d) < 2 ^ k"
    using assms(1) by (rule deque_invE)
  have n: "unat (dsize d) < 2 ^ k" using assms(2) k(1) by (simp add: word_less_nat_alt)
  define d' where "d' = d\<lparr>dlast := (dlast d + 1) AND (capacity d - 1),
    buffer := (buffer d)[unat (dlast d) := x], dsize := dsize d + 1\<rparr>"
  have run: "deque_add_last h d x = Some (CC_OK, h, d')"
    using assms(2) k by (auto simp: deque_add_last_def expand_if_def wr_Some d'_def)
  have sz: "unat (dsize d') = Suc (unat (dsize d))"
    using unat_inc [OF n k(1)] by (simp add: d'_def)
  have "deque_inv d'"
  proof (rule deque_invI [of _ k])
    show "unat (dlast d') = (unat (first d') + unat (dsize d')) mod 2 ^ k"
      using k sz and_mask_add [OF k(1), of "dlast d" 1] by (simp add: d'_def mod_simps)
  qed (use k n sz in \<open>auto simp: d'_def\<close>)
  moreover have "contents d' = contents d @ [x]"
    using ring_list_snoc [of "unat (dsize d)" "buffer d" "unat (first d)" x] k n sz
    by (simp add: contents_def d'_def)
  ultimately show ?thesis using run by (auto simp: same_block_def d'_def)
qed

lemma add_first_room:
  assumes "deque_inv d" "dsize d < capacity d"
  shows "\<exists>d'. deque_add_first h d x = Some (CC_OK, h, d') \<and> deque_inv d' \<and>
    contents d' = x # contents d \<and> same_block d d'"
proof -
  obtain k where k: "unat (capacity d) = 2 ^ k" "length (buffer d) = 2 ^ k" "unat (first d) < 2 ^ k"
    "unat (dlast d) = (unat (first d) + unat (dsize d)) mod 2 ^ k" "unat (dlast d) < 2 ^ k"
    using assms(1) by (rule deque_invE)
  have n: "unat (dsize d) < 2 ^ k" using assms(2) k(1) by (simp add: word_less_nat_alt)
  define g where "g = (first d - 1) AND (capacity d - 1)"
  have ug: "unat g = (unat (first d) + (2 ^ k - 1)) mod 2 ^ k"
    unfolding g_def by (rule and_mask_pred [OF k(1)])
  then have gl: "unat g < 2 ^ k" by simp
  have gs: "Suc (unat g) mod 2 ^ k = unat (first d)" using k(3) by (simp add: ug mod_simps)
  define d' where "d' = d\<lparr>first := g, buffer := (buffer d)[unat g := x], dsize := dsize d + 1\<rparr>"
  have run: "deque_add_first h d x = Some (CC_OK, h, d')"
    using gl k iffD2 [OF not_le assms(2)]
    by (simp add: deque_add_first_def expand_if_def wr_Some d'_def flip: g_def)
  have sz: "unat (dsize d') = Suc (unat (dsize d))"
    using unat_inc [OF n k(1)] by (simp add: d'_def)
  have "deque_inv d'"
  proof (rule deque_invI [of _ k])
    have "unat (dlast d) = (Suc (unat g) mod 2 ^ k + unat (dsize d)) mod 2 ^ k" using k(4) gs by simp
    also have "\<dots> = (unat g + unat (dsize d')) mod 2 ^ k" using sz by (simp add: mod_simps)
    finally show "unat (dlast d') = (unat (first d') + unat (dsize d')) mod 2 ^ k"
      by (simp add: d'_def)
  qed (use k n sz gl in \<open>auto simp: d'_def\<close>)
  moreover have "contents d' = x # contents d"
    using ring_list_push [of "unat (dsize d)" "buffer d" "unat (first d)" "unat g" x] k n gl gs sz
    by (simp add: contents_def d'_def)
  ultimately show ?thesis using run by (auto simp: same_block_def d'_def)
qed

lemma remove_first_Cons:
  assumes "deque_inv d" "contents d = x # xs"
  shows "\<exists>d'. deque_remove_first d = Some (CC_OK, Some x, d') \<and> deque_inv d' \<and>
    contents d' = xs \<and> same_block d d'"
proof -
  obtain k where k: "unat (capacity d) = 2 ^ k" "length (buffer d) = 2 ^ k" "unat (first d) < 2 ^ k"
    "unat (dsize d) \<le> 2 ^ k" "unat (dlast d) = (unat (first d) + unat (dsize d)) mod 2 ^ k"
    using assms(1) by (rule deque_invE)
  obtain n where n: "unat (dsize d) = Suc n" using assms(2) by (metis length_Cons length_contents)
  then have ne: "dsize d \<noteq> 0" by auto
  define d' where "d' = d\<lparr>first := (first d + 1) AND (capacity d - 1), dsize := dsize d - 1\<rparr>"
  have sz: "unat (dsize d') = n" using n unat_dec [OF ne] by (simp add: d'_def)
  have uf: "unat (first d') = Suc (unat (first d)) mod 2 ^ k"
    using and_mask_add [OF k(1), of "first d" 1] by (simp add: d'_def)
  have split: "contents d = buffer d ! unat (first d) # ring_list (buffer d) (unat (first d')) n"
    using n k uf by (simp add: contents_def ring_list_Cons)
  then have x: "buffer d ! unat (first d) = x" and xs: "contents d' = xs"
    using assms(2) sz by (simp_all add: contents_def d'_def)
  then have run: "deque_remove_first d = Some (CC_OK, Some x, d')"
    using ne k by (simp add: deque_remove_first_def rd_Some d'_def)
  have "deque_inv d'"
  proof (rule deque_invI [of _ k])
    show "unat (dlast d') = (unat (first d') + unat (dsize d')) mod 2 ^ k"
      using k(5) uf sz n by (simp add: d'_def mod_simps)
    show "unat (first d') < 2 ^ k" by (simp add: uf)
  qed (use k n sz in \<open>auto simp: d'_def\<close>)
  then show ?thesis using run xs by (auto simp: same_block_def d'_def)
qed

lemma remove_last_snoc:
  assumes "deque_inv d" "contents d = xs @ [x]"
  shows "\<exists>d'. deque_remove_last d = Some (CC_OK, Some x, d') \<and> deque_inv d' \<and>
    contents d' = xs \<and> same_block d d'"
proof -
  obtain k where k: "unat (capacity d) = 2 ^ k" "length (buffer d) = 2 ^ k" "unat (first d) < 2 ^ k"
    "unat (dsize d) \<le> 2 ^ k" "unat (dlast d) = (unat (first d) + unat (dsize d)) mod 2 ^ k"
    using assms(1) by (rule deque_invE)
  obtain n where n: "unat (dsize d) = Suc n"
    using assms(2) by (metis length_append_singleton length_contents)
  then have ne: "dsize d \<noteq> 0" by auto
  define l where "l = (dlast d - 1) AND (capacity d - 1)"
  have "unat l = (unat (dlast d) + (2 ^ k - 1)) mod 2 ^ k"
    unfolding l_def by (rule and_mask_pred [OF k(1)])
  also have "\<dots> = (unat (first d) + n) mod 2 ^ k"
    unfolding k(5) n by (simp only: add_Suc_right mod_Suc_pred zero_less_power zero_less_numeral)
  finally have ul: "unat l = (unat (first d) + n) mod 2 ^ k" .
  then have ll: "unat l < 2 ^ k" by simp
  define d' where "d' = d\<lparr>dlast := l, dsize := dsize d - 1\<rparr>"
  have sz: "unat (dsize d') = n" using n unat_dec [OF ne] by (simp add: d'_def)
  have "contents d = ring_list (buffer d) (unat (first d)) n @ [buffer d ! unat l]"
    using n k ul by (simp add: contents_def ring_list_Suc)
  then have x: "buffer d ! unat l = x" and xs: "contents d' = xs"
    using assms(2) sz by (simp_all add: contents_def d'_def)
  then have run: "deque_remove_last d = Some (CC_OK, Some x, d')"
    using ne k ll by (simp add: deque_remove_last_def rd_Some d'_def flip: l_def)
  have "deque_inv d'"
  proof (rule deque_invI [of _ k])
    show "unat (dlast d') = (unat (first d') + unat (dsize d')) mod 2 ^ k"
      using ul sz by (simp add: d'_def)
  qed (use k n sz in \<open>auto simp: d'_def\<close>)
  then show ?thesis using run xs by (auto simp: same_block_def d'_def)
qed

lemma get_last_snoc:
  assumes "deque_inv d" "contents d = xs @ [x]"
  shows "deque_get_last d = Some (CC_OK, Some x)"
proof -
  obtain d' where "deque_remove_last d = Some (CC_OK, Some x, d')"
    using remove_last_snoc [OF assms] by blast
  then show ?thesis
    by (auto simp: deque_remove_last_def deque_get_last_def Let_def split: if_splits bind_splits)
qed

lemma get_first_Cons:
  assumes "deque_inv d" "contents d = x # xs"
  shows "deque_get_first d = Some (CC_OK, Some x)"
proof -
  obtain d' where "deque_remove_first d = Some (CC_OK, Some x, d')"
    using remove_first_Cons [OF assms] by blast
  then show ?thesis
    by (auto simp: deque_remove_first_def deque_get_first_def split: if_splits bind_splits)
qed

section \<open>Expansion\<close>

text \<open>\<open>copy_buffer\<close> unrolls any deque that is not empty into a buffer that is large enough.\<close>

lemma copy_buffer_contents:
  assumes inv: "deque_inv d" and ne: "dsize d \<noteq> 0" and r: "unat (dsize d) \<le> length r"
  shows "\<exists>b. copy_buffer d r None = Some b \<and> length b = length r \<and>
    (\<forall>i < unat (dsize d). b ! i = contents d ! i)"
proof -
  obtain k where k: "unat (capacity d) = 2 ^ k" "length (buffer d) = 2 ^ k" "unat (first d) < 2 ^ k"
    "unat (dsize d) \<le> 2 ^ k" "unat (dlast d) = (unat (first d) + unat (dsize d)) mod 2 ^ k"
    using inv by (rule deque_invE)
  define f where "f = unat (first d)"
  define n where "n = unat (dsize d)"
  have n0: "0 < n" using ne by (simp add: n_def unat_gt_0)
  have nth: "contents d ! i = buffer d ! ((f + i) mod 2 ^ k)" if "i < n" for i
    using that k(2) by (simp add: contents_def f_def n_def)
  show ?thesis
  proof (cases "f + n < 2 ^ k")
    case True
    then have l: "dlast d > first d" using k(5) n0 by (simp add: word_less_nat_alt f_def n_def)
    define b where "b = take n (drop f (buffer d)) @ drop n r"
    have "copy_buffer d r None = Some b"
      using l True k(2) r by (simp add: copy_buffer_def blit_def b_def flip: f_def n_def)
    moreover have "b ! i = contents d ! i" if "i < n" for i
      using that True k(2) nth [OF that] by (simp add: b_def nth_append)
    ultimately show ?thesis using r True k(2) by (auto simp: b_def n_def)
  next
    case False
    define l where "l = f + n - 2 ^ k"
    have l: "unat (dlast d) = l"
      using False k(3-5) by (simp add: l_def f_def n_def mod_if)
    have lf: "l \<le> f" using k(4) by (simp add: l_def n_def)
    then have nl: "\<not> dlast d > first d" using l by (simp add: word_less_nat_alt f_def)
    have e: "unat (capacity d - first d) = 2 ^ k - f"
      using k(1,3) by (subst unat_sub) (auto simp: word_le_nat_alt f_def)
    have fk: "f < 2 ^ k" using k(3) by (simp add: f_def)
    define b where "b = drop f (buffer d) @ take l (buffer d) @ drop n r"
    have en: "2 ^ k - f + l = n" using False fk by (simp add: l_def)
    have rn: "n \<le> length r" using r by (simp add: n_def)
    have "blit r 0 (buffer d) f (2 ^ k - f) = Some (drop f (buffer d) @ drop (2 ^ k - f) r)"
      using fk rn en k(2) by (simp add: blit_def)
    moreover have "blit (drop f (buffer d) @ drop (2 ^ k - f) r) (2 ^ k - f) (buffer d) 0 l = Some b"
      using fk rn en lf k(2) by (simp add: blit_def b_def add.commute)
    ultimately have "copy_buffer d r None = Some b"
      using nl by (simp add: copy_buffer_def l e flip: f_def)
    moreover have "b ! i = contents d ! i" if "i < n" for i
    proof (cases "i < 2 ^ k - f")
      case True
      then show ?thesis using nth [OF that] fk k(2) by (simp add: b_def nth_append)
    next
      case False
      then have "i - (2 ^ k - f) < l" "(f + i) mod 2 ^ k = i - (2 ^ k - f)"
        using that en fk k(4) by (auto simp: n_def mod_if)
      then show ?thesis using nth [OF that] False lf fk k(2) by (simp add: b_def nth_append)
    qed
    ultimately show ?thesis using rn fk lf en k(2) by (auto simp: b_def n_def)
  qed
qed

lemma copy_buffer_ring:
  assumes "deque_inv d" "dsize d \<noteq> 0" "unat (dsize d) \<le> length r"
  shows "\<exists>b. copy_buffer d r None = Some b \<and> length b = length r \<and>
    ring_list b 0 (unat (dsize d)) = contents d"
proof -
  obtain b where b: "copy_buffer d r None = Some b" "length b = length r"
    "\<forall>i < unat (dsize d). b ! i = contents d ! i"
    using copy_buffer_contents [OF assms] by blast
  then have "ring_list b 0 (unat (dsize d)) = contents d"
    using assms(3) by (intro nth_equalityI) auto
  then show ?thesis using b by blast
qed

lemma length_cells_of [simp]: "length (cells_of n old) = unat n div 4"
  by (simp add: cells_of_def)

text \<open>The product of the doubled capacity and the size of a pointer: 0 when it does not fit.\<close>

lemma double_bytes:
  assumes "unat (c :: u32) = 2 ^ k" "c \<noteq> MAX_POW_TWO"
  shows "unat (push_bit 1 c) = 2 ^ Suc k"
    "unat (push_bit 1 c * sizeof_ptr) = (if k < 29 then 8 * 2 ^ k else 0)"
proof -
  have "(2::nat) ^ k < 2 ^ 32" using assms(1) unat_u32_less [of c] by simp
  then have "k < 32" by (rule power_less_imp_less_exp [rotated]) simp
  have c: "c = 2 ^ k"
  proof -
    have "unat ((2 :: u32) ^ k) = 2 ^ k" using \<open>k < 32\<close> by (intro unat_pow2) simp
    then show ?thesis using assms(1) by (simp only: word_unat_eq_iff)
  qed
  have "k \<noteq> 31" using assms(2) c by (auto simp: MAX_POW_TWO_def push_bit_eq_mult)
  then have k: "k < 31" using \<open>k < 32\<close> by simp
  have p: "push_bit 1 c = 2 ^ Suc k" using c by (simp add: push_bit_eq_mult mult.commute)
  show "unat (push_bit 1 c) = 2 ^ Suc k"
    unfolding p using k by (intro unat_pow2) simp
  have m: "push_bit 1 c * sizeof_ptr = (2 :: u32) ^ (k + 3)"
    unfolding p by (simp add: sizeof_ptr_def power_add)
  show "unat (push_bit 1 c * sizeof_ptr) = (if k < 29 then 8 * 2 ^ k else 0)"
  proof (cases "k < 29")
    case True
    then have "unat ((2 :: u32) ^ (k + 3)) = 2 ^ (k + 3)" by (intro unat_pow2) simp
    then show ?thesis unfolding m using True by (simp only: power_add) simp
  next
    case False
    then have "k + 3 = 32 \<or> k + 3 = 33" using k by auto
    then show ?thesis unfolding m using False by auto
  qed
qed

text \<open>Growing a full deque: the contents stay, the old buffer is released, the capacity doubles.\<close>

lemma expand_full:
  assumes inv: "deque_inv d" and full: "dsize d = capacity d" and "capacity d \<noteq> MAX_POW_TWO"
    and p: "mem_calloc (mem d) h (push_bit 1 (capacity d)) sizeof_ptr = Some (p, h1)" "p \<noteq> 0"
    and big: "push_bit 1 (capacity d) * sizeof_ptr \<noteq> 0"
    and free: "mem_free (mem d) h1 (buffer_at d) = Some h2"
  shows "\<exists>d'. expand_capacity h d = Some (CC_OK, h2, d') \<and> deque_inv d' \<and> contents d' = contents d \<and>
    buffer_at d' = p \<and> deque_at d' = deque_at d \<and> mem d' = mem d \<and> dsize d' < capacity d' \<and>
    unat (capacity d') = 2 * unat (capacity d)"
proof -
  obtain k where k: "unat (capacity d) = 2 ^ k" "length (buffer d) = 2 ^ k"
    using inv by (rule deque_invE)
  have ne: "dsize d \<noteq> 0" using full k(1) by auto
  define c' where "c' = push_bit 1 (capacity d)"
  have c': "unat c' = 2 ^ Suc k" and bytes: "unat (c' * sizeof_ptr) = 8 * 2 ^ k"
    using double_bytes [OF k(1) assms(3)] big by (auto simp: c'_def unat_eq_zero split: if_splits)
  define r where "r = cells_of (c' * sizeof_ptr) (\<lambda>_. 0)"
  have r: "length r = 2 ^ Suc k" by (simp add: r_def bytes)
  obtain b where b: "copy_buffer d r None = Some b" "length b = length r"
    "ring_list b 0 (unat (dsize d)) = contents d"
    using copy_buffer_ring [OF inv ne, of r] k r full by auto
  define d' where "d' = d\<lparr>first := 0, dlast := dsize d, capacity := c', buffer := b, buffer_at := p\<rparr>"
  have "expand_capacity h d = Some (CC_OK, h2, d')"
    using assms(3) p free b(1) by (simp add: expand_capacity_def d'_def c'_def r_def)
  moreover have "deque_inv d'"
    using c' b r full k by (intro deque_invI [of _ "Suc k"]) (auto simp: d'_def)
  moreover have "contents d' = contents d" using b by (simp add: contents_def d'_def)
  moreover have "dsize d' < capacity d'" using full k c' by (simp add: word_less_nat_alt d'_def)
  ultimately show ?thesis using k c' by (auto simp: d'_def)
qed

section \<open>The next power of two\<close>

text \<open>One step of the cascade: each bit of \<open>x\<close> is spread over the \<open>s\<close> places below it.\<close>

definition smeared :: "u32 \<Rightarrow> nat \<Rightarrow> u32 \<Rightarrow> bool" where
  "smeared n s y \<longleftrightarrow> (\<forall>m. bit y m \<longleftrightarrow> (\<exists>j. m \<le> j \<and> j < m + s \<and> bit n j))"

lemma smeared_1: "smeared n 1 n"
  unfolding smeared_def by (metis add.commute le_less_Suc_eq less_add_one nat_less_le order_refl plus_1_eq_Suc)

lemma smeared_double:
  assumes "smeared n s y" and t: "t = s + s"
  shows "smeared n t (y OR drop_bit s y)"
  unfolding smeared_def t
proof
  fix m
  have b: "bit y k \<longleftrightarrow> (\<exists>j. k \<le> j \<and> j < k + s \<and> bit n j)" for k
    using assms by (simp add: smeared_def)
  have "bit (y OR drop_bit s y) m \<longleftrightarrow> bit y m \<or> bit y (s + m)"
    by (simp add: bit_simps)
  also have "\<dots> \<longleftrightarrow> (\<exists>j. m \<le> j \<and> j < m + (s + s) \<and> bit n j)"
  proof
    assume "bit y m \<or> bit y (s + m)"
    then show "\<exists>j. m \<le> j \<and> j < m + (s + s) \<and> bit n j" unfolding b
      by (metis add.assoc le_add2 le_trans trans_less_add1 add.commute)
  next
    assume "\<exists>j. m \<le> j \<and> j < m + (s + s) \<and> bit n j"
    then obtain j where j: "m \<le> j" "j < m + (s + s)" "bit n j" by blast
    show "bit y m \<or> bit y (s + m)"
    proof (cases "j < m + s")
      case True
      then show ?thesis using j b by blast
    next
      case False
      then have "s + m \<le> j \<and> j < s + m + s" using j by simp
      then show ?thesis using j b by blast
    qed
  qed
  finally show "bit (y OR drop_bit s y) m \<longleftrightarrow> (\<exists>j. m \<le> j \<and> j < m + (s + s) \<and> bit n j)" .
qed

lemma top_bit:
  fixes n :: u32
  assumes "n \<noteq> 0"
  obtains h where "h < 32" "bit n h" "\<And>j. bit n j \<Longrightarrow> j \<le> h" "2 ^ h \<le> unat n" "unat n < 2 ^ Suc h"
proof -
  define h where "h = Max {j. bit n j}"
  have sub: "{j. bit n j} \<subseteq> {..<32}" by (auto dest: bit_imp_le_length)
  then have fin: "finite {j. bit n j}" by (rule finite_subset) simp
  have ne: "{j. bit n j} \<noteq> {}" using assms by (auto simp: bit_eq_iff)
  have h: "bit n h" "\<And>j. bit n j \<Longrightarrow> j \<le> h"
    using Max_in [OF fin ne] Max_ge [OF fin] by (auto simp: h_def)
  have "h < 32" using h(1) sub by auto
  have "take_bit (Suc h) n = n"
    by (rule bit_word_eqI) (use h(2) in \<open>auto simp: bit_simps less_Suc_eq_le\<close>)
  then have "unat n = take_bit (Suc h) (unat n)" by (metis unsigned_take_bit_eq)
  then have lt: "unat n < 2 ^ Suc h" by (metis take_bit_nat_less_exp)
  have "bit (unat n) h" using h(1) by (simp add: bit_unsigned_iff)
  then have "odd (unat n div 2 ^ h)" by (simp add: bit_iff_odd)
  then have "unat n div 2 ^ h \<noteq> 0" by (metis even_zero)
  then have "2 ^ h \<le> unat n" by (simp add: div_eq_0_iff)
  then show thesis using that \<open>h < 32\<close> h lt by blast
qed

text \<open>The cascade fills every place below the highest bit.\<close>

lemma smeared_mask:
  assumes "smeared n 32 y" "h < 32" "bit n h" "\<And>j. bit n j \<Longrightarrow> j \<le> h"
  shows "y = mask (Suc h)"
proof (rule bit_word_eqI)
  fix m assume m: "m < LENGTH(32)"
  have "bit y m \<longleftrightarrow> (\<exists>j. m \<le> j \<and> j < m + 32 \<and> bit n j)" using assms(1) by (simp add: smeared_def)
  also have "\<dots> \<longleftrightarrow> m \<le> h"
    using assms(2,3) assms(4) by (metis le_trans trans_less_add2)
  finally show "bit y m \<longleftrightarrow> bit (mask (Suc h) :: u32) m"
    using m by (simp add: bit_mask_iff less_Suc_eq_le)
qed

lemma upper_pow_two_spec:
  assumes "n < MAX_POW_TWO" "n > 1"
  obtains k where "k < 31" "unat (upper_pow_two n) = 2 ^ Suc k" "2 ^ k < unat n" "unat n \<le> 2 ^ Suc k"
proof -
  have big: "unat n < 2 ^ 31" using assms(1) by (simp add: MAX_POW_TWO_def word_less_nat_alt push_bit_eq_mult)
  have nz: "n \<noteq> 0" "n - 1 \<noteq> 0" using assms(2) by auto
  have un: "unat (n - 1) = unat n - 1" using nz by (simp add: unat_minus_one)
  obtain h where h: "h < 32" "bit (n - 1) h" "\<And>j. bit (n - 1) j \<Longrightarrow> j \<le> h" "2 ^ h \<le> unat (n - 1)"
    "unat (n - 1) < 2 ^ Suc h" by (rule top_bit [OF nz(2)]) blast
  have "(2::nat) ^ h < 2 ^ 31" using h(4) un big by simp
  then have h31: "h < 31" by (rule power_less_imp_less_exp [rotated]) simp
  define y1 where "y1 = (n - 1) OR drop_bit 1 (n - 1)"
  define y2 where "y2 = y1 OR drop_bit 2 y1"
  define y3 where "y3 = y2 OR drop_bit 4 y2"
  define y4 where "y4 = y3 OR drop_bit 8 y3"
  define y5 where "y5 = y4 OR drop_bit 16 y4"
  have "smeared (n - 1) 2 y1"
    unfolding y1_def by (rule smeared_double [OF smeared_1]) simp
  then have "smeared (n - 1) 4 y2"
    unfolding y2_def by (rule smeared_double) simp
  then have "smeared (n - 1) 8 y3"
    unfolding y3_def by (rule smeared_double) simp
  then have "smeared (n - 1) 16 y4"
    unfolding y4_def by (rule smeared_double) simp
  then have "smeared (n - 1) 32 y5"
    unfolding y5_def by (rule smeared_double) simp
  then have "y5 = mask (Suc h)" by (rule smeared_mask [OF _ h(1-3)])
  moreover have c: "(n \<ge> MAX_POW_TWO) = False" "(n = 0) = False" using assms(1) nz by auto
  have "upper_pow_two n = y5 + 1"
    unfolding upper_pow_two_def Let_def c if_False y5_def y4_def y3_def y2_def y1_def by (rule refl)
  ultimately have "upper_pow_two n = mask (Suc h) + 1" by simp
  then have "upper_pow_two n = 2 ^ Suc h" by (simp add: mask_eq_decr_exp)
  moreover have "unat ((2 :: u32) ^ Suc h) = 2 ^ Suc h" using h31 by (intro unat_pow2) simp
  ultimately have "unat (upper_pow_two n) = 2 ^ Suc h" by simp
  moreover have "unat n \<noteq> 0" using nz(1) by (simp add: unat_eq_zero)
  then have "2 ^ h < unat n" "unat n \<le> 2 ^ Suc h" using h(4,5) un by auto
  ultimately show thesis using that h31 by blast
qed

lemma upper_pow_two_pow:
  assumes "unat n = 2 ^ k" "k < 31"
  shows "upper_pow_two n = n"
proof (cases "k = 0")
  case True
  then have "n = 1" using assms by (simp add: word_unat_eq_iff)
  then show ?thesis by (simp add: upper_pow_two_def MAX_POW_TWO_def word_le_nat_alt)
next
  case False
  have "unat n < 2 ^ 31" using assms by (simp del: power_Suc power_numeral)
  then have "n < MAX_POW_TWO" by (simp add: MAX_POW_TWO_def word_less_nat_alt push_bit_eq_mult)
  moreover have "(2::nat) ^ 0 < 2 ^ k" using False by (intro power_strict_increasing) auto
  then have "n > 1" using assms by (simp add: word_less_nat_alt)
  ultimately obtain j where j: "unat (upper_pow_two n) = 2 ^ Suc j" "2 ^ j < unat n" "unat n \<le> 2 ^ Suc j"
    by (rule upper_pow_two_spec) blast
  then have "j < k" "k \<le> Suc j" unfolding assms(1) by (simp_all del: power_Suc)
  then have "k = Suc j" by simp
  then show ?thesis using j assms by (simp only: word_unat_eq_iff)
qed

end
