(* ===== verification/Deque_Mem.thy ===== *)
theory Deque_Mem
  imports Deque_Ring Allocator
begin

text \<open>
  The deque on any memory that satisfies the allocator interface: its structure and its buffer are
  live blocks, growing replaces the buffer block and leaves every other block alone, and
  destroying a deque gives both blocks back.
\<close>

abbreviation mk_ops where
  "mk_ops a c r \<equiv> \<lparr>mem_alloc = a, mem_calloc = c, mem_free = r\<rparr>"

definition deque_owns :: "(addr \<rightharpoonup> nat) \<Rightarrow> 'h deque \<Rightarrow> bool" where
  "deque_owns al d \<longleftrightarrow> deque_at d \<noteq> buffer_at d \<and> buffer_at d \<noteq> 0 \<and>
     (\<exists>s \<ge> 32. al (deque_at d) = Some s) \<and>
     (\<exists>s \<ge> 4 * length (buffer d). al (buffer_at d) = Some s)"

text \<open>Only the buffer block may have changed, from the one of \<open>d\<close> to the one of \<open>d'\<close>.\<close>

definition swaps_buffer :: "(addr \<rightharpoonup> nat) \<Rightarrow> 'h deque \<Rightarrow> (addr \<rightharpoonup> nat) \<Rightarrow> 'h deque \<Rightarrow> bool" where
  "swaps_buffer al d al' d' \<longleftrightarrow> deque_at d' = deque_at d \<and> mem d' = mem d \<and>
     al'(buffer_at d' := None) = al(buffer_at d := None) \<and>
     (buffer_at d' \<noteq> buffer_at d \<longrightarrow> buffer_at d' \<notin> dom al)"

text \<open>A well-formed deque in the memory \<open>M\<close>, whose live blocks are \<open>al\<close>.\<close>

definition deque_ok ::
  "('h \<Rightarrow> (addr \<rightharpoonup> nat) \<Rightarrow> bool) \<Rightarrow> 'h mem_ops \<Rightarrow> 'h \<Rightarrow> (addr \<rightharpoonup> nat) \<Rightarrow> 'h deque \<Rightarrow> bool" where
  "deque_ok live M h al d \<longleftrightarrow> live h al \<and> deque_inv d \<and> deque_owns al d \<and> mem d = M"

lemma same_block_length: "deque_inv d \<Longrightarrow> deque_inv d' \<Longrightarrow> same_block d d' \<Longrightarrow> length (buffer d') = length (buffer d)"
  by (auto simp: deque_inv_def same_block_def)

lemma same_block_owns:
  "deque_inv d \<Longrightarrow> deque_inv d' \<Longrightarrow> same_block d d' \<Longrightarrow> deque_owns al d \<Longrightarrow> deque_owns al d' \<and> swaps_buffer al d al d'"
  using same_block_length [of d d']
  by (auto simp: deque_owns_def same_block_def swaps_buffer_def)

lemma swaps_buffer_trans:
  "swaps_buffer al d al' d' \<Longrightarrow> same_block d' d'' \<Longrightarrow> swaps_buffer al d al' d''"
  by (auto simp: swaps_buffer_def same_block_def)

context callocator
begin

lemma expand_owned:
  assumes live: "live h al" and inv: "deque_inv d" and full: "dsize d = capacity d"
    and m: "mem_calloc (mem d) = calloc" "mem_free (mem d) = release" and own: "deque_owns al d"
  shows "expand_capacity h d = None \<or> (\<exists>st. st \<noteq> CC_OK \<and> expand_capacity h d = Some (st, h, d)) \<or>
    (\<exists>h' d' al'. expand_capacity h d = Some (CC_OK, h', d') \<and> live h' al' \<and> deque_inv d' \<and>
      contents d' = contents d \<and> dsize d' < capacity d' \<and> deque_owns al' d' \<and> swaps_buffer al d al' d')"
proof (cases "capacity d = MAX_POW_TWO")
  case True
  then show ?thesis by (simp add: expand_capacity_def)
next
  case False
  show ?thesis
  proof (cases "calloc h (push_bit 1 (capacity d)) sizeof_ptr")
    case None
    then show ?thesis using False m by (simp add: expand_capacity_def)
  next
    case (Some r)
    then obtain p h1 where c: "calloc h (push_bit 1 (capacity d)) sizeof_ptr = Some (p, h1)"
      by (cases r) auto
    show ?thesis
    proof (cases "p = 0")
      case True
      then have "h1 = h"
        using calloc_step [OF live, of "push_bit 1 (capacity d)" sizeof_ptr] c by auto
      then show ?thesis using False True c m by (simp add: expand_capacity_def)
    next
      case p: False
      obtain s where s: "push_bit 1 (capacity d) * sizeof_ptr \<noteq> 0" "p \<notin> dom al"
        "unat (push_bit 1 (capacity d) * sizeof_ptr) \<le> s" "live h1 (al(p \<mapsto> s))"
        using calloc_served [OF live c p] by blast
      have b: "buffer_at d \<in> dom (al(p \<mapsto> s))" using own by (auto simp: deque_owns_def)
      obtain h2 where h2: "release h1 (buffer_at d) = Some h2"
        "live h2 ((al(p \<mapsto> s))(buffer_at d := None))"
        using release_step [OF s(4) b] by blast
      obtain d' where d': "expand_capacity h d = Some (CC_OK, h2, d')" "deque_inv d'"
        "contents d' = contents d" "buffer_at d' = p" "deque_at d' = deque_at d" "mem d' = mem d"
        "dsize d' < capacity d'" "unat (capacity d') = 2 * unat (capacity d)"
        using expand_full [OF inv full False, of h p h1 h2] m c p s(1) h2(1) by auto
      have bp: "buffer_at d \<noteq> p" "deque_at d \<noteq> p" using s(2) own by (auto simp: deque_owns_def)
      have "length (buffer d') = 2 * length (buffer d)"
        using d'(2,8) inv by (simp add: deque_inv_def)
      moreover have "unat (push_bit 1 (capacity d) * sizeof_ptr) = 8 * length (buffer d)"
      proof -
        obtain k where k: "unat (capacity d) = 2 ^ k" "length (buffer d) = 2 ^ k"
          using inv by (rule deque_invE)
        then show ?thesis using double_bytes(2) [OF k(1) False] s(1)
          by (auto simp: unat_eq_zero split: if_splits)
      qed
      ultimately have "deque_owns ((al(p \<mapsto> s))(buffer_at d := None)) d'"
        using own d' bp p s(3) by (auto simp: deque_owns_def)
      moreover have "swaps_buffer al d ((al(p \<mapsto> s))(buffer_at d := None)) d'"
        using d' bp s(2) by (auto simp: swaps_buffer_def fun_upd_twist)
      ultimately show ?thesis using d' h2 by blast
    qed
  qed
qed

text \<open>What one insertion makes of a deque and its memory.\<close>

lemma add_ok:
  assumes ok: "deque_ok live (mk_ops alloc calloc release) h al d"
    and full: "\<And>h d. op h d = expand_if (full d) h d k" "\<And>d. deque_inv d \<Longrightarrow> full d \<longleftrightarrow> dsize d = capacity d"
    and room: "\<And>h d. deque_inv d \<Longrightarrow> dsize d < capacity d \<Longrightarrow>
      \<exists>d'. op h d = Some (CC_OK, h, d') \<and> deque_inv d' \<and> contents d' = g (contents d) \<and> same_block d d'"
  shows "(op h d = None \<and> dsize d = capacity d) \<or>
    (dsize d = capacity d \<and> op h d = Some (CC_ERR_ALLOC, h, d)) \<or>
    (\<exists>h' d' al'. op h d = Some (CC_OK, h', d') \<and> deque_ok live (mk_ops alloc calloc release) h' al' d' \<and>
       contents d' = g (contents d) \<and> swaps_buffer al d al' d')"
proof -
  have inv: "deque_inv d" and own: "deque_owns al d" and live: "live h al"
    and m: "mem_calloc (mem d) = calloc" "mem_free (mem d) = release"
    and md: "mem d = mk_ops alloc calloc release"
    using ok by (auto simp: deque_ok_def)
  have room': "\<exists>d'. k h1 d1 = Some (CC_OK, h1, d') \<and> deque_inv d' \<and> contents d' = g (contents d1)
      \<and> same_block d1 d'" if "deque_inv d1" "dsize d1 < capacity d1" for h1 d1
    using room [OF that, of h1] full(1) [of h1 d1] full(2) [OF that(1)] that(2)
    by (auto simp: expand_if_def)
  show ?thesis
  proof (cases "dsize d = capacity d")
    case False
    then have "dsize d < capacity d"
      using inv by (simp add: deque_inv_def word_less_nat_alt word_unat_eq_iff)
    then obtain d' where "op h d = Some (CC_OK, h, d')" "deque_inv d'" "contents d' = g (contents d)"
      "same_block d d'" using room [OF inv] by blast
    then show ?thesis
      using same_block_owns [OF inv, of d' al] own live md
      by (auto simp: deque_ok_def same_block_def)
  next
    case True
    then have run: "op h d = (case expand_capacity h d of None \<Rightarrow> None | Some (st, h, d1) \<Rightarrow>
        if st \<noteq> CC_OK then Some (CC_ERR_ALLOC, h, d1) else k h d1)"
      using full(1) [of h d] full(2) [OF inv]
      by (simp add: expand_if_def Option.bind_def split: option.split)
    from expand_owned [OF live inv True m own] show ?thesis
    proof (elim disjE exE conjE)
      assume "expand_capacity h d = None"
      then show ?thesis using run True by simp
    next
      fix st assume "st \<noteq> CC_OK" "expand_capacity h d = Some (st, h, d)"
      then show ?thesis using run True by simp
    next
      fix h' d1 al'
      assume e: "expand_capacity h d = Some (CC_OK, h', d1)" "live h' al'" "deque_inv d1"
        "contents d1 = contents d" "dsize d1 < capacity d1" "deque_owns al' d1" "swaps_buffer al d al' d1"
      obtain d' where d': "k h' d1 = Some (CC_OK, h', d')" "deque_inv d'"
        "contents d' = g (contents d1)" "same_block d1 d'"
        using room' [OF e(3,5)] by blast
      have "deque_ok live (mk_ops alloc calloc release) h' al' d'"
        using same_block_owns [OF e(3) d'(2,4) e(6)] e d' md
        by (auto simp: deque_ok_def same_block_def swaps_buffer_def)
      then show ?thesis using run e d' swaps_buffer_trans [OF e(7) d'(4)] by auto
    qed
  qed
qed

lemma add_first_ok:
  assumes "deque_ok live (mk_ops alloc calloc release) h al d"
  shows "(deque_add_first h d x = None \<and> dsize d = capacity d) \<or>
    (dsize d = capacity d \<and> deque_add_first h d x = Some (CC_ERR_ALLOC, h, d)) \<or>
    (\<exists>h' d' al'. deque_add_first h d x = Some (CC_OK, h', d') \<and> deque_ok live (mk_ops alloc calloc release) h' al' d' \<and>
       contents d' = x # contents d \<and> swaps_buffer al d al' d')"
proof (rule add_ok [OF assms, where g = "(#) x"])
  fix d :: "'h deque" assume "deque_inv d"
  then show "(capacity d \<le> dsize d) \<longleftrightarrow> dsize d = capacity d"
    by (auto simp: deque_inv_def word_le_nat_alt word_unat_eq_iff)
qed (auto simp: deque_add_first_def [abs_def] add_first_room [unfolded deque_add_first_def])

lemma add_last_ok:
  assumes "deque_ok live (mk_ops alloc calloc release) h al d"
  shows "(deque_add_last h d x = None \<and> dsize d = capacity d) \<or>
    (dsize d = capacity d \<and> deque_add_last h d x = Some (CC_ERR_ALLOC, h, d)) \<or>
    (\<exists>h' d' al'. deque_add_last h d x = Some (CC_OK, h', d') \<and> deque_ok live (mk_ops alloc calloc release) h' al' d' \<and>
       contents d' = contents d @ [x] \<and> swaps_buffer al d al' d')"
proof (rule add_ok [OF assms, where g = "\<lambda>xs. xs @ [x]"])
  show "deque_add_last h d x = expand_if (capacity d = dsize d) h d (\<lambda>h d. do {
       b \<leftarrow> wr (buffer d) (unat (dlast d)) x;
       Some (CC_OK, h, d\<lparr>dlast := (dlast d + 1) AND (capacity d - 1), buffer := b,
                       dsize := dsize d + 1\<rparr>)
     })" for h and d :: "'h deque"
    by (rule deque_add_last_def)
qed (auto simp: add_last_room)

lemma destroy_ok:
  assumes "deque_ok live (mk_ops alloc calloc release) h al d"
  shows "\<exists>h'. deque_destroy h d = Some h' \<and> live h' (al(buffer_at d := None, deque_at d := None))"
proof -
  have own: "deque_owns al d" and live: "live h al" and m: "mem_free (mem d) = release"
    using assms by (auto simp: deque_ok_def)
  have "buffer_at d \<in> dom al" "deque_at d \<in> dom (al(buffer_at d := None))"
    using own by (auto simp: deque_owns_def)
  then show ?thesis
    using release_step [OF live] release_step m by (fastforce simp: deque_destroy_def)
qed

lemma new_ok:
  assumes live: "live h al" and c: "unat (conf_capacity conf) = 2 ^ k" "k < 30"
    and M: "conf_mem conf = mk_ops alloc calloc release"
  shows "deque_new_conf old conf h = None \<or>
    (\<exists>h'. deque_new_conf old conf h = Some (CC_ERR_ALLOC, h', None) \<and> live h' al) \<or>
    (\<exists>h' d al'. deque_new_conf old conf h = Some (CC_OK, h', Some d) \<and> contents d = [] \<and>
       deque_ok live (mk_ops alloc calloc release) h' al' d \<and>
       al'(buffer_at d := None, deque_at d := None) = al \<and> deque_at d \<notin> dom al \<and> buffer_at d \<notin> dom al)"
proof (cases "calloc h 1 sizeof_Deque")
  case None
  then show ?thesis by (simp add: deque_new_conf_def M)
next
  case (Some r)
  then obtain p h1 where p: "calloc h 1 sizeof_Deque = Some (p, h1)" by (cases r) auto
  show ?thesis
  proof (cases "p = 0")
    case True
    then have "h1 = h" using calloc_step [OF live, of 1 sizeof_Deque] p by auto
    then show ?thesis using True p live by (simp add: deque_new_conf_def M)
  next
    case p0: False
    obtain s where s: "p \<notin> dom al" "unat sizeof_Deque \<le> s" "live h1 (al(p \<mapsto> s))"
      using calloc_served [OF live p p0] by auto
    have fresh: "(al(p \<mapsto> s))(p := None) = al" using s(1) by (auto simp: domIff)
    define w where "w = conf_capacity conf * sizeof_ptr"
    have "unat w = 4 * 2 ^ k"
    proof -
      have "(2::nat) ^ k < 2 ^ 30" using c(2) by (intro power_strict_increasing) auto
      then show ?thesis using c(1) by (simp add: w_def sizeof_ptr_def unat_word_ariths)
    qed
    then have w: "length (cells_of w old) = 2 ^ k" by simp
    from alloc_step [OF s(3), of w] show ?thesis
    proof (elim disjE exE conjE)
      assume n: "alloc h1 w = Some (0, h1)"
      obtain h2 where "release h1 p = Some h2" "live h2 al"
        using release_step [OF s(3), of p] fresh by auto
      then show ?thesis using n p p0 by (simp add: deque_new_conf_def M w_def)
    next
      fix b h2 t
      assume b: "alloc h1 w = Some (b, h2)" "b \<noteq> 0" "b \<notin> dom (al(p \<mapsto> s))" "unat w \<le> t"
        "live h2 (al(p \<mapsto> s, b \<mapsto> t))"
      define d where "d = \<lparr>dsize = 0, capacity = upper_pow_two (conf_capacity conf), first = 0,
        dlast = 0, buffer = cells_of w old, mem = conf_mem conf, deque_at = p, buffer_at = b\<rparr>"
      have run: "deque_new_conf old conf h = Some (CC_OK, h2, Some d)"
        using p p0 b(1,2) by (simp add: deque_new_conf_def M d_def w_def)
      have "upper_pow_two (conf_capacity conf) = conf_capacity conf"
        using upper_pow_two_pow [OF c(1)] c(2) by simp
      then have "deque_inv d"
        using w c by (intro deque_invI [of _ k]) (auto simp: d_def)
      moreover have "deque_owns (al(p \<mapsto> s, b \<mapsto> t)) d"
        using b s(2) w \<open>unat w = _\<close> by (auto simp: deque_owns_def d_def sizeof_Deque_def)
      ultimately have ok: "deque_ok live (mk_ops alloc calloc release)
          h2 (al(p \<mapsto> s, b \<mapsto> t)) d"
        using b by (simp add: deque_ok_def d_def M)
      have gone: "(al(p \<mapsto> s, b \<mapsto> t))(b := None, p := None) = al"
        using b(3) s(1) by (auto simp: domIff)
      have at: "buffer_at d = b" "deque_at d = p" "contents d = []"
        by (simp_all add: d_def contents_def)
      have "b \<notin> dom al" using b(3) by auto
      then have "contents d = [] \<and>
          deque_ok live (mk_ops alloc calloc release) h2 (al(p \<mapsto> s, b \<mapsto> t)) d \<and>
          (al(p \<mapsto> s, b \<mapsto> t))(buffer_at d := None, deque_at d := None) = al \<and>
          deque_at d \<notin> dom al \<and> buffer_at d \<notin> dom al"
        using at ok gone s(1) by simp
      then show ?thesis using run by blast
    qed
  qed
qed

end

end
