(* ===== verification/Deque_Thms.thy ===== *)
theory Deque_Thms
  imports Deque_Mem
begin

text \<open>
  Properties of the deque: what capacity is chosen, what the traversals see, what reversing and
  copying do, and where the code does not do what a list would.
\<close>

section \<open>Traversals\<close>

lemma of_nat_inj:
  assumes "i < unat (n :: u32)"
  shows "unat (of_nat i :: u32) = i"
  using assms unat_u32_less [of n] by (simp add: unat_of_nat take_bit_nat_eq_self)

lemma index_of_from_contents:
  assumes "deque_inv d" "i + n = unat (dsize d)"
  shows "index_of_from d x i n = Some (let r = takeWhile ((\<noteq>) x) (drop i (contents d)) in
    if x \<in> set (drop i (contents d)) then (CC_OK, Some (of_nat (i + length r))) else (CC_ERR_OUT_OF_RANGE, None))"
  using assms(2)
proof (induction n arbitrary: i)
  case (Suc n)
  then have i: "i < unat (dsize d)" by simp
  then have "drop i (contents d) = contents d ! i # drop (Suc i) (contents d)"
    by (simp add: Cons_nth_drop_Suc)
  then show ?case
    using rd_cell [OF assms(1) i] Suc.IH [of "Suc i"] Suc.prems by (auto simp: Let_def)
qed simp

lemma count_from_contents:
  assumes "deque_inv d" "i + n = unat (dsize d)"
  shows "count_from d cmp x i n ct = Some (ct + of_nat (length (filter (\<lambda>v. cmp v x = 0) (drop i (contents d)))))"
  using assms(2)
proof (induction n arbitrary: i ct)
  case (Suc n)
  then have i: "i < unat (dsize d)" by simp
  then have "drop i (contents d) = contents d ! i # drop (Suc i) (contents d)"
    by (simp add: Cons_nth_drop_Suc)
  then show ?case
    using rd_cell [OF assms(1) i] Suc.IH [of "Suc i"] Suc.prems by (simp add: add.assoc)
qed simp

lemma foreach_from_contents:
  assumes "deque_inv d" "i + n = unat (dsize d)"
  shows "foreach_from d fn s i n = fold (\<lambda>v r. Option.bind r (\<lambda>s. fn s v)) (drop i (contents d)) (Some s)"
  using assms(2)
proof (induction n arbitrary: i s)
  case (Suc n)
  then have i: "i < unat (dsize d)" by simp
  have none: "fold (\<lambda>v r. Option.bind r (\<lambda>s. fn s v)) xs None = None" for xs
    by (induction xs) auto
  from i have "drop i (contents d) = contents d ! i # drop (Suc i) (contents d)"
    by (simp add: Cons_nth_drop_Suc)
  then show ?case
    using rd_cell [OF assms(1) i] Suc.IH [of "Suc i"] Suc.prems none
    by (cases "fn s (contents d ! i)") auto
qed simp

section \<open>Reversal\<close>

lemma cell_contents_update:
  assumes "deque_inv d" "i < unat (dsize d)"
  shows "contents (d\<lparr>buffer := (buffer d)[cell d (of_nat i) := x]\<rparr>) = (contents d)[i := x]"
    "deque_inv (d\<lparr>buffer := (buffer d)[cell d (of_nat i) := x]\<rparr>)"
proof -
  have n: "unat (dsize d) \<le> length (buffer d)" using assms(1) by (simp add: deque_inv_def)
  have "cell d (of_nat i) = (unat (first d) + i) mod length (buffer d)"
    using cell_mod [OF assms(1)] of_nat_inj [OF assms(2)] by simp
  then show "contents (d\<lparr>buffer := (buffer d)[cell d (of_nat i) := x]\<rparr>) = (contents d)[i := x]"
    using ring_list_update [OF assms(2) n] by (simp add: contents_def)
  show "deque_inv (d\<lparr>buffer := (buffer d)[cell d (of_nat i) := x]\<rparr>)"
    using assms(1) by (simp add: deque_inv_def)
qed

lemma swap_contents:
  assumes inv: "deque_inv d" and i: "i < unat (dsize d)" and j: "j < unat (dsize d)"
  defines "d' \<equiv> d\<lparr>buffer := (buffer d)[cell d (of_nat i) := contents d ! j, cell d (of_nat j) := contents d ! i]\<rparr>"
  shows "contents d' = (contents d)[i := contents d ! j, j := contents d ! i]" "deque_inv d'"
proof -
  define e where "e = d\<lparr>buffer := (buffer d)[cell d (of_nat i) := contents d ! j]\<rparr>"
  have e: "contents e = (contents d)[i := contents d ! j]" "deque_inv e" "j < unat (dsize e)"
    using cell_contents_update [OF inv i] j by (simp_all add: e_def)
  have "d' = e\<lparr>buffer := (buffer e)[cell e (of_nat j) := contents d ! i]\<rparr>"
    by (simp add: d'_def e_def cell_def)
  then show "contents d' = (contents d)[i := contents d ! j, j := contents d ! i]" "deque_inv d'"
    using cell_contents_update [OF e(2,3)] e(1) by simp_all
qed

text \<open>\<open>k\<close> swaps from the outside in, starting at \<open>i\<close> and \<open>j\<close>: on a list, then on the deque.\<close>

fun list_swaps :: "'a list \<Rightarrow> nat \<Rightarrow> nat \<Rightarrow> nat \<Rightarrow> 'a list" where
  "list_swaps xs i j 0 = xs"
| "list_swaps xs i j (Suc k) = list_swaps (xs[i := xs ! j, j := xs ! i]) (Suc i) (j - 1) k"

lemma list_swaps_rev:
  assumes "length v = length u"
  shows "list_swaps (a @ u @ mid @ v @ b) (length a) (length a + length u + length mid + length v - 1) (length u)
    = a @ rev v @ mid @ rev u @ b"
  using assms
proof (induction u arbitrary: a v b)
  case (Cons x u)
  then obtain v' y where v: "v = v' @ [y]" "length v' = length u"
    by (cases v rule: rev_cases) auto
  let ?xs = "a @ (x # u) @ mid @ v @ b"
  let ?j = "length a + length (x # u) + length mid + length v - 1"
  have split: "?xs = (a @ x # u @ mid @ v') @ y # b" using v by simp
  have j: "?j = length (a @ x # u @ mid @ v')" using v by simp
  have xj: "?xs ! ?j = y" unfolding split j by (rule nth_append_length)
  have xi: "?xs ! length a = x" by simp
  have "?xs[length a := y, ?j := x] = ((a @ y # u @ mid @ v') @ y # b)[?j := x]"
    using v by simp
  also have "\<dots> = (a @ [y]) @ u @ mid @ v' @ x # b"
    unfolding j by (simp add: list_update_append)
  finally have upd: "?xs[length a := y, ?j := x] = (a @ [y]) @ u @ mid @ v' @ x # b" .
  have "list_swaps ?xs (length a) ?j (length (x # u))
      = list_swaps (?xs[length a := ?xs ! ?j, ?j := ?xs ! length a]) (Suc (length a)) (?j - 1) (length u)"
    by (simp only: list.size(4) add_Suc_right add_0_right list_swaps.simps(2))
  also have "\<dots> = list_swaps ((a @ [y]) @ u @ mid @ v' @ x # b) (Suc (length a)) (?j - 1) (length u)"
    unfolding xi xj upd ..
  also have "\<dots> = (a @ [y]) @ rev v' @ mid @ rev u @ x # b"
    using Cons.IH [OF v(2), of "a @ [y]" "x # b"] v by simp
  finally show ?case using v by simp
qed simp

lemma reverse_swaps_list:
  assumes "deque_inv d" "i + k \<le> unat (dsize d)" "k \<le> j" "j < unat (dsize d)"
  shows "\<exists>d'. reverse_swaps d (of_nat i) (of_nat j) k = Some d' \<and> deque_inv d' \<and> same_block d d' \<and>
    contents d' = list_swaps (contents d) i j k"
  using assms
proof (induction k arbitrary: d i j)
  case 0
  then show ?case by (auto simp: same_block_def)
next
  case (Suc k)
  have i: "i < unat (dsize d)" and j: "j < unat (dsize d)" "0 < j" using Suc.prems by auto
  define e where "e = d\<lparr>buffer := (buffer d)[cell d (of_nat i) := contents d ! j, cell d (of_nat j) := contents d ! i]\<rparr>"
  have e: "contents e = (contents d)[i := contents d ! j, j := contents d ! i]" "deque_inv e"
    unfolding e_def by (rule swap_contents [OF Suc.prems(1) i j(1)])+
  have c: "cell d (of_nat i) < length (buffer d)" "cell d (of_nat j) < length (buffer d)"
    using cell_less [OF Suc.prems(1)] by auto
  have step: "reverse_swaps d (of_nat i) (of_nat j) (Suc k) = reverse_swaps e (of_nat (Suc i)) (of_nat (j - 1)) k"
    using rd_cell [OF Suc.prems(1) i] rd_cell [OF Suc.prems(1) j(1)] c j(2)
    by (simp add: e_def wr_Some of_nat_diff add.commute)
  have "\<exists>d'. reverse_swaps e (of_nat (Suc i)) (of_nat (j - 1)) k = Some d' \<and> deque_inv d' \<and> same_block e d' \<and>
    contents d' = list_swaps (contents e) (Suc i) (j - 1) k"
    using Suc.prems by (intro Suc.IH [OF e(2)]) (auto simp: e_def)
  then show ?case using step e(1) by (auto simp: same_block_def e_def)
qed

section \<open>Properties\<close>

text \<open>\<open>upper_pow_two\<close> gives the least power of two that is not below its argument, for
  every argument from 1 to \<open>MAX_POW_TWO\<close>.\<close>

theorem upper_pow_two_correct:
  assumes "n \<noteq> 0" "n \<le> MAX_POW_TWO"
  shows "\<exists>k. unat (upper_pow_two n) = 2 ^ k \<and> n \<le> upper_pow_two n \<and> unat (upper_pow_two n) < 2 * unat n"
proof -
  have top: "unat MAX_POW_TWO = 2 ^ 31" by (simp add: MAX_POW_TWO_def push_bit_eq_mult)
  consider "n = MAX_POW_TWO" | "n = 1" | "n < MAX_POW_TWO" "n > 1"
    using assms by (metis order_le_less word_gt_0 linorder_neqE not_less word_less_1)
  then show ?thesis
  proof cases
    case 1
    then have "upper_pow_two n = MAX_POW_TWO" by (simp add: upper_pow_two_def)
    then show ?thesis using 1 top by (intro exI [of _ 31]) simp
  next
    case 2
    then have "upper_pow_two n = 1" using upper_pow_two_pow [of n 0] by simp
    then show ?thesis using 2 by (intro exI [of _ 0]) simp
  next
    case 3
    then obtain k where k: "unat (upper_pow_two n) = 2 ^ Suc k" "2 ^ k < unat n" "unat n \<le> 2 ^ Suc k"
      by (rule upper_pow_two_spec) blast
    then show ?thesis by (intro exI [of _ "Suc k"]) (simp add: word_le_nat_alt)
  qed
qed

theorem upper_pow_two_correct_witness:
  "\<exists>k. unat (upper_pow_two 9) = 2 ^ k \<and> 9 \<le> upper_pow_two 9 \<and> unat (upper_pow_two 9) < 18"
  using upper_pow_two_correct [of 9] by (simp add: MAX_POW_TWO_def word_le_nat_alt push_bit_eq_mult)

text \<open>A memory that always serves, for the witnesses.\<close>

definition easy_mem :: "unit mem_ops" where
  "easy_mem = mk_ops (\<lambda>h w. Some (500, h)) (\<lambda>h n w. Some (500, h)) (\<lambda>h p. Some h)"

text \<open>A deque of three elements, 10, 20 and 30, that wraps around the end of its buffer.\<close>

definition sample_deque :: "'h mem_ops \<Rightarrow> 'h deque" where
  "sample_deque M = \<lparr>dsize = 3, capacity = 4, first = 3, dlast = 2, buffer = [20, 30, 99, 10], mem = M,
     deque_at = 100, buffer_at = 200\<rparr>"

lemma sample_deque_inv: "deque_inv (sample_deque M)"
  by (rule deque_invI [of _ 2]) (simp_all add: sample_deque_def)

lemma sample_deque_fields: "dsize (sample_deque M) = 3" "capacity (sample_deque M) = 4"
  by (simp_all add: sample_deque_def)

lemma sample_deque_contents: "contents (sample_deque M) = [10, 20, 30]"
  by (simp add: contents_def sample_deque_def ring_list_def upt_rec)

text \<open>\<open>deque_reverse\<close> stays inside the buffer and reverses a deque of odd size; in a deque of even
  size it leaves the two middle elements in place, so that a deque of two is not reversed.\<close>

theorem deque_reverse_correct:
  assumes "deque_inv d" "dsize d \<noteq> 0"
  defines "n \<equiv> unat (dsize d)"
  shows "\<exists>d'. deque_reverse d = Some d' \<and> deque_inv d' \<and> same_block d d' \<and>
    contents d' = (if odd n then rev (contents d)
      else (rev (contents d))[n div 2 - 1 := contents d ! (n div 2 - 1), n div 2 := contents d ! (n div 2)])"
proof -
  define k where "k = (n - 1) div 2"
  have n: "0 < n" using assms(2) by (simp add: n_def unat_gt_0)
  then have k: "unat ((dsize d - 1) div 2) = k" "dsize d - 1 = of_nat (n - 1)"
    using assms(2) by (simp_all add: k_def n_def unat_div unat_minus_one of_nat_diff)
  have "\<exists>d'. reverse_swaps d (of_nat 0) (of_nat (n - 1)) k = Some d' \<and> deque_inv d' \<and> same_block d d' \<and>
      contents d' = list_swaps (contents d) 0 (n - 1) k"
    using n by (intro reverse_swaps_list [OF assms(1)]) (auto simp: k_def n_def)
  then obtain d' where d': "deque_reverse d = Some d'" "deque_inv d'" "same_block d d'"
    "contents d' = list_swaps (contents d) 0 (n - 1) k"
    using k by (auto simp: deque_reverse_def)
  define u where "u = take k (contents d)"
  define mid where "mid = take (n - 2 * k) (drop k (contents d))"
  define v where "v = drop (n - k) (contents d)"
  have kn: "2 * k \<le> n" "length u = k" "length v = k" "length mid = n - 2 * k"
    by (auto simp: k_def u_def v_def mid_def n_def)
  have "drop k (contents d) = mid @ v"
    using append_take_drop_id [of "n - 2 * k" "drop k (contents d)"] kn(1) by (simp add: mid_def v_def)
  then have c: "contents d = u @ mid @ v" by (metis append_take_drop_id u_def)
  then have "contents d' = rev v @ mid @ rev u"
    using d'(4) list_swaps_rev [of v u "[]" mid "[]"] kn n by simp
  moreover have "rev v @ mid @ rev u = (if odd n then rev (contents d)
      else (rev (contents d))[n div 2 - 1 := contents d ! (n div 2 - 1), n div 2 := contents d ! (n div 2)])"
  proof (cases "odd n")
    case True
    then have "length mid = 1" using kn n by (auto simp: k_def)
    then obtain x where "mid = [x]" by (cases mid) auto
    then show ?thesis using True c by simp
  next
    case False
    then have "length mid = 2" and nk: "n div 2 = Suc k" using kn n by (auto simp: k_def elim: evenE)
    then obtain x y where "mid = [x, y]" by (cases mid; cases "tl mid") auto
    then show ?thesis
      using False c kn nk by (simp add: nth_append list_update_append)
  qed
  ultimately show ?thesis using d' by auto
qed

theorem deque_reverse_correct_witness:
  "\<exists>d'. deque_reverse (sample_deque easy_mem) = Some d' \<and> contents d' = [30, 20, 10]"
  using deque_reverse_correct [OF sample_deque_inv [of easy_mem]]
  by (auto simp: sample_deque_contents sample_deque_fields)

text \<open>\<open>deque_iter_next\<close> yields the elements in order and then ends, except on a deque whose size is
  its capacity: there it takes the deque for empty and ends at once.\<close>

theorem deque_iter_next_sees:
  assumes "deque_inv d" "0 < capacity d"
  shows "deque_iter_next it d =
    (if unat (index it) < unat (dsize d) \<and> dsize d \<noteq> capacity d
     then Some (CC_OK, Some (contents d ! unat (index it)),
       it\<lparr>index := index it + 1, last_removed := False\<rparr>)
     else Some (CC_ITER_END, None, it))"
proof -
  obtain k where k: "unat (capacity d) = 2 ^ k" "length (buffer d) = 2 ^ k" "unat (first d) < 2 ^ k"
    "unat (dsize d) \<le> 2 ^ k" "unat (dlast d) = (unat (first d) + unat (dsize d)) mod 2 ^ k" "unat (dlast d) < 2 ^ k"
    using assms(1) by (rule deque_invE)
  have mask: "unat (w AND (capacity d - 1)) = unat w" if "unat w < 2 ^ k" for w
    using and_mask_mod [OF k(1)] that k(1) by simp
  have eq: "dlast d AND (capacity d - 1) = first d AND (capacity d - 1) \<longleftrightarrow> dsize d = 0 \<or> dsize d = capacity d"
    using mask [OF k(3)] mask [OF k(6)] k by (auto simp: word_unat_eq_iff mod_if split: if_splits)
  have "rd (buffer d) (cell d (index it)) = Some (contents d ! unat (index it))" if "unat (index it) < unat (dsize d)"
    using rd_cell [OF assms(1) that] by simp
  then show ?thesis
    by (auto simp: deque_iter_next_def Let_def eq word_le_nat_alt cell_def)
qed

theorem deque_iter_next_sees_witness:
  "deque_iter_next \<lparr>index = 1, last_removed = False\<rparr> (sample_deque easy_mem)
    = Some (CC_OK, Some 20, \<lparr>index = 2, last_removed = False\<rparr>)"
  using deque_iter_next_sees [OF sample_deque_inv [of easy_mem], of "\<lparr>index = 1, last_removed = False\<rparr>"]
  by (simp add: sample_deque_contents sample_deque_fields)

text \<open>\<open>deque_trim_capacity\<close> keeps the contents of a deque whose size is a power of two below its
  capacity, but leaves \<open>last\<close> at the new capacity: after a removal at the front the next insertion at
  the back writes behind the buffer.\<close>

theorem deque_trim_then_add:
  assumes inv: "deque_inv d" and sz: "unat (dsize d) = 2 ^ k" "0 < k" "k < 30" "dsize d < capacity d"
    and alloc: "mem_alloc (mem d) h (sizeof_ptr * dsize d) = Some (p, h1)" "p \<noteq> 0"
    and free: "mem_free (mem d) h1 (buffer_at d) = Some h2"
  shows "\<exists>d1 d2. deque_trim_capacity old h d = Some (CC_OK, h2, d1) \<and> contents d1 = contents d \<and>
    deque_remove_first d1 = Some (CC_OK, Some (hd (contents d)), d2) \<and> deque_add_last h2 d2 x = None"
proof -
  have up: "upper_pow_two (dsize d) = dsize d" using upper_pow_two_pow [OF sz(1)] sz(3) by simp
  have ne: "dsize d \<noteq> 0" using sz(1) by auto
  have "(2::nat) ^ k < 2 ^ 30" using sz(3) by (intro power_strict_increasing) auto
  then have bytes: "unat (sizeof_ptr * dsize d) = 4 * 2 ^ k"
    using sz(1) by (simp add: sizeof_ptr_def unat_word_ariths)
  obtain b where b: "copy_buffer d (cells_of (sizeof_ptr * dsize d) old) None = Some b" "length b = 2 ^ k"
    "ring_list b 0 (unat (dsize d)) = contents d"
    using copy_buffer_ring [OF inv ne, of "cells_of (sizeof_ptr * dsize d) old"] bytes sz(1) by auto
  define d1 where "d1 = d\<lparr>buffer := b, buffer_at := p, first := 0, dlast := dsize d, capacity := dsize d\<rparr>"
  have trim: "deque_trim_capacity old h d = Some (CC_OK, h2, d1)"
    using up sz(4) alloc free b(1) by (auto simp: deque_trim_capacity_def Let_def d1_def)
  have c1: "contents d1 = contents d" using b(3) by (simp add: contents_def d1_def)
  have b0: "0 < length b" using b(2) by simp
  have "hd (contents d) = contents d ! 0"
    using ne by (intro hd_conv_nth) (simp add: contents_Nil_iff)
  also have "\<dots> = b ! 0" using b(3) ne by (metis mod_0 add_0 nth_ring_list unat_gt_0)
  finally have hd: "hd (contents d) = b ! 0" .
  define d2 where "d2 = d1\<lparr>first := (0 + 1) AND (dsize d - 1), dsize := dsize d - 1\<rparr>"
  have rm: "deque_remove_first d1 = Some (CC_OK, Some (hd (contents d)), d2)"
    using ne b0 hd by (simp add: deque_remove_first_def d1_def d2_def rd_def)
  have "deque_add_last h2 d2 x = None"
    using sz(1) b(2) by (simp add: deque_add_last_def expand_if_def d1_def d2_def wr_def)
  then show ?thesis using trim c1 rm by blast
qed

theorem deque_trim_then_add_witness:
  "\<exists>d1 d2. deque_trim_capacity (\<lambda>_. 0) () (sample_deque easy_mem\<lparr>dsize := 2, dlast := 1\<rparr>) = Some (CC_OK, (), d1) \<and>
    deque_remove_first d1 = Some (CC_OK, Some 10, d2) \<and> deque_add_last () d2 40 = None"
proof -
  define d where "d = sample_deque easy_mem\<lparr>dsize := 2, dlast := 1\<rparr>"
  have inv: "deque_inv d" by (rule deque_invI [of _ 2]) (simp_all add: d_def sample_deque_def)
  have c: "contents d = [10, 20]"
    by (simp add: contents_def d_def sample_deque_def ring_list_def upt_rec)
  have "unat (dsize d) = 2 ^ 1" "dsize d < capacity d" "mem_alloc (mem d) () (sizeof_ptr * dsize d) = Some (500, ())"
    "mem_free (mem d) () (buffer_at d) = Some ()"
    by (simp_all add: d_def sample_deque_def easy_mem_def word_less_nat_alt)
  from deque_trim_then_add [OF inv this(1) _ _ this(2,3) _ this(4), of "\<lambda>_. 0" 40]
  show ?thesis by (auto simp: c simp flip: d_def)
qed

end
