(* ===== verification/Queue.thy ===== *)
theory Queue
  imports Deque
begin

text \<open>
  The queue \<open>src/collect/queue.c\<close>: a thin layer over the deque that inserts at the front and takes
  from the back. \<open>Fifo\<close> holds the interface its clients use and the proof that it implements it.
\<close>

record 'h queue =
  qd :: "'h deque"
  qmem :: "'h mem_ops"
  queue_at :: addr

definition sizeof_Queue :: u32 where "sizeof_Queue = 16"

definition queue_conf_init :: "'h mem_ops \<Rightarrow> 'h deque_conf" where
  "queue_conf_init lib = deque_conf_init lib"

text \<open>When \<open>deque_new_conf\<close> fails it leaves the local \<open>deque\<close> uninitialised, and the test \<open>!deque\<close>
  reads it: the model has no result there.\<close>

definition queue_new_conf ::
  "(nat \<Rightarrow> addr) \<Rightarrow> 'h deque_conf \<Rightarrow> 'h \<Rightarrow> (cc_stat \<times> 'h \<times> 'h queue option) option" where
  "queue_new_conf old conf h = do {
     (p, h) \<leftarrow> mem_calloc (conf_mem conf) h 1 sizeof_Queue;
     if p = 0 then Some (CC_ERR_ALLOC, h, None)
     else do {
       (st, h, r) \<leftarrow> deque_new_conf old conf h;
       d \<leftarrow> r;
       Some (CC_OK, h, Some \<lparr>qd = d, qmem = conf_mem conf, queue_at = p\<rparr>)
     }
   }"

definition queue_new ::
  "'h mem_ops \<Rightarrow> (nat \<Rightarrow> addr) \<Rightarrow> 'h \<Rightarrow> (cc_stat \<times> 'h \<times> 'h queue option) option" where
  "queue_new lib old h = queue_new_conf old (queue_conf_init lib) h"

definition queue_destroy :: "'h \<Rightarrow> 'h queue \<Rightarrow> 'h option" where
  "queue_destroy h q = do {
     h \<leftarrow> deque_destroy h (qd q);
     mem_free (qmem q) h (queue_at q)
   }"

definition queue_destroy_free :: "'h \<Rightarrow> 'h queue \<Rightarrow> 'h option" where
  "queue_destroy_free h q = do {
     h \<leftarrow> deque_destroy_free h (qd q);
     mem_free (qmem q) h (queue_at q)
   }"

definition queue_peek :: "'h queue \<Rightarrow> (cc_stat \<times> addr option) option" where
  "queue_peek q = deque_get_last (qd q)"

definition queue_poll :: "'h queue \<Rightarrow> (cc_stat \<times> addr option \<times> 'h queue) option" where
  "queue_poll q = do {
     (st, out, d) \<leftarrow> deque_remove_last (qd q);
     Some (st, out, q\<lparr>qd := d\<rparr>)
   }"

definition queue_enqueue :: "'h \<Rightarrow> 'h queue \<Rightarrow> addr \<Rightarrow> (cc_stat \<times> 'h \<times> 'h queue) option" where
  "queue_enqueue h q element = do {
     (st, h, d) \<leftarrow> deque_add_first h (qd q) element;
     Some (st, h, q\<lparr>qd := d\<rparr>)
   }"

definition queue_size :: "'h queue \<Rightarrow> u32" where
  "queue_size q = deque_size (qd q)"

definition queue_foreach :: "'h queue \<Rightarrow> ('s \<Rightarrow> addr \<Rightarrow> 's option) \<Rightarrow> 's \<Rightarrow> 's option" where
  "queue_foreach q fn s = deque_foreach (qd q) fn s"

definition queue_iter_init :: deque_iter where
  "queue_iter_init = deque_iter_init"

definition queue_iter_next ::
  "deque_iter \<Rightarrow> 'h queue \<Rightarrow> (cc_stat \<times> addr option \<times> deque_iter) option" where
  "queue_iter_next it q = deque_iter_next it (qd q)"

definition queue_iter_replace ::
  "deque_iter \<Rightarrow> 'h queue \<Rightarrow> addr \<Rightarrow> (cc_stat \<times> addr option \<times> 'h queue) option" where
  "queue_iter_replace it q replacement = do {
     (st, out, d) \<leftarrow> deque_iter_replace it (qd q) replacement;
     Some (st, out, q\<lparr>qd := d\<rparr>)
   }"

definition queue_zip_iter_init :: deque_iter where
  "queue_zip_iter_init = deque_zip_iter_init"

definition queue_zip_iter_next ::
  "deque_iter \<Rightarrow> 'h queue \<Rightarrow> 'h queue
    \<Rightarrow> (cc_stat \<times> (addr \<times> addr) option \<times> deque_iter) option" where
  "queue_zip_iter_next it q1 q2 = deque_zip_iter_next it (qd q1) (qd q2)"

definition queue_zip_iter_replace ::
  "deque_iter \<Rightarrow> 'h queue \<Rightarrow> 'h queue \<Rightarrow> addr \<Rightarrow> addr
    \<Rightarrow> (cc_stat \<times> (addr option \<times> addr option) \<times> 'h queue \<times> 'h queue) option" where
  "queue_zip_iter_replace it q1 q2 e1 e2 = do {
     (st, outs, d1, d2) \<leftarrow> deque_zip_iter_replace it (qd q1) (qd q2) e1 e2;
     Some (st, outs, q1\<lparr>qd := d1\<rparr>, q2\<lparr>qd := d2\<rparr>)
   }"

end
