(* ===== verification/Fifo.thy ===== *)
theory Fifo
  imports Deque_Mem Queue
begin

text \<open>
  What the queue promises its clients: the interface \<open>fifo\<close> with the law of a run of any operations,
  and the proof that the queue of \<open>queue.c\<close> satisfies it in every memory that satisfies the
  allocator interface.
\<close>

section \<open>The interface\<close>

datatype fifo_op = Enq addr | Deq

text \<open>A client's run: the elements accepted (with the status \<open>fine\<close>), the elements delivered, the state
  reached; \<open>None\<close> when an operation faults.\<close>

fun fifo_run ::
  "'e \<Rightarrow> (addr \<Rightarrow> 's \<Rightarrow> ('e \<times> 's) option) \<Rightarrow> ('s \<Rightarrow> ('e \<times> addr option \<times> 's) option)
    \<Rightarrow> fifo_op list \<Rightarrow> 's \<Rightarrow> (addr list \<times> addr list \<times> 's) option" where
  "fifo_run fine enq deq [] s = Some ([], [], s)"
| "fifo_run fine enq deq (Enq x # ops) s = do {
     (st, s) \<leftarrow> enq x s;
     (acc, del, s) \<leftarrow> fifo_run fine enq deq ops s;
     Some (if st = fine then x # acc else acc, del, s)
   }"
| "fifo_run fine enq deq (Deq # ops) s = do {
     (st, out, s) \<leftarrow> deq s;
     (acc, del, s) \<leftarrow> fifo_run fine enq deq ops s;
     Some (acc, (case out of None \<Rightarrow> del | Some x \<Rightarrow> x # del), s)
   }"

locale fifo =
  fixes ok :: "'s \<Rightarrow> bool" and view :: "'s \<Rightarrow> addr list" and fine :: 'e
    and enq :: "addr \<Rightarrow> 's \<Rightarrow> ('e \<times> 's) option"
    and deq :: "'s \<Rightarrow> ('e \<times> addr option \<times> 's) option"
  assumes enq_step: "ok s \<Longrightarrow> enq x s = None \<or> (\<exists>st. st \<noteq> fine \<and> enq x s = Some (st, s)) \<or>
      (\<exists>s'. enq x s = Some (fine, s') \<and> ok s' \<and> view s' = view s @ [x])"
    and deq_step: "ok s \<Longrightarrow> view s = x # xs \<Longrightarrow>
      \<exists>s'. deq s = Some (fine, Some x, s') \<and> ok s' \<and> view s' = xs"
    and deq_empty: "ok s \<Longrightarrow> view s = [] \<Longrightarrow> \<exists>st. deq s = Some (st, None, s)"
begin

text \<open>First in, first out: what was inside and what is accepted comes out in this order, nothing is
  lost or delivered twice.\<close>

lemma run_fifo:
  assumes "ok s" "fifo_run fine enq deq ops s = Some (acc, del, s')"
  shows "ok s' \<and> view s @ acc = del @ view s'"
  using assms
proof (induction ops arbitrary: s acc del)
  case (Cons op ops)
  show ?case
  proof (cases op)
    case (Enq x)
    with Cons.prems(2) obtain st s1 acc1 where r: "enq x s = Some (st, s1)"
      "fifo_run fine enq deq ops s1 = Some (acc1, del, s')" "acc = (if st = fine then x # acc1 else acc1)"
      by (auto simp: bind_eq_Some_conv)
    from enq_step [OF Cons.prems(1), of x] r(1)
    have "(st \<noteq> fine \<and> s1 = s) \<or> (st = fine \<and> ok s1 \<and> view s1 = view s @ [x])" by auto
    then show ?thesis using Cons.IH [OF _ r(2)] Cons.prems(1) r(3) by auto
  next
    case Deq
    with Cons.prems(2) obtain st out s1 del1 where r: "deq s = Some (st, out, s1)"
      "fifo_run fine enq deq ops s1 = Some (acc, del1, s')"
      "del = (case out of None \<Rightarrow> del1 | Some x \<Rightarrow> x # del1)"
      by (auto simp: bind_eq_Some_conv)
    show ?thesis
    proof (cases "view s")
      case Nil
      then show ?thesis
        using deq_empty [OF Cons.prems(1)] r Cons.IH [OF _ r(2)] Cons.prems(1) by auto
    next
      case (Cons x xs)
      then show ?thesis
        using deq_step [OF Cons.prems(1)] r Cons.IH [OF _ r(2)] by auto
    qed
  qed
qed simp

end

text \<open>A queue whose insertion never faults: every run returns.\<close>

locale fifo_total = fifo +
  assumes enq_total: "ok s \<Longrightarrow> enq x s \<noteq> None"
begin

lemma run_returns: "ok s \<Longrightarrow> \<exists>acc del s'. fifo_run fine enq deq ops s = Some (acc, del, s')"
proof (induction ops arbitrary: s)
  case (Cons op ops)
  show ?case
  proof (cases op)
    case (Enq x)
    have "\<exists>st s'. enq x s = Some (st, s') \<and> ok s'"
      using enq_step [OF Cons.prems, of x] enq_total [OF Cons.prems, of x] Cons.prems by auto
    then show ?thesis using Cons.IH Enq by fastforce
  next
    case Deq
    have "\<exists>st out s'. deq s = Some (st, out, s') \<and> ok s'"
      using deq_step [OF Cons.prems] deq_empty [OF Cons.prems] Cons.prems by (cases "view s") auto
    then show ?thesis using Cons.IH Deq by fastforce
  qed
qed simp

lemma run_total:
  "ok s \<Longrightarrow> \<exists>acc del s'. fifo_run fine enq deq ops s = Some (acc, del, s') \<and> ok s' \<and> view s @ acc = del @ view s'"
  using run_returns run_fifo by metis

end

section \<open>The queue of the code\<close>

definition queue_owns :: "(addr \<rightharpoonup> nat) \<Rightarrow> 'h queue \<Rightarrow> bool" where
  "queue_owns al q \<longleftrightarrow> queue_at q \<noteq> deque_at (qd q) \<and> queue_at q \<noteq> buffer_at (qd q) \<and>
     (\<exists>s \<ge> 16. al (queue_at q) = Some s)"

definition queue_view :: "'h queue \<Rightarrow> addr list" where
  "queue_view q = rev (contents (qd q))"

text \<open>The live blocks that are not the queue's own three.\<close>

definition other_blocks :: "(addr \<rightharpoonup> nat) \<Rightarrow> 'h queue \<Rightarrow> (addr \<rightharpoonup> nat)" where
  "other_blocks al q = al(buffer_at (qd q) := None, deque_at (qd q) := None, queue_at q := None)"

definition queue_ok ::
  "('h \<Rightarrow> (addr \<rightharpoonup> nat) \<Rightarrow> bool) \<Rightarrow> 'h mem_ops \<Rightarrow> (addr \<rightharpoonup> nat) \<Rightarrow> 'h \<times> 'h queue \<Rightarrow> bool" where
  "queue_ok live M base = (\<lambda>(h, q). \<exists>al. deque_ok live M h al (qd q) \<and> queue_owns al q \<and> qmem q = M
     \<and> other_blocks al q = base)"

text \<open>The operations with the heap and the queue as one state.\<close>

definition enq_state :: "addr \<Rightarrow> 'h \<times> 'h queue \<Rightarrow> (cc_stat \<times> 'h \<times> 'h queue) option" where
  "enq_state x = (\<lambda>(h, q). queue_enqueue h q x)"

definition poll_state :: "'h \<times> 'h queue \<Rightarrow> (cc_stat \<times> addr option \<times> 'h \<times> 'h queue) option" where
  "poll_state = (\<lambda>(h, q). do {
     (st, out, q) \<leftarrow> queue_poll q;
     Some (st, out, h, q)
   })"

definition view_state :: "'h \<times> 'h queue \<Rightarrow> addr list" where
  "view_state = (\<lambda>(h, q). queue_view q)"

lemma queue_swaps:
  assumes "queue_owns al q" "swaps_buffer al (qd q) al' d'"
  shows "queue_owns al' (q\<lparr>qd := d'\<rparr>) \<and> other_blocks al' (q\<lparr>qd := d'\<rparr>) = other_blocks al q"
proof -
  let ?b = "buffer_at (qd q)" and ?b' = "buffer_at d'"
  have eq: "al'(?b' := None) = al(?b := None)" and at: "deque_at d' = deque_at (qd q)"
    and new: "?b' \<noteq> ?b \<Longrightarrow> ?b' \<notin> dom al"
    using assms(2) by (auto simp: swaps_buffer_def)
  have q: "queue_at q \<noteq> deque_at (qd q)" "queue_at q \<noteq> ?b" "queue_at q \<in> dom al"
    using assms(1) by (auto simp: queue_owns_def)
  then have "queue_at q \<noteq> ?b'" using new by auto
  moreover have "al' (queue_at q) = al (queue_at q)"
    using fun_cong [OF eq, of "queue_at q"] q(2) calculation by simp
  ultimately show ?thesis
    using assms(1) eq at by (simp add: queue_owns_def other_blocks_def)
qed

context callocator
begin

lemma enqueue_step:
  assumes "queue_ok live (mk_ops alloc calloc release) base (h, q)"
  shows "(queue_enqueue h q x = None \<and> dsize (qd q) = capacity (qd q)) \<or>
    (queue_enqueue h q x = Some (CC_ERR_ALLOC, h, q) \<and> dsize (qd q) = capacity (qd q)) \<or>
    (\<exists>h' q'. queue_enqueue h q x = Some (CC_OK, h', q') \<and> queue_view q' = queue_view q @ [x] \<and>
       queue_ok live (mk_ops alloc calloc release) base (h', q'))"
proof -
  obtain al where al: "deque_ok live (mk_ops alloc calloc release) h al (qd q)"
    "queue_owns al q" "qmem q = mk_ops alloc calloc release"
    "other_blocks al q = base"
    using assms by (auto simp: queue_ok_def)
  from add_first_ok [OF al(1), of x] show ?thesis
  proof (elim disjE exE conjE)
    fix h' d' al' assume r: "deque_add_first h (qd q) x = Some (CC_OK, h', d')"
      "deque_ok live (mk_ops alloc calloc release) h' al' d'"
      "contents d' = x # contents (qd q)" "swaps_buffer al (qd q) al' d'"
    have "queue_ok live (mk_ops alloc calloc release) base (h', q\<lparr>qd := d'\<rparr>)"
      using r queue_swaps [OF al(2) r(4)] al by (auto simp: queue_ok_def)
    then show ?thesis using r by (simp add: queue_enqueue_def queue_view_def)
  qed (simp_all add: queue_enqueue_def)
qed

lemma poll_step:
  assumes "queue_ok live (mk_ops alloc calloc release) base (h, q)"
    "queue_view q = x # xs"
  shows "\<exists>q'. queue_poll q = Some (CC_OK, Some x, q') \<and> queue_view q' = xs \<and>
    queue_ok live (mk_ops alloc calloc release) base (h, q')"
proof -
  obtain al where al: "deque_ok live (mk_ops alloc calloc release) h al (qd q)"
    "queue_owns al q" "qmem q = mk_ops alloc calloc release"
    "other_blocks al q = base"
    using assms(1) by (auto simp: queue_ok_def)
  have inv: "deque_inv (qd q)" and own: "deque_owns al (qd q)" using al(1) by (auto simp: deque_ok_def)
  have "contents (qd q) = rev xs @ [x]"
    using assms(2) by (simp add: queue_view_def rev_eq_Cons_iff)
  then obtain d' where d': "deque_remove_last (qd q) = Some (CC_OK, Some x, d')" "deque_inv d'"
    "contents d' = rev xs" "same_block (qd q) d'"
    using remove_last_snoc [OF inv] by blast
  have s: "deque_owns al d'" "swaps_buffer al (qd q) al d'"
    using same_block_owns [OF inv d'(2,4) own] by auto
  have "queue_ok live (mk_ops alloc calloc release) base (h, q\<lparr>qd := d'\<rparr>)"
    using al s d'(2,4) queue_swaps [OF al(2) s(2)] by (auto simp: queue_ok_def deque_ok_def same_block_def)
  then show ?thesis using d' by (simp add: queue_poll_def queue_view_def)
qed

text \<open>The queue implements the interface.\<close>

lemma queue_fifo:
  "fifo (queue_ok live (mk_ops alloc calloc release) base)
     view_state CC_OK enq_state poll_state"
proof
  fix s :: "'h \<times> 'h queue" and x
  assume "queue_ok live (mk_ops alloc calloc release) base s"
  then show "enq_state x s = None \<or> (\<exists>st. st \<noteq> CC_OK \<and> enq_state x s = Some (st, s)) \<or>
      (\<exists>s'. enq_state x s = Some (CC_OK, s') \<and>
        queue_ok live (mk_ops alloc calloc release) base s' \<and>
        view_state s' = view_state s @ [x])"
    using enqueue_step [of base "fst s" "snd s" x]
    by (cases s) (auto simp: enq_state_def view_state_def)
next
  fix s :: "'h \<times> 'h queue" and x xs
  assume "queue_ok live (mk_ops alloc calloc release) base s"
    "view_state s = x # xs"
  then show "\<exists>s'. poll_state s = Some (CC_OK, Some x, s') \<and>
      queue_ok live (mk_ops alloc calloc release) base s' \<and> view_state s' = xs"
    using poll_step [of base "fst s" "snd s" x xs]
    by (cases s) (auto simp: poll_state_def view_state_def)
next
  fix s :: "'h \<times> 'h queue"
  assume "view_state s = []"
  then show "\<exists>st. poll_state s = Some (st, None, s)"
    by (cases s) (simp add: poll_state_def view_state_def queue_view_def queue_poll_def
        deque_remove_last_def contents_Nil_iff)
qed

text \<open>A new queue is empty and owns three new blocks; destroying a queue gives its blocks back.\<close>

lemma queue_new_ok:
  assumes live: "live h al"
    and run: "queue_new (mk_ops alloc calloc release) old h = Some (CC_OK, h', Some q)"
  shows "queue_view q = [] \<and>
    queue_ok live (mk_ops alloc calloc release) al (h', q)"
proof -
  define M where "M = mk_ops alloc calloc release"
  define conf where "conf = deque_conf_init M"
  obtain p h1 where p: "calloc h 1 sizeof_Queue = Some (p, h1)" "p \<noteq> 0"
    and run1: "do { (st, h, r) \<leftarrow> deque_new_conf old conf h1; d \<leftarrow> r;
      Some (CC_OK, h, Some \<lparr>qd = d, qmem = M, queue_at = p\<rparr>) } = Some (CC_OK, h', Some q)"
    using run by (auto simp: queue_new_def queue_new_conf_def queue_conf_init_def deque_conf_init_def
        conf_def M_def bind_eq_Some_conv split: if_splits)
  obtain s where s: "p \<notin> dom al" "unat sizeof_Queue \<le> s" "live h1 (al(p \<mapsto> s))"
    using calloc_served [OF live p] by auto
  obtain st d where d: "deque_new_conf old conf h1 = Some (st, h', Some d)"
    and q: "q = \<lparr>qd = d, qmem = M, queue_at = p\<rparr>"
    using run1 by (auto simp: bind_eq_Some_conv)
  have c: "unat (conf_capacity conf) = 2 ^ 3" "(3::nat) < 30" "conf_mem conf = mk_ops alloc calloc release"
    by (simp_all add: conf_def M_def deque_conf_init_def DEFAULT_CAPACITY_def)
  from new_ok [OF s(3) c, of old] d obtain al' where al':
    "deque_ok live (mk_ops alloc calloc release) h' al' d" "contents d = []"
    "al'(buffer_at d := None, deque_at d := None) = al(p \<mapsto> s)"
    "deque_at d \<notin> dom (al(p \<mapsto> s))" "buffer_at d \<notin> dom (al(p \<mapsto> s))"
    by auto
  have ne: "p \<noteq> deque_at d" "p \<noteq> buffer_at d" using al'(4,5) by auto
  have "al' p = Some s" using fun_cong [OF al'(3), of p] ne by simp
  then have "queue_owns al' q" using ne s(2) by (simp add: queue_owns_def q sizeof_Queue_def)
  moreover have "other_blocks al' q = al"
    using al'(3) s(1) by (auto simp: other_blocks_def q domIff)
  ultimately show ?thesis
    using al'(1,2) by (auto simp: queue_ok_def queue_view_def q M_def)
qed

lemma queue_destroy_ok:
  assumes "queue_ok live (mk_ops alloc calloc release) base (h, q)"
  shows "\<exists>h'. queue_destroy h q = Some h' \<and> live h' base"
proof -
  obtain al where al: "deque_ok live (mk_ops alloc calloc release) h al (qd q)"
    "queue_owns al q" "qmem q = mk_ops alloc calloc release" "other_blocks al q = base"
    using assms by (auto simp: queue_ok_def)
  obtain h1 where h1: "deque_destroy h (qd q) = Some h1"
    "live h1 (al(buffer_at (qd q) := None, deque_at (qd q) := None))"
    using destroy_ok [OF al(1)] by blast
  have "queue_at q \<in> dom (al(buffer_at (qd q) := None, deque_at (qd q) := None))"
    using al(2) by (auto simp: queue_owns_def)
  then show ?thesis
    using release_step [OF h1(2)] h1(1) al(3,4) by (auto simp: queue_destroy_def other_blocks_def)
qed

end

end
