(* ===== verification/Collect_Thms.thy ===== *)
theory Collect_Thms
  imports Fifo LibMem_Thms
begin

text \<open>
  The queue on the allocator of \<open>lib_mem.c\<close>: the interface \<open>fifo\<close> interpreted on the code's queue in
  the code's heap, and the properties that span the two components.
\<close>

section \<open>The queue on the heap\<close>

definition lib_ops :: "heap mem_ops" where
  "lib_ops = mk_ops pvPortMalloc pvPortCalloc vPortFree"

abbreviation heap_queue :: "(addr \<rightharpoonup> nat) \<Rightarrow> heap \<times> heap queue \<Rightarrow> bool" where
  "heap_queue \<equiv> queue_ok heap_live (mk_ops pvPortMalloc pvPortCalloc vPortFree)"

interpretation lib_queue: fifo "heap_queue base" view_state CC_OK enq_state poll_state for base
  by (rule callocator.queue_fifo [OF lib_mem.callocator_axioms])

lemma heap_inv_bytes: "heap_inv h bs al \<Longrightarrow> heap_inv (h\<lparr>hbytes := f\<rparr>) bs al"
  by (simp add: heap_inv_def free_part_def alloc_part_def)

lemma pvPortCalloc_single:
  assumes "heap_inv h [(a, s)] al" "0 < unat (n * w)" "unat (n * w) < 2 ^ 31" "block_need (n * w) + 16 < s"
  shows "\<exists>h'. pvPortCalloc h n w = Some (a + 8, h') \<and>
    heap_inv h' [(a + block_need (n * w), s - block_need (n * w))] (al(a \<mapsto> block_need (n * w)))"
  using pvPortMalloc_single [OF assms] pvPortCalloc_alloc heap_inv_bytes by fastforce

text \<open>On the initial heap a queue can be created, and one free block is left.\<close>

lemma queue_new_initial_heap:
  "\<exists>h1 p d b al. queue_new lib_ops old (prvHeapInit heap0) = Some (CC_OK, h1, Some
    \<lparr>qd = \<lparr>dsize = 0, capacity = 8, first = 0, dlast = 0, buffer = cells_of 32 old, mem = lib_ops,
       deque_at = d, buffer_at = b\<rparr>, qmem = lib_ops, queue_at = p\<rparr>) \<and>
    heap_inv h1 [(heap_lo + 104, 999880)] al"
proof -
  have need: "block_need 16 = 24" "block_need 32 = 40" by (simp_all add: block_need_def)
  obtain h1 where h1: "pvPortCalloc (prvHeapInit heap0) 1 16 = Some (heap_lo + 8, h1)"
    "heap_inv h1 [(heap_lo + 24, 999960)] (Map.empty(heap_lo \<mapsto> 24))"
    using pvPortCalloc_single [OF heap0_inv, of 1 16] need by auto
  obtain h2 where h2: "pvPortCalloc h1 1 32 = Some (heap_lo + 24 + 8, h2)"
    "heap_inv h2 [(heap_lo + 24 + 40, 999920)] (Map.empty(heap_lo \<mapsto> 24, heap_lo + 24 \<mapsto> 40))"
    using pvPortCalloc_single [OF h1(2), of 1 32] need by auto
  obtain h3 al where h3: "pvPortMalloc h2 32 = Some (heap_lo + 24 + 40 + 8, h3)" "heap_inv h3 [(heap_lo + 104, 999880)] al"
    using pvPortMalloc_single [OF h2(2), of 32] need by auto
  have up: "upper_pow_two 8 = 8" by (rule upper_pow_two_pow [of _ 3]) simp_all
  show ?thesis
    using h1(1) h2(1) h3
    by (simp add: queue_new_def queue_new_conf_def queue_conf_init_def deque_conf_init_def lib_ops_def
        deque_new_conf_def sizeof_Queue_def sizeof_Deque_def sizeof_ptr_def DEFAULT_CAPACITY_def up) blast
qed

lemma queue_new_initial:
  "\<exists>h1 p d b. queue_new lib_ops old (prvHeapInit heap0) = Some (CC_OK, h1, Some
    \<lparr>qd = \<lparr>dsize = 0, capacity = 8, first = 0, dlast = 0, buffer = cells_of 32 old, mem = lib_ops,
       deque_at = d, buffer_at = b\<rparr>, qmem = lib_ops, queue_at = p\<rparr>)"
  using queue_new_initial_heap [of old] by blast

lemma queue_run_initial:
  assumes "queue_new lib_ops old (prvHeapInit heap0) = Some (CC_OK, h1, Some q)"
  shows "\<exists>q2. fifo_run CC_OK enq_state poll_state [Enq 7, Enq 9, Deq] (h1, q) = Some ([7, 9], [7], (h1, q2))"
proof -
  obtain h p d b where q: "q = \<lparr>qd = \<lparr>dsize = 0, capacity = 8, first = 0, dlast = 0, buffer = cells_of 32 old,
      mem = lib_ops, deque_at = d, buffer_at = b\<rparr>, qmem = lib_ops, queue_at = p\<rparr>" "h = h1"
    using queue_new_initial [of old] assms by auto
  show ?thesis
    by (simp add: q(1) enq_state_def poll_state_def queue_enqueue_def queue_poll_def deque_add_first_def
        expand_if_def deque_remove_last_def wr_def rd_def Let_def word_le_nat_alt)
qed

lemma empty_live:
  assumes "heap_inv h bs Map.empty"
  shows "heap_live h Map.empty"
proof -
  have "payloads Map.empty = Map.empty" by (rule ext) (simp add: payloads_def)
  then show ?thesis using assms unfolding heap_live_def by metis
qed

lemmas initial_live = empty_live [OF heap0_inv]

section \<open>Properties\<close>



text \<open>C37. No memory is lost: a queue created on an empty heap, used in any way and destroyed leaves
  the free byte count where \<open>prvHeapInit\<close> put it.\<close>

theorem queue_no_leak:
  assumes "heap_inv h bs Map.empty" "queue_new lib_ops old h = Some (CC_OK, h1, Some q)"
    "fifo_run CC_OK enq_state poll_state ops (h1, q) = Some (acc, del, (h2, q2))"
  shows "\<exists>h3. queue_destroy h2 q2 = Some h3 \<and> xPortGetFreeHeapSize h3 = 999984 \<and> acc = del @ queue_view q2"
proof -
  note live = empty_live [OF assms(1)]
  have new: "queue_view q = []" "heap_queue Map.empty (h1, q)"
    using callocator.queue_new_ok [OF lib_mem.callocator_axioms live assms(2) [unfolded lib_ops_def]] by auto
  have run: "heap_queue Map.empty (h2, q2)" "acc = del @ queue_view q2"
    using lib_queue.run_fifo [OF new(2) assms(3)] new(1) by (auto simp: view_state_def)
  obtain h3 where h3: "queue_destroy h2 q2 = Some h3" "heap_live h3 Map.empty"
    using callocator.queue_destroy_ok [OF lib_mem.callocator_axioms run(1)] by blast
  obtain bs3 bl where i3: "heap_inv h3 bs3 bl" "payloads bl = Map.empty"
    using h3(2) by (auto simp: heap_live_def)
  have "bl a = None" for a
    using fun_cong [OF i3(2), of "a + 8"] by (simp add: payloads_def)
  then have "bl = Map.empty" by auto
  then have "xPortGetFreeHeapSize h3 = 999984"
    using empty_heap_full i3(1) by simp
  then show ?thesis using h3 run by blast
qed

theorem queue_no_leak_witness:
  "\<exists>h1 h2 h3 q q2. queue_new lib_ops (\<lambda>_. 0) (prvHeapInit heap0) = Some (CC_OK, h1, Some q)
    \<and> fifo_run CC_OK enq_state poll_state [Enq 7, Enq 9, Deq] (h1, q) = Some ([7, 9], [7], (h2, q2))
    \<and> queue_destroy h2 q2 = Some h3 \<and> xPortGetFreeHeapSize h3 = 999984"
proof -
  obtain h1 q where q: "queue_new lib_ops (\<lambda>_. 0) (prvHeapInit heap0) = Some (CC_OK, h1, Some q)"
    using queue_new_initial by blast
  obtain q2 where r: "fifo_run CC_OK enq_state poll_state [Enq 7, Enq 9, Deq] (h1, q) = Some ([7, 9], [7], (h1, q2))"
    using queue_run_initial [OF q] by blast
  show ?thesis using queue_no_leak [OF heap0_inv q r] q r by blast
qed

end
