(* ===== verification/Kernel_Bitmap.thy ===== *)
theory Kernel_Bitmap
  imports YH_Prelude
begin

text \<open>
  The priority bitmaps of uC/OS-II (\<open>src/ucosii/src/os_core.c\<close>): a group byte with one bit per row and
  eight row bytes with one bit per priority. The kernel uses the same code for the ready list
  (\<open>OSRdyGrp\<close>, \<open>OSRdyTbl\<close>) and for the wait list of every event (\<open>OSEventGrp\<close>, \<open>OSEventTbl\<close>). A bitmap
  stands for a set of priorities; the interface \<open>prio_set\<close> says so, and is interpreted on the code.
\<close>

section \<open>The code\<close>

definition OSUnMapTbl :: "nat list" where
  "OSUnMapTbl = [
     0, 0, 1, 0, 2, 0, 1, 0, 3, 0, 1, 0, 2, 0, 1, 0, 4, 0, 1, 0, 2, 0, 1, 0, 3, 0, 1, 0, 2, 0, 1, 0,
     5, 0, 1, 0, 2, 0, 1, 0, 3, 0, 1, 0, 2, 0, 1, 0, 4, 0, 1, 0, 2, 0, 1, 0, 3, 0, 1, 0, 2, 0, 1, 0,
     6, 0, 1, 0, 2, 0, 1, 0, 3, 0, 1, 0, 2, 0, 1, 0, 4, 0, 1, 0, 2, 0, 1, 0, 3, 0, 1, 0, 2, 0, 1, 0,
     5, 0, 1, 0, 2, 0, 1, 0, 3, 0, 1, 0, 2, 0, 1, 0, 4, 0, 1, 0, 2, 0, 1, 0, 3, 0, 1, 0, 2, 0, 1, 0,
     7, 0, 1, 0, 2, 0, 1, 0, 3, 0, 1, 0, 2, 0, 1, 0, 4, 0, 1, 0, 2, 0, 1, 0, 3, 0, 1, 0, 2, 0, 1, 0,
     5, 0, 1, 0, 2, 0, 1, 0, 3, 0, 1, 0, 2, 0, 1, 0, 4, 0, 1, 0, 2, 0, 1, 0, 3, 0, 1, 0, 2, 0, 1, 0,
     6, 0, 1, 0, 2, 0, 1, 0, 3, 0, 1, 0, 2, 0, 1, 0, 4, 0, 1, 0, 2, 0, 1, 0, 3, 0, 1, 0, 2, 0, 1, 0,
     5, 0, 1, 0, 2, 0, 1, 0, 3, 0, 1, 0, 2, 0, 1, 0, 4, 0, 1, 0, 2, 0, 1, 0, 3, 0, 1, 0, 2, 0, 1, 0]"

text \<open>The pair of a group byte and its row table.\<close>

record bitmap =
  Grp :: u8
  Tbl :: "nat \<Rightarrow> u8"

definition bm_clear :: "bitmap \<Rightarrow> bitmap" where
  "bm_clear b = \<lparr>Grp = 0, Tbl = (\<lambda>i. if i < 8 then 0 else Tbl b i)\<rparr>"

text \<open>\<open>Grp |= bity; Tbl[y] |= bitx;\<close>\<close>

definition bm_set :: "bitmap \<Rightarrow> u8 \<Rightarrow> u8 \<Rightarrow> u8 \<Rightarrow> bitmap" where
  "bm_set b y bitx bity =
     \<lparr>Grp = Grp b OR bity, Tbl = (Tbl b)(unat y := Tbl b (unat y) OR bitx)\<rparr>"

text \<open>\<open>Tbl[y] &= ~bitx; if (Tbl[y] == 0) Grp &= ~bity;\<close>\<close>

definition bm_clr :: "bitmap \<Rightarrow> u8 \<Rightarrow> u8 \<Rightarrow> u8 \<Rightarrow> bitmap" where
  "bm_clr b y bitx bity =
     (let t = (Tbl b)(unat y := Tbl b (unat y) AND NOT bitx)
      in \<lparr>Grp = (if t (unat y) = 0 then Grp b AND NOT bity else Grp b), Tbl = t\<rparr>)"

text \<open>\<open>y = OSUnMapTbl[Grp]; prio = (y << 3) + OSUnMapTbl[Tbl[y]];\<close>\<close>

definition bm_row :: "bitmap \<Rightarrow> nat" where
  "bm_row b = OSUnMapTbl ! unat (Grp b)"

definition bm_high :: "bitmap \<Rightarrow> u8" where
  "bm_high b = (let y = bm_row b in push_bit 3 (of_nat y) + of_nat (OSUnMapTbl ! unat (Tbl b y)))"

text \<open>The row, column and masks of a priority, as \<open>OS_TCBInit\<close> computes them.\<close>

definition prio_y :: "u8 \<Rightarrow> u8" where "prio_y prio = drop_bit 3 prio"
definition prio_x :: "u8 \<Rightarrow> u8" where "prio_x prio = prio AND 7"
definition prio_bit :: "u8 \<Rightarrow> u8" where "prio_bit i = push_bit (unat i) 1"

section \<open>The interface\<close>

locale prio_set =
  fixes ok :: "'b \<Rightarrow> bool" and elems :: "'b \<Rightarrow> nat set"
    and ins :: "nat \<Rightarrow> 'b \<Rightarrow> 'b" and del :: "nat \<Rightarrow> 'b \<Rightarrow> 'b" and high :: "'b \<Rightarrow> nat" and emp :: "'b \<Rightarrow> bool"
  assumes ins_ok: "ok b \<Longrightarrow> p < 64 \<Longrightarrow> ok (ins p b) \<and> elems (ins p b) = insert p (elems b)"
    and del_ok: "ok b \<Longrightarrow> p < 64 \<Longrightarrow> ok (del p b) \<and> elems (del p b) = elems b - {p}"
    and bounded: "elems b \<subseteq> {..<64}"
    and emp_iff: "ok b \<Longrightarrow> emp b \<longleftrightarrow> elems b = {}"
    and high_least: "ok b \<Longrightarrow> elems b \<noteq> {} \<Longrightarrow> high b = Min (elems b)"
begin

lemma finite_elems: "finite (elems b)"
  using bounded by (rule finite_subset) simp

lemma high_in: "ok b \<Longrightarrow> elems b \<noteq> {} \<Longrightarrow> high b \<in> elems b"
  using high_least Min_in [OF finite_elems] by simp

lemma high_le: "ok b \<Longrightarrow> p \<in> elems b \<Longrightarrow> high b \<le> p"
  using high_least Min_le [OF finite_elems] by fastforce

lemma high_ins:
  assumes "ok b" "p < 64"
  shows "high (ins p b) = (if elems b = {} then p else min p (high b))"
  using assms ins_ok [OF assms] high_least [of "ins p b"] high_least [of b] Min_insert [OF finite_elems]
  by auto

lemma high_del_other:
  assumes "ok b" "p < 64" "elems b \<noteq> {}" "p \<noteq> high b"
  shows "high (del p b) = high b"
proof -
  have "high b \<in> elems b - {p}" using high_in [OF assms(1,3)] assms(4) by auto
  then have "Min (elems b - {p}) = high b"
    using high_le [OF assms(1)] finite_elems by (intro Min_eqI) auto
  then show ?thesis using del_ok [OF assms(1,2)] high_least [of "del p b"] \<open>high b \<in> elems b - {p}\<close> by auto
qed

end

section \<open>The bitmap is a set of priorities\<close>

definition bm_ok :: "bitmap \<Rightarrow> bool" where
  "bm_ok b \<longleftrightarrow> (\<forall>y < 8. bit (Grp b) y \<longleftrightarrow> Tbl b y \<noteq> 0)"

definition bm_elems :: "bitmap \<Rightarrow> nat set" where
  "bm_elems b = {p. p < 64 \<and> bit (Tbl b (p div 8)) (p mod 8)}"

definition bm_ins :: "nat \<Rightarrow> bitmap \<Rightarrow> bitmap" where
  "bm_ins p b = bm_set b (of_nat (p div 8)) (prio_bit (of_nat (p mod 8))) (prio_bit (of_nat (p div 8)))"

definition bm_del :: "nat \<Rightarrow> bitmap \<Rightarrow> bitmap" where
  "bm_del p b = bm_clr b (of_nat (p div 8)) (prio_bit (of_nat (p mod 8))) (prio_bit (of_nat (p div 8)))"

text \<open>The table: for every byte but 0, the place of the lowest bit.\<close>

definition low_place :: "nat \<Rightarrow> nat \<Rightarrow> bool" where
  "low_place g i \<longleftrightarrow> g = 0 \<or> (i < 8 \<and> odd (g div 2 ^ i) \<and> g mod 2 ^ i = 0)"

fun low_from :: "nat \<Rightarrow> nat list \<Rightarrow> bool" where
  "low_from g [] = True"
| "low_from g (i # is) = (low_place g i \<and> low_from (g + 1) is)"

lemma low_from_nth: "low_from g is \<Longrightarrow> k < length is \<Longrightarrow> low_place (g + k) (is ! k)"
proof (induction "is" arbitrary: g k)
  case (Cons i "is")
  then show ?case using Cons.IH [of "g + 1" "k - 1"] by (cases k) auto
qed simp

lemma OSUnMapTbl_checked: "low_from 0 OSUnMapTbl"
  by (simp add: OSUnMapTbl_def low_place_def)

lemma length_OSUnMapTbl: "length OSUnMapTbl = 256"
  by (simp add: OSUnMapTbl_def)

lemma OSUnMapTbl_low:
  assumes "0 < g" "g < 256"
  shows "OSUnMapTbl ! g < 8" "bit g (OSUnMapTbl ! g)" "j < OSUnMapTbl ! g \<Longrightarrow> \<not> bit g j"
proof -
  have "low_place (0 + g) (OSUnMapTbl ! g)"
    using assms by (intro low_from_nth [OF OSUnMapTbl_checked]) (simp add: length_OSUnMapTbl)
  then have l: "OSUnMapTbl ! g < 8" "odd (g div 2 ^ (OSUnMapTbl ! g))" "g mod 2 ^ (OSUnMapTbl ! g) = 0"
    using assms by (auto simp: low_place_def)
  then show "OSUnMapTbl ! g < 8" "bit g (OSUnMapTbl ! g)" by (simp_all add: bit_iff_odd)
  show "\<not> bit g j" if "j < OSUnMapTbl ! g"
  proof -
    have "take_bit (OSUnMapTbl ! g) g = 0" using l(3) by (simp add: take_bit_eq_mod)
    then have "\<not> bit (take_bit (OSUnMapTbl ! g) g) j" by simp
    then show ?thesis using that by (simp add: bit_take_bit_iff)
  qed
qed

lemma OSUnMapTbl_byte:
  assumes "(w :: u8) \<noteq> 0"
  shows "OSUnMapTbl ! unat w < 8" "bit w (OSUnMapTbl ! unat w)" "j < OSUnMapTbl ! unat w \<Longrightarrow> \<not> bit w j"
proof -
  have "unat w < 2 ^ LENGTH(8)" by (rule unsigned_less)
  then have "0 < unat w" "unat w < 256" using assms by (simp_all add: unat_gt_0)
  note U = OSUnMapTbl_low [OF this]
  show "OSUnMapTbl ! unat w < 8" by (rule U(1))
  show "bit w (OSUnMapTbl ! unat w)" using U(2) by (simp add: bit_unsigned_iff)
  show "\<not> bit w j" if "j < OSUnMapTbl ! unat w" using U(3) [OF that] by (simp add: bit_unsigned_iff)
qed

lemma bit_byte_less: "bit (w :: u8) i \<Longrightarrow> i < 8"
  by (drule bit_imp_le_length) simp

lemma byte_nonzero: "(w :: u8) \<noteq> 0 \<longleftrightarrow> (\<exists>i < 8. bit w i)"
  by (metis bit_byte_less bit_0_eq bot_apply bot_bool_def bit_word_eqI)

lemma bit_prio_bit: "i < 8 \<Longrightarrow> bit (prio_bit (of_nat i)) j \<longleftrightarrow> j = i"
  unfolding prio_bit_def bit_push_bit_iff
  by (auto simp: bit_1_iff unat_of_nat take_bit_nat_eq_self)

lemma bm_elems_split: "p < 64 \<Longrightarrow> p \<in> bm_elems b \<longleftrightarrow> bit (Tbl b (p div 8)) (p mod 8)"
  by (simp add: bm_elems_def)

lemma row_index: "p < 64 \<Longrightarrow> unat (of_nat (p div 8) :: u8) = p div 8"
  by (simp add: unat_of_nat take_bit_nat_eq_self less_mult_imp_div_less)

lemma same_prio: "p div 8 = q div 8 \<Longrightarrow> p mod 8 = q mod 8 \<Longrightarrow> p = (q :: nat)"
  by (metis div_mult_mod_eq)

lemma row_less: "p < 64 \<Longrightarrow> p div 8 < (8 :: nat)"
  by (simp add: less_mult_imp_div_less)

lemma bm_ins_ok:
  assumes "bm_ok b" "p < 64"
  shows "bm_ok (bm_ins p b) \<and> bm_elems (bm_ins p b) = insert p (bm_elems b)"
proof
  note P = row_index [OF assms(2)] row_less [OF assms(2)]
  have bx: "bit (prio_bit (of_nat (p mod 8))) j \<longleftrightarrow> j = p mod 8" for j by (rule bit_prio_bit) simp
  have byy: "bit (prio_bit (of_nat (p div 8))) j \<longleftrightarrow> j = p div 8" for j by (rule bit_prio_bit [OF P(2)])
  have T: "bit (Tbl (bm_ins p b) y) j \<longleftrightarrow> bit (Tbl b y) j \<or> y = p div 8 \<and> j = p mod 8" for y j
    using P bx by (auto simp: bm_ins_def bm_set_def bit_or_iff)
  have G: "bit (Grp (bm_ins p b)) y \<longleftrightarrow> bit (Grp b) y \<or> y = p div 8" for y
    using byy by (auto simp: bm_ins_def bm_set_def bit_or_iff)
  have "Tbl (bm_ins p b) y \<noteq> 0 \<longleftrightarrow> Tbl b y \<noteq> 0 \<or> y = p div 8" for y
    unfolding byte_nonzero T by (auto intro: exI [of _ "p mod 8"])
  then show "bm_ok (bm_ins p b)" using assms(1) G by (simp add: bm_ok_def)
  show "bm_elems (bm_ins p b) = insert p (bm_elems b)"
    using assms(2) T by (auto simp: bm_elems_def intro: same_prio)
qed

lemma bm_del_ok:
  assumes "bm_ok b" "p < 64"
  shows "bm_ok (bm_del p b) \<and> bm_elems (bm_del p b) = bm_elems b - {p}"
proof
  note P = row_index [OF assms(2)] row_less [OF assms(2)]
  have bx: "bit (prio_bit (of_nat (p mod 8))) j \<longleftrightarrow> j = p mod 8" for j by (rule bit_prio_bit) simp
  have byy: "bit (prio_bit (of_nat (p div 8))) j \<longleftrightarrow> j = p div 8" for j by (rule bit_prio_bit [OF P(2)])
  have T: "bit (Tbl (bm_del p b) y) j \<longleftrightarrow> bit (Tbl b y) j \<and> \<not> (y = p div 8 \<and> j = p mod 8)" for y j
    using P bx by (auto simp: bm_del_def bm_clr_def Let_def bit_and_iff bit_not_iff dest: bit_byte_less)
  have G: "bit (Grp (bm_del p b)) y \<longleftrightarrow> bit (Grp b) y \<and> \<not> (y = p div 8 \<and> Tbl (bm_del p b) y = 0)" for y
    using byy P by (auto simp: bm_del_def bm_clr_def Let_def bit_and_iff bit_not_iff dest: bit_byte_less)
  have "Tbl (bm_del p b) y = Tbl b y" if "y \<noteq> p div 8" for y
    using that P by (simp add: bm_del_def bm_clr_def Let_def)
  moreover have "Tbl b y \<noteq> 0" if "Tbl (bm_del p b) y \<noteq> 0" for y
    using that unfolding byte_nonzero T by auto
  moreover have "bit (Grp (bm_del p b)) y \<longleftrightarrow> bit (Grp b) y \<and> Tbl (bm_del p b) y \<noteq> 0"
    if "y < 8" for y
    using G [of y] calculation(1) [of y] assms(1) that by (cases "y = p div 8") (auto simp: bm_ok_def)
  ultimately show "bm_ok (bm_del p b)" using assms(1) by (auto simp: bm_ok_def)
  show "bm_elems (bm_del p b) = bm_elems b - {p}"
    using assms(2) T by (auto simp: bm_elems_def intro: same_prio)
qed

lemma bm_emp_iff:
  assumes "bm_ok b"
  shows "Grp b = 0 \<longleftrightarrow> bm_elems b = {}"
proof
  assume g: "Grp b = 0"
  have "\<not> bit (Tbl b (p div 8)) (p mod 8)" if "p < 64" for p
    using assms g row_less [OF that] by (auto simp: bm_ok_def)
  then show "bm_elems b = {}" by (auto simp: bm_elems_def)
next
  assume e: "bm_elems b = {}"
  have "Tbl b y = 0" if "y < 8" for y
  proof (rule ccontr)
    assume "Tbl b y \<noteq> 0"
    then obtain i where "i < 8" "bit (Tbl b y) i" by (auto simp: byte_nonzero)
    then have "8 * y + i \<in> bm_elems b" using that by (simp add: bm_elems_def)
    then show False using e by simp
  qed
  then have "\<not> bit (Grp b) y" if "y < 8" for y using assms that by (simp add: bm_ok_def)
  then show "Grp b = 0" using byte_nonzero by blast
qed

text \<open>The highest priority is put together from its row and its place in the row.\<close>

lemma bm_high_split:
  assumes ok: "bm_ok b" and ne: "bm_elems b \<noteq> {}"
  defines "y \<equiv> bm_row b"
  defines "x \<equiv> OSUnMapTbl ! unat (Tbl b y)"
  shows "unat (bm_high b) = 8 * y + x" "y < 8" "bit (Grp b) y" "\<And>j. j < y \<Longrightarrow> \<not> bit (Grp b) j"
    "x < 8" "bit (Tbl b y) x" "\<And>j. j < x \<Longrightarrow> \<not> bit (Tbl b y) j"
proof -
  have g: "Grp b \<noteq> 0" using bm_emp_iff [OF ok] ne by simp
  note Y = OSUnMapTbl_byte [OF g, folded bm_row_def, folded y_def]
  have t: "Tbl b y \<noteq> 0" using ok Y(1,2) by (simp add: bm_ok_def)
  note X = OSUnMapTbl_byte [OF t, folded x_def]
  show "y < 8" "bit (Grp b) y" "\<And>j. j < y \<Longrightarrow> \<not> bit (Grp b) j" using Y by auto
  show "x < 8" "bit (Tbl b y) x" "\<And>j. j < x \<Longrightarrow> \<not> bit (Tbl b y) j" using X by auto
  have h: "bm_high b = push_bit 3 (of_nat y) + of_nat x" by (simp add: bm_high_def Let_def y_def x_def)
  have e: "push_bit 3 (of_nat y) + of_nat x = (of_nat (8 * y + x) :: u8)" by (simp add: push_bit_eq_mult)
  have "8 * y + x < 64" using Y(1) X(1) by simp
  then show "unat (bm_high b) = 8 * y + x"
    unfolding h e by (simp add: unat_of_nat take_bit_nat_eq_self del: of_nat_add of_nat_mult)
qed

lemma bm_high_row:
  assumes "bm_ok b" "bm_elems b \<noteq> {}"
  shows "bm_row b = unat (bm_high b) div 8"
  using bm_high_split(1,5) [OF assms] by simp

lemma bm_high_least:
  assumes ok: "bm_ok b" and ne: "bm_elems b \<noteq> {}"
  shows "unat (bm_high b) = Min (bm_elems b)"
proof -
  define y where "y = bm_row b"
  define x where "x = OSUnMapTbl ! unat (Tbl b y)"
  note S = bm_high_split [OF ok ne, folded y_def, folded x_def]
  have "finite (bm_elems b)" by (rule finite_subset [of _ "{..<64}"]) (auto simp: bm_elems_def)
  moreover have "8 * y + x \<in> bm_elems b" using S(2,5,6) by (simp add: bm_elems_def)
  moreover have "8 * y + x \<le> p" if "p \<in> bm_elems b" for p
  proof -
    have p: "p < 64" "bit (Tbl b (p div 8)) (p mod 8)" using that by (auto simp: bm_elems_def)
    then have "Tbl b (p div 8) \<noteq> 0" by auto
    then have "bit (Grp b) (p div 8)" using ok row_less [OF p(1)] by (simp add: bm_ok_def)
    then have "y \<le> p div 8" using S(4) by (meson not_less)
    moreover have "x \<le> p mod 8" if "y = p div 8" using S(7) p(2) that by (meson not_less)
    moreover have "x < 8" by (rule S(5))
    ultimately show ?thesis using div_mult_mod_eq [of p 8] by (cases "y = p div 8") linarith+
  qed
  ultimately have "Min (bm_elems b) = 8 * y + x" by (intro Min_eqI) auto
  then show ?thesis using S(1) by simp
qed

interpretation bm: prio_set bm_ok bm_elems bm_ins bm_del "\<lambda>b. unat (bm_high b)" "\<lambda>b. Grp b = 0"
proof
  show "bm_elems b \<subseteq> {..<64}" for b by (auto simp: bm_elems_def)
qed (rule bm_ins_ok bm_del_ok bm_emp_iff bm_high_least; assumption)+

lemma bm_clear_ok: "bm_ok (bm_clear b) \<and> bm_elems (bm_clear b) = {}"
  by (auto simp: bm_ok_def bm_clear_def bm_elems_def row_less)

end
