(* ===== verification/Kernel_Core.thy ===== *)
theory Kernel_Core
  imports Kernel_Bitmap
begin

text \<open>
  The core of uC/OS-II (\<open>src/ucosii/src/os_core.c\<close>, with the configuration of \<open>include/os_cfg.h\<close>): the
  task control blocks, the event control blocks and the globals as one state record, the scheduler,
  the tick, and the functions that move tasks between the ready list and the wait lists.
  Pointers to control blocks are indices of the tables; a result \<open>None\<close> is a null pointer
  dereferenced or a loop that does not end. A context switch is what the PendSV handler of
  \<open>port/os_cpu_a.asm\<close> does to the globals: the priority and the control block of the task to run
  become those of the current task.
\<close>

section \<open>Constants\<close>

datatype os_err = OS_ERR_NONE | OS_ERR_EVENT_TYPE | OS_ERR_PEND_ISR | OS_ERR_POST_ISR | OS_ERR_QUERY_ISR
  | OS_ERR_INVALID_OPT | OS_ERR_TIMEOUT | OS_ERR_PEND_LOCKED | OS_ERR_PEND_ABORT | OS_ERR_DEL_ISR
  | OS_ERR_CREATE_ISR | OS_ERR_NAME_GET_ISR | OS_ERR_NAME_SET_ISR | OS_ERR_MBOX_FULL | OS_ERR_Q_FULL
  | OS_ERR_Q_EMPTY | OS_ERR_PRIO_EXIST | OS_ERR_PRIO_INVALID | OS_ERR_PEVENT_NULL | OS_ERR_SCHED_LOCKED
  | OS_ERR_SEM_OVF | OS_ERR_TASK_CREATE_ISR | OS_ERR_TASK_NO_MORE_TCB | OS_ERR_TASK_NOT_EXIST
  | OS_ERR_TASK_NOT_SUSPENDED | OS_ERR_TASK_RESUME_PRIO | OS_ERR_TASK_SUSPEND_PRIO | OS_ERR_TASK_WAITING
  | OS_ERR_TIME_NOT_DLY | OS_ERR_TIME_DLY_ISR | OS_ERR_NOT_MUTEX_OWNER | OS_ERR_PCP_LOWER
  | OS_ERR_FLAG_WAIT_TYPE | OS_ERR_FLAG_NOT_RDY | OS_ERR_FLAG_INVALID_OPT | OS_ERR_FLAG_GRP_DEPLETED
  | OS_ERR_PRIO | OS_ERR_TASK_DEL | OS_ERR_TASK_DEL_IDLE | OS_ERR_TASK_DEL_REQ | OS_ERR_TASK_DEL_ISR | OS_ERR_TASK_OPT
  | OS_ERR_NO_MORE_ID_AVAIL

abbreviation OS_STAT_RDY :: u8 where "OS_STAT_RDY \<equiv> 0x00"
abbreviation OS_STAT_SEM :: u8 where "OS_STAT_SEM \<equiv> 0x01"
abbreviation OS_STAT_MBOX :: u8 where "OS_STAT_MBOX \<equiv> 0x02"
abbreviation OS_STAT_Q :: u8 where "OS_STAT_Q \<equiv> 0x04"
abbreviation OS_STAT_SUSPEND :: u8 where "OS_STAT_SUSPEND \<equiv> 0x08"
abbreviation OS_STAT_MUTEX :: u8 where "OS_STAT_MUTEX \<equiv> 0x10"
abbreviation OS_STAT_FLAG :: u8 where "OS_STAT_FLAG \<equiv> 0x20"

text \<open>\<open>SEM | MBOX | Q | MUTEX | FLAG\<close>.\<close>

abbreviation OS_STAT_PEND_ANY :: u8 where "OS_STAT_PEND_ANY \<equiv> 0x37"

datatype pend_stat = OS_STAT_PEND_OK | OS_STAT_PEND_TO | OS_STAT_PEND_ABORT

datatype event_type = OS_EVENT_TYPE_UNUSED | OS_EVENT_TYPE_MBOX | OS_EVENT_TYPE_Q | OS_EVENT_TYPE_SEM
  | OS_EVENT_TYPE_MUTEX | OS_EVENT_TYPE_FLAG

datatype tick_step = OS_TICK_STEP_DIS | OS_TICK_STEP_WAIT | OS_TICK_STEP_ONCE

abbreviation OS_LOWEST_PRIO :: u8 where "OS_LOWEST_PRIO \<equiv> 63"
abbreviation OS_TASK_IDLE_PRIO :: u8 where "OS_TASK_IDLE_PRIO \<equiv> 63"
abbreviation OS_PRIO_SELF :: u8 where "OS_PRIO_SELF \<equiv> 0xFF"
abbreviation OS_TICKS_PER_SEC :: u32 where "OS_TICKS_PER_SEC \<equiv> 200"
abbreviation OS_MAX_EVENTS :: nat where "OS_MAX_EVENTS \<equiv> 10"
abbreviation OS_MAX_TCBS :: nat where "OS_MAX_TCBS \<equiv> 8"
abbreviation OS_MAX_QS :: nat where "OS_MAX_QS \<equiv> 4"

section \<open>Data\<close>

text \<open>A pointer to a task control block: null, \<open>OS_TCB_RESERVED\<close>, or an entry of \<open>OSTCBTbl\<close>.\<close>

datatype tcb_ptr = TNull | TReserved | TCB nat

text \<open>\<open>OSEventPtr\<close> is a \<open>void *\<close>: a link of the free list, a message, a queue or the owner of a mutex.\<close>

datatype event_ptr = PNull | PEvent nat | PMsg addr | PQ nat | PTCB nat

definition msg_ptr :: "addr \<Rightarrow> event_ptr" where
  "msg_ptr m = (if m = 0 then PNull else PMsg m)"

record OS_TCB =
  OSTCBStkPtr :: addr
  OSTCBExtPtr :: addr
  OSTCBStkBottom :: addr
  OSTCBStkSize :: u32
  OSTCBOpt :: u16
  OSTCBId :: u16
  OSTCBNext :: tcb_ptr
  OSTCBPrev :: tcb_ptr
  OSTCBEventPtr :: "nat option"
  OSTCBMsg :: addr
  OSTCBDly :: u32
  OSTCBStat :: u8
  OSTCBStatPend :: pend_stat
  OSTCBPrio :: u8
  OSTCBX :: u8
  OSTCBY :: u8
  OSTCBBitX :: u8
  OSTCBBitY :: u8
  OSTCBDelReq :: os_err
  OSTCBCtxSwCtr :: u32
  OSTCBTaskName :: string
  OSTCBReg :: u32

text \<open>\<open>OSEventWait\<close> is the pair (\<open>OSEventGrp\<close>, \<open>OSEventTbl\<close>).\<close>

record OS_EVENT =
  OSEventType :: event_type
  OSEventPtr :: event_ptr
  OSEventCnt :: u16
  OSEventWait :: bitmap
  OSEventName :: string

record OS_Q =
  OSQPtr :: "nat option"
  OSQStart :: addr
  OSQEnd :: addr
  OSQIn :: addr
  OSQOut :: addr
  OSQSize :: u16
  OSQEntries :: u16

text \<open>The globals; \<open>OSRdy\<close> is the pair (\<open>OSRdyGrp\<close>, \<open>OSRdyTbl\<close>), \<open>tcb\<close>, \<open>evt\<close> and \<open>osq\<close> are the tables
  \<open>OSTCBTbl\<close>, \<open>OSEventTbl\<close> and \<open>OSQTbl\<close>, \<open>qcells\<close> the memory of the message tables.\<close>

record kernel =
  OSCtxSwCtr :: u32
  OSEventFreeList :: "nat option"
  evt :: "nat \<Rightarrow> OS_EVENT"
  OSIdleCtr :: u32
  OSIdleCtrRun :: u32
  OSIdleCtrMax :: u32
  OSStatRdy :: bool
  OSIntNesting :: u8
  OSLockNesting :: u8
  OSPrioCur :: u8
  OSPrioHighRdy :: u8
  OSRdy :: bitmap
  OSRunning :: bool
  OSTaskCtr :: u8
  OSTaskRegNextAvailID :: u8
  OSTCBCur :: tcb_ptr
  OSTCBFreeList :: tcb_ptr
  OSTCBHighRdy :: tcb_ptr
  OSTCBList :: tcb_ptr
  OSTCBPrioTbl :: "nat \<Rightarrow> tcb_ptr"
  tcb :: "nat \<Rightarrow> OS_TCB"
  OSTickStepState :: tick_step
  OSTime :: u32
  OSQFreeList :: "nat option"
  osq :: "nat \<Rightarrow> OS_Q"
  qcells :: "addr \<Rightarrow> addr"

definition deref :: "tcb_ptr \<Rightarrow> nat option" where
  "deref p = (case p of TCB t \<Rightarrow> Some t | _ \<Rightarrow> None)"

definition upd_tcb :: "nat \<Rightarrow> (OS_TCB \<Rightarrow> OS_TCB) \<Rightarrow> kernel \<Rightarrow> kernel" where
  "upd_tcb t f k = k\<lparr>tcb := (tcb k)(t := f (tcb k t))\<rparr>"

definition upd_evt :: "nat \<Rightarrow> (OS_EVENT \<Rightarrow> OS_EVENT) \<Rightarrow> kernel \<Rightarrow> kernel" where
  "upd_evt e f k = k\<lparr>evt := (evt k)(e := f (evt k e))\<rparr>"

text \<open>\<open>OSRdyGrp |= ptcb->OSTCBBitY; OSRdyTbl[y] |= ptcb->OSTCBBitX;\<close> and its converse.\<close>

definition make_ready :: "u8 \<Rightarrow> nat \<Rightarrow> kernel \<Rightarrow> kernel" where
  "make_ready y t k = k\<lparr>OSRdy := bm_set (OSRdy k) y (OSTCBBitX (tcb k t)) (OSTCBBitY (tcb k t))\<rparr>"

definition make_unready :: "nat \<Rightarrow> kernel \<Rightarrow> kernel" where
  "make_unready t k =
     k\<lparr>OSRdy := bm_clr (OSRdy k) (OSTCBY (tcb k t)) (OSTCBBitX (tcb k t)) (OSTCBBitY (tcb k t))\<rparr>"

section \<open>Scheduling\<close>

definition OS_SchedNew :: "kernel \<Rightarrow> kernel" where
  "OS_SchedNew k = k\<lparr>OSPrioHighRdy := bm_high (OSRdy k)\<rparr>"

text \<open>What the context switch does to the globals.\<close>

definition OS_TASK_SW :: "kernel \<Rightarrow> kernel" where
  "OS_TASK_SW k = k\<lparr>OSPrioCur := OSPrioHighRdy k, OSTCBCur := OSTCBHighRdy k\<rparr>"

text \<open>The common part of \<open>OS_Sched\<close> and \<open>OSIntExit\<close>: pick the task and switch to it.\<close>

definition switch_to_high :: "kernel \<Rightarrow> kernel option" where
  "switch_to_high k =
     (let k = OS_SchedNew k;
          k = k\<lparr>OSTCBHighRdy := OSTCBPrioTbl k (unat (OSPrioHighRdy k))\<rparr>
      in if OSPrioHighRdy k \<noteq> OSPrioCur k then do {
           t \<leftarrow> deref (OSTCBHighRdy k);
           let k = upd_tcb t (\<lambda>c. c\<lparr>OSTCBCtxSwCtr := OSTCBCtxSwCtr c + 1\<rparr>) k;
           Some (OS_TASK_SW (k\<lparr>OSCtxSwCtr := OSCtxSwCtr k + 1\<rparr>))
         } else Some k)"

definition OS_Sched :: "kernel \<Rightarrow> kernel option" where
  "OS_Sched k =
     (if OSIntNesting k = 0 then if OSLockNesting k = 0 then switch_to_high k else Some k else Some k)"

definition OSIntEnter :: "kernel \<Rightarrow> kernel" where
  "OSIntEnter k =
     (if OSRunning k then
        if OSIntNesting k < 255 then k\<lparr>OSIntNesting := OSIntNesting k + 1\<rparr> else k
      else k)"

definition OSIntExit :: "kernel \<Rightarrow> kernel option" where
  "OSIntExit k =
     (if OSRunning k then
        let k = (if OSIntNesting k > 0 then k\<lparr>OSIntNesting := OSIntNesting k - 1\<rparr> else k)
        in if OSIntNesting k = 0 then if OSLockNesting k = 0 then switch_to_high k else Some k else Some k
      else Some k)"

definition OSSchedLock :: "kernel \<Rightarrow> kernel" where
  "OSSchedLock k =
     (if OSRunning k \<and> OSIntNesting k = 0 \<and> OSLockNesting k < 255
      then k\<lparr>OSLockNesting := OSLockNesting k + 1\<rparr> else k)"

definition OSSchedUnlock :: "kernel \<Rightarrow> kernel option" where
  "OSSchedUnlock k =
     (if OSRunning k \<and> OSIntNesting k = 0 \<and> OSLockNesting k > 0 then
        let k = k\<lparr>OSLockNesting := OSLockNesting k - 1\<rparr>
        in if OSLockNesting k = 0 then OS_Sched k else Some k
      else Some k)"

text \<open>\<open>OSStartHighRdy\<close> sets \<open>OSRunning\<close> and starts the task.\<close>

definition OSStart :: "kernel \<Rightarrow> kernel" where
  "OSStart k =
     (if \<not> OSRunning k then
        let k = OS_SchedNew k;
            k = k\<lparr>OSPrioCur := OSPrioHighRdy k\<rparr>;
            k = k\<lparr>OSTCBHighRdy := OSTCBPrioTbl k (unat (OSPrioHighRdy k))\<rparr>
        in k\<lparr>OSTCBCur := OSTCBHighRdy k, OSRunning := True\<rparr>
      else k)"

section \<open>Events\<close>

definition OS_EventTaskRemove :: "nat \<Rightarrow> nat \<Rightarrow> kernel \<Rightarrow> kernel" where
  "OS_EventTaskRemove t e k =
     upd_evt e (\<lambda>v. v\<lparr>OSEventWait := bm_clr (OSEventWait v) (OSTCBY (tcb k t)) (OSTCBBitX (tcb k t))
       (OSTCBBitY (tcb k t))\<rparr>) k"

definition OS_EventTaskRdy ::
  "nat \<Rightarrow> addr \<Rightarrow> u8 \<Rightarrow> pend_stat \<Rightarrow> kernel \<Rightarrow> (u8 \<times> kernel) option" where
  "OS_EventTaskRdy e pmsg msk pend_stat k = do {
     let y = of_nat (bm_row (OSEventWait (evt k e)));
     let prio = bm_high (OSEventWait (evt k e));
     t \<leftarrow> deref (OSTCBPrioTbl k (unat prio));
     let k = upd_tcb t (\<lambda>c. c\<lparr>OSTCBDly := 0, OSTCBMsg := pmsg, OSTCBStat := OSTCBStat c AND NOT msk,
                          OSTCBStatPend := pend_stat\<rparr>) k;
     let k = (if OSTCBStat (tcb k t) AND OS_STAT_SUSPEND = OS_STAT_RDY then make_ready y t k else k);
     Some (prio, OS_EventTaskRemove t e k)
   }"

definition OS_EventTaskWait :: "nat \<Rightarrow> kernel \<Rightarrow> kernel option" where
  "OS_EventTaskWait e k = do {
     t \<leftarrow> deref (OSTCBCur k);
     let k = upd_tcb t (\<lambda>c. c\<lparr>OSTCBEventPtr := Some e\<rparr>) k;
     let c = tcb k t;
     let k = upd_evt e (\<lambda>v. v\<lparr>OSEventWait := bm_set (OSEventWait v) (OSTCBY c) (OSTCBBitX c) (OSTCBBitY c)\<rparr>) k;
     Some (make_unready t k)
   }"

definition OS_EventWaitListInit :: "nat \<Rightarrow> kernel \<Rightarrow> kernel" where
  "OS_EventWaitListInit e k = upd_evt e (\<lambda>v. v\<lparr>OSEventWait := bm_clear (OSEventWait v)\<rparr>) k"

text \<open>\<open>while (pevent->OSEventGrp != 0) OS_EventTaskRdy (...);\<close> with the number of turns.\<close>

partial_function (option) ready_all ::
  "nat \<Rightarrow> addr \<Rightarrow> u8 \<Rightarrow> pend_stat \<Rightarrow> u8 \<Rightarrow> kernel \<Rightarrow> (u8 \<times> kernel) option" where
  "ready_all e pmsg msk pend_stat n k =
     (if Grp (OSEventWait (evt k e)) \<noteq> 0 then do {
        (prio, k) \<leftarrow> OS_EventTaskRdy e pmsg msk pend_stat k;
        ready_all e pmsg msk pend_stat (n + 1) k
      } else Some (n, k))"

definition OS_EVENT_NAMED :: "event_type \<Rightarrow> bool" where
  "OS_EVENT_NAMED ty \<longleftrightarrow> ty \<in> {OS_EVENT_TYPE_SEM, OS_EVENT_TYPE_MUTEX, OS_EVENT_TYPE_MBOX, OS_EVENT_TYPE_Q}"

text \<open>\<open>OS_StrLen\<close> counts in a byte.\<close>

definition OS_StrLen :: "string \<Rightarrow> u8" where
  "OS_StrLen s = of_nat (length s)"

definition OSEventNameGet :: "nat \<Rightarrow> kernel \<Rightarrow> u8 \<times> string option \<times> os_err" where
  "OSEventNameGet e k =
     (if OSIntNesting k > 0 then (0, None, OS_ERR_NAME_GET_ISR)
      else if \<not> OS_EVENT_NAMED (OSEventType (evt k e)) then (0, None, OS_ERR_EVENT_TYPE)
      else (OS_StrLen (OSEventName (evt k e)), Some (OSEventName (evt k e)), OS_ERR_NONE))"

definition OSEventNameSet :: "nat \<Rightarrow> string \<Rightarrow> kernel \<Rightarrow> os_err \<times> kernel" where
  "OSEventNameSet e pname k =
     (if OSIntNesting k > 0 then (OS_ERR_NAME_SET_ISR, k)
      else if \<not> OS_EVENT_NAMED (OSEventType (evt k e)) then (OS_ERR_EVENT_TYPE, k)
      else (OS_ERR_NONE, upd_evt e (\<lambda>v. v\<lparr>OSEventName := pname\<rparr>) k))"

section \<open>The tick\<close>

text \<open>The body of the loop of \<open>OSTimeTick\<close>.\<close>

definition tick_tcb :: "nat \<Rightarrow> kernel \<Rightarrow> kernel" where
  "tick_tcb t k =
     (if OSTCBDly (tcb k t) \<noteq> 0 then
        let k = upd_tcb t (\<lambda>c. c\<lparr>OSTCBDly := OSTCBDly c - 1\<rparr>) k
        in if OSTCBDly (tcb k t) = 0 then
             let k = (if OSTCBStat (tcb k t) AND OS_STAT_PEND_ANY \<noteq> OS_STAT_RDY
                      then upd_tcb t (\<lambda>c. c\<lparr>OSTCBStat := OSTCBStat c AND NOT OS_STAT_PEND_ANY,
                                         OSTCBStatPend := OS_STAT_PEND_TO\<rparr>) k
                      else upd_tcb t (\<lambda>c. c\<lparr>OSTCBStatPend := OS_STAT_PEND_OK\<rparr>) k)
             in if OSTCBStat (tcb k t) AND OS_STAT_SUSPEND = OS_STAT_RDY
                then make_ready (OSTCBY (tcb k t)) t k else k
           else k
      else k)"

partial_function (option) tick_loop :: "tcb_ptr \<Rightarrow> kernel \<Rightarrow> kernel option" where
  "tick_loop p k = do {
     t \<leftarrow> deref p;
     if OSTCBPrio (tcb k t) \<noteq> OS_TASK_IDLE_PRIO
     then tick_loop (OSTCBNext (tcb k t)) (tick_tcb t k) else Some k
   }"

definition tick_stepping :: "tick_step \<Rightarrow> bool \<times> tick_step" where
  "tick_stepping s = (case s of
     OS_TICK_STEP_DIS \<Rightarrow> (True, s)
   | OS_TICK_STEP_WAIT \<Rightarrow> (False, s)
   | OS_TICK_STEP_ONCE \<Rightarrow> (True, OS_TICK_STEP_WAIT))"

definition OSTimeTick :: "kernel \<Rightarrow> kernel option" where
  "OSTimeTick k =
     (let k = k\<lparr>OSTime := OSTime k + 1\<rparr>
      in if OSRunning k then
           let (step, s) = tick_stepping (OSTickStepState k);
               k = k\<lparr>OSTickStepState := s\<rparr>
           in if \<not> step then Some k else tick_loop (OSTCBList k) k
         else Some k)"

text \<open>The SysTick interrupt (\<open>port/os_cpu_c.c\<close>).\<close>

definition OS_CPU_SysTickHandler :: "kernel \<Rightarrow> kernel option" where
  "OS_CPU_SysTickHandler k = do {
     k \<leftarrow> OSTimeTick (k\<lparr>OSIntNesting := OSIntNesting k + 1\<rparr>);
     OSIntExit k
   }"

section \<open>Initialisation\<close>

definition OS_InitMisc :: "kernel \<Rightarrow> kernel" where
  "OS_InitMisc k = k\<lparr>OSTime := 0, OSIntNesting := 0, OSLockNesting := 0, OSTaskCtr := 0, OSRunning := False,
     OSCtxSwCtr := 0, OSIdleCtr := 0, OSIdleCtrRun := 0, OSIdleCtrMax := 0, OSStatRdy := False,
     OSTaskRegNextAvailID := 0\<rparr>"

definition OS_InitRdyList :: "kernel \<Rightarrow> kernel" where
  "OS_InitRdyList k = k\<lparr>OSRdy := bm_clear (OSRdy k), OSPrioCur := 0, OSPrioHighRdy := 0,
     OSTCBHighRdy := TNull, OSTCBCur := TNull\<rparr>"

definition zero_tcb :: OS_TCB where
  "zero_tcb = \<lparr>OSTCBStkPtr = 0, OSTCBExtPtr = 0, OSTCBStkBottom = 0, OSTCBStkSize = 0, OSTCBOpt = 0,
     OSTCBId = 0, OSTCBNext = TNull, OSTCBPrev = TNull, OSTCBEventPtr = None, OSTCBMsg = 0, OSTCBDly = 0,
     OSTCBStat = 0, OSTCBStatPend = OS_STAT_PEND_OK, OSTCBPrio = 0, OSTCBX = 0, OSTCBY = 0,
     OSTCBBitX = 0, OSTCBBitY = 0, OSTCBDelReq = OS_ERR_NONE, OSTCBCtxSwCtr = 0, OSTCBTaskName = '''',
     OSTCBReg = 0\<rparr>"

text \<open>The tables are cleared and their entries linked into the free lists, the last one ending it.\<close>

definition OS_InitTCBList :: "kernel \<Rightarrow> kernel" where
  "OS_InitTCBList k =
     k\<lparr>tcb := (\<lambda>i. if i < OS_MAX_TCBS - 1 then zero_tcb\<lparr>OSTCBNext := TCB (i + 1), OSTCBTaskName := ''?''\<rparr>
               else if i = OS_MAX_TCBS - 1 then zero_tcb\<lparr>OSTCBNext := TNull, OSTCBTaskName := ''?''\<rparr>
               else tcb k i),
       OSTCBPrioTbl := (\<lambda>p. if p < 64 then TNull else OSTCBPrioTbl k p),
       OSTCBList := TNull, OSTCBFreeList := TCB 0\<rparr>"

definition zero_event :: "bitmap \<Rightarrow> OS_EVENT" where
  "zero_event b = \<lparr>OSEventType = OS_EVENT_TYPE_UNUSED, OSEventPtr = PNull, OSEventCnt = 0,
     OSEventWait = bm_clear b, OSEventName = ''?''\<rparr>"

definition OS_InitEventList :: "kernel \<Rightarrow> kernel" where
  "OS_InitEventList k =
     k\<lparr>evt := (\<lambda>i. if i < OS_MAX_EVENTS - 1 then (zero_event (OSEventWait (evt k i)))\<lparr>OSEventPtr := PEvent (i + 1)\<rparr>
               else if i = OS_MAX_EVENTS - 1 then zero_event (OSEventWait (evt k i))
               else evt k i),
       OSEventFreeList := Some 0\<rparr>"

definition OS_QInit :: "kernel \<Rightarrow> kernel" where
  "OS_QInit k =
     k\<lparr>osq := (\<lambda>i. if i < OS_MAX_QS
               then \<lparr>OSQPtr = (if i < OS_MAX_QS - 1 then Some (i + 1) else None), OSQStart = 0, OSQEnd = 0,
                      OSQIn = 0, OSQOut = 0, OSQSize = 0, OSQEntries = 0\<rparr>
               else osq k i),
       OSQFreeList := Some 0\<rparr>"

definition OS_TCBInit ::
  "u8 \<Rightarrow> addr \<Rightarrow> addr \<Rightarrow> u16 \<Rightarrow> u32 \<Rightarrow> addr \<Rightarrow> u16 \<Rightarrow> kernel \<Rightarrow> os_err \<times> kernel" where
  "OS_TCBInit prio ptos pbos tid stk_size pext opt k =
     (case OSTCBFreeList k of
        TCB t \<Rightarrow>
          let k = k\<lparr>OSTCBFreeList := OSTCBNext (tcb k t)\<rparr>;
              k = upd_tcb t (\<lambda>c. c\<lparr>OSTCBStkPtr := ptos, OSTCBPrio := prio, OSTCBStat := OS_STAT_RDY,
                    OSTCBStatPend := OS_STAT_PEND_OK, OSTCBDly := 0, OSTCBExtPtr := pext,
                    OSTCBStkSize := stk_size, OSTCBStkBottom := pbos, OSTCBOpt := opt, OSTCBId := tid,
                    OSTCBDelReq := OS_ERR_NONE, OSTCBY := prio_y prio, OSTCBX := prio_x prio,
                    OSTCBBitY := prio_bit (prio_y prio), OSTCBBitX := prio_bit (prio_x prio),
                    OSTCBEventPtr := None, OSTCBMsg := 0, OSTCBCtxSwCtr := 0, OSTCBTaskName := ''?'',
                    OSTCBReg := 0\<rparr>) k;
              k = k\<lparr>OSTCBPrioTbl := (OSTCBPrioTbl k)(unat prio := TCB t)\<rparr>;
              k = upd_tcb t (\<lambda>c. c\<lparr>OSTCBNext := OSTCBList k, OSTCBPrev := TNull\<rparr>) k;
              k = (case OSTCBList k of TCB u \<Rightarrow> upd_tcb u (\<lambda>c. c\<lparr>OSTCBPrev := TCB t\<rparr>) k | _ \<Rightarrow> k);
              k = k\<lparr>OSTCBList := TCB t\<rparr>;
              k = make_ready (OSTCBY (tcb k t)) t k
          in (OS_ERR_NONE, k\<lparr>OSTaskCtr := OSTaskCtr k + 1\<rparr>)
      | _ \<Rightarrow> (OS_ERR_TASK_NO_MORE_TCB, k))"

end
