(* ===== verification/Kernel_Time.thy ===== *)
theory Kernel_Time
  imports Kernel_Core
begin

text \<open>
  Time and task control: \<open>src/ucosii/src/os_time.c\<close> and the part of \<open>os_task.c\<close> that creates, suspends
  and resumes tasks. The stack memory of a new task is not modelled; \<open>OSTaskStkInit\<close> gives the
  stack pointer it returns, sixteen words below the top.
\<close>

section \<open>Delays\<close>

definition OSTimeDly :: "u32 \<Rightarrow> kernel \<Rightarrow> kernel option" where
  "OSTimeDly ticks k =
     (if OSIntNesting k > 0 then Some k
      else if OSLockNesting k > 0 then Some k
      else if ticks > 0 then do {
        t \<leftarrow> deref (OSTCBCur k);
        let k = make_unready t k;
        OS_Sched (upd_tcb t (\<lambda>c. c\<lparr>OSTCBDly := ticks\<rparr>) k)
      } else Some k)"

definition hmsm_ticks :: "u8 \<Rightarrow> u8 \<Rightarrow> u8 \<Rightarrow> u16 \<Rightarrow> u32" where
  "hmsm_ticks hours minutes seconds ms =
     (ucast hours * 3600 + ucast minutes * 60 + ucast seconds) * OS_TICKS_PER_SEC
     + OS_TICKS_PER_SEC * (ucast ms + 500 div OS_TICKS_PER_SEC) div 1000"

definition OSTimeDlyHMSM :: "u8 \<Rightarrow> u8 \<Rightarrow> u8 \<Rightarrow> u16 \<Rightarrow> kernel \<Rightarrow> (os_err \<times> kernel) option" where
  "OSTimeDlyHMSM hours minutes seconds ms k =
     (if OSIntNesting k > 0 then Some (OS_ERR_TIME_DLY_ISR, k)
      else if OSLockNesting k > 0 then Some (OS_ERR_SCHED_LOCKED, k)
      else do {
        k \<leftarrow> OSTimeDly (hmsm_ticks hours minutes seconds ms) k;
        Some (OS_ERR_NONE, k)
      })"

definition OSTimeDlyResume :: "u8 \<Rightarrow> kernel \<Rightarrow> (os_err \<times> kernel) option" where
  "OSTimeDlyResume prio k =
     (if prio \<ge> OS_LOWEST_PRIO then Some (OS_ERR_PRIO_INVALID, k)
      else case OSTCBPrioTbl k (unat prio) of
        TCB t \<Rightarrow>
          if OSTCBDly (tcb k t) = 0 then Some (OS_ERR_TIME_NOT_DLY, k)
          else let k = upd_tcb t (\<lambda>c. c\<lparr>OSTCBDly := 0\<rparr>) k;
                   k = (if OSTCBStat (tcb k t) AND OS_STAT_PEND_ANY \<noteq> OS_STAT_RDY
                        then upd_tcb t (\<lambda>c. c\<lparr>OSTCBStat := OSTCBStat c AND NOT OS_STAT_PEND_ANY,
                                           OSTCBStatPend := OS_STAT_PEND_TO\<rparr>) k
                        else upd_tcb t (\<lambda>c. c\<lparr>OSTCBStatPend := OS_STAT_PEND_OK\<rparr>) k)
               in if OSTCBStat (tcb k t) AND OS_STAT_SUSPEND = OS_STAT_RDY
                  then do {
                    k \<leftarrow> OS_Sched (make_ready (OSTCBY (tcb k t)) t k);
                    Some (OS_ERR_NONE, k)
                  } else Some (OS_ERR_NONE, k)
      | _ \<Rightarrow> Some (OS_ERR_TASK_NOT_EXIST, k))"

definition OSTimeGet :: "kernel \<Rightarrow> u32" where
  "OSTimeGet k = OSTime k"

definition OSTimeSet :: "u32 \<Rightarrow> kernel \<Rightarrow> kernel" where
  "OSTimeSet ticks k = k\<lparr>OSTime := ticks\<rparr>"

section \<open>Tasks\<close>

definition OSTaskStkInit :: "addr \<Rightarrow> addr" where
  "OSTaskStkInit ptos = ptos - 4 * 15"

definition OSTaskCreateExt ::
  "addr \<Rightarrow> u8 \<Rightarrow> u16 \<Rightarrow> addr \<Rightarrow> u32 \<Rightarrow> addr \<Rightarrow> u16 \<Rightarrow> kernel \<Rightarrow> (os_err \<times> kernel) option" where
  "OSTaskCreateExt ptos prio tid pbos stk_size pext opt k =
     (if OSIntNesting k > 0 then Some (OS_ERR_TASK_CREATE_ISR, k)
      else if OSTCBPrioTbl k (unat prio) = TNull then
        let k = k\<lparr>OSTCBPrioTbl := (OSTCBPrioTbl k)(unat prio := TReserved)\<rparr>;
            (err, k) = OS_TCBInit prio (OSTaskStkInit ptos) pbos tid stk_size pext opt k
        in if err = OS_ERR_NONE then do {
             k \<leftarrow> (if OSRunning k then OS_Sched k else Some k);
             Some (err, k)
           } else Some (err, k\<lparr>OSTCBPrioTbl := (OSTCBPrioTbl k)(unat prio := TNull)\<rparr>)
      else Some (OS_ERR_PRIO_EXIST, k))"

definition OSTaskCreate :: "addr \<Rightarrow> u8 \<Rightarrow> kernel \<Rightarrow> (os_err \<times> kernel) option" where
  "OSTaskCreate ptos prio k =
     (if OSIntNesting k > 0 then Some (OS_ERR_TASK_CREATE_ISR, k)
      else if OSTCBPrioTbl k (unat prio) = TNull then
        let k = k\<lparr>OSTCBPrioTbl := (OSTCBPrioTbl k)(unat prio := TReserved)\<rparr>;
            (err, k) = OS_TCBInit prio (OSTaskStkInit ptos) 0 0 0 0 0 k
        in if err = OS_ERR_NONE then do {
             k \<leftarrow> (if OSRunning k then OS_Sched k else Some k);
             Some (err, k)
           } else Some (err, k\<lparr>OSTCBPrioTbl := (OSTCBPrioTbl k)(unat prio := TNull)\<rparr>)
      else Some (OS_ERR_PRIO_EXIST, k))"

definition OSTaskResume :: "u8 \<Rightarrow> kernel \<Rightarrow> (os_err \<times> kernel) option" where
  "OSTaskResume prio k =
     (case OSTCBPrioTbl k (unat prio) of
        TNull \<Rightarrow> Some (OS_ERR_TASK_RESUME_PRIO, k)
      | TReserved \<Rightarrow> Some (OS_ERR_TASK_NOT_EXIST, k)
      | TCB t \<Rightarrow>
          if OSTCBStat (tcb k t) AND OS_STAT_SUSPEND \<noteq> OS_STAT_RDY then
            let k = upd_tcb t (\<lambda>c. c\<lparr>OSTCBStat := OSTCBStat c AND NOT OS_STAT_SUSPEND\<rparr>) k
            in if OSTCBStat (tcb k t) = OS_STAT_RDY \<and> OSTCBDly (tcb k t) = 0 then do {
                 let k = make_ready (OSTCBY (tcb k t)) t k;
                 k \<leftarrow> (if OSRunning k then OS_Sched k else Some k);
                 Some (OS_ERR_NONE, k)
               } else Some (OS_ERR_NONE, k)
          else Some (OS_ERR_TASK_NOT_SUSPENDED, k))"

definition OSTaskSuspend :: "u8 \<Rightarrow> kernel \<Rightarrow> (os_err \<times> kernel) option" where
  "OSTaskSuspend prio k = do {
     c \<leftarrow> deref (OSTCBCur k);
     let (prio, self) =
       (if prio = OS_PRIO_SELF then (OSTCBPrio (tcb k c), True)
        else if prio = OSTCBPrio (tcb k c) then (prio, True) else (prio, False));
     case OSTCBPrioTbl k (unat prio) of
       TNull \<Rightarrow> Some (OS_ERR_TASK_SUSPEND_PRIO, k)
     | TReserved \<Rightarrow> Some (OS_ERR_TASK_NOT_EXIST, k)
     | TCB t \<Rightarrow> do {
         let k = make_unready t k;
         let k = upd_tcb t (\<lambda>c. c\<lparr>OSTCBStat := OSTCBStat c OR OS_STAT_SUSPEND\<rparr>) k;
         k \<leftarrow> (if self then OS_Sched k else Some k);
         Some (OS_ERR_NONE, k)
       }
   }"

definition OSTaskNameSet :: "u8 \<Rightarrow> string \<Rightarrow> kernel \<Rightarrow> (os_err \<times> kernel) option" where
  "OSTaskNameSet prio pname k =
     (if OSIntNesting k > 0 then Some (OS_ERR_NAME_SET_ISR, k)
      else do {
        prio \<leftarrow> (if prio = OS_PRIO_SELF then do {
                  c \<leftarrow> deref (OSTCBCur k);
                  Some (OSTCBPrio (tcb k c))
                } else Some prio);
        case OSTCBPrioTbl k (unat prio) of
          TCB t \<Rightarrow> Some (OS_ERR_NONE, upd_tcb t (\<lambda>c. c\<lparr>OSTCBTaskName := pname\<rparr>) k)
        | _ \<Rightarrow> Some (OS_ERR_TASK_NOT_EXIST, k)
      })"

section \<open>System initialisation\<close>

text \<open>\<open>OSInit\<close> up to the event flags, which this development does not model. The two system tasks are
  created with the stacks given.\<close>

definition OS_InitTaskIdle :: "addr \<Rightarrow> kernel \<Rightarrow> kernel option" where
  "OS_InitTaskIdle stk k = do {
     (err, k) \<leftarrow> OSTaskCreateExt (stk + 4 * 127) OS_TASK_IDLE_PRIO 65535 stk 128 0 3 k;
     (err, k) \<leftarrow> OSTaskNameSet OS_TASK_IDLE_PRIO ''uC/OS-II Idle'' k;
     Some k
   }"

definition OS_InitTaskStat :: "addr \<Rightarrow> kernel \<Rightarrow> kernel option" where
  "OS_InitTaskStat stk k = do {
     (err, k) \<leftarrow> OSTaskCreateExt (stk + 4 * 127) 62 65534 stk 128 0 3 k;
     (err, k) \<leftarrow> OSTaskNameSet 62 ''uC/OS-II Stat'' k;
     Some k
   }"

definition OSInit :: "addr \<Rightarrow> addr \<Rightarrow> kernel \<Rightarrow> kernel option" where
  "OSInit idle_stk stat_stk k = do {
     let k = OS_InitMisc k;
     let k = OS_InitRdyList k;
     let k = OS_InitTCBList k;
     let k = OS_InitEventList k;
     let k = OS_QInit k;
     k \<leftarrow> OS_InitTaskIdle idle_stk k;
     OS_InitTaskStat stat_stk k
   }"

end
