(* ===== verification/Kernel_Pend.thy ===== *)
theory Kernel_Pend
  imports Kernel_Core
begin

text \<open>
  What the services that wait on an event share: \<open>OSSemPend\<close>, \<open>OSMutexPend\<close>, \<open>OSMboxPend\<close> and
  \<open>OSQPend\<close> block with the same statements and finish with the same switch once the scheduler has
  returned to the task; the four delete and abort services ready the waiting tasks and return the
  control block with the same code. A call that blocks is split in two: the call itself, up to
  \<open>OS_Sched\<close>, and its second half, run when the task is current again.
\<close>

text \<open>The outcome of a call: it returned a value, or the caller was switched out.\<close>

datatype 'a call = Returned 'a | Blocked

text \<open>\<open>OSTCBCur->OSTCBStat |= bit; OSTCBStatPend = OK; OSTCBDly = timeout; OS_EventTaskWait; OS_Sched\<close>.\<close>

definition pend_block :: "u8 \<Rightarrow> u32 \<Rightarrow> nat \<Rightarrow> kernel \<Rightarrow> kernel option" where
  "pend_block stat timeout e k = do {
     t \<leftarrow> deref (OSTCBCur k);
     let k = upd_tcb t (\<lambda>c. c\<lparr>OSTCBStat := OSTCBStat c OR stat, OSTCBStatPend := OS_STAT_PEND_OK,
                          OSTCBDly := timeout\<rparr>) k;
     k \<leftarrow> OS_EventTaskWait e k;
     OS_Sched k
   }"

text \<open>The switch on \<open>OSTCBStatPend\<close> after \<open>OS_Sched\<close> and the reset that follows it.\<close>

definition pend_finish :: "nat \<Rightarrow> kernel \<Rightarrow> (os_err \<times> kernel) option" where
  "pend_finish e k = do {
     t \<leftarrow> deref (OSTCBCur k);
     let (err, k) =
       (case OSTCBStatPend (tcb k t) of
          OS_STAT_PEND_OK \<Rightarrow> (OS_ERR_NONE, k)
        | OS_STAT_PEND_ABORT \<Rightarrow> (OS_ERR_PEND_ABORT, k)
        | OS_STAT_PEND_TO \<Rightarrow> (OS_ERR_TIMEOUT, OS_EventTaskRemove t e k));
     Some (err, upd_tcb t (\<lambda>c. c\<lparr>OSTCBStat := OS_STAT_RDY, OSTCBStatPend := OS_STAT_PEND_OK,
                               OSTCBEventPtr := None\<rparr>) k)
   }"

text \<open>The same with a message: delivered when the wait ended well, null otherwise.\<close>

definition pend_finish_msg :: "nat \<Rightarrow> kernel \<Rightarrow> (addr \<times> os_err \<times> kernel) option" where
  "pend_finish_msg e k = do {
     t \<leftarrow> deref (OSTCBCur k);
     let pmsg = (case OSTCBStatPend (tcb k t) of OS_STAT_PEND_OK \<Rightarrow> OSTCBMsg (tcb k t) | _ \<Rightarrow> 0);
     (err, k) \<leftarrow> pend_finish e k;
     Some (pmsg, err, upd_tcb t (\<lambda>c. c\<lparr>OSTCBMsg := 0\<rparr>) k)
   }"

text \<open>Take a control block from the free list, and give one back.\<close>

definition alloc_event :: "kernel \<Rightarrow> nat option \<times> kernel" where
  "alloc_event k =
     (case OSEventFreeList k of
        None \<Rightarrow> (None, k)
      | Some e \<Rightarrow>
          (Some e, k\<lparr>OSEventFreeList := (case OSEventPtr (evt k e) of PEvent n \<Rightarrow> Some n | _ \<Rightarrow> None)\<rparr>))"

definition free_event :: "nat \<Rightarrow> kernel \<Rightarrow> kernel" where
  "free_event e k =
     (upd_evt e (\<lambda>v. v\<lparr>OSEventName := ''?'', OSEventType := OS_EVENT_TYPE_UNUSED,
        OSEventPtr := (case OSEventFreeList k of None \<Rightarrow> PNull | Some n \<Rightarrow> PEvent n),
        OSEventCnt := 0\<rparr>) k)\<lparr>OSEventFreeList := Some e\<rparr>"

definition OS_DEL_NO_PEND :: u8 where "OS_DEL_NO_PEND = 0"
definition OS_DEL_ALWAYS :: u8 where "OS_DEL_ALWAYS = 1"
definition OS_PEND_OPT_BROADCAST :: u8 where "OS_PEND_OPT_BROADCAST = 1"
definition OS_POST_OPT_BROADCAST :: u8 where "OS_POST_OPT_BROADCAST = 1"
definition OS_POST_OPT_FRONT :: u8 where "OS_POST_OPT_FRONT = 2"
definition OS_POST_OPT_NO_SCHED :: u8 where "OS_POST_OPT_NO_SCHED = 4"

text \<open>The switch on \<open>opt\<close> of the delete services; \<open>release\<close> is what the service does to its own data
  before the control block goes back to the free list. The result says whether \<open>pevent\<close> is gone.\<close>

definition del_event ::
  "u8 \<Rightarrow> (kernel \<Rightarrow> kernel option) \<Rightarrow> nat \<Rightarrow> u8 \<Rightarrow> kernel \<Rightarrow> (nat option \<times> os_err \<times> kernel) option" where
  "del_event stat release e opt k =
     (let tasks_waiting = Grp (OSEventWait (evt k e)) \<noteq> 0
      in if opt = OS_DEL_NO_PEND then
           if \<not> tasks_waiting then do {
             k \<leftarrow> release k;
             Some (None, OS_ERR_NONE, free_event e k)
           }
           else Some (Some e, OS_ERR_TASK_WAITING, k)
         else if opt = OS_DEL_ALWAYS then do {
           (n, k) \<leftarrow> ready_all e 0 stat OS_STAT_PEND_ABORT 0 k;
           k \<leftarrow> release k;
           let k = free_event e k;
           k \<leftarrow> (if tasks_waiting then OS_Sched k else Some k);
           Some (None, OS_ERR_NONE, k)
         } else Some (Some e, OS_ERR_INVALID_OPT, k))"

text \<open>The abort services.\<close>

definition pend_abort :: "u8 \<Rightarrow> nat \<Rightarrow> u8 \<Rightarrow> kernel \<Rightarrow> (u8 \<times> os_err \<times> kernel) option" where
  "pend_abort stat e opt k =
     (if Grp (OSEventWait (evt k e)) \<noteq> 0 then do {
        (n, k) \<leftarrow> (if opt = OS_PEND_OPT_BROADCAST then ready_all e 0 stat OS_STAT_PEND_ABORT 0 k
                  else do {
                    (prio, k) \<leftarrow> OS_EventTaskRdy e 0 stat OS_STAT_PEND_ABORT k;
                    Some (1, k)
                  });
        k \<leftarrow> OS_Sched k;
        Some (n, OS_ERR_PEND_ABORT, k)
      } else Some (0, OS_ERR_NONE, k))"

end
