(* ===== verification/Kernel_Sem.thy ===== *)
theory Kernel_Sem
  imports Kernel_Pend
begin

text \<open>The counting semaphores \<open>src/ucosii/src/os_sem.c\<close>.\<close>

definition OSSemAccept :: "nat \<Rightarrow> kernel \<Rightarrow> u16 \<times> kernel" where
  "OSSemAccept e k =
     (if OSEventType (evt k e) \<noteq> OS_EVENT_TYPE_SEM then (0, k)
      else let cnt = OSEventCnt (evt k e)
           in (cnt, if cnt > 0 then upd_evt e (\<lambda>v. v\<lparr>OSEventCnt := OSEventCnt v - 1\<rparr>) k else k))"

definition OSSemCreate :: "u16 \<Rightarrow> kernel \<Rightarrow> nat option \<times> kernel" where
  "OSSemCreate cnt k =
     (if OSIntNesting k > 0 then (None, k)
      else case alloc_event k of
        (None, k) \<Rightarrow> (None, k)
      | (Some e, k) \<Rightarrow>
          (Some e, OS_EventWaitListInit e (upd_evt e (\<lambda>v. v\<lparr>OSEventType := OS_EVENT_TYPE_SEM,
             OSEventCnt := cnt, OSEventPtr := PNull, OSEventName := ''?''\<rparr>) k)))"

definition OSSemDel :: "nat \<Rightarrow> u8 \<Rightarrow> kernel \<Rightarrow> (nat option \<times> os_err \<times> kernel) option" where
  "OSSemDel e opt k =
     (if OSEventType (evt k e) \<noteq> OS_EVENT_TYPE_SEM then Some (Some e, OS_ERR_EVENT_TYPE, k)
      else if OSIntNesting k > 0 then Some (Some e, OS_ERR_DEL_ISR, k)
      else del_event OS_STAT_SEM Some e opt k)"

definition OSSemPend :: "nat \<Rightarrow> u32 \<Rightarrow> kernel \<Rightarrow> (os_err call \<times> kernel) option" where
  "OSSemPend e timeout k =
     (if OSEventType (evt k e) \<noteq> OS_EVENT_TYPE_SEM then Some (Returned OS_ERR_EVENT_TYPE, k)
      else if OSIntNesting k > 0 then Some (Returned OS_ERR_PEND_ISR, k)
      else if OSLockNesting k > 0 then Some (Returned OS_ERR_PEND_LOCKED, k)
      else if OSEventCnt (evt k e) > 0
      then Some (Returned OS_ERR_NONE, upd_evt e (\<lambda>v. v\<lparr>OSEventCnt := OSEventCnt v - 1\<rparr>) k)
      else do {
        k \<leftarrow> pend_block OS_STAT_SEM timeout e k;
        Some (Blocked, k)
      })"

definition OSSemPend_resumed :: "nat \<Rightarrow> kernel \<Rightarrow> (os_err \<times> kernel) option" where
  "OSSemPend_resumed e k = pend_finish e k"

definition OSSemPendAbort :: "nat \<Rightarrow> u8 \<Rightarrow> kernel \<Rightarrow> (u8 \<times> os_err \<times> kernel) option" where
  "OSSemPendAbort e opt k =
     (if OSEventType (evt k e) \<noteq> OS_EVENT_TYPE_SEM then Some (0, OS_ERR_EVENT_TYPE, k)
      else pend_abort OS_STAT_SEM e opt k)"

definition OSSemPost :: "nat \<Rightarrow> kernel \<Rightarrow> (os_err \<times> kernel) option" where
  "OSSemPost e k =
     (if OSEventType (evt k e) \<noteq> OS_EVENT_TYPE_SEM then Some (OS_ERR_EVENT_TYPE, k)
      else if Grp (OSEventWait (evt k e)) \<noteq> 0 then do {
        (prio, k) \<leftarrow> OS_EventTaskRdy e 0 OS_STAT_SEM OS_STAT_PEND_OK k;
        k \<leftarrow> OS_Sched k;
        Some (OS_ERR_NONE, k)
      }
      else if OSEventCnt (evt k e) < 65535
      then Some (OS_ERR_NONE, upd_evt e (\<lambda>v. v\<lparr>OSEventCnt := OSEventCnt v + 1\<rparr>) k)
      else Some (OS_ERR_SEM_OVF, k))"

record OS_SEM_DATA =
  sem_Cnt :: u16
  sem_Wait :: bitmap

definition OSSemQuery :: "nat \<Rightarrow> kernel \<Rightarrow> os_err \<times> OS_SEM_DATA option" where
  "OSSemQuery e k =
     (if OSEventType (evt k e) \<noteq> OS_EVENT_TYPE_SEM then (OS_ERR_EVENT_TYPE, None)
      else (OS_ERR_NONE, Some \<lparr>sem_Cnt = OSEventCnt (evt k e), sem_Wait = OSEventWait (evt k e)\<rparr>))"

definition OSSemSet :: "nat \<Rightarrow> u16 \<Rightarrow> kernel \<Rightarrow> os_err \<times> kernel" where
  "OSSemSet e cnt k =
     (if OSEventType (evt k e) \<noteq> OS_EVENT_TYPE_SEM then (OS_ERR_EVENT_TYPE, k)
      else if OSEventCnt (evt k e) > 0 then (OS_ERR_NONE, upd_evt e (\<lambda>v. v\<lparr>OSEventCnt := cnt\<rparr>) k)
      else if Grp (OSEventWait (evt k e)) = 0 then (OS_ERR_NONE, upd_evt e (\<lambda>v. v\<lparr>OSEventCnt := cnt\<rparr>) k)
      else (OS_ERR_TASK_WAITING, k))"

end
