(* ===== verification/Kernel_Mbox.thy ===== *)
theory Kernel_Mbox
  imports Kernel_Pend
begin

text \<open>
  The mailboxes \<open>src/ucosii/src/os_mbox.c\<close> and the message queues \<open>os_q.c\<close>. A message is a pointer;
  posting the null pointer is allowed, the argument checks being configured out. The message table
  of a queue is memory of its creator, read and written through \<open>qcells\<close> at four bytes a cell.
\<close>

section \<open>Mailboxes\<close>

definition mbox_msg :: "event_ptr \<Rightarrow> addr" where
  "mbox_msg p = (case p of PMsg m \<Rightarrow> m | _ \<Rightarrow> 0)"

definition OSMboxAccept :: "nat \<Rightarrow> kernel \<Rightarrow> addr \<times> kernel" where
  "OSMboxAccept e k =
     (if OSEventType (evt k e) \<noteq> OS_EVENT_TYPE_MBOX then (0, k)
      else (mbox_msg (OSEventPtr (evt k e)), upd_evt e (\<lambda>v. v\<lparr>OSEventPtr := PNull\<rparr>) k))"

definition OSMboxCreate :: "addr \<Rightarrow> kernel \<Rightarrow> nat option \<times> kernel" where
  "OSMboxCreate pmsg k =
     (if OSIntNesting k > 0 then (None, k)
      else case alloc_event k of
        (None, k) \<Rightarrow> (None, k)
      | (Some e, k) \<Rightarrow>
          (Some e, OS_EventWaitListInit e (upd_evt e (\<lambda>v. v\<lparr>OSEventType := OS_EVENT_TYPE_MBOX,
             OSEventCnt := 0, OSEventPtr := msg_ptr pmsg, OSEventName := ''?''\<rparr>) k)))"

definition OSMboxDel :: "nat \<Rightarrow> u8 \<Rightarrow> kernel \<Rightarrow> (nat option \<times> os_err \<times> kernel) option" where
  "OSMboxDel e opt k =
     (if OSEventType (evt k e) \<noteq> OS_EVENT_TYPE_MBOX then Some (Some e, OS_ERR_EVENT_TYPE, k)
      else if OSIntNesting k > 0 then Some (Some e, OS_ERR_DEL_ISR, k)
      else del_event OS_STAT_MBOX Some e opt k)"

definition OSMboxPend :: "nat \<Rightarrow> u32 \<Rightarrow> kernel \<Rightarrow> ((addr \<times> os_err) call \<times> kernel) option" where
  "OSMboxPend e timeout k =
     (if OSEventType (evt k e) \<noteq> OS_EVENT_TYPE_MBOX then Some (Returned (0, OS_ERR_EVENT_TYPE), k)
      else if OSIntNesting k > 0 then Some (Returned (0, OS_ERR_PEND_ISR), k)
      else if OSLockNesting k > 0 then Some (Returned (0, OS_ERR_PEND_LOCKED), k)
      else if OSEventPtr (evt k e) \<noteq> PNull
      then Some (Returned (mbox_msg (OSEventPtr (evt k e)), OS_ERR_NONE),
             upd_evt e (\<lambda>v. v\<lparr>OSEventPtr := PNull\<rparr>) k)
      else do {
        k \<leftarrow> pend_block OS_STAT_MBOX timeout e k;
        Some (Blocked, k)
      })"

definition OSMboxPend_resumed :: "nat \<Rightarrow> kernel \<Rightarrow> (addr \<times> os_err \<times> kernel) option" where
  "OSMboxPend_resumed e k = pend_finish_msg e k"

definition OSMboxPendAbort :: "nat \<Rightarrow> u8 \<Rightarrow> kernel \<Rightarrow> (u8 \<times> os_err \<times> kernel) option" where
  "OSMboxPendAbort e opt k =
     (if OSEventType (evt k e) \<noteq> OS_EVENT_TYPE_MBOX then Some (0, OS_ERR_EVENT_TYPE, k)
      else pend_abort OS_STAT_MBOX e opt k)"

definition OSMboxPost :: "nat \<Rightarrow> addr \<Rightarrow> kernel \<Rightarrow> (os_err \<times> kernel) option" where
  "OSMboxPost e pmsg k =
     (if OSEventType (evt k e) \<noteq> OS_EVENT_TYPE_MBOX then Some (OS_ERR_EVENT_TYPE, k)
      else if Grp (OSEventWait (evt k e)) \<noteq> 0 then do {
        (prio, k) \<leftarrow> OS_EventTaskRdy e pmsg OS_STAT_MBOX OS_STAT_PEND_OK k;
        k \<leftarrow> OS_Sched k;
        Some (OS_ERR_NONE, k)
      }
      else if OSEventPtr (evt k e) \<noteq> PNull then Some (OS_ERR_MBOX_FULL, k)
      else Some (OS_ERR_NONE, upd_evt e (\<lambda>v. v\<lparr>OSEventPtr := msg_ptr pmsg\<rparr>) k))"

text \<open>Ready one waiting task or all of them, as \<open>opt\<close> says, and reschedule unless told not to.\<close>

definition post_opt_waiters :: "u8 \<Rightarrow> nat \<Rightarrow> addr \<Rightarrow> u8 \<Rightarrow> kernel \<Rightarrow> (os_err \<times> kernel) option" where
  "post_opt_waiters stat e pmsg opt k = do {
     k \<leftarrow> (if opt AND OS_POST_OPT_BROADCAST \<noteq> 0 then do {
            (n, k) \<leftarrow> ready_all e pmsg stat OS_STAT_PEND_OK 0 k;
            Some k
          } else do {
            (prio, k) \<leftarrow> OS_EventTaskRdy e pmsg stat OS_STAT_PEND_OK k;
            Some k
          });
     k \<leftarrow> (if opt AND OS_POST_OPT_NO_SCHED = 0 then OS_Sched k else Some k);
     Some (OS_ERR_NONE, k)
   }"

definition OSMboxPostOpt :: "nat \<Rightarrow> addr \<Rightarrow> u8 \<Rightarrow> kernel \<Rightarrow> (os_err \<times> kernel) option" where
  "OSMboxPostOpt e pmsg opt k =
     (if OSEventType (evt k e) \<noteq> OS_EVENT_TYPE_MBOX then Some (OS_ERR_EVENT_TYPE, k)
      else if Grp (OSEventWait (evt k e)) \<noteq> 0 then post_opt_waiters OS_STAT_MBOX e pmsg opt k
      else if OSEventPtr (evt k e) \<noteq> PNull then Some (OS_ERR_MBOX_FULL, k)
      else Some (OS_ERR_NONE, upd_evt e (\<lambda>v. v\<lparr>OSEventPtr := msg_ptr pmsg\<rparr>) k))"

record OS_MBOX_DATA =
  mbox_Msg :: addr
  mbox_Wait :: bitmap

definition OSMboxQuery :: "nat \<Rightarrow> kernel \<Rightarrow> os_err \<times> OS_MBOX_DATA option" where
  "OSMboxQuery e k =
     (if OSEventType (evt k e) \<noteq> OS_EVENT_TYPE_MBOX then (OS_ERR_EVENT_TYPE, None)
      else (OS_ERR_NONE, Some \<lparr>mbox_Msg = mbox_msg (OSEventPtr (evt k e)), mbox_Wait = OSEventWait (evt k e)\<rparr>))"

section \<open>Message queues\<close>

definition upd_q :: "nat \<Rightarrow> (OS_Q \<Rightarrow> OS_Q) \<Rightarrow> kernel \<Rightarrow> kernel" where
  "upd_q q f k = k\<lparr>osq := (osq k)(q := f (osq k q))\<rparr>"

definition queue_of :: "nat \<Rightarrow> kernel \<Rightarrow> nat option" where
  "queue_of e k = (case OSEventPtr (evt k e) of PQ q \<Rightarrow> Some q | _ \<Rightarrow> None)"

text \<open>\<open>pmsg = *pq->OSQOut++; pq->OSQEntries--; if (OSQOut == OSQEnd) OSQOut = OSQStart;\<close>\<close>

definition q_take :: "nat \<Rightarrow> kernel \<Rightarrow> addr \<times> kernel" where
  "q_take q k =
     (let out = OSQOut (osq k q) + 4
      in (qcells k (OSQOut (osq k q)),
          upd_q q (\<lambda>p. p\<lparr>OSQOut := (if out = OSQEnd p then OSQStart p else out),
                       OSQEntries := OSQEntries p - 1\<rparr>) k))"

text \<open>\<open>*pq->OSQIn++ = pmsg; if (OSQIn == OSQEnd) OSQIn = OSQStart;\<close> and \<open>OSQEntries++\<close>.\<close>

definition q_put :: "nat \<Rightarrow> addr \<Rightarrow> kernel \<Rightarrow> kernel" where
  "q_put q pmsg k =
     (let i = OSQIn (osq k q)
      in upd_q q (\<lambda>p. p\<lparr>OSQIn := (if i + 4 = OSQEnd p then OSQStart p else i + 4),
                      OSQEntries := OSQEntries p + 1\<rparr>)
           (k\<lparr>qcells := (qcells k)(i := pmsg)\<rparr>))"

text \<open>\<open>if (OSQOut == OSQStart) OSQOut = OSQEnd; OSQOut--; *OSQOut = pmsg; OSQEntries++;\<close>\<close>

definition q_put_front :: "nat \<Rightarrow> addr \<Rightarrow> kernel \<Rightarrow> kernel" where
  "q_put_front q pmsg k =
     (let out = (if OSQOut (osq k q) = OSQStart (osq k q) then OSQEnd (osq k q) else OSQOut (osq k q)) - 4
      in upd_q q (\<lambda>p. p\<lparr>OSQOut := out, OSQEntries := OSQEntries p + 1\<rparr>)
           (k\<lparr>qcells := (qcells k)(out := pmsg)\<rparr>))"

definition OSQAccept :: "nat \<Rightarrow> kernel \<Rightarrow> (addr \<times> os_err \<times> kernel) option" where
  "OSQAccept e k =
     (if OSEventType (evt k e) \<noteq> OS_EVENT_TYPE_Q then Some (0, OS_ERR_EVENT_TYPE, k)
      else do {
        q \<leftarrow> queue_of e k;
        if OSQEntries (osq k q) > 0
        then let (pmsg, k) = q_take q k in Some (pmsg, OS_ERR_NONE, k)
        else Some (0, OS_ERR_Q_EMPTY, k)
      })"

definition OSQCreate :: "addr \<Rightarrow> u16 \<Rightarrow> kernel \<Rightarrow> nat option \<times> kernel" where
  "OSQCreate start sz k =
     (if OSIntNesting k > 0 then (None, k)
      else case alloc_event k of
        (None, k) \<Rightarrow> (None, k)
      | (Some e, k) \<Rightarrow>
          (case OSQFreeList k of
             Some q \<Rightarrow>
               let k = k\<lparr>OSQFreeList := OSQPtr (osq k q)\<rparr>;
                   k = upd_q q (\<lambda>p. p\<lparr>OSQStart := start, OSQEnd := start + 4 * unat sz, OSQIn := start,
                         OSQOut := start, OSQSize := sz, OSQEntries := 0\<rparr>) k
               in (Some e, OS_EventWaitListInit e (upd_evt e (\<lambda>v. v\<lparr>OSEventType := OS_EVENT_TYPE_Q,
                    OSEventCnt := 0, OSEventPtr := PQ q, OSEventName := ''?''\<rparr>) k))
           | None \<Rightarrow>
               (None, (upd_evt e (\<lambda>v. v\<lparr>OSEventPtr :=
                  (case OSEventFreeList k of None \<Rightarrow> PNull | Some n \<Rightarrow> PEvent n)\<rparr>) k)
                  \<lparr>OSEventFreeList := Some e\<rparr>)))"

text \<open>A deleted queue gives its \<open>OS_Q\<close> back too.\<close>

definition q_release :: "nat \<Rightarrow> kernel \<Rightarrow> kernel option" where
  "q_release e k = do {
     q \<leftarrow> queue_of e k;
     Some ((upd_q q (\<lambda>p. p\<lparr>OSQPtr := OSQFreeList k\<rparr>) k)\<lparr>OSQFreeList := Some q\<rparr>)
   }"

definition OSQDel :: "nat \<Rightarrow> u8 \<Rightarrow> kernel \<Rightarrow> (nat option \<times> os_err \<times> kernel) option" where
  "OSQDel e opt k =
     (if OSEventType (evt k e) \<noteq> OS_EVENT_TYPE_Q then Some (Some e, OS_ERR_EVENT_TYPE, k)
      else if OSIntNesting k > 0 then Some (Some e, OS_ERR_DEL_ISR, k)
      else del_event OS_STAT_Q (q_release e) e opt k)"

definition OSQFlush :: "nat \<Rightarrow> kernel \<Rightarrow> (os_err \<times> kernel) option" where
  "OSQFlush e k = do {
     q \<leftarrow> queue_of e k;
     Some (OS_ERR_NONE, upd_q q (\<lambda>p. p\<lparr>OSQIn := OSQStart p, OSQOut := OSQStart p, OSQEntries := 0\<rparr>) k)
   }"

definition OSQPend :: "nat \<Rightarrow> u32 \<Rightarrow> kernel \<Rightarrow> ((addr \<times> os_err) call \<times> kernel) option" where
  "OSQPend e timeout k =
     (if OSEventType (evt k e) \<noteq> OS_EVENT_TYPE_Q then Some (Returned (0, OS_ERR_EVENT_TYPE), k)
      else if OSIntNesting k > 0 then Some (Returned (0, OS_ERR_PEND_ISR), k)
      else if OSLockNesting k > 0 then Some (Returned (0, OS_ERR_PEND_LOCKED), k)
      else do {
        q \<leftarrow> queue_of e k;
        if OSQEntries (osq k q) > 0
        then let (pmsg, k) = q_take q k in Some (Returned (pmsg, OS_ERR_NONE), k)
        else do {
          k \<leftarrow> pend_block OS_STAT_Q timeout e k;
          Some (Blocked, k)
        }
      })"

definition OSQPend_resumed :: "nat \<Rightarrow> kernel \<Rightarrow> (addr \<times> os_err \<times> kernel) option" where
  "OSQPend_resumed e k = pend_finish_msg e k"

definition OSQPendAbort :: "nat \<Rightarrow> u8 \<Rightarrow> kernel \<Rightarrow> (u8 \<times> os_err \<times> kernel) option" where
  "OSQPendAbort e opt k =
     (if OSEventType (evt k e) \<noteq> OS_EVENT_TYPE_Q then Some (0, OS_ERR_EVENT_TYPE, k)
      else pend_abort OS_STAT_Q e opt k)"

text \<open>The part the two posts share; \<open>put\<close> stores the message when no task waits.\<close>

definition q_post :: "(nat \<Rightarrow> addr \<Rightarrow> kernel \<Rightarrow> kernel) \<Rightarrow> nat \<Rightarrow> addr \<Rightarrow> kernel \<Rightarrow> (os_err \<times> kernel) option" where
  "q_post put e pmsg k =
     (if OSEventType (evt k e) \<noteq> OS_EVENT_TYPE_Q then Some (OS_ERR_EVENT_TYPE, k)
      else if Grp (OSEventWait (evt k e)) \<noteq> 0 then do {
        (prio, k) \<leftarrow> OS_EventTaskRdy e pmsg OS_STAT_Q OS_STAT_PEND_OK k;
        k \<leftarrow> OS_Sched k;
        Some (OS_ERR_NONE, k)
      }
      else do {
        q \<leftarrow> queue_of e k;
        if OSQEntries (osq k q) \<ge> OSQSize (osq k q) then Some (OS_ERR_Q_FULL, k)
        else Some (OS_ERR_NONE, put q pmsg k)
      })"

definition OSQPost :: "nat \<Rightarrow> addr \<Rightarrow> kernel \<Rightarrow> (os_err \<times> kernel) option" where
  "OSQPost e pmsg k = q_post q_put e pmsg k"

definition OSQPostFront :: "nat \<Rightarrow> addr \<Rightarrow> kernel \<Rightarrow> (os_err \<times> kernel) option" where
  "OSQPostFront e pmsg k = q_post q_put_front e pmsg k"

definition OSQPostOpt :: "nat \<Rightarrow> addr \<Rightarrow> u8 \<Rightarrow> kernel \<Rightarrow> (os_err \<times> kernel) option" where
  "OSQPostOpt e pmsg opt k =
     (if OSEventType (evt k e) \<noteq> OS_EVENT_TYPE_Q then Some (OS_ERR_EVENT_TYPE, k)
      else if Grp (OSEventWait (evt k e)) \<noteq> 0 then post_opt_waiters OS_STAT_Q e pmsg opt k
      else do {
        q \<leftarrow> queue_of e k;
        if OSQEntries (osq k q) \<ge> OSQSize (osq k q) then Some (OS_ERR_Q_FULL, k)
        else if opt AND OS_POST_OPT_FRONT \<noteq> 0 then Some (OS_ERR_NONE, q_put_front q pmsg k)
        else Some (OS_ERR_NONE, q_put q pmsg k)
      })"

record OS_Q_DATA =
  q_Msg :: addr
  q_NMsgs :: u16
  q_Size :: u16
  q_Wait :: bitmap

definition OSQQuery :: "nat \<Rightarrow> kernel \<Rightarrow> (os_err \<times> OS_Q_DATA option) option" where
  "OSQQuery e k =
     (if OSEventType (evt k e) \<noteq> OS_EVENT_TYPE_Q then Some (OS_ERR_EVENT_TYPE, None)
      else do {
        q \<leftarrow> queue_of e k;
        Some (OS_ERR_NONE, Some
          \<lparr>q_Msg = (if OSQEntries (osq k q) > 0 then qcells k (OSQOut (osq k q)) else 0),
           q_NMsgs = OSQEntries (osq k q), q_Size = OSQSize (osq k q), q_Wait = OSEventWait (evt k e)\<rparr>)
      })"

end
