(* ===== verification/Kernel_Mutex.thy ===== *)
theory Kernel_Mutex
  imports Kernel_Pend
begin

text \<open>
  The mutexes with priority ceiling \<open>src/ucosii/src/os_mutex.c\<close>. \<open>OSEventCnt\<close> holds the ceiling priority
  in its upper byte and the priority of the owner, or \<open>0xFF\<close> when the mutex is free, in its lower
  byte; \<open>OSEventPtr\<close> is the owner.
\<close>

definition OS_MUTEX_KEEP_LOWER_8 :: u16 where "OS_MUTEX_KEEP_LOWER_8 = 0x00FF"
definition OS_MUTEX_KEEP_UPPER_8 :: u16 where "OS_MUTEX_KEEP_UPPER_8 = 0xFF00"
definition OS_MUTEX_AVAILABLE :: u16 where "OS_MUTEX_AVAILABLE = 0x00FF"
definition OS_PRIO_MUTEX_CEIL_DIS :: u8 where "OS_PRIO_MUTEX_CEIL_DIS = 0xFF"

text \<open>\<open>pcp = (INT8U)(pevent->OSEventCnt >> 8)\<close> and \<open>(INT8U)(OSEventCnt & OS_MUTEX_KEEP_LOWER_8)\<close>.\<close>

definition mutex_pcp :: "OS_EVENT \<Rightarrow> u8" where
  "mutex_pcp v = ucast (drop_bit 8 (OSEventCnt v))"

definition mutex_prio :: "OS_EVENT \<Rightarrow> u8" where
  "mutex_prio v = ucast (OSEventCnt v AND OS_MUTEX_KEEP_LOWER_8)"

definition mutex_free :: "OS_EVENT \<Rightarrow> bool" where
  "mutex_free v \<longleftrightarrow> OSEventCnt v AND OS_MUTEX_KEEP_LOWER_8 = OS_MUTEX_AVAILABLE"

definition pcp_err :: "u8 \<Rightarrow> u8 \<Rightarrow> os_err" where
  "pcp_err pcp prio = (if pcp \<noteq> OS_PRIO_MUTEX_CEIL_DIS \<and> prio \<le> pcp then OS_ERR_PCP_LOWER else OS_ERR_NONE)"

text \<open>Give the mutex to the task \<open>t\<close> of priority \<open>prio\<close>.\<close>

definition mutex_own :: "u8 \<Rightarrow> event_ptr \<Rightarrow> OS_EVENT \<Rightarrow> OS_EVENT" where
  "mutex_own prio owner v =
     v\<lparr>OSEventCnt := (OSEventCnt v AND OS_MUTEX_KEEP_UPPER_8) OR ucast prio, OSEventPtr := owner\<rparr>"

text \<open>The part \<open>OSMutexAccept\<close> and \<open>OSMutexPend\<close> share: the mutex is free, the caller takes it.\<close>

definition mutex_take :: "nat \<Rightarrow> kernel \<Rightarrow> (os_err \<times> kernel) option" where
  "mutex_take e k = do {
     t \<leftarrow> deref (OSTCBCur k);
     let prio = OSTCBPrio (tcb k t);
     Some (pcp_err (mutex_pcp (evt k e)) prio, upd_evt e (mutex_own prio (PTCB t)) k)
   }"

definition OSMutexAccept :: "nat \<Rightarrow> kernel \<Rightarrow> (bool \<times> os_err \<times> kernel) option" where
  "OSMutexAccept e k =
     (if OSEventType (evt k e) \<noteq> OS_EVENT_TYPE_MUTEX then Some (False, OS_ERR_EVENT_TYPE, k)
      else if OSIntNesting k > 0 then Some (False, OS_ERR_PEND_ISR, k)
      else if mutex_free (evt k e) then do {
        (err, k) \<leftarrow> mutex_take e k;
        Some (True, err, k)
      } else Some (False, OS_ERR_NONE, k))"

definition OSMutexCreate :: "u8 \<Rightarrow> kernel \<Rightarrow> nat option \<times> os_err \<times> kernel" where
  "OSMutexCreate prio k =
     (if OSIntNesting k > 0 then (None, OS_ERR_CREATE_ISR, k)
      else if prio \<noteq> OS_PRIO_MUTEX_CEIL_DIS \<and> OSTCBPrioTbl k (unat prio) \<noteq> TNull
      then (None, OS_ERR_PRIO_EXIST, k)
      else case alloc_event k of
        (None, k) \<Rightarrow> (None, OS_ERR_PEVENT_NULL, k)
      | (Some e, k) \<Rightarrow>
          let k = (if prio \<noteq> OS_PRIO_MUTEX_CEIL_DIS
                   then k\<lparr>OSTCBPrioTbl := (OSTCBPrioTbl k)(unat prio := TReserved)\<rparr> else k)
          in (Some e, OS_ERR_NONE, OS_EventWaitListInit e (upd_evt e (\<lambda>v. v\<lparr>OSEventType := OS_EVENT_TYPE_MUTEX,
               OSEventCnt := push_bit 8 (ucast prio) OR OS_MUTEX_AVAILABLE, OSEventPtr := PNull,
               OSEventName := ''?''\<rparr>) k)))"

text \<open>\<open>ptcb->OSTCBPrio = prio\<close> and the row, column and masks that follow from it.\<close>

definition set_prio :: "nat \<Rightarrow> u8 \<Rightarrow> kernel \<Rightarrow> kernel" where
  "set_prio t prio k = upd_tcb t (\<lambda>c. c\<lparr>OSTCBPrio := prio, OSTCBY := prio_y prio, OSTCBX := prio_x prio,
     OSTCBBitY := prio_bit (prio_y prio), OSTCBBitX := prio_bit (prio_x prio)\<rparr>) k"

definition OSMutex_RdyAtPrio :: "nat \<Rightarrow> u8 \<Rightarrow> kernel \<Rightarrow> kernel" where
  "OSMutex_RdyAtPrio t prio k =
     (let k = make_unready t k;
          k = set_prio t prio (k\<lparr>OSPrioCur := prio\<rparr>);
          k = make_ready (OSTCBY (tcb k t)) t k
      in k\<lparr>OSTCBPrioTbl := (OSTCBPrioTbl k)(unat prio := TCB t)\<rparr>)"

text \<open>Raise the owner \<open>t\<close> to the ceiling, in the ready list or in the wait list it is in.\<close>

definition mutex_boost :: "nat \<Rightarrow> u8 \<Rightarrow> kernel \<Rightarrow> kernel" where
  "mutex_boost t pcp k =
     (let y = unat (OSTCBY (tcb k t));
          rdy = Tbl (OSRdy k) y AND OSTCBBitX (tcb k t) \<noteq> 0;
          k = (if rdy then make_unready t k
               else case OSTCBEventPtr (tcb k t) of
                 None \<Rightarrow> k
               | Some e2 \<Rightarrow> OS_EventTaskRemove t e2 k);
          k = set_prio t pcp k;
          c = tcb k t;
          k = (if rdy then make_ready (OSTCBY c) t k
               else case OSTCBEventPtr c of
                 None \<Rightarrow> k
               | Some e2 \<Rightarrow> upd_evt e2 (\<lambda>v. v\<lparr>OSEventWait :=
                   bm_set (OSEventWait v) (OSTCBY c) (OSTCBBitX c) (OSTCBBitY c)\<rparr>) k)
      in k\<lparr>OSTCBPrioTbl := (OSTCBPrioTbl k)(unat pcp := TCB t)\<rparr>)"

definition owner_of :: "nat \<Rightarrow> kernel \<Rightarrow> nat option" where
  "owner_of e k = (case OSEventPtr (evt k e) of PTCB t \<Rightarrow> Some t | _ \<Rightarrow> None)"

definition OSMutexPend :: "nat \<Rightarrow> u32 \<Rightarrow> kernel \<Rightarrow> (os_err call \<times> kernel) option" where
  "OSMutexPend e timeout k =
     (if OSEventType (evt k e) \<noteq> OS_EVENT_TYPE_MUTEX then Some (Returned OS_ERR_EVENT_TYPE, k)
      else if OSIntNesting k > 0 then Some (Returned OS_ERR_PEND_ISR, k)
      else if OSLockNesting k > 0 then Some (Returned OS_ERR_PEND_LOCKED, k)
      else if mutex_free (evt k e) then do {
        (err, k) \<leftarrow> mutex_take e k;
        Some (Returned err, k)
      } else do {
        let pcp = mutex_pcp (evt k e);
        k \<leftarrow> (if pcp \<noteq> OS_PRIO_MUTEX_CEIL_DIS then do {
               t \<leftarrow> owner_of e k;
               c \<leftarrow> deref (OSTCBCur k);
               Some (if OSTCBPrio (tcb k t) > pcp \<and> mutex_prio (evt k e) > OSTCBPrio (tcb k c)
                     then mutex_boost t pcp k else k)
             } else Some k);
        k \<leftarrow> pend_block OS_STAT_MUTEX timeout e k;
        Some (Blocked, k)
      })"

definition OSMutexPend_resumed :: "nat \<Rightarrow> kernel \<Rightarrow> (os_err \<times> kernel) option" where
  "OSMutexPend_resumed e k = pend_finish e k"

definition OSMutexPost :: "nat \<Rightarrow> kernel \<Rightarrow> (os_err \<times> kernel) option" where
  "OSMutexPost e k =
     (if OSIntNesting k > 0 then Some (OS_ERR_POST_ISR, k)
      else if OSEventType (evt k e) \<noteq> OS_EVENT_TYPE_MUTEX then Some (OS_ERR_EVENT_TYPE, k)
      else do {
        let pcp = mutex_pcp (evt k e);
        let prio = mutex_prio (evt k e);
        c \<leftarrow> deref (OSTCBCur k);
        if OSEventPtr (evt k e) \<noteq> PTCB c then Some (OS_ERR_NOT_MUTEX_OWNER, k)
        else do {
          let k = (if pcp \<noteq> OS_PRIO_MUTEX_CEIL_DIS then
                     let k = (if OSTCBPrio (tcb k c) = pcp then OSMutex_RdyAtPrio c prio k else k)
                     in k\<lparr>OSTCBPrioTbl := (OSTCBPrioTbl k)(unat pcp := TReserved)\<rparr>
                   else k);
          if Grp (OSEventWait (evt k e)) \<noteq> 0 then do {
            (prio, k) \<leftarrow> OS_EventTaskRdy e 0 OS_STAT_MUTEX OS_STAT_PEND_OK k;
            let owner = (case OSTCBPrioTbl k (unat prio) of TCB t \<Rightarrow> PTCB t | _ \<Rightarrow> PNull);
            k \<leftarrow> OS_Sched (upd_evt e (mutex_own prio owner) k);
            Some (pcp_err pcp prio, k)
          } else
            Some (OS_ERR_NONE, upd_evt e (\<lambda>v. v\<lparr>OSEventCnt := OSEventCnt v OR OS_MUTEX_AVAILABLE,
                                                OSEventPtr := PNull\<rparr>) k)
        }
      })"

text \<open>Give the ceiling priority back to the table.\<close>

definition mutex_release :: "nat \<Rightarrow> kernel \<Rightarrow> kernel" where
  "mutex_release e k =
     (let pcp = mutex_pcp (evt k e)
      in if pcp \<noteq> OS_PRIO_MUTEX_CEIL_DIS
         then k\<lparr>OSTCBPrioTbl := (OSTCBPrioTbl k)(unat pcp := TNull)\<rparr> else k)"

definition OSMutexDel :: "nat \<Rightarrow> u8 \<Rightarrow> kernel \<Rightarrow> (nat option \<times> os_err \<times> kernel) option" where
  "OSMutexDel e opt k =
     (if OSEventType (evt k e) \<noteq> OS_EVENT_TYPE_MUTEX then Some (Some e, OS_ERR_EVENT_TYPE, k)
      else if OSIntNesting k > 0 then Some (Some e, OS_ERR_DEL_ISR, k)
      else let tasks_waiting = Grp (OSEventWait (evt k e)) \<noteq> 0
      in if opt = OS_DEL_NO_PEND then
           if \<not> tasks_waiting then Some (None, OS_ERR_NONE, free_event e (mutex_release e k))
           else Some (Some e, OS_ERR_TASK_WAITING, k)
         else if opt = OS_DEL_ALWAYS then do {
           let pcp = mutex_pcp (evt k e);
           let k = (if pcp \<noteq> OS_PRIO_MUTEX_CEIL_DIS then
                      case owner_of e k of
                        None \<Rightarrow> k
                      | Some t \<Rightarrow> if OSTCBPrio (tcb k t) = pcp
                                 then OSMutex_RdyAtPrio t (mutex_prio (evt k e)) k else k
                    else k);
           (n, k) \<leftarrow> ready_all e 0 OS_STAT_MUTEX OS_STAT_PEND_ABORT 0 k;
           let k = free_event e (mutex_release e k);
           k \<leftarrow> (if tasks_waiting then OS_Sched k else Some k);
           Some (None, OS_ERR_NONE, k)
         } else Some (Some e, OS_ERR_INVALID_OPT, k))"

record OS_MUTEX_DATA =
  mutex_Wait :: bitmap
  mutex_Value :: bool
  mutex_OwnerPrio :: u8
  mutex_PCP :: u8

definition OSMutexQuery :: "nat \<Rightarrow> kernel \<Rightarrow> os_err \<times> OS_MUTEX_DATA option" where
  "OSMutexQuery e k =
     (if OSIntNesting k > 0 then (OS_ERR_QUERY_ISR, None)
      else if OSEventType (evt k e) \<noteq> OS_EVENT_TYPE_MUTEX then (OS_ERR_EVENT_TYPE, None)
      else (OS_ERR_NONE, Some \<lparr>mutex_Wait = OSEventWait (evt k e),
        mutex_Value = (mutex_prio (evt k e) = 0xFF), mutex_OwnerPrio = mutex_prio (evt k e),
        mutex_PCP = mutex_pcp (evt k e)\<rparr>))"

end
