(* ===== verification/Kernel_Inv.thy ===== *)
theory Kernel_Inv
  imports Kernel_Sem Kernel_Mbox Kernel_Time Kernel_Mutex
begin

text \<open>
  The invariants of the kernel. \<open>base_ok\<close>: the bitmaps are well formed and name existing tasks only,
  and the idle task is ready. \<open>stat_ok\<close>: a task is ready exactly when nothing holds it back, and the
  wait lists agree with the task control blocks. \<open>cur_ok\<close>: the current task exists.
  \<open>preempt_ok\<close>: outside interrupts, with the scheduler unlocked, the current task is the ready
  task of highest priority. The lemmas say what each building block of the services does to the
  ready set, the wait sets and the control block of the task it moves.
\<close>

section \<open>The sets behind the bitmaps\<close>

definition ready :: "kernel \<Rightarrow> nat set" where "ready k = bm_elems (OSRdy k)"
definition waiting :: "kernel \<Rightarrow> nat \<Rightarrow> nat set" where "waiting k e = bm_elems (OSEventWait (evt k e))"

definition coords_ok :: "OS_TCB \<Rightarrow> bool" where
  "coords_ok c \<longleftrightarrow> OSTCBPrio c < 64 \<and> OSTCBY c = prio_y (OSTCBPrio c) \<and> OSTCBX c = prio_x (OSTCBPrio c) \<and>
     OSTCBBitY c = prio_bit (OSTCBY c) \<and> OSTCBBitX c = prio_bit (OSTCBX c)"

text \<open>The task \<open>t\<close> exists and has the priority \<open>p\<close>.\<close>

definition own :: "kernel \<Rightarrow> nat \<Rightarrow> nat \<Rightarrow> bool" where
  "own k p t \<longleftrightarrow> p < 64 \<and> OSTCBPrioTbl k p = TCB t \<and> unat (OSTCBPrio (tcb k t)) = p \<and> coords_ok (tcb k t)"

lemma own_inj: "own k p t \<Longrightarrow> own k p u \<Longrightarrow> t = u" "own k p t \<Longrightarrow> own k q t \<Longrightarrow> p = q"
  by (auto simp: own_def)

lemma own_less: "own k p t \<Longrightarrow> p < 64" by (simp add: own_def)

definition base_ok :: "kernel \<Rightarrow> bool" where
  "base_ok k \<longleftrightarrow>
     bm_ok (OSRdy k) \<and> (\<forall>e < OS_MAX_EVENTS. bm_ok (OSEventWait (evt k e))) \<and>
     (\<forall>p t. p < 64 \<longrightarrow> OSTCBPrioTbl k p = TCB t \<longrightarrow> own k (unat (OSTCBPrio (tcb k t))) t) \<and>
     (\<forall>p \<in> ready k. \<exists>t. own k p t) \<and> (\<forall>e < OS_MAX_EVENTS. \<forall>p \<in> waiting k e. \<exists>t. own k p t) \<and>
     63 \<in> ready k"

lemma drop3_unat: "unat (drop_bit 3 (w :: u8)) = unat w div 8"
  by (simp add: drop_bit_eq_div unat_div)

lemma and7_unat: "unat ((w :: u8) AND 7) = unat w mod 8"
proof -
  have "w AND 7 = take_bit 3 w" by (simp add: take_bit_eq_mask mask_eq_exp_minus_1)
  then show ?thesis by (simp add: unsigned_take_bit_eq take_bit_nat_def)
qed

lemma coords_of:
  assumes "coords_ok c"
  shows "OSTCBY c = of_nat (unat (OSTCBPrio c) div 8)"
    "OSTCBBitX c = prio_bit (of_nat (unat (OSTCBPrio c) mod 8))"
    "OSTCBBitY c = prio_bit (of_nat (unat (OSTCBPrio c) div 8))"
proof -
  have "OSTCBY c = of_nat (unat (OSTCBY c))" "OSTCBX c = of_nat (unat (OSTCBX c))" by simp_all
  then show "OSTCBY c = of_nat (unat (OSTCBPrio c) div 8)"
    "OSTCBBitX c = prio_bit (of_nat (unat (OSTCBPrio c) mod 8))"
    "OSTCBBitY c = prio_bit (of_nat (unat (OSTCBPrio c) div 8))"
    using assms by (auto simp: coords_ok_def prio_y_def prio_x_def drop3_unat and7_unat simp del: of_nat_unat)
qed

lemma own_bm:
  assumes "own k p t"
  shows "bm_set b (OSTCBY (tcb k t)) (OSTCBBitX (tcb k t)) (OSTCBBitY (tcb k t)) = bm_ins p b"
    "bm_clr b (OSTCBY (tcb k t)) (OSTCBBitX (tcb k t)) (OSTCBBitY (tcb k t)) = bm_del p b"
  using coords_of [of "tcb k t"] assms by (simp_all add: own_def bm_ins_def bm_del_def)

section \<open>The scheduler\<close>

text \<open>Two states that differ only in what a context switch changes.\<close>

definition sched_eq :: "kernel \<Rightarrow> kernel \<Rightarrow> bool" where
  "sched_eq k k' \<longleftrightarrow> (\<exists>ph pc cur hr n f.
     k' = k\<lparr>OSPrioHighRdy := ph, OSPrioCur := pc, OSTCBCur := cur, OSTCBHighRdy := hr, OSCtxSwCtr := n,
            tcb := (\<lambda>u. (tcb k u)\<lparr>OSTCBCtxSwCtr := f u\<rparr>)\<rparr>)"

lemma sched_eqI:
  "k' = k\<lparr>OSPrioHighRdy := ph, OSPrioCur := pc, OSTCBCur := cur, OSTCBHighRdy := hr, OSCtxSwCtr := n,
      tcb := (\<lambda>u. (tcb k u)\<lparr>OSTCBCtxSwCtr := f u\<rparr>)\<rparr> \<Longrightarrow> sched_eq k k'"
  unfolding sched_eq_def by (intro exI) assumption

lemma sched_eq_frame:
  assumes "sched_eq k k'"
  shows "OSRdy k' = OSRdy k" "evt k' = evt k" "OSTCBPrioTbl k' = OSTCBPrioTbl k" "ready k' = ready k"
    "waiting k' = waiting k" "own k' = own k" "base_ok k' = base_ok k" "OSIntNesting k' = OSIntNesting k"
    "OSLockNesting k' = OSLockNesting k" "OSRunning k' = OSRunning k" "osq k' = osq k" "qcells k' = qcells k"
    "OSTCBStat (tcb k' t) = OSTCBStat (tcb k t)" "OSTCBDly (tcb k' t) = OSTCBDly (tcb k t)"
    "OSTCBStatPend (tcb k' t) = OSTCBStatPend (tcb k t)" "OSTCBMsg (tcb k' t) = OSTCBMsg (tcb k t)"
    "OSTCBEventPtr (tcb k' t) = OSTCBEventPtr (tcb k t)" "OSTCBNext (tcb k' t) = OSTCBNext (tcb k t)"
    "OSTCBPrio (tcb k' t) = OSTCBPrio (tcb k t)" "OSTCBList k' = OSTCBList k" "OSTime k' = OSTime k"
    "OSEventFreeList k' = OSEventFreeList k" "OSQFreeList k' = OSQFreeList k" "OSTCBFreeList k' = OSTCBFreeList k"
proof -
  obtain ph pc cur hr n f where k': "k' = k\<lparr>OSPrioHighRdy := ph, OSPrioCur := pc, OSTCBCur := cur,
      OSTCBHighRdy := hr, OSCtxSwCtr := n, tcb := (\<lambda>u. (tcb k u)\<lparr>OSTCBCtxSwCtr := f u\<rparr>)\<rparr>"
    using assms by (auto simp: sched_eq_def)
  show o: "own k' = own k" by (intro ext) (simp add: own_def coords_ok_def k')
  show r: "ready k' = ready k" and w: "waiting k' = waiting k"
    by (simp_all add: ready_def waiting_def k' fun_eq_iff)
  show "base_ok k' = base_ok k"
    unfolding base_ok_def o r w by (simp add: k')
qed (use assms in \<open>auto simp: sched_eq_def\<close>)

text \<open>The tasks that exist, their list and their priorities are the same.\<close>

definition same_tasks :: "kernel \<Rightarrow> kernel \<Rightarrow> bool" where
  "same_tasks k k' \<longleftrightarrow> OSTCBPrioTbl k' = OSTCBPrioTbl k \<and> OSTCBList k' = OSTCBList k \<and> OSRunning k' = OSRunning k \<and>
     OSTCBFreeList k' = OSTCBFreeList k \<and>
     (\<forall>u. OSTCBNext (tcb k' u) = OSTCBNext (tcb k u) \<and> OSTCBPrio (tcb k' u) = OSTCBPrio (tcb k u))"

lemma same_tasks_refl [simp]: "same_tasks k k" by (simp add: same_tasks_def)

lemma same_tasks_trans: "same_tasks k k1 \<Longrightarrow> same_tasks k1 k2 \<Longrightarrow> same_tasks k k2"
  by (simp add: same_tasks_def)

lemma sched_same_tasks: "sched_eq k k' \<Longrightarrow> same_tasks k k'"
  by (simp add: same_tasks_def sched_eq_frame)

lemma same_tasks_own:
  assumes "same_tasks k k'" "base_ok k" "base_ok k'"
  shows "own k' = own k"
proof (intro ext)
  fix p t
  have c: "coords_ok (tcb K t)" if "base_ok K" "p < 64" "OSTCBPrioTbl K p = TCB t" for K p
    using that by (auto simp: base_ok_def own_def)
  show "own k' p t = own k p t"
    using assms(1) c [OF assms(2)] c [OF assms(3)] by (auto simp: own_def same_tasks_def)
qed

definition cur_ok :: "kernel \<Rightarrow> bool" where
  "cur_ok k \<longleftrightarrow> (\<exists>c. OSTCBCur k = TCB c \<and> own k (unat (OSPrioCur k)) c)"

definition highest_runs :: "kernel \<Rightarrow> bool" where
  "highest_runs k \<longleftrightarrow> unat (OSPrioCur k) = Min (ready k)"

definition preempt_ok :: "kernel \<Rightarrow> bool" where
  "preempt_ok k \<longleftrightarrow> (OSIntNesting k = 0 \<and> OSLockNesting k = 0 \<longrightarrow> highest_runs k)"

lemma base_high:
  assumes "base_ok k"
  shows "unat (bm_high (OSRdy k)) = Min (ready k)" "\<exists>t. own k (Min (ready k)) t" "Min (ready k) \<in> ready k"
proof -
  have ok: "bm_ok (OSRdy k)" and ne: "bm_elems (OSRdy k) \<noteq> {}"
    using assms by (auto simp: base_ok_def ready_def)
  show h: "unat (bm_high (OSRdy k)) = Min (ready k)"
    using bm.high_least [OF ok ne] by (simp add: ready_def)
  show "Min (ready k) \<in> ready k" using bm.high_in [OF ok ne] h by (simp add: ready_def)
  then show "\<exists>t. own k (Min (ready k)) t" using assms by (simp add: base_ok_def)
qed

lemma switch_ok:
  assumes b: "base_ok k" and c: "cur_ok k"
  shows "\<exists>k'. switch_to_high k = Some k' \<and> sched_eq k k' \<and> cur_ok k' \<and> highest_runs k'"
proof -
  obtain t where t: "own k (Min (ready k)) t" using base_high(2) [OF b] by blast
  define ph where "ph = bm_high (OSRdy k)"
  have ph: "unat ph = Min (ready k)" using base_high(1) [OF b] by (simp add: ph_def)
  then have pt: "OSTCBPrioTbl k (unat ph) = TCB t" using t by (simp add: own_def)
  show ?thesis
  proof (cases "ph = OSPrioCur k")
    case True
    define k' where "k' = k\<lparr>OSPrioHighRdy := ph, OSTCBHighRdy := TCB t\<rparr>"
    have run: "switch_to_high k = Some k'"
      using True pt by (simp add: switch_to_high_def OS_SchedNew_def Let_def k'_def flip: ph_def)
    have eq: "sched_eq k k'"
    proof (rule sched_eqI)
      show "k' = k\<lparr>OSPrioHighRdy := ph, OSPrioCur := OSPrioCur k, OSTCBCur := OSTCBCur k, OSTCBHighRdy := TCB t,
        OSCtxSwCtr := OSCtxSwCtr k, tcb := (\<lambda>u. (tcb k u)\<lparr>OSTCBCtxSwCtr := OSTCBCtxSwCtr (tcb k u)\<rparr>)\<rparr>"
        by (simp add: k'_def)
    qed
    have "cur_ok k'" using c sched_eq_frame(6) [OF eq] by (simp add: cur_ok_def k'_def)
    moreover have "highest_runs k'"
      using True ph sched_eq_frame(4) [OF eq] by (simp add: highest_runs_def k'_def)
    ultimately show ?thesis using run eq by blast
  next
    case False
    define k' where "k' = k\<lparr>OSPrioHighRdy := ph, OSPrioCur := ph, OSTCBCur := TCB t, OSTCBHighRdy := TCB t,
      OSCtxSwCtr := OSCtxSwCtr k + 1,
      tcb := (\<lambda>u. (tcb k u)\<lparr>OSTCBCtxSwCtr := OSTCBCtxSwCtr (tcb k u) + (if u = t then 1 else 0)\<rparr>)\<rparr>"
    have "(tcb k)(t := (tcb k t)\<lparr>OSTCBCtxSwCtr := OSTCBCtxSwCtr (tcb k t) + 1\<rparr>) =
        (\<lambda>u. (tcb k u)\<lparr>OSTCBCtxSwCtr := OSTCBCtxSwCtr (tcb k u) + (if u = t then 1 else 0)\<rparr>)"
      by (rule ext) simp
    then have run: "switch_to_high k = Some k'"
      using False pt by (simp add: switch_to_high_def OS_SchedNew_def Let_def deref_def upd_tcb_def
          OS_TASK_SW_def k'_def flip: ph_def)
    have eq: "sched_eq k k'" by (rule sched_eqI [OF k'_def])
    have "cur_ok k'" using t ph sched_eq_frame(6) [OF eq] by (simp add: cur_ok_def k'_def)
    moreover have "highest_runs k'" using ph sched_eq_frame(4) [OF eq] by (simp add: highest_runs_def k'_def)
    ultimately show ?thesis using run eq by blast
  qed
qed

lemma sched_eq_refl: "sched_eq k k"
proof (rule sched_eqI)
  show "k = k\<lparr>OSPrioHighRdy := OSPrioHighRdy k, OSPrioCur := OSPrioCur k, OSTCBCur := OSTCBCur k,
      OSTCBHighRdy := OSTCBHighRdy k, OSCtxSwCtr := OSCtxSwCtr k,
      tcb := (\<lambda>u. (tcb k u)\<lparr>OSTCBCtxSwCtr := OSTCBCtxSwCtr (tcb k u)\<rparr>)\<rparr>" by simp
qed

lemma OS_Sched_ok:
  assumes "base_ok k" "cur_ok k"
  shows "\<exists>k'. OS_Sched k = Some k' \<and> sched_eq k k' \<and> cur_ok k' \<and> preempt_ok k'"
proof (cases "OSIntNesting k = 0 \<and> OSLockNesting k = 0")
  case True
  then show ?thesis using switch_ok [OF assms] by (auto simp: OS_Sched_def preempt_ok_def)
next
  case False
  then show ?thesis using assms sched_eq_refl by (auto simp: OS_Sched_def preempt_ok_def)
qed

section \<open>The status of the tasks\<close>

definition stat_bit :: "event_type \<Rightarrow> u8" where
  "stat_bit ty = (case ty of OS_EVENT_TYPE_SEM \<Rightarrow> OS_STAT_SEM | OS_EVENT_TYPE_MBOX \<Rightarrow> OS_STAT_MBOX
     | OS_EVENT_TYPE_Q \<Rightarrow> OS_STAT_Q | OS_EVENT_TYPE_MUTEX \<Rightarrow> OS_STAT_MUTEX | _ \<Rightarrow> OS_STAT_RDY)"

definition pend_bits :: "OS_TCB \<Rightarrow> u8" where
  "pend_bits c = OSTCBStat c AND OS_STAT_PEND_ANY"

text \<open>A task in a wait list waits for this event, or its wait has timed out and it has not run yet.\<close>

definition wait_state :: "kernel \<Rightarrow> nat \<Rightarrow> OS_TCB \<Rightarrow> bool" where
  "wait_state k e c \<longleftrightarrow> OSTCBEventPtr c = Some e \<and>
     (pend_bits c = stat_bit (OSEventType (evt k e)) \<and> pend_bits c \<noteq> 0 \<or>
      pend_bits c = 0 \<and> OSTCBStatPend c = OS_STAT_PEND_TO \<and> OSTCBDly c = 0)"

definition task_ok :: "kernel \<Rightarrow> nat \<Rightarrow> nat \<Rightarrow> bool" where
  "task_ok k p t \<longleftrightarrow>
     (p \<in> ready k \<longleftrightarrow> OSTCBStat (tcb k t) = 0 \<and> OSTCBDly (tcb k t) = 0) \<and>
     OSTCBStat (tcb k t) AND NOT 0x3F = 0 \<and>
     (\<forall>e < OS_MAX_EVENTS. p \<in> waiting k e \<longrightarrow> wait_state k e (tcb k t)) \<and>
     (pend_bits (tcb k t) \<noteq> 0 \<longrightarrow>
       (\<exists>e < OS_MAX_EVENTS. OSTCBEventPtr (tcb k t) = Some e \<and> p \<in> waiting k e))"

definition stat_ok :: "kernel \<Rightarrow> bool" where
  "stat_ok k \<longleftrightarrow> (\<forall>p t. own k p t \<longrightarrow> task_ok k p t)"

lemma stat_okD: "stat_ok k \<Longrightarrow> own k p t \<Longrightarrow> task_ok k p t"
  by (simp add: stat_ok_def)

lemma task_ok_frame:
  assumes "p \<in> ready k' \<longleftrightarrow> p \<in> ready k" "\<And>e. e < OS_MAX_EVENTS \<Longrightarrow> p \<in> waiting k' e \<longleftrightarrow> p \<in> waiting k e"
    "\<And>e. e < OS_MAX_EVENTS \<Longrightarrow> p \<in> waiting k e \<Longrightarrow> OSEventType (evt k' e) = OSEventType (evt k e)"
    "OSTCBStat (tcb k' t) = OSTCBStat (tcb k t)" "OSTCBDly (tcb k' t) = OSTCBDly (tcb k t)"
    "OSTCBEventPtr (tcb k' t) = OSTCBEventPtr (tcb k t)" "OSTCBStatPend (tcb k' t) = OSTCBStatPend (tcb k t)"
  shows "task_ok k' p t = task_ok k p t"
  using assms by (auto simp: task_ok_def wait_state_def pend_bits_def)

lemma sched_eq_stat: "sched_eq k k' \<Longrightarrow> stat_ok k' = stat_ok k"
  unfolding stat_ok_def by (subst task_ok_frame) (auto simp: sched_eq_frame)

text \<open>An operation that moves one task, the task \<open>t\<close> of priority \<open>p\<close>, keeps the invariants if it leaves
  this task in order.\<close>

lemma move_ok:
  assumes b: "base_ok k" and s: "stat_ok k" and o: "own k p t"
    and pt: "OSTCBPrioTbl k' = OSTCBPrioTbl k" and other: "\<And>u. u \<noteq> t \<Longrightarrow> tcb k' u = tcb k u"
    and o': "own k' p t"
    and r: "bm_ok (OSRdy k')" "ready k' - {p} = ready k - {p}" "63 \<in> ready k'"
    and w: "\<And>e. e < OS_MAX_EVENTS \<Longrightarrow> bm_ok (OSEventWait (evt k' e)) \<and> waiting k' e - {p} = waiting k e - {p} \<and>
      OSEventType (evt k' e) = OSEventType (evt k e)"
    and ok: "task_ok k' p t"
  shows "base_ok k' \<and> stat_ok k' \<and> own k' = own k"
proof -
  have own: "own k' q u = own k q u" for q u
  proof (cases "u = t")
    case True
    then show ?thesis using o o' own_inj(2) [of k q t p] own_inj(2) [of k' q t p] by blast
  next
    case False
    then show ?thesis using other pt by (simp add: own_def)
  qed
  have rq: "q \<in> ready k' \<longleftrightarrow> q \<in> ready k" if "q \<noteq> p" for q using r(2) that by auto
  have wq: "q \<in> waiting k' e \<longleftrightarrow> q \<in> waiting k e" if "q \<noteq> p" "e < OS_MAX_EVENTS" for q e
    using w [OF that(2)] that(1) by auto
  have "stat_ok k'"
    unfolding stat_ok_def
  proof (intro allI impI)
    fix q u assume qu: "own k' q u"
    show "task_ok k' q u"
    proof (cases "q = p")
      case True
      then show ?thesis using ok o' qu own_inj(1) [of k' p t u] by simp
    next
      case False
      then have "u \<noteq> t" using qu o' own_inj(2) by blast
      then have "task_ok k' q u = task_ok k q u"
        using rq [OF False] wq [OF False] w other by (intro task_ok_frame) auto
      then show ?thesis using s qu own by (simp add: stat_ok_def)
    qed
  qed
  moreover have "base_ok k'"
    unfolding base_ok_def own
  proof (intro conjI allI impI ballI)
    show "bm_ok (OSRdy k')" "63 \<in> ready k'" by fact+
    show "bm_ok (OSEventWait (evt k' e))" if "e < OS_MAX_EVENTS" for e using w [OF that] by simp
    show "own k (unat (OSTCBPrio (tcb k' u))) u" if "q < 64" "OSTCBPrioTbl k' q = TCB u" for q u
    proof (cases "u = t")
      case True
      have "unat (OSTCBPrio (tcb k' t)) = p" using o' by (simp add: own_def)
      then show ?thesis using o True by simp
    next
      case False
      then show ?thesis using b that pt other by (simp add: base_ok_def)
    qed
    show "\<exists>u. own k q u" if "q \<in> ready k'" for q
      using that rq [of q] b o by (cases "q = p") (auto simp: base_ok_def)
    show "\<exists>u. own k q u" if "e < OS_MAX_EVENTS" "q \<in> waiting k' e" for e q
      using that wq [of q e] b o by (cases "q = p") (auto simp: base_ok_def)
  qed
  ultimately show ?thesis using own by (simp add: fun_eq_iff)
qed

definition kinv :: "kernel \<Rightarrow> bool" where
  "kinv k \<longleftrightarrow> base_ok k \<and> stat_ok k \<and> cur_ok k"

lemma kinv_sched:
  assumes "kinv k"
  shows "\<exists>k'. OS_Sched k = Some k' \<and> sched_eq k k' \<and> kinv k' \<and> preempt_ok k'"
proof -
  obtain k' where k': "OS_Sched k = Some k'" "sched_eq k k'" "cur_ok k'" "preempt_ok k'"
    using OS_Sched_ok [of k] assms by (auto simp: kinv_def)
  then show ?thesis using assms sched_eq_frame(7) [OF k'(2)] sched_eq_stat [OF k'(2)] by (auto simp: kinv_def)
qed

lemma cur_ok_frame:
  "cur_ok k \<Longrightarrow> OSTCBCur k' = OSTCBCur k \<Longrightarrow> OSPrioCur k' = OSPrioCur k \<Longrightarrow> own k' = own k \<Longrightarrow> cur_ok k'"
  by (simp add: cur_ok_def)

end
