(* ===== verification/Kernel_Ops.thy ===== *)
theory Kernel_Ops
  imports Kernel_Inv
begin

text \<open>
  The building blocks of the services keep the invariants: blocking on an event, readying the
  waiter of highest priority or all of them, finishing a wait, delaying, the tick, suspending and
  resuming.
\<close>

section \<open>Bits of the status byte\<close>

lemma byte_eqI: "(\<And>n. n < 8 \<Longrightarrow> bit (v :: u8) n \<longleftrightarrow> bit w n) \<Longrightarrow> v = w"
  by (rule bit_word_eqI) simp

lemma byte_cases: "n < 8 \<Longrightarrow> n = 0 \<or> n = 1 \<or> n = 2 \<or> n = 3 \<or> n = 4 \<or> n = 5 \<or> n = 6 \<or> n = (7 :: nat)"
  by auto

lemma stat_bit_pend: "stat_bit ty AND OS_STAT_PEND_ANY = stat_bit ty" "stat_bit ty AND NOT 0x3F = 0"
  "stat_bit ty AND OS_STAT_SUSPEND = 0"
  by (cases ty; simp add: stat_bit_def)+

text \<open>Clearing the awaited bit leaves the suspension only.\<close>

lemma status_cleared:
  fixes s b :: u8
  assumes "s AND NOT 0x3F = 0" "s AND OS_STAT_PEND_ANY = b \<or> s AND OS_STAT_PEND_ANY = 0"
    "b AND OS_STAT_SUSPEND = 0"
  shows "s AND NOT b = s AND OS_STAT_SUSPEND"
proof -
  have "s = (s AND OS_STAT_PEND_ANY) OR (s AND OS_STAT_SUSPEND) OR (s AND NOT 0x3F)"
  proof (rule byte_eqI)
    fix n :: nat assume "n < 8"
    then show "bit s n \<longleftrightarrow> bit ((s AND OS_STAT_PEND_ANY) OR (s AND OS_STAT_SUSPEND) OR (s AND NOT 0x3F)) n"
      by (auto simp: bit_simps dest!: byte_cases)
  qed
  then have s: "s = (s AND OS_STAT_PEND_ANY) OR (s AND OS_STAT_SUSPEND)" using assms(1) by simp
  have "(s AND OS_STAT_SUSPEND) AND NOT b = s AND OS_STAT_SUSPEND"
  proof (rule byte_eqI)
    fix n :: nat assume "n < 8"
    have "\<not> bit (b AND OS_STAT_SUSPEND) n" using assms(3) by simp
    then show "bit ((s AND OS_STAT_SUSPEND) AND NOT b) n \<longleftrightarrow> bit (s AND OS_STAT_SUSPEND) n"
      using \<open>n < 8\<close> by (auto simp: bit_simps)
  qed
  moreover have "(s AND OS_STAT_PEND_ANY) AND NOT b = 0"
    using assms(2) by (auto intro!: byte_eqI simp: bit_simps)
  ultimately show ?thesis by (metis (no_types) s bit.conj_disj_distrib2 or.left_neutral)
qed

lemma suspend_or_ready:
  fixes s :: u8
  assumes "s AND NOT 0x3F = 0" "s AND OS_STAT_PEND_ANY = 0"
  shows "s = s AND OS_STAT_SUSPEND"
proof -
  have "s AND NOT 0 = s AND OS_STAT_SUSPEND" by (rule status_cleared) (use assms in auto)
  then show ?thesis by simp
qed

section \<open>Blocking\<close>

lemmas kernel_defs = upd_tcb_def upd_evt_def make_ready_def make_unready_def OS_EventTaskRemove_def

lemma bm_move:
  assumes "bm_ok b" "p < 64"
  shows "bm_ok (bm_ins p b)" "bm_ok (bm_del p b)" "bm_elems (bm_ins p b) = insert p (bm_elems b)"
    "bm_elems (bm_del p b) = bm_elems b - {p}"
  using bm.ins_ok [OF assms] bm.del_ok [OF assms] by auto

lemma baseD:
  assumes "base_ok k"
  shows "bm_ok (OSRdy k)" "e < OS_MAX_EVENTS \<Longrightarrow> bm_ok (OSEventWait (evt k e))" "63 \<in> ready k"
    "p \<in> ready k \<Longrightarrow> \<exists>t. own k p t" "e < OS_MAX_EVENTS \<Longrightarrow> p \<in> waiting k e \<Longrightarrow> \<exists>t. own k p t"
  using assms by (auto simp: base_ok_def)

lemma curE:
  assumes "cur_ok k"
  obtains t where "OSTCBCur k = TCB t" "own k (unat (OSPrioCur k)) t" "deref (OSTCBCur k) = Some t"
  using assms by (auto simp: cur_ok_def deref_def)

text \<open>The current task, called from a task with the scheduler unlocked, is ready.\<close>

lemma cur_ready:
  assumes "kinv k" "preempt_ok k" "OSIntNesting k = 0" "OSLockNesting k = 0"
  shows "unat (OSPrioCur k) \<in> ready k"
  using base_high(3) [of k] assms by (auto simp: kinv_def preempt_ok_def highest_runs_def)

text \<open>Only the wait list of the event \<open>e\<close> may differ.\<close>

definition wait_only :: "nat \<Rightarrow> kernel \<Rightarrow> kernel \<Rightarrow> bool" where
  "wait_only e k k' \<longleftrightarrow> (\<forall>i. i \<noteq> e \<longrightarrow> evt k' i = evt k i) \<and> (\<exists>w. evt k' e = (evt k e)\<lparr>OSEventWait := w\<rparr>) \<and>
     osq k' = osq k \<and> qcells k' = qcells k \<and> OSIntNesting k' = OSIntNesting k \<and> OSLockNesting k' = OSLockNesting k \<and>
     OSEventFreeList k' = OSEventFreeList k \<and> OSQFreeList k' = OSQFreeList k \<and> same_tasks k k'"

lemma wait_ex [simp]: "\<exists>w. v\<lparr>OSEventWait := x\<rparr> = v\<lparr>OSEventWait := w\<rparr>"
  by (rule exI) (rule refl)

lemma wait_only_refl: "wait_only e k k"
proof -
  have "evt k e = (evt k e)\<lparr>OSEventWait := OSEventWait (evt k e)\<rparr>" by simp
  then show ?thesis unfolding wait_only_def using same_tasks_refl by blast
qed

lemma wait_only_sched:
  assumes "wait_only e k k1" "sched_eq k1 k2"
  shows "wait_only e k k2"
proof -
  obtain ph pc cur hr n f where "k2 = k1\<lparr>OSPrioHighRdy := ph, OSPrioCur := pc, OSTCBCur := cur,
      OSTCBHighRdy := hr, OSCtxSwCtr := n, tcb := (\<lambda>u. (tcb k1 u)\<lparr>OSTCBCtxSwCtr := f u\<rparr>)\<rparr>"
    using assms(2) by (auto simp: sched_eq_def)
  then show ?thesis using assms(1) by (simp add: wait_only_def same_tasks_def)
qed

lemma wait_only_fields:
  assumes "wait_only e k k'"
  shows "OSEventType (evt k' i) = OSEventType (evt k i)" "OSEventCnt (evt k' i) = OSEventCnt (evt k i)"
    "OSEventPtr (evt k' i) = OSEventPtr (evt k i)" "i \<noteq> e \<Longrightarrow> evt k' i = evt k i"
    "i \<noteq> e \<Longrightarrow> waiting k' i = waiting k i"
  using assms by (cases "i = e"; auto simp: wait_only_def waiting_def)+

lemma pend_block_rdy:
  assumes inv: "kinv k" and cur: "unat (OSPrioCur k) \<in> ready k"
    and idle: "OSPrioCur k \<noteq> OS_TASK_IDLE_PRIO"
    and t: "OSTCBCur k = TCB t" "OSTCBEventPtr (tcb k t) = None"
    and e: "e < OS_MAX_EVENTS" "stat = stat_bit (OSEventType (evt k e))" "stat \<noteq> 0"
  shows "\<exists>k'. pend_block stat timeout e k = Some k' \<and> kinv k' \<and> preempt_ok k' \<and> wait_only e k k' \<and>
    ready k' = ready k - {unat (OSPrioCur k)} \<and> waiting k' e = insert (unat (OSPrioCur k)) (waiting k e)"
proof -
  define p where "p = unat (OSPrioCur k)"
  have b: "base_ok k" and s: "stat_ok k" and c: "cur_ok k" using inv by (auto simp: kinv_def)
  have o: "own k p t" using c t(1) by (auto simp: cur_ok_def p_def)
  note p64 = own_less [OF o]
  have p63: "p \<noteq> 63" using idle by (auto simp: p_def word_unat_eq_iff)
  have rp: "p \<in> ready k" using cur by (simp add: p_def)
  have st: "task_ok k p t" using stat_okD [OF s o] .
  then have s0: "OSTCBStat (tcb k t) = 0" using rp by (simp add: task_ok_def)
  have nw: "p \<notin> waiting k i" if "i < OS_MAX_EVENTS" for i
    using st that t(2) by (auto simp: task_ok_def wait_state_def)
  define k1 where "k1 = k\<lparr>
    tcb := (tcb k)(t := (tcb k t)\<lparr>OSTCBStat := stat, OSTCBStatPend := OS_STAT_PEND_OK, OSTCBDly := timeout,
      OSTCBEventPtr := Some e\<rparr>),
    evt := (evt k)(e := (evt k e)\<lparr>OSEventWait := bm_ins p (OSEventWait (evt k e))\<rparr>),
    OSRdy := bm_del p (OSRdy k)\<rparr>"
  note B = own_bm [OF o]
  have run: "pend_block stat timeout e k = OS_Sched k1"
    using t(1) s0 B by (simp add: pend_block_def OS_EventTaskWait_def deref_def kernel_defs k1_def Let_def)
  note bms = bm_move [OF baseD(1) [OF b] p64] bm_move [OF baseD(2) [OF b e(1)] p64]
  have r1: "ready k1 = ready k - {p}" using bms by (simp add: ready_def k1_def)
  have w1: "waiting k1 i = (if i = e then insert p (waiting k e) else waiting k i)" for i
    using bms by (simp add: waiting_def k1_def)
  have ok1: "task_ok k1 p t"
    using stat_bit_pend [of "OSEventType (evt k e)"] e nw
    by (auto simp: task_ok_def r1 w1 wait_state_def pend_bits_def) (auto simp: k1_def)
  have "base_ok k1 \<and> stat_ok k1 \<and> own k1 = own k"
  proof (rule move_ok [OF b s o])
    show "own k1 p t" using o by (simp add: own_def k1_def coords_ok_def)
    show "bm_ok (OSRdy k1)" using bms by (simp add: k1_def)
    show "63 \<in> ready k1" using baseD(3) [OF b] p63 by (simp add: r1)
    show "bm_ok (OSEventWait (evt k1 i)) \<and> waiting k1 i - {p} = waiting k i - {p} \<and>
        OSEventType (evt k1 i) = OSEventType (evt k i)" if "i < OS_MAX_EVENTS" for i
      using bms baseD(2) [OF b that] by (auto simp: w1) (auto simp: k1_def)
  qed (use ok1 in \<open>auto simp: r1\<close>, auto simp: k1_def)
  then have inv1: "kinv k1" using c cur_ok_frame [of k k1] by (auto simp: kinv_def) (auto simp: k1_def)
  obtain k' where k': "OS_Sched k1 = Some k'" "sched_eq k1 k'" "kinv k'" "preempt_ok k'"
    using kinv_sched [OF inv1] by blast
  have "wait_only e k k1" by (simp add: wait_only_def same_tasks_def k1_def)
  then have "wait_only e k k'" using wait_only_sched k'(2) by blast
  then show ?thesis using run k' r1 w1 sched_eq_frame(4,5) [OF k'(2)] by (auto simp: p_def)
qed

lemmas pend_block_ok = pend_block_rdy [OF _ cur_ready]

section \<open>Readying a waiter\<close>

lemma rdy_ok:
  assumes inv: "kinv k" and e: "e < OS_MAX_EVENTS" and ne: "waiting k e \<noteq> {}"
    and stat: "stat = stat_bit (OSEventType (evt k e))"
  defines "p \<equiv> Min (waiting k e)"
  shows "\<exists>k' t. OS_EventTaskRdy e pmsg stat ps k = Some (of_nat p, k') \<and> kinv k' \<and> wait_only e k k' \<and>
    waiting k' e = waiting k e - {p} \<and> own k p t \<and>
    ready k' = (if OSTCBStat (tcb k t) AND OS_STAT_SUSPEND = 0 then insert p (ready k) else ready k) \<and>
    OSTCBMsg (tcb k' t) = pmsg \<and> OSTCBStatPend (tcb k' t) = ps \<and> OSTCBDly (tcb k' t) = 0 \<and>
    (\<forall>u. u \<noteq> t \<longrightarrow> tcb k' u = tcb k u) \<and> OSTCBCur k' = OSTCBCur k \<and> OSPrioCur k' = OSPrioCur k"
proof -
  define b where "b = OSEventWait (evt k e)"
  have base: "base_ok k" and s: "stat_ok k" and c: "cur_ok k" using inv by (auto simp: kinv_def)
  have bok: "bm_ok b" and bne: "bm_elems b \<noteq> {}" using baseD(2) [OF base e] ne by (auto simp: b_def waiting_def)
  have h: "unat (bm_high b) = p" using bm_high_least [OF bok bne] by (simp add: p_def waiting_def b_def)
  have pw: "p \<in> waiting k e" using bm.high_in [OF bok bne] h by (simp add: waiting_def b_def)
  obtain t where o: "own k p t" using baseD(5) [OF base e pw] by blast
  note p64 = own_less [OF o]
  have st: "task_ok k p t" using stat_okD [OF s o] .
  have ws: "wait_state k e (tcb k t)" using st pw e by (simp add: task_ok_def)
  define S where "S = OSTCBStat (tcb k t) AND OS_STAT_SUSPEND"
  have clr: "OSTCBStat (tcb k t) AND NOT stat = S"
    unfolding S_def stat
    by (rule status_cleared) (use st ws stat_bit_pend in \<open>auto simp: task_ok_def wait_state_def pend_bits_def\<close>)
  have nw: "p \<notin> waiting k i" if "i < OS_MAX_EVENTS" "i \<noteq> e" for i
    using st ws that by (auto simp: task_ok_def wait_state_def)
  have row: "of_nat (bm_row b) = OSTCBY (tcb k t)"
    using bm_high_row [OF bok bne] h o coords_of(1) [of "tcb k t"] by (simp add: own_def)
  have pw8: "of_nat p = bm_high b" unfolding h [symmetric] by simp
  define k1 where "k1 = k\<lparr>
    tcb := (tcb k)(t := (tcb k t)\<lparr>OSTCBDly := 0, OSTCBMsg := pmsg, OSTCBStat := S, OSTCBStatPend := ps\<rparr>),
    evt := (evt k)(e := (evt k e)\<lparr>OSEventWait := bm_del p b\<rparr>),
    OSRdy := (if S = 0 then bm_ins p (OSRdy k) else OSRdy k)\<rparr>"
  note B = own_bm [OF o]
  have pt: "OSTCBPrioTbl k p = TCB t" using o by (simp add: own_def)
  have SS: "S AND OS_STAT_SUSPEND = S" by (simp add: S_def and.assoc)
  have run: "OS_EventTaskRdy e pmsg stat ps k = Some (of_nat p, k1)"
    using B SS by (simp add: OS_EventTaskRdy_def deref_def pt kernel_defs k1_def Let_def clr h pw8 row flip: b_def)
  note bms = bm_move [OF baseD(1) [OF base] p64] bm_move [OF bok p64]
  have r1: "ready k1 = (if S = 0 then insert p (ready k) else ready k)" using bms by (simp add: ready_def k1_def)
  have w1: "waiting k1 i = (if i = e then waiting k e - {p} else waiting k i)" for i
    using bms by (simp add: waiting_def k1_def b_def)
  have nr: "p \<notin> ready k" if "S \<noteq> 0" using st that by (auto simp: task_ok_def S_def)
  have "S AND NOT 0x3F = 0" "S AND OS_STAT_PEND_ANY = 0" by (simp_all add: S_def and.assoc)
  then have ok1: "task_ok k1 p t"
    using nw nr by (auto simp: task_ok_def r1 w1 wait_state_def pend_bits_def) (auto simp: k1_def)
  have m: "base_ok k1 \<and> stat_ok k1 \<and> own k1 = own k"
  proof (rule move_ok [OF base s o])
    show "own k1 p t" using o by (simp add: own_def k1_def coords_ok_def)
    show "bm_ok (OSRdy k1)" using bms baseD(1) [OF base] by (simp add: k1_def)
    show "63 \<in> ready k1" using baseD(3) [OF base] by (simp add: r1)
    show "bm_ok (OSEventWait (evt k1 i)) \<and> waiting k1 i - {p} = waiting k i - {p} \<and>
        OSEventType (evt k1 i) = OSEventType (evt k i)" if "i < OS_MAX_EVENTS" for i
      using bms baseD(2) [OF base that] by (auto simp: w1) (auto simp: k1_def)
  qed (use ok1 in \<open>auto simp: r1\<close>, auto simp: k1_def)
  then have "kinv k1" using c cur_ok_frame [of k k1] by (auto simp: kinv_def) (auto simp: k1_def)
  moreover have "wait_only e k k1" by (simp add: wait_only_def same_tasks_def k1_def)
  ultimately show ?thesis
    using run o r1 w1 by (intro exI [of _ k1] exI [of _ t]) (auto simp: S_def k1_def)
qed

lemma wait_only_trans: "wait_only e k k1 \<Longrightarrow> wait_only e k1 k2 \<Longrightarrow> wait_only e k k2"
  by (auto simp: wait_only_def same_tasks_def)

lemma grp_zero:
  assumes "base_ok k" "e < OS_MAX_EVENTS"
  shows "Grp (OSEventWait (evt k e)) = 0 \<longleftrightarrow> waiting k e = {}"
  using bm_emp_iff [OF baseD(2) [OF assms]] by (simp add: waiting_def)

lemma finite_waiting: "finite (waiting k e)"
  unfolding waiting_def by (rule bm.finite_elems)

text \<open>Readying all waiters ends, whatever their number, and counts them.\<close>

lemma ready_all_ok:
  assumes "kinv k" "e < OS_MAX_EVENTS" "stat = stat_bit (OSEventType (evt k e))"
  shows "\<exists>k'. ready_all e pmsg stat ps n k = Some (n + of_nat (card (waiting k e)), k') \<and> kinv k' \<and>
    wait_only e k k' \<and> waiting k' e = {} \<and> ready k \<subseteq> ready k' \<and> ready k' \<subseteq> ready k \<union> waiting k e \<and>
    OSTCBCur k' = OSTCBCur k \<and> OSPrioCur k' = OSPrioCur k \<and>
    (\<forall>p u. own k p u \<longrightarrow> (if p \<in> waiting k e
       then OSTCBMsg (tcb k' u) = pmsg \<and> OSTCBStatPend (tcb k' u) = ps \<and> OSTCBDly (tcb k' u) = 0
       else tcb k' u = tcb k u))"
  using assms
proof (induction "card (waiting k e)" arbitrary: k n)
  case 0
  then have "waiting k e = {}" using finite_waiting by simp
  moreover note wait_only_refl [of e k]
  ultimately show ?case
    using 0 grp_zero [of k e] by (subst ready_all.simps) (auto simp: kinv_def)
next
  case (Suc m)
  then have ne: "waiting k e \<noteq> {}" by auto
  define p where "p = Min (waiting k e)"
  obtain k1 t where k1: "OS_EventTaskRdy e pmsg stat ps k = Some (of_nat p, k1)" "kinv k1" "wait_only e k k1"
    "waiting k1 e = waiting k e - {p}" "own k p t"
    "ready k1 = (if OSTCBStat (tcb k t) AND OS_STAT_SUSPEND = 0 then insert p (ready k) else ready k)"
    "OSTCBCur k1 = OSTCBCur k" "OSPrioCur k1 = OSPrioCur k" "OSTCBMsg (tcb k1 t) = pmsg"
    "OSTCBStatPend (tcb k1 t) = ps" "OSTCBDly (tcb k1 t) = 0" "\<forall>u. u \<noteq> t \<longrightarrow> tcb k1 u = tcb k u"
    using rdy_ok [OF Suc.prems(1,2) ne Suc.prems(3), of pmsg ps] by (auto simp: p_def)
  have pin: "p \<in> waiting k e" using Min_in [OF finite_waiting ne] by (simp add: p_def)
  have card: "m = card (waiting k1 e)" using Suc.hyps(2) pin finite_waiting k1(4) by simp
  have "stat = stat_bit (OSEventType (evt k1 e))" using Suc.prems(3) wait_only_fields(1) [OF k1(3)] by simp
  from Suc.hyps(1) [OF card k1(2) Suc.prems(2) this, of "n + 1"] obtain k2 where k2:
    "ready_all e pmsg stat ps (n + 1) k1 = Some (n + 1 + of_nat (card (waiting k1 e)), k2)" "kinv k2"
    "wait_only e k1 k2" "waiting k2 e = {}" "ready k1 \<subseteq> ready k2" "ready k2 \<subseteq> ready k1 \<union> waiting k1 e"
    "OSTCBCur k2 = OSTCBCur k1" "OSPrioCur k2 = OSPrioCur k1"
    "\<forall>p u. own k1 p u \<longrightarrow> (if p \<in> waiting k1 e
       then OSTCBMsg (tcb k2 u) = pmsg \<and> OSTCBStatPend (tcb k2 u) = ps \<and> OSTCBDly (tcb k2 u) = 0
       else tcb k2 u = tcb k1 u)" by blast
  have "base_ok k" "base_ok k1" "same_tasks k k1"
    using Suc.prems(1) k1(2,3) by (simp_all add: kinv_def wait_only_def)
  then have o1: "own k1 = own k" using same_tasks_own by blast
  have told: "if q \<in> waiting k e
      then OSTCBMsg (tcb k2 u) = pmsg \<and> OSTCBStatPend (tcb k2 u) = ps \<and> OSTCBDly (tcb k2 u) = 0
      else tcb k2 u = tcb k u" if q: "own k q u" for q u
  proof (cases "q = p")
    case True
    then have "u = t" using q k1(5) own_inj(1) by blast
    then show ?thesis using True k2(9) q o1 k1(4,9-11) pin by auto
  next
    case False
    then have "u \<noteq> t" using q k1(5) own_inj(2) by blast
    then show ?thesis using False k2(9) q o1 k1(4,12) by (auto split: if_splits)
  qed
  have g: "Grp (OSEventWait (evt k e)) \<noteq> 0" using grp_zero [of k e] Suc.prems ne by (simp add: kinv_def)
  have "ready_all e pmsg stat ps n k = Some (n + of_nat (card (waiting k e)), k2)"
    using g k1(1) k2(1) card Suc.hyps(2) [symmetric] by (subst ready_all.simps) (simp add: add.assoc)
  moreover have "wait_only e k k2" using wait_only_trans [OF k1(3) k2(3)] .
  moreover have "ready k \<subseteq> ready k2" using k1(6) k2(5) by (auto split: if_splits)
  moreover have "ready k2 \<subseteq> ready k \<union> waiting k e" using k1(4,6) k2(6) pin by (auto split: if_splits)
  ultimately show ?case
    using k1(7,8) k2(2,4,7,8) told by (intro exI [of _ k2]) (simp del: if_split)
qed

section \<open>Moves of one task that touch no wait list\<close>

definition same_coords :: "OS_TCB \<Rightarrow> OS_TCB \<Rightarrow> bool" where
  "same_coords c c' \<longleftrightarrow> OSTCBPrio c' = OSTCBPrio c \<and> OSTCBX c' = OSTCBX c \<and> OSTCBY c' = OSTCBY c \<and>
     OSTCBBitX c' = OSTCBBitX c \<and> OSTCBBitY c' = OSTCBBitY c"

lemma local_move:
  assumes inv: "kinv k" and o: "own k p t" and c: "same_coords (tcb k t) c'"
    and R: "R = OSRdy k \<or> R = bm_ins p (OSRdy k) \<or> R = bm_del p (OSRdy k) \<and> p \<noteq> 63"
    and k1: "k1 = k\<lparr>tcb := (tcb k)(t := c'), OSRdy := R\<rparr>"
    and ok: "task_ok k1 p t"
  shows "kinv k1 \<and> own k1 = own k \<and> waiting k1 = waiting k"
proof -
  have base: "base_ok k" and s: "stat_ok k" and cur: "cur_ok k" using inv by (auto simp: kinv_def)
  have w1: "waiting k1 = waiting k" by (simp add: waiting_def k1 fun_eq_iff)
  note bms = bm_move [OF baseD(1) [OF base] own_less [OF o]]
  have r: "bm_ok R \<and> bm_elems R - {p} = ready k - {p} \<and> 63 \<in> bm_elems R"
    using R bms baseD(1,3) [OF base] by (auto simp: ready_def)
  have "base_ok k1 \<and> stat_ok k1 \<and> own k1 = own k"
  proof (rule move_ok [OF base s o])
    show "own k1 p t" using o c by (simp add: own_def k1 coords_ok_def same_coords_def)
    show "bm_ok (OSEventWait (evt k1 i)) \<and> waiting k1 i - {p} = waiting k i - {p} \<and>
        OSEventType (evt k1 i) = OSEventType (evt k i)" if "i < OS_MAX_EVENTS" for i
      using baseD(2) [OF base that] by (simp add: w1) (simp add: k1)
  qed (use ok r in \<open>auto simp: k1 ready_def\<close>)
  then show ?thesis using w1 cur cur_ok_frame [of k k1] by (auto simp: kinv_def k1)
qed

text \<open>Both ways a delay ends, the tick and \<open>OSTimeDlyResume\<close>, make of the control block and of the ready
  list.\<close>

definition dly_over :: "OS_TCB \<Rightarrow> OS_TCB" where
  "dly_over c = (if pend_bits c \<noteq> 0
     then c\<lparr>OSTCBDly := 0, OSTCBStat := OSTCBStat c AND NOT OS_STAT_PEND_ANY, OSTCBStatPend := OS_STAT_PEND_TO\<rparr>
     else c\<lparr>OSTCBDly := 0, OSTCBStatPend := OS_STAT_PEND_OK\<rparr>)"

definition dly_over_state :: "nat \<Rightarrow> nat \<Rightarrow> kernel \<Rightarrow> kernel" where
  "dly_over_state p t k = k\<lparr>tcb := (tcb k)(t := dly_over (tcb k t)),
     OSRdy := (if OSTCBStat (tcb k t) AND OS_STAT_SUSPEND = 0 then bm_ins p (OSRdy k) else OSRdy k)\<rparr>"

lemma dly_over_ok:
  assumes inv: "kinv k" and o: "own k p t" and d: "OSTCBDly (tcb k t) \<noteq> 0"
  defines "k1 \<equiv> dly_over_state p t k"
  shows "kinv k1 \<and> own k1 = own k \<and> waiting k1 = waiting k"
proof (rule local_move [OF inv o])
  show "k1 = k\<lparr>tcb := (tcb k)(t := dly_over (tcb k t)),
     OSRdy := (if OSTCBStat (tcb k t) AND OS_STAT_SUSPEND = 0 then bm_ins p (OSRdy k) else OSRdy k)\<rparr>"
    by (simp add: k1_def dly_over_state_def)
  have st: "task_ok k p t" using inv o by (simp add: kinv_def stat_ok_def)
  define s where "s = OSTCBStat (tcb k t)"
  have s3: "s AND NOT 0x3F = 0" using st by (simp add: task_ok_def s_def)
  have nr: "p \<notin> ready k" using st d by (simp add: task_ok_def)
  have clr: "s AND NOT OS_STAT_PEND_ANY = s AND OS_STAT_SUSPEND"
  proof -
    have "OS_STAT_PEND_ANY AND OS_STAT_SUSPEND = (0 :: u8)" by simp
    have "s AND NOT (s AND OS_STAT_PEND_ANY) = s AND OS_STAT_SUSPEND"
      by (rule status_cleared [OF s3]) (auto simp: and.assoc)
    moreover have "s AND NOT (s AND OS_STAT_PEND_ANY) = s AND NOT OS_STAT_PEND_ANY"
      by (rule byte_eqI) (auto simp: bit_simps)
    ultimately show ?thesis by simp
  qed
  have s0: "pend_bits (tcb k t) = 0 \<Longrightarrow> s = s AND OS_STAT_SUSPEND"
    using suspend_or_ready [OF s3] by (simp add: pend_bits_def s_def)
  have stat: "OSTCBStat (dly_over (tcb k t)) = s AND OS_STAT_SUSPEND"
    using clr s0 by (simp add: dly_over_def flip: s_def)
  have bits: "(s AND OS_STAT_SUSPEND) AND NOT 0x3F = 0" "(s AND OS_STAT_SUSPEND) AND OS_STAT_PEND_ANY = 0"
    by (simp_all add: and.assoc)
  have r1: "ready k1 = (if s AND OS_STAT_SUSPEND = 0 then insert p (ready k) else ready k)"
    using bm_move [OF baseD(1) own_less [OF o]] inv
    by (simp add: k1_def dly_over_state_def ready_def s_def kinv_def)
  have w1: "waiting k1 = waiting k" and e1: "evt k1 = evt k" and t1: "tcb k1 t = dly_over (tcb k t)"
    by (simp_all add: k1_def dly_over_state_def waiting_def fun_eq_iff)
  have "wait_state k e (dly_over (tcb k t))" if "e < OS_MAX_EVENTS" "p \<in> waiting k e" for e
  proof -
    have "wait_state k e (tcb k t)" using st that by (simp add: task_ok_def)
    then have "pend_bits (tcb k t) \<noteq> 0" "OSTCBEventPtr (tcb k t) = Some e" using d by (auto simp: wait_state_def)
    then show ?thesis using clr bits by (simp add: wait_state_def dly_over_def pend_bits_def flip: s_def)
  qed
  then show "task_ok k1 p t"
    using nr bits by (simp add: task_ok_def r1 w1 t1 stat wait_state_def e1 pend_bits_def)
      (simp add: dly_over_def)
  show "same_coords (tcb k t) (dly_over (tcb k t))" by (simp add: same_coords_def dly_over_def)
qed auto

end
