(* ===== verification/Kernel_Tick.thy ===== *)
theory Kernel_Tick
  imports Kernel_Ops
begin

text \<open>
  The tick: the list of task control blocks as a path through \<open>OSTCBNext\<close> that ends in the idle task,
  and what \<open>OSTimeTick\<close> does to every task on it.
\<close>

section \<open>The list of tasks\<close>

fun tcb_path :: "kernel \<Rightarrow> tcb_ptr \<Rightarrow> nat list \<Rightarrow> tcb_ptr \<Rightarrow> bool" where
  "tcb_path k a [] b \<longleftrightarrow> a = b"
| "tcb_path k a (t # ts) b \<longleftrightarrow> a = TCB t \<and> tcb_path k (OSTCBNext (tcb k t)) ts b"

definition task_list :: "kernel \<Rightarrow> nat list \<Rightarrow> nat \<Rightarrow> bool" where
  "task_list k ts i \<longleftrightarrow> tcb_path k (OSTCBList k) ts (TCB i) \<and> distinct (ts @ [i]) \<and> own k 63 i \<and>
     (\<forall>t \<in> set ts. \<exists>p. own k p t)"

lemma tcb_path_frame:
  "(\<And>t. t \<in> set ts \<Longrightarrow> OSTCBNext (tcb k' t) = OSTCBNext (tcb k t)) \<Longrightarrow> tcb_path k' a ts b = tcb_path k a ts b"
  by (induction ts arbitrary: a) auto

text \<open>What a tick makes of one control block.\<close>

definition tick_of :: "OS_TCB \<Rightarrow> OS_TCB" where
  "tick_of c = (if OSTCBDly c = 0 then c else if OSTCBDly c = 1 then dly_over c
     else c\<lparr>OSTCBDly := OSTCBDly c - 1\<rparr>)"

definition wakes :: "OS_TCB \<Rightarrow> bool" where
  "wakes c \<longleftrightarrow> OSTCBDly c = 1 \<and> OSTCBStat c AND OS_STAT_SUSPEND = 0"

lemma tick_tcb_eq:
  assumes o: "own k p t"
  shows "tick_tcb t k = k\<lparr>tcb := (tcb k)(t := tick_of (tcb k t)),
    OSRdy := (if wakes (tcb k t) then bm_ins p (OSRdy k) else OSRdy k)\<rparr>"
proof -
  note B = own_bm [OF o]
  define c where "c = tcb k t"
  consider "OSTCBDly c = 0" | "OSTCBDly c = 1" | "OSTCBDly c \<noteq> 0" "OSTCBDly c \<noteq> 1" by blast
  then show ?thesis
  proof cases
    case 1
    then show ?thesis by (simp add: tick_tcb_def tick_of_def wakes_def c_def)
  next
    case 2
    then have d: "OSTCBDly (tcb k t) = 1" by (simp add: c_def)
    define k1 where "k1 = k\<lparr>tcb := (tcb k)(t := dly_over (tcb k t))\<rparr>"
    have f: "tcb k1 t = dly_over (tcb k t)" "OSRdy k1 = OSRdy k" by (simp_all add: k1_def)
    have s: "OSTCBStat (dly_over (tcb k t)) AND OS_STAT_SUSPEND = OSTCBStat (tcb k t) AND OS_STAT_SUSPEND"
      by (simp add: dly_over_def and.assoc)
    have B1: "bm_set b (OSTCBY (dly_over (tcb k t))) (OSTCBBitX (dly_over (tcb k t))) (OSTCBBitY (dly_over (tcb k t)))
        = bm_ins p b" for b
      using B(1) [of b] by (simp add: dly_over_def)
    have "tick_tcb t k = (if OSTCBStat (tcb k1 t) AND OS_STAT_SUSPEND = OS_STAT_RDY
        then make_ready (OSTCBY (tcb k1 t)) t k1 else k1)"
      using d by (simp add: tick_tcb_def Let_def upd_tcb_def k1_def dly_over_def pend_bits_def)
    then show ?thesis
      using d by (simp only: make_ready_def f s B1) (simp add: k1_def tick_of_def wakes_def)
  next
    case 3
    then have d: "OSTCBDly (tcb k t) \<noteq> 0" "OSTCBDly (tcb k t) \<noteq> 1" "OSTCBDly (tcb k t) - 1 \<noteq> 0"
      by (auto simp: c_def)
    show ?thesis
      using d by (simp add: tick_tcb_def Let_def upd_tcb_def tick_of_def wakes_def)
  qed
qed

lemma tick_tcb_ok:
  assumes inv: "kinv k" and o: "own k p t"
  shows "kinv (tick_tcb t k) \<and> own (tick_tcb t k) = own k \<and> waiting (tick_tcb t k) = waiting k"
proof -
  have st: "task_ok k p t" using inv o by (simp add: kinv_def stat_ok_def)
  consider "OSTCBDly (tcb k t) = 0" | "OSTCBDly (tcb k t) = 1" | "OSTCBDly (tcb k t) \<noteq> 0" "OSTCBDly (tcb k t) \<noteq> 1"
    by blast
  then show ?thesis
  proof cases
    case 1
    then have "tick_tcb t k = k" unfolding tick_tcb_eq [OF o] by (simp add: tick_of_def wakes_def)
    then show ?thesis using inv by simp
  next
    case 2
    then have "tick_tcb t k = dly_over_state p t k"
      unfolding tick_tcb_eq [OF o] by (simp add: tick_of_def wakes_def dly_over_state_def)
    then show ?thesis using dly_over_ok [OF inv o] 2 by simp
  next
    case 3
    define c' where "c' = (tcb k t)\<lparr>OSTCBDly := OSTCBDly (tcb k t) - 1\<rparr>"
    define k1 where "k1 = k\<lparr>tcb := (tcb k)(t := c'), OSRdy := OSRdy k\<rparr>"
    have "tick_tcb t k = k1"
      unfolding tick_tcb_eq [OF o] using 3 by (simp add: tick_of_def wakes_def k1_def c'_def)
    moreover have "kinv k1 \<and> own k1 = own k \<and> waiting k1 = waiting k"
    proof (rule local_move [OF inv o])
      show "k1 = k\<lparr>tcb := (tcb k)(t := c'), OSRdy := OSRdy k\<rparr>" by (rule k1_def)
      have d: "OSTCBDly c' \<noteq> 0" using 3(2) by (simp add: c'_def)
      have pb: "pend_bits c' = pend_bits (tcb k t)" "OSTCBStat c' = OSTCBStat (tcb k t)"
        "OSTCBEventPtr c' = OSTCBEventPtr (tcb k t)" by (simp_all add: pend_bits_def c'_def)
      have f: "ready k1 = ready k" "waiting k1 = waiting k" "tcb k1 t = c'" "evt k1 = evt k"
        by (simp_all add: k1_def ready_def waiting_def fun_eq_iff)
      have "wait_state k1 e c'" if "wait_state k e (tcb k t)" for e
        using that 3(1) pb f(4) by (metis wait_state_def)
      then show "task_ok k1 p t"
        using st 3(1) d pb by (simp add: task_ok_def f)
    qed (simp_all add: same_coords_def c'_def)
    ultimately show ?thesis by simp
  qed
qed

lemma own_frame_tick:
  assumes "own k' = own k" "own k p t"
  shows "OSTCBPrio (tcb k' t) = OSTCBPrio (tcb k t)"
proof -
  have "own k' p t" using assms by simp
  then show ?thesis using assms(2) by (auto simp: own_def word_unat_eq_iff)
qed

text \<open>The whole list, up to the idle task.\<close>

lemma tick_loop_ok:
  assumes "kinv k" "tcb_path k a ts (TCB i)" "distinct (ts @ [i])" "own k 63 i" "\<forall>t \<in> set ts. \<exists>p. own k p t"
  shows "\<exists>k'. tick_loop a k = Some k' \<and> kinv k' \<and> own k' = own k \<and> waiting k' = waiting k \<and>
    k' = k\<lparr>tcb := (\<lambda>t. if t \<in> set ts then tick_of (tcb k t) else tcb k t), OSRdy := OSRdy k'\<rparr> \<and>
    ready k' = ready k \<union> {p. \<exists>t \<in> set ts. own k p t \<and> wakes (tcb k t)}"
  using assms
proof (induction ts arbitrary: a k)
  case Nil
  then have "a = TCB i" "OSTCBPrio (tcb k i) = 63" by (auto simp: own_def word_unat_eq_iff)
  then have "tick_loop a k = Some k" by (subst tick_loop.simps) (simp add: deref_def)
  then show ?case using Nil.prems by simp
next
  case (Cons t ts)
  then obtain p where o: "own k p t" by auto
  have a: "a = TCB t" and path: "tcb_path k (OSTCBNext (tcb k t)) ts (TCB i)"
    and ti: "t \<noteq> i" "t \<notin> set ts" using Cons.prems(2,3) by auto
  have p63: "p \<noteq> 63" using own_inj(1) [of k 63 t i] o Cons.prems(4) ti by auto
  have "OSTCBPrio (tcb k t) \<noteq> 63" using o p63 by (auto simp: own_def)
  then have step: "tick_loop a k = tick_loop (OSTCBNext (tcb k t)) (tick_tcb t k)"
    by (subst tick_loop.simps) (simp add: a deref_def)
  define k1 where "k1 = tick_tcb t k"
  have k1: "kinv k1" "own k1 = own k" "waiting k1 = waiting k"
    using tick_tcb_ok [OF Cons.prems(1) o] by (auto simp: k1_def)
  have eq1: "k1 = k\<lparr>tcb := (tcb k)(t := tick_of (tcb k t)),
      OSRdy := (if wakes (tcb k t) then bm_ins p (OSRdy k) else OSRdy k)\<rparr>"
    unfolding k1_def by (rule tick_tcb_eq [OF o])
  have r1: "ready k1 = ready k \<union> (if wakes (tcb k t) then {p} else {})"
    using bm_move [OF baseD(1) own_less [OF o]] Cons.prems(1) by (simp add: eq1 ready_def kinv_def)
  have "tcb_path k1 (OSTCBNext (tcb k t)) ts (TCB i)"
    using path ti(2) by (subst tcb_path_frame) (auto simp: eq1)
  then obtain k' where k': "tick_loop (OSTCBNext (tcb k t)) k1 = Some k'" "kinv k'" "own k' = own k1"
    "waiting k' = waiting k1"
    "k' = k1\<lparr>tcb := (\<lambda>u. if u \<in> set ts then tick_of (tcb k1 u) else tcb k1 u), OSRdy := OSRdy k'\<rparr>"
    "ready k' = ready k1 \<union> {q. \<exists>u \<in> set ts. own k1 q u \<and> wakes (tcb k1 u)}"
    using Cons.IH [OF k1(1)] Cons.prems k1(2) by fastforce
  have other: "tcb k1 u = tcb k u" if "u \<in> set ts" for u using that ti by (auto simp: eq1)
  have tcbs: "(\<lambda>u. if u \<in> set ts then tick_of (tcb k1 u) else tcb k1 u)
      = (\<lambda>u. if u \<in> set (t # ts) then tick_of (tcb k u) else tcb k u)"
    using ti other by (auto simp: fun_eq_iff) (auto simp: eq1)
  have "k' = k\<lparr>tcb := (\<lambda>u. if u \<in> set (t # ts) then tick_of (tcb k u) else tcb k u), OSRdy := OSRdy k'\<rparr>"
    by (subst k'(5), subst tcbs) (simp add: eq1)
  moreover have "{q. \<exists>u \<in> set ts. own k1 q u \<and> wakes (tcb k1 u)} = {q. \<exists>u \<in> set ts. own k q u \<and> wakes (tcb k u)}"
    using other k1(2) by auto
  moreover have "{q. own k q t \<and> wakes (tcb k t)} = (if wakes (tcb k t) then {p} else {})"
    using o own_inj(2) by auto
  moreover have "{q. \<exists>u \<in> set (t # ts). own k q u \<and> wakes (tcb k u)} =
      {q. own k q t \<and> wakes (tcb k t)} \<union> {q. \<exists>u \<in> set ts. own k q u \<and> wakes (tcb k u)}" by auto
  ultimately have "k' = k\<lparr>tcb := (\<lambda>u. if u \<in> set (t # ts) then tick_of (tcb k u) else tcb k u), OSRdy := OSRdy k'\<rparr>"
    and "ready k' = ready k \<union> {q. \<exists>u \<in> set (t # ts). own k q u \<and> wakes (tcb k u)}"
    using k'(6) r1 by (simp_all only: Un_assoc)
  then show ?case using step k'(1-4) k1 by (intro exI [of _ k']) (simp only: k1_def [symmetric] simp_thms)
qed

end
