(* ===== verification/Kernel_Calls.thy ===== *)
theory Kernel_Calls
  imports Kernel_Tick
begin

text \<open>
  Every service, called from a task or an interrupt in a state that satisfies the invariants, returns
  to one: delays, suspending and resuming, the tick, the second half of a wait, posting, aborting,
  creating and deleting.
\<close>

section \<open>What the invariants depend on\<close>

lemma kinv_frame:
  assumes "OSRdy k' = OSRdy k" "OSTCBPrioTbl k' = OSTCBPrioTbl k" "tcb k' = tcb k" "OSTCBCur k' = OSTCBCur k"
    "OSPrioCur k' = OSPrioCur k"
    "\<And>e. e < OS_MAX_EVENTS \<Longrightarrow> OSEventWait (evt k' e) = OSEventWait (evt k e)"
    "\<And>e. e < OS_MAX_EVENTS \<Longrightarrow> waiting k e \<noteq> {} \<Longrightarrow> OSEventType (evt k' e) = OSEventType (evt k e)"
  shows "kinv k \<Longrightarrow> kinv k'"
proof -
  assume inv: "kinv k"
  have o: "own k' = own k" by (simp add: own_def assms fun_eq_iff)
  have r: "ready k' = ready k" by (simp add: ready_def assms)
  have w: "waiting k' e = waiting k e" if "e < OS_MAX_EVENTS" for e using assms(6) [OF that] by (simp add: waiting_def)
  have "base_ok k'"
    using inv assms(6) w by (simp add: kinv_def base_ok_def o r assms)
  moreover have "stat_ok k'"
    unfolding stat_ok_def
  proof (intro allI impI)
    fix p t assume "own k' p t"
    then have "task_ok k p t" using inv o by (simp add: kinv_def stat_ok_def)
    moreover have "task_ok k' p t = task_ok k p t"
    proof (rule task_ok_frame)
      show "OSEventType (evt k' e) = OSEventType (evt k e)" if "e < OS_MAX_EVENTS" "p \<in> waiting k e" for e
        using assms(7) [OF that(1)] that(2) by blast
    qed (simp_all add: r w assms(3))
    ultimately show "task_ok k' p t" by simp
  qed
  ultimately show ?thesis using inv o by (simp add: kinv_def cur_ok_def assms)
qed

lemma preempt_frame:
  "OSRdy k' = OSRdy k \<Longrightarrow> OSPrioCur k' = OSPrioCur k \<Longrightarrow> OSIntNesting k' = OSIntNesting k \<Longrightarrow>
   OSLockNesting k' = OSLockNesting k \<Longrightarrow> preempt_ok k \<Longrightarrow> preempt_ok k'"
  by (simp add: preempt_ok_def highest_runs_def ready_def)

text \<open>An update of an event that keeps its wait list, and its type when tasks wait.\<close>

lemma kinv_upd_evt:
  assumes "kinv k" "\<And>v. OSEventWait (f v) = OSEventWait v"
    "waiting k e \<noteq> {} \<Longrightarrow> OSEventType (f (evt k e)) = OSEventType (evt k e)"
  shows "kinv (upd_evt e f k)"
  by (rule kinv_frame [OF _ _ _ _ _ _ _ assms(1)]) (use assms in \<open>auto simp: upd_evt_def\<close>)

lemma preempt_upd_evt: "preempt_ok k \<Longrightarrow> preempt_ok (upd_evt e f k)"
  by (rule preempt_frame [of _ k]) (simp_all add: upd_evt_def)

text \<open>The events are untouched, the tasks are the same.\<close>

definition evt_same :: "kernel \<Rightarrow> kernel \<Rightarrow> bool" where
  "evt_same k k' \<longleftrightarrow> evt k' = evt k \<and> osq k' = osq k \<and> OSEventFreeList k' = OSEventFreeList k \<and>
     OSQFreeList k' = OSQFreeList k \<and> same_tasks k k' \<and> OSIntNesting k' = OSIntNesting k \<and>
     OSLockNesting k' = OSLockNesting k"

lemma evt_same_refl [simp]: "evt_same k k" by (simp add: evt_same_def)

lemma evt_same_sched: "evt_same k k1 \<Longrightarrow> sched_eq k1 k' \<Longrightarrow> evt_same k k'"
  by (auto simp: evt_same_def sched_eq_frame intro: same_tasks_trans sched_same_tasks)

section \<open>Delays\<close>

lemma OSTimeDly_block:
  assumes inv: "kinv k" and pre: "preempt_ok k" "OSIntNesting k = 0" "OSLockNesting k = 0"
    and idle: "OSPrioCur k \<noteq> OS_TASK_IDLE_PRIO" and t: "OSTCBCur k = TCB t" "OSTCBEventPtr (tcb k t) = None"
    and ticks: "ticks \<noteq> 0"
  shows "\<exists>k'. OSTimeDly ticks k = Some k' \<and> kinv k' \<and> preempt_ok k' \<and> evt_same k k' \<and>
    ready k' = ready k - {unat (OSPrioCur k)} \<and> OSTCBDly (tcb k' t) = ticks \<and> own k' = own k \<and>
    OSIntNesting k' = 0 \<and> OSLockNesting k' = 0"
proof -
  define p where "p = unat (OSPrioCur k)"
  have o: "own k p t" using inv t(1) by (auto simp: kinv_def cur_ok_def p_def)
  have p63: "p \<noteq> 63" using idle by (auto simp: p_def word_unat_eq_iff)
  have rp: "p \<in> ready k" using cur_ready [OF inv pre] by (simp add: p_def)
  have st: "task_ok k p t" using inv o by (simp add: kinv_def stat_ok_def)
  then have s0: "OSTCBStat (tcb k t) = 0" using rp by (simp add: task_ok_def)
  have nw: "p \<notin> waiting k i" if "i < OS_MAX_EVENTS" for i
    using st that t(2) by (auto simp: task_ok_def wait_state_def)
  define c' where "c' = (tcb k t)\<lparr>OSTCBDly := ticks\<rparr>"
  define k1 where "k1 = k\<lparr>tcb := (tcb k)(t := c'), OSRdy := bm_del p (OSRdy k)\<rparr>"
  have k1: "k1 = k\<lparr>OSRdy := bm_del p (OSRdy k), tcb := (tcb k)(t := c')\<rparr>"
    by (rule kernel.equality) (simp_all add: k1_def)
  have run: "OSTimeDly ticks k = OS_Sched k1"
    using own_bm [OF o] t(1) ticks pre
    by (simp add: OSTimeDly_def word_neq_0_conv deref_def make_unready_def upd_tcb_def k1 c'_def)
  have r1: "ready k1 = ready k - {p}"
    using bm_move [OF baseD(1) own_less [OF o]] inv by (simp add: ready_def k1_def kinv_def)
  have w1: "waiting k1 = waiting k" by (simp add: waiting_def k1_def fun_eq_iff)
  have m: "kinv k1 \<and> own k1 = own k \<and> waiting k1 = waiting k"
  proof (rule local_move [OF inv o])
    show "k1 = k\<lparr>tcb := (tcb k)(t := c'), OSRdy := bm_del p (OSRdy k)\<rparr>" by (rule k1_def)
    show "task_ok k1 p t"
      using nw s0 ticks by (auto simp: task_ok_def r1 w1 pend_bits_def) (auto simp: k1_def c'_def)
  qed (use p63 in \<open>auto simp: same_coords_def c'_def\<close>)
  then obtain k' where k': "OS_Sched k1 = Some k'" "sched_eq k1 k'" "kinv k'" "preempt_ok k'"
    using kinv_sched [of k1] by blast
  have f: "OSTCBDly (tcb k1 t) = ticks" "OSIntNesting k1 = 0" "OSLockNesting k1 = 0"
    using pre by (simp_all add: k1_def c'_def)
  have "evt_same k k1" by (simp add: evt_same_def same_tasks_def k1_def c'_def)
  then have "evt_same k k'" using evt_same_sched k'(2) by blast
  then show ?thesis
    using run k' r1 m f sched_eq_frame [OF k'(2)] by (auto simp: p_def)
qed

lemma prio_tbl_own:
  assumes "kinv k" "OSTCBPrioTbl k q = TCB t" "q < 64"
  obtains p where "own k p t"
  using assms by (auto simp: kinv_def base_ok_def)

text \<open>After a local move that makes tasks ready at most, rescheduling restores the preemption.\<close>

lemma sched_after:
  assumes "kinv k1"
  shows "\<exists>k'. OS_Sched k1 = Some k' \<and> kinv k' \<and> preempt_ok k' \<and> sched_eq k1 k'"
  using kinv_sched [OF assms] by blast

lemma OSTimeDlyResume_ok:
  assumes inv: "kinv k" and pre: "preempt_ok k"
  shows "\<exists>r k'. OSTimeDlyResume prio k = Some (r, k') \<and> kinv k' \<and> preempt_ok k' \<and> evt_same k k'"
proof (cases "prio \<ge> OS_LOWEST_PRIO \<or> (\<forall>t. OSTCBPrioTbl k (unat prio) \<noteq> TCB t)")
  case True
  then show ?thesis using assms by (auto simp: OSTimeDlyResume_def split: tcb_ptr.splits)
next
  case False
  then obtain t where lo: "\<not> prio \<ge> OS_LOWEST_PRIO" and pt: "OSTCBPrioTbl k (unat prio) = TCB t" by auto
  have "unat prio < 64" using lo by (simp add: word_le_nat_alt)
  then obtain p where o: "own k p t" using prio_tbl_own [OF inv pt] by blast
  show ?thesis
  proof (cases "OSTCBDly (tcb k t) = 0")
    case True
    then show ?thesis using assms lo pt by (auto simp: OSTimeDlyResume_def)
  next
    case d: False
    define k1 where "k1 = dly_over_state p t k"
    define k0 where "k0 = k\<lparr>tcb := (tcb k)(t := dly_over (tcb k t))\<rparr>"
    have i1: "kinv k1" using dly_over_ok [OF inv o d] by (simp add: k1_def)
    have f: "evt_same k k1" by (simp add: evt_same_def same_tasks_def k1_def dly_over_state_def dly_over_def)
    have s: "OSTCBStat (dly_over (tcb k t)) AND OS_STAT_SUSPEND = OSTCBStat (tcb k t) AND OS_STAT_SUSPEND"
      by (simp add: dly_over_def and.assoc)
    have B: "bm_set b (OSTCBY (dly_over (tcb k t))) (OSTCBBitX (dly_over (tcb k t))) (OSTCBBitY (dly_over (tcb k t)))
        = bm_ins p b" for b
      using own_bm(1) [OF o, of b] by (simp add: dly_over_def)
    have k0: "tcb k0 t = dly_over (tcb k t)" "OSRdy k0 = OSRdy k" by (simp_all add: k0_def)
    have "OSTimeDlyResume prio k = (if OSTCBStat (tcb k0 t) AND OS_STAT_SUSPEND = OS_STAT_RDY
        then do { k \<leftarrow> OS_Sched (make_ready (OSTCBY (tcb k0 t)) t k0); Some (OS_ERR_NONE, k) }
        else Some (OS_ERR_NONE, k0))"
      using lo pt d by (simp add: OSTimeDlyResume_def Let_def upd_tcb_def k0_def dly_over_def pend_bits_def)
    also have "\<dots> = (if OSTCBStat (tcb k t) AND OS_STAT_SUSPEND = 0
        then do { k \<leftarrow> OS_Sched k1; Some (OS_ERR_NONE, k) } else Some (OS_ERR_NONE, k1))"
      by (simp only: make_ready_def k0 s B) (simp add: k1_def k0_def dly_over_state_def)
    finally have run: "OSTimeDlyResume prio k = \<dots>" .
    show ?thesis
    proof (cases "OSTCBStat (tcb k t) AND OS_STAT_SUSPEND = 0")
      case True
      then show ?thesis using run sched_after [OF i1] evt_same_sched [OF f] by auto
    next
      case False
      have "preempt_ok k1" using False pre by (intro preempt_frame [of k1 k]) (simp_all add: k1_def dly_over_state_def)
      then show ?thesis using run False i1 f by simp
    qed
  qed
qed

section \<open>Suspending and resuming\<close>

lemma stat_or_suspend:
  fixes s :: u8
  shows "(s OR OS_STAT_SUSPEND) AND OS_STAT_PEND_ANY = s AND OS_STAT_PEND_ANY"
    "s AND NOT 0x3F = 0 \<Longrightarrow> (s OR OS_STAT_SUSPEND) AND NOT 0x3F = 0" "s OR OS_STAT_SUSPEND \<noteq> 0"
proof -
  show "(s OR OS_STAT_SUSPEND) AND OS_STAT_PEND_ANY = s AND OS_STAT_PEND_ANY"
    by (simp add: bit.conj_disj_distrib2)
  show "s AND NOT 0x3F = 0 \<Longrightarrow> (s OR OS_STAT_SUSPEND) AND NOT 0x3F = 0"
    by (simp add: bit.conj_disj_distrib2)
  show "s OR OS_STAT_SUSPEND \<noteq> 0"
  proof
    assume "s OR OS_STAT_SUSPEND = 0"
    then have "bit (s OR OS_STAT_SUSPEND) 3 = bit (0 :: u8) 3" by simp
    then show False by (simp add: bit_simps)
  qed
qed

lemma stat_not_suspend:
  fixes s :: u8
  shows "(s AND NOT OS_STAT_SUSPEND) AND OS_STAT_PEND_ANY = s AND OS_STAT_PEND_ANY"
    "s AND NOT 0x3F = 0 \<Longrightarrow> (s AND NOT OS_STAT_SUSPEND) AND NOT 0x3F = 0"
proof -
  have "NOT OS_STAT_SUSPEND AND OS_STAT_PEND_ANY = (OS_STAT_PEND_ANY :: u8)" by simp
  then show "(s AND NOT OS_STAT_SUSPEND) AND OS_STAT_PEND_ANY = s AND OS_STAT_PEND_ANY"
    by (metis and.assoc)
  have "(s AND NOT OS_STAT_SUSPEND) AND NOT 0x3F = (s AND NOT 0x3F) AND NOT OS_STAT_SUSPEND"
    by (metis and.assoc and.commute)
  then show "s AND NOT 0x3F = 0 \<Longrightarrow> (s AND NOT OS_STAT_SUSPEND) AND NOT 0x3F = 0" by (simp only:) simp
qed

text \<open>The task named by a priority has that priority: it is not a stale entry left by a mutex.\<close>

definition prio_exact :: "kernel \<Rightarrow> u8 \<Rightarrow> bool" where
  "prio_exact k prio \<longleftrightarrow> (\<forall>t. OSTCBPrioTbl k (unat prio) = TCB t \<longrightarrow> own k (unat prio) t)"

lemma OSTaskSuspend_ok:
  assumes inv: "kinv k" and pre: "preempt_ok k" and ex: "prio_exact k prio"
    and idle: "prio \<noteq> OS_TASK_IDLE_PRIO" "OSPrioCur k \<noteq> OS_TASK_IDLE_PRIO \<or> prio \<noteq> OS_PRIO_SELF"
  shows "\<exists>r k'. OSTaskSuspend prio k = Some (r, k') \<and> kinv k' \<and> preempt_ok k' \<and> evt_same k k'"
proof -
  obtain c where c: "OSTCBCur k = TCB c" "own k (unat (OSPrioCur k)) c"
    using inv by (auto simp: kinv_def cur_ok_def)
  have pc: "OSTCBPrio (tcb k c) = OSPrioCur k" using c(2) by (simp add: own_def word_unat_eq_iff)
  define q where "q = (if prio = OS_PRIO_SELF then OSPrioCur k else prio)"
  define self where "self \<longleftrightarrow> q = OSPrioCur k"
  have q63: "q \<noteq> 63" using idle by (auto simp: q_def)
  have sel: "(if prio = OS_PRIO_SELF then (OSTCBPrio (tcb k c), True)
        else if prio = OSTCBPrio (tcb k c) then (prio, True) else (prio, False)) = (q, self)"
    by (simp add: q_def self_def pc)
  show ?thesis
  proof (cases "OSTCBPrioTbl k (unat q)")
    case (TCB t)
    have o: "own k (unat q) t"
    proof (cases "prio = OS_PRIO_SELF")
      case True
      then have "t = c" using TCB c(2) by (simp add: q_def own_def)
      then show ?thesis using True c(2) by (simp add: q_def)
    next
      case False
      then have "q = prio" by (simp add: q_def)
      then show ?thesis using TCB ex by (simp add: prio_exact_def)
    qed
    define p where "p = unat q"
    have p63: "p \<noteq> 63" using q63 by (auto simp: p_def word_unat_eq_iff)
    have o: "own k p t" using o by (simp add: p_def)
    have st: "task_ok k p t" using inv o by (simp add: kinv_def stat_ok_def)
    define s where "s = OSTCBStat (tcb k t)"
    define c' where "c' = (tcb k t)\<lparr>OSTCBStat := s OR OS_STAT_SUSPEND\<rparr>"
    define k1 where "k1 = k\<lparr>tcb := (tcb k)(t := c'), OSRdy := bm_del p (OSRdy k)\<rparr>"
    have k1: "k1 = k\<lparr>OSRdy := bm_del p (OSRdy k), tcb := (tcb k)(t := c')\<rparr>"
      by (rule kernel.equality) (simp_all add: k1_def)
    have r1: "ready k1 = ready k - {p}"
      using bm_move [OF baseD(1) own_less [OF o]] inv by (simp add: ready_def k1_def kinv_def)
    have w1: "waiting k1 = waiting k" by (simp add: waiting_def k1_def fun_eq_iff)
    have e1: "evt k1 = evt k" and t1: "tcb k1 t = c'" by (simp_all add: k1_def)
    have pb: "pend_bits c' = pend_bits (tcb k t)" "OSTCBEventPtr c' = OSTCBEventPtr (tcb k t)"
      "OSTCBStatPend c' = OSTCBStatPend (tcb k t)" "OSTCBDly c' = OSTCBDly (tcb k t)"
      by (simp_all add: pend_bits_def c'_def s_def stat_or_suspend)
    have s3: "s AND NOT 0x3F = 0" using st by (simp add: task_ok_def s_def)
    have "OSTCBStat c' AND NOT 0x3F = 0" "OSTCBStat c' \<noteq> 0"
      using stat_or_suspend(2) [OF s3] stat_or_suspend(3) [of s] by (simp_all add: c'_def)
    moreover have "wait_state k1 e c' = wait_state k e (tcb k t)" for e by (simp add: wait_state_def pb e1)
    ultimately have ok1: "task_ok k1 p t"
      using st by (simp only: task_ok_def t1 w1 r1 pb) simp
    have m: "kinv k1 \<and> own k1 = own k \<and> waiting k1 = waiting k"
      by (rule local_move [OF inv o _ _ k1_def ok1]) (use p63 in \<open>auto simp: same_coords_def c'_def\<close>)
    have f: "evt_same k k1" by (simp add: evt_same_def same_tasks_def k1_def c'_def)
    have run: "OSTaskSuspend prio k = do { k \<leftarrow> (if self then OS_Sched k1 else Some k1); Some (OS_ERR_NONE, k) }"
      using TCB own_bm [OF o]
      by (simp add: OSTaskSuspend_def c(1) deref_def sel make_unready_def upd_tcb_def k1 c'_def s_def)
    show ?thesis
    proof (cases self)
      case True
      obtain k' where "OS_Sched k1 = Some k'" "kinv k'" "preempt_ok k'" "sched_eq k1 k'"
        using sched_after m by blast
      then show ?thesis using run True evt_same_sched [OF f] by simp
    next
      case False
      have "p \<noteq> unat (OSPrioCur k)" using False by (simp add: self_def p_def word_unat_eq_iff)
      moreover have "Min (ready k - {p}) = Min (ready k)" if "p \<noteq> Min (ready k)"
      proof (rule Min_eqI)
        have "finite (ready k)" unfolding ready_def by (rule bm.finite_elems)
        then show "finite (ready k - {p})" "\<And>y. y \<in> ready k - {p} \<Longrightarrow> Min (ready k) \<le> y" by auto
        show "Min (ready k) \<in> ready k - {p}" using base_high(3) [of k] inv that by (simp add: kinv_def)
      qed
      ultimately have "preempt_ok k1"
        using pre by (auto simp: preempt_ok_def highest_runs_def r1) (auto simp: k1_def)
      then show ?thesis using run False m f by simp
    qed
  qed (use assms in \<open>simp_all add: OSTaskSuspend_def c(1) deref_def sel\<close>)
qed

lemma OSTaskResume_ok:
  assumes inv: "kinv k" and pre: "preempt_ok k" and ex: "prio_exact k prio" and run: "OSRunning k"
  shows "\<exists>r k'. OSTaskResume prio k = Some (r, k') \<and> kinv k' \<and> preempt_ok k' \<and> evt_same k k'"
proof (cases "OSTCBPrioTbl k (unat prio)")
  case (TCB t)
  define p where "p = unat prio"
  have o: "own k p t" using TCB ex by (simp add: prio_exact_def p_def)
  have st: "task_ok k p t" using inv o by (simp add: kinv_def stat_ok_def)
  define s where "s = OSTCBStat (tcb k t)"
  show ?thesis
  proof (cases "s AND OS_STAT_SUSPEND = 0")
    case True
    then show ?thesis using TCB assms by (simp add: OSTaskResume_def s_def)
  next
    case False
    define s' where "s' = s AND NOT OS_STAT_SUSPEND"
    define c' where "c' = (tcb k t)\<lparr>OSTCBStat := s'\<rparr>"
    define go where "go \<longleftrightarrow> s' = 0 \<and> OSTCBDly (tcb k t) = 0"
    define k1 where "k1 = k\<lparr>tcb := (tcb k)(t := c'), OSRdy := (if go then bm_ins p (OSRdy k) else OSRdy k)\<rparr>"
    have nr: "p \<notin> ready k" using st False by (auto simp: task_ok_def s_def)
    have r1: "ready k1 = (if go then insert p (ready k) else ready k)"
      using bm_move [OF baseD(1) own_less [OF o]] inv by (simp add: ready_def k1_def kinv_def)
    have w1: "waiting k1 = waiting k" by (simp add: waiting_def k1_def fun_eq_iff)
    have e1: "evt k1 = evt k" and t1: "tcb k1 t = c'" by (simp_all add: k1_def)
    have pb: "pend_bits c' = pend_bits (tcb k t)" "OSTCBEventPtr c' = OSTCBEventPtr (tcb k t)"
      "OSTCBStatPend c' = OSTCBStatPend (tcb k t)" "OSTCBDly c' = OSTCBDly (tcb k t)"
      "OSTCBStat c' = s'"
      using stat_not_suspend(1) [of s, folded s'_def] by (simp_all add: pend_bits_def c'_def flip: s_def)
    have s3: "s AND NOT 0x3F = 0" using st by (simp add: task_ok_def s_def)
    have ws: "wait_state k1 e c' = wait_state k e (tcb k t)" for e by (simp add: wait_state_def pb(1-4) e1)
    have ok1: "task_ok k1 p t"
      unfolding task_ok_def t1 w1 r1 ws pb
      using st nr stat_not_suspend(2) [OF s3, folded s'_def] by (simp only: task_ok_def go_def) auto
    have m: "kinv k1 \<and> own k1 = own k \<and> waiting k1 = waiting k"
      by (rule local_move [OF inv o _ _ k1_def ok1]) (auto simp: same_coords_def c'_def)
    have B: "bm_set b (OSTCBY c') (OSTCBBitX c') (OSTCBBitY c') = bm_ins p b" for b
      using own_bm(1) [OF o, of b] by (simp add: c'_def)
    define k0 where "k0 = k\<lparr>tcb := (tcb k)(t := c')\<rparr>"
    have k0: "tcb k0 t = c'" "OSRdy k0 = OSRdy k" "OSRunning k0" by (simp_all add: k0_def run)
    have "OSTaskResume prio k = (if OSTCBStat (tcb k0 t) = OS_STAT_RDY \<and> OSTCBDly (tcb k0 t) = 0
        then do { k \<leftarrow> (let k = make_ready (OSTCBY (tcb k0 t)) t k0 in if OSRunning k then OS_Sched k else Some k);
                  Some (OS_ERR_NONE, k) }
        else Some (OS_ERR_NONE, k0))"
      using TCB False unfolding k0_def c'_def s'_def s_def
      by (simp add: OSTaskResume_def Let_def upd_tcb_def cong: if_cong)
    also have "\<dots> = (if go then do { k \<leftarrow> OS_Sched k1; Some (OS_ERR_NONE, k) } else Some (OS_ERR_NONE, k1))"
    proof -
      have "make_ready (OSTCBY (tcb k0 t)) t k0 = k0\<lparr>OSRdy := bm_ins p (OSRdy k)\<rparr>"
        by (simp only: make_ready_def k0 B)
      moreover have "go \<Longrightarrow> k0\<lparr>OSRdy := bm_ins p (OSRdy k)\<rparr> = k1" "\<not> go \<Longrightarrow> k0 = k1"
        by (simp_all add: k0_def k1_def)
      moreover have "OSTCBStat (tcb k0 t) = OS_STAT_RDY \<and> OSTCBDly (tcb k0 t) = 0 \<longleftrightarrow> go"
        by (simp only: k0 pb go_def)
      ultimately show ?thesis using run by (auto simp: k1_def)
    qed
    finally have res: "OSTaskResume prio k = \<dots>" .
    have f: "evt_same k k1" by (simp add: evt_same_def same_tasks_def k1_def c'_def)
    show ?thesis
    proof (cases go)
      case True
      obtain k' where "OS_Sched k1 = Some k'" "kinv k'" "preempt_ok k'" "sched_eq k1 k'"
        using sched_after m by blast
      then show ?thesis using res True evt_same_sched [OF f] by simp
    next
      case False
      have "preempt_ok k1" using False pre by (intro preempt_frame [of k1 k]) (simp_all add: k1_def)
      then show ?thesis using res False m f by simp
    qed
  qed
qed (use assms in \<open>simp_all add: OSTaskResume_def\<close>)

section \<open>The second half of a wait\<close>

text \<open>The task that resumes leaves the wait list, keeps nothing of the wait, and is told how it ended.\<close>

lemma pend_finish_ok:
  assumes inv: "kinv k" and pre: "preempt_ok k" and e: "e < OS_MAX_EVENTS"
    and t: "OSTCBCur k = TCB t" "OSTCBEventPtr (tcb k t) = Some e"
    and rdy: "unat (OSPrioCur k) \<in> ready k"
  defines "p \<equiv> unat (OSPrioCur k)"
  shows "\<exists>k'. pend_finish e k = Some (case OSTCBStatPend (tcb k t) of OS_STAT_PEND_OK \<Rightarrow> OS_ERR_NONE
      | OS_STAT_PEND_TO \<Rightarrow> OS_ERR_TIMEOUT | OS_STAT_PEND_ABORT \<Rightarrow> OS_ERR_PEND_ABORT, k') \<and> kinv k' \<and> preempt_ok k' \<and>
    wait_only e k k' \<and> waiting k' e = waiting k e - {p} \<and> ready k' = ready k \<and>
    OSTCBEventPtr (tcb k' t) = None \<and> OSTCBCur k' = OSTCBCur k"
proof -
  have base: "base_ok k" and s: "stat_ok k" and c: "cur_ok k" using inv by (auto simp: kinv_def)
  have o: "own k p t" using c t(1) by (auto simp: cur_ok_def p_def)
  have st: "task_ok k p t" using stat_okD [OF s o] .
  have s0: "OSTCBStat (tcb k t) = 0" "OSTCBDly (tcb k t) = 0" using st rdy by (auto simp: task_ok_def p_def)
  define to where "to \<longleftrightarrow> OSTCBStatPend (tcb k t) = OS_STAT_PEND_TO"
  have pb: "pend_bits (tcb k t) = 0" by (simp add: pend_bits_def s0)
  have nw: "p \<notin> waiting k i" if "i < OS_MAX_EVENTS" "i \<noteq> e \<or> \<not> to" for i
    using st that t(2) pb by (auto simp: task_ok_def wait_state_def to_def)
  define c' where "c' = (tcb k t)\<lparr>OSTCBStat := 0, OSTCBStatPend := OS_STAT_PEND_OK, OSTCBEventPtr := None\<rparr>"
  define k1 where "k1 = k\<lparr>
    evt := (if to then (evt k)(e := (evt k e)\<lparr>OSEventWait := bm_del p (OSEventWait (evt k e))\<rparr>) else evt k),
    tcb := (tcb k)(t := c')\<rparr>"
  have run: "pend_finish e k = Some (case OSTCBStatPend (tcb k t) of OS_STAT_PEND_OK \<Rightarrow> OS_ERR_NONE
      | OS_STAT_PEND_TO \<Rightarrow> OS_ERR_TIMEOUT | OS_STAT_PEND_ABORT \<Rightarrow> OS_ERR_PEND_ABORT, k1)"
    using own_bm [OF o] t(1)
    by (cases "OSTCBStatPend (tcb k t)")
      (simp_all add: pend_finish_def deref_def kernel_defs k1_def c'_def to_def)
  note bms = bm_move [OF baseD(2) [OF base e] own_less [OF o]]
  have r1: "ready k1 = ready k" by (simp add: ready_def k1_def)
  have w1: "waiting k1 i = (if i = e then waiting k e - {p} else waiting k i)" if "i < OS_MAX_EVENTS" for i
    using bms nw [OF e] by (auto simp: waiting_def k1_def)
  have t1: "tcb k1 t = c'" by (simp add: k1_def)
  have ok1: "task_ok k1 p t"
  proof -
    have "p \<notin> waiting k1 i" if "i < OS_MAX_EVENTS" for i using w1 [OF that] nw [OF that] by auto
    then show ?thesis using rdy s0 by (simp add: task_ok_def r1 t1 pend_bits_def p_def) (simp add: c'_def)
  qed
  have m: "base_ok k1 \<and> stat_ok k1 \<and> own k1 = own k"
  proof (rule move_ok [OF base s o])
    show "own k1 p t" using o by (simp add: own_def k1_def c'_def coords_ok_def)
    show "bm_ok (OSEventWait (evt k1 i)) \<and> waiting k1 i - {p} = waiting k i - {p} \<and>
        OSEventType (evt k1 i) = OSEventType (evt k i)" if "i < OS_MAX_EVENTS" for i
      using bms baseD(2) [OF base that] w1 [OF that] by (auto simp: k1_def)
  qed (use ok1 baseD(1,3) [OF base] in \<open>auto simp: k1_def ready_def\<close>)
  then have "kinv k1" using c cur_ok_frame [of k k1] by (auto simp: kinv_def) (auto simp: k1_def)
  moreover have "preempt_ok k1" using pre by (intro preempt_frame [of k1 k]) (simp_all add: k1_def)
  moreover have "wait_only e k k1"
    using wait_only_refl [of e k] by (auto simp: wait_only_def same_tasks_def k1_def c'_def)
  moreover have "OSTCBEventPtr (tcb k1 t) = None" "OSTCBCur k1 = OSTCBCur k"
    by (simp add: t1 c'_def) (simp add: k1_def)
  ultimately show ?thesis using run r1 w1 [OF e] by auto
qed

end
