(* ===== verification/Kernel_Events.thy ===== *)
theory Kernel_Events
  imports Kernel_Calls
begin

text \<open>
  The invariant of the event control blocks: the free list is exactly the unused ones, every queue
  event has a queue of its own, and no task waits for something that is there: a semaphore with
  waiting tasks has the count 0, a mailbox no message, a queue no entry. Each service on semaphores,
  mailboxes and queues keeps it together with the invariants of the tasks.
\<close>

section \<open>The invariant\<close>

definition next_free :: "OS_EVENT \<Rightarrow> nat option" where
  "next_free v = (case OSEventPtr v of PEvent n \<Rightarrow> Some n | _ \<Rightarrow> None)"

fun evt_path :: "(nat \<Rightarrow> OS_EVENT) \<Rightarrow> nat option \<Rightarrow> nat list \<Rightarrow> bool" where
  "evt_path E a [] \<longleftrightarrow> a = None"
| "evt_path E a (e # es) \<longleftrightarrow> a = Some e \<and> evt_path E (next_free (E e)) es"

fun q_path :: "(nat \<Rightarrow> OS_Q) \<Rightarrow> nat option \<Rightarrow> nat list \<Rightarrow> bool" where
  "q_path Q a [] \<longleftrightarrow> a = None"
| "q_path Q a (q # qs) \<longleftrightarrow> a = Some q \<and> q_path Q (OSQPtr (Q q)) qs"

definition unused_events :: "kernel \<Rightarrow> nat set" where
  "unused_events k = {e. e < OS_MAX_EVENTS \<and> OSEventType (evt k e) = OS_EVENT_TYPE_UNUSED}"

definition queue_events :: "kernel \<Rightarrow> nat set" where
  "queue_events k = {e. e < OS_MAX_EVENTS \<and> OSEventType (evt k e) = OS_EVENT_TYPE_Q}"

definition exhausted :: "kernel \<Rightarrow> nat \<Rightarrow> bool" where
  "exhausted k e = (case OSEventType (evt k e) of
     OS_EVENT_TYPE_SEM \<Rightarrow> OSEventCnt (evt k e) = 0
   | OS_EVENT_TYPE_MBOX \<Rightarrow> OSEventPtr (evt k e) = PNull
   | OS_EVENT_TYPE_Q \<Rightarrow> (\<forall>q. OSEventPtr (evt k e) = PQ q \<longrightarrow> OSQEntries (osq k q) = 0)
   | OS_EVENT_TYPE_UNUSED \<Rightarrow> False
   | _ \<Rightarrow> True)"

definition free_events_ok :: "kernel \<Rightarrow> bool" where
  "free_events_ok k \<longleftrightarrow> (\<exists>es. evt_path (evt k) (OSEventFreeList k) es \<and> distinct es \<and> set es = unused_events k)"

definition queues_ok :: "kernel \<Rightarrow> bool" where
  "queues_ok k \<longleftrightarrow>
     (\<exists>qs. q_path (osq k) (OSQFreeList k) qs \<and> distinct qs \<and>
           set qs = {q. q < OS_MAX_QS \<and> (\<forall>e \<in> queue_events k. OSEventPtr (evt k e) \<noteq> PQ q)}) \<and>
     (\<forall>e \<in> queue_events k. \<exists>q < OS_MAX_QS. OSEventPtr (evt k e) = PQ q) \<and>
     (\<forall>e \<in> queue_events k. \<forall>e' \<in> queue_events k. OSEventPtr (evt k e) = OSEventPtr (evt k e') \<longrightarrow> e = e')"

definition waits_ok :: "kernel \<Rightarrow> bool" where
  "waits_ok k \<longleftrightarrow> (\<forall>e < OS_MAX_EVENTS. waiting k e \<noteq> {} \<longrightarrow> exhausted k e)"

definition events_ok :: "kernel \<Rightarrow> bool" where
  "events_ok k \<longleftrightarrow> free_events_ok k \<and> queues_ok k \<and> waits_ok k"

definition kgood :: "kernel \<Rightarrow> bool" where
  "kgood k \<longleftrightarrow> kinv k \<and> preempt_ok k \<and> events_ok k"

lemma exhausted_frame:
  "OSEventType (evt k' e) = OSEventType (evt k e) \<Longrightarrow> OSEventCnt (evt k' e) = OSEventCnt (evt k e) \<Longrightarrow>
   OSEventPtr (evt k' e) = OSEventPtr (evt k e) \<Longrightarrow> (\<And>q. OSQEntries (osq k' q) = OSQEntries (osq k q)) \<Longrightarrow>
   exhausted k' e = exhausted k e"
  by (cases "OSEventType (evt k e)") (simp_all add: exhausted_def)

lemma evt_path_frame:
  "(\<And>e. e \<in> set es \<Longrightarrow> next_free (E' e) = next_free (E e)) \<Longrightarrow> evt_path E' a es = evt_path E a es"
  by (induction es arbitrary: a) auto

lemma q_path_frame:
  "(\<And>q. q \<in> set qs \<Longrightarrow> OSQPtr (Q' q) = OSQPtr (Q q)) \<Longrightarrow> q_path Q' a qs = q_path Q a qs"
  by (induction qs arbitrary: a) auto

text \<open>Updates that keep the type and the pointer of every event.\<close>

lemma events_ok_frame:
  assumes ok: "events_ok k"
    and t: "\<And>e. e < OS_MAX_EVENTS \<Longrightarrow> OSEventType (evt k' e) = OSEventType (evt k e)"
    and p: "\<And>e. e < OS_MAX_EVENTS \<Longrightarrow> OSEventType (evt k e) = OS_EVENT_TYPE_Q \<Longrightarrow>
      OSEventPtr (evt k' e) = OSEventPtr (evt k e)"
    and n: "\<And>e. e < OS_MAX_EVENTS \<Longrightarrow> OSEventType (evt k e) = OS_EVENT_TYPE_UNUSED \<Longrightarrow>
      next_free (evt k' e) = next_free (evt k e)"
    and q: "\<And>q. OSQPtr (osq k' q) = OSQPtr (osq k q)"
    and f: "OSEventFreeList k' = OSEventFreeList k" "OSQFreeList k' = OSQFreeList k"
    and w: "\<And>e. e < OS_MAX_EVENTS \<Longrightarrow> waiting k' e \<noteq> {} \<Longrightarrow> exhausted k' e"
  shows "events_ok k'"
proof -
  have u: "unused_events k' = unused_events k" "queue_events k' = queue_events k"
    using t by (auto simp: unused_events_def queue_events_def)
  have pq: "OSEventPtr (evt k' e) = OSEventPtr (evt k e)" if "e \<in> queue_events k" for e
    using that p [of e] by (simp add: queue_events_def)
  obtain es where es: "evt_path (evt k) (OSEventFreeList k) es" "distinct es" "set es = unused_events k"
    using ok by (auto simp: events_ok_def free_events_ok_def)
  have "evt_path (evt k') (OSEventFreeList k') es"
    using es(1) n es(3) by (subst evt_path_frame [of _ _ "evt k"]) (auto simp: f unused_events_def)
  then have "free_events_ok k'" using es u by (auto simp: free_events_ok_def)
  moreover have "queues_ok k'"
  proof -
    obtain qs where qs: "q_path (osq k) (OSQFreeList k) qs" "distinct qs"
      "set qs = {q. q < OS_MAX_QS \<and> (\<forall>e \<in> queue_events k. OSEventPtr (evt k e) \<noteq> PQ q)}"
      using ok by (auto simp: events_ok_def queues_ok_def)
    have "q_path (osq k') (OSQFreeList k') qs"
      using qs(1) q by (subst q_path_frame [of _ _ "osq k"]) (auto simp: f)
    moreover have "set qs = {q. q < OS_MAX_QS \<and> (\<forall>e \<in> queue_events k'. OSEventPtr (evt k' e) \<noteq> PQ q)}"
      using qs(3) pq by (auto simp: u)
    ultimately show ?thesis
      using ok qs(2) pq by (auto simp: events_ok_def queues_ok_def u)
  qed
  ultimately show ?thesis using w by (simp add: events_ok_def waits_ok_def)
qed

lemma waiting_exhausted:
  "events_ok k \<Longrightarrow> e < OS_MAX_EVENTS \<Longrightarrow> waiting k e \<noteq> {} \<Longrightarrow> exhausted k e"
  by (simp add: events_ok_def waits_ok_def)

lemma events_evt_same:
  assumes "events_ok k" "evt_same k k'"
  shows "events_ok k'"
proof (rule events_ok_frame [OF assms(1)])
  show "exhausted k' e" if "e < OS_MAX_EVENTS" "waiting k' e \<noteq> {}" for e
    using waiting_exhausted [OF assms(1) that(1)] that(2) assms(2) exhausted_frame [of k' e k]
    by (simp add: waiting_def evt_same_def)
qed (use assms(2) in \<open>simp_all add: evt_same_def\<close>)

lemma events_sched: "events_ok k \<Longrightarrow> sched_eq k k' \<Longrightarrow> events_ok k'"
  by (rule events_evt_same [of k]) (auto intro: evt_same_sched [of k k])

text \<open>Only the wait list of \<open>e\<close> changes; it has members at the end only when nothing is there.\<close>

lemma events_wait_only:
  assumes ok: "events_ok k" and w: "wait_only e k k'" and e: "waiting k' e \<noteq> {} \<Longrightarrow> exhausted k e"
  shows "events_ok k'"
proof (rule events_ok_frame [OF ok])
  have ex: "exhausted k' i = exhausted k i" for i
    using wait_only_fields [OF w, of i] w by (intro exhausted_frame) (simp_all add: wait_only_def)
  show "exhausted k' i" if "i < OS_MAX_EVENTS" "waiting k' i \<noteq> {}" for i
    using that e waiting_exhausted [OF ok that(1)] wait_only_fields(5) [OF w, of i] ex
    by (cases "i = e") auto
qed (use w wait_only_fields [OF w] in \<open>simp_all add: wait_only_def next_free_def\<close>)

text \<open>A change of the count or the message of an event no task waits for.\<close>

lemma events_upd_evt:
  assumes ok: "events_ok k" and e: "OSEventType (evt k e) \<notin> {OS_EVENT_TYPE_UNUSED, OS_EVENT_TYPE_Q}"
    and f: "\<And>v. OSEventType (f v) = OSEventType v" "\<And>v. OSEventWait (f v) = OSEventWait v"
    and w: "waiting k e \<noteq> {} \<Longrightarrow> exhausted (upd_evt e f k) e"
  shows "events_ok (upd_evt e f k)"
proof (rule events_ok_frame [OF ok])
  have "exhausted (upd_evt e f k) i" if "i \<noteq> e" "exhausted k i" for i
    using that exhausted_frame [of "upd_evt e f k" i k] by (simp add: upd_evt_def)
  then show "exhausted (upd_evt e f k) i" if "i < OS_MAX_EVENTS" "waiting (upd_evt e f k) i \<noteq> {}" for i
    using that w waiting_exhausted [OF ok that(1)] f(2)
    by (cases "i = e") (auto simp: waiting_def upd_evt_def)
qed (use e f in \<open>auto simp: upd_evt_def\<close>)

lemma same_tasks_upd_evt [simp]: "same_tasks k (upd_evt e f k)"
  by (simp add: same_tasks_def upd_evt_def)

lemma kgood_upd_evt:
  assumes "kgood k" "OSEventType (evt k e) \<notin> {OS_EVENT_TYPE_UNUSED, OS_EVENT_TYPE_Q}"
    "\<And>v. OSEventType (f v) = OSEventType v" "\<And>v. OSEventWait (f v) = OSEventWait v"
    "waiting k e \<noteq> {} \<Longrightarrow> exhausted (upd_evt e f k) e"
  shows "kgood (upd_evt e f k)"
  using assms events_upd_evt [of k e f] kinv_upd_evt [of k f e] preempt_upd_evt [of k e f]
  by (simp add: kgood_def)

lemma kgood_sched:
  assumes "kinv k" "events_ok k"
  shows "\<exists>k'. OS_Sched k = Some k' \<and> kgood k' \<and> same_tasks k k' \<and> sched_eq k k'"
  using kinv_sched [OF assms(1)] events_sched [OF assms(2)] sched_same_tasks by (auto simp: kgood_def)

end
