(* ===== verification/Kernel_Services.thy ===== *)
theory Kernel_Services
  imports Kernel_Events
begin

text \<open>
  Every service on semaphores, mailboxes and message queues returns, and keeps the invariants of the
  tasks and of the events.
\<close>

section \<open>What a service leaves alone\<close>

text \<open>The owner and the count of every mutex are the same, and no task has begun to wait for one.\<close>

definition mutex_part :: "OS_EVENT \<Rightarrow> (u16 \<times> event_ptr) option" where
  "mutex_part v = (if OSEventType v = OS_EVENT_TYPE_MUTEX then Some (OSEventCnt v, OSEventPtr v) else None)"

definition same_mutexes :: "kernel \<Rightarrow> kernel \<Rightarrow> bool" where
  "same_mutexes k k' \<longleftrightarrow> (\<forall>e < OS_MAX_EVENTS. mutex_part (evt k' e) = mutex_part (evt k e) \<and>
     (OSEventType (evt k e) = OS_EVENT_TYPE_MUTEX \<longrightarrow> waiting k' e \<subseteq> waiting k e))"

definition same_mt :: "kernel \<Rightarrow> kernel \<Rightarrow> bool" where
  "same_mt k k' \<longleftrightarrow> same_tasks k k' \<and> same_mutexes k k'"

lemma mutex_part_None [simp]: "OSEventType v \<noteq> OS_EVENT_TYPE_MUTEX \<Longrightarrow> mutex_part v = None"
  by (simp add: mutex_part_def)

lemma mutex_part_type:
  "mutex_part v = mutex_part w \<Longrightarrow> OSEventType v = OS_EVENT_TYPE_MUTEX \<longleftrightarrow> OSEventType w = OS_EVENT_TYPE_MUTEX"
  by (auto simp: mutex_part_def split: if_splits)

lemma same_mt_refl [simp]: "same_mt k k" by (simp add: same_mt_def same_mutexes_def)

lemma same_mt_trans: "same_mt k k1 \<Longrightarrow> same_mt k1 k2 \<Longrightarrow> same_mt k k2"
proof -
  assume a: "same_mt k k1" "same_mt k1 k2"
  then have "same_tasks k k2" using same_tasks_trans by (auto simp: same_mt_def)
  moreover have "same_mutexes k k2"
    unfolding same_mutexes_def
  proof (intro allI impI)
    fix e :: nat assume e: "e < OS_MAX_EVENTS"
    have m: "mutex_part (evt k1 e) = mutex_part (evt k e)" "mutex_part (evt k2 e) = mutex_part (evt k1 e)"
      using a e by (simp_all add: same_mt_def same_mutexes_def)
    have "waiting k2 e \<subseteq> waiting k e" if "OSEventType (evt k e) = OS_EVENT_TYPE_MUTEX"
      using a e that mutex_part_type [OF m(1)] by (auto simp: same_mt_def same_mutexes_def)
    then show "mutex_part (evt k2 e) = mutex_part (evt k e) \<and>
        (OSEventType (evt k e) = OS_EVENT_TYPE_MUTEX \<longrightarrow> waiting k2 e \<subseteq> waiting k e)" using m by simp
  qed
  ultimately show ?thesis by (simp add: same_mt_def)
qed

lemma same_mt_tasks: "same_mt k k' \<Longrightarrow> same_tasks k k'" by (simp add: same_mt_def)

lemma same_mt_evt: "same_tasks k k' \<Longrightarrow> evt k' = evt k \<Longrightarrow> same_mt k k'"
  by (simp add: same_mt_def same_mutexes_def waiting_def)

lemma evt_same_mt: "evt_same k k' \<Longrightarrow> same_mt k k'"
  by (simp add: evt_same_def same_mt_evt)

lemma sched_same_mt: "sched_eq k k' \<Longrightarrow> same_mt k k'"
  by (simp add: same_mt_evt sched_same_tasks sched_eq_frame)

lemma same_mt_upd_evt [simp]:
  "mutex_part (f (evt k e)) = mutex_part (evt k e) \<Longrightarrow> OSEventWait (f (evt k e)) = OSEventWait (evt k e) \<Longrightarrow>
   same_mt k (upd_evt e f k)"
  by (simp add: same_mt_def same_mutexes_def) (simp add: upd_evt_def waiting_def)

lemma wait_only_mt:
  assumes "wait_only e k k'" "OSEventType (evt k e) \<noteq> OS_EVENT_TYPE_MUTEX \<or> waiting k' e \<subseteq> waiting k e"
  shows "same_mt k k'"
proof -
  have "mutex_part (evt k' i) = mutex_part (evt k i)" for i
    using wait_only_fields [OF assms(1), of i] by (simp add: mutex_part_def)
  moreover have "waiting k' i \<subseteq> waiting k i" if "OSEventType (evt k i) = OS_EVENT_TYPE_MUTEX" for i
    using that assms(2) wait_only_fields(5) [OF assms(1), of i] by (cases "i = e") auto
  ultimately show ?thesis using assms(1) by (simp add: same_mt_def same_mutexes_def wait_only_def)
qed

definition safe :: "kernel \<Rightarrow> kernel option \<Rightarrow> bool" where
  "safe k r \<longleftrightarrow> (\<exists>k'. r = Some k' \<and> kgood k' \<and> same_mt k k')"

lemma safe_Some [simp]: "safe k (Some k') \<longleftrightarrow> kgood k' \<and> same_mt k k'"
  by (simp add: safe_def)

lemma wait_only_tasks: "wait_only e k k' \<Longrightarrow> same_tasks k k'"
  by (simp add: wait_only_def)

lemma kgoodD:
  assumes "kgood k"
  shows "kinv k" "preempt_ok k" "events_ok k" "base_ok k" "e < OS_MAX_EVENTS \<Longrightarrow> waiting k e \<noteq> {} \<Longrightarrow> exhausted k e"
  using assms waiting_exhausted by (auto simp: kgood_def kinv_def)

lemma grp_waiting: "kgood k \<Longrightarrow> e < OS_MAX_EVENTS \<Longrightarrow> Grp (OSEventWait (evt k e)) = 0 \<longleftrightarrow> waiting k e = {}"
  using grp_zero kgoodD(4) by blast

section \<open>Waking tasks up\<close>

lemma rdy_event:
  assumes k: "kinv k" "events_ok k" and e: "e < OS_MAX_EVENTS" and ne: "waiting k e \<noteq> {}"
    and stat: "stat = stat_bit (OSEventType (evt k e))"
  shows "\<exists>prio k'. OS_EventTaskRdy e pmsg stat ps k = Some (prio, k') \<and> kinv k' \<and> events_ok k' \<and> same_mt k k'"
proof -
  obtain k1 where r: "OS_EventTaskRdy e pmsg stat ps k = Some (of_nat (Min (waiting k e)), k1)" "kinv k1" "wait_only e k k1"
    "waiting k1 e = waiting k e - {Min (waiting k e)}"
    using rdy_ok [OF k(1) e ne stat, of pmsg ps] by auto
  have "same_mt k k1" by (rule wait_only_mt [OF r(3)]) (simp add: r(4) Diff_subset)
  then show ?thesis
    using r events_wait_only [OF k(2) r(3)] waiting_exhausted [OF k(2) e ne] by blast
qed

lemma ready_all_event:
  assumes k: "kinv k" "events_ok k" and e: "e < OS_MAX_EVENTS" and stat: "stat = stat_bit (OSEventType (evt k e))"
  shows "\<exists>n' k'. ready_all e pmsg stat ps n k = Some (n', k') \<and> kinv k' \<and> events_ok k' \<and> same_mt k k' \<and>
    waiting k' e = {} \<and> wait_only e k k'"
proof -
  obtain k1 where r: "ready_all e pmsg stat ps n k = Some (n + of_nat (card (waiting k e)), k1)" "kinv k1"
    "wait_only e k k1" "waiting k1 e = {}"
    using ready_all_ok [OF k(1) e stat, of pmsg ps n] by auto
  have "same_mt k k1" by (rule wait_only_mt [OF r(3)]) (simp add: r(4))
  then show ?thesis using r events_wait_only [OF k(2) r(3)] by blast
qed

lemma safe_sched:
  assumes "kinv k1" "events_ok k1" "same_mt k k1"
  shows "safe k (OS_Sched k1)"
proof -
  obtain k' where "OS_Sched k1 = Some k'" "kgood k'" "same_mt k1 k'"
    using kgood_sched [OF assms(1,2)] sched_same_mt by blast
  then show ?thesis using same_mt_trans [OF assms(3)] by simp
qed

lemma safe_map: "safe k r \<Longrightarrow> safe k (map_option snd (do { k' \<leftarrow> r; Some (x, k') }))"
  "safe k r \<Longrightarrow> safe k (map_option (snd \<circ> snd) (do { k' \<leftarrow> r; Some (x, y, k') }))"
  by (auto simp: safe_def)

text \<open>Wake up the waiter of highest priority and reschedule.\<close>

lemma safe_rdy:
  assumes "kgood k" "e < OS_MAX_EVENTS" "waiting k e \<noteq> {}" "stat = stat_bit (OSEventType (evt k e))"
  shows "safe k (do { (prio, k) \<leftarrow> OS_EventTaskRdy e pmsg stat ps k; OS_Sched k })"
proof -
  obtain prio k1 where "OS_EventTaskRdy e pmsg stat ps k = Some (prio, k1)" "kinv k1" "events_ok k1" "same_mt k k1"
    using rdy_event [OF kgoodD(1,3) [OF assms(1)] assms(2-4), of pmsg ps] by blast
  then show ?thesis using safe_sched by simp
qed

lemma safe_all:
  assumes "kgood k" "e < OS_MAX_EVENTS" "stat = stat_bit (OSEventType (evt k e))"
  shows "safe k (do { (n, k) \<leftarrow> ready_all e pmsg stat ps n k; OS_Sched k })"
proof -
  obtain m k1 where "ready_all e pmsg stat ps n k = Some (m, k1)" "kinv k1" "events_ok k1" "same_mt k k1"
    using ready_all_event [OF kgoodD(1,3) [OF assms(1)] assms(2,3), of pmsg ps n] by blast
  then show ?thesis using safe_sched by simp
qed

lemma safe_pend_abort:
  assumes "kgood k" "e < OS_MAX_EVENTS" "stat = stat_bit (OSEventType (evt k e))"
  shows "safe k (map_option (snd \<circ> snd) (pend_abort stat e opt k))"
proof (cases "waiting k e = {}")
  case True
  then show ?thesis using assms grp_waiting by (simp add: pend_abort_def)
next
  case False
  note g = grp_waiting [OF assms(1,2)]
  obtain prio k1 where r: "OS_EventTaskRdy e 0 stat OS_STAT_PEND_ABORT k = Some (prio, k1)" "kinv k1" "events_ok k1"
    "same_mt k k1"
    using rdy_event [OF kgoodD(1,3) [OF assms(1)] assms(2) False assms(3)] by blast
  obtain m k2 where a: "ready_all e 0 stat OS_STAT_PEND_ABORT 0 k = Some (m, k2)" "kinv k2" "events_ok k2"
    "same_mt k k2"
    using ready_all_event [OF kgoodD(1,3) [OF assms(1)] assms(2,3)] by blast
  show ?thesis
    using False g r(1) a(1) safe_sched [OF r(2-4)] safe_sched [OF a(2-4)]
    by (auto simp: pend_abort_def safe_def)
qed

section \<open>Blocking\<close>

text \<open>A task other than the idle task calls, and is not inside another wait.\<close>

definition task_call :: "kernel \<Rightarrow> bool" where
  "task_call k \<longleftrightarrow> OSPrioCur k \<noteq> OS_TASK_IDLE_PRIO \<and> (\<exists>t. OSTCBCur k = TCB t \<and> OSTCBEventPtr (tcb k t) = None)"

lemma safe_pend_block:
  assumes "kgood k" "task_call k" "OSIntNesting k = 0" "OSLockNesting k = 0" "e < OS_MAX_EVENTS"
    "stat = stat_bit (OSEventType (evt k e))" "stat \<noteq> 0" "exhausted k e" "OSEventType (evt k e) \<noteq> OS_EVENT_TYPE_MUTEX"
  shows "safe k (pend_block stat timeout e k)"
proof -
  obtain t where t: "OSTCBCur k = TCB t" "OSTCBEventPtr (tcb k t) = None" using assms(2) by (auto simp: task_call_def)
  obtain k' where k': "pend_block stat timeout e k = Some k'" "kinv k'" "preempt_ok k'" "wait_only e k k'"
    using pend_block_ok [OF kgoodD(1) [OF assms(1)] kgoodD(1,2) [OF assms(1)] assms(3,4) _ t assms(5-7), of timeout] assms(2)
    by (auto simp: task_call_def)
  then show ?thesis
    using events_wait_only [OF kgoodD(3) [OF assms(1)] k'(4)] assms(8) wait_only_mt [OF k'(4)] assms(9)
    by (simp add: kgood_def)
qed

text \<open>The second half: the task that runs is inside a wait on \<open>e\<close>.\<close>

definition in_wait :: "nat \<Rightarrow> kernel \<Rightarrow> bool" where
  "in_wait e k \<longleftrightarrow> unat (OSPrioCur k) \<in> ready k \<and> (\<exists>t. OSTCBCur k = TCB t \<and> OSTCBEventPtr (tcb k t) = Some e)"

lemma safe_pend_finish:
  assumes "kgood k" "e < OS_MAX_EVENTS" "in_wait e k"
  shows "safe k (map_option snd (pend_finish e k))"
proof -
  obtain t where t: "OSTCBCur k = TCB t" "OSTCBEventPtr (tcb k t) = Some e" using assms(3) by (auto simp: in_wait_def)
  obtain r k' where k': "pend_finish e k = Some (r, k')" "kinv k'" "preempt_ok k'" "wait_only e k k'"
    "waiting k' e = waiting k e - {unat (OSPrioCur k)}"
    using pend_finish_ok [OF kgoodD(1,2) [OF assms(1)] assms(2) t] assms(3) by (auto simp: in_wait_def)
  have "exhausted k e" if "waiting k' e \<noteq> {}"
    using that k'(5) kgoodD(5) [OF assms(1,2)] by auto
  then show ?thesis
    using k' events_wait_only [OF kgoodD(3) [OF assms(1)] k'(4)] wait_only_mt [OF k'(4)] by (simp add: kgood_def)
qed

text \<open>Clearing the message of a task touches no invariant.\<close>

lemma kgood_clear_msg:
  assumes "kgood k"
  shows "kgood (upd_tcb t (\<lambda>c. c\<lparr>OSTCBMsg := 0\<rparr>) k) \<and> same_mt k (upd_tcb t (\<lambda>c. c\<lparr>OSTCBMsg := 0\<rparr>) k)"
proof -
  define k1 where "k1 = upd_tcb t (\<lambda>c. c\<lparr>OSTCBMsg := 0\<rparr>) k"
  have f: "OSRdy k1 = OSRdy k" "evt k1 = evt k" "osq k1 = osq k" "OSTCBPrioTbl k1 = OSTCBPrioTbl k"
    "OSTCBCur k1 = OSTCBCur k" "OSPrioCur k1 = OSPrioCur k" "OSEventFreeList k1 = OSEventFreeList k"
    "OSQFreeList k1 = OSQFreeList k" "OSIntNesting k1 = OSIntNesting k" "OSLockNesting k1 = OSLockNesting k"
    by (simp_all add: k1_def upd_tcb_def)
  have t: "OSTCBStat (tcb k1 u) = OSTCBStat (tcb k u)" "OSTCBDly (tcb k1 u) = OSTCBDly (tcb k u)"
    "OSTCBEventPtr (tcb k1 u) = OSTCBEventPtr (tcb k u)" "OSTCBStatPend (tcb k1 u) = OSTCBStatPend (tcb k u)"
    "coords_ok (tcb k1 u) = coords_ok (tcb k u)" "OSTCBPrio (tcb k1 u) = OSTCBPrio (tcb k u)" for u
    by (simp_all add: k1_def upd_tcb_def coords_ok_def)
  have o: "own k1 = own k" by (intro ext) (simp add: own_def f t)
  have r: "ready k1 = ready k" and w: "waiting k1 = waiting k" by (simp_all add: ready_def waiting_def f fun_eq_iff)
  have st: "same_tasks k k1" by (simp add: same_tasks_def k1_def upd_tcb_def)
  have "base_ok k1" using kgoodD(4) [OF assms] by (simp add: base_ok_def o r w f t)
  moreover have "task_ok k1 p u = task_ok k p u" for p u by (rule task_ok_frame) (simp_all add: r w f t)
  then have "stat_ok k1" using kgoodD(1) [OF assms] by (simp add: stat_ok_def o kinv_def)
  ultimately have "kinv k1" using kgoodD(1) [OF assms] by (simp add: kinv_def cur_ok_def f o)
  moreover have "preempt_ok k1" by (rule preempt_frame [OF _ _ _ _ kgoodD(2) [OF assms]]) (simp_all add: f)
  moreover have "events_ok k1" using events_evt_same [OF kgoodD(3) [OF assms]] st by (simp add: evt_same_def f)
  ultimately show ?thesis using same_mt_evt [OF st] f by (simp add: kgood_def flip: k1_def)
qed

lemma safe_pend_finish_msg:
  assumes "kgood k" "e < OS_MAX_EVENTS" "in_wait e k"
  shows "safe k (map_option (snd \<circ> snd) (pend_finish_msg e k))"
proof -
  obtain t where t: "OSTCBCur k = TCB t" using assms(3) by (auto simp: in_wait_def)
  obtain r k' where k': "pend_finish e k = Some (r, k')" "kgood k'" "same_mt k k'"
    using safe_pend_finish [OF assms] by (auto simp: safe_def)
  then show ?thesis
    using t kgood_clear_msg [OF k'(2), of t] same_mt_trans [OF k'(3)] by (simp add: pend_finish_msg_def deref_def)
qed

section \<open>Creating\<close>

lemma bm_clear_empty:
  assumes "bm_ok b" "bm_elems b = {}"
  shows "bm_clear b = b"
proof -
  have t: "Tbl b y = 0" if "y < 8" for y
  proof (rule byte_eqI)
    fix n :: nat assume "n < 8"
    then have "8 * y + n < 64" "(8 * y + n) div 8 = y" "(8 * y + n) mod 8 = n" using that by auto
    then show "bit (Tbl b y) n = bit 0 n" using assms(2) by (auto simp: bm_elems_def)
  qed
  have "Grp b = 0"
  proof (rule byte_eqI)
    fix n :: nat assume "n < 8"
    then show "bit (Grp b) n = bit 0 n" using assms(1) t by (simp add: bm_ok_def)
  qed
  then show ?thesis using t by (intro bitmap.equality) (auto simp: bm_clear_def fun_eq_iff)
qed

text \<open>The control block at the head of the free list, and the list without it.\<close>

lemma free_head:
  assumes "kgood k" "OSEventFreeList k = Some e"
  obtains es where "evt_path (evt k) (next_free (evt k e)) es" "distinct (e # es)" "set (e # es) = unused_events k"
    "e < OS_MAX_EVENTS" "OSEventType (evt k e) = OS_EVENT_TYPE_UNUSED" "waiting k e = {}"
    "bm_clear (OSEventWait (evt k e)) = OSEventWait (evt k e)"
proof -
  obtain es' where es': "evt_path (evt k) (OSEventFreeList k) es'" "distinct es'" "set es' = unused_events k"
    using kgoodD(3) [OF assms(1)] by (auto simp: events_ok_def free_events_ok_def)
  then obtain es where es: "es' = e # es" using assms(2) by (cases es') auto
  have e: "e < OS_MAX_EVENTS" "OSEventType (evt k e) = OS_EVENT_TYPE_UNUSED"
    using es' es by (auto simp: unused_events_def)
  have w: "waiting k e = {}" using kgoodD(5) [OF assms(1) e(1)] e(2) by (auto simp: exhausted_def)
  have "bm_clear (OSEventWait (evt k e)) = OSEventWait (evt k e)"
    using bm_clear_empty baseD(2) [OF kgoodD(4) [OF assms(1)] e(1)] w by (simp add: waiting_def)
  then show ?thesis using that es es' e w assms(2) by auto
qed

text \<open>A new event in the control block \<open>e\<close>; for a queue, \<open>q\<close> is the queue block taken.\<close>

lemma new_event_good:
  assumes k: "kgood k" and fl: "OSEventFreeList k = Some e"
    and ty: "OSEventType v \<noteq> OS_EVENT_TYPE_UNUSED" "OSEventWait v = OSEventWait (evt k e)"
    and k1: "k1 = k\<lparr>OSEventFreeList := next_free (evt k e), evt := (evt k)(e := v), OSQFreeList := qf, osq := Q\<rparr>"
    and q: "if OSEventType v = OS_EVENT_TYPE_Q
      then (\<exists>q. OSQFreeList k = Some q \<and> OSEventPtr v = PQ q \<and> qf = OSQPtr (osq k q) \<and> (\<forall>i. i \<noteq> q \<longrightarrow> Q i = osq k i))
      else qf = OSQFreeList k \<and> Q = osq k"
  shows "kgood k1 \<and> same_tasks k k1"
proof -
  obtain es where es: "evt_path (evt k) (next_free (evt k e)) es" "distinct (e # es)" "set (e # es) = unused_events k"
    and e: "e < OS_MAX_EVENTS" "OSEventType (evt k e) = OS_EVENT_TYPE_UNUSED" "waiting k e = {}"
    using free_head [OF k fl] by metis
  have f: "evt k1 = (evt k)(e := v)" "OSEventFreeList k1 = next_free (evt k e)" "osq k1 = Q" "OSQFreeList k1 = qf"
    by (simp_all add: k1)
  have "kinv k1"
    by (rule kinv_frame [OF _ _ _ _ _ _ _ kgoodD(1) [OF k]]) (use ty e in \<open>auto simp: k1\<close>)
  moreover have "preempt_ok k1" by (rule preempt_frame [OF _ _ _ _ kgoodD(2) [OF k]]) (simp_all add: k1)
  moreover have "free_events_ok k1"
  proof -
    have "evt_path (evt k1) (OSEventFreeList k1) es"
      using es(1,2) by (subst evt_path_frame [of _ _ "evt k"]) (auto simp: f)
    moreover have "set es = unused_events k1" using es(2,3) ty(1) e(1,2) by (auto simp: unused_events_def f)
    ultimately show ?thesis using es(2) by (auto simp: free_events_ok_def)
  qed
  moreover have "queues_ok k1"
  proof -
    have qe: "queue_events k1 = (if OSEventType v = OS_EVENT_TYPE_Q then insert e (queue_events k) else queue_events k)"
      "e \<notin> queue_events k" using e by (auto simp: queue_events_def f)
    then have ptr: "OSEventPtr (evt k1 i) = OSEventPtr (evt k i)" if "i \<in> queue_events k" for i
      using that by (auto simp: f)
    obtain qs where qs: "q_path (osq k) (OSQFreeList k) qs" "distinct qs"
      "set qs = {q. q < OS_MAX_QS \<and> (\<forall>e \<in> queue_events k. OSEventPtr (evt k e) \<noteq> PQ q)}"
      using kgoodD(3) [OF k] by (auto simp: events_ok_def queues_ok_def)
    have old: "\<forall>i \<in> queue_events k. \<exists>q < OS_MAX_QS. OSEventPtr (evt k i) = PQ q"
      "\<forall>i \<in> queue_events k. \<forall>j \<in> queue_events k. OSEventPtr (evt k i) = OSEventPtr (evt k j) \<longrightarrow> i = j"
      using kgoodD(3) [OF k] by (auto simp: events_ok_def queues_ok_def)
    show ?thesis
    proof (cases "OSEventType v = OS_EVENT_TYPE_Q")
      case False
      then have "qf = OSQFreeList k" "Q = osq k" using q by auto
      then show ?thesis using qs old ptr False by (auto simp: queues_ok_def qe f intro!: exI [of _ qs])
    next
      case True
      then obtain q where q: "OSQFreeList k = Some q" "OSEventPtr v = PQ q" "qf = OSQPtr (osq k q)"
        "\<forall>i. i \<noteq> q \<longrightarrow> Q i = osq k i" using q by auto
      then obtain qs' where qs': "qs = q # qs'" using qs(1) by (cases qs) auto
      have nq: "q < OS_MAX_QS" "\<And>i. i \<in> queue_events k \<Longrightarrow> OSEventPtr (evt k i) \<noteq> PQ q"
        using qs(3) qs' by auto
      have ev: "OSEventPtr (evt k1 e) = PQ q" using q(2) by (simp add: f)
      have "q_path (osq k1) (OSQFreeList k1) qs'"
        using qs(1,2) qs' q by (subst q_path_frame [of _ _ "osq k"]) (auto simp: f)
      moreover have "set qs' = {q. q < OS_MAX_QS \<and> (\<forall>e \<in> queue_events k1. OSEventPtr (evt k1 e) \<noteq> PQ q)}"
      proof -
        have "set qs' = set qs - {q}" using qs(2) qs' by auto
        then show ?thesis unfolding qs(3) using ptr ev True by (auto simp: qe(1))
      qed
      moreover have "\<forall>i \<in> queue_events k1. \<exists>q < OS_MAX_QS. OSEventPtr (evt k1 i) = PQ q"
        using old(1) nq(1) ptr ev True by (auto simp: qe(1))
      moreover have "\<forall>i \<in> queue_events k1. \<forall>j \<in> queue_events k1. OSEventPtr (evt k1 i) = OSEventPtr (evt k1 j) \<longrightarrow> i = j"
        using old(2) nq(2) ptr ev True by (auto simp: qe(1) dest: sym)
      ultimately show ?thesis using qs(2) qs' unfolding queues_ok_def by auto
    qed
  qed
  moreover have "waits_ok k1"
    unfolding waits_ok_def
  proof (intro allI impI)
    fix i assume i: "i < OS_MAX_EVENTS" "waiting k1 i \<noteq> {}"
    then have ie: "i \<noteq> e" using e(3) ty(2) by (auto simp: waiting_def f)
    then have ex: "exhausted k i" using i kgoodD(5) [OF k i(1)] by (simp add: waiting_def f)
    show "exhausted k1 i"
    proof (cases "OSEventType (evt k i) = OS_EVENT_TYPE_Q")
      case False
      then show ?thesis using ex ie by (cases "OSEventType (evt k i)") (simp_all add: exhausted_def f)
    next
      case True
      then have qi: "i \<in> queue_events k" using i(1) by (simp add: queue_events_def)
      have "Q j = osq k j" if "OSEventPtr (evt k i) = PQ j" for j
      proof (cases "OSEventType v = OS_EVENT_TYPE_Q")
        case True
        then obtain q where q: "OSQFreeList k = Some q" "\<forall>i. i \<noteq> q \<longrightarrow> Q i = osq k i" using q by auto
        obtain qs where "q_path (osq k) (OSQFreeList k) qs"
          "set qs = {q. q < OS_MAX_QS \<and> (\<forall>e \<in> queue_events k. OSEventPtr (evt k e) \<noteq> PQ q)}"
          using kgoodD(3) [OF k] by (auto simp: events_ok_def queues_ok_def)
        then have "q \<in> {q. q < OS_MAX_QS \<and> (\<forall>e \<in> queue_events k. OSEventPtr (evt k e) \<noteq> PQ q)}"
          using q(1) by (cases qs) auto
        then have "j \<noteq> q" using that qi by auto
        then show ?thesis using q(2) by simp
      qed (use q in auto)
      then show ?thesis using ex ie True by (simp add: exhausted_def f)
    qed
  qed
  ultimately show ?thesis by (simp add: kgood_def events_ok_def same_tasks_def k1)
qed

lemma new_event_mt:
  assumes "same_tasks k k1" "evt k1 = (evt k)(e := v)" "OSEventWait v = OSEventWait (evt k e)"
    "OSEventType v \<noteq> OS_EVENT_TYPE_MUTEX" "OSEventType (evt k e) \<noteq> OS_EVENT_TYPE_MUTEX"
  shows "same_mt k k1"
  using assms unfolding same_mt_def same_mutexes_def by (auto simp: waiting_def)

section \<open>Deleting\<close>

text \<open>The control block \<open>e\<close>, which no task waits for, goes back to the free list, and so does its queue.\<close>

lemma free_event_good:
  assumes k: "kinv k" "events_ok k" and e: "e < OS_MAX_EVENTS" "OSEventType (evt k e) \<noteq> OS_EVENT_TYPE_UNUSED"
      "waiting k e = {}"
    and q: "if OSEventType (evt k e) = OS_EVENT_TYPE_Q
      then (\<exists>q. OSEventPtr (evt k e) = PQ q \<and> qf = Some q \<and> Q = (osq k)(q := (osq k q)\<lparr>OSQPtr := OSQFreeList k\<rparr>))
      else qf = OSQFreeList k \<and> Q = osq k"
  defines "k1 \<equiv> free_event e (k\<lparr>osq := Q, OSQFreeList := qf\<rparr>)"
  shows "kinv k1 \<and> events_ok k1 \<and> same_tasks k k1 \<and> (preempt_ok k \<longrightarrow> preempt_ok k1)"
proof -
  obtain es where es: "evt_path (evt k) (OSEventFreeList k) es" "distinct es" "set es = unused_events k"
    using k(2) by (auto simp: events_ok_def free_events_ok_def)
  have ne: "e \<notin> set es" using es(3) e(2) by (simp add: unused_events_def)
  define v where "v = (evt k e)\<lparr>OSEventName := ''?'', OSEventType := OS_EVENT_TYPE_UNUSED,
    OSEventPtr := (case OSEventFreeList k of None \<Rightarrow> PNull | Some n \<Rightarrow> PEvent n), OSEventCnt := 0\<rparr>"
  have f: "evt k1 = (evt k)(e := v)" "OSEventFreeList k1 = Some e" "osq k1 = Q" "OSQFreeList k1 = qf"
    "OSRdy k1 = OSRdy k" "tcb k1 = tcb k" "OSPrioCur k1 = OSPrioCur k"
    by (simp_all add: k1_def free_event_def upd_evt_def v_def)
  have w: "waiting k1 = waiting k" by (auto simp: waiting_def f v_def fun_eq_iff)
  have "kinv k1"
    by (rule kinv_frame [OF _ _ _ _ _ _ _ k(1)]) (use e in \<open>auto simp: k1_def free_event_def upd_evt_def\<close>)
  moreover have "preempt_ok k \<longrightarrow> preempt_ok k1"
    using preempt_frame [of k1 k] by (auto simp: k1_def free_event_def upd_evt_def)
  moreover have "same_tasks k k1" by (simp add: same_tasks_def k1_def free_event_def upd_evt_def)
  moreover have "free_events_ok k1"
  proof -
    have "next_free v = OSEventFreeList k" by (simp add: next_free_def v_def split: option.split)
    then have "evt_path (evt k1) (Some e) (e # es)"
      using es(1) ne by (simp add: f) (subst evt_path_frame [of _ _ "evt k"], auto)
    moreover have "set (e # es) = unused_events k1" using es(3) e(1) by (auto simp: unused_events_def f v_def)
    ultimately show ?thesis using es(2) ne f(2) unfolding free_events_ok_def by (metis distinct.simps(2))
  qed
  moreover have "queues_ok k1"
  proof -
    have qe: "queue_events k1 = queue_events k - {e}" by (auto simp: queue_events_def f v_def)
    then have ptr: "OSEventPtr (evt k1 i) = OSEventPtr (evt k i)" if "i \<in> queue_events k - {e}" for i
      using that by (auto simp: f)
    obtain qs where qs: "q_path (osq k) (OSQFreeList k) qs" "distinct qs"
      "set qs = {q. q < OS_MAX_QS \<and> (\<forall>e \<in> queue_events k. OSEventPtr (evt k e) \<noteq> PQ q)}"
      using k(2) by (auto simp: events_ok_def queues_ok_def)
    have old: "\<forall>i \<in> queue_events k. \<exists>q < OS_MAX_QS. OSEventPtr (evt k i) = PQ q"
      "\<forall>i \<in> queue_events k. \<forall>j \<in> queue_events k. OSEventPtr (evt k i) = OSEventPtr (evt k j) \<longrightarrow> i = j"
      using k(2) by (auto simp: events_ok_def queues_ok_def)
    show ?thesis
    proof (cases "OSEventType (evt k e) = OS_EVENT_TYPE_Q")
      case False
      then have "e \<notin> queue_events k" by (simp add: queue_events_def)
      then have "queue_events k - {e} = queue_events k" by blast
      moreover have "qf = OSQFreeList k" "Q = osq k" using q False by auto
      ultimately show ?thesis using qs old ptr by (auto simp: queues_ok_def qe f intro!: exI [of _ qs])
    next
      case True
      then obtain q where q: "OSEventPtr (evt k e) = PQ q" "qf = Some q"
        "Q = (osq k)(q := (osq k q)\<lparr>OSQPtr := OSQFreeList k\<rparr>)" using q by auto
      have ein: "e \<in> queue_events k" using True e(1) by (simp add: queue_events_def)
      have nq: "q \<notin> set qs" "q < OS_MAX_QS" using qs(3) ein q(1) old(1) by auto
      have "q_path (osq k1) (OSQFreeList k1) (q # qs)"
        using qs(1) nq(1) by (simp add: f q) (subst q_path_frame [of _ _ "osq k"], auto)
      moreover have "set (q # qs) = {q. q < OS_MAX_QS \<and> (\<forall>e \<in> queue_events k1. OSEventPtr (evt k1 e) \<noteq> PQ q)}"
      proof -
        have other: "OSEventPtr (evt k i) \<noteq> PQ q" if "i \<in> queue_events k - {e}" for i
          using that old(2) ein q(1) by auto
        have "(\<forall>i \<in> queue_events k1. OSEventPtr (evt k1 i) \<noteq> PQ r) \<longleftrightarrow>
            r = q \<or> (\<forall>i \<in> queue_events k. OSEventPtr (evt k i) \<noteq> PQ r)" for r
          unfolding qe using ptr other q(1) ein by (cases "r = q") auto
        then show ?thesis using qs(3) nq by auto
      qed
      moreover have "\<forall>i \<in> queue_events k1. \<exists>q < OS_MAX_QS. OSEventPtr (evt k1 i) = PQ q"
        using old(1) ptr by (auto simp: qe)
      moreover have "\<forall>i \<in> queue_events k1. \<forall>j \<in> queue_events k1. OSEventPtr (evt k1 i) = OSEventPtr (evt k1 j) \<longrightarrow> i = j"
        using old(2) ptr by (auto simp: qe)
      moreover have "distinct (q # qs)" using qs(2) nq(1) by simp
      ultimately show ?thesis unfolding queues_ok_def by blast
    qed
  qed
  moreover have "waits_ok k1"
    unfolding waits_ok_def
  proof (intro allI impI)
    fix i assume i: "i < OS_MAX_EVENTS" "waiting k1 i \<noteq> {}"
    then have ie: "i \<noteq> e" and ex: "exhausted k i"
      using e(3) waiting_exhausted [OF k(2) i(1)] by (auto simp: w)
    have "OSQEntries (Q j) = OSQEntries (osq k j)" for j
      using q by (auto split: if_splits)
    then show "exhausted k1 i" using ex ie exhausted_frame [of k1 i k] by (simp add: f)
  qed
  ultimately show ?thesis by (simp add: events_ok_def)
qed

text \<open>The delete services for semaphores and mailboxes, and for queues.\<close>

definition released :: "(kernel \<Rightarrow> kernel option) \<Rightarrow> nat \<Rightarrow> kernel \<Rightarrow> bool" where
  "released release e k \<longleftrightarrow> (\<exists>k1. release k = Some k1 \<and> kinv (free_event e k1) \<and> events_ok (free_event e k1) \<and>
     same_mt k (free_event e k1) \<and> (preempt_ok k \<longrightarrow> preempt_ok (free_event e k1)))"

lemma free_event_mt:
  assumes "same_tasks k (free_event e k1)" "evt k1 = evt k" "OSEventType (evt k e) \<noteq> OS_EVENT_TYPE_MUTEX"
  shows "same_mt k (free_event e k1)"
  using assms(1) unfolding same_mt_def same_mutexes_def
  by (auto simp: free_event_def upd_evt_def waiting_def assms(2,3))

lemma released_plain:
  assumes "kinv k" "events_ok k" "e < OS_MAX_EVENTS" "waiting k e = {}"
    "OSEventType (evt k e) \<noteq> OS_EVENT_TYPE_UNUSED" "OSEventType (evt k e) \<noteq> OS_EVENT_TYPE_Q"
    "OSEventType (evt k e) \<noteq> OS_EVENT_TYPE_MUTEX"
  shows "released Some e k"
proof -
  have "k\<lparr>osq := osq k, OSQFreeList := OSQFreeList k\<rparr> = k" by simp
  then show ?thesis
    using free_event_good [OF assms(1-3,5,4), of "OSQFreeList k" "osq k"] assms(6,7) free_event_mt [of k e k]
    by (simp add: released_def)
qed

lemma released_q:
  assumes k: "kinv k" "events_ok k" "e < OS_MAX_EVENTS" "waiting k e = {}"
    and t: "OSEventType (evt k e) = OS_EVENT_TYPE_Q"
  shows "released (q_release e) e k"
proof -
  have "e \<in> queue_events k" using assms(3) t by (simp add: queue_events_def)
  then obtain q where q: "OSEventPtr (evt k e) = PQ q"
    using k(2) by (auto simp: events_ok_def queues_ok_def)
  define Q where "Q = (osq k)(q := (osq k q)\<lparr>OSQPtr := OSQFreeList k\<rparr>)"
  have "q_release e k = Some (k\<lparr>osq := Q, OSQFreeList := Some q\<rparr>)"
  proof -
    have "k\<lparr>osq := Q, OSQFreeList := Some q\<rparr> = k\<lparr>OSQFreeList := Some q, osq := Q\<rparr>"
      by (rule kernel.equality) simp_all
    then show ?thesis by (simp add: q_release_def queue_of_def q upd_q_def Q_def)
  qed
  then show ?thesis
    using free_event_good [OF k(1-3) _ k(4), of "Some q" Q] t q
      free_event_mt [of k e "k\<lparr>osq := Q, OSQFreeList := Some q\<rparr>"] by (simp add: released_def Q_def)
qed

lemma safe_del_event:
  assumes k: "kgood k" and e: "e < OS_MAX_EVENTS" and stat: "stat = stat_bit (OSEventType (evt k e))"
    and rel: "\<And>k1. kinv k1 \<Longrightarrow> events_ok k1 \<Longrightarrow> waiting k1 e = {} \<Longrightarrow>
      OSEventType (evt k1 e) = OSEventType (evt k e) \<Longrightarrow> released release e k1"
  shows "safe k (map_option (snd \<circ> snd) (del_event stat release e opt k))"
proof -
  note g = grp_waiting [OF k e]
  consider (none) "opt = OS_DEL_NO_PEND" "waiting k e = {}" | (always) "opt = OS_DEL_ALWAYS"
    | (other) "opt \<noteq> OS_DEL_ALWAYS" "opt \<noteq> OS_DEL_NO_PEND \<or> waiting k e \<noteq> {}" by blast
  then show ?thesis
  proof cases
    case none
    then show ?thesis
      using rel [OF kgoodD(1,3) [OF k]] g kgoodD(2) [OF k]
      by (auto simp: released_def del_event_def safe_def kgood_def)
  next
    case always
    obtain n k1 where r: "ready_all e 0 stat OS_STAT_PEND_ABORT 0 k = Some (n, k1)" "kinv k1" "events_ok k1"
      "same_mt k k1" "waiting k1 e = {}" "wait_only e k k1"
      using ready_all_event [OF kgoodD(1,3) [OF k] e stat] by blast
    have t1: "OSEventType (evt k1 e) = OSEventType (evt k e)" using wait_only_fields(1) [OF r(6)] .
    obtain k2 where k2: "release k1 = Some k2" "kinv (free_event e k2)" "events_ok (free_event e k2)"
      "same_mt k1 (free_event e k2)" "preempt_ok k1 \<longrightarrow> preempt_ok (free_event e k2)"
      using rel [OF r(2,3,5) t1] by (auto simp: released_def)
    have st: "same_mt k (free_event e k2)" using same_mt_trans [OF r(4) k2(4)] .
    have d: "del_event stat release e opt k =
      do { k \<leftarrow> (if waiting k e \<noteq> {} then OS_Sched (free_event e k2) else Some (free_event e k2));
           Some (None, OS_ERR_NONE, k) }"
      using always r(1) k2(1) g by (simp add: del_event_def OS_DEL_NO_PEND_def OS_DEL_ALWAYS_def Let_def)
    show ?thesis
    proof (cases "waiting k e = {}")
      case True
      have "ready_all e 0 stat OS_STAT_PEND_ABORT 0 k = Some (0, k)"
        using g True by (subst ready_all.simps) simp
      then have "k1 = k" using r(1) by simp
      then show ?thesis using d True k2 st kgoodD(2) [OF k] by (simp add: kgood_def)
    next
      case False
      then show ?thesis using d safe_sched [OF k2(2,3) st] by (auto simp: safe_def)
    qed
  next
    case other
    have "OS_DEL_ALWAYS \<noteq> OS_DEL_NO_PEND" by (simp add: OS_DEL_NO_PEND_def OS_DEL_ALWAYS_def)
    then show ?thesis using other k g by (auto simp: del_event_def Let_def)
  qed
qed

end
