(* ===== verification/Kernel_Safe.thy ===== *)
theory Kernel_Safe
  imports Kernel_Services
begin

text \<open>
  One lemma per service: called in a good state it returns to a good state, with the same tasks. The
  services of a semaphore, a mailbox and a queue are instances of the lemmas of \<open>Kernel_Services\<close>.
\<close>

lemma word_pos [simp]: "(0 < (w :: 'a :: len word)) = (w \<noteq> 0)"
  by (simp add: word_neq_0_conv)

lemma not_waiting: "kgood k \<Longrightarrow> e < OS_MAX_EVENTS \<Longrightarrow> \<not> exhausted k e \<Longrightarrow> waiting k e = {}"
  using kgoodD(5) by blast

section \<open>Semaphores\<close>

lemma exhausted_sem: "OSEventType (evt k e) = OS_EVENT_TYPE_SEM \<Longrightarrow> exhausted k e \<longleftrightarrow> OSEventCnt (evt k e) = 0"
  by (simp add: exhausted_def)

lemma kgood_sem_cnt:
  assumes "kgood k" "e < OS_MAX_EVENTS" "OSEventType (evt k e) = OS_EVENT_TYPE_SEM" "waiting k e = {}"
  shows "kgood (upd_evt e (\<lambda>v. v\<lparr>OSEventCnt := f v\<rparr>) k)"
  by (rule kgood_upd_evt [OF assms(1)]) (use assms in auto)

lemma OSSemAccept_safe:
  assumes "kgood k" "e < OS_MAX_EVENTS"
  shows "safe k (Some (snd (OSSemAccept e k)))"
  using assms kgood_sem_cnt [OF assms] not_waiting [OF assms] exhausted_sem [of k e]
  by (auto simp: OSSemAccept_def Let_def)

lemma OSSemSet_safe:
  assumes "kgood k" "e < OS_MAX_EVENTS"
  shows "safe k (Some (snd (OSSemSet e cnt k)))"
  using assms kgood_sem_cnt [OF assms] not_waiting [OF assms] exhausted_sem [of k e] grp_waiting [OF assms]
  by (auto simp: OSSemSet_def)

lemma OSSemPost_safe:
  assumes "kgood k" "e < OS_MAX_EVENTS"
  shows "safe k (map_option snd (OSSemPost e k))"
proof (cases "OSEventType (evt k e) = OS_EVENT_TYPE_SEM \<and> waiting k e \<noteq> {}")
  case True
  then have "safe k (do { (prio, k) \<leftarrow> OS_EventTaskRdy e 0 OS_STAT_SEM OS_STAT_PEND_OK k; OS_Sched k })"
    using assms by (intro safe_rdy) (simp_all add: stat_bit_def)
  then show ?thesis
    using True grp_waiting [OF assms] by (auto simp: OSSemPost_def safe_def bind_eq_Some_conv split: prod.splits)
next
  case False
  then show ?thesis
    using assms grp_waiting [OF assms] kgood_sem_cnt [OF assms] by (auto simp: OSSemPost_def)
qed

lemma OSSemPend_safe:
  assumes "kgood k" "e < OS_MAX_EVENTS" "task_call k"
  shows "safe k (map_option snd (OSSemPend e timeout k))"
proof (cases "OSEventType (evt k e) = OS_EVENT_TYPE_SEM \<and> OSIntNesting k = 0 \<and> OSLockNesting k = 0 \<and>
    OSEventCnt (evt k e) = 0")
  case True
  then have "safe k (pend_block OS_STAT_SEM timeout e k)"
    using assms by (intro safe_pend_block) (simp_all add: stat_bit_def exhausted_sem)
  then show ?thesis using True by (auto simp: OSSemPend_def safe_def)
next
  case False
  then show ?thesis
    using assms kgood_sem_cnt [OF assms(1,2)] not_waiting [OF assms(1,2)] exhausted_sem [of k e]
    by (auto simp: OSSemPend_def)
qed

lemma OSSemPendAbort_safe:
  assumes "kgood k" "e < OS_MAX_EVENTS"
  shows "safe k (map_option (snd \<circ> snd) (OSSemPendAbort e opt k))"
proof (cases "OSEventType (evt k e) = OS_EVENT_TYPE_SEM")
  case True
  then show ?thesis using safe_pend_abort [OF assms] by (simp add: OSSemPendAbort_def stat_bit_def)
qed (use assms in \<open>simp add: OSSemPendAbort_def\<close>)

lemma OSSemDel_safe:
  assumes "kgood k" "e < OS_MAX_EVENTS"
  shows "safe k (map_option (snd \<circ> snd) (OSSemDel e opt k))"
proof (cases "OSEventType (evt k e) = OS_EVENT_TYPE_SEM \<and> OSIntNesting k = 0")
  case True
  then have "safe k (map_option (snd \<circ> snd) (del_event OS_STAT_SEM Some e opt k))"
    using assms by (intro safe_del_event released_plain) (simp_all add: stat_bit_def)
  then show ?thesis using True by (simp add: OSSemDel_def)
qed (use assms in \<open>auto simp: OSSemDel_def\<close>)

text \<open>Creating an event that is not a queue: the head of the free list becomes it.\<close>

lemma alloc_event_eq:
  "alloc_event k = (case OSEventFreeList k of None \<Rightarrow> (None, k)
     | Some e \<Rightarrow> (Some e, k\<lparr>OSEventFreeList := next_free (evt k e)\<rparr>))"
  by (simp add: alloc_event_def next_free_def split: option.split)

lemma kgood_create:
  assumes "kgood k" "OSEventFreeList k = Some e"
    and f: "\<And>v. OSEventType (f v) \<notin> {OS_EVENT_TYPE_UNUSED, OS_EVENT_TYPE_Q}" "\<And>v. OSEventWait (f v) = OSEventWait v"
  defines "k1 \<equiv> OS_EventWaitListInit e (upd_evt e f (k\<lparr>OSEventFreeList := next_free (evt k e)\<rparr>))"
  shows "kgood k1 \<and> same_tasks k k1"
proof (rule new_event_good [OF assms(1,2)])
  have "bm_clear (OSEventWait (evt k e)) = OSEventWait (evt k e)" by (rule free_head [OF assms(1,2)])
  then have w: "(f (evt k e))\<lparr>OSEventWait := bm_clear (OSEventWait (f (evt k e)))\<rparr> = f (evt k e)" by (simp add: f)
  show "k1 = k\<lparr>OSEventFreeList := next_free (evt k e), evt := (evt k)(e := f (evt k e)),
      OSQFreeList := OSQFreeList k, osq := osq k\<rparr>"
    by (rule kernel.equality) (simp_all add: k1_def OS_EventWaitListInit_def upd_evt_def w)
qed (use f in auto)

lemma safe_create:
  assumes "kgood k" "OSEventFreeList k = Some e"
    and f: "\<And>v. OSEventType (f v) \<notin> {OS_EVENT_TYPE_UNUSED, OS_EVENT_TYPE_Q, OS_EVENT_TYPE_MUTEX}"
      "\<And>v. OSEventWait (f v) = OSEventWait v"
  shows "safe k (Some (OS_EventWaitListInit e (upd_evt e f (k\<lparr>OSEventFreeList := next_free (evt k e)\<rparr>))))"
proof -
  define k1 where "k1 = OS_EventWaitListInit e (upd_evt e f (k\<lparr>OSEventFreeList := next_free (evt k e)\<rparr>))"
  have c: "bm_clear (OSEventWait (evt k e)) = OSEventWait (evt k e)" by (rule free_head [OF assms(1,2)])
  have u: "OSEventType (evt k e) = OS_EVENT_TYPE_UNUSED" by (rule free_head [OF assms(1,2)])
  have w: "(f (evt k e))\<lparr>OSEventWait := bm_clear (OSEventWait (f (evt k e)))\<rparr> = f (evt k e)" using c by (simp add: f(2))
  then have "evt k1 = (evt k)(e := f (evt k e))"
    by (simp add: k1_def OS_EventWaitListInit_def upd_evt_def)
  moreover have k1: "kgood k1 \<and> same_tasks k k1"
    unfolding k1_def by (rule kgood_create [OF assms(1,2)]) (use f in auto)
  ultimately have "same_mt k k1" using f u by (intro new_event_mt [where v = "f (evt k e)" and e = e]) auto
  then show ?thesis using k1 by (simp add: k1_def)
qed

lemma OSSemCreate_safe:
  assumes "kgood k"
  shows "safe k (Some (snd (OSSemCreate cnt k)))"
proof (cases "OSIntNesting k = 0 \<and> OSEventFreeList k \<noteq> None")
  case True
  then obtain e where e: "OSEventFreeList k = Some e" by auto
  show ?thesis
    using True e by (simp add: OSSemCreate_def alloc_event_eq del: safe_Some) (rule safe_create [OF assms e]; simp)
qed (use assms in \<open>auto simp: OSSemCreate_def alloc_event_eq\<close>)

section \<open>Mailboxes\<close>

lemma exhausted_mbox: "OSEventType (evt k e) = OS_EVENT_TYPE_MBOX \<Longrightarrow> exhausted k e \<longleftrightarrow> OSEventPtr (evt k e) = PNull"
  by (simp add: exhausted_def)

lemma kgood_mbox_ptr:
  assumes "kgood k" "e < OS_MAX_EVENTS" "OSEventType (evt k e) = OS_EVENT_TYPE_MBOX"
    "waiting k e = {} \<or> m = PNull"
  shows "kgood (upd_evt e (\<lambda>v. v\<lparr>OSEventPtr := m\<rparr>) k)"
  by (rule kgood_upd_evt [OF assms(1)]) (use assms in \<open>auto simp: exhausted_def upd_evt_def\<close>)

lemma OSMboxAccept_safe:
  "kgood k \<Longrightarrow> e < OS_MAX_EVENTS \<Longrightarrow> safe k (Some (snd (OSMboxAccept e k)))"
  using kgood_mbox_ptr [of k e PNull] by (auto simp: OSMboxAccept_def)

lemma OSMboxCreate_safe:
  assumes "kgood k"
  shows "safe k (Some (snd (OSMboxCreate pmsg k)))"
proof (cases "OSIntNesting k = 0 \<and> OSEventFreeList k \<noteq> None")
  case True
  then obtain e where e: "OSEventFreeList k = Some e" by auto
  show ?thesis
    using True e by (simp add: OSMboxCreate_def alloc_event_eq del: safe_Some) (rule safe_create [OF assms e]; simp)
qed (use assms in \<open>auto simp: OSMboxCreate_def alloc_event_eq\<close>)

lemma OSMboxDel_safe:
  assumes "kgood k" "e < OS_MAX_EVENTS"
  shows "safe k (map_option (snd \<circ> snd) (OSMboxDel e opt k))"
proof (cases "OSEventType (evt k e) = OS_EVENT_TYPE_MBOX \<and> OSIntNesting k = 0")
  case True
  then have "safe k (map_option (snd \<circ> snd) (del_event OS_STAT_MBOX Some e opt k))"
    using assms by (intro safe_del_event released_plain) (simp_all add: stat_bit_def)
  then show ?thesis using True by (simp add: OSMboxDel_def)
qed (use assms in \<open>auto simp: OSMboxDel_def\<close>)

lemma OSMboxPend_safe:
  assumes "kgood k" "e < OS_MAX_EVENTS" "task_call k"
  shows "safe k (map_option snd (OSMboxPend e timeout k))"
proof (cases "OSEventType (evt k e) = OS_EVENT_TYPE_MBOX \<and> OSIntNesting k = 0 \<and> OSLockNesting k = 0 \<and>
    OSEventPtr (evt k e) = PNull")
  case True
  then have "safe k (pend_block OS_STAT_MBOX timeout e k)"
    using assms by (intro safe_pend_block) (simp_all add: stat_bit_def exhausted_mbox)
  then show ?thesis using True by (auto simp: OSMboxPend_def safe_def)
next
  case False
  then show ?thesis
    using assms kgood_mbox_ptr [OF assms(1,2)] by (auto simp: OSMboxPend_def)
qed

lemma OSMboxPendAbort_safe:
  assumes "kgood k" "e < OS_MAX_EVENTS"
  shows "safe k (map_option (snd \<circ> snd) (OSMboxPendAbort e opt k))"
proof (cases "OSEventType (evt k e) = OS_EVENT_TYPE_MBOX")
  case True
  then show ?thesis using safe_pend_abort [OF assms] by (simp add: OSMboxPendAbort_def stat_bit_def)
qed (use assms in \<open>simp add: OSMboxPendAbort_def\<close>)

lemma OSMboxPost_safe:
  assumes "kgood k" "e < OS_MAX_EVENTS"
  shows "safe k (map_option snd (OSMboxPost e pmsg k))"
proof (cases "OSEventType (evt k e) = OS_EVENT_TYPE_MBOX \<and> waiting k e \<noteq> {}")
  case True
  then have "safe k (do { (prio, k) \<leftarrow> OS_EventTaskRdy e pmsg OS_STAT_MBOX OS_STAT_PEND_OK k; OS_Sched k })"
    using assms by (intro safe_rdy) (simp_all add: stat_bit_def)
  then show ?thesis
    using True grp_waiting [OF assms] by (auto simp: OSMboxPost_def safe_def bind_eq_Some_conv split: prod.splits)
next
  case False
  then show ?thesis
    using assms grp_waiting [OF assms] kgood_mbox_ptr [OF assms] by (auto simp: OSMboxPost_def)
qed

text \<open>Posting with options; without \<open>OS_POST_OPT_NO_SCHED\<close> the scheduler runs at the end.\<close>

lemma safe_post_opt:
  assumes "kgood k" "e < OS_MAX_EVENTS" "waiting k e \<noteq> {}" "stat = stat_bit (OSEventType (evt k e))"
    "opt AND OS_POST_OPT_NO_SCHED = 0"
  shows "safe k (map_option snd (post_opt_waiters stat e pmsg opt k))"
proof (cases "opt AND OS_POST_OPT_BROADCAST = 0")
  case True
  then show ?thesis
    using safe_rdy [OF assms(1-4), where pmsg = pmsg and ps = OS_STAT_PEND_OK] assms(5)
    by (auto simp: post_opt_waiters_def safe_def bind_eq_Some_conv)
next
  case False
  then show ?thesis
    using safe_all [OF assms(1,2,4), where n = 0 and pmsg = pmsg and ps = OS_STAT_PEND_OK] assms(5)
    by (auto simp: post_opt_waiters_def safe_def bind_eq_Some_conv)
qed

lemma OSMboxPostOpt_safe:
  assumes "kgood k" "e < OS_MAX_EVENTS" "opt AND OS_POST_OPT_NO_SCHED = 0"
  shows "safe k (map_option snd (OSMboxPostOpt e pmsg opt k))"
proof (cases "OSEventType (evt k e) = OS_EVENT_TYPE_MBOX \<and> waiting k e \<noteq> {}")
  case True
  then show ?thesis
    using safe_post_opt [OF assms(1,2) _ _ assms(3)] grp_waiting [OF assms(1,2)]
    by (simp add: OSMboxPostOpt_def stat_bit_def)
next
  case False
  then show ?thesis
    using assms grp_waiting [OF assms(1,2)] kgood_mbox_ptr [OF assms(1,2)] by (auto simp: OSMboxPostOpt_def)
qed

section \<open>Message queues\<close>

lemma queue_of_Q:
  assumes "kgood k" "e < OS_MAX_EVENTS" "OSEventType (evt k e) = OS_EVENT_TYPE_Q"
  obtains q where "queue_of e k = Some q" "OSEventPtr (evt k e) = PQ q" "q < OS_MAX_QS"
    "exhausted k e \<longleftrightarrow> OSQEntries (osq k q) = 0"
proof -
  have "e \<in> queue_events k" using assms(2,3) by (simp add: queue_events_def)
  then obtain q where "q < OS_MAX_QS" "OSEventPtr (evt k e) = PQ q"
    using kgoodD(3) [OF assms(1)] by (auto simp: events_ok_def queues_ok_def)
  then show ?thesis using that assms(3) by (simp add: queue_of_def exhausted_def)
qed

text \<open>A change of the queue of the event \<open>e\<close>, when no task waits or nothing is left in it.\<close>

lemma kgood_upd_q:
  assumes k: "kgood k" and e: "e < OS_MAX_EVENTS" "OSEventType (evt k e) = OS_EVENT_TYPE_Q"
    and q: "OSEventPtr (evt k e) = PQ q" and w: "waiting k e = {} \<or> OSQEntries p = 0"
    and p: "OSQPtr p = OSQPtr (osq k q)"
    and k1: "k1 = k\<lparr>osq := (osq k)(q := p), qcells := C\<rparr>"
  shows "kgood k1 \<and> same_mt k k1"
proof -
  have f: "evt k1 = evt k" "osq k1 = (osq k)(q := p)" by (simp_all add: k1)
  have wt: "waiting k1 = waiting k" by (simp add: waiting_def f fun_eq_iff)
  have "kinv k1" by (rule kinv_frame [OF _ _ _ _ _ _ _ kgoodD(1) [OF k]]) (simp_all add: k1)
  moreover have "preempt_ok k1" by (rule preempt_frame [OF _ _ _ _ kgoodD(2) [OF k]]) (simp_all add: k1)
  moreover have "events_ok k1"
  proof (rule events_ok_frame [OF kgoodD(3) [OF k]])
    show "exhausted k1 i" if i: "i < OS_MAX_EVENTS" "waiting k1 i \<noteq> {}" for i
    proof (cases "OSEventType (evt k i) = OS_EVENT_TYPE_Q")
      case False
      then show ?thesis
        using i kgoodD(5) [OF k i(1)] by (cases "OSEventType (evt k i)") (simp_all add: exhausted_def f wt)
    next
      case True
      then obtain r where r: "OSEventPtr (evt k i) = PQ r" "exhausted k i \<longleftrightarrow> OSQEntries (osq k r) = 0"
        using queue_of_Q [OF k i(1)] by metis
      have "r = q \<Longrightarrow> i = e"
        using kgoodD(3) [OF k] i(1) e True r(1) q by (auto simp: events_ok_def queues_ok_def queue_events_def)
      then show ?thesis
        using i r kgoodD(5) [OF k i(1)] w True by (cases "r = q") (auto simp: exhausted_def f wt)
    qed
  qed (use p in \<open>auto simp: k1\<close>)
  moreover have "same_mt k k1" by (rule same_mt_evt) (simp_all add: same_tasks_def k1)
  ultimately show ?thesis by (simp add: kgood_def)
qed

text \<open>Taking a message out, and putting one in at either end.\<close>

lemma kgood_q_ops:
  assumes k: "kgood k" and e: "e < OS_MAX_EVENTS" "OSEventType (evt k e) = OS_EVENT_TYPE_Q"
    and q: "OSEventPtr (evt k e) = PQ q" and w: "waiting k e = {}"
  shows "kgood (snd (q_take q k)) \<and> same_mt k (snd (q_take q k))"
    "kgood (q_put q m k) \<and> same_mt k (q_put q m k)"
    "kgood (q_put_front q m k) \<and> same_mt k (q_put_front q m k)"
proof -
  note U = kgood_upd_q [OF k e q]
  show "kgood (snd (q_take q k)) \<and> same_mt k (snd (q_take q k))"
    by (rule U [OF _ _ kernel.equality]) (use w in \<open>simp_all add: q_take_def upd_q_def Let_def\<close>)
  show "kgood (q_put q m k) \<and> same_mt k (q_put q m k)"
    by (rule U [OF _ _ kernel.equality]) (use w in \<open>simp_all add: q_put_def upd_q_def Let_def\<close>)
  show "kgood (q_put_front q m k) \<and> same_mt k (q_put_front q m k)"
    by (rule U [OF _ _ kernel.equality]) (use w in \<open>simp_all add: q_put_front_def upd_q_def Let_def\<close>)
qed

lemma OSQAccept_safe:
  assumes "kgood k" "e < OS_MAX_EVENTS"
  shows "safe k (map_option (snd \<circ> snd) (OSQAccept e k))"
proof (cases "OSEventType (evt k e) = OS_EVENT_TYPE_Q")
  case True
  obtain q where q: "queue_of e k = Some q" "OSEventPtr (evt k e) = PQ q" "exhausted k e \<longleftrightarrow> OSQEntries (osq k q) = 0"
    using queue_of_Q [OF assms True] by metis
  have "OSQEntries (osq k q) \<noteq> 0 \<Longrightarrow> waiting k e = {}" using not_waiting [OF assms] q(3) by simp
  then show ?thesis
    using True q assms kgood_q_ops(1) [OF assms True q(2)] by (auto simp: OSQAccept_def case_prod_beta)
qed (use assms in \<open>simp add: OSQAccept_def\<close>)

lemma OSQFlush_safe:
  assumes "kgood k" "e < OS_MAX_EVENTS" "OSEventType (evt k e) = OS_EVENT_TYPE_Q"
  shows "safe k (map_option snd (OSQFlush e k))"
proof -
  obtain q where q: "queue_of e k = Some q" "OSEventPtr (evt k e) = PQ q" using queue_of_Q [OF assms] by metis
  define p where "p = (osq k q)\<lparr>OSQIn := OSQStart (osq k q), OSQOut := OSQStart (osq k q), OSQEntries := 0\<rparr>"
  have "kgood (k\<lparr>osq := (osq k)(q := p)\<rparr>) \<and> same_mt k (k\<lparr>osq := (osq k)(q := p)\<rparr>)"
    by (rule kgood_upd_q [OF assms q(2), of p _ "qcells k"]) (simp_all add: p_def)
  then show ?thesis by (simp add: OSQFlush_def q(1) upd_q_def p_def)
qed

lemma OSQPend_safe:
  assumes "kgood k" "e < OS_MAX_EVENTS" "task_call k"
  shows "safe k (map_option snd (OSQPend e timeout k))"
proof (cases "OSEventType (evt k e) = OS_EVENT_TYPE_Q \<and> OSIntNesting k = 0 \<and> OSLockNesting k = 0")
  case True
  then obtain q where q: "queue_of e k = Some q" "OSEventPtr (evt k e) = PQ q"
    "exhausted k e \<longleftrightarrow> OSQEntries (osq k q) = 0"
    using queue_of_Q [OF assms(1,2)] by metis
  show ?thesis
  proof (cases "OSQEntries (osq k q) = 0")
    case empty: True
    then have "safe k (pend_block OS_STAT_Q timeout e k)"
      using assms True q(3) by (intro safe_pend_block) (simp_all add: stat_bit_def)
    then show ?thesis using True q(1) empty by (auto simp: OSQPend_def safe_def)
  next
    case False
    then have "waiting k e = {}" using not_waiting [OF assms(1,2)] q(3) by simp
    then show ?thesis
      using True q(1) False kgood_q_ops(1) [OF assms(1,2) _ q(2)] by (simp add: OSQPend_def case_prod_beta)
  qed
next
  case False
  then show ?thesis using assms by (auto simp: OSQPend_def)
qed

lemma OSQPendAbort_safe:
  assumes "kgood k" "e < OS_MAX_EVENTS"
  shows "safe k (map_option (snd \<circ> snd) (OSQPendAbort e opt k))"
proof (cases "OSEventType (evt k e) = OS_EVENT_TYPE_Q")
  case True
  then show ?thesis using safe_pend_abort [OF assms] by (simp add: OSQPendAbort_def stat_bit_def)
qed (use assms in \<open>simp add: OSQPendAbort_def\<close>)

lemma q_post_safe:
  assumes "kgood k" "e < OS_MAX_EVENTS"
    and put: "\<And>q. OSEventType (evt k e) = OS_EVENT_TYPE_Q \<Longrightarrow> OSEventPtr (evt k e) = PQ q \<Longrightarrow> waiting k e = {} \<Longrightarrow>
      kgood (put q pmsg k) \<and> same_mt k (put q pmsg k)"
  shows "safe k (map_option snd (q_post put e pmsg k))"
proof (cases "OSEventType (evt k e) = OS_EVENT_TYPE_Q")
  case t: True
  obtain q where q: "queue_of e k = Some q" "OSEventPtr (evt k e) = PQ q" using queue_of_Q [OF assms(1,2) t] by metis
  show ?thesis
  proof (cases "waiting k e = {}")
    case True
    then show ?thesis using t q put [OF t q(2)] grp_waiting [OF assms(1,2)] assms(1) by (simp add: q_post_def)
  next
    case False
    then have "safe k (do { (prio, k) \<leftarrow> OS_EventTaskRdy e pmsg OS_STAT_Q OS_STAT_PEND_OK k; OS_Sched k })"
      using assms t by (intro safe_rdy) (simp_all add: stat_bit_def)
    then show ?thesis
      using t False grp_waiting [OF assms(1,2)] by (auto simp: q_post_def safe_def bind_eq_Some_conv split: prod.splits)
  qed
qed (use assms in \<open>simp add: q_post_def\<close>)

lemma OSQPost_safe:
  "kgood k \<Longrightarrow> e < OS_MAX_EVENTS \<Longrightarrow> safe k (map_option snd (OSQPost e pmsg k))"
  "kgood k \<Longrightarrow> e < OS_MAX_EVENTS \<Longrightarrow> safe k (map_option snd (OSQPostFront e pmsg k))"
  unfolding OSQPost_def OSQPostFront_def using kgood_q_ops(2,3) by (blast intro: q_post_safe)+

lemma OSQPostOpt_safe:
  assumes "kgood k" "e < OS_MAX_EVENTS" "opt AND OS_POST_OPT_NO_SCHED = 0"
  shows "safe k (map_option snd (OSQPostOpt e pmsg opt k))"
proof (cases "OSEventType (evt k e) = OS_EVENT_TYPE_Q")
  case t: True
  obtain q where q: "queue_of e k = Some q" "OSEventPtr (evt k e) = PQ q" using queue_of_Q [OF assms(1,2) t] by metis
  show ?thesis
  proof (cases "waiting k e = {}")
    case True
    then show ?thesis
      using t q kgood_q_ops(2,3) [OF assms(1,2) t q(2) True] grp_waiting [OF assms(1,2)] assms(1)
      by (simp add: OSQPostOpt_def)
  next
    case False
    then show ?thesis
      using t safe_post_opt [OF assms(1,2) _ _ assms(3)] grp_waiting [OF assms(1,2)]
      by (simp add: OSQPostOpt_def stat_bit_def)
  qed
qed (use assms in \<open>simp add: OSQPostOpt_def\<close>)

lemma OSQDel_safe:
  assumes "kgood k" "e < OS_MAX_EVENTS"
  shows "safe k (map_option (snd \<circ> snd) (OSQDel e opt k))"
proof (cases "OSEventType (evt k e) = OS_EVENT_TYPE_Q \<and> OSIntNesting k = 0")
  case True
  then have "safe k (map_option (snd \<circ> snd) (del_event OS_STAT_Q (q_release e) e opt k))"
    using assms by (intro safe_del_event released_q) (simp_all add: stat_bit_def)
  then show ?thesis using True by (simp add: OSQDel_def)
qed (use assms in \<open>auto simp: OSQDel_def\<close>)

lemma OSQCreate_safe:
  assumes "kgood k"
  shows "safe k (Some (snd (OSQCreate start sz k)))"
proof (cases "OSIntNesting k = 0")
  case False
  then show ?thesis using assms by (simp add: OSQCreate_def)
next
  case isr: True
  show ?thesis
  proof (cases "OSEventFreeList k")
    case None
    then show ?thesis using isr assms by (simp add: OSQCreate_def alloc_event_eq)
  next
    case (Some e)
    have clr: "bm_clear (OSEventWait (evt k e)) = OSEventWait (evt k e)" by (rule free_head [OF assms Some])
    have u: "OSEventType (evt k e) = OS_EVENT_TYPE_UNUSED" by (rule free_head [OF assms Some])
    show ?thesis
    proof (cases "OSQFreeList k")
      case q: (Some q)
      define v where "v = (evt k e)\<lparr>OSEventType := OS_EVENT_TYPE_Q, OSEventCnt := 0, OSEventPtr := PQ q,
        OSEventName := ''?''\<rparr>"
      define Q where "Q = (osq k)(q := (osq k q)\<lparr>OSQStart := start, OSQEnd := start + 4 * unat sz, OSQIn := start,
        OSQOut := start, OSQSize := sz, OSQEntries := 0\<rparr>)"
      define k1 where "k1 = k\<lparr>OSEventFreeList := next_free (evt k e), evt := (evt k)(e := v),
        OSQFreeList := OSQPtr (osq k q), osq := Q\<rparr>"
      have w: "v\<lparr>OSEventWait := bm_clear (OSEventWait v)\<rparr> = v" using clr by (simp add: v_def)
      have "snd (OSQCreate start sz k) = k1"
        using isr Some q w
        by (intro kernel.equality) (simp_all add: OSQCreate_def alloc_event_eq Let_def upd_q_def upd_evt_def
          OS_EventWaitListInit_def k1_def Q_def v_def)
      moreover have g: "kgood k1 \<and> same_tasks k k1"
        by (rule new_event_good [OF assms Some _ _ k1_def]) (use q in \<open>auto simp: v_def Q_def\<close>)
      moreover have "same_mt k k1"
        by (rule new_event_mt [where v = v and e = e]) (use g u in \<open>simp_all add: k1_def v_def\<close>)
      ultimately show ?thesis by simp
    next
      case None
      define p where "p = (case next_free (evt k e) of None \<Rightarrow> PNull | Some n \<Rightarrow> PEvent n)"
      define k1 where "k1 = upd_evt e (\<lambda>v. v\<lparr>OSEventPtr := p\<rparr>) k"
      have eq: "snd (OSQCreate start sz k) = k1"
        using isr Some None
        by (intro kernel.equality) (simp_all add: OSQCreate_def alloc_event_eq Let_def upd_evt_def k1_def p_def)
      have e: "e < OS_MAX_EVENTS" "OSEventType (evt k e) = OS_EVENT_TYPE_UNUSED" "waiting k e = {}"
        using free_head [OF assms Some] by metis+
      have wt: "waiting k1 = waiting k" by (auto simp: waiting_def k1_def upd_evt_def fun_eq_iff)
      have n: "next_free (evt k1 e) = next_free (evt k e)"
        by (cases "next_free (evt k e)") (simp_all add: k1_def upd_evt_def p_def next_free_def)
      have "events_ok k1"
      proof (rule events_ok_frame [OF kgoodD(3) [OF assms]])
        show "exhausted k1 i" if i: "i < OS_MAX_EVENTS" "waiting k1 i \<noteq> {}" for i
        proof -
          have "i \<noteq> e" "exhausted k i" using i e(3) kgoodD(5) [OF assms i(1)] by (auto simp: wt)
          then show ?thesis using exhausted_frame [of k1 i k] by (simp add: k1_def upd_evt_def)
        qed
        show "next_free (evt k1 i) = next_free (evt k i)" for i
          using n by (cases "i = e") (simp_all add: k1_def upd_evt_def)
      qed (use e in \<open>auto simp: k1_def upd_evt_def\<close>)
      moreover have "kinv k1" using kinv_upd_evt [OF kgoodD(1) [OF assms]] by (simp add: k1_def)
      moreover have "preempt_ok k1" using preempt_upd_evt [OF kgoodD(2) [OF assms]] by (simp add: k1_def)
      moreover have "same_mt k k1" using e(2) by (simp add: k1_def)
      ultimately show ?thesis by (simp add: eq kgood_def)
    qed
  qed
qed

section \<open>Time, tasks, interrupts and locking\<close>

lemma evt_same_good: "kgood k \<Longrightarrow> kinv k' \<Longrightarrow> preempt_ok k' \<Longrightarrow> evt_same k k' \<Longrightarrow> kgood k' \<and> same_mt k k'"
  using events_evt_same [of k k'] evt_same_mt by (simp add: kgood_def)

lemma OSTimeDly_safe:
  assumes "kgood k" "task_call k"
  shows "safe k (OSTimeDly ticks k)"
proof (cases "OSIntNesting k = 0 \<and> OSLockNesting k = 0 \<and> ticks \<noteq> 0")
  case True
  obtain t where t: "OSTCBCur k = TCB t" "OSTCBEventPtr (tcb k t) = None" using assms(2) by (auto simp: task_call_def)
  obtain k' where "OSTimeDly ticks k = Some k'" "kinv k'" "preempt_ok k'" "evt_same k k'"
    using OSTimeDly_block [OF kgoodD(1,2) [OF assms(1)] _ _ _ t, of ticks] True assms(2) by (auto simp: task_call_def)
  then show ?thesis using evt_same_good [OF assms(1)] by simp
next
  case False
  then show ?thesis using assms by (auto simp: OSTimeDly_def)
qed

lemma OSTimeDlyHMSM_safe:
  assumes "kgood k" "task_call k"
  shows "safe k (map_option snd (OSTimeDlyHMSM h m s ms k))"
  using assms OSTimeDly_safe [OF assms, of "hmsm_ticks h m s ms"]
  by (auto simp: OSTimeDlyHMSM_def safe_def)

lemma OSTimeDlyResume_safe:
  assumes "kgood k"
  shows "safe k (map_option snd (OSTimeDlyResume prio k))"
  using OSTimeDlyResume_ok [OF kgoodD(1,2) [OF assms], of prio] evt_same_good [OF assms] by (auto simp: safe_def)

lemma OSTaskSuspend_safe:
  assumes "kgood k" "prio_exact k prio" "prio \<noteq> OS_TASK_IDLE_PRIO" "OSPrioCur k \<noteq> OS_TASK_IDLE_PRIO"
  shows "safe k (map_option snd (OSTaskSuspend prio k))"
  using OSTaskSuspend_ok [OF kgoodD(1,2) [OF assms(1)] assms(2,3)] assms(4) evt_same_good [OF assms(1)]
  by (auto simp: safe_def)

lemma OSTaskResume_safe:
  assumes "kgood k" "prio_exact k prio" "OSRunning k"
  shows "safe k (map_option snd (OSTaskResume prio k))"
  using OSTaskResume_ok [OF kgoodD(1,2) [OF assms(1)] assms(2,3)] evt_same_good [OF assms(1)]
  by (auto simp: safe_def)

text \<open>The nesting counters are outside the invariants of the tasks and events.\<close>

lemma nesting_frame:
  assumes "kgood k"
  shows "kinv (k\<lparr>OSIntNesting := n, OSLockNesting := l\<rparr>)" "events_ok (k\<lparr>OSIntNesting := n, OSLockNesting := l\<rparr>)"
    "same_mt k (k\<lparr>OSIntNesting := n, OSLockNesting := l\<rparr>)"
proof -
  show "kinv (k\<lparr>OSIntNesting := n, OSLockNesting := l\<rparr>)"
    by (rule kinv_frame [OF _ _ _ _ _ _ _ kgoodD(1) [OF assms]]) simp_all
  show "events_ok (k\<lparr>OSIntNesting := n, OSLockNesting := l\<rparr>)"
  proof (rule events_ok_frame [OF kgoodD(3) [OF assms]])
    show "exhausted (k\<lparr>OSIntNesting := n, OSLockNesting := l\<rparr>) e"
      if "e < OS_MAX_EVENTS" "waiting (k\<lparr>OSIntNesting := n, OSLockNesting := l\<rparr>) e \<noteq> {}" for e
      using kgoodD(5) [OF assms that(1)] that(2) exhausted_frame [of "k\<lparr>OSIntNesting := n, OSLockNesting := l\<rparr>" e k]
      by (simp add: waiting_def)
  qed simp_all
  show "same_mt k (k\<lparr>OSIntNesting := n, OSLockNesting := l\<rparr>)" by (rule same_mt_evt) (simp_all add: same_tasks_def)
qed

lemma OSIntEnter_safe: "kgood k \<Longrightarrow> safe k (Some (OSIntEnter k))"
proof -
  assume k: "kgood k"
  define n where "n = OSIntNesting k + 1"
  have "k\<lparr>OSIntNesting := n\<rparr> = k\<lparr>OSIntNesting := n, OSLockNesting := OSLockNesting k\<rparr>" by simp
  moreover have "preempt_ok (k\<lparr>OSIntNesting := n\<rparr>)" if "OSIntNesting k < 255"
  proof -
    have "n \<noteq> 0"
    proof
      assume "n = 0"
      then have "OSIntNesting k = - 1" by (simp add: n_def eq_neg_iff_add_eq_0)
      then show False using that by simp
    qed
    then show ?thesis by (simp add: preempt_ok_def)
  qed
  ultimately show ?thesis
    using k nesting_frame [OF k, where n = n and l = "OSLockNesting k"] by (auto simp: OSIntEnter_def kgood_def n_def)
qed

lemma OSSchedLock_safe: "kgood k \<Longrightarrow> safe k (Some (OSSchedLock k))"
proof -
  assume k: "kgood k"
  define n where "n = OSLockNesting k + 1"
  have "k\<lparr>OSLockNesting := n\<rparr> = k\<lparr>OSIntNesting := OSIntNesting k, OSLockNesting := n\<rparr>" by simp
  moreover have "preempt_ok (k\<lparr>OSLockNesting := n\<rparr>)" if "OSLockNesting k < 255"
  proof -
    have "n \<noteq> 0"
    proof
      assume "n = 0"
      then have "OSLockNesting k = - 1" by (simp add: n_def eq_neg_iff_add_eq_0)
      then show False using that by simp
    qed
    then show ?thesis by (simp add: preempt_ok_def)
  qed
  ultimately show ?thesis
    using k nesting_frame [OF k, where n = "OSIntNesting k" and l = n] by (auto simp: OSSchedLock_def kgood_def n_def)
qed

text \<open>Leaving the outermost interrupt or lock reschedules.\<close>

lemma switch_good:
  assumes "kinv k" "events_ok k"
  shows "safe k (switch_to_high k)"
proof -
  obtain k' where k': "switch_to_high k = Some k'" "sched_eq k k'" "cur_ok k'" "highest_runs k'"
    using switch_ok [of k] assms(1) by (auto simp: kinv_def)
  then have "kinv k'" using assms(1) sched_eq_frame(7) [OF k'(2)] sched_eq_stat [OF k'(2)] by (simp add: kinv_def)
  then show ?thesis
    using k' events_sched [OF assms(2) k'(2)] sched_same_mt [OF k'(2)] by (simp add: kgood_def preempt_ok_def)
qed

lemma safe_trans: "same_mt k k1 \<Longrightarrow> safe k1 r \<Longrightarrow> safe k r"
  by (auto simp: safe_def intro: same_mt_trans)

lemma OSIntExit_safe:
  assumes "kgood k" "OSRunning k"
  shows "safe k (OSIntExit k)"
proof -
  define n where "n = (if OSIntNesting k > 0 then OSIntNesting k - 1 else OSIntNesting k)"
  define k1 where "k1 = k\<lparr>OSIntNesting := n, OSLockNesting := OSLockNesting k\<rparr>"
  have f: "OSIntNesting k1 = n" "OSLockNesting k1 = OSLockNesting k" by (simp_all add: k1_def)
  have "(if OSIntNesting k > 0 then k\<lparr>OSIntNesting := OSIntNesting k - 1\<rparr> else k) = k1"
    by (simp add: k1_def n_def)
  then have eq: "OSIntExit k = (if n = 0 then if OSLockNesting k = 0 then switch_to_high k1 else Some k1 else Some k1)"
    using assms(2) f by (simp only: OSIntExit_def Let_def if_True)
  note k1 = nesting_frame [OF assms(1), where n = n and l = "OSLockNesting k", folded k1_def]
  have "safe k (switch_to_high k1)" using switch_good [OF k1(1,2)] safe_trans [OF k1(3)] by blast
  moreover have "safe k (Some k1)" if "n \<noteq> 0 \<or> OSLockNesting k \<noteq> 0"
    using k1 that by (auto simp: kgood_def preempt_ok_def k1_def)
  ultimately show ?thesis by (simp add: eq)
qed

lemma OSSchedUnlock_safe:
  assumes "kgood k"
  shows "safe k (OSSchedUnlock k)"
proof (cases "OSRunning k \<and> OSIntNesting k = 0 \<and> OSLockNesting k > 0")
  case False
  then show ?thesis using assms by (auto simp: OSSchedUnlock_def)
next
  case True
  define n where "n = OSLockNesting k - 1"
  define k1 where "k1 = k\<lparr>OSIntNesting := OSIntNesting k, OSLockNesting := n\<rparr>"
  have "k\<lparr>OSLockNesting := OSLockNesting k - 1\<rparr> = k1" by (simp add: k1_def n_def)
  then have eq: "OSSchedUnlock k = (if n = 0 then OS_Sched k1 else Some k1)"
    using True unfolding OSSchedUnlock_def Let_def by (simp add: k1_def)
  note k1 = nesting_frame [OF assms, where n = "OSIntNesting k" and l = n, folded k1_def]
  have "safe k (OS_Sched k1)" using safe_sched [OF k1] .
  moreover have "safe k (Some k1)" if "n \<noteq> 0"
    using k1 that by (simp add: kgood_def preempt_ok_def k1_def)
  ultimately show ?thesis by (simp add: eq)
qed

end
