(* ===== verification/Kernel_Ceiling.thy ===== *)
theory Kernel_Ceiling
  imports Kernel_Safe Kernel_Mutex
begin

text \<open>
  The invariant of the mutexes: a free mutex has no waiting tasks and its ceiling priority is reserved;
  the owner of a mutex has the priority it took the mutex with, and then every waiting task has a
  lower one, or it has been raised to the ceiling; a task owns one mutex at most and waits for none
  while it owns one. Every service on mutexes keeps it, together with the other invariants.
\<close>

section \<open>The count of a mutex\<close>

lemma mutex_masks: "OS_MUTEX_KEEP_LOWER_8 = mask 8" "OS_MUTEX_KEEP_UPPER_8 = push_bit 8 (mask 8)" "OS_MUTEX_AVAILABLE = mask 8"
  by (simp_all add: OS_MUTEX_KEEP_LOWER_8_def OS_MUTEX_KEEP_UPPER_8_def OS_MUTEX_AVAILABLE_def mask_eq_exp_minus_1)

lemma byte_all: "(0xFF :: u8) = mask 8" by (simp add: mask_eq_exp_minus_1)

lemma mutex_own_fields [simp]:
  "mutex_pcp (mutex_own prio o' v) = mutex_pcp v" "mutex_prio (mutex_own prio o' v) = prio"
  "OSEventType (mutex_own prio o' v) = OSEventType v" "OSEventWait (mutex_own prio o' v) = OSEventWait v"
  "OSEventPtr (mutex_own prio o' v) = o'"
proof -
  show "mutex_pcp (mutex_own prio o' v) = mutex_pcp v"
    by (rule bit_word_eqI) (auto simp: mutex_pcp_def mutex_own_def mutex_masks bit_simps dest: bit_imp_le_length)
  show "mutex_prio (mutex_own prio o' v) = prio"
    by (rule bit_word_eqI) (auto simp: mutex_prio_def mutex_own_def mutex_masks bit_simps)
qed (simp_all add: mutex_own_def)

lemma mutex_free_prio: "mutex_free v \<longleftrightarrow> mutex_prio v = 0xFF"
proof -
  have "ucast (mutex_prio v) = OSEventCnt v AND OS_MUTEX_KEEP_LOWER_8"
    by (rule bit_word_eqI) (auto simp: mutex_prio_def mutex_masks bit_simps)
  then have "mutex_free v \<longleftrightarrow> (ucast (mutex_prio v) :: u16) = ucast (0xFF :: u8)"
    by (simp add: mutex_free_def OS_MUTEX_AVAILABLE_def)
  also have "\<dots> \<longleftrightarrow> mutex_prio v = 0xFF"
  proof
    assume u: "(ucast (mutex_prio v) :: u16) = ucast (0xFF :: u8)"
    show "mutex_prio v = 0xFF"
    proof (rule bit_word_eqI)
      fix n :: nat assume "n < LENGTH(8)"
      then show "bit (mutex_prio v) n = bit (0xFF :: u8) n" using arg_cong [OF u, of "\<lambda>w. bit w n"] by (simp add: bit_ucast_iff)
    qed
  qed simp
  finally show ?thesis .
qed

lemma mutex_freed [simp]:
  "mutex_pcp (v\<lparr>OSEventCnt := OSEventCnt v OR OS_MUTEX_AVAILABLE, OSEventPtr := x\<rparr>) = mutex_pcp v"
  "mutex_prio (v\<lparr>OSEventCnt := OSEventCnt v OR OS_MUTEX_AVAILABLE, OSEventPtr := x\<rparr>) = 0xFF"
  by (rule bit_word_eqI; auto simp: mutex_pcp_def mutex_prio_def mutex_masks byte_all bit_simps)+

lemma mutex_created [simp]:
  fixes prio :: u8
  assumes "OSEventCnt v = push_bit 8 (ucast prio) OR OS_MUTEX_AVAILABLE"
  shows "mutex_pcp v = prio" "mutex_prio v = 0xFF"
  by (rule bit_word_eqI; auto simp: assms mutex_pcp_def mutex_prio_def mutex_masks byte_all bit_simps)+

section \<open>The invariant\<close>

definition mutex_at :: "kernel \<Rightarrow> nat \<Rightarrow> bool" where
  "mutex_at k e \<longleftrightarrow> e < OS_MAX_EVENTS \<and> OSEventType (evt k e) = OS_EVENT_TYPE_MUTEX"

definition ceiling_reserved :: "kernel \<Rightarrow> OS_EVENT \<Rightarrow> bool" where
  "ceiling_reserved k v \<longleftrightarrow> (mutex_pcp v \<noteq> OS_PRIO_MUTEX_CEIL_DIS \<longrightarrow> OSTCBPrioTbl k (unat (mutex_pcp v)) = TReserved)"

definition raised :: "kernel \<Rightarrow> nat \<Rightarrow> nat \<Rightarrow> bool" where
  "raised k e t \<longleftrightarrow> OSTCBPrio (tcb k t) \<noteq> mutex_prio (evt k e)"

definition held :: "kernel \<Rightarrow> nat \<Rightarrow> nat \<Rightarrow> bool" where
  "held k e t \<longleftrightarrow> (let v = evt k e; pcp = mutex_pcp v; op = mutex_prio v in
     op < 63 \<and> OSTCBPrioTbl k (unat op) = TCB t \<and>
     (if raised k e t
      then OSTCBPrio (tcb k t) = pcp \<and> pcp < op \<and> OSTCBPrioTbl k (unat pcp) = TCB t
      else ceiling_reserved k v \<and> (pcp < op \<longrightarrow> (\<forall>w \<in> waiting k e. unat op < w))) \<and>
     (\<forall>i. mutex_at k i \<longrightarrow> unat (OSTCBPrio (tcb k t)) \<notin> waiting k i \<and> (i \<noteq> e \<longrightarrow> OSEventPtr (evt k i) \<noteq> PTCB t)))"

definition mutex_ok :: "kernel \<Rightarrow> nat \<Rightarrow> bool" where
  "mutex_ok k e \<longleftrightarrow> (mutex_pcp (evt k e) = OS_PRIO_MUTEX_CEIL_DIS \<or> mutex_pcp (evt k e) < 63) \<and> 63 \<notin> waiting k e \<and>
     (case OSEventPtr (evt k e) of
        PNull \<Rightarrow> mutex_free (evt k e) \<and> waiting k e = {} \<and> ceiling_reserved k (evt k e)
      | PTCB t \<Rightarrow> held k e t
      | _ \<Rightarrow> False)"

text \<open>The mutexes in \<open>S\<close> are in order; a handover leaves one out for a moment.\<close>

definition mutexes_in :: "nat set \<Rightarrow> kernel \<Rightarrow> bool" where
  "mutexes_in S k \<longleftrightarrow> (\<forall>e \<in> S. mutex_at k e \<longrightarrow> mutex_ok k e) \<and>
     (\<forall>i j. mutex_at k i \<longrightarrow> mutex_at k j \<longrightarrow> i \<noteq> j \<longrightarrow> mutex_pcp (evt k i) = mutex_pcp (evt k j) \<longrightarrow>
        mutex_pcp (evt k i) = OS_PRIO_MUTEX_CEIL_DIS)"

abbreviation mutexes_ok :: "kernel \<Rightarrow> bool" where
  "mutexes_ok k \<equiv> mutexes_in UNIV k"

lemma mutexes_okD: "mutexes_in S k \<Longrightarrow> e \<in> S \<Longrightarrow> mutex_at k e \<Longrightarrow> mutex_ok k e"
  by (simp add: mutexes_in_def)

text \<open>What it reads of the state: the mutex, the priority of its owner, two entries of the table.\<close>

lemma mutex_ok_frame:
  assumes f: "OSEventCnt (evt k' e) = OSEventCnt (evt k e)" "OSEventPtr (evt k' e) = OSEventPtr (evt k e)"
    and w: "waiting k' e \<subseteq> waiting k e"
    and pcp: "mutex_pcp (evt k e) \<noteq> OS_PRIO_MUTEX_CEIL_DIS \<Longrightarrow>
      OSTCBPrioTbl k' (unat (mutex_pcp (evt k e))) = OSTCBPrioTbl k (unat (mutex_pcp (evt k e)))"
    and o: "\<And>u. OSEventPtr (evt k e) = PTCB u \<Longrightarrow> OSTCBPrio (tcb k' u) = OSTCBPrio (tcb k u) \<and>
      OSTCBPrioTbl k' (unat (mutex_prio (evt k e))) = OSTCBPrioTbl k (unat (mutex_prio (evt k e))) \<and>
      (\<forall>i. mutex_at k' i \<longrightarrow> unat (OSTCBPrio (tcb k u)) \<notin> waiting k' i \<and> (i \<noteq> e \<longrightarrow> OSEventPtr (evt k' i) \<noteq> PTCB u))"
    and e: "mutex_ok k e"
  shows "mutex_ok k' e"
proof -
  have c: "mutex_pcp (evt k' e) = mutex_pcp (evt k e)" "mutex_prio (evt k' e) = mutex_prio (evt k e)"
    "mutex_free (evt k' e) = mutex_free (evt k e)"
    using f by (simp_all add: mutex_pcp_def mutex_prio_def mutex_free_def)
  have rs: "ceiling_reserved k' (evt k' e) = ceiling_reserved k (evt k e)"
    using pcp by (auto simp: ceiling_reserved_def c)
  have "held k' e u" if h: "held k e u" "OSEventPtr (evt k e) = PTCB u" for u
  proof -
    note ou = o [OF h(2)]
    have r: "raised k' e u = raised k e u" using ou by (simp add: raised_def c)
    have "OSTCBPrioTbl k' (unat (mutex_pcp (evt k e))) = TCB u" if "raised k e u"
    proof -
      have "mutex_pcp (evt k e) < 63"
        using h(1) that less_trans [of "mutex_pcp (evt k e)" "mutex_prio (evt k e)" 63] by (simp add: held_def Let_def)
      then have "mutex_pcp (evt k e) \<noteq> OS_PRIO_MUTEX_CEIL_DIS" by (auto simp: OS_PRIO_MUTEX_CEIL_DIS_def)
      then show ?thesis using pcp h(1) that by (simp add: held_def Let_def)
    qed
    moreover have "\<forall>x \<in> waiting k' e. unat (mutex_prio (evt k e)) < x"
      if "\<not> raised k e u" "mutex_pcp (evt k e) < mutex_prio (evt k e)"
      using h(1) that w by (auto simp: held_def Let_def)
    ultimately show ?thesis using h(1) ou by (simp add: held_def Let_def c r rs split: if_splits)
  qed
  then show ?thesis using e w by (auto simp: mutex_ok_def c f rs split: event_ptr.splits)
qed

lemma mutexes_ok_same:
  assumes "mutexes_in S k" "same_mt k k'"
  shows "mutexes_in S k'"
proof -
  have part: "mutex_part (evt k' i) = mutex_part (evt k i)" if "i < OS_MAX_EVENTS" for i
    using assms(2) that by (simp add: same_mt_def same_mutexes_def)
  have m: "mutex_at k' = mutex_at k" using mutex_part_type [OF part] by (auto simp: mutex_at_def fun_eq_iff)
  have f: "OSEventCnt (evt k' i) = OSEventCnt (evt k i) \<and> OSEventPtr (evt k' i) = OSEventPtr (evt k i)"
    if "mutex_at k i" for i
    using part [of i] that by (auto simp: mutex_at_def mutex_part_def split: if_splits)
  have w: "waiting k' i \<subseteq> waiting k i" if "mutex_at k i" for i
    using assms(2) that by (simp add: same_mt_def same_mutexes_def mutex_at_def)
  have "mutex_ok k' e" if S: "e \<in> S" and e: "mutex_at k e" for e
  proof (rule mutex_ok_frame [where k = k])
    show ok: "mutex_ok k e" by (rule mutexes_okD [OF assms(1) S e])
    show "OSTCBPrio (tcb k' u) = OSTCBPrio (tcb k u) \<and>
        OSTCBPrioTbl k' (unat (mutex_prio (evt k e))) = OSTCBPrioTbl k (unat (mutex_prio (evt k e))) \<and>
        (\<forall>i. mutex_at k' i \<longrightarrow> unat (OSTCBPrio (tcb k u)) \<notin> waiting k' i \<and> (i \<noteq> e \<longrightarrow> OSEventPtr (evt k' i) \<noteq> PTCB u))"
      if "OSEventPtr (evt k e) = PTCB u" for u
    proof -
      have "held k e u" using ok that by (simp add: mutex_ok_def)
      then show ?thesis using assms(2) f w m by (fastforce simp: held_def Let_def same_mt_def same_tasks_def)
    qed
  qed (use assms(2) f [OF e] w [OF e] in \<open>auto simp: same_mt_def same_tasks_def\<close>)
  moreover have "mutex_pcp (evt k' i) = mutex_pcp (evt k i)" if "mutex_at k i" for i
    using f [OF that] by (simp add: mutex_pcp_def)
  ultimately show ?thesis using assms(1) by (simp add: mutexes_in_def m)
qed

section \<open>The list of tasks\<close>

text \<open>The list and the free list are the same, the same tasks exist, and the table names no other.\<close>

definition same_list :: "kernel \<Rightarrow> kernel \<Rightarrow> bool" where
  "same_list k k' \<longleftrightarrow> OSTCBList k' = OSTCBList k \<and> OSTCBFreeList k' = OSTCBFreeList k \<and> OSRunning k' = OSRunning k \<and>
     (\<forall>u. OSTCBNext (tcb k' u) = OSTCBNext (tcb k u)) \<and> (\<forall>t. (\<exists>p. own k p t) \<longrightarrow> (\<exists>p. own k' p t)) \<and>
     (\<forall>t. own k 63 t \<longrightarrow> own k' 63 t) \<and>
     (\<forall>p < 64. \<forall>t. OSTCBPrioTbl k' p = TCB t \<longrightarrow> (\<exists>q < 64. OSTCBPrioTbl k q = TCB t))"

lemma same_list_tasks:
  "same_tasks k k' \<Longrightarrow> base_ok k \<Longrightarrow> base_ok k' \<Longrightarrow> same_list k k'"
  using same_tasks_own [of k k'] by (auto simp: same_list_def same_tasks_def)

lemma same_list_trans: "same_list k k1 \<Longrightarrow> same_list k1 k2 \<Longrightarrow> same_list k k2"
  unfolding same_list_def by (elim conjE, intro conjI) (simp_all, metis+)

text \<open>An entry of the table that names no task with this priority may change to another of this kind.\<close>

lemma tbl_frame:
  assumes k: "kinv k" "events_ok k" and q: "\<forall>u. \<not> own k q u" and x: "x = TNull \<or> x = TReserved"
    and k1: "k1 = k\<lparr>OSTCBPrioTbl := (OSTCBPrioTbl k)(q := x)\<rparr>"
  shows "kinv k1 \<and> events_ok k1 \<and> own k1 = own k \<and> same_list k k1 \<and> preempt_ok k1 = preempt_ok k"
proof -
  have o: "own k1 = own k" using q x by (auto simp: own_def k1 fun_eq_iff)
  have r: "ready k1 = ready k" and w: "waiting k1 = waiting k" by (simp_all add: ready_def waiting_def k1 fun_eq_iff)
  have b: "base_ok k" and s: "stat_ok k" and c: "cur_ok k" using k(1) by (auto simp: kinv_def)
  have "OSTCBPrioTbl k p = TCB t" if "OSTCBPrioTbl k1 p = TCB t" for p t
    using that x by (auto simp: k1 split: if_splits)
  then have "base_ok k1" and "same_list k k1"
    using b by (auto simp: base_ok_def same_list_def o r w) (auto simp: k1)
  moreover have "task_ok k1 p t = task_ok k p t" for p t by (rule task_ok_frame) (simp_all add: r w, simp_all add: k1)
  then have "stat_ok k1" using s by (simp add: stat_ok_def o)
  moreover have "cur_ok k1" using c by (simp add: cur_ok_def o) (simp add: k1)
  moreover have "preempt_ok k1 = preempt_ok k" by (simp add: preempt_ok_def highest_runs_def r) (simp add: k1)
  moreover have "events_ok k1"
  proof (rule events_ok_frame [OF k(2)])
    show "exhausted k1 e" if "e < OS_MAX_EVENTS" "waiting k1 e \<noteq> {}" for e
      using waiting_exhausted [OF k(2) that(1)] that(2) exhausted_frame [of k1 e k] by (simp add: w) (simp add: k1)
  qed (simp_all add: k1)
  ultimately show ?thesis using o by (simp add: kinv_def)
qed

section \<open>Changing the priority of a task\<close>

definition moved :: "nat \<Rightarrow> nat \<Rightarrow> nat set \<Rightarrow> nat set" where
  "moved p q S = (if p \<in> S then insert q (S - {p}) else S)"

lemma moved_other: "r \<noteq> p \<Longrightarrow> r \<noteq> q \<Longrightarrow> r \<in> moved p q S \<longleftrightarrow> r \<in> S"
  by (simp add: moved_def)

lemma moved_new: "q \<notin> S \<Longrightarrow> q \<in> moved p q S \<longleftrightarrow> p \<in> S"
  by (simp add: moved_def)

lemma reprio_ok:
  assumes b: "base_ok k" and s: "stat_ok k" and o: "own k p t" and p: "p \<noteq> 63" and q: "q < 64" "\<forall>u. \<not> own k q u"
    and tbl: "OSTCBPrioTbl k1 = (OSTCBPrioTbl k)(q := TCB t)" and other: "\<forall>u. u \<noteq> t \<longrightarrow> tcb k1 u = tcb k u"
    and c: "unat (OSTCBPrio (tcb k1 t)) = q" "coords_ok (tcb k1 t)" "OSTCBStat (tcb k1 t) = OSTCBStat (tcb k t)"
      "OSTCBDly (tcb k1 t) = OSTCBDly (tcb k t)" "OSTCBStatPend (tcb k1 t) = OSTCBStatPend (tcb k t)"
      "OSTCBEventPtr (tcb k1 t) = OSTCBEventPtr (tcb k t)"
    and r: "bm_ok (OSRdy k1)" "ready k1 = moved p q (ready k)"
    and w: "\<And>e. e < OS_MAX_EVENTS \<Longrightarrow> bm_ok (OSEventWait (evt k1 e)) \<and> waiting k1 e = moved p q (waiting k e) \<and>
      OSEventType (evt k1 e) = OSEventType (evt k e)"
  shows "base_ok k1 \<and> stat_ok k1 \<and> own k1 q t \<and> (\<forall>x u. u \<noteq> t \<longrightarrow> own k1 x u = own k x u)"
proof -
  have new: "own k1 q t" using q(1) tbl c(1,2) by (simp add: own_def)
  have old: "own k1 x u = own k x u" if "u \<noteq> t" for x u
    using that q(2) tbl other by (auto simp: own_def)
  have qr: "q \<notin> ready k" and qw: "e < OS_MAX_EVENTS \<Longrightarrow> q \<notin> waiting k e" for e
    using baseD(4,5) [OF b] q(2) by blast+
  have ex: "\<exists>u. own k1 x u" if "x \<in> moved p q S" "\<forall>x \<in> S. \<exists>u. own k x u" for x S
  proof (cases "x = q")
    case False
    then have xS: "x \<in> S" "x \<noteq> p" using that(1) by (auto simp: moved_def split: if_splits)
    with that(2) have "\<exists>u. own k x u" by blast
    then obtain u where u: "own k x u" ..
    then have "u \<noteq> t" using o own_inj(2) xS(2) by blast
    then show ?thesis using u old by blast
  qed (use new in blast)
  have "base_ok k1"
    unfolding base_ok_def
  proof (intro conjI allI impI ballI)
    show "63 \<in> ready k1" using p baseD(3) [OF b] by (simp add: r(2) moved_def)
    show "own k1 (unat (OSTCBPrio (tcb k1 u))) u" if "x < 64" "OSTCBPrioTbl k1 x = TCB u" for x u
    proof (cases "u = t")
      case False
      then have "OSTCBPrioTbl k x = TCB u" using that(2) tbl by (auto split: if_splits)
      then show ?thesis using b that(1) old [OF False] other False by (simp add: base_ok_def)
    qed (use new c(1) in simp)
    show "\<exists>u. own k1 x u" if "x \<in> ready k1" for x
      using ex [of x "ready k"] that b by (simp add: r(2) base_ok_def)
    show "\<exists>u. own k1 x u" if "e < OS_MAX_EVENTS" "x \<in> waiting k1 e" for e x
      using ex [of x "waiting k e"] that b w [OF that(1)] by (simp add: base_ok_def)
  qed (use r w in auto)
  moreover have "stat_ok k1"
    unfolding stat_ok_def
  proof (intro allI impI)
    fix x u assume xu: "own k1 x u"
    show "task_ok k1 x u"
    proof (cases "u = t")
      case True
      then have "x = q" using xu new own_inj(2) by blast
      moreover have "task_ok k1 q t"
      proof -
        have t: "task_ok k p t" using stat_okD [OF s o] .
        have pb: "pend_bits (tcb k1 t) = pend_bits (tcb k t)" by (simp add: pend_bits_def c(3))
        have wq: "q \<in> waiting k1 e \<longleftrightarrow> p \<in> waiting k e" if "e < OS_MAX_EVENTS" for e
          using w [OF that] moved_new [OF qw [OF that]] by simp
        have ws: "wait_state k1 e (tcb k1 t) = wait_state k e (tcb k t)" if "e < OS_MAX_EVENTS" for e
          using w [OF that] by (simp add: wait_state_def pb c(3-6))
        show ?thesis
          using t unfolding task_ok_def by (simp add: r(2) moved_new [OF qr] c(3-6) pb wq ws cong: conj_cong imp_cong)
      qed
      ultimately show ?thesis using True by simp
    next
      case False
      then have k: "own k x u" using xu old by simp
      then have "x \<noteq> p" "x \<noteq> q" using False o own_inj(1) q(2) by blast+
      then have "task_ok k1 x u = task_ok k x u"
        using other False w by (intro task_ok_frame) (auto simp: r(2) moved_other)
      then show ?thesis using stat_okD [OF s k] by simp
    qed
  qed
  ultimately show ?thesis using new old by blast
qed

text \<open>What \<open>set_prio\<close> writes.\<close>

definition with_prio :: "u8 \<Rightarrow> OS_TCB \<Rightarrow> OS_TCB" where
  "with_prio prio c = c\<lparr>OSTCBPrio := prio, OSTCBY := prio_y prio, OSTCBX := prio_x prio,
     OSTCBBitY := prio_bit (prio_y prio), OSTCBBitX := prio_bit (prio_x prio)\<rparr>"

lemma set_prio_eq: "set_prio t prio k = k\<lparr>tcb := (tcb k)(t := with_prio prio (tcb k t))\<rparr>"
  by (simp add: set_prio_def upd_tcb_def with_prio_def)

lemma with_prio_fields [simp]:
  "OSTCBPrio (with_prio prio c) = prio" "OSTCBStat (with_prio prio c) = OSTCBStat c" "OSTCBDly (with_prio prio c) = OSTCBDly c"
  "OSTCBStatPend (with_prio prio c) = OSTCBStatPend c" "OSTCBEventPtr (with_prio prio c) = OSTCBEventPtr c"
  "OSTCBNext (with_prio prio c) = OSTCBNext c" "prio < 64 \<Longrightarrow> coords_ok (with_prio prio c)"
  by (simp_all add: with_prio_def coords_ok_def)

lemma with_prio_bm:
  assumes "prio < 64"
  shows "bm_set b (OSTCBY (with_prio prio c)) (OSTCBBitX (with_prio prio c)) (OSTCBBitY (with_prio prio c)) = bm_ins (unat prio) b"
  using coords_of [OF with_prio_fields(7) [OF assms]] by (simp add: bm_ins_def)

lemma rdy_bit:
  assumes "own k p t"
  shows "Tbl b (unat (OSTCBY (tcb k t))) AND OSTCBBitX (tcb k t) \<noteq> 0 \<longleftrightarrow> p \<in> bm_elems b"
proof -
  have p: "p < 64" "OSTCBY (tcb k t) = of_nat (p div 8)" "OSTCBBitX (tcb k t) = prio_bit (of_nat (p mod 8))"
    using coords_of [of "tcb k t"] assms by (auto simp: own_def)
  have "unat (of_nat (p div 8) :: u8) = p div 8" "unat (of_nat (p mod 8) :: u8) = p mod 8"
    using p(1) by (simp_all add: unat_of_nat)
  then show ?thesis
    using p by (simp add: prio_bit_def bm_elems_def push_bit_eq_mult and_exp_eq_0_iff_not_bit)
qed

text \<open>The wait of a task is settled when the event it points to is the one it still waits for, or the
  task is back in the ready list only.\<close>

definition settled :: "kernel \<Rightarrow> nat \<Rightarrow> bool" where
  "settled k t \<longleftrightarrow> (\<forall>e. OSTCBEventPtr (tcb k t) = Some e \<longrightarrow> pend_bits (tcb k t) \<noteq> 0 \<or>
     (unat (OSTCBPrio (tcb k t)) \<in> ready k \<and> unat (OSTCBPrio (tcb k t)) \<notin> waiting k e))"

lemma boost_state:
  assumes b: "base_ok k" and s: "stat_ok k" and o: "own k p t" and q: "pcp < 64" and st: "settled k t"
  defines "k1 \<equiv> mutex_boost t pcp k" and "q \<equiv> unat pcp"
  shows "k1 = k\<lparr>OSTCBPrioTbl := (OSTCBPrioTbl k)(q := TCB t), tcb := (tcb k)(t := with_prio pcp (tcb k t)),
      OSRdy := (if p \<in> ready k then bm_ins q (bm_del p (OSRdy k)) else OSRdy k),
      evt := (\<lambda>e. if e < OS_MAX_EVENTS \<and> p \<in> waiting k e
        then (evt k e)\<lparr>OSEventWait := bm_ins q (bm_del p (OSEventWait (evt k e)))\<rparr> else evt k e)\<rparr>"
proof -
  have t: "task_ok k p t" using stat_okD [OF s o] .
  have p: "unat (OSTCBPrio (tcb k t)) = p" using o by (simp add: own_def)
  note B = own_bm(2) [OF o] with_prio_bm [OF q]
  have w: "e < OS_MAX_EVENTS \<Longrightarrow> p \<in> waiting k e \<Longrightarrow> OSTCBEventPtr (tcb k t) = Some e" for e
    using t by (simp add: task_ok_def wait_state_def)
  have rd: "Tbl (OSRdy k) (unat (OSTCBY (tcb k t))) AND OSTCBBitX (tcb k t) \<noteq> 0 \<longleftrightarrow> p \<in> ready k"
    using rdy_bit [OF o] by (simp add: ready_def)
  show ?thesis
  proof (cases "p \<in> ready k")
    case True
    then have "pend_bits (tcb k t) = 0" using t by (simp add: task_ok_def pend_bits_def)
    then have no: "p \<notin> waiting k e" if "e < OS_MAX_EVENTS" for e
      using w [OF that] st by (metis settled_def p)
    have "(\<lambda>e. if e < OS_MAX_EVENTS \<and> p \<in> waiting k e
        then (evt k e)\<lparr>OSEventWait := bm_ins q (bm_del p (OSEventWait (evt k e)))\<rparr> else evt k e) = evt k"
      using no by (auto simp: fun_eq_iff)
    then show ?thesis
      using True rd unfolding k1_def mutex_boost_def Let_def
      by (intro kernel.equality) (simp_all add: set_prio_eq make_ready_def make_unready_def B q_def)
  next
    case nr: False
    show ?thesis
    proof (cases "OSTCBEventPtr (tcb k t)")
      case None
      then have "(\<lambda>e. if e < OS_MAX_EVENTS \<and> p \<in> waiting k e
          then (evt k e)\<lparr>OSEventWait := bm_ins q (bm_del p (OSEventWait (evt k e)))\<rparr> else evt k e) = evt k"
        using w by (intro ext if_not_P) auto
      then show ?thesis
        using nr rd None unfolding k1_def mutex_boost_def Let_def
        by (intro kernel.equality) (simp_all add: set_prio_eq q_def)
    next
      case (Some e)
      have "pend_bits (tcb k t) \<noteq> 0" using st Some nr p by (simp add: settled_def)
      then have e: "e < OS_MAX_EVENTS" "p \<in> waiting k e" using t Some by (auto simp: task_ok_def)
      have "i = e" if "i < OS_MAX_EVENTS" "p \<in> waiting k i" for i using w [OF that] Some by simp
      then have only: "i < OS_MAX_EVENTS \<and> p \<in> waiting k i \<longleftrightarrow> i = e" for i using e by blast
      have "(\<lambda>i. if i < OS_MAX_EVENTS \<and> p \<in> waiting k i
          then (evt k i)\<lparr>OSEventWait := bm_ins q (bm_del p (OSEventWait (evt k i)))\<rparr> else evt k i) =
        (evt k)(e := (evt k e)\<lparr>OSEventWait := bm_ins q (bm_del p (OSEventWait (evt k e)))\<rparr>)"
        unfolding only by (auto simp: fun_eq_iff)
      then show ?thesis
        using nr rd Some unfolding k1_def mutex_boost_def Let_def
        by (intro kernel.equality) (simp_all add: set_prio_eq OS_EventTaskRemove_def upd_evt_def B q_def)
    qed
  qed
qed

end
