(* ===== verification/Kernel_Mutex_Safe.thy ===== *)
theory Kernel_Mutex_Safe
  imports Kernel_Ceiling
begin

text \<open>
  Every service on mutexes returns and keeps the invariants, for callers that hold one mutex at a time.
  The conditions under which this is shown exclude four situations in which the code goes wrong; they
  are the subject of \<open>Kernel_Mutex_Thms\<close>.
\<close>

definition msafe :: "kernel \<Rightarrow> kernel option \<Rightarrow> bool" where
  "msafe k r \<longleftrightarrow> (\<exists>k'. r = Some k' \<and> kgood k' \<and> mutexes_ok k' \<and> same_list k k')"

definition owns_none :: "kernel \<Rightarrow> nat \<Rightarrow> bool" where
  "owns_none k t \<longleftrightarrow> (\<forall>e. mutex_at k e \<longrightarrow> OSEventPtr (evt k e) \<noteq> PTCB t)"

lemma safe_msafe: "mutexes_ok k \<Longrightarrow> kgood k \<Longrightarrow> safe k r \<Longrightarrow> msafe k r"
  unfolding safe_def msafe_def
  using mutexes_ok_same same_list_tasks same_mt_tasks kgoodD(4) by blast

lemma mutex_dis: "(p :: u8) < 63 \<Longrightarrow> p \<noteq> OS_PRIO_MUTEX_CEIL_DIS"
  by (auto simp: OS_PRIO_MUTEX_CEIL_DIS_def)

lemma same_list_refl [simp]: "same_list k k" by (auto simp: same_list_def)

section \<open>Taking and releasing\<close>

text \<open>The owner of a mutex exists, and its priority is the entry it has in the table.\<close>

lemma held_own:
  assumes "base_ok k" "held k e t"
  shows "own k (unat (OSTCBPrio (tcb k t))) t"
proof -
  have h: "OSTCBPrioTbl k (unat (mutex_prio (evt k e))) = TCB t" "mutex_prio (evt k e) < 63"
    using assms(2) by (simp_all add: held_def Let_def)
  have "unat (mutex_prio (evt k e)) < 64" using h(2) by (simp add: word_less_nat_alt)
  then show ?thesis using assms(1) h(1) unfolding base_ok_def by blast
qed

text \<open>Mutexes other than \<open>e\<close> do not see a new owner of \<open>e\<close> that owned none.\<close>

lemma others_ok:
  assumes m: "mutexes_in (- {e}) k" and i: "mutex_at k i" "i \<noteq> e"
    and f: "\<And>v. OSEventType (f v) = OSEventType v" "\<And>v. OSEventWait (f v) = OSEventWait v"
    and t: "\<And>u. OSEventPtr (f (evt k e)) = PTCB u \<Longrightarrow> (\<forall>j. mutex_at k j \<longrightarrow> j \<noteq> e \<longrightarrow> OSEventPtr (evt k j) \<noteq> PTCB u)"
  shows "mutex_ok (upd_evt e f k) i"
proof (rule mutex_ok_frame [where k = k])
  show ok: "mutex_ok k i" using mutexes_okD [OF m _ i(1)] i(2) by simp
  have at: "mutex_at (upd_evt e f k) = mutex_at k" by (auto simp: mutex_at_def upd_evt_def f fun_eq_iff)
  have w: "waiting (upd_evt e f k) = waiting k" by (auto simp: waiting_def upd_evt_def f fun_eq_iff)
  show "waiting (upd_evt e f k) i \<subseteq> waiting k i" by (simp add: w)
  show "OSTCBPrio (tcb (upd_evt e f k) u) = OSTCBPrio (tcb k u) \<and>
      OSTCBPrioTbl (upd_evt e f k) (unat (mutex_prio (evt k i))) = OSTCBPrioTbl k (unat (mutex_prio (evt k i))) \<and>
      (\<forall>j. mutex_at (upd_evt e f k) j \<longrightarrow> unat (OSTCBPrio (tcb k u)) \<notin> waiting (upd_evt e f k) j \<and>
        (j \<noteq> i \<longrightarrow> OSEventPtr (evt (upd_evt e f k) j) \<noteq> PTCB u))"
    if u: "OSEventPtr (evt k i) = PTCB u" for u
  proof -
    have "held k i u" using ok u by (simp add: mutex_ok_def)
    moreover have "OSEventPtr (f (evt k e)) \<noteq> PTCB u" using t u i by blast
    ultimately show ?thesis unfolding at w by (simp add: held_def Let_def upd_evt_def)
  qed
qed (use i in \<open>simp_all add: upd_evt_def\<close>)

lemma uniq_upd:
  assumes "mutexes_in S k" "\<And>v. OSEventType (f v) = OSEventType v" "\<And>v. mutex_pcp (f v) = mutex_pcp v"
    "\<And>i. i \<in> T \<Longrightarrow> mutex_at k i \<Longrightarrow> mutex_ok (upd_evt e f k) i"
  shows "mutexes_in T (upd_evt e f k)"
proof -
  have at: "mutex_at (upd_evt e f k) = mutex_at k" by (auto simp: mutex_at_def upd_evt_def assms fun_eq_iff)
  have "mutex_pcp (evt (upd_evt e f k) i) = mutex_pcp (evt k i)" for i by (simp add: upd_evt_def assms)
  then show ?thesis using assms(1,4) by (simp add: mutexes_in_def at)
qed

lemma give_mutex:
  assumes m: "mutexes_in (- {e}) k" and e: "mutex_at k e"
    and c: "mutex_pcp (evt k e) = OS_PRIO_MUTEX_CEIL_DIS \<or> mutex_pcp (evt k e) < 63" "ceiling_reserved k (evt k e)"
    and o: "own k (unat prio) t" "prio < 63"
    and n: "\<And>i. mutex_at k i \<Longrightarrow> unat prio \<notin> waiting k i \<and> (i \<noteq> e \<longrightarrow> OSEventPtr (evt k i) \<noteq> PTCB t)"
    and w: "\<forall>x \<in> waiting k e. unat prio < x" "63 \<notin> waiting k e"
  shows "mutexes_ok (upd_evt e (mutex_own prio (PTCB t)) k)"
proof -
  define k1 where "k1 = upd_evt e (mutex_own prio (PTCB t)) k"
  have at: "mutex_at k1 = mutex_at k" by (auto simp: mutex_at_def upd_evt_def k1_def fun_eq_iff)
  have wt: "waiting k1 = waiting k" by (auto simp: waiting_def upd_evt_def k1_def fun_eq_iff)
  have p: "OSTCBPrio (tcb k1 t) = prio" "OSTCBPrioTbl k1 (unat prio) = TCB t"
    using o by (simp_all add: own_def k1_def upd_evt_def word_unat_eq_iff)
  have v: "evt k1 e = mutex_own prio (PTCB t) (evt k e)" by (simp add: k1_def upd_evt_def)
  have oth: "OSEventPtr (evt k1 i) = OSEventPtr (evt k i)" if "i \<noteq> e" for i using that by (simp add: k1_def upd_evt_def)
  have "ceiling_reserved k1 (evt k1 e)" using c(2) by (simp add: ceiling_reserved_def v) (simp add: k1_def upd_evt_def)
  then have "held k1 e t" using p o(2) n w(1) oth by (simp add: held_def Let_def v raised_def at wt)
  then have "mutex_ok k1 e" using c(1) w(2) by (simp add: mutex_ok_def v wt)
  moreover have "mutex_ok k1 i" if "mutex_at k i" "i \<noteq> e" for i
    unfolding k1_def by (rule others_ok [OF m that]) (use n in auto)
  ultimately have "mutex_ok k1 i" if "mutex_at k i" for i using that by (cases "i = e") auto
  then show ?thesis using uniq_upd [OF m, of "mutex_own prio (PTCB t)" UNIV e] by (simp add: k1_def)
qed

lemma release_mutex:
  assumes m: "mutexes_in (- {e}) k" and e: "mutex_at k e"
    and c: "mutex_pcp (evt k e) = OS_PRIO_MUTEX_CEIL_DIS \<or> mutex_pcp (evt k e) < 63" "ceiling_reserved k (evt k e)"
    and w: "waiting k e = {}"
  shows "mutexes_ok (upd_evt e (\<lambda>v. v\<lparr>OSEventCnt := OSEventCnt v OR OS_MUTEX_AVAILABLE, OSEventPtr := PNull\<rparr>) k)"
proof -
  define f where "f = (\<lambda>v :: OS_EVENT. v\<lparr>OSEventCnt := OSEventCnt v OR OS_MUTEX_AVAILABLE, OSEventPtr := PNull\<rparr>)"
  define k1 where "k1 = upd_evt e f k"
  have v: "evt k1 e = f (evt k e)" by (simp add: k1_def upd_evt_def)
  have wt: "waiting k1 e = {}" using w by (simp add: waiting_def v f_def)
  have "ceiling_reserved k1 (evt k1 e)" using c(2) by (simp add: ceiling_reserved_def v f_def) (simp add: k1_def upd_evt_def)
  then have "mutex_ok k1 e" using c(1) wt by (simp add: mutex_ok_def v f_def mutex_free_prio)
  moreover have "mutex_ok k1 i" if "mutex_at k i" "i \<noteq> e" for i
    unfolding k1_def by (rule others_ok [OF m that]) (auto simp: f_def)
  ultimately have "mutex_ok k1 i" if "mutex_at k i" for i using that by (cases "i = e") auto
  then show ?thesis using uniq_upd [OF m, of f UNIV e] by (simp add: k1_def f_def)
qed

text \<open>A free mutex in order has no owner and no waiting task.\<close>

lemma free_mutex:
  assumes "mutex_ok k e" "mutex_free (evt k e)"
  shows "OSEventPtr (evt k e) = PNull" "waiting k e = {}" "ceiling_reserved k (evt k e)"
proof -
  have "\<not> held k e t" for t using assms(2) by (auto simp: held_def Let_def mutex_free_prio)
  then show "OSEventPtr (evt k e) = PNull" "waiting k e = {}" "ceiling_reserved k (evt k e)"
    using assms by (auto simp: mutex_ok_def split: event_ptr.splits)
qed

lemma held_mutex:
  assumes "mutex_ok k e" "\<not> mutex_free (evt k e)"
  obtains t where "OSEventPtr (evt k e) = PTCB t" "held k e t"
  using assms by (auto simp: mutex_ok_def split: event_ptr.splits)

text \<open>The task that calls: it is not the idle task, is not inside a wait and owns no mutex.\<close>

lemma mutex_take_ok:
  assumes k: "kgood k" "mutexes_ok k" and e: "mutex_at k e" "mutex_free (evt k e)"
    and c: "task_call k" "\<And>t. OSTCBCur k = TCB t \<Longrightarrow> owns_none k t"
  shows "\<exists>err k'. mutex_take e k = Some (err, k') \<and> kgood k' \<and> mutexes_ok k' \<and> same_list k k'"
proof -
  obtain t where t: "OSTCBCur k = TCB t" "OSTCBEventPtr (tcb k t) = None" "OSPrioCur k \<noteq> 63"
    using c(1) by (auto simp: task_call_def)
  have o: "own k (unat (OSPrioCur k)) t" using kgoodD(1) [OF k(1)] t(1) by (auto simp: kinv_def cur_ok_def)
  then have p: "OSTCBPrio (tcb k t) = OSPrioCur k" "OSPrioCur k < 64"
    by (auto simp: own_def word_unat_eq_iff word_less_nat_alt)
  have p63: "OSPrioCur k < 63" using p(2) t(3) by (simp add: word_less_nat_alt word_unat_eq_iff)
  note f = free_mutex [OF mutexes_okD [OF k(2) UNIV_I e(1)] e(2)]
  have nw: "unat (OSPrioCur k) \<notin> waiting k i" if "mutex_at k i" for i
    using stat_okD [OF _ o] kgoodD(1) [OF k(1)] that t(2)
    by (auto simp: kinv_def task_ok_def wait_state_def mutex_at_def)
  have pcp: "mutex_pcp (evt k e) = OS_PRIO_MUTEX_CEIL_DIS \<or> mutex_pcp (evt k e) < 63"
    using mutexes_okD [OF k(2) UNIV_I e(1)] by (simp add: mutex_ok_def)
  have "mutexes_ok (upd_evt e (mutex_own (OSPrioCur k) (PTCB t)) k)"
  proof (rule give_mutex [OF _ e(1) pcp f(3) o p63])
    show "mutexes_in (- {e}) k" using k(2) by (simp add: mutexes_in_def)
  qed (use nw c(2) [OF t(1)] f(2) in \<open>auto simp: owns_none_def\<close>)
  moreover have "kgood (upd_evt e (mutex_own (OSPrioCur k) (PTCB t)) k)"
    by (rule kgood_upd_evt [OF k(1)]) (use e in \<open>auto simp: mutex_at_def exhausted_def upd_evt_def\<close>)
  ultimately show ?thesis
    using t(1) same_list_tasks [OF same_tasks_upd_evt] kgoodD(4) k(1)
    by (simp add: mutex_take_def deref_def p(1) Let_def)
qed

lemma OSMutexAccept_safe:
  assumes k: "kgood k" "mutexes_ok k" and e: "e < OS_MAX_EVENTS"
    and c: "task_call k" "\<And>t. OSTCBCur k = TCB t \<Longrightarrow> owns_none k t"
  shows "msafe k (map_option (snd \<circ> snd) (OSMutexAccept e k))"
proof (cases "OSEventType (evt k e) = OS_EVENT_TYPE_MUTEX \<and> OSIntNesting k = 0 \<and> mutex_free (evt k e)")
  case True
  then show ?thesis using mutex_take_ok [OF k _ _ c] e by (fastforce simp: OSMutexAccept_def msafe_def mutex_at_def)
next
  case False
  then show ?thesis using k by (auto simp: OSMutexAccept_def msafe_def)
qed

section \<open>Raising the owner to the ceiling\<close>

lemma held_plain:
  assumes "held k e t" "OSTCBPrio (tcb k t) \<noteq> mutex_pcp (evt k e)"
  shows "OSTCBPrio (tcb k t) = mutex_prio (evt k e)" "ceiling_reserved k (evt k e)" "mutex_prio (evt k e) < 63"
    "mutex_pcp (evt k e) < mutex_prio (evt k e) \<Longrightarrow> w \<in> waiting k e \<Longrightarrow> unat (mutex_prio (evt k e)) < w"
  using assms by (auto simp: held_def Let_def raised_def split: if_splits)

lemma ceiling_unowned:
  "ceiling_reserved k v \<Longrightarrow> mutex_pcp v \<noteq> OS_PRIO_MUTEX_CEIL_DIS \<Longrightarrow> \<not> own k (unat (mutex_pcp v)) u"
  by (simp add: ceiling_reserved_def own_def)

lemma boost_ok:
  assumes k: "kinv k" "events_ok k" "mutexes_ok k" and e: "mutex_at k e" "OSEventPtr (evt k e) = PTCB t"
    and gt: "mutex_pcp (evt k e) < OSTCBPrio (tcb k t)" "mutex_pcp (evt k e) \<noteq> OS_PRIO_MUTEX_CEIL_DIS"
    and st: "settled k t" and c: "OSTCBCur k = TCB c" "c \<noteq> t"
  defines "k1 \<equiv> mutex_boost t (mutex_pcp (evt k e)) k"
  shows "kinv k1 \<and> events_ok k1 \<and> mutexes_ok k1 \<and> same_list k k1 \<and> raised k1 e t \<and> tcb k1 c = tcb k c \<and>
    OSTCBCur k1 = OSTCBCur k \<and> OSPrioCur k1 = OSPrioCur k \<and> OSIntNesting k1 = OSIntNesting k \<and>
    OSLockNesting k1 = OSLockNesting k \<and> (unat (OSPrioCur k) \<in> ready k \<longrightarrow> unat (OSPrioCur k) \<in> ready k1) \<and>
    (\<forall>i. \<exists>w. evt k1 i = (evt k i)\<lparr>OSEventWait := w\<rparr>) \<and>
    ready k1 = moved (unat (OSTCBPrio (tcb k t))) (unat (mutex_pcp (evt k e))) (ready k) \<and>
    own k1 (unat (mutex_pcp (evt k e))) t \<and> (\<forall>i. mutex_at k i \<longrightarrow> waiting k1 i = waiting k i)"
proof -
  define pcp where "pcp = mutex_pcp (evt k e)"
  define q where "q = unat pcp"
  have b: "base_ok k" and s: "stat_ok k" and cur: "cur_ok k" using k(1) by (auto simp: kinv_def)
  have ok: "mutex_ok k e" by (rule mutexes_okD [OF k(3) UNIV_I e(1)])
  have h: "held k e t" using ok e(2) by (simp add: mutex_ok_def)
  have ne: "OSTCBPrio (tcb k t) \<noteq> mutex_pcp (evt k e)" using gt(1) by auto
  note pl = held_plain [OF h ne]
  define p where "p = unat (mutex_prio (evt k e))"
  have o: "own k p t" using held_own [OF b h] by (simp add: p_def pl(1))
  have lt: "pcp < mutex_prio (evt k e)" using gt(1) pl(1) by (simp add: pcp_def)
  have pq: "pcp < 64" "p \<noteq> 63" "q < 64" "p \<noteq> q"
    using ok gt lt pl(3) by (auto simp: mutex_ok_def pcp_def p_def q_def word_less_nat_alt)
  have tq: "OSTCBPrioTbl k q = TReserved" using pl(2) gt(2) by (simp add: ceiling_reserved_def pcp_def q_def)
  then have nq: "\<forall>u. \<not> own k q u" by (simp add: own_def)
  have eq: "k1 = k\<lparr>OSTCBPrioTbl := (OSTCBPrioTbl k)(q := TCB t), tcb := (tcb k)(t := with_prio pcp (tcb k t)),
      OSRdy := (if p \<in> ready k then bm_ins q (bm_del p (OSRdy k)) else OSRdy k),
      evt := (\<lambda>e. if e < OS_MAX_EVENTS \<and> p \<in> waiting k e
        then (evt k e)\<lparr>OSEventWait := bm_ins q (bm_del p (OSEventWait (evt k e)))\<rparr> else evt k e)\<rparr>"
    unfolding k1_def q_def pcp_def by (rule boost_state [OF b s o _ st]) (use pq(1) pcp_def in simp)
  have fields: "OSTCBPrioTbl k1 = (OSTCBPrioTbl k)(q := TCB t)" "tcb k1 = (tcb k)(t := with_prio pcp (tcb k t))"
    "OSRdy k1 = (if p \<in> ready k then bm_ins q (bm_del p (OSRdy k)) else OSRdy k)"
    "OSTCBCur k1 = OSTCBCur k" "OSPrioCur k1 = OSPrioCur k" "OSIntNesting k1 = OSIntNesting k"
    "OSLockNesting k1 = OSLockNesting k" "osq k1 = osq k" "OSEventFreeList k1 = OSEventFreeList k"
    "OSQFreeList k1 = OSQFreeList k" "OSTCBList k1 = OSTCBList k" "OSTCBFreeList k1 = OSTCBFreeList k" "OSRunning k1 = OSRunning k"
    by (simp_all add: eq)
  have ev: "evt k1 i = (if i < OS_MAX_EVENTS \<and> p \<in> waiting k i
        then (evt k i)\<lparr>OSEventWait := bm_ins q (bm_del p (OSEventWait (evt k i)))\<rparr> else evt k i)" for i
    by (simp add: eq)
  have bmm: "bm_ok (bm_ins q (bm_del p B)) \<and> bm_elems (bm_ins q (bm_del p B)) = insert q (bm_elems B - {p})" if "bm_ok B" for B
    using bm_move [OF that own_less [OF o]] bm_move [OF _ pq(3), of "bm_del p B"] by simp
  have r1: "ready k1 = moved p q (ready k)" "bm_ok (OSRdy k1)"
    using bmm [OF baseD(1) [OF b]] baseD(1) [OF b] by (simp_all add: ready_def fields(3) moved_def)
  have w1: "waiting k1 i = moved p q (waiting k i)" "bm_ok (OSEventWait (evt k1 i))" if "i < OS_MAX_EVENTS" for i
    using bmm [OF baseD(2) [OF b that]] baseD(2) [OF b that] that by (simp_all add: waiting_def ev moved_def)
  have ty: "OSEventType (evt k1 i) = OSEventType (evt k i)" "OSEventCnt (evt k1 i) = OSEventCnt (evt k i)"
    "OSEventPtr (evt k1 i) = OSEventPtr (evt k i)" for i by (simp_all add: ev)
  have re: "base_ok k1 \<and> stat_ok k1 \<and> own k1 q t \<and> (\<forall>x u. u \<noteq> t \<longrightarrow> own k1 x u = own k x u)"
    by (rule reprio_ok [OF b s o pq(2,3) nq fields(1) _ _ _ _ _ _ _ r1(2,1)])
      (use w1 ty pq(1) in \<open>simp_all add: fields q_def\<close>)
  have cown: "own k (unat (OSPrioCur k)) c" using cur c(1) by (auto simp: cur_ok_def)
  have inv: "kinv k1" using re cown c by (auto simp: kinv_def cur_ok_def fields)
  have pc: "unat (OSPrioCur k) \<noteq> p" using cown o own_inj(1) c(2) by blast
  have exh: "exhausted k1 i = exhausted k i" for i by (rule exhausted_frame) (simp_all add: ty fields)
  have evs: "events_ok k1"
  proof (rule events_ok_frame [OF k(2)])
    show "exhausted k1 i" if "i < OS_MAX_EVENTS" "waiting k1 i \<noteq> {}" for i
      using that w1(1) [OF that(1)] waiting_exhausted [OF k(2) that(1)] by (auto simp: exh moved_def split: if_splits)
  qed (simp_all add: ty fields next_free_def)
  have sl: "same_list k k1"
  proof -
    have "\<exists>x. own k1 x u" if "own k y u" for y u using that re by (cases "u = t") auto
    moreover have "own k1 63 u" if "own k 63 u" for u
      using that re o own_inj(2) pq(2) by (cases "u = t") auto
    moreover have "\<exists>y < 64. OSTCBPrioTbl k y = TCB u" if "OSTCBPrioTbl k1 x = TCB u" "x < 64" for x u
      using that o by (cases "x = q") (auto simp: fields own_def)
    ultimately show ?thesis by (auto simp: same_list_def fields)
  qed
  have at: "mutex_at k1 = mutex_at k" by (simp add: mutex_at_def ty fun_eq_iff)
  have nw: "p \<notin> waiting k i" "i \<noteq> e \<Longrightarrow> OSEventPtr (evt k i) \<noteq> PTCB t" if "mutex_at k i" for i
    using h that by (simp_all add: held_def Let_def p_def pl(1))
  then have wm: "waiting k1 i = waiting k i" if "mutex_at k i" for i
    using that w1(1) [of i] by (simp add: moved_def mutex_at_def)
  have c1: "mutex_pcp (evt k1 i) = mutex_pcp (evt k i)" "mutex_prio (evt k1 i) = mutex_prio (evt k i)" for i
    by (simp_all add: mutex_pcp_def mutex_prio_def ty)
  have ra: "raised k1 e t" using lt by (simp add: raised_def fields c1)
  have qw: "q \<notin> waiting k i" if "i < OS_MAX_EVENTS" for i using baseD(5) [OF b that, of q] nq by blast
  have "held k1 e t"
    unfolding held_def Let_def
  proof (intro conjI)
    show "OSTCBPrioTbl k1 (unat (mutex_prio (evt k1 e))) = TCB t" using o pq(4) by (simp add: fields c1 own_def flip: p_def)
  qed (use ra lt pl(3) nw qw wm in \<open>auto simp: c1 at fields ty mutex_at_def pcp_def q_def\<close>)
  then have me: "mutex_ok k1 e" using ok by (simp add: mutex_ok_def c1 ty e wm)
  have mi: "mutex_ok k1 i" if i: "mutex_at k i" "i \<noteq> e" for i
  proof (rule mutex_ok_frame [where k = k])
    show oki: "mutex_ok k i" by (rule mutexes_okD [OF k(3) UNIV_I i(1)])
    show "OSTCBPrioTbl k1 (unat (mutex_pcp (evt k i))) = OSTCBPrioTbl k (unat (mutex_pcp (evt k i)))"
      if "mutex_pcp (evt k i) \<noteq> OS_PRIO_MUTEX_CEIL_DIS"
    proof -
      have "mutex_pcp (evt k i) \<noteq> pcp"
        using k(3) i e(1) that gt(2) unfolding mutexes_in_def pcp_def by blast
      then show ?thesis by (simp add: fields q_def word_unat_eq_iff)
    qed
    show "OSTCBPrio (tcb k1 u) = OSTCBPrio (tcb k u) \<and>
        OSTCBPrioTbl k1 (unat (mutex_prio (evt k i))) = OSTCBPrioTbl k (unat (mutex_prio (evt k i))) \<and>
        (\<forall>j. mutex_at k1 j \<longrightarrow> unat (OSTCBPrio (tcb k u)) \<notin> waiting k1 j \<and> (j \<noteq> i \<longrightarrow> OSEventPtr (evt k1 j) \<noteq> PTCB u))"
      if u: "OSEventPtr (evt k i) = PTCB u" for u
    proof -
      have hu: "held k i u" using oki u by (simp add: mutex_ok_def)
      have ut: "u \<noteq> t" using u nw(2) [OF i] by auto
      have "unat (mutex_prio (evt k i)) \<noteq> q" using hu tq by (auto simp: held_def Let_def)
      then show ?thesis using hu ut wm by (simp add: held_def Let_def fields at ty)
    qed
  qed (use i wm ty in auto)
  have "mutexes_ok k1"
    using me mi k(3) by (simp add: mutexes_in_def at c1) metis
  moreover have "unat (OSPrioCur k) \<in> ready k1" if "unat (OSPrioCur k) \<in> ready k"
    using that pc by (auto simp: r1(1) moved_def)
  moreover have "\<exists>w. evt k1 i = (evt k i)\<lparr>OSEventWait := w\<rparr>" for i
    by (rule exI [of _ "OSEventWait (evt k1 i)"]) (simp add: ev)
  ultimately show ?thesis
    using inv evs sl ra re r1(1) c fields(2,4-7) pl(1) wm by (simp add: p_def q_def pcp_def)
qed

section \<open>Waiting for a mutex\<close>

lemma owner_not_cur:
  assumes "base_ok k" "held k e u" "own k p c" "owns_none k c" "mutex_at k e" "OSEventPtr (evt k e) = PTCB u"
  shows "u \<noteq> c" "unat (OSTCBPrio (tcb k u)) \<noteq> p" "unat (mutex_prio (evt k e)) \<noteq> p"
proof -
  show uc: "u \<noteq> c" using assms(4-6) by (auto simp: owns_none_def)
  show "unat (OSTCBPrio (tcb k u)) \<noteq> p" using held_own [OF assms(1,2)] assms(3) uc own_inj(1) by blast
  show "unat (mutex_prio (evt k e)) \<noteq> p" using assms(2,3) uc by (auto simp: held_def Let_def own_def)
qed

lemma mutex_block_ok:
  assumes k: "kinv k" "events_ok k" "mutexes_ok k" and e: "mutex_at k e" "\<not> mutex_free (evt k e)"
    and cur: "unat (OSPrioCur k) \<in> ready k" "OSPrioCur k \<noteq> OS_TASK_IDLE_PRIO" "OSTCBCur k = TCB c"
      "OSTCBEventPtr (tcb k c) = None" "owns_none k c"
    and low: "\<And>t. OSEventPtr (evt k e) = PTCB t \<Longrightarrow> raised k e t \<or> \<not> mutex_pcp (evt k e) < mutex_prio (evt k e) \<or>
      mutex_prio (evt k e) < OSPrioCur k"
  shows "msafe k (pend_block OS_STAT_MUTEX timeout e k)"
proof -
  define p where "p = unat (OSPrioCur k)"
  have b: "base_ok k" using k(1) by (simp add: kinv_def)
  have o: "own k p c" using k(1) cur(3) by (auto simp: kinv_def cur_ok_def p_def)
  have ety: "OSEventType (evt k e) = OS_EVENT_TYPE_MUTEX" "e < OS_MAX_EVENTS" using e(1) by (auto simp: mutex_at_def)
  obtain k' where k': "pend_block OS_STAT_MUTEX timeout e k = Some k'" "kinv k'" "preempt_ok k'" "wait_only e k k'"
    "waiting k' e = insert p (waiting k e)"
    using pend_block_rdy [OF k(1) cur(1-4) ety(2), of OS_STAT_MUTEX timeout] ety(1) by (auto simp: stat_bit_def p_def)
  note wf = wait_only_fields [OF k'(4)]
  have st: "same_tasks k k'" using k'(4) by (simp add: wait_only_def)
  then have tb: "OSTCBPrioTbl k' = OSTCBPrioTbl k" "OSTCBPrio (tcb k' u) = OSTCBPrio (tcb k u)" for u
    by (simp_all add: same_tasks_def)
  have at: "mutex_at k' = mutex_at k" by (simp add: mutex_at_def wf(1) fun_eq_iff)
  have c1: "mutex_pcp (evt k' i) = mutex_pcp (evt k i)" "mutex_prio (evt k' i) = mutex_prio (evt k i)" for i
    by (simp_all add: mutex_pcp_def mutex_prio_def wf)
  have wt: "waiting k' i \<subseteq> insert p (waiting k i)" for i using k'(5) wf(5) by (cases "i = e") auto
  have owner: "unat (OSTCBPrio (tcb k u)) \<notin> waiting k' j \<and> (j \<noteq> i \<longrightarrow> OSEventPtr (evt k' j) \<noteq> PTCB u)"
    if "held k i u" "OSEventPtr (evt k i) = PTCB u" "mutex_at k i" "mutex_at k j" for i j u
    using owner_not_cur(2) [OF b that(1) o cur(5) that(3,2)] that wt [of j] by (auto simp: held_def Let_def wf)
  have mi: "mutex_ok k' i" if i: "mutex_at k i" "i \<noteq> e" for i
  proof (rule mutex_ok_frame [where k = k])
    show oki: "mutex_ok k i" by (rule mutexes_okD [OF k(3) UNIV_I i(1)])
    show "OSTCBPrio (tcb k' u) = OSTCBPrio (tcb k u) \<and>
        OSTCBPrioTbl k' (unat (mutex_prio (evt k i))) = OSTCBPrioTbl k (unat (mutex_prio (evt k i))) \<and>
        (\<forall>j. mutex_at k' j \<longrightarrow> unat (OSTCBPrio (tcb k u)) \<notin> waiting k' j \<and> (j \<noteq> i \<longrightarrow> OSEventPtr (evt k' j) \<noteq> PTCB u))"
      if u: "OSEventPtr (evt k i) = PTCB u" for u
      using owner [of i u] oki u i(1) by (simp add: mutex_ok_def tb at)
  qed (use i wf tb in auto)
  have ok: "mutex_ok k e" by (rule mutexes_okD [OF k(3) UNIV_I e(1)])
  obtain t where t: "OSEventPtr (evt k e) = PTCB t" "held k e t" using held_mutex [OF ok e(2)] .
  have ra: "raised k' e t = raised k e t" by (simp add: raised_def tb c1)
  have "held k' e t"
    unfolding held_def Let_def
  proof (intro conjI)
    show "if raised k' e t
      then OSTCBPrio (tcb k' t) = mutex_pcp (evt k' e) \<and> mutex_pcp (evt k' e) < mutex_prio (evt k' e) \<and>
        OSTCBPrioTbl k' (unat (mutex_pcp (evt k' e))) = TCB t
      else ceiling_reserved k' (evt k' e) \<and>
        (mutex_pcp (evt k' e) < mutex_prio (evt k' e) \<longrightarrow> (\<forall>w \<in> waiting k' e. unat (mutex_prio (evt k' e)) < w))"
      using t(2) low [OF t(1)] unfolding ra
      by (auto simp: held_def Let_def tb c1 k'(5) ceiling_reserved_def p_def word_less_nat_alt)
  qed (use t owner [OF t(2,1) e(1)] in \<open>auto simp: held_def Let_def tb c1 at\<close>)
  moreover have "p \<noteq> 63" using cur(2) by (auto simp: p_def word_unat_eq_iff)
  ultimately have "mutex_ok k' e" using ok by (simp add: mutex_ok_def c1 wf t(1) k'(5))
  then have "mutexes_ok k'" using mi k(3) unfolding mutexes_in_def at c1 by metis
  moreover have "events_ok k'"
    by (rule events_wait_only [OF k(2) k'(4)]) (simp add: exhausted_def ety)
  moreover have "same_list k k'" using same_list_tasks [OF st b] k'(2) by (simp add: kinv_def)
  ultimately show ?thesis using k'(1-3) by (simp add: msafe_def kgood_def)
qed

text \<open>The wait for a mutex. The owner must be settled when it is raised, see \<open>settled\<close>.\<close>

lemma OSMutexPend_safe:
  assumes k: "kgood k" "mutexes_ok k" and e: "e < OS_MAX_EVENTS"
    and c: "task_call k" "\<And>t. OSTCBCur k = TCB t \<Longrightarrow> owns_none k t"
    and st: "\<And>t. OSEventPtr (evt k e) = PTCB t \<Longrightarrow> settled k t"
  shows "msafe k (map_option snd (OSMutexPend e timeout k))"
proof (cases "OSEventType (evt k e) = OS_EVENT_TYPE_MUTEX \<and> OSIntNesting k = 0 \<and> OSLockNesting k = 0")
  case False
  then show ?thesis using k by (auto simp: OSMutexPend_def msafe_def)
next
  case True
  then have at: "mutex_at k e" using e by (simp add: mutex_at_def)
  show ?thesis
  proof (cases "mutex_free (evt k e)")
    case free: True
    then show ?thesis using mutex_take_ok [OF k at free c] True by (fastforce simp: OSMutexPend_def msafe_def)
  next
    case nf: False
    define pcp where "pcp = mutex_pcp (evt k e)"
    have ok: "mutex_ok k e" by (rule mutexes_okD [OF k(2) UNIV_I at])
    obtain t where t: "OSEventPtr (evt k e) = PTCB t" "held k e t" using held_mutex [OF ok nf] .
    obtain u where u: "OSTCBCur k = TCB u" "OSTCBEventPtr (tcb k u) = None" "OSPrioCur k \<noteq> OS_TASK_IDLE_PRIO"
      using c(1) by (auto simp: task_call_def)
    note inv = kgoodD(1,3) [OF k(1)]
    have b: "base_ok k" using kgoodD(4) [OF k(1)] .
    have o: "own k (unat (OSPrioCur k)) u" using inv(1) u(1) by (auto simp: kinv_def cur_ok_def)
    then have pu: "OSTCBPrio (tcb k u) = OSPrioCur k" by (simp add: own_def word_unat_eq_iff)
    have rd: "unat (OSPrioCur k) \<in> ready k" using cur_ready [OF inv(1) kgoodD(2) [OF k(1)]] True by simp
    note ow = owner_not_cur [OF b t(2) o c(2) [OF u(1)] at t(1)]
    define boost where "boost \<longleftrightarrow> pcp \<noteq> OS_PRIO_MUTEX_CEIL_DIS \<and> OSTCBPrio (tcb k t) > pcp \<and> mutex_prio (evt k e) > OSPrioCur k"
    define k1 where "k1 = (if boost then mutex_boost t pcp k else k)"
    have run: "OSMutexPend e timeout k = do { k \<leftarrow> pend_block OS_STAT_MUTEX timeout e k1; Some (Blocked, k) }"
      using True nf t(1) u(1) pu
      by (auto simp: OSMutexPend_def owner_of_def deref_def Let_def k1_def boost_def simp flip: pcp_def)
    have "msafe k1 (pend_block OS_STAT_MUTEX timeout e k1) \<and> same_list k k1"
    proof (cases boost)
      case bo: True
      have b1: "mutex_boost t (mutex_pcp (evt k e)) k = k1" using bo by (simp add: k1_def pcp_def)
      have g: "mutex_pcp (evt k e) < OSTCBPrio (tcb k t)" "mutex_pcp (evt k e) \<noteq> OS_PRIO_MUTEX_CEIL_DIS"
        using bo by (auto simp: boost_def pcp_def)
      have B: "kinv k1" "events_ok k1" "mutexes_ok k1" "same_list k k1" "raised k1 e t" "tcb k1 u = tcb k u"
        "OSTCBCur k1 = OSTCBCur k" "OSPrioCur k1 = OSPrioCur k"
        "unat (OSPrioCur k) \<in> ready k \<longrightarrow> unat (OSPrioCur k) \<in> ready k1"
        "\<forall>i. \<exists>w. evt k1 i = (evt k i)\<lparr>OSEventWait := w\<rparr>"
        using boost_ok [OF inv k(2) at t(1) g st [OF t(1)] u(1) ow(1) [symmetric]] unfolding b1 by blast+
      have ev: "OSEventType (evt k1 i) = OSEventType (evt k i)" "OSEventPtr (evt k1 i) = OSEventPtr (evt k i)"
        "OSEventCnt (evt k1 i) = OSEventCnt (evt k i)" for i
        using B(10) [rule_format, of i] by auto
      have "msafe k1 (pend_block OS_STAT_MUTEX timeout e k1)"
      proof (rule mutex_block_ok [OF B(1-3)])
        show "mutex_at k1 e" "\<not> mutex_free (evt k1 e)" using at nf by (simp_all add: mutex_at_def mutex_free_def ev)
        show "owns_none k1 u" using c(2) [OF u(1)] by (simp add: owns_none_def mutex_at_def ev)
        show "raised k1 e t' \<or> \<not> mutex_pcp (evt k1 e) < mutex_prio (evt k1 e) \<or> mutex_prio (evt k1 e) < OSPrioCur k1"
          if "OSEventPtr (evt k1 e) = PTCB t'" for t' using that B(5) t(1) by (simp add: ev)
      qed (use B(6-9) u rd in auto)
      then show ?thesis using B(4) by simp
    next
      case nb: False
      have "msafe k (pend_block OS_STAT_MUTEX timeout e k)"
      proof (rule mutex_block_ok [OF inv k(2) at nf rd u(3,1,2) c(2) [OF u(1)]])
        show "raised k e t' \<or> \<not> mutex_pcp (evt k e) < mutex_prio (evt k e) \<or> mutex_prio (evt k e) < OSPrioCur k"
          if "OSEventPtr (evt k e) = PTCB t'" for t'
        proof -
          have "t' = t" using that t(1) by simp
          moreover have "mutex_prio (evt k e) < OSPrioCur k"
            if nr: "\<not> raised k e t" and lt: "mutex_pcp (evt k e) < mutex_prio (evt k e)"
          proof -
            have "mutex_prio (evt k e) < 63" using t(2) by (simp add: held_def Let_def)
            then have "pcp \<noteq> OS_PRIO_MUTEX_CEIL_DIS"
              using lt less_trans mutex_dis unfolding pcp_def by blast
            moreover have "OSTCBPrio (tcb k t) > pcp" using nr lt by (simp add: raised_def pcp_def)
            ultimately have "\<not> mutex_prio (evt k e) > OSPrioCur k" using nb by (simp add: boost_def)
            moreover have "mutex_prio (evt k e) \<noteq> OSPrioCur k" using ow(3) by (simp add: word_unat_eq_iff)
            ultimately show ?thesis by simp
          qed
          ultimately show ?thesis by blast
        qed
      qed
      then show ?thesis using nb by (simp add: k1_def)
    qed
    then show ?thesis unfolding run msafe_def using same_list_trans by fastforce
  qed
qed

section \<open>Releasing a mutex\<close>

lemma ceiling_entry:
  assumes "mutex_ok k i" "mutex_pcp (evt k i) \<noteq> OS_PRIO_MUTEX_CEIL_DIS" "OSTCBPrioTbl k (unat (mutex_pcp (evt k i))) = TCB u"
  shows "OSEventPtr (evt k i) = PTCB u"
  using assms by (auto simp: mutex_ok_def held_def Let_def ceiling_reserved_def split: event_ptr.splits if_splits)

text \<open>The state after \<open>OSMutex_RdyAtPrio\<close> on the current task and with the ceiling reserved again.\<close>

lemma lower_ok:
  assumes k: "kinv k" "events_ok k" "mutexes_ok k" and e: "mutex_at k e" "OSEventPtr (evt k e) = PTCB c" "raised k e c"
    and c: "OSTCBCur k = TCB c" "OSTCBEventPtr (tcb k c) = None" "unat (OSPrioCur k) \<in> ready k"
  defines "op \<equiv> mutex_prio (evt k e)" and "pcp \<equiv> mutex_pcp (evt k e)"
  defines "k1 \<equiv> OSMutex_RdyAtPrio c op k"
  defines "k2 \<equiv> k1\<lparr>OSTCBPrioTbl := (OSTCBPrioTbl k1)(unat pcp := TReserved)\<rparr>"
  shows "kinv k2 \<and> events_ok k2 \<and> mutexes_in (- {e}) k2 \<and> same_list k k2 \<and> evt k2 = evt k \<and>
    ceiling_reserved k2 (evt k2 e) \<and> own k2 (unat op) c \<and> OSTCBCur k2 = OSTCBCur k \<and>
    ready k2 = moved (unat pcp) (unat op) (ready k) \<and> OSTCBPrio (tcb k c) = pcp \<and>
    OSIntNesting k2 = OSIntNesting k \<and> OSLockNesting k2 = OSLockNesting k"
proof -
  have b: "base_ok k" and s: "stat_ok k" using k(1) by (auto simp: kinv_def)
  have ok: "mutex_ok k e" by (rule mutexes_okD [OF k(3) UNIV_I e(1)])
  have h: "held k e c" using ok e(2) by (simp add: mutex_ok_def)
  have f: "op < 63" "OSTCBPrioTbl k (unat op) = TCB c" "OSTCBPrio (tcb k c) = pcp" "pcp < op"
    "OSTCBPrioTbl k (unat pcp) = TCB c"
    using h e(3) by (simp_all add: held_def Let_def op_def pcp_def)
  have o: "own k (unat pcp) c" using held_own [OF b h] f(3) by simp
  have q: "op < 64" "unat pcp \<noteq> 63" "unat op < 64" "unat pcp \<noteq> unat op"
    using f(1,4) by (auto simp: word_less_nat_alt)
  have dis: "pcp \<noteq> OS_PRIO_MUTEX_CEIL_DIS" using mutex_dis less_trans [OF f(4,1)] by blast
  have nq: "\<forall>u. \<not> own k (unat op) u" using f(2,3) q(4) by (auto simp: own_def)
  have pc: "OSPrioCur k = pcp"
  proof -
    have "own k (unat (OSPrioCur k)) c" using k(1) c(1) by (auto simp: kinv_def cur_ok_def)
    then show ?thesis using o own_inj(2) by (blast intro: word_unat_eq_iff [THEN iffD2])
  qed
  then have rd: "unat pcp \<in> ready k" using c(3) by simp
  have eq: "k1 = k\<lparr>OSPrioCur := op, tcb := (tcb k)(c := with_prio op (tcb k c)),
      OSRdy := bm_ins (unat op) (bm_del (unat pcp) (OSRdy k)), OSTCBPrioTbl := (OSTCBPrioTbl k)(unat op := TCB c)\<rparr>"
    unfolding k1_def OSMutex_RdyAtPrio_def Let_def
    by (intro kernel.equality) (simp_all add: set_prio_eq make_ready_def make_unready_def own_bm(2) [OF o] with_prio_bm [OF q(1)])
  have fields: "OSTCBPrioTbl k1 = (OSTCBPrioTbl k)(unat op := TCB c)" "tcb k1 = (tcb k)(c := with_prio op (tcb k c))"
    "OSRdy k1 = bm_ins (unat op) (bm_del (unat pcp) (OSRdy k))" "evt k1 = evt k" "OSPrioCur k1 = op" "OSTCBCur k1 = OSTCBCur k"
    "osq k1 = osq k" "OSEventFreeList k1 = OSEventFreeList k" "OSQFreeList k1 = OSQFreeList k" "OSTCBList k1 = OSTCBList k"
    "OSTCBFreeList k1 = OSTCBFreeList k" "OSRunning k1 = OSRunning k" "OSIntNesting k1 = OSIntNesting k"
    "OSLockNesting k1 = OSLockNesting k"
    by (simp_all add: eq)
  have bmm: "bm_ok (OSRdy k1)" "ready k1 = moved (unat pcp) (unat op) (ready k)"
    using bm_move [OF baseD(1) [OF b] own_less [OF o]] bm_move [of "bm_del (unat pcp) (OSRdy k)", OF _ q(3)] rd
    by (simp_all add: ready_def fields moved_def)
  have wt: "waiting k1 = waiting k" by (simp add: waiting_def fields fun_eq_iff)
  have nw: "unat pcp \<notin> waiting k i" if "i < OS_MAX_EVENTS" for i
    using stat_okD [OF s o] that c(2) by (auto simp: task_ok_def wait_state_def)
  have re: "base_ok k1 \<and> stat_ok k1 \<and> own k1 (unat op) c \<and> (\<forall>x u. u \<noteq> c \<longrightarrow> own k1 x u = own k x u)"
    by (rule reprio_ok [OF b s o q(2,3) nq fields(1) _ _ _ _ _ _ _ bmm])
      (use nw baseD(2) [OF b] q(1) in \<open>auto simp: fields wt moved_def\<close>)
  have inv1: "kinv k1" using re c(1) by (auto simp: kinv_def cur_ok_def fields)
  have ev1: "events_ok k1"
  proof (rule events_ok_frame [OF k(2)])
    show "exhausted k1 i" if "i < OS_MAX_EVENTS" "waiting k1 i \<noteq> {}" for i
      using that waiting_exhausted [OF k(2) that(1)] exhausted_frame [of k1 i k] by (simp add: wt fields)
  qed (simp_all add: fields)
  have np: "\<forall>u. \<not> own k1 (unat pcp) u"
  proof (intro allI notI)
    fix u assume a: "own k1 (unat pcp) u"
    show False
    proof (cases "u = c")
      case True
      then show ?thesis using a re own_inj(2) q(4) by metis
    next
      case False
      then show ?thesis using a re o own_inj(1) by metis
    qed
  qed
  have T: "kinv k2 \<and> events_ok k2 \<and> own k2 = own k1 \<and> same_list k1 k2 \<and> preempt_ok k2 = preempt_ok k1"
    by (rule tbl_frame [OF inv1 ev1 np]) (simp_all add: k2_def)
  have sl: "same_list k k1"
  proof -
    have "\<exists>x. own k1 x u" if "own k y u" for y u using that re by (cases "u = c") auto
    moreover have "own k1 63 u" if "own k 63 u" for u
      using that re o own_inj(2) q(2) by (cases "u = c") auto
    moreover have "\<exists>y < 64. OSTCBPrioTbl k y = TCB u" if "OSTCBPrioTbl k1 x = TCB u" "x < 64" for x u
      using that o by (cases "x = unat op") (auto simp: fields own_def)
    ultimately show ?thesis by (auto simp: same_list_def fields)
  qed
  have f2: "evt k2 = evt k" "OSTCBCur k2 = OSTCBCur k" "tcb k2 = tcb k1" "ready k2 = ready k1"
    "OSTCBPrioTbl k2 = (OSTCBPrioTbl k)(unat op := TCB c, unat pcp := TReserved)" "OSIntNesting k2 = OSIntNesting k"
    "OSLockNesting k2 = OSLockNesting k"
    by (simp_all add: k2_def fields ready_def)
  have at: "mutex_at k2 = mutex_at k" by (simp add: mutex_at_def f2 fun_eq_iff)
  have w2: "waiting k2 = waiting k" by (simp add: waiting_def f2 fun_eq_iff)
  have cown: "OSEventPtr (evt k i) \<noteq> PTCB c" if "mutex_at k i" "i \<noteq> e" for i
    using h that by (simp add: held_def Let_def)
  have mi: "mutex_ok k2 i" if i: "mutex_at k i" "i \<noteq> e" for i
  proof (rule mutex_ok_frame [where k = k])
    show oki: "mutex_ok k i" by (rule mutexes_okD [OF k(3) UNIV_I i(1)])
    show "OSTCBPrioTbl k2 (unat (mutex_pcp (evt k i))) = OSTCBPrioTbl k (unat (mutex_pcp (evt k i)))"
      if d: "mutex_pcp (evt k i) \<noteq> OS_PRIO_MUTEX_CEIL_DIS"
    proof -
      have "OSTCBPrioTbl k (unat (mutex_pcp (evt k i))) \<noteq> TCB c" using ceiling_entry [OF oki d] cown [OF i] by blast
      then show ?thesis using f(2,5) by (auto simp: f2)
    qed
    show "OSTCBPrio (tcb k2 u) = OSTCBPrio (tcb k u) \<and>
        OSTCBPrioTbl k2 (unat (mutex_prio (evt k i))) = OSTCBPrioTbl k (unat (mutex_prio (evt k i))) \<and>
        (\<forall>j. mutex_at k2 j \<longrightarrow> unat (OSTCBPrio (tcb k u)) \<notin> waiting k2 j \<and> (j \<noteq> i \<longrightarrow> OSEventPtr (evt k2 j) \<noteq> PTCB u))"
      if u: "OSEventPtr (evt k i) = PTCB u" for u
    proof -
      have hu: "held k i u" using oki u by (simp add: mutex_ok_def)
      have uc: "u \<noteq> c" using u cown [OF i] by auto
      have "OSTCBPrioTbl k (unat (mutex_prio (evt k i))) \<noteq> TCB c" using hu uc by (simp add: held_def Let_def)
      then have "OSTCBPrioTbl k2 (unat (mutex_prio (evt k i))) = OSTCBPrioTbl k (unat (mutex_prio (evt k i)))"
        using f(2,5) by (auto simp: f2)
      then show ?thesis using hu uc by (simp add: held_def Let_def fields f2(1,3) at w2)
    qed
  qed (simp_all add: f2 w2)
  have "mutexes_in (- {e}) k2" using mi k(3) by (simp add: mutexes_in_def at f2(1))
  moreover have "ceiling_reserved k2 (evt k2 e)" by (simp add: ceiling_reserved_def f2 pcp_def)
  ultimately show ?thesis using T same_list_trans [OF sl] re f2 bmm(2) f(3) by auto
qed

text \<open>What a post does before it looks for a waiting task.\<close>

definition lowered :: "nat \<Rightarrow> nat \<Rightarrow> kernel \<Rightarrow> kernel" where
  "lowered e c k = (if mutex_pcp (evt k e) \<noteq> OS_PRIO_MUTEX_CEIL_DIS then
     let k' = (if OSTCBPrio (tcb k c) = mutex_pcp (evt k e) then OSMutex_RdyAtPrio c (mutex_prio (evt k e)) k else k)
     in k'\<lparr>OSTCBPrioTbl := (OSTCBPrioTbl k')(unat (mutex_pcp (evt k e)) := TReserved)\<rparr> else k)"

text \<open>An owner that was not raised changes nothing.\<close>

lemma post_same:
  assumes h: "held k e c" and nr: "\<not> raised k e c"
  shows "lowered e c k = k"
proof -
  have hf: "OSTCBPrio (tcb k c) = mutex_prio (evt k e)" "ceiling_reserved k (evt k e)"
    "OSTCBPrioTbl k (unat (mutex_prio (evt k e))) = TCB c"
    using h nr by (simp_all add: held_def Let_def raised_def)
  have "OSTCBPrio (tcb k c) \<noteq> mutex_pcp (evt k e)" if "mutex_pcp (evt k e) \<noteq> OS_PRIO_MUTEX_CEIL_DIS"
    using hf that by (auto simp: ceiling_reserved_def)
  then show ?thesis
    using hf(2) by (auto simp: lowered_def Let_def ceiling_reserved_def intro!: kernel.equality fun_upd_idem)
qed

text \<open>Give the ceiling back, in either case.\<close>

lemma post_lowered:
  assumes k: "kinv k" "events_ok k" "mutexes_ok k" and e: "mutex_at k e" "OSEventPtr (evt k e) = PTCB c"
    and c: "OSTCBCur k = TCB c" "OSTCBEventPtr (tcb k c) = None" "unat (OSPrioCur k) \<in> ready k"
  defines "k2 \<equiv> lowered e c k"
  shows "kinv k2 \<and> events_ok k2 \<and> mutexes_in (- {e}) k2 \<and> same_list k k2 \<and> evt k2 = evt k \<and>
    ceiling_reserved k2 (evt k2 e) \<and> OSTCBCur k2 = OSTCBCur k \<and> OSIntNesting k2 = OSIntNesting k \<and>
    OSLockNesting k2 = OSLockNesting k \<and> (\<not> raised k e c \<longrightarrow> k2 = k) \<and> own k2 (unat (mutex_prio (evt k e))) c \<and>
    ready k2 = moved (unat (OSTCBPrio (tcb k c))) (unat (mutex_prio (evt k e))) (ready k)"
proof -
  have ok: "mutex_ok k e" by (rule mutexes_okD [OF k(3) UNIV_I e(1)])
  have h: "held k e c" using ok e(2) by (simp add: mutex_ok_def)
  have b: "base_ok k" using k(1) by (simp add: kinv_def)
  show ?thesis
  proof (cases "raised k e c")
    case True
    have "OSTCBPrio (tcb k c) = mutex_pcp (evt k e)" "mutex_pcp (evt k e) < mutex_prio (evt k e)" "mutex_prio (evt k e) < 63"
      using h True by (simp_all add: held_def Let_def)
    then have eq: "k2 = OSMutex_RdyAtPrio c (mutex_prio (evt k e)) k
        \<lparr>OSTCBPrioTbl := (OSTCBPrioTbl (OSMutex_RdyAtPrio c (mutex_prio (evt k e)) k))(unat (mutex_pcp (evt k e)) := TReserved)\<rparr>"
      using mutex_dis less_trans by (simp add: k2_def lowered_def Let_def)
    note L = lower_ok [OF k e True c, folded eq]
    then have "ready k2 = moved (unat (OSTCBPrio (tcb k c))) (unat (mutex_prio (evt k e))) (ready k)" by simp
    then show ?thesis using L True by blast
  next
    case False
    have hf: "OSTCBPrio (tcb k c) = mutex_prio (evt k e)" "ceiling_reserved k (evt k e)"
      using h False by (simp_all add: held_def Let_def raised_def)
    have "k2 = k" using post_same [OF h False] by (simp add: k2_def)
    then show ?thesis using k hf(1,2) held_own [OF b h] by (simp add: mutexes_in_def moved_def insert_absorb)
  qed
qed

text \<open>A post of the owner: its priority is the old one, the ceiling is reserved again.\<close>

lemma post_run:
  assumes "OSEventType (evt k e) = OS_EVENT_TYPE_MUTEX" "OSIntNesting k = 0" "OSEventPtr (evt k e) = PTCB c" "OSTCBCur k = TCB c"
  shows "OSMutexPost e k =
    (if Grp (OSEventWait (evt (lowered e c k) e)) \<noteq> 0 then do {
        (prio, k1) \<leftarrow> OS_EventTaskRdy e 0 OS_STAT_MUTEX OS_STAT_PEND_OK (lowered e c k);
        let owner = (case OSTCBPrioTbl k1 (unat prio) of TCB t \<Rightarrow> PTCB t | _ \<Rightarrow> PNull);
        k2 \<leftarrow> OS_Sched (upd_evt e (mutex_own prio owner) k1);
        Some (pcp_err (mutex_pcp (evt k e)) prio, k2)
      } else Some (OS_ERR_NONE,
        upd_evt e (\<lambda>v. v\<lparr>OSEventCnt := OSEventCnt v OR OS_MUTEX_AVAILABLE, OSEventPtr := PNull\<rparr>) (lowered e c k)))"
  using assms by (simp only: OSMutexPost_def lowered_def deref_def Let_def) simp

text \<open>When tasks wait, the one of highest priority gets the mutex.\<close>

lemma hand_over:
  assumes k: "kinv k" "events_ok k" "mutexes_in (- {e}) k" and at: "mutex_at k e" and c: "ceiling_reserved k (evt k e)"
      "mutex_pcp (evt k e) = OS_PRIO_MUTEX_CEIL_DIS \<or> mutex_pcp (evt k e) < 63"
    and ne: "waiting k e \<noteq> {}" "63 \<notin> waiting k e"
  defines "m \<equiv> Min (waiting k e)"
  shows "\<exists>k1 w. OS_EventTaskRdy e 0 OS_STAT_MUTEX OS_STAT_PEND_OK k = Some (of_nat m, k1) \<and> own k m w \<and>
    OSTCBPrioTbl k1 (unat (of_nat m :: u8)) = TCB w \<and> OSTCBPrioTbl k1 = OSTCBPrioTbl k \<and>
    waiting k1 e = waiting k e - {m} \<and> wait_only e k k1 \<and> OSTCBStatPend (tcb k1 w) = OS_STAT_PEND_OK \<and>
    OSTCBDly (tcb k1 w) = 0 \<and> (let k2 = upd_evt e (mutex_own (of_nat m) (PTCB w)) k1 in
      kinv k2 \<and> events_ok k2 \<and> mutexes_ok k2 \<and> same_list k k2 \<and> own k2 = own k)"
proof -
  have e: "e < OS_MAX_EVENTS" and ty: "OSEventType (evt k e) = OS_EVENT_TYPE_MUTEX" using at by (simp_all add: mutex_at_def)
  have stat: "OS_STAT_MUTEX = stat_bit (OSEventType (evt k e))" using ty by (simp add: stat_bit_def)
  obtain k1 w where k1: "OS_EventTaskRdy e 0 OS_STAT_MUTEX OS_STAT_PEND_OK k = Some (of_nat m, k1)" "kinv k1"
    "wait_only e k k1" "waiting k1 e = waiting k e - {m}" "own k m w" "OSTCBStatPend (tcb k1 w) = OS_STAT_PEND_OK"
    "OSTCBDly (tcb k1 w) = 0"
    using rdy_ok [OF k(1) e ne(1) stat, of 0 OS_STAT_PEND_OK] unfolding m_def by blast
  have b: "base_ok k" and s: "stat_ok k" and b1: "base_ok k1" using k(1) k1(2) by (auto simp: kinv_def)
  have st: "same_tasks k k1" using k1(3) by (simp add: wait_only_def)
  have o1: "own k1 = own k" by (rule same_tasks_own [OF st b b1])
  have tb: "OSTCBPrioTbl k1 = OSTCBPrioTbl k" using st by (simp add: same_tasks_def)
  have m: "m \<in> waiting k e" "m < 64" "m \<noteq> 63" "unat (of_nat m :: u8) = m"
    using Min_in [OF finite_waiting ne(1)] own_less [OF k1(5)] ne(2) by (auto simp: m_def unat_of_nat)
  note wf = wait_only_fields [OF k1(3)]
  have sm: "same_mt k k1" by (rule wait_only_mt [OF k1(3)]) (simp add: k1(4) Diff_subset)
  have at1: "mutex_at k1 i = mutex_at k i" for i by (simp add: mutex_at_def wf(1))
  have wsub: "waiting k1 i \<subseteq> waiting k i" for i using k1(4) wf(5) [of i] by (cases "i = e") auto
  have ptr: "OSTCBEventPtr (tcb k w) = Some i" if "i < OS_MAX_EVENTS" "m \<in> waiting k i" for i
    using stat_okD [OF s k1(5)] that by (simp add: task_ok_def wait_state_def)
  have only: "i = e" if "i < OS_MAX_EVENTS" "m \<in> waiting k i" for i using ptr [OF that] ptr [OF e m(1)] by simp
  define k2 where "k2 = upd_evt e (mutex_own (of_nat m) (PTCB w)) k1"
  have c1: "mutex_pcp (evt k1 e) = mutex_pcp (evt k e)" by (simp add: mutex_pcp_def wf)
  have mk: "mutexes_ok k2"
    unfolding k2_def
  proof (rule give_mutex)
    show "mutexes_in (- {e}) k1" by (rule mutexes_ok_same [OF k(3) sm])
    show "ceiling_reserved k1 (evt k1 e)" using c(1) by (simp add: ceiling_reserved_def c1 tb)
    show "unat (of_nat m :: u8) \<notin> waiting k1 i \<and> (i \<noteq> e \<longrightarrow> OSEventPtr (evt k1 i) \<noteq> PTCB w)" if i: "mutex_at k1 i" for i
    proof -
      have i0: "mutex_at k i" using i by (simp add: at1)
      have "m \<notin> waiting k1 i"
        using only [of i] k1(4) wsub [of i] i0 by (cases "i = e") (auto simp: mutex_at_def)
      moreover have "OSEventPtr (evt k i) \<noteq> PTCB w" if "i \<noteq> e"
      proof
        assume "OSEventPtr (evt k i) = PTCB w"
        then have "held k i w" using mutexes_okD [OF k(3) _ i0] that by (simp add: mutex_ok_def)
        then have "unat (OSTCBPrio (tcb k w)) \<notin> waiting k e" using at by (simp add: held_def Let_def)
        then show False using k1(5) m(1) by (simp add: own_def)
      qed
      ultimately show ?thesis using m(4) by (simp add: wf)
    qed
    show "\<forall>x \<in> waiting k1 e. unat (of_nat m :: u8) < x"
      using m(4) Min_le [OF finite_waiting] by (auto simp: k1(4) m_def order.strict_iff_order)
  qed (use at c c1 k1(5) o1 m ne(2) wsub in \<open>auto simp: at1 word_less_nat_alt\<close>)
  have ev: "events_ok k2"
    unfolding k2_def by (rule events_upd_evt [OF events_wait_only [OF k(2) k1(3)]])
      (use ty in \<open>auto simp: wf exhausted_def upd_evt_def\<close>)
  have inv: "kinv k2" unfolding k2_def by (rule kinv_upd_evt [OF k1(2)]) simp_all
  have b2: "base_ok k2" using inv by (simp add: kinv_def)
  have st2: "same_tasks k1 k2" by (simp add: k2_def)
  have "own k2 = own k" using same_tasks_own [OF st2 b1 b2] o1 by simp
  moreover have "same_list k k2"
    using same_list_trans [OF same_list_tasks [OF st b b1] same_list_tasks [OF st2 b1 b2]] .
  moreover have "OSTCBPrioTbl k1 (unat (of_nat m :: u8)) = TCB w" using k1(5) m(4) by (simp add: tb own_def)
  ultimately show ?thesis
    using k1 mk ev inv tb by (intro exI [of _ k1] exI [of _ w]) (simp add: Let_def flip: k2_def)
qed

lemma post_waiters:
  assumes k: "kgood k" "mutexes_ok k" and at: "mutex_at k e" and pt: "OSEventPtr (evt k e) = PTCB c0"
    and c0: "OSTCBCur k = TCB c0" "OSTCBEventPtr (tcb k c0) = None" "unat (OSPrioCur k) \<in> ready k"
    and n: "OSIntNesting k = 0" and ne: "waiting k e \<noteq> {}"
  defines "m \<equiv> Min (waiting k e)"
  shows "\<exists>k' w. OSMutexPost e k = Some (pcp_err (mutex_pcp (evt k e)) (of_nat m), k') \<and> kgood k' \<and> mutexes_ok k' \<and>
    same_list k k' \<and> OSEventPtr (evt k' e) = PTCB w \<and> mutex_prio (evt k' e) = of_nat m \<and> own k' m w \<and>
    waiting k' e = waiting k e - {m} \<and> OSTCBStatPend (tcb k' w) = OS_STAT_PEND_OK \<and> OSTCBDly (tcb k' w) = 0 \<and>
    own k' (unat (mutex_prio (evt k e))) c0 \<and> ceiling_reserved k' (evt k' e) \<and> mutex_pcp (evt k' e) = mutex_pcp (evt k e)"
proof -
  have e: "e < OS_MAX_EVENTS" and ty: "OSEventType (evt k e) = OS_EVENT_TYPE_MUTEX" using at by (simp_all add: mutex_at_def)
  define k2 where "k2 = lowered e c0 k"
  have L: "kinv k2" "events_ok k2" "mutexes_in (- {e}) k2" "same_list k k2" "evt k2 = evt k"
    "ceiling_reserved k2 (evt k2 e)" "own k2 (unat (mutex_prio (evt k e))) c0"
    using post_lowered [OF kgoodD(1,3) [OF k(1)] k(2) at pt c0] unfolding k2_def by blast+
  have wt: "waiting k2 = waiting k" by (simp add: waiting_def L(5) fun_eq_iff)
  have ok: "mutex_ok k e" by (rule mutexes_okD [OF k(2) UNIV_I at])
  have pc: "mutex_pcp (evt k2 e) = OS_PRIO_MUTEX_CEIL_DIS \<or> mutex_pcp (evt k2 e) < 63" "63 \<notin> waiting k2 e"
    using ok by (simp_all add: mutex_ok_def L(5) wt)
  have at2: "mutex_at k2 e" using at by (simp add: mutex_at_def L(5))
  have ne2: "waiting k2 e \<noteq> {}" using ne by (simp add: wt)
  obtain k3 w where k3: "OS_EventTaskRdy e 0 OS_STAT_MUTEX OS_STAT_PEND_OK k2 = Some (of_nat m, k3)" "own k2 m w"
    "OSTCBPrioTbl k3 (unat (of_nat m :: u8)) = TCB w" "OSTCBPrioTbl k3 = OSTCBPrioTbl k2"
    "waiting k3 e = waiting k2 e - {m}" "wait_only e k2 k3" "OSTCBStatPend (tcb k3 w) = OS_STAT_PEND_OK" "OSTCBDly (tcb k3 w) = 0"
    and k4: "kinv (upd_evt e (mutex_own (of_nat m) (PTCB w)) k3)" "events_ok (upd_evt e (mutex_own (of_nat m) (PTCB w)) k3)"
      "mutexes_ok (upd_evt e (mutex_own (of_nat m) (PTCB w)) k3)" "same_list k2 (upd_evt e (mutex_own (of_nat m) (PTCB w)) k3)"
      "own (upd_evt e (mutex_own (of_nat m) (PTCB w)) k3) = own k2"
    using hand_over [OF L(1-3) at2 L(6) pc(1) ne2 pc(2)] by (auto simp: Let_def wt m_def)
  define k4 where "k4 = upd_evt e (mutex_own (of_nat m) (PTCB w)) k3"
  note K4 = k4 [folded k4_def]
  obtain k5 where k5: "OS_Sched k4 = Some k5" "kgood k5" "same_tasks k4 k5" "sched_eq k4 k5"
    using kgood_sched [OF K4(1,2)] by blast
  note S = sched_eq_frame [OF k5(4)]
  have g: "Grp (OSEventWait (evt k2 e)) \<noteq> 0" using ne grp_waiting [OF k(1) e] by (simp add: L(5))
  have run: "OSMutexPost e k = Some (pcp_err (mutex_pcp (evt k e)) (of_nat m), k5)"
    unfolding post_run [OF ty n pt c0(1)] k2_def [symmetric] using g k3(1,3) k5(1) by (simp add: k4_def)
  have b: "base_ok k4" "base_ok k5" using K4(1) kgoodD(4) [OF k5(2)] by (simp_all add: kinv_def)
  have sl: "same_list k k5"
    using same_list_trans [OF L(4) same_list_trans [OF K4(4) same_list_tasks [OF k5(3) b]]] .
  have mk: "mutexes_ok k5" by (rule mutexes_ok_same [OF K4(3) sched_same_mt [OF k5(4)]])
  have v: "evt k5 e = mutex_own (of_nat m) (PTCB w) (evt k3 e)" by (simp add: S(2) k4_def upd_evt_def)
  have w5: "waiting k5 e = waiting k e - {m}" using k3(5) by (simp add: waiting_def v wt [symmetric])
  have pcp5: "mutex_pcp (evt k5 e) = mutex_pcp (evt k e)"
    by (simp add: v) (simp add: mutex_pcp_def wait_only_fields [OF k3(6)] L(5))
  have "ceiling_reserved k5 (evt k5 e)"
    using L(6) by (simp add: ceiling_reserved_def pcp5 S(3) L(5)) (simp add: k4_def upd_evt_def k3(4))
  moreover have "OSTCBStatPend (tcb k5 w) = OS_STAT_PEND_OK \<and> OSTCBDly (tcb k5 w) = 0"
    using k3(7,8) by (simp add: S(14,15)) (simp add: k4_def upd_evt_def)
  ultimately show ?thesis
    using run k5(2) mk sl w5 pcp5 K4(5) k3(2) L(7) S(6)
    by (intro exI [of _ k5] exI [of _ w]) (simp add: v)
qed

lemma post_none:
  assumes k: "kgood k" "mutexes_ok k" and at: "mutex_at k e" and pt: "OSEventPtr (evt k e) = PTCB c0"
    and c0: "OSTCBCur k = TCB c0" and n: "OSIntNesting k = 0" and ne: "waiting k e = {}" and nr: "\<not> raised k e c0"
  shows "msafe k (map_option snd (OSMutexPost e k))"
proof -
  have e: "e < OS_MAX_EVENTS" and ty: "OSEventType (evt k e) = OS_EVENT_TYPE_MUTEX" using at by (simp_all add: mutex_at_def)
  have ok: "mutex_ok k e" by (rule mutexes_okD [OF k(2) UNIV_I at])
  then have h: "held k e c0" using pt by (simp add: mutex_ok_def)
  have pc: "mutex_pcp (evt k e) = OS_PRIO_MUTEX_CEIL_DIS \<or> mutex_pcp (evt k e) < 63" using ok by (simp add: mutex_ok_def)
  have c: "ceiling_reserved k (evt k e)" using h nr by (simp add: held_def Let_def)
  note same = post_same [OF h nr]
  define k1 where "k1 = upd_evt e (\<lambda>v. v\<lparr>OSEventCnt := OSEventCnt v OR OS_MUTEX_AVAILABLE, OSEventPtr := PNull\<rparr>) k"
  have "OSMutexPost e k = Some (OS_ERR_NONE, k1)"
    unfolding post_run [OF ty n pt c0] using ne grp_waiting [OF k(1) e] by (simp add: same k1_def)
  moreover have "mutexes_ok k1"
    unfolding k1_def by (rule release_mutex [OF _ at pc c ne]) (use k(2) in \<open>simp add: mutexes_in_def\<close>)
  moreover have "kgood k1"
    unfolding k1_def by (rule kgood_upd_evt [OF k(1)]) (use ty ne in auto)
  moreover have "same_list k k1"
    using same_list_tasks [OF same_tasks_upd_evt] kgoodD(4) k(1) \<open>kgood k1\<close> by (simp add: k1_def)
  ultimately show ?thesis by (simp add: msafe_def)
qed

lemma OSMutexPost_safe:
  assumes k: "kgood k" "mutexes_ok k" and e: "e < OS_MAX_EVENTS"
    and c: "\<And>c. OSTCBCur k = TCB c \<Longrightarrow> OSEventPtr (evt k e) = PTCB c \<Longrightarrow> OSTCBEventPtr (tcb k c) = None \<and>
      unat (OSPrioCur k) \<in> ready k \<and> (raised k e c \<longrightarrow> waiting k e \<noteq> {})"
  shows "msafe k (map_option snd (OSMutexPost e k))"
proof -
  obtain c0 where c0: "OSTCBCur k = TCB c0" using kgoodD(1) [OF k(1)] by (auto simp: kinv_def cur_ok_def)
  show ?thesis
  proof (cases "OSEventType (evt k e) = OS_EVENT_TYPE_MUTEX \<and> OSIntNesting k = 0 \<and> OSEventPtr (evt k e) = PTCB c0")
    case False
    then show ?thesis using k c0 by (auto simp: OSMutexPost_def msafe_def deref_def Let_def)
  next
    case True
    then have at: "mutex_at k e" and pt: "OSEventPtr (evt k e) = PTCB c0" and n: "OSIntNesting k = 0"
      using e by (simp_all add: mutex_at_def)
    note C = c [OF c0 pt]
    show ?thesis
    proof (cases "waiting k e = {}")
      case empty: True
      then show ?thesis using post_none [OF k at pt c0 n empty] C by blast
    next
      case False
      then show ?thesis using post_waiters [OF k at pt c0 _ _ n] C by (fastforce simp: msafe_def)
    qed
  qed
qed

section \<open>Creating and deleting\<close>

lemma ceiling_not_null:
  assumes "mutex_ok k i" "mutex_pcp (evt k i) \<noteq> OS_PRIO_MUTEX_CEIL_DIS"
  shows "OSTCBPrioTbl k (unat (mutex_pcp (evt k i))) \<noteq> TNull"
  using assms by (auto simp: mutex_ok_def held_def Let_def ceiling_reserved_def split: event_ptr.splits if_splits)

text \<open>Another entry of the table changes, and the events that are no mutexes.\<close>

lemma untouched_ok:
  assumes i: "mutex_ok k i" and f: "evt k1 i = evt k i" "waiting k1 i = waiting k i"
      "\<And>u. OSEventPtr (evt k i) = PTCB u \<Longrightarrow> OSTCBPrio (tcb k1 u) = OSTCBPrio (tcb k u)"
    and at: "\<And>j. mutex_at k1 j \<Longrightarrow> mutex_at k j \<and> OSEventPtr (evt k1 j) = OSEventPtr (evt k j) \<and> waiting k1 j = waiting k j \<or>
      OSEventPtr (evt k1 j) = PNull \<and> waiting k1 j = {}"
    and t: "\<And>r. OSTCBPrioTbl k1 r \<noteq> OSTCBPrioTbl k r \<Longrightarrow>
      (mutex_pcp (evt k i) \<noteq> OS_PRIO_MUTEX_CEIL_DIS \<longrightarrow> unat (mutex_pcp (evt k i)) \<noteq> r) \<and> (\<forall>u. OSTCBPrioTbl k r \<noteq> TCB u)"
  shows "mutex_ok k1 i"
proof (rule mutex_ok_frame [where k = k])
  show "OSTCBPrio (tcb k1 u) = OSTCBPrio (tcb k u) \<and>
      OSTCBPrioTbl k1 (unat (mutex_prio (evt k i))) = OSTCBPrioTbl k (unat (mutex_prio (evt k i))) \<and>
      (\<forall>j. mutex_at k1 j \<longrightarrow> unat (OSTCBPrio (tcb k u)) \<notin> waiting k1 j \<and> (j \<noteq> i \<longrightarrow> OSEventPtr (evt k1 j) \<noteq> PTCB u))"
    if u: "OSEventPtr (evt k i) = PTCB u" for u
  proof -
    have h: "held k i u" using i u by (simp add: mutex_ok_def)
    then have "OSTCBPrioTbl k (unat (mutex_prio (evt k i))) = TCB u" by (simp add: held_def Let_def)
    then have "OSTCBPrioTbl k1 (unat (mutex_prio (evt k i))) = OSTCBPrioTbl k (unat (mutex_prio (evt k i)))" using t by blast
    moreover have "unat (OSTCBPrio (tcb k u)) \<notin> waiting k1 j \<and> (j \<noteq> i \<longrightarrow> OSEventPtr (evt k1 j) \<noteq> PTCB u)"
      if "mutex_at k1 j" for j
      using at [OF that] h by (auto simp: held_def Let_def)
    ultimately show ?thesis by (simp add: f(3) [OF u])
  qed
qed (use i f t in auto)

lemma OSMutexCreate_safe:
  assumes k: "kgood k" "mutexes_ok k" and p: "prio < 63 \<or> prio = OS_PRIO_MUTEX_CEIL_DIS"
  shows "msafe k (Some (snd (snd (OSMutexCreate prio k))))"
proof (cases "OSIntNesting k = 0 \<and> (prio = OS_PRIO_MUTEX_CEIL_DIS \<or> OSTCBPrioTbl k (unat prio) = TNull) \<and> OSEventFreeList k \<noteq> None")
  case False
  then show ?thesis using k by (auto simp: OSMutexCreate_def alloc_event_eq msafe_def)
next
  case True
  then obtain e where fl: "OSEventFreeList k = Some e" by auto
  define f where "f = (\<lambda>v :: OS_EVENT. v\<lparr>OSEventType := OS_EVENT_TYPE_MUTEX,
    OSEventCnt := push_bit 8 (ucast prio) OR OS_MUTEX_AVAILABLE, OSEventPtr := PNull, OSEventName := ''?''\<rparr>)"
  define kt where "kt = (if prio \<noteq> OS_PRIO_MUTEX_CEIL_DIS
    then k\<lparr>OSTCBPrioTbl := (OSTCBPrioTbl k)(unat prio := TReserved)\<rparr> else k)"
  define k1 where "k1 = OS_EventWaitListInit e (upd_evt e f (kt\<lparr>OSEventFreeList := next_free (evt kt e)\<rparr>))"
  have ft: "evt kt = evt k" "OSEventFreeList kt = OSEventFreeList k" "tcb kt = tcb k" "waiting kt = waiting k"
    by (simp_all add: kt_def waiting_def fun_eq_iff)
  have run: "snd (snd (OSMutexCreate prio k)) = k1"
    using True fl by (auto simp: OSMutexCreate_def alloc_event_eq Let_def k1_def kt_def f_def upd_evt_def
        OS_EventWaitListInit_def intro!: kernel.equality)
  have c: "bm_clear (OSEventWait (evt k e)) = OSEventWait (evt k e)" by (rule free_head [OF k(1) fl])
  have u: "OSEventType (evt k e) = OS_EVENT_TYPE_UNUSED" by (rule free_head [OF k(1) fl])
  have w: "waiting k e = {}" by (rule free_head [OF k(1) fl])
  have e: "e < OS_MAX_EVENTS" by (rule free_head [OF k(1) fl])
  have free: "\<forall>u. OSTCBPrioTbl k (unat prio) \<noteq> TCB u" if "prio \<noteq> OS_PRIO_MUTEX_CEIL_DIS" using True that by auto
  have T: "kgood kt \<and> same_list k kt"
  proof (cases "prio = OS_PRIO_MUTEX_CEIL_DIS")
    case False
    then have "\<forall>u. \<not> own k (unat prio) u" using free by (simp add: own_def)
    from tbl_frame [OF kgoodD(1,3) [OF k(1)] this, of TReserved kt] show ?thesis
      using False kgoodD(2) [OF k(1)] by (simp add: kt_def kgood_def)
  qed (use k in \<open>simp add: kt_def\<close>)
  have g: "kgood k1 \<and> same_tasks kt k1"
    unfolding k1_def by (rule kgood_create) (use T fl ft in \<open>auto simp: f_def\<close>)
  have ev: "evt k1 = (evt k)(e := f (evt k e))"
    using c by (simp add: k1_def OS_EventWaitListInit_def upd_evt_def ft f_def)
  have k1f: "tcb k1 = tcb k" "OSTCBPrioTbl k1 = OSTCBPrioTbl kt"
    by (simp_all add: k1_def OS_EventWaitListInit_def upd_evt_def ft)
  have wt: "waiting k1 = waiting k" by (simp add: waiting_def ev f_def fun_eq_iff)
  have at: "mutex_at k1 i \<longleftrightarrow> mutex_at k i \<or> i = e" for i using e by (simp add: mutex_at_def ev f_def)
  have nat: "\<not> mutex_at k e" using u by (simp add: mutex_at_def)
  have pv: "mutex_pcp (evt k1 e) = prio" "mutex_prio (evt k1 e) = 0xFF" "OSEventPtr (evt k1 e) = PNull"
    by (simp_all add: ev f_def)
  have "mutex_ok k1 e"
    using p w by (simp add: mutex_ok_def pv mutex_free_prio wt ceiling_reserved_def k1f) (auto simp: kt_def)
  moreover have np: "mutex_pcp (evt k i) \<noteq> prio" if "mutex_at k i" "mutex_pcp (evt k i) \<noteq> OS_PRIO_MUTEX_CEIL_DIS" for i
    using ceiling_not_null [OF mutexes_okD [OF k(2) UNIV_I that(1)] that(2)] that(2) True by auto
  moreover have "mutex_ok k1 i" if i: "mutex_at k i" for i
  proof (rule untouched_ok [OF mutexes_okD [OF k(2) UNIV_I i]])
    have ie: "i \<noteq> e" using i nat by auto
    then show "evt k1 i = evt k i" "waiting k1 i = waiting k i" by (simp_all add: ev wt)
    show "(mutex_pcp (evt k i) \<noteq> OS_PRIO_MUTEX_CEIL_DIS \<longrightarrow> unat (mutex_pcp (evt k i)) \<noteq> r) \<and>
        (\<forall>u. OSTCBPrioTbl k r \<noteq> TCB u)" if r: "OSTCBPrioTbl k1 r \<noteq> OSTCBPrioTbl k r" for r
    proof -
      have "r = unat prio" "prio \<noteq> OS_PRIO_MUTEX_CEIL_DIS" using r by (auto simp: k1f kt_def split: if_splits)
      then show ?thesis using np [OF i] free by (simp add: word_unat_eq_iff)
    qed
    show "mutex_at k j \<and> OSEventPtr (evt k1 j) = OSEventPtr (evt k j) \<and> waiting k1 j = waiting k j \<or>
        OSEventPtr (evt k1 j) = PNull \<and> waiting k1 j = {}" if "mutex_at k1 j" for j
      using that at [of j] pv w wt by (cases "j = e") (simp_all add: ev)
  qed (simp add: k1f)
  moreover have "mutex_pcp (evt k1 i) = mutex_pcp (evt k i)" if "i \<noteq> e" for i using that by (simp add: ev)
  ultimately have "mutexes_ok k1"
    using k(2) nat pv(1) unfolding mutexes_in_def at by metis
  moreover have "same_list k k1"
    using same_list_trans [OF T [THEN conjunct2] same_list_tasks] g T kgoodD(4) by blast
  ultimately show ?thesis using g by (simp add: msafe_def run)
qed

text \<open>Deleting a mutex nobody waits for, whose owner has its own priority.\<close>

lemma plain_owner:
  assumes "mutex_ok k e" "\<And>t. OSEventPtr (evt k e) = PTCB t \<Longrightarrow> \<not> raised k e t"
  shows "ceiling_reserved k (evt k e)"
    "OSEventPtr (evt k e) = PTCB t \<Longrightarrow> mutex_pcp (evt k e) \<noteq> OS_PRIO_MUTEX_CEIL_DIS \<Longrightarrow> OSTCBPrio (tcb k t) \<noteq> mutex_pcp (evt k e)"
proof -
  have h: "held k e u \<and> \<not> raised k e u" if "OSEventPtr (evt k e) = PTCB u" for u
    using assms that by (auto simp: mutex_ok_def)
  have hc: "ceiling_reserved k (evt k e)" if "OSEventPtr (evt k e) = PTCB u" for u
    using h [OF that] by (simp add: held_def Let_def)
  show c: "ceiling_reserved k (evt k e)"
  proof (cases "OSEventPtr (evt k e)")
    case (PTCB u)
    then show ?thesis by (rule hc)
  qed (use assms(1) in \<open>simp_all add: mutex_ok_def\<close>)
  show "OSTCBPrio (tcb k t) \<noteq> mutex_pcp (evt k e)"
    if "OSEventPtr (evt k e) = PTCB t" "mutex_pcp (evt k e) \<noteq> OS_PRIO_MUTEX_CEIL_DIS"
  proof -
    have "OSTCBPrio (tcb k t) = mutex_prio (evt k e)" "OSTCBPrioTbl k (unat (mutex_prio (evt k e))) = TCB t"
      using h [OF that(1)] by (simp_all add: held_def Let_def raised_def)
    then show ?thesis using c that(2) by (auto simp: ceiling_reserved_def)
  qed
qed

lemma mutex_gone:
  assumes k: "kinv k" "events_ok k" "mutexes_ok k" and e: "mutex_at k e" "waiting k e = {}" "ceiling_reserved k (evt k e)"
  defines "k2 \<equiv> free_event e (mutex_release e k)"
  shows "kinv k2 \<and> events_ok k2 \<and> mutexes_ok k2 \<and> same_list k k2 \<and> (preempt_ok k \<longrightarrow> preempt_ok k2)"
proof -
  define k1 where "k1 = mutex_release e k"
  define q where "q = unat (mutex_pcp (evt k e))"
  have T: "kinv k1 \<and> events_ok k1 \<and> own k1 = own k \<and> same_list k k1 \<and> preempt_ok k1 = preempt_ok k"
  proof (cases "mutex_pcp (evt k e) = OS_PRIO_MUTEX_CEIL_DIS")
    case False
    then have "\<forall>u. \<not> own k q u" using ceiling_unowned [OF e(3)] by (simp add: q_def)
    from tbl_frame [OF k(1,2) this, of TNull k1] show ?thesis
      using False by (simp add: k1_def mutex_release_def q_def)
  qed (use k in \<open>simp add: k1_def mutex_release_def\<close>)
  have f: "evt k1 = evt k" "tcb k1 = tcb k" "waiting k1 = waiting k" "osq k1 = osq k" "OSQFreeList k1 = OSQFreeList k"
    by (simp_all add: k1_def mutex_release_def Let_def waiting_def fun_eq_iff)
  have ety: "e < OS_MAX_EVENTS" "OSEventType (evt k1 e) \<noteq> OS_EVENT_TYPE_UNUSED" "OSEventType (evt k1 e) \<noteq> OS_EVENT_TYPE_Q"
    using e(1) by (auto simp: mutex_at_def f)
  have id: "k1\<lparr>osq := osq k1, OSQFreeList := OSQFreeList k1\<rparr> = k1" by simp
  have G: "kinv k2 \<and> events_ok k2 \<and> same_tasks k1 k2 \<and> (preempt_ok k1 \<longrightarrow> preempt_ok k2)"
    using free_event_good [OF _ _ ety(1,2), of "OSQFreeList k1" "osq k1"] T ety(3) e(2) f(3)
    by (simp add: k2_def k1_def [symmetric])
  have ev: "evt k2 i = evt k i" if "i \<noteq> e" for i using that by (simp add: k2_def free_event_def upd_evt_def f flip: k1_def)
  have un: "OSEventType (evt k2 e) = OS_EVENT_TYPE_UNUSED" by (simp add: k2_def free_event_def upd_evt_def)
  have tb: "tcb k2 = tcb k" "OSTCBPrioTbl k2 = OSTCBPrioTbl k1"
    by (simp_all add: k2_def free_event_def upd_evt_def f flip: k1_def)
  have at: "mutex_at k2 i \<longleftrightarrow> mutex_at k i \<and> i \<noteq> e" for i
    using un by (cases "i = e") (simp_all add: mutex_at_def ev)
  have w: "waiting k2 i = waiting k i" if "i \<noteq> e" for i using that by (simp add: waiting_def ev)
  have "mutex_ok k2 i" if i: "mutex_at k i" "i \<noteq> e" for i
  proof (rule untouched_ok [OF mutexes_okD [OF k(3) UNIV_I i(1)]])
    show "(mutex_pcp (evt k i) \<noteq> OS_PRIO_MUTEX_CEIL_DIS \<longrightarrow> unat (mutex_pcp (evt k i)) \<noteq> r) \<and>
        (\<forall>u. OSTCBPrioTbl k r \<noteq> TCB u)" if r: "OSTCBPrioTbl k2 r \<noteq> OSTCBPrioTbl k r" for r
    proof -
      have r: "r = q" "mutex_pcp (evt k e) \<noteq> OS_PRIO_MUTEX_CEIL_DIS"
        using r by (auto simp: tb k1_def mutex_release_def Let_def q_def split: if_splits)
      then have "mutex_pcp (evt k i) \<noteq> mutex_pcp (evt k e)" using k(3) i e(1) unfolding mutexes_in_def by metis
      then show ?thesis using r e(3) by (simp add: ceiling_reserved_def q_def word_unat_eq_iff)
    qed
    show "mutex_at k j \<and> OSEventPtr (evt k2 j) = OSEventPtr (evt k j) \<and> waiting k2 j = waiting k j \<or>
        OSEventPtr (evt k2 j) = PNull \<and> waiting k2 j = {}" if "mutex_at k2 j" for j
      using that by (simp add: at ev w)
  qed (use i in \<open>simp_all add: ev w tb\<close>)
  then have "mutexes_ok k2" using k(3) by (simp add: mutexes_in_def at ev) blast
  moreover have "same_list k k2"
    using same_list_trans [of k k1 k2] same_list_tasks [of k1 k2] T G by (simp add: kinv_def)
  ultimately show ?thesis using T G by simp
qed

lemma OSMutexDel_safe:
  assumes k: "kgood k" "mutexes_ok k" and e: "e < OS_MAX_EVENTS"
    and o: "\<And>t. OSEventPtr (evt k e) = PTCB t \<Longrightarrow> \<not> raised k e t"
  shows "msafe k (map_option (snd \<circ> snd) (OSMutexDel e opt k))"
proof (cases "OSEventType (evt k e) = OS_EVENT_TYPE_MUTEX \<and> OSIntNesting k = 0")
  case False
  then show ?thesis using k by (auto simp: OSMutexDel_def msafe_def)
next
  case True
  then have at: "mutex_at k e" using e by (simp add: mutex_at_def)
  have ok: "mutex_ok k e" by (rule mutexes_okD [OF k(2) UNIV_I at])
  note p = plain_owner [OF ok o]
  note g = grp_waiting [OF k(1) e]
  consider (none) "opt = OS_DEL_NO_PEND" "waiting k e = {}" | (always) "opt = OS_DEL_ALWAYS"
    | (other) "opt \<noteq> OS_DEL_ALWAYS" "opt \<noteq> OS_DEL_NO_PEND \<or> waiting k e \<noteq> {}" by blast
  then show ?thesis
  proof cases
    case none
    then have "OSMutexDel e opt k = Some (None, OS_ERR_NONE, free_event e (mutex_release e k))"
      using True g by (simp add: OSMutexDel_def)
    then show ?thesis
      using mutex_gone [OF kgoodD(1,3) [OF k(1)] k(2) at none(2) p(1)] kgoodD(2) [OF k(1)] by (simp add: msafe_def kgood_def)
  next
    case always
    have stat: "OS_STAT_MUTEX = stat_bit (OSEventType (evt k e))" using True by (simp add: stat_bit_def)
    obtain n k1 where r: "ready_all e 0 OS_STAT_MUTEX OS_STAT_PEND_ABORT 0 k = Some (n, k1)" "kinv k1" "events_ok k1"
      "same_mt k k1" "waiting k1 e = {}" "wait_only e k k1"
      using ready_all_event [OF kgoodD(1,3) [OF k(1)] e stat] by blast
    note wf = wait_only_fields [OF r(6)]
    have at1: "mutex_at k1 e" using at by (simp add: mutex_at_def wf)
    have pc: "mutex_pcp (evt k1 e) = mutex_pcp (evt k e)" by (simp add: mutex_pcp_def wf)
    have c1: "ceiling_reserved k1 (evt k1 e)"
      using p(1) same_mt_tasks [OF r(4)] by (simp add: ceiling_reserved_def pc same_tasks_def)
    define k2 where "k2 = free_event e (mutex_release e k1)"
    have G: "kinv k2" "events_ok k2" "mutexes_ok k2" "same_list k1 k2" "preempt_ok k1 \<longrightarrow> preempt_ok k2"
      using mutex_gone [OF r(2,3) mutexes_ok_same [OF k(2) r(4)] at1 r(5) c1] by (simp_all add: k2_def)
    have sl: "same_list k k2"
      using same_list_trans [OF same_list_tasks [OF same_mt_tasks [OF r(4)]] G(4)] kgoodD(4) [OF k(1)] r(2) by (simp add: kinv_def)
    have d: "OSMutexDel e opt k =
      do { k \<leftarrow> (if waiting k e \<noteq> {} then OS_Sched k2 else Some k2); Some (None, OS_ERR_NONE, k) }"
      using True always r(1) g p(2)
      by (auto simp: OSMutexDel_def OS_DEL_NO_PEND_def OS_DEL_ALWAYS_def Let_def k2_def owner_of_def split: event_ptr.splits)
    show ?thesis
    proof (cases "waiting k e = {}")
      case True
      have "ready_all e 0 OS_STAT_MUTEX OS_STAT_PEND_ABORT 0 k = Some (0, k)"
        using g True by (subst ready_all.simps) simp
      then have "k1 = k" using r(1) by simp
      then show ?thesis using d True G sl kgoodD(2) [OF k(1)] by (simp add: msafe_def kgood_def)
    next
      case False
      obtain k3 where k3: "OS_Sched k2 = Some k3" "kgood k3" "same_tasks k2 k3" "sched_eq k2 k3"
        using kgood_sched [OF G(1,2)] by blast
      have "same_list k k3"
        using same_list_trans [OF sl same_list_tasks [OF k3(3)]] G(1) kgoodD(4) [OF k3(2)] by (simp add: kinv_def)
      then show ?thesis
        using d False k3 mutexes_ok_same [OF G(3) sched_same_mt [OF k3(4)]] by (simp add: msafe_def)
    qed
  next
    case other
    then have "OSMutexDel e opt k = Some (Some e, if opt = OS_DEL_NO_PEND then OS_ERR_TASK_WAITING else OS_ERR_INVALID_OPT, k)"
      using True g by (auto simp: OSMutexDel_def)
    then show ?thesis using k by (simp add: msafe_def)
  qed
qed

end
