(* ===== verification/Kernel_Boot.thy ===== *)
theory Kernel_Boot
  imports Kernel_Mutex_Safe
begin

text \<open>
  From reset to the first task: \<open>OSInit\<close> builds a state in order with the two system tasks, creating a
  task keeps it so, before and after the start, and \<open>OSStart\<close> makes it a good state.
\<close>

section \<open>The tasks and the free control blocks\<close>

definition tasks_ok :: "kernel \<Rightarrow> bool" where
  "tasks_ok k \<longleftrightarrow> (\<exists>ts i fs. task_list k ts i \<and> tcb_path k (OSTCBFreeList k) fs TNull \<and> distinct (ts @ i # fs) \<and>
     (\<forall>p < 64. \<forall>t. OSTCBPrioTbl k p = TCB t \<longrightarrow> t \<in> set (i # ts)))"

lemma tasks_ok_list:
  assumes "tasks_ok k" "same_list k k'"
  shows "tasks_ok k'"
proof -
  obtain ts i fs where t: "task_list k ts i" "tcb_path k (OSTCBFreeList k) fs TNull" "distinct (ts @ i # fs)"
    "\<forall>p < 64. \<forall>t. OSTCBPrioTbl k p = TCB t \<longrightarrow> t \<in> set (i # ts)"
    using assms(1) by (auto simp: tasks_ok_def)
  have n: "OSTCBNext (tcb k' u) = OSTCBNext (tcb k u)" for u using assms(2) by (simp add: same_list_def)
  have "tcb_path k' a us b = tcb_path k a us b" for a us b by (rule tcb_path_frame) (simp add: n)
  then have "task_list k' ts i \<and> tcb_path k' (OSTCBFreeList k') fs TNull"
    using t(1,2) assms(2) by (simp add: task_list_def same_list_def)
  moreover have "\<forall>p < 64. \<forall>u. OSTCBPrioTbl k' p = TCB u \<longrightarrow> u \<in> set (i # ts)"
    using t(4) assms(2) unfolding same_list_def by blast
  ultimately show ?thesis using t(3) unfolding tasks_ok_def by blast
qed

lemma tasks_ok_same: "tasks_ok k \<Longrightarrow> same_tasks k k' \<Longrightarrow> base_ok k \<Longrightarrow> base_ok k' \<Longrightarrow> tasks_ok k'"
  using tasks_ok_list same_list_tasks by blast

definition static_ok :: "kernel \<Rightarrow> bool" where
  "static_ok k \<longleftrightarrow> base_ok k \<and> stat_ok k \<and> events_ok k \<and> tasks_ok k \<and> mutexes_ok k"

definition kworld :: "kernel \<Rightarrow> bool" where
  "kworld k \<longleftrightarrow> kgood k \<and> tasks_ok k \<and> mutexes_ok k"

lemma kworld_static: "kworld k \<Longrightarrow> static_ok k"
  by (simp add: kworld_def static_ok_def kgood_def kinv_def)

lemma mutexes_ok_evt: "mutexes_ok k \<Longrightarrow> same_tasks k k' \<Longrightarrow> evt k' = evt k \<Longrightarrow> mutexes_ok k'"
  using mutexes_ok_same same_mt_evt by blast

lemma kworld_safe:
  assumes "kworld k" "safe k r"
  shows "\<exists>k'. r = Some k' \<and> kworld k' \<and> same_tasks k k'"
  using assms tasks_ok_same kgoodD(4) mutexes_ok_same same_mt_tasks unfolding safe_def kworld_def by metis

lemma kworld_msafe:
  assumes "kworld k" "msafe k r"
  shows "\<exists>k'. r = Some k' \<and> kworld k' \<and> OSRunning k' = OSRunning k"
  using assms tasks_ok_list by (auto simp: msafe_def kworld_def same_list_def)

section \<open>Creating a task\<close>

text \<open>What \<open>OS_TCBInit\<close> makes of the state.\<close>

lemma OS_TCBInit_eq:
  assumes t: "OSTCBFreeList k = TCB t" and p: "prio < 64"
    and l: "OSTCBList k \<noteq> TCB t"
  shows "\<exists>k1 x. OS_TCBInit prio ptos pbos tid stk pext opt k = (OS_ERR_NONE, k1) \<and>
    OSTCBPrioTbl k1 = (OSTCBPrioTbl k)(unat prio := TCB t) \<and> OSTCBList k1 = TCB t \<and>
    OSTCBFreeList k1 = OSTCBNext (tcb k t) \<and> OSRdy k1 = bm_ins (unat prio) (OSRdy k) \<and>
    (\<forall>u. u \<noteq> t \<longrightarrow> tcb k1 u = (tcb k u)\<lparr>OSTCBPrev := x u\<rparr>) \<and>
    OSTCBPrio (tcb k1 t) = prio \<and> coords_ok (tcb k1 t) \<and> OSTCBStat (tcb k1 t) = 0 \<and> OSTCBDly (tcb k1 t) = 0 \<and>
    OSTCBEventPtr (tcb k1 t) = None \<and> OSTCBNext (tcb k1 t) = OSTCBList k \<and>
    evt k1 = evt k \<and> osq k1 = osq k \<and> OSEventFreeList k1 = OSEventFreeList k \<and> OSQFreeList k1 = OSQFreeList k \<and>
    OSTCBCur k1 = OSTCBCur k \<and> OSPrioCur k1 = OSPrioCur k \<and> OSIntNesting k1 = OSIntNesting k \<and>
    OSLockNesting k1 = OSLockNesting k \<and> OSRunning k1 = OSRunning k"
proof -
  define c where "c = (tcb k t)\<lparr>OSTCBStkPtr := ptos, OSTCBPrio := prio, OSTCBStat := OS_STAT_RDY,
    OSTCBStatPend := OS_STAT_PEND_OK, OSTCBDly := 0, OSTCBExtPtr := pext, OSTCBStkSize := stk,
    OSTCBStkBottom := pbos, OSTCBOpt := opt, OSTCBId := tid, OSTCBDelReq := OS_ERR_NONE,
    OSTCBY := prio_y prio, OSTCBX := prio_x prio, OSTCBBitY := prio_bit (prio_y prio),
    OSTCBBitX := prio_bit (prio_x prio), OSTCBEventPtr := None, OSTCBMsg := 0, OSTCBCtxSwCtr := 0,
    OSTCBTaskName := ''?'', OSTCBReg := 0, OSTCBNext := OSTCBList k, OSTCBPrev := TNull\<rparr>"
  define x where "x = (\<lambda>u. if OSTCBList k = TCB u then TCB t else OSTCBPrev (tcb k u))"
  define T where "T = (\<lambda>u. if u = t then c else (tcb k u)\<lparr>OSTCBPrev := x u\<rparr>)"
  have cc: "coords_ok c" using p by (simp add: coords_ok_def c_def)
  have c: "bm_set b (OSTCBY c) (OSTCBBitX c) (OSTCBBitY c) = bm_ins (unat prio) b" for b
    using coords_of [OF cc] by (simp add: bm_ins_def) (simp add: c_def)
  define k1 where "k1 = k\<lparr>OSTCBFreeList := OSTCBNext (tcb k t), tcb := T,
    OSTCBPrioTbl := (OSTCBPrioTbl k)(unat prio := TCB t), OSTCBList := TCB t,
    OSRdy := bm_ins (unat prio) (OSRdy k), OSTaskCtr := OSTaskCtr k + 1\<rparr>"
  have "OS_TCBInit prio ptos pbos tid stk pext opt k = (OS_ERR_NONE, k1)"
  proof (cases "OSTCBList k")
    case (TCB u)
    then have ut: "u \<noteq> t" using l by auto
    have "T = (tcb k)(t := c, u := (tcb k u)\<lparr>OSTCBPrev := TCB t\<rparr>)"
      using TCB ut by (auto simp: T_def x_def fun_eq_iff)
    then show ?thesis
      using c [of "OSRdy k"] TCB ut
      by (simp add: OS_TCBInit_def t Let_def upd_tcb_def make_ready_def k1_def)
        (intro kernel.equality; simp add: c_def)
  qed (use c [of "OSRdy k"] in \<open>simp_all add: OS_TCBInit_def t Let_def upd_tcb_def make_ready_def k1_def\<close>,
       (intro kernel.equality; simp add: c_def T_def x_def fun_eq_iff)+)
  then show ?thesis
    using cc by (intro exI [of _ k1] exI [of _ x]) (simp add: k1_def T_def, simp add: c_def)
qed

text \<open>A state with one more task: \<open>t\<close> from the free list, ready, at the priority \<open>p\<close> nobody had.\<close>

lemma add_task_static:
  assumes k: "static_ok k" and t: "OSTCBFreeList k = TCB t" and free: "p < 64" "OSTCBPrioTbl k p = TNull"
    and tbl: "OSTCBPrioTbl k1 = (OSTCBPrioTbl k)(p := TCB t)" and li: "OSTCBList k1 = TCB t"
      "OSTCBFreeList k1 = OSTCBNext (tcb k t)"
    and r: "OSRdy k1 = bm_ins p (OSRdy k)" and o: "\<forall>u. u \<noteq> t \<longrightarrow> tcb k1 u = (tcb k u)\<lparr>OSTCBPrev := x u\<rparr>"
    and c: "unat (OSTCBPrio (tcb k1 t)) = p" "coords_ok (tcb k1 t)" "OSTCBStat (tcb k1 t) = 0"
      "OSTCBDly (tcb k1 t) = 0" "OSTCBEventPtr (tcb k1 t) = None" "OSTCBNext (tcb k1 t) = OSTCBList k"
    and e: "evt k1 = evt k" "osq k1 = osq k" "OSEventFreeList k1 = OSEventFreeList k" "OSQFreeList k1 = OSQFreeList k"
  shows "static_ok k1 \<and> (\<forall>q u. own k q u \<longrightarrow> own k1 q u)"
proof -
  have p: "p < 64" "\<forall>u. OSTCBPrioTbl k p \<noteq> TCB u" using free by simp_all
  obtain ts i fs where w: "task_list k ts i" "tcb_path k (TCB t) fs TNull" "distinct (ts @ i # fs)"
    "\<forall>p < 64. \<forall>t. OSTCBPrioTbl k p = TCB t \<longrightarrow> t \<in> set (i # ts)"
    using k t by (auto simp: static_ok_def tasks_ok_def)
  obtain fs' where fs': "fs = t # fs'" "tcb_path k (OSTCBNext (tcb k t)) fs' TNull" using w(2) by (cases fs) auto
  have new: "t \<noteq> i" "t \<notin> set ts" "t \<notin> set fs'" using w(3) fs'(1) by auto
  have b: "base_ok k" and s: "stat_ok k" using k by (auto simp: static_ok_def)
  have notin: "own k q u \<Longrightarrow> u \<noteq> t" for q u using w(4) new by (auto simp: own_def)
  have np: "\<not> own k p u" for u using p(2) by (simp add: own_def)
  have own_old: "own k1 q u \<longleftrightarrow> own k q u" if "u \<noteq> t" for q u
    using that o p(2) tbl by (auto simp: own_def coords_ok_def)
  have own_new: "own k1 q t \<longleftrightarrow> q = p" for q
    using c p(1) tbl by (auto simp: own_def)
  have mono: "own k q u \<Longrightarrow> own k1 q u" for q u using own_old notin by blast
  note bms = bm_move [OF baseD(1) [OF b] p(1)]
  have r1: "ready k1 = insert p (ready k)" using bms by (simp add: ready_def r)
  have w1: "waiting k1 = waiting k" by (simp add: waiting_def e fun_eq_iff)
  have pw: "p \<notin> waiting k i" if "i < OS_MAX_EVENTS" for i
    using baseD(5) [OF b that, of p] np by blast
  have "base_ok k1"
    unfolding base_ok_def
  proof (intro conjI allI impI ballI)
    show "bm_ok (OSRdy k1)" "63 \<in> ready k1" using bms baseD(3) [OF b] by (simp_all add: r r1)
    show "bm_ok (OSEventWait (evt k1 e))" if "e < OS_MAX_EVENTS" for e using baseD(2) [OF b that] by (simp add: e)
    show "own k1 (unat (OSTCBPrio (tcb k1 u))) u" if "q < 64" "OSTCBPrioTbl k1 q = TCB u" for q u
    proof (cases "u = t")
      case True
      then show ?thesis using own_new c(1) by simp
    next
      case False
      then have "OSTCBPrioTbl k q = TCB u" using that(2) tbl by (auto split: if_splits)
      then have "own k (unat (OSTCBPrio (tcb k u))) u" using b that(1) by (simp add: base_ok_def)
      then show ?thesis using mono False o by simp
    qed
    show "\<exists>u. own k1 q u" if "q \<in> ready k1" for q
      using that own_new mono baseD(4) [OF b, of q] by (auto simp: r1)
    show "\<exists>u. own k1 q u" if "e < OS_MAX_EVENTS" "q \<in> waiting k1 e" for e q
      using that mono baseD(5) [OF b that(1), of q] by (auto simp: w1)
  qed
  moreover have "stat_ok k1"
    unfolding stat_ok_def
  proof (intro allI impI)
    fix q u assume qu: "own k1 q u"
    show "task_ok k1 q u"
    proof (cases "u = t")
      case True
      then have "q = p" using qu own_new by simp
      then show ?thesis using True c pw by (simp add: task_ok_def r1 w1 pend_bits_def)
    next
      case False
      then have q: "own k q u" using qu own_old by simp
      then have "q \<noteq> p" using np by auto
      then have "task_ok k1 q u = task_ok k q u"
        using False o by (intro task_ok_frame) (simp_all add: r1 w1 e)
      then show ?thesis using s q by (simp add: stat_ok_def)
    qed
  qed
  moreover have "events_ok k1"
  proof (rule events_ok_frame [of k])
    show "exhausted k1 j" if "j < OS_MAX_EVENTS" "waiting k1 j \<noteq> {}" for j
      using that waiting_exhausted [of k j] k exhausted_frame [of k1 j k] by (simp add: w1 e static_ok_def)
  qed (use k in \<open>simp_all add: e static_ok_def\<close>)
  moreover have "tasks_ok k1"
  proof -
    have n: "OSTCBNext (tcb k1 u) = OSTCBNext (tcb k u)" if "u \<noteq> t" for u using o that by simp
    have "tcb_path k1 a us y = tcb_path k a us y" if "t \<notin> set us" for a us y
      by (rule tcb_path_frame) (use n that in metis)
    then have "tcb_path k1 (OSTCBList k1) (t # ts) (TCB i)" "tcb_path k1 (OSTCBFreeList k1) fs' TNull"
      using w(1) fs'(2) new c(6) li by (simp_all add: task_list_def)
    moreover have "own k1 63 i" "\<forall>u \<in> set (t # ts). \<exists>q. own k1 q u"
      using w(1) mono own_new unfolding task_list_def by (auto, blast)
    moreover have "distinct ((t # ts) @ i # fs')" using w(3) fs'(1) by auto
    ultimately have "task_list k1 (t # ts) i" by (simp add: task_list_def)
    moreover have "\<forall>p < 64. \<forall>u. OSTCBPrioTbl k1 p = TCB u \<longrightarrow> u \<in> set (i # t # ts)"
      using w(4) tbl by (auto split: if_splits)
    ultimately show ?thesis
      using \<open>tcb_path k1 (OSTCBFreeList k1) fs' TNull\<close> \<open>distinct ((t # ts) @ i # fs')\<close>
      unfolding tasks_ok_def by blast
  qed
  moreover have "mutexes_ok k1"
  proof -
    have m: "mutexes_ok k" using k by (simp add: static_ok_def)
    have at: "mutex_at k1 = mutex_at k" by (simp add: mutex_at_def e fun_eq_iff)
    have "mutex_ok k1 i" if i: "mutex_at k i" for i
    proof (rule untouched_ok [OF mutexes_okD [OF m UNIV_I i]])
      note ok = mutexes_okD [OF m UNIV_I i]
      show "OSTCBPrio (tcb k1 u) = OSTCBPrio (tcb k u)" if "OSEventPtr (evt k i) = PTCB u" for u
      proof -
        have "held k i u" using ok that by (simp add: mutex_ok_def)
        then have "u \<noteq> t" using held_own [OF b] notin by blast
        then show ?thesis using o by simp
      qed
      show "(mutex_pcp (evt k i) \<noteq> OS_PRIO_MUTEX_CEIL_DIS \<longrightarrow> unat (mutex_pcp (evt k i)) \<noteq> r) \<and>
          (\<forall>u. OSTCBPrioTbl k r \<noteq> TCB u)" if "OSTCBPrioTbl k1 r \<noteq> OSTCBPrioTbl k r" for r
      proof -
        have "r = p" using that tbl by (auto split: if_splits)
        then show ?thesis using free(2) ceiling_not_null [OF ok] by auto
      qed
    qed (simp_all add: e w1 at)
    then show ?thesis using m by (simp add: mutexes_in_def at e)
  qed
  ultimately show ?thesis using mono by (simp add: static_ok_def)
qed

text \<open>Reserving a priority, and giving it back when no control block is free.\<close>

lemma reserve_id: "OSTCBPrioTbl k p = TNull \<Longrightarrow> k\<lparr>OSTCBPrioTbl := (OSTCBPrioTbl k)(p := TReserved, p := TNull)\<rparr> = k"
  by (rule kernel.equality) auto

lemma create_static:
  assumes k: "static_ok k" and free: "OSTCBPrioTbl k (unat prio) = TNull" "prio < 64"
  defines "kr \<equiv> k\<lparr>OSTCBPrioTbl := (OSTCBPrioTbl k)(unat prio := TReserved)\<rparr>"
  shows "(\<exists>k1. OS_TCBInit prio ptos pbos tid stk pext opt kr = (OS_ERR_NONE, k1) \<and> static_ok k1 \<and>
      (\<forall>q u. own k q u \<longrightarrow> own k1 q u) \<and> OSTCBCur k1 = OSTCBCur k \<and> OSPrioCur k1 = OSPrioCur k \<and>
      OSIntNesting k1 = OSIntNesting k \<and> OSLockNesting k1 = OSLockNesting k \<and> OSRunning k1 = OSRunning k \<and>
      ready k1 = insert (unat prio) (ready k) \<and> (\<exists>t. OSTCBPrioTbl k1 = (OSTCBPrioTbl k)(unat prio := TCB t))) \<or>
    ((\<forall>t. OSTCBFreeList k \<noteq> TCB t) \<and> OS_TCBInit prio ptos pbos tid stk pext opt kr = (OS_ERR_TASK_NO_MORE_TCB, kr))"
proof (cases "OSTCBFreeList k")
  case (TCB t)
  obtain ts i fs where w: "task_list k ts i" "tcb_path k (TCB t) fs TNull" "distinct (ts @ i # fs)"
    using k TCB by (auto simp: static_ok_def tasks_ok_def)
  have "OSTCBList k \<noteq> TCB t"
    using w by (cases ts; cases fs) (auto simp: task_list_def)
  then have l: "OSTCBFreeList kr = TCB t" "OSTCBList kr \<noteq> TCB t" using TCB by (simp_all add: kr_def)
  obtain k1 x where k1: "OS_TCBInit prio ptos pbos tid stk pext opt kr = (OS_ERR_NONE, k1)"
    "OSTCBPrioTbl k1 = (OSTCBPrioTbl kr)(unat prio := TCB t)" "OSTCBList k1 = TCB t"
    "OSTCBFreeList k1 = OSTCBNext (tcb kr t)" "OSRdy k1 = bm_ins (unat prio) (OSRdy kr)"
    "\<forall>u. u \<noteq> t \<longrightarrow> tcb k1 u = (tcb kr u)\<lparr>OSTCBPrev := x u\<rparr>"
    "OSTCBPrio (tcb k1 t) = prio" "coords_ok (tcb k1 t)" "OSTCBStat (tcb k1 t) = 0" "OSTCBDly (tcb k1 t) = 0"
    "OSTCBEventPtr (tcb k1 t) = None" "OSTCBNext (tcb k1 t) = OSTCBList kr"
    "evt k1 = evt kr" "osq k1 = osq kr" "OSEventFreeList k1 = OSEventFreeList kr" "OSQFreeList k1 = OSQFreeList kr"
    "OSTCBCur k1 = OSTCBCur kr" "OSPrioCur k1 = OSPrioCur kr" "OSIntNesting k1 = OSIntNesting kr"
    "OSLockNesting k1 = OSLockNesting kr" "OSRunning k1 = OSRunning kr"
    using OS_TCBInit_eq [OF l(1) free(2) l(2), of ptos pbos tid stk pext opt] by blast
  have tbl: "OSTCBPrioTbl k1 = (OSTCBPrioTbl k)(unat prio := TCB t)" using k1(2) by (simp add: kr_def)
  have p64: "unat prio < 64" using free(2) by (simp add: word_less_nat_alt)
  have "static_ok k1 \<and> (\<forall>q u. own k q u \<longrightarrow> own k1 q u)"
    by (rule add_task_static [OF k TCB p64 _ tbl, where x = x])
      (use k1 free(1) in \<open>simp_all add: kr_def\<close>)
  moreover have "ready k1 = insert (unat prio) (ready k)"
    using bm_move [OF baseD(1) p64] k by (simp add: ready_def k1(5) kr_def static_ok_def)
  ultimately show ?thesis using k1(1,17-21) tbl by (auto simp: kr_def)
qed (simp_all add: OS_TCBInit_def kr_def)

text \<open>Both ways to create a task, before the start and in a running system.\<close>

definition create_task :: "(kernel \<Rightarrow> (os_err \<times> kernel) option) \<Rightarrow> bool" where
  "create_task f \<longleftrightarrow> (\<exists>prio ptos pbos tid stk pext opt. prio < 64 \<and>
     (f = OSTaskCreateExt ptos prio tid pbos stk pext opt \<or> f = OSTaskCreate ptos prio))"

lemma create_task_run:
  assumes k: "static_ok k" and f: "create_task f"
  shows "(\<exists>r. f k = Some (r, k)) \<or>
    (\<exists>k1 p. f k = do { k \<leftarrow> (if OSRunning k then OS_Sched k1 else Some k1); Some (OS_ERR_NONE, k) } \<and> static_ok k1 \<and>
      (\<forall>q u. own k q u \<longrightarrow> own k1 q u) \<and> OSTCBCur k1 = OSTCBCur k \<and> OSPrioCur k1 = OSPrioCur k \<and>
      OSIntNesting k1 = OSIntNesting k \<and> OSRunning k1 = OSRunning k \<and> ready k1 = insert p (ready k))"
proof -
  obtain prio ptos pbos tid stk pext opt where p: "prio < 64"
    and f: "f = OSTaskCreateExt ptos prio tid pbos stk pext opt \<or> f = OSTaskCreate ptos prio"
    using f unfolding create_task_def by blast
  show ?thesis
  proof (cases "OSIntNesting k = 0 \<and> OSTCBPrioTbl k (unat prio) = TNull")
    case False
    then show ?thesis using f by (auto simp: OSTaskCreateExt_def OSTaskCreate_def)
  next
    case True
    then have n: "OSTCBPrioTbl k (unat prio) = TNull" by simp
    have id: "k\<lparr>OSTCBPrioTbl := (OSTCBPrioTbl k)(unat prio := TNull)\<rparr> = k"
      using n by (intro kernel.equality) auto
    define kr where "kr = k\<lparr>OSTCBPrioTbl := (OSTCBPrioTbl k)(unat prio := TReserved)\<rparr>"
    obtain s b i z x w where fk: "f k = (case OS_TCBInit prio s b i z x w kr of (err, k1) \<Rightarrow>
        if err = OS_ERR_NONE then do { k \<leftarrow> (if OSRunning k1 then OS_Sched k1 else Some k1); Some (err, k) }
        else Some (err, k1\<lparr>OSTCBPrioTbl := (OSTCBPrioTbl k1)(unat prio := TNull)\<rparr>))"
      using f True by (auto simp: OSTaskCreateExt_def OSTaskCreate_def Let_def kr_def split: prod.splits)
    have undo: "kr\<lparr>OSTCBPrioTbl := (OSTCBPrioTbl kr)(unat prio := TNull)\<rparr> = k" using id by (simp add: kr_def)
    from create_static [OF k n p, of s b i z x w, folded kr_def] show ?thesis
    proof (elim disjE exE conjE)
      fix k1 assume k1: "OS_TCBInit prio s b i z x w kr = (OS_ERR_NONE, k1)" "static_ok k1"
        "\<forall>q u. own k q u \<longrightarrow> own k1 q u" "OSTCBCur k1 = OSTCBCur k" "OSPrioCur k1 = OSPrioCur k"
        "OSIntNesting k1 = OSIntNesting k" "OSLockNesting k1 = OSLockNesting k" "OSRunning k1 = OSRunning k"
        "ready k1 = insert (unat prio) (ready k)"
      have "f k = do { k \<leftarrow> (if OSRunning k then OS_Sched k1 else Some k1); Some (OS_ERR_NONE, k) }"
        using fk k1(1,8) by simp
      then show ?thesis using k1 by blast
    next
      assume "OS_TCBInit prio s b i z x w kr = (OS_ERR_TASK_NO_MORE_TCB, kr)" "\<forall>t. OSTCBFreeList k \<noteq> TCB t"
      then show ?thesis using fk undo by simp
    qed
  qed
qed

lemma create_before_start:
  assumes "static_ok k" "\<not> OSRunning k" "create_task f"
  shows "\<exists>r k'. f k = Some (r, k') \<and> static_ok k' \<and> \<not> OSRunning k' \<and> OSIntNesting k' = OSIntNesting k"
  using create_task_run [OF assms(1,3)] assms(1,2) by auto

lemma create_running:
  assumes k: "kworld k" and run: "OSRunning k" and f: "create_task f"
  shows "\<exists>r k'. f k = Some (r, k') \<and> kworld k' \<and> OSRunning k'"
  using create_task_run [OF kworld_static [OF k] f]
proof (elim disjE exE conjE)
  fix k1 p assume k1: "f k = do { k \<leftarrow> (if OSRunning k then OS_Sched k1 else Some k1); Some (OS_ERR_NONE, k) }"
    "static_ok k1" "\<forall>q u. own k q u \<longrightarrow> own k1 q u" "OSTCBCur k1 = OSTCBCur k" "OSPrioCur k1 = OSPrioCur k"
    "OSRunning k1 = OSRunning k"
  have "cur_ok k1" using k k1(3-5) by (auto simp: kworld_def kgood_def kinv_def cur_ok_def)
  then have "kinv k1" "events_ok k1" "tasks_ok k1" "mutexes_ok k1" using k1(2) by (simp_all add: static_ok_def kinv_def)
  then obtain k' where k': "OS_Sched k1 = Some k'" "kgood k'" "same_tasks k1 k'" "sched_eq k1 k'"
    using kgood_sched by blast
  have "tasks_ok k'" using tasks_ok_same [OF \<open>tasks_ok k1\<close> k'(3)] k1(2) kgoodD(4) [OF k'(2)] by (simp add: static_ok_def)
  then show ?thesis
    using k1(1,6) k' run mutexes_ok_same [OF \<open>mutexes_ok k1\<close> sched_same_mt [OF k'(4)]]
    by (simp add: kworld_def same_tasks_def)
qed (use k run in auto)

section \<open>Initialisation\<close>

lemma static_tcb_frame:
  assumes k: "static_ok k"
    and f: "\<And>u. OSTCBStat (T u) = OSTCBStat (tcb k u) \<and> OSTCBDly (T u) = OSTCBDly (tcb k u) \<and>
      OSTCBEventPtr (T u) = OSTCBEventPtr (tcb k u) \<and> OSTCBStatPend (T u) = OSTCBStatPend (tcb k u) \<and>
      OSTCBNext (T u) = OSTCBNext (tcb k u) \<and> same_coords (tcb k u) (T u)"
  shows "static_ok (k\<lparr>tcb := T\<rparr>)"
proof -
  define k1 where "k1 = k\<lparr>tcb := T\<rparr>"
  have o: "own k1 = own k"
    using f by (intro ext) (simp add: own_def k1_def same_coords_def coords_ok_def)
  have r: "ready k1 = ready k" and w: "waiting k1 = waiting k" by (simp_all add: ready_def waiting_def k1_def fun_eq_iff)
  have st: "same_tasks k k1" using f by (simp add: same_tasks_def k1_def same_coords_def)
  have b: "base_ok k" using k by (simp add: static_ok_def)
  have b1: "base_ok k1"
    using b f by (simp add: base_ok_def o r w) (simp add: k1_def same_coords_def)
  have "task_ok k1 p u = task_ok k p u" for p u
    using f by (intro task_ok_frame) (simp_all add: r w, simp_all add: k1_def)
  then have "stat_ok k1" using k by (simp add: stat_ok_def o static_ok_def)
  moreover have "events_ok k1"
    using k st by (auto simp: static_ok_def evt_same_def k1_def intro: events_evt_same [of k])
  moreover have "tasks_ok k1" using tasks_ok_same [OF _ st b b1] k by (simp add: static_ok_def)
  moreover have "mutexes_ok k1" using mutexes_ok_evt [OF _ st] k by (simp add: static_ok_def k1_def)
  ultimately show ?thesis using b1 by (simp add: static_ok_def k1_def)
qed

lemma OSTaskNameSet_static:
  assumes k: "static_ok k" and n: "OSIntNesting k = 0" and p: "p \<noteq> OS_PRIO_SELF" "OSTCBPrioTbl k (unat p) = TCB t"
  shows "\<exists>k1. OSTaskNameSet p name k = Some (OS_ERR_NONE, k1) \<and> static_ok k1 \<and> OSIntNesting k1 = 0 \<and>
    OSLockNesting k1 = OSLockNesting k \<and> OSRunning k1 = OSRunning k \<and> ready k1 = ready k \<and> OSTCBPrioTbl k1 = OSTCBPrioTbl k \<and>
    OSTCBFreeList k1 = OSTCBFreeList k"
proof -
  define k1 where "k1 = k\<lparr>tcb := (tcb k)(t := (tcb k t)\<lparr>OSTCBTaskName := name\<rparr>)\<rparr>"
  have "static_ok k1" unfolding k1_def by (rule static_tcb_frame [OF k]) (simp add: same_coords_def)
  then show ?thesis using n p by (simp add: OSTaskNameSet_def upd_tcb_def k1_def ready_def)
qed

text \<open>The tables as the first four steps of \<open>OSInit\<close> leave them.\<close>

definition cleared :: "kernel \<Rightarrow> bool" where
  "cleared k \<longleftrightarrow> bm_ok (OSRdy k) \<and> ready k = {} \<and> (\<forall>p < 64. OSTCBPrioTbl k p = TNull) \<and> OSTCBList k = TNull \<and>
     tcb_path k (OSTCBFreeList k) [0..<OS_MAX_TCBS] TNull \<and> events_ok k \<and>
     (\<forall>e < OS_MAX_EVENTS. bm_ok (OSEventWait (evt k e)) \<and> waiting k e = {} \<and> OSEventType (evt k e) = OS_EVENT_TYPE_UNUSED) \<and>
     OSIntNesting k = 0 \<and> OSLockNesting k = 0 \<and>
     \<not> OSRunning k"

lemma bm_cleared: "bm_ok (bm_clear b)" "bm_elems (bm_clear b) = {}"
  by (auto simp: bm_ok_def bm_elems_def bm_clear_def)

lemma upt_events: "[0..<10] = [0, 1, 2, 3, 4, 5, 6, 7, 8, 9]" "[0..<8] = [0, 1, 2, 3, 4, 5, 6, 7]"
  "[0..<4] = [0, 1, 2, 3]"
  by (simp_all add: upt_rec)

lemma cleared_init:
  "cleared (OS_QInit (OS_InitEventList (OS_InitTCBList (OS_InitRdyList (OS_InitMisc k)))))" (is "cleared ?k")
proof -
  have w: "waiting ?k e = {}" "bm_ok (OSEventWait (evt ?k e))" if "e < OS_MAX_EVENTS" for e
    using that bm_cleared by (auto simp: waiting_def OS_QInit_def OS_InitEventList_def zero_event_def)
  have t: "OSEventType (evt ?k e) = OS_EVENT_TYPE_UNUSED" if "e < OS_MAX_EVENTS" for e
    using that by (auto simp: OS_QInit_def OS_InitEventList_def zero_event_def)
  have "evt_path (evt ?k) (OSEventFreeList ?k) [0..<OS_MAX_EVENTS]"
    by (simp add: upt_events OS_QInit_def OS_InitEventList_def next_free_def zero_event_def)
  moreover have "set [0..<OS_MAX_EVENTS] = unused_events ?k" using t by (auto simp: unused_events_def)
  ultimately have "free_events_ok ?k" unfolding free_events_ok_def using distinct_upt by blast
  moreover have qe: "queue_events ?k = {}" using t by (auto simp: queue_events_def)
  have "q_path (osq ?k) (OSQFreeList ?k) [0..<OS_MAX_QS]"
    by (simp add: upt_events OS_QInit_def)
  then have "queues_ok ?k" using qe unfolding queues_ok_def by (intro conjI exI [of _ "[0..<OS_MAX_QS]"]) auto
  moreover have "waits_ok ?k" using w by (simp add: waits_ok_def)
  ultimately have "events_ok ?k" by (simp add: events_ok_def)
  moreover have "tcb_path ?k (OSTCBFreeList ?k) [0..<OS_MAX_TCBS] TNull"
    by (simp add: upt_events OS_QInit_def OS_InitEventList_def OS_InitTCBList_def zero_tcb_def)
  ultimately show ?thesis
    using w t bm_cleared
    by (simp add: cleared_def ready_def)
      (simp add: OS_QInit_def OS_InitEventList_def OS_InitTCBList_def OS_InitRdyList_def OS_InitMisc_def)
qed

text \<open>The idle task makes the cleared tables a state in order.\<close>

lemma first_task:
  assumes k: "cleared k"
  shows "\<exists>k1. OSTaskCreateExt ptos 63 tid pbos stk pext opt k = Some (OS_ERR_NONE, k1) \<and> static_ok k1 \<and>
    OSIntNesting k1 = 0 \<and> OSLockNesting k1 = 0 \<and> \<not> OSRunning k1 \<and> ready k1 = {63} \<and> OSTCBPrioTbl k1 63 = TCB 0 \<and> OSTCBPrioTbl k1 62 = TNull \<and>
    OSTCBFreeList k1 = TCB 1"
proof -
  define kr where "kr = k\<lparr>OSTCBPrioTbl := (OSTCBPrioTbl k)(63 := TReserved)\<rparr>"
  have fl: "OSTCBFreeList kr = TCB 0" "OSTCBList kr = TNull" using k by (simp_all add: cleared_def kr_def upt_events)
  obtain k1 x where k1: "OS_TCBInit 63 (OSTaskStkInit ptos) pbos tid stk pext opt kr = (OS_ERR_NONE, k1)"
    "OSTCBPrioTbl k1 = (OSTCBPrioTbl kr)(unat (63 :: u8) := TCB 0)" "OSTCBList k1 = TCB 0"
    "OSTCBFreeList k1 = OSTCBNext (tcb kr 0)" "OSRdy k1 = bm_ins (unat (63 :: u8)) (OSRdy kr)"
    "\<forall>u. u \<noteq> 0 \<longrightarrow> tcb k1 u = (tcb kr u)\<lparr>OSTCBPrev := x u\<rparr>"
    "OSTCBPrio (tcb k1 0) = 63" "coords_ok (tcb k1 0)" "OSTCBStat (tcb k1 0) = 0" "OSTCBDly (tcb k1 0) = 0"
    "OSTCBEventPtr (tcb k1 0) = None" "OSTCBNext (tcb k1 0) = OSTCBList kr"
    "evt k1 = evt kr" "osq k1 = osq kr" "OSEventFreeList k1 = OSEventFreeList kr" "OSQFreeList k1 = OSQFreeList kr"
    "OSTCBCur k1 = OSTCBCur kr" "OSPrioCur k1 = OSPrioCur kr" "OSIntNesting k1 = OSIntNesting kr"
    "OSLockNesting k1 = OSLockNesting kr" "OSRunning k1 = OSRunning kr"
    using OS_TCBInit_eq [OF fl(1), of 63 "OSTaskStkInit ptos" pbos tid stk pext opt] fl(2)
    by (auto simp: word_less_nat_alt)
  have tbl: "OSTCBPrioTbl k1 p = (if p = 63 then TCB 0 else TNull)" if "p < 64" for p
    using k that by (simp add: k1(2) kr_def cleared_def)
  have ow: "own k1 p u \<longleftrightarrow> p = 63 \<and> u = 0" for p u
    using tbl [of p] k1(7,8) by (auto simp: own_def split: if_splits)
  have r1: "ready k1 = {63}"
    using bm_move(3) [of "OSRdy k" 63] k by (simp add: ready_def k1(5) kr_def cleared_def)
  have w1: "waiting k1 e = {}" if "e < OS_MAX_EVENTS" for e
    using that k by (simp add: waiting_def k1(13) kr_def cleared_def)
  have "base_ok k1"
    unfolding base_ok_def ow using k w1 r1 tbl bm_move(1) [of "OSRdy k" 63] k1(7)
    by (auto simp: cleared_def k1(5,13) kr_def split: if_splits)
  moreover have "stat_ok k1"
    unfolding stat_ok_def ow using w1 r1 k1(9-11) by (auto simp: task_ok_def pend_bits_def)
  moreover have "events_ok k1"
  proof (rule events_ok_frame [of k])
    show "exhausted k1 e" if "e < OS_MAX_EVENTS" "waiting k1 e \<noteq> {}" for e using that w1 by simp
  qed (use k in \<open>simp_all add: k1(13-16) kr_def cleared_def\<close>)
  moreover have fl1: "OSTCBFreeList k1 = TCB 1" using k by (simp add: k1(4) kr_def cleared_def upt_events)
  moreover have "tasks_ok k1"
  proof -
    have "tcb_path k (OSTCBNext (tcb k 0)) [1, 2, 3, 4, 5, 6, 7] TNull"
      using k by (simp add: cleared_def upt_events)
    then have "tcb_path k1 (OSTCBFreeList k1) [1, 2, 3, 4, 5, 6, 7] TNull"
      using k1(6) by (subst tcb_path_frame [of _ _ k]) (auto simp: k1(4) kr_def)
    moreover have "task_list k1 [] 0" using k1(3) by (simp add: task_list_def ow)
    moreover have "\<forall>p < 64. \<forall>t. OSTCBPrioTbl k1 p = TCB t \<longrightarrow> t \<in> set [0]" using tbl by auto
    moreover have "distinct ([] @ 0 # [1, 2, 3, 4, 5, 6, 7 :: nat])" by simp
    ultimately show ?thesis unfolding tasks_ok_def by blast
  qed
  moreover have "mutexes_ok k1"
    using k by (auto simp: mutexes_in_def mutex_at_def k1(13) kr_def cleared_def)
  ultimately have "static_ok k1" by (simp add: static_ok_def)
  moreover have "OSTaskCreateExt ptos 63 tid pbos stk pext opt k = Some (OS_ERR_NONE, k1)"
    using k k1(1,21) by (simp add: OSTaskCreateExt_def cleared_def kr_def)
  ultimately show ?thesis using k k1(19-21) r1 tbl fl1 by (simp add: cleared_def kr_def)
qed

lemma OSInit_static:
  "\<exists>k'. OSInit s1 s2 k = Some k' \<and> static_ok k' \<and> OSIntNesting k' = 0 \<and> OSLockNesting k' = 0 \<and> \<not> OSRunning k' \<and> ready k' = {62, 63}"
proof -
  define k0 where "k0 = OS_QInit (OS_InitEventList (OS_InitTCBList (OS_InitRdyList (OS_InitMisc k))))"
  have "cleared k0" unfolding k0_def by (rule cleared_init)
  then obtain k1 where k1: "OSTaskCreateExt (s1 + 4 * 127) 63 65535 s1 128 0 3 k0 = Some (OS_ERR_NONE, k1)" "static_ok k1"
    "OSIntNesting k1 = 0" "OSLockNesting k1 = 0" "\<not> OSRunning k1" "ready k1 = {63}" "OSTCBPrioTbl k1 63 = TCB 0" "OSTCBPrioTbl k1 62 = TNull"
    "OSTCBFreeList k1 = TCB 1"
    using first_task by blast
  obtain k2 where k2: "OSTaskNameSet 63 ''uC/OS-II Idle'' k1 = Some (OS_ERR_NONE, k2)" "static_ok k2"
    "OSIntNesting k2 = 0" "OSLockNesting k2 = 0" "\<not> OSRunning k2" "ready k2 = {63}" "OSTCBPrioTbl k2 = OSTCBPrioTbl k1" "OSTCBFreeList k2 = TCB 1"
    using OSTaskNameSet_static [OF k1(2,3), of 63 0 "''uC/OS-II Idle''"] k1(4-7,9) by auto
  have free: "OSTCBPrioTbl k2 (unat (62 :: u8)) = TNull" using k1(8) k2(7) by simp
  have p: "(62 :: u8) < 64" by (simp add: word_less_nat_alt)
  define kr where "kr = k2\<lparr>OSTCBPrioTbl := (OSTCBPrioTbl k2)(unat (62 :: u8) := TReserved)\<rparr>"
  obtain k3 t where k3i: "OS_TCBInit 62 (OSTaskStkInit (s2 + 4 * 127)) s2 65534 128 0 3 kr = (OS_ERR_NONE, k3)"
    "static_ok k3" "OSIntNesting k3 = OSIntNesting k2" "OSLockNesting k3 = OSLockNesting k2" "OSRunning k3 = OSRunning k2"
    "ready k3 = insert (unat (62 :: u8)) (ready k2)" "OSTCBPrioTbl k3 = (OSTCBPrioTbl k2)(unat (62 :: u8) := TCB t)"
    using create_static [OF k2(2) free p, of "OSTaskStkInit (s2 + 4 * 127)" s2 65534 128 0 3, folded kr_def] k2(8)
    by auto
  have k3: "OSTaskCreateExt (s2 + 4 * 127) 62 65534 s2 128 0 3 k2 = Some (OS_ERR_NONE, k3)" "static_ok k3"
    "OSIntNesting k3 = 0" "OSLockNesting k3 = 0" "\<not> OSRunning k3" "ready k3 = {62, 63}" "OSTCBPrioTbl k3 62 = TCB t"
    using k3i k2(3-6) free by (auto simp: OSTaskCreateExt_def kr_def)
  obtain k4 where k4: "OSTaskNameSet 62 ''uC/OS-II Stat'' k3 = Some (OS_ERR_NONE, k4)" "static_ok k4"
    "OSIntNesting k4 = 0" "OSLockNesting k4 = 0" "\<not> OSRunning k4" "ready k4 = {62, 63}"
    using OSTaskNameSet_static [OF k3(2,3), of 62 t "''uC/OS-II Stat''"] k3(4-7) by auto
  have "OSInit s1 s2 k = Some k4"
    using k1(1) k2(1) k3(1) k4(1) by (simp add: OSInit_def Let_def OS_InitTaskIdle_def OS_InitTaskStat_def flip: k0_def)
  then show ?thesis using k4 by blast
qed

section \<open>The start\<close>

lemma OSStart_world:
  assumes k: "static_ok k" and r: "\<not> OSRunning k"
  shows "kworld (OSStart k) \<and> OSRunning (OSStart k) \<and> OSIntNesting (OSStart k) = OSIntNesting k \<and>
    OSLockNesting (OSStart k) = OSLockNesting k \<and> ready (OSStart k) = ready k"
proof -
  have b: "base_ok k" using k by (simp add: static_ok_def)
  obtain t where t: "own k (Min (ready k)) t" using base_high(2) [OF b] by blast
  define ph where "ph = bm_high (OSRdy k)"
  have ph: "unat ph = Min (ready k)" using base_high(1) [OF b] by (simp add: ph_def)
  then have pt: "OSTCBPrioTbl k (unat ph) = TCB t" using t by (simp add: own_def)
  define k1 where "k1 = k\<lparr>OSPrioHighRdy := ph, OSPrioCur := ph, OSTCBHighRdy := TCB t, OSTCBCur := TCB t, OSRunning := True\<rparr>"
  have eq: "OSStart k = k1" using r pt by (simp add: OSStart_def OS_SchedNew_def Let_def k1_def flip: ph_def)
  have o: "own k1 = own k" by (simp add: own_def k1_def fun_eq_iff)
  have rd: "ready k1 = ready k" and w: "waiting k1 = waiting k" by (simp_all add: ready_def waiting_def k1_def fun_eq_iff)
  have "base_ok k1" using b by (simp add: base_ok_def o rd w) (simp add: k1_def)
  moreover have "task_ok k1 p u = task_ok k p u" for p u
    by (rule task_ok_frame) (simp_all add: rd w, simp_all add: k1_def)
  then have "stat_ok k1" using k by (simp add: stat_ok_def o static_ok_def)
  moreover have "cur_ok k1" using t ph by (simp add: cur_ok_def o) (simp add: k1_def)
  moreover have "preempt_ok k1" using ph by (simp add: preempt_ok_def highest_runs_def rd) (simp add: k1_def)
  moreover have "events_ok k1"
  proof (rule events_ok_frame [of k])
    show "exhausted k1 e" if "e < OS_MAX_EVENTS" "waiting k1 e \<noteq> {}" for e
      using that waiting_exhausted [of k e] k exhausted_frame [of k1 e k] by (simp add: w static_ok_def) (simp add: k1_def)
  qed (use k in \<open>simp_all add: k1_def static_ok_def\<close>)
  moreover have "tasks_ok k1"
  proof -
    have "tcb_path k1 a us b = tcb_path k a us b" for a us b by (rule tcb_path_frame) (simp add: k1_def)
    then show ?thesis using k by (simp add: static_ok_def tasks_ok_def task_list_def o) (simp add: k1_def)
  qed
  moreover have "mutexes_ok k1"
  proof -
    have m: "mutexes_ok k" using k by (simp add: static_ok_def)
    have at: "mutex_at k1 = mutex_at k" by (simp add: mutex_at_def k1_def fun_eq_iff)
    have "mutex_ok k1 i" if "mutex_at k i" for i
      by (rule untouched_ok [OF mutexes_okD [OF m UNIV_I that]]) (simp_all add: at w, simp_all add: k1_def)
    then show ?thesis using m by (simp add: mutexes_in_def at) (simp add: k1_def)
  qed
  ultimately show ?thesis by (simp add: eq kworld_def kgood_def kinv_def rd) (simp add: k1_def)
qed

end
