(* ===== verification/Kernel_Run.thy ===== *)
theory Kernel_Run
  imports Kernel_Boot
begin

text \<open>
  The kernel as a whole: a step is a service called by the running task or an interrupt handler, the
  second half of a wait, the start or the end of an interrupt, or the tick. The reachable states are
  those that follow the boot by such steps.
\<close>

section \<open>The tick\<close>

lemma tick_of_keeps:
  "OSTCBNext (tick_of c) = OSTCBNext c \<and> OSTCBPrio (tick_of c) = OSTCBPrio c"
  by (simp add: tick_of_def dly_over_def)

text \<open>A tick on a state with the same tasks and events as a good one, inside the interrupt.\<close>

lemma OSTimeTick_run:
  assumes k: "kinv k" "events_ok k" "tasks_ok k" and r: "OSRunning k"
  shows "\<exists>k'. OSTimeTick k = Some k' \<and> kinv k' \<and> events_ok k' \<and> same_mt k k' \<and> OSTime k' = OSTime k + 1 \<and>
    OSIntNesting k' = OSIntNesting k \<and> OSLockNesting k' = OSLockNesting k \<and>
    OSTickStepState k' = snd (tick_stepping (OSTickStepState k)) \<and>
    (if fst (tick_stepping (OSTickStepState k))
     then (\<forall>p t. own k p t \<longrightarrow> p \<noteq> 63 \<longrightarrow> tcb k' t = tick_of (tcb k t)) \<and>
       ready k' = ready k \<union> {p. p \<noteq> 63 \<and> (\<exists>t. own k p t \<and> wakes (tcb k t))}
     else tcb k' = tcb k \<and> ready k' = ready k)"
proof -
  define s where "s = snd (tick_stepping (OSTickStepState k))"
  define k0 where "k0 = k\<lparr>OSTime := OSTime k + 1, OSTickStepState := s\<rparr>"
  have k0: "kinv k0" "events_ok k0"
  proof -
    show "kinv k0" by (rule kinv_frame [OF _ _ _ _ _ _ _ k(1)]) (simp_all add: k0_def)
    show "events_ok k0"
      by (rule events_evt_same [OF k(2)]) (simp add: evt_same_def same_tasks_def k0_def)
  qed
  have f: "own k0 = own k" "ready k0 = ready k" "tcb k0 = tcb k"
    by (simp_all add: own_def ready_def k0_def fun_eq_iff)
  show ?thesis
  proof (cases "fst (tick_stepping (OSTickStepState k))")
    case False
    then have "OSTimeTick k = Some k0"
      using r by (simp add: OSTimeTick_def Let_def case_prod_beta k0_def s_def)
    moreover have "same_mt k k0" by (rule same_mt_evt) (simp_all add: same_tasks_def k0_def)
    ultimately show ?thesis using False k0 f by (auto simp: k0_def s_def)
  next
    case True
    obtain ts i where w: "tcb_path k (OSTCBList k) ts (TCB i)" "distinct (ts @ [i])" "own k 63 i"
      "\<forall>t \<in> set ts. \<exists>p. own k p t" "\<forall>p < 64. \<forall>t. OSTCBPrioTbl k p = TCB t \<longrightarrow> t \<in> set (i # ts)"
      using k(3) by (fastforce simp: tasks_ok_def task_list_def)
    have path: "tcb_path k0 (OSTCBList k) ts (TCB i)" using w(1) by (subst tcb_path_frame [of _ _ k]) (simp_all add: f)
    obtain k' where k': "tick_loop (OSTCBList k) k0 = Some k'" "kinv k'" "own k' = own k0" "waiting k' = waiting k0"
      "k' = k0\<lparr>tcb := (\<lambda>t. if t \<in> set ts then tick_of (tcb k0 t) else tcb k0 t), OSRdy := OSRdy k'\<rparr>"
      "ready k' = ready k0 \<union> {p. \<exists>t \<in> set ts. own k0 p t \<and> wakes (tcb k0 t)}"
      using tick_loop_ok [OF k0(1) path] w(2-4) unfolding f by blast
    have run: "OSTimeTick k = Some k'"
      using r True k'(1) by (simp add: OSTimeTick_def Let_def case_prod_beta k0_def s_def)
    have g: "evt k' = evt k" "osq k' = osq k" "OSEventFreeList k' = OSEventFreeList k" "OSQFreeList k' = OSQFreeList k"
      "OSTCBPrioTbl k' = OSTCBPrioTbl k" "OSTCBList k' = OSTCBList k" "OSRunning k' = OSRunning k"
      "OSTCBFreeList k' = OSTCBFreeList k" "OSTime k' = OSTime k + 1" "OSIntNesting k' = OSIntNesting k"
      "OSLockNesting k' = OSLockNesting k" "OSTickStepState k' = s" "tcb k' = (\<lambda>t. if t \<in> set ts then tick_of (tcb k t) else tcb k t)"
      by (subst k'(5), simp add: k0_def cong: if_cong)+
    have st: "same_tasks k k'" using g tick_of_keeps by (simp add: same_tasks_def)
    have ev: "events_ok k'"
      by (rule events_evt_same [OF k(2)]) (simp add: evt_same_def st g)
    have mem: "own k p t \<Longrightarrow> p \<noteq> 63 \<Longrightarrow> t \<in> set ts" for p t
      using w(3,5) own_inj(2) [of k p t 63] by (auto simp: own_def)
    have no63: "t \<in> set ts \<Longrightarrow> own k p t \<Longrightarrow> p \<noteq> 63" for p t
      using w(2,3) own_inj(1) [of k 63 t i] by auto
    have "{p. \<exists>t \<in> set ts. own k p t \<and> wakes (tcb k t)} = {p. p \<noteq> 63 \<and> (\<exists>t. own k p t \<and> wakes (tcb k t))}"
      using mem no63 by blast
    then have "ready k' = ready k \<union> {p. p \<noteq> 63 \<and> (\<exists>t. own k p t \<and> wakes (tcb k t))}"
      using k'(6) by (simp add: f)
    moreover have "\<forall>p t. own k p t \<longrightarrow> p \<noteq> 63 \<longrightarrow> tcb k' t = tick_of (tcb k t)"
      using mem by (simp add: g(13))
    ultimately show ?thesis
      using run k'(2) same_mt_evt [OF st g(1)] g(9-12) True ev by (intro exI [of _ k']) (simp add: s_def)
  qed
qed

lemma kworld_good: "kworld k \<Longrightarrow> kgood k" by (simp add: kworld_def)

lemma SysTick_world:
  assumes k: "kworld k" and r: "OSRunning k" and n: "OSIntNesting k < 255"
  shows "\<exists>k'. OS_CPU_SysTickHandler k = Some k' \<and> kworld k' \<and> same_tasks k k'"
proof -
  define n1 where "n1 = OSIntNesting k + 1"
  define k1 where "k1 = k\<lparr>OSIntNesting := n1, OSLockNesting := OSLockNesting k\<rparr>"
  have k1: "kinv k1" "events_ok k1" "same_mt k k1"
    unfolding k1_def using nesting_frame [OF kworld_good [OF k]] by blast+
  have t1: "tasks_ok k1"
    using tasks_ok_same [OF _ same_mt_tasks [OF k1(3)]] k k1(1) by (simp add: kworld_def kgood_def kinv_def)
  have r1: "OSRunning k1" by (simp add: k1_def r)
  obtain k2 where k2: "OSTimeTick k1 = Some k2" "kinv k2" "events_ok k2" "same_mt k1 k2" "OSIntNesting k2 = OSIntNesting k1"
    using OSTimeTick_run [OF k1(1,2) t1 r1] by blast
  have "n1 \<noteq> 0"
  proof
    assume "n1 = 0"
    then have "OSIntNesting k = - 1" by (simp add: n1_def eq_neg_iff_add_eq_0)
    then show False using n by simp
  qed
  then have "kgood k2" using k2 by (simp add: kgood_def preempt_ok_def k1_def)
  moreover have s2: "same_mt k k2" by (rule same_mt_trans [OF k1(3) k2(4)])
  moreover have "OSRunning k2" using same_mt_tasks [OF s2] r by (simp add: same_tasks_def)
  ultimately have "safe k (OSIntExit k2)" using OSIntExit_safe safe_trans by blast
  moreover have "k\<lparr>OSIntNesting := OSIntNesting k + 1\<rparr> = k1" by (simp add: k1_def n1_def)
  ultimately have "safe k (OS_CPU_SysTickHandler k)" using k2(1) by (simp add: OS_CPU_SysTickHandler_def)
  then show ?thesis using kworld_safe [OF k] by blast
qed

section \<open>Services as data\<close>

datatype service =
    SemAccept nat | SemCreate u16 | SemDel nat u8 | SemPend nat u32 | SemPendAbort nat u8 | SemPost nat | SemSet nat u16
  | MboxAccept nat | MboxCreate addr | MboxDel nat u8 | MboxPend nat u32 | MboxPendAbort nat u8 | MboxPost nat addr
  | MboxPostOpt nat addr u8
  | QAccept nat | QCreate addr u16 | QDel nat u8 | QFlush nat | QPend nat u32 | QPendAbort nat u8 | QPost nat addr
  | QPostFront nat addr | QPostOpt nat addr u8
  | MutexAccept nat | MutexCreate u8 | MutexDel nat u8 | MutexPend nat u32 | MutexPost nat
  | TimeDly u32 | TimeDlyHMSM u8 u8 u8 u16 | TimeDlyResume u8
  | TaskSuspend u8 | TaskResume u8 | TaskCreate addr u8 | SchedLock | SchedUnlock

text \<open>The state a service leaves.\<close>

fun run_service :: "service \<Rightarrow> kernel \<Rightarrow> kernel option" where
  "run_service (SemAccept e) k = Some (snd (OSSemAccept e k))"
| "run_service (SemCreate cnt) k = Some (snd (OSSemCreate cnt k))"
| "run_service (SemDel e opt) k = map_option (snd \<circ> snd) (OSSemDel e opt k)"
| "run_service (SemPend e timeout) k = map_option snd (OSSemPend e timeout k)"
| "run_service (SemPendAbort e opt) k = map_option (snd \<circ> snd) (OSSemPendAbort e opt k)"
| "run_service (SemPost e) k = map_option snd (OSSemPost e k)"
| "run_service (SemSet e cnt) k = Some (snd (OSSemSet e cnt k))"
| "run_service (MboxAccept e) k = Some (snd (OSMboxAccept e k))"
| "run_service (MboxCreate m) k = Some (snd (OSMboxCreate m k))"
| "run_service (MboxDel e opt) k = map_option (snd \<circ> snd) (OSMboxDel e opt k)"
| "run_service (MboxPend e timeout) k = map_option snd (OSMboxPend e timeout k)"
| "run_service (MboxPendAbort e opt) k = map_option (snd \<circ> snd) (OSMboxPendAbort e opt k)"
| "run_service (MboxPost e m) k = map_option snd (OSMboxPost e m k)"
| "run_service (MboxPostOpt e m opt) k = map_option snd (OSMboxPostOpt e m opt k)"
| "run_service (QAccept e) k = map_option (snd \<circ> snd) (OSQAccept e k)"
| "run_service (QCreate start sz) k = Some (snd (OSQCreate start sz k))"
| "run_service (QDel e opt) k = map_option (snd \<circ> snd) (OSQDel e opt k)"
| "run_service (QFlush e) k = map_option snd (OSQFlush e k)"
| "run_service (QPend e timeout) k = map_option snd (OSQPend e timeout k)"
| "run_service (QPendAbort e opt) k = map_option (snd \<circ> snd) (OSQPendAbort e opt k)"
| "run_service (QPost e m) k = map_option snd (OSQPost e m k)"
| "run_service (QPostFront e m) k = map_option snd (OSQPostFront e m k)"
| "run_service (QPostOpt e m opt) k = map_option snd (OSQPostOpt e m opt k)"
| "run_service (MutexAccept e) k = map_option (snd \<circ> snd) (OSMutexAccept e k)"
| "run_service (MutexCreate prio) k = Some (snd (snd (OSMutexCreate prio k)))"
| "run_service (MutexDel e opt) k = map_option (snd \<circ> snd) (OSMutexDel e opt k)"
| "run_service (MutexPend e timeout) k = map_option snd (OSMutexPend e timeout k)"
| "run_service (MutexPost e) k = map_option snd (OSMutexPost e k)"
| "run_service (TimeDly ticks) k = OSTimeDly ticks k"
| "run_service (TimeDlyHMSM h m s ms) k = map_option snd (OSTimeDlyHMSM h m s ms k)"
| "run_service (TimeDlyResume prio) k = map_option snd (OSTimeDlyResume prio k)"
| "run_service (TaskSuspend prio) k = map_option snd (OSTaskSuspend prio k)"
| "run_service (TaskResume prio) k = map_option snd (OSTaskResume prio k)"
| "run_service (TaskCreate ptos prio) k = map_option snd (OSTaskCreate ptos prio k)"
| "run_service SchedLock k = Some (OSSchedLock k)"
| "run_service SchedUnlock k = OSSchedUnlock k"

text \<open>What the code relies on the caller for, its argument checks being configured out: an event of the
  table, a priority below 64, a queue for \<open>OSQFlush\<close>, the idle task neither blocks nor is suspended;
  and a post that does not reschedule is left to the caller. A task that takes a mutex holds none; it
  gives a mutex back while it is ready, and when it was raised the tasks that caused it still wait; a
  mutex is not deleted while its owner is raised; and a task does not wait for a mutex whose owner is
  itself inside a wait that has just ended. \<open>Kernel_Mutex_Thms\<close> shows what happens otherwise.\<close>

definition takes_mutex :: "kernel \<Rightarrow> bool" where
  "takes_mutex k \<longleftrightarrow> task_call k \<and> (\<forall>t. OSTCBCur k = TCB t \<longrightarrow> owns_none k t)"

definition owner_settled :: "nat \<Rightarrow> kernel \<Rightarrow> bool" where
  "owner_settled e k \<longleftrightarrow> (\<forall>t. OSEventPtr (evt k e) = PTCB t \<longrightarrow> settled k t)"

definition owner_plain :: "nat \<Rightarrow> kernel \<Rightarrow> bool" where
  "owner_plain e k \<longleftrightarrow> (\<forall>t. OSEventPtr (evt k e) = PTCB t \<longrightarrow> \<not> raised k e t)"

definition gives_mutex :: "nat \<Rightarrow> kernel \<Rightarrow> bool" where
  "gives_mutex e k \<longleftrightarrow> (\<forall>c. OSTCBCur k = TCB c \<longrightarrow> OSEventPtr (evt k e) = PTCB c \<longrightarrow> OSTCBEventPtr (tcb k c) = None \<and>
     unat (OSPrioCur k) \<in> ready k \<and> (raised k e c \<longrightarrow> waiting k e \<noteq> {}))"

fun permitted :: "service \<Rightarrow> kernel \<Rightarrow> bool" where
  "permitted (SemCreate cnt) k = True"
| "permitted (MboxCreate m) k = True"
| "permitted (QCreate start sz) k = True"
| "permitted (MutexAccept e) k = (e < OS_MAX_EVENTS \<and> takes_mutex k)"
| "permitted (MutexCreate prio) k = (prio < 63 \<or> prio = OS_PRIO_MUTEX_CEIL_DIS)"
| "permitted (MutexDel e opt) k = (e < OS_MAX_EVENTS \<and> owner_plain e k)"
| "permitted (MutexPend e timeout) k = (e < OS_MAX_EVENTS \<and> takes_mutex k \<and> owner_settled e k)"
| "permitted (MutexPost e) k = (e < OS_MAX_EVENTS \<and> gives_mutex e k)"
| "permitted (TimeDly ticks) k = task_call k"
| "permitted (TimeDlyHMSM h m s ms) k = task_call k"
| "permitted (TimeDlyResume prio) k = True"
| "permitted (TaskSuspend prio) k = (prio_exact k prio \<and> prio \<noteq> OS_TASK_IDLE_PRIO \<and> OSPrioCur k \<noteq> OS_TASK_IDLE_PRIO)"
| "permitted (TaskResume prio) k = prio_exact k prio"
| "permitted (TaskCreate ptos prio) k = (prio < 64)"
| "permitted SchedLock k = True"
| "permitted SchedUnlock k = True"
| "permitted (SemPend e timeout) k = (e < OS_MAX_EVENTS \<and> task_call k)"
| "permitted (MboxPend e timeout) k = (e < OS_MAX_EVENTS \<and> task_call k)"
| "permitted (QPend e timeout) k = (e < OS_MAX_EVENTS \<and> task_call k)"
| "permitted (MboxPostOpt e m opt) k = (e < OS_MAX_EVENTS \<and> opt AND OS_POST_OPT_NO_SCHED = 0)"
| "permitted (QPostOpt e m opt) k = (e < OS_MAX_EVENTS \<and> opt AND OS_POST_OPT_NO_SCHED = 0)"
| "permitted (QFlush e) k = (e < OS_MAX_EVENTS \<and> OSEventType (evt k e) = OS_EVENT_TYPE_Q)"
| "permitted (SemAccept e) k = (e < OS_MAX_EVENTS)"
| "permitted (SemDel e opt) k = (e < OS_MAX_EVENTS)"
| "permitted (SemPendAbort e opt) k = (e < OS_MAX_EVENTS)"
| "permitted (SemPost e) k = (e < OS_MAX_EVENTS)"
| "permitted (SemSet e cnt) k = (e < OS_MAX_EVENTS)"
| "permitted (MboxAccept e) k = (e < OS_MAX_EVENTS)"
| "permitted (MboxDel e opt) k = (e < OS_MAX_EVENTS)"
| "permitted (MboxPendAbort e opt) k = (e < OS_MAX_EVENTS)"
| "permitted (MboxPost e m) k = (e < OS_MAX_EVENTS)"
| "permitted (QAccept e) k = (e < OS_MAX_EVENTS)"
| "permitted (QDel e opt) k = (e < OS_MAX_EVENTS)"
| "permitted (QPendAbort e opt) k = (e < OS_MAX_EVENTS)"
| "permitted (QPost e m) k = (e < OS_MAX_EVENTS)"
| "permitted (QPostFront e m) k = (e < OS_MAX_EVENTS)"

lemmas service_safe =
  OSSemAccept_safe OSSemCreate_safe OSSemDel_safe OSSemPend_safe OSSemPendAbort_safe OSSemPost_safe OSSemSet_safe
  OSMboxAccept_safe OSMboxCreate_safe OSMboxDel_safe OSMboxPend_safe OSMboxPendAbort_safe OSMboxPost_safe
  OSMboxPostOpt_safe OSQAccept_safe OSQCreate_safe OSQDel_safe OSQFlush_safe OSQPend_safe OSQPendAbort_safe
  OSQPost_safe OSQPostOpt_safe OSTimeDly_safe OSTimeDlyHMSM_safe OSTimeDlyResume_safe OSTaskSuspend_safe
  OSTaskResume_safe OSSchedLock_safe OSSchedUnlock_safe

fun mutex_service :: "service \<Rightarrow> bool" where
  "mutex_service (MutexAccept e) = True"
| "mutex_service (MutexCreate prio) = True"
| "mutex_service (MutexDel e opt) = True"
| "mutex_service (MutexPend e timeout) = True"
| "mutex_service (MutexPost e) = True"
| "mutex_service c = False"

lemma mutex_service_safe:
  assumes "mutex_service c" "permitted c k" "kgood k" "mutexes_ok k"
  shows "msafe k (run_service c k)"
proof (cases c)
  case (MutexAccept e)
  then show ?thesis using assms OSMutexAccept_safe by (simp add: takes_mutex_def)
next
  case (MutexCreate prio)
  then show ?thesis using assms OSMutexCreate_safe by simp
next
  case (MutexDel e opt)
  then show ?thesis using assms OSMutexDel_safe by (simp add: owner_plain_def)
next
  case (MutexPend e timeout)
  then show ?thesis using assms OSMutexPend_safe by (simp add: takes_mutex_def owner_settled_def)
next
  case (MutexPost e)
  then show ?thesis using assms OSMutexPost_safe by (simp add: gives_mutex_def)
qed (use assms in simp_all)

lemma service_world:
  assumes k: "kworld k" "OSRunning k" and c: "permitted c k"
  shows "\<exists>k'. run_service c k = Some k' \<and> kworld k' \<and> OSRunning k'"
proof (cases "\<exists>ptos prio. c = TaskCreate ptos prio")
  case True
  then obtain ptos prio where c': "c = TaskCreate ptos prio" "prio < 64" using c by auto
  then have "create_task (OSTaskCreate ptos prio)" unfolding create_task_def by blast
  then show ?thesis using create_running [OF k] c'(1) by fastforce
next
  case no_create: False
  show ?thesis
  proof (cases "mutex_service c")
    case True
    then show ?thesis
      using kworld_msafe [OF k(1) mutex_service_safe [OF True c]] k by (auto simp: kworld_def)
  next
    case False
    have "safe k (run_service c k)"
      using c False no_create kworld_good [OF k(1)] k(2) by (cases c) (simp_all add: service_safe del: safe_Some)
    then show ?thesis using kworld_safe [OF k(1)] k(2) by (auto simp: same_tasks_def)
  qed
qed

section \<open>Steps and reachable states\<close>

inductive kernel_step :: "kernel \<Rightarrow> kernel \<Rightarrow> bool" where
  call: "permitted c k \<Longrightarrow> run_service c k = Some k' \<Longrightarrow> kernel_step k k'"
| resume: "e < OS_MAX_EVENTS \<Longrightarrow> in_wait e k \<Longrightarrow> pend_finish e k = Some (err, k') \<Longrightarrow> kernel_step k k'"
| resume_msg: "e < OS_MAX_EVENTS \<Longrightarrow> in_wait e k \<Longrightarrow> pend_finish_msg e k = Some (m, err, k') \<Longrightarrow> kernel_step k k'"
| int_enter: "kernel_step k (OSIntEnter k)"
| int_exit: "OSIntExit k = Some k' \<Longrightarrow> kernel_step k k'"
| tick: "OSIntNesting k < 255 \<Longrightarrow> OS_CPU_SysTickHandler k = Some k' \<Longrightarrow> kernel_step k k'"

inductive_cases kernel_stepE: "kernel_step k k'"

fun create_all :: "(addr \<times> u8) list \<Rightarrow> kernel \<Rightarrow> kernel option" where
  "create_all [] k = Some k"
| "create_all ((ptos, prio) # ts) k = do {
     (err, k) \<leftarrow> OSTaskCreate ptos prio k;
     create_all ts k
   }"

inductive reachable :: "kernel \<Rightarrow> bool" where
  boot: "OSInit s1 s2 k0 = Some k1 \<Longrightarrow> \<forall>(ptos, prio) \<in> set ts. prio < 64 \<Longrightarrow> create_all ts k1 = Some k2 \<Longrightarrow>
    reachable (OSStart k2)"
| step: "reachable k \<Longrightarrow> kernel_step k k' \<Longrightarrow> reachable k'"

lemma create_all_static:
  "static_ok k \<Longrightarrow> \<not> OSRunning k \<Longrightarrow> \<forall>(ptos, prio) \<in> set ts. prio < 64 \<Longrightarrow>
   \<exists>k'. create_all ts k = Some k' \<and> static_ok k' \<and> \<not> OSRunning k' \<and> OSIntNesting k' = OSIntNesting k"
proof (induction ts arbitrary: k)
  case (Cons c ts)
  obtain ptos prio where c: "c = (ptos, prio)" "prio < 64" using Cons.prems(3) by (cases c) auto
  then have "create_task (OSTaskCreate ptos prio)" unfolding create_task_def by blast
  then obtain r k1 where k1: "OSTaskCreate ptos prio k = Some (r, k1)" "static_ok k1" "\<not> OSRunning k1"
    "OSIntNesting k1 = OSIntNesting k"
    using create_before_start [OF Cons.prems(1,2)] by blast
  then show ?case using Cons.IH [OF k1(2,3)] Cons.prems(3) c(1) by auto
qed simp

lemma kernel_step_world:
  assumes "kernel_step k k'" "kworld k" "OSRunning k"
  shows "kworld k' \<and> OSRunning k'"
proof -
  note g = kworld_good [OF assms(2)]
  have S: "kworld k' \<and> OSRunning k'" if "safe k (Some k')"
    using kworld_safe [OF assms(2) that] assms(3) by (auto simp: same_tasks_def)
  from assms(1) show ?thesis
  proof (cases rule: kernel_step.cases)
    case call
    then show ?thesis using service_world [OF assms(2,3)] by fastforce
  next
    case (resume e err)
    then show ?thesis using S safe_pend_finish [OF g] by fastforce
  next
    case (resume_msg e m err)
    then show ?thesis using S safe_pend_finish_msg [OF g] by fastforce
  next
    case int_enter
    then show ?thesis using S OSIntEnter_safe [OF g] by simp
  next
    case int_exit
    then show ?thesis using S OSIntExit_safe [OF g assms(3)] by simp
  next
    case tick
    then show ?thesis using SysTick_world [OF assms(2,3)] assms(3) by (auto simp: same_tasks_def)
  qed
qed

lemma reachable_world: "reachable k \<Longrightarrow> kworld k \<and> OSRunning k"
proof (induction rule: reachable.induct)
  case (boot s1 s2 k0 k1 ts k2)
  obtain k1' where "OSInit s1 s2 k0 = Some k1'" "static_ok k1'" "\<not> OSRunning k1'"
    using OSInit_static [of s1 s2 k0] by blast
  then have "static_ok k2" "\<not> OSRunning k2" using create_all_static [of k1 ts] boot by auto
  then show ?case using OSStart_world by blast
next
  case (step k k')
  then show ?case using kernel_step_world by blast
qed

end
