(* ===== verification/Kernel_Thms.thy ===== *)
theory Kernel_Thms
  imports Kernel_Run
begin

text \<open>
  The properties of the kernel: preemption, wake-ups, time, events.
\<close>

lemma reachableD:
  assumes "reachable k"
  shows "kgood k" "kinv k" "base_ok k" "stat_ok k" "events_ok k" "tasks_ok k" "OSRunning k"
  using reachable_world [OF assms] by (auto simp: kworld_def kgood_def kinv_def)

text \<open>A booted system with the two system tasks, in no interrupt and unlocked.\<close>

lemma booted: "\<exists>k. reachable k \<and> OSIntNesting k = 0 \<and> OSLockNesting k = 0 \<and> ready k = {62, 63}"
proof -
  fix k0 :: kernel
  obtain k1 where k1: "OSInit 0 0 k0 = Some k1" "static_ok k1" "OSIntNesting k1 = 0" "OSLockNesting k1 = 0"
    "\<not> OSRunning k1" "ready k1 = {62, 63}"
    using OSInit_static [of 0 0 k0] by blast
  have "reachable (OSStart k1)" by (rule reachable.boot [OF k1(1), of "[]"]) simp_all
  then show ?thesis using OSStart_world [OF k1(2,5)] k1 by metis
qed

text \<open>The globals as the C startup code clears them, and the state the system tasks start in.\<close>

definition reset_state :: kernel where
  "reset_state = \<lparr>OSCtxSwCtr = 0, OSEventFreeList = None, evt = (\<lambda>_. zero_event \<lparr>Grp = 0, Tbl = (\<lambda>_. 0)\<rparr>),
     OSIdleCtr = 0, OSIdleCtrRun = 0, OSIdleCtrMax = 0, OSStatRdy = False, OSIntNesting = 0, OSLockNesting = 0,
     OSPrioCur = 0, OSPrioHighRdy = 0, OSRdy = \<lparr>Grp = 0, Tbl = (\<lambda>_. 0)\<rparr>, OSRunning = False, OSTaskCtr = 0,
     OSTaskRegNextAvailID = 0, OSTCBCur = TNull, OSTCBFreeList = TNull, OSTCBHighRdy = TNull, OSTCBList = TNull,
     OSTCBPrioTbl = (\<lambda>_. TNull), tcb = (\<lambda>_. zero_tcb), OSTickStepState = OS_TICK_STEP_DIS, OSTime = 0,
     OSQFreeList = None, osq = (\<lambda>_. \<lparr>OSQPtr = None, OSQStart = 0, OSQEnd = 0, OSQIn = 0, OSQOut = 0, OSQSize = 0,
       OSQEntries = 0\<rparr>), qcells = (\<lambda>_. 0)\<rparr>"

definition boot_state :: kernel where
  "boot_state = OSStart (the (OSInit 0 0 reset_state))"

lemma boot_reachable: "reachable boot_state"
proof -
  obtain k1 where k1: "OSInit 0 0 reset_state = Some k1" using OSInit_static [of 0 0 reset_state] by blast
  then show ?thesis using reachable.boot [OF k1, of "[]" k1] by (simp add: boot_state_def)
qed

lemma boot_facts:
  "OSPrioCur boot_state = 62" "OSTCBCur boot_state = TCB 1" "OSTCBEventPtr (tcb boot_state 1) = None"
  "OSIntNesting boot_state = 0" "OSLockNesting boot_state = 0"
  by code_simp+

lemma reachable_service: "reachable k \<Longrightarrow> permitted c k \<Longrightarrow> run_service c k = Some k' \<Longrightarrow> reachable k'"
  by (blast intro: reachable.step kernel_step.call)

text \<open>The statistics task delays itself for five ticks.\<close>

definition delayed_state :: kernel where
  "delayed_state = the (run_service (TimeDly 5) boot_state)"

lemma delayed_reachable: "reachable delayed_state"
proof -
  have "permitted (TimeDly 5) boot_state"
    using boot_facts by (auto simp: task_call_def)
  then show ?thesis
    using reachable_service [OF boot_reachable] service_world [of boot_state "TimeDly 5"] reachable_world [OF boot_reachable]
    by (fastforce simp: delayed_state_def)
qed

lemma delayed_facts:
  "OSTickStepState delayed_state = OS_TICK_STEP_DIS \<and> own delayed_state 62 1 \<and> OSTCBDly (tcb delayed_state 1) = 5"
  by code_simp

lemma ready_iff: "stat_ok k \<Longrightarrow> own k p t \<Longrightarrow> p \<in> ready k \<longleftrightarrow> OSTCBStat (tcb k t) = 0 \<and> OSTCBDly (tcb k t) = 0"
  using stat_okD [of k p t] by (simp add: task_ok_def)

section \<open>Preemption\<close>

text \<open>C2. Preemption. In every reachable state outside interrupts with the scheduler unlocked, the
  current task is the one \<open>OSPrioCur\<close> names, it is neither suspended nor delayed nor waiting, and no
  other such task has a higher priority.\<close>

theorem highest_priority_runs:
  assumes "reachable k" "OSIntNesting k = 0" "OSLockNesting k = 0"
  shows "\<exists>t. OSTCBCur k = TCB t \<and> own k (unat (OSPrioCur k)) t \<and> OSTCBStat (tcb k t) = 0 \<and> OSTCBDly (tcb k t) = 0 \<and>
    (\<forall>p u. own k p u \<longrightarrow> OSTCBStat (tcb k u) = 0 \<longrightarrow> OSTCBDly (tcb k u) = 0 \<longrightarrow> unat (OSPrioCur k) \<le> p)"
proof -
  note D = reachableD [OF assms(1)]
  obtain t where t: "OSTCBCur k = TCB t" "own k (unat (OSPrioCur k)) t" using D(2) by (auto simp: kinv_def cur_ok_def)
  have min: "unat (OSPrioCur k) = Min (ready k)"
    using D(1) assms(2,3) by (simp add: kgood_def preempt_ok_def highest_runs_def)
  have fin: "finite (ready k)" unfolding ready_def by (rule bm.finite_elems)
  have "unat (OSPrioCur k) \<le> p" if "own k p u" "OSTCBStat (tcb k u) = 0" "OSTCBDly (tcb k u) = 0" for p u
    using that ready_iff [OF D(4) that(1)] Min_le [OF fin] by (simp add: min)
  then show ?thesis
    using t ready_iff [OF D(4) t(2)] base_high(3) [OF D(3)] by (auto simp: min)
qed

theorem highest_priority_runs_witness:
  "\<exists>k t. reachable k \<and> OSTCBCur k = TCB t \<and> own k (unat (OSPrioCur k)) t \<and> OSTCBStat (tcb k t) = 0"
  using booted highest_priority_runs by blast

text \<open>C4. No service is stuck. In every reachable state each permitted service returns, or switches to
  another task, and leaves a reachable state: no loop of the kernel runs forever and no null or
  reserved pointer is followed.\<close>

theorem services_return:
  assumes "reachable k" "permitted c k"
  shows "\<exists>k'. run_service c k = Some k' \<and> reachable k' \<and> 63 \<in> ready k'"
proof -
  obtain k' where k': "run_service c k = Some k'" using service_world reachable_world [OF assms(1)] assms(2) by blast
  have "reachable k'" by (rule reachable.step [OF assms(1) kernel_step.call [OF assms(2) k']])
  then show ?thesis using k' reachableD(3) baseD(3) by blast
qed

theorem services_return_witness:
  "\<exists>k k'. reachable k \<and> run_service (SemCreate 3) k = Some k' \<and> reachable k'"
proof -
  obtain k where "reachable k" using booted by blast
  then show ?thesis using services_return [of k "SemCreate 3"] by auto
qed

text \<open>C5. No missed wake-up. In every reachable state a task is in the wait list of an event only when
  the event has nothing to give: the count of a semaphore is 0, a mailbox holds no message, a queue
  has no entry; and no task is in the wait list of an unused control block.\<close>

theorem no_missed_wakeup:
  assumes "reachable k" "e < OS_MAX_EVENTS" "p \<in> bm_elems (OSEventWait (evt k e))"
  shows "(case OSEventType (evt k e) of
     OS_EVENT_TYPE_SEM \<Rightarrow> OSEventCnt (evt k e) = 0
   | OS_EVENT_TYPE_MBOX \<Rightarrow> OSEventPtr (evt k e) = PNull
   | OS_EVENT_TYPE_Q \<Rightarrow> (\<forall>q. OSEventPtr (evt k e) = PQ q \<longrightarrow> OSQEntries (osq k q) = 0)
   | OS_EVENT_TYPE_UNUSED \<Rightarrow> False
   | _ \<Rightarrow> True)"
  using kgoodD(5) [OF reachableD(1) [OF assms(1)] assms(2)] assms(3) unfolding exhausted_def waiting_def by blast

text \<open>C20. No control block is lost: in every reachable state the free list of events holds each unused
  control block exactly once, and that of queues each queue no event uses.\<close>

theorem control_blocks_kept:
  assumes "reachable k"
  shows "(\<exists>es. evt_path (evt k) (OSEventFreeList k) es \<and> distinct es \<and> set es = unused_events k) \<and>
    (\<exists>qs. q_path (osq k) (OSQFreeList k) qs \<and> distinct qs \<and>
       set qs = {q. q < OS_MAX_QS \<and> (\<forall>e \<in> queue_events k. OSEventPtr (evt k e) \<noteq> PQ q)})"
  using reachableD(5) [OF assms] by (simp add: events_ok_def free_events_ok_def queues_ok_def)

theorem control_blocks_kept_witness:
  "\<exists>k es. reachable k \<and> evt_path (evt k) (OSEventFreeList k) es \<and> distinct es \<and> set es = unused_events k"
  using booted control_blocks_kept by blast

section \<open>Time\<close>

text \<open>Ticks in a row.\<close>

primrec ticks :: "nat \<Rightarrow> kernel \<Rightarrow> kernel option" where
  "ticks 0 k = Some k"
| "ticks (Suc n) k = do { k \<leftarrow> OSTimeTick k; ticks n k }"

lemma ticks_countdown:
  assumes "kinv k" "events_ok k" "tasks_ok k" "OSRunning k" "OSTickStepState k = OS_TICK_STEP_DIS"
    "own k p t" "p \<noteq> 63" "n < unat (OSTCBDly (tcb k t))"
  shows "\<exists>k'. ticks n k = Some k' \<and> kinv k' \<and> events_ok k' \<and> tasks_ok k' \<and> OSRunning k' \<and>
    OSTickStepState k' = OS_TICK_STEP_DIS \<and> own k' p t \<and>
    tcb k' t = (tcb k t)\<lparr>OSTCBDly := OSTCBDly (tcb k t) - of_nat n\<rparr>"
  using assms
proof (induction n arbitrary: k)
  case 0
  then show ?case by simp
next
  case (Suc n)
  obtain k1 where k1: "OSTimeTick k = Some k1" "kinv k1" "events_ok k1" "same_tasks k k1"
    "OSTickStepState k1 = OS_TICK_STEP_DIS" "\<forall>p t. own k p t \<longrightarrow> p \<noteq> 63 \<longrightarrow> tcb k1 t = tick_of (tcb k t)"
    using OSTimeTick_run [OF Suc.prems(1-4)] Suc.prems(5) by (auto simp: tick_stepping_def same_mt_def)
  have b: "base_ok k" "base_ok k1" using Suc.prems(1) k1(2) by (simp_all add: kinv_def)
  define d where "d = OSTCBDly (tcb k t)"
  have d: "Suc n < unat d" using Suc.prems(8) by (simp add: d_def)
  then have d01: "d \<noteq> 0" "d \<noteq> 1" by auto
  have t1: "tcb k1 t = (tcb k t)\<lparr>OSTCBDly := d - 1\<rparr>"
    using k1(6) Suc.prems(6,7) d01 by (simp add: tick_of_def d_def)
  have "own k1 p t" using same_tasks_own [OF k1(4) b] Suc.prems(6) by simp
  moreover have "OSRunning k1" using k1(4) Suc.prems(4) by (simp add: same_tasks_def)
  moreover have "n < unat (OSTCBDly (tcb k1 t))" using d d01 by (simp add: t1 unat_minus_one)
  ultimately show ?case
    using Suc.IH [OF k1(2,3) tasks_ok_same [OF Suc.prems(3) k1(4) b] _ k1(5) _ Suc.prems(7)] k1(1)
    by (auto simp: t1 d_def algebra_simps)
qed

lemma ticks_add: "ticks (n + m) k = do { k \<leftarrow> ticks n k; ticks m k }"
  by (induction n arbitrary: k) (simp_all add: bind_assoc)

text \<open>C21. A delay, or a timeout, of \<open>d\<close> ticks ends with the tick number \<open>d\<close> and not before: after fewer
  ticks the task is not ready and counts down, after \<open>d\<close> ticks it is ready unless suspended, and a
  task that was waiting is told of the timeout.\<close>

theorem delay_expires:
  assumes "reachable k" "OSTickStepState k = OS_TICK_STEP_DIS" "own k p t" "p \<noteq> 63"
    "n \<le> unat (OSTCBDly (tcb k t))" "0 < unat (OSTCBDly (tcb k t))"
  shows "\<exists>k'. ticks n k = Some k' \<and> unat (OSTCBDly (tcb k' t)) = unat (OSTCBDly (tcb k t)) - n \<and>
    (p \<in> ready k' \<longleftrightarrow> n = unat (OSTCBDly (tcb k t)) \<and> OSTCBStat (tcb k t) AND OS_STAT_SUSPEND = 0) \<and>
    (n = unat (OSTCBDly (tcb k t)) \<longrightarrow>
      OSTCBStatPend (tcb k' t) = (if OSTCBStat (tcb k t) AND OS_STAT_PEND_ANY \<noteq> 0 then OS_STAT_PEND_TO else OS_STAT_PEND_OK))"
proof -
  note D = reachableD [OF assms(1)]
  define d where "d = OSTCBDly (tcb k t)"
  have run: "\<exists>k'. ticks m k = Some k' \<and> kinv k' \<and> events_ok k' \<and> tasks_ok k' \<and> OSRunning k' \<and>
      OSTickStepState k' = OS_TICK_STEP_DIS \<and> own k' p t \<and> tcb k' t = (tcb k t)\<lparr>OSTCBDly := d - of_nat m\<rparr>"
    if "m < unat d" for m
    using ticks_countdown [OF D(2,5,6,7) assms(2-4)] that by (simp add: d_def)
  have sub: "unat (d - of_nat m) = unat d - m" if "m < unat d" for m
  proof -
    have "m < 2 ^ 32" using that unsigned_less [of d, where ?'a = nat] by simp
    then have "unat (of_nat m :: u32) = m" by (simp add: unat_of_nat)
    then show ?thesis using that unat_sub [of "of_nat m :: u32" d] by (simp add: word_le_nat_alt)
  qed
  show ?thesis
  proof (cases "n < unat d")
    case True
    obtain k' where k': "ticks n k = Some k'" "kinv k'" "own k' p t" "tcb k' t = (tcb k t)\<lparr>OSTCBDly := d - of_nat n\<rparr>"
      using run [OF True] by blast
    have "OSTCBDly (tcb k' t) \<noteq> 0" using sub [OF True] True k'(4) by (auto simp: unat_eq_zero)
    then have "p \<notin> ready k'" using ready_iff [OF _ k'(3)] k'(2) by (simp add: kinv_def)
    then show ?thesis using k' True sub [OF True] by (simp add: d_def)
  next
    case False
    then have n: "n = unat d" "0 < unat d" using assms(5,6) by (simp_all add: d_def)
    define m where "m = unat d - 1"
    have m: "m < unat d" "n = m + 1" using n by (simp_all add: m_def)
    obtain k1 where k1: "ticks m k = Some k1" "kinv k1" "events_ok k1" "tasks_ok k1" "OSRunning k1"
      "OSTickStepState k1 = OS_TICK_STEP_DIS" "own k1 p t" "tcb k1 t = (tcb k t)\<lparr>OSTCBDly := d - of_nat m\<rparr>"
      using run [OF m(1)] by blast
    have "unat (d - of_nat m) = 1" using sub [OF m(1)] m_def n by simp
    then have one: "d - of_nat m = 1" by (simp add: word_unat_eq_iff)
    obtain k2 where k2: "OSTimeTick k1 = Some k2" "kinv k2" "same_tasks k1 k2"
      "\<forall>p t. own k1 p t \<longrightarrow> p \<noteq> 63 \<longrightarrow> tcb k2 t = tick_of (tcb k1 t)"
      "ready k2 = ready k1 \<union> {p. p \<noteq> 63 \<and> (\<exists>t. own k1 p t \<and> wakes (tcb k1 t))}"
      using OSTimeTick_run [OF k1(2-5)] k1(6) by (auto simp: tick_stepping_def same_mt_def)
    have t2: "tcb k2 t = dly_over ((tcb k t)\<lparr>OSTCBDly := 1\<rparr>)"
      using k2(4) k1(7,8) assms(4) by (simp add: tick_of_def one)
    have "p \<notin> ready k1" using ready_iff [OF _ k1(7)] k1(2,8) one by (simp add: kinv_def)
    moreover have "(\<exists>u. own k1 p u \<and> wakes (tcb k1 u)) \<longleftrightarrow> OSTCBStat (tcb k t) AND OS_STAT_SUSPEND = 0"
    proof -
      have "wakes (tcb k1 t) \<longleftrightarrow> OSTCBStat (tcb k t) AND OS_STAT_SUSPEND = 0" by (simp add: k1(8) one wakes_def)
      moreover have "own k1 p u \<Longrightarrow> u = t" for u using own_inj(1) [OF k1(7)] by simp
      ultimately show ?thesis using k1(7) by metis
    qed
    ultimately have "p \<in> ready k2 \<longleftrightarrow> OSTCBStat (tcb k t) AND OS_STAT_SUSPEND = 0"
      using k2(5) assms(4) by simp
    moreover have "ticks n k = Some k2" using k1(1) k2(1) ticks_add [of m 1 k] unfolding m(2) by simp
    moreover have "OSTCBDly (tcb k2 t) = 0" by (simp add: t2 dly_over_def)
    moreover have "OSTCBStatPend (tcb k2 t) =
        (if OSTCBStat (tcb k t) AND OS_STAT_PEND_ANY \<noteq> 0 then OS_STAT_PEND_TO else OS_STAT_PEND_OK)"
      by (simp add: t2 dly_over_def pend_bits_def)
    ultimately show ?thesis using n(1) unfolding d_def [symmetric] by (intro exI [of _ k2]) simp
  qed
qed

theorem delay_expires_witness:
  "\<exists>k'. ticks 5 delayed_state = Some k' \<and> OSTCBDly (tcb k' 1) = 0 \<and> 62 \<in> ready k'"
proof -
  have f: "OSTCBDly (tcb delayed_state 1) = 5" "OSTCBStat (tcb delayed_state 1) = 0" using delayed_facts by blast code_simp
  show ?thesis
    using delay_expires [OF delayed_reachable, of 62 1 5] delayed_facts f by (auto simp: unat_eq_zero)
qed

text \<open>\<open>OSTimeDlyHMSM\<close> rounds to the nearest tick of 5 ms and never overflows.\<close>

theorem hmsm_ticks_exact:
  "unat (hmsm_ticks hours minutes seconds ms) =
     (unat hours * 3600 + unat minutes * 60 + unat seconds) * 200 + (unat ms + 2) div 5"
proof -
  have b: "unat hours < 256" "unat minutes < 256" "unat seconds < 256" "unat ms < 65536"
    using unsigned_less [of hours, where ?'a = nat] unsigned_less [of minutes, where ?'a = nat]
      unsigned_less [of seconds, where ?'a = nat] unsigned_less [of ms, where ?'a = nat] by simp_all
  have u: "unat (ucast hours :: u32) = unat hours" "unat (ucast minutes :: u32) = unat minutes"
    "unat (ucast seconds :: u32) = unat seconds" "unat (ucast ms :: u32) = unat ms"
    using b by (simp_all add: unsigned_ucast_eq take_bit_nat_eq_self)
  define S where "S = unat hours * 3600 + unat minutes * 60 + unat seconds"
  have S: "S < 1000000" using b by (simp add: S_def)
  have "unat ((ucast hours * 3600 + ucast minutes * 60 + ucast seconds) * OS_TICKS_PER_SEC :: u32) = S * 200"
    using b by (simp add: unat_word_ariths u S_def)
  moreover have "unat (OS_TICKS_PER_SEC * (ucast ms + 500 div OS_TICKS_PER_SEC) div 1000 :: u32) = (unat ms + 2) div 5"
  proof -
    have "(500 div OS_TICKS_PER_SEC :: u32) = 2" by (simp add: word_unat_eq_iff unat_div)
    then have "unat (OS_TICKS_PER_SEC * (ucast ms + 500 div OS_TICKS_PER_SEC) :: u32) = 200 * (unat ms + 2)"
      using b by (simp add: unat_word_ariths u)
    then show ?thesis by (simp add: unat_div)
  qed
  moreover have "S * 200 + (unat ms + 2) div 5 < 2 ^ 32" using S b(4) by simp
  ultimately show ?thesis by (simp add: hmsm_ticks_def unat_word_ariths S_def)
qed

section \<open>Waking up\<close>

text \<open>The table and the bytes: for every well-formed ready list or wait list that is not empty, the
  two look-ups in \<open>OSUnMapTbl\<close> give the highest priority in it.\<close>

theorem highest_in_bitmap:
  assumes "bm_ok b" "bm_elems b \<noteq> {}"
  shows "unat (bm_high b) = Min (bm_elems b)"
  using bm.high_least [OF assms] by simp

theorem highest_in_bitmap_witness:
  "unat (bm_high (bm_ins 20 (bm_ins 10 (bm_clear \<lparr>Grp = 0, Tbl = (\<lambda>_. 0)\<rparr>)))) = 10"
proof -
  have "bm_ok (bm_clear \<lparr>Grp = 0, Tbl = (\<lambda>_. 0)\<rparr>)" "bm_elems (bm_clear \<lparr>Grp = 0, Tbl = (\<lambda>_. 0)\<rparr>) = {}"
    by (rule bm_cleared)+
  then have "bm_ok (bm_ins 20 (bm_ins 10 (bm_clear \<lparr>Grp = 0, Tbl = (\<lambda>_. 0)\<rparr>)))"
    "bm_elems (bm_ins 20 (bm_ins 10 (bm_clear \<lparr>Grp = 0, Tbl = (\<lambda>_. 0)\<rparr>))) = {20, 10}"
    using bm_move by simp_all
  then show ?thesis using highest_in_bitmap by simp
qed

text \<open>C22. Posting a semaphore on which tasks wait gives it to the waiting task of highest priority: that
  task leaves the wait list, is told that its wait ended well, and is ready unless suspended; the
  count stays 0. With no task waiting the count goes up, and stays at 65535.\<close>

theorem OSSemPost_wakes:
  assumes "reachable k" "e < OS_MAX_EVENTS" "OSEventType (evt k e) = OS_EVENT_TYPE_SEM"
  shows "if waiting k e = {}
    then OSSemPost e k = (if OSEventCnt (evt k e) < 65535
      then Some (OS_ERR_NONE, upd_evt e (\<lambda>v. v\<lparr>OSEventCnt := OSEventCnt v + 1\<rparr>) k) else Some (OS_ERR_SEM_OVF, k))
    else \<exists>k' t. OSSemPost e k = Some (OS_ERR_NONE, k') \<and> own k (Min (waiting k e)) t \<and>
      waiting k' e = waiting k e - {Min (waiting k e)} \<and> OSTCBStatPend (tcb k' t) = OS_STAT_PEND_OK \<and>
      (OSTCBStat (tcb k t) AND OS_STAT_SUSPEND = 0 \<longrightarrow> Min (waiting k e) \<in> ready k') \<and> OSEventCnt (evt k' e) = 0"
proof (cases "waiting k e = {}")
  case True
  then show ?thesis using assms(3) grp_waiting [OF reachableD(1) [OF assms(1)] assms(2)] by (simp add: OSSemPost_def)
next
  case False
  note D = reachableD [OF assms(1)]
  obtain k1 t where k1: "OS_EventTaskRdy e 0 OS_STAT_SEM OS_STAT_PEND_OK k = Some (of_nat (Min (waiting k e)), k1)" "kinv k1"
    "wait_only e k k1" "waiting k1 e = waiting k e - {Min (waiting k e)}" "own k (Min (waiting k e)) t"
    "ready k1 = (if OSTCBStat (tcb k t) AND OS_STAT_SUSPEND = 0 then insert (Min (waiting k e)) (ready k) else ready k)"
    "OSTCBStatPend (tcb k1 t) = OS_STAT_PEND_OK"
    using rdy_ok [OF D(2) assms(2) False, of OS_STAT_SEM 0 OS_STAT_PEND_OK] assms(3) by (auto simp: stat_bit_def)
  obtain k2 where k2: "OS_Sched k1 = Some k2" "sched_eq k1 k2" using kinv_sched [OF k1(2)] by blast
  have "OSEventCnt (evt k e) = 0"
    using kgoodD(5) [OF D(1) assms(2) False] assms(3) by (simp add: exhausted_def)
  then have "OSEventCnt (evt k2 e) = 0" using wait_only_fields(2) [OF k1(3)] sched_eq_frame(2) [OF k2(2)] by simp
  moreover have "OSSemPost e k = Some (OS_ERR_NONE, k2)"
    using False assms(3) grp_waiting [OF D(1) assms(2)] k1(1) k2(1) by (simp add: OSSemPost_def)
  ultimately show ?thesis
    unfolding if_not_P [OF False] using k1(4-7) sched_eq_frame(4,5,15) [OF k2(2)]
    by (intro exI [of _ k2] exI [of _ t]) auto
qed

text \<open>A semaphore with count 0 on which the statistics task waits.\<close>

definition sem_state :: kernel where
  "sem_state = the (run_service (SemPend 0 0) (the (run_service (SemCreate 0) boot_state)))"

lemma sem_created:
  "OSPrioCur (the (run_service (SemCreate 0) boot_state)) = 62"
  "OSTCBCur (the (run_service (SemCreate 0) boot_state)) = TCB 1"
  "OSTCBEventPtr (tcb (the (run_service (SemCreate 0) boot_state)) 1) = None"
  by code_simp+

lemma sem_reachable: "reachable sem_state"
proof -
  have "permitted (SemCreate 0) boot_state" by simp
  then obtain k1 where k1: "run_service (SemCreate 0) boot_state = Some k1"
    using service_world [of boot_state "SemCreate 0"] reachable_world [OF boot_reachable] by blast
  have r1: "reachable k1" by (rule reachable_service [OF boot_reachable _ k1]) simp
  have "permitted (SemPend 0 0) (the (run_service (SemCreate 0) boot_state))"
    using sem_created by (auto simp: task_call_def simp del: run_service.simps)
  then have p: "permitted (SemPend 0 0) k1" by (simp only: k1 option.sel)
  obtain k2 where k2: "run_service (SemPend 0 0) k1 = Some k2"
    using service_world [OF _ _ p] reachable_world [OF r1] by blast
  then have "sem_state = k2" by (simp only: sem_state_def k1 k2 option.sel)
  then show ?thesis using reachable_service [OF r1 p k2] by simp
qed

lemma sem_facts:
  "OSEventType (evt sem_state 0) = OS_EVENT_TYPE_SEM" "62 \<in> waiting sem_state 0"
proof -
  show "OSEventType (evt sem_state 0) = OS_EVENT_TYPE_SEM" by code_simp
  have "bit (Tbl (OSEventWait (evt sem_state 0)) 7) 6" by code_simp
  then show "62 \<in> waiting sem_state 0" by (simp add: waiting_def bm_elems_def)
qed

theorem OSSemPost_wakes_witness:
  "\<exists>k'. OSSemPost 0 sem_state = Some (OS_ERR_NONE, k') \<and> OSEventCnt (evt k' 0) = 0"
  using OSSemPost_wakes [OF sem_reachable _ sem_facts(1)] sem_facts(2) by (auto split: if_splits)

theorem no_missed_wakeup_witness:
  "reachable sem_state \<and> 62 \<in> bm_elems (OSEventWait (evt sem_state 0)) \<and> OSEventCnt (evt sem_state 0) = 0"
  using no_missed_wakeup [OF sem_reachable, of 0 62] sem_facts sem_reachable by (auto simp: waiting_def)

text \<open>Aborting a wait with \<open>OS_PEND_OPT_BROADCAST\<close> wakes every waiting task, tells each that its wait
  was aborted, returns their number and leaves the wait list empty; the loop ends.\<close>

theorem OSSemPendAbort_broadcast:
  assumes "reachable k" "e < OS_MAX_EVENTS" "OSEventType (evt k e) = OS_EVENT_TYPE_SEM" "waiting k e \<noteq> {}"
  shows "\<exists>k'. OSSemPendAbort e OS_PEND_OPT_BROADCAST k = Some (of_nat (card (waiting k e)), OS_ERR_PEND_ABORT, k') \<and>
    waiting k' e = {} \<and> (\<forall>p t. own k p t \<longrightarrow> p \<in> waiting k e \<longrightarrow>
      OSTCBStatPend (tcb k' t) = OS_STAT_PEND_ABORT \<and> OSTCBMsg (tcb k' t) = 0 \<and> OSTCBDly (tcb k' t) = 0)"
proof -
  note D = reachableD [OF assms(1)]
  obtain k1 where k1: "ready_all e 0 OS_STAT_SEM OS_STAT_PEND_ABORT 0 k = Some (of_nat (card (waiting k e)), k1)" "kinv k1"
    "waiting k1 e = {}" "\<forall>p u. own k p u \<longrightarrow> (if p \<in> waiting k e
       then OSTCBMsg (tcb k1 u) = 0 \<and> OSTCBStatPend (tcb k1 u) = OS_STAT_PEND_ABORT \<and> OSTCBDly (tcb k1 u) = 0
       else tcb k1 u = tcb k u)"
    using ready_all_ok [OF D(2) assms(2), of OS_STAT_SEM 0 OS_STAT_PEND_ABORT 0] assms(3) by (auto simp: stat_bit_def)
  obtain k2 where k2: "OS_Sched k1 = Some k2" "sched_eq k1 k2" using kinv_sched [OF k1(2)] by blast
  have "OSSemPendAbort e OS_PEND_OPT_BROADCAST k = Some (of_nat (card (waiting k e)), OS_ERR_PEND_ABORT, k2)"
    using assms(3,4) grp_waiting [OF D(1) assms(2)] k1(1) k2(1) by (simp add: OSSemPendAbort_def pend_abort_def)
  then show ?thesis
    using k1(3,4) sched_eq_frame(5,14-16) [OF k2(2)] by (intro exI [of _ k2]) (auto split: if_splits)
qed

theorem OSSemPendAbort_broadcast_witness:
  "\<exists>k'. OSSemPendAbort 0 OS_PEND_OPT_BROADCAST sem_state = Some (of_nat (card (waiting sem_state 0)), OS_ERR_PEND_ABORT, k')
    \<and> waiting k' 0 = {}"
  using OSSemPendAbort_broadcast [OF sem_reachable _ sem_facts(1)] sem_facts(2) by auto

end
