(* ===== verification/Kernel_Ring.thy ===== *)
theory Kernel_Ring
  imports Fifo Kernel_Mbox
begin

text \<open>
  The message queues of the kernel as lists. The cells from \<open>OSQStart\<close> to \<open>OSQEnd\<close> are a ring:
  \<open>q_put\<close> appends, \<open>q_put_front\<close> prepends, \<open>q_take\<close> takes the head. With no task waiting the services
  \<open>OSQPost\<close> and \<open>OSQAccept\<close> are another instance of the interface \<open>fifo\<close>, one that never faults.
\<close>

section \<open>The ring\<close>

definition q_cells :: "kernel \<Rightarrow> nat \<Rightarrow> addr list" where
  "q_cells k q = map (\<lambda>i. qcells k (OSQStart (osq k q) + 4 * i)) [0..<unat (OSQSize (osq k q))]"

definition q_front :: "kernel \<Rightarrow> nat \<Rightarrow> nat" where
  "q_front k q = (OSQOut (osq k q) - OSQStart (osq k q)) div 4"

definition q_msgs :: "kernel \<Rightarrow> nat \<Rightarrow> addr list" where
  "q_msgs k q = ring_list (q_cells k q) (q_front k q) (unat (OSQEntries (osq k q)))"

definition q_wf :: "kernel \<Rightarrow> nat \<Rightarrow> bool" where
  "q_wf k q \<longleftrightarrow> (let p = osq k q; n = unat (OSQSize p); f = q_front k q in
     OSQEnd p = OSQStart p + 4 * n \<and> f < n \<and> OSQOut p = OSQStart p + 4 * f \<and>
     OSQEntries p \<le> OSQSize p \<and> OSQIn p = OSQStart p + 4 * ((f + unat (OSQEntries p)) mod n))"

lemma length_q_cells [simp]: "length (q_cells k q) = unat (OSQSize (osq k q))"
  by (simp add: q_cells_def)

lemma length_q_msgs [simp]: "length (q_msgs k q) = unat (OSQEntries (osq k q))"
  by (simp add: q_msgs_def)

lemma q_cells_write:
  assumes "OSQStart (osq k' q) = OSQStart (osq k q)" "OSQSize (osq k' q) = OSQSize (osq k q)"
    "qcells k' = (qcells k)(OSQStart (osq k q) + 4 * i := m)"
  shows "q_cells k' q = (q_cells k q)[i := m]"
  by (rule nth_equalityI) (auto simp: q_cells_def assms nth_list_update)

lemma q_cells_same:
  assumes "OSQStart (osq k' q) = OSQStart (osq k q)" "OSQSize (osq k' q) = OSQSize (osq k q)" "qcells k' = qcells k"
  shows "q_cells k' q = q_cells k q"
  by (simp add: q_cells_def assms)

lemma entries_inc:
  fixes n s :: u16
  assumes "n < s"
  shows "unat (n + 1) = Suc (unat n)" "n + 1 \<le> s"
proof -
  have "unat n + 1 < 2 ^ 16" using assms unsigned_less [of s, where ?'a = nat] by (simp add: word_less_nat_alt)
  then show "unat (n + 1) = Suc (unat n)" by (simp add: unat_word_ariths)
  then show "n + 1 \<le> s" using assms by (simp add: word_less_nat_alt word_le_nat_alt)
qed

lemma entries_dec: "0 < n \<Longrightarrow> unat (n - 1 :: u16) = unat n - 1"
  by (simp add: unat_minus_one word_gt_0)

lemma q_put_ring:
  assumes wf: "q_wf k q" and room: "OSQEntries (osq k q) < OSQSize (osq k q)"
  shows "q_wf (q_put q m k) q" "q_msgs (q_put q m k) q = q_msgs k q @ [m]"
proof -
  define n where "n = unat (OSQSize (osq k q))"
  define f where "f = q_front k q"
  define e where "e = unat (OSQEntries (osq k q))"
  define i where "i = (f + e) mod n"
  have p: "OSQEnd (osq k q) = OSQStart (osq k q) + 4 * n" "f < n" "OSQOut (osq k q) = OSQStart (osq k q) + 4 * f"
    "OSQIn (osq k q) = OSQStart (osq k q) + 4 * i"
    using wf by (simp_all add: q_wf_def n_def f_def e_def i_def Let_def)
  have e: "e < n" using room by (simp add: e_def n_def word_less_nat_alt)
  have i: "i < n" using p(2) by (simp add: i_def)
  have osq': "osq (q_put q m k) q = osq k q\<lparr>OSQIn := OSQStart (osq k q) + 4 * (Suc i mod n),
      OSQEntries := OSQEntries (osq k q) + 1\<rparr>"
    using i by (cases "Suc i = n") (auto simp: q_put_def upd_q_def Let_def p)
  have "q_cells (q_put q m k) q = (q_cells k q)[i := m]"
    by (rule q_cells_write) (simp_all add: q_put_def upd_q_def Let_def p)
  then show "q_msgs (q_put q m k) q = q_msgs k q @ [m]"
    using ring_list_snoc [of e "q_cells k q" f m] e
    by (simp add: q_msgs_def osq' entries_inc(1) [OF room] q_front_def f_def [unfolded q_front_def, symmetric]
        e_def [symmetric] n_def [symmetric] i_def)
  have "Suc i mod n = (f + Suc e) mod n" by (simp add: i_def mod_Suc_eq)
  then show "q_wf (q_put q m k) q"
    using p entries_inc [OF room] by (simp add: q_wf_def Let_def osq' q_front_def f_def [unfolded q_front_def, symmetric]
        e_def [symmetric] n_def [symmetric])
qed

lemma q_take_ring:
  assumes wf: "q_wf k q" and some: "OSQEntries (osq k q) > 0"
  shows "fst (q_take q k) = hd (q_msgs k q)" "q_wf (snd (q_take q k)) q" "q_msgs (snd (q_take q k)) q = tl (q_msgs k q)"
proof -
  define n where "n = unat (OSQSize (osq k q))"
  define f where "f = q_front k q"
  define e where "e = unat (OSQEntries (osq k q)) - 1"
  have p: "OSQEnd (osq k q) = OSQStart (osq k q) + 4 * n" "f < n" "OSQOut (osq k q) = OSQStart (osq k q) + 4 * f"
    "OSQIn (osq k q) = OSQStart (osq k q) + 4 * ((f + Suc e) mod n)" "OSQEntries (osq k q) \<le> OSQSize (osq k q)"
    "unat (OSQEntries (osq k q)) = Suc e"
    using wf some by (simp_all add: q_wf_def n_def f_def e_def Let_def word_gt_0 unat_gt_0)
  have osq': "osq (snd (q_take q k)) q = osq k q\<lparr>OSQOut := OSQStart (osq k q) + 4 * (Suc f mod n),
      OSQEntries := OSQEntries (osq k q) - 1\<rparr>"
    using p(2) by (cases "Suc f = n") (auto simp: q_take_def upd_q_def Let_def p(1,3))
  have e': "unat (OSQEntries (osq k q) - 1) = e" using entries_dec [OF some] p(6) by simp
  have f': "q_front (snd (q_take q k)) q = Suc f mod n" by (simp add: q_front_def osq')
  have cells: "q_cells (snd (q_take q k)) q = q_cells k q"
    by (rule q_cells_same) (simp_all add: q_take_def upd_q_def Let_def)
  have msgs: "q_msgs k q = q_cells k q ! f # ring_list (q_cells k q) (Suc f mod n) e"
    using ring_list_Cons [of "q_cells k q" f e] p(2) by (simp add: q_msgs_def p(6) f_def [symmetric] n_def [symmetric])
  then show "fst (q_take q k) = hd (q_msgs k q)"
    using p(2) by (simp add: q_take_def Let_def p(3) q_cells_def n_def)
  show "q_msgs (snd (q_take q k)) q = tl (q_msgs k q)"
    unfolding msgs by (simp add: q_msgs_def osq' e' cells f')
  have "Suc e \<le> n" using p(5,6) by (simp add: word_le_nat_alt n_def)
  moreover have "(Suc f mod n + e) mod n = (f + Suc e) mod n" by (simp add: mod_simps)
  ultimately show "q_wf (snd (q_take q k)) q"
    using p(1,2,4) by (simp add: q_wf_def Let_def osq' e' f' n_def [symmetric] word_le_nat_alt)
qed

lemma prev_cell:
  fixes s n f :: nat
  assumes "f < n"
  shows "(if s + 4 * f = s then s + 4 * n else s + 4 * f) - 4 = s + 4 * ((f + (n - 1)) mod n)"
    "Suc ((f + (n - 1)) mod n) mod n = f"
  using assms by (cases f; simp add: mod_if)+

lemma q_put_front_ring:
  assumes wf: "q_wf k q" and room: "OSQEntries (osq k q) < OSQSize (osq k q)"
  shows "q_wf (q_put_front q m k) q" "q_msgs (q_put_front q m k) q = m # q_msgs k q"
proof -
  define n where "n = unat (OSQSize (osq k q))"
  define f where "f = q_front k q"
  define e where "e = unat (OSQEntries (osq k q))"
  define g where "g = (f + (n - 1)) mod n"
  have p: "OSQEnd (osq k q) = OSQStart (osq k q) + 4 * n" "f < n" "OSQOut (osq k q) = OSQStart (osq k q) + 4 * f"
    "OSQIn (osq k q) = OSQStart (osq k q) + 4 * ((f + e) mod n)"
    using wf by (simp_all add: q_wf_def n_def f_def e_def Let_def)
  have e: "e < n" using room by (simp add: e_def n_def word_less_nat_alt)
  have g: "g < n" "Suc g mod n = f" using p(2) prev_cell(2) [OF p(2)] by (simp_all add: g_def)
  have out: "(if OSQOut (osq k q) = OSQStart (osq k q) then OSQEnd (osq k q) else OSQOut (osq k q)) - 4 =
      OSQStart (osq k q) + 4 * g"
    unfolding p(1,3) g_def by (rule prev_cell(1) [OF p(2)])
  have osq': "osq (q_put_front q m k) q = osq k q\<lparr>OSQOut := OSQStart (osq k q) + 4 * g,
      OSQEntries := OSQEntries (osq k q) + 1\<rparr>"
    unfolding q_put_front_def out by (simp add: upd_q_def Let_def)
  have "qcells (q_put_front q m k) = (qcells k)(OSQStart (osq k q) + 4 * g := m)"
    unfolding q_put_front_def out by (simp add: upd_q_def Let_def)
  then have cells: "q_cells (q_put_front q m k) q = (q_cells k q)[g := m]"
    by (intro q_cells_write) (simp_all add: osq')
  have f': "q_front (q_put_front q m k) q = g" by (simp add: q_front_def osq')
  show "q_msgs (q_put_front q m k) q = m # q_msgs k q"
    using ring_list_push [of e "q_cells k q" f g m] e g p(2)
    by (simp add: q_msgs_def osq' entries_inc(1) [OF room] cells f' f_def [symmetric] e_def [symmetric] n_def [symmetric])
  have "(g + Suc e) mod n = (f + e) mod n"
    using g by (metis add_Suc_right add_Suc mod_add_left_eq)
  then show "q_wf (q_put_front q m k) q"
    using p(1,4) g(1) entries_inc [OF room] by (simp add: q_wf_def Let_def osq' f' e_def [symmetric] n_def [symmetric])
qed

section \<open>The services on a queue nobody waits on\<close>

definition queue_idle :: "nat \<Rightarrow> nat \<Rightarrow> kernel \<Rightarrow> bool" where
  "queue_idle e q k \<longleftrightarrow> OSEventType (evt k e) = OS_EVENT_TYPE_Q \<and> OSEventPtr (evt k e) = PQ q \<and>
     Grp (OSEventWait (evt k e)) = 0 \<and> q_wf k q"

definition accept_state :: "nat \<Rightarrow> kernel \<Rightarrow> (os_err \<times> addr option \<times> kernel) option" where
  "accept_state e k = do {
     (m, err, k) \<leftarrow> OSQAccept e k;
     Some (err, if err = OS_ERR_NONE then Some m else None, k)
   }"

lemma queue_idle_of: "queue_idle e q k \<Longrightarrow> queue_of e k = Some q"
  by (simp add: queue_idle_def queue_of_def)

lemma q_ops_evt [simp]: "evt (q_put q m k) = evt k" "evt (q_put_front q m k) = evt k" "evt (snd (q_take q k)) = evt k"
  by (simp_all add: q_put_def q_put_front_def q_take_def upd_q_def Let_def)

lemma q_entries_pos: "0 < OSQEntries (osq k q) \<longleftrightarrow> q_msgs k q \<noteq> []"
  by (metis length_0_conv length_q_msgs unat_eq_zero word_gt_0)

interpretation kq: fifo_total "queue_idle e q" "\<lambda>k. q_msgs k q" OS_ERR_NONE "OSQPost e" "accept_state e" for e q
proof
  fix k x
  assume k: "queue_idle e q k"
  show "OSQPost e x k = None \<or> (\<exists>st. st \<noteq> OS_ERR_NONE \<and> OSQPost e x k = Some (st, k)) \<or>
      (\<exists>k'. OSQPost e x k = Some (OS_ERR_NONE, k') \<and> queue_idle e q k' \<and> q_msgs k' q = q_msgs k q @ [x])"
    using k queue_idle_of [OF k] q_put_ring [of k q x]
    by (cases "OSQEntries (osq k q) < OSQSize (osq k q)") (auto simp: OSQPost_def q_post_def queue_idle_def not_less)
  show "OSQPost e x k \<noteq> None"
    using k queue_idle_of [OF k] by (simp add: OSQPost_def q_post_def queue_idle_def)
next
  fix k x xs
  assume k: "queue_idle e q k" "q_msgs k q = x # xs"
  then have "0 < OSQEntries (osq k q)" by (simp add: q_entries_pos)
  then show "\<exists>k'. accept_state e k = Some (OS_ERR_NONE, Some x, k') \<and> queue_idle e q k' \<and> q_msgs k' q = xs"
    using k queue_idle_of [OF k(1)] q_take_ring [of k q]
    by (simp add: accept_state_def OSQAccept_def queue_idle_def case_prod_beta)
next
  fix k
  assume k: "queue_idle e q k" "q_msgs k q = []"
  then have "\<not> 0 < OSQEntries (osq k q)" by (simp add: q_entries_pos)
  then show "\<exists>st. accept_state e k = Some (st, None, k)"
    using k queue_idle_of [OF k(1)] by (simp add: accept_state_def OSQAccept_def queue_idle_def)
qed

end
