(* ===== verification/Kernel_Msgs.thy ===== *)
theory Kernel_Msgs
  imports Kernel_Ring Kernel_Thms
begin

text \<open>
  Properties of mailboxes and message queues: a queue is first in, first out, an urgent message
  overtakes, and a message posted while tasks wait goes to the one of highest priority.
\<close>

text \<open>C9. A kernel queue nobody waits on is first in, first out: every sequence of \<open>OSQPost\<close> and \<open>OSQAccept\<close>
  returns; what was stored and what is accepted is delivered in this order, the rest is still
  stored.\<close>

theorem kernel_queue_fifo:
  assumes "queue_idle e q k"
  shows "\<exists>acc del k'. fifo_run OS_ERR_NONE (OSQPost e) (accept_state e) ops k = Some (acc, del, k') \<and>
    queue_idle e q k' \<and> q_msgs k q @ acc = del @ q_msgs k' q"
  using assms by (rule kq.run_total)

text \<open>The boot with a queue of three cells at \<open>64\<close>.\<close>

definition queue_state :: kernel where
  "queue_state = the (run_service (QCreate 64 3) boot_state)"

lemma queue_state_idle: "queue_idle 0 0 queue_state" "q_msgs queue_state 0 = []"
proof -
  have f: "osq queue_state 0 = \<lparr>OSQPtr = Some 1, OSQStart = 64, OSQEnd = 76, OSQIn = 64,
      OSQOut = 64, OSQSize = 3, OSQEntries = 0\<rparr>"
    "OSEventType (evt queue_state 0) = OS_EVENT_TYPE_Q" "OSEventPtr (evt queue_state 0) = PQ 0"
    "Grp (OSEventWait (evt queue_state 0)) = 0"
    by code_simp+
  show "queue_idle 0 0 queue_state" using f by (simp add: queue_idle_def q_wf_def q_front_def)
  show "q_msgs queue_state 0 = []" using f(1) by (simp add: q_msgs_def)
qed

theorem kernel_queue_fifo_witness:
  "\<exists>acc del k'. fifo_run OS_ERR_NONE (OSQPost 0) (accept_state 0) [Enq 7, Enq 9, Deq, Enq 8, Enq 5, Enq 4] queue_state =
    Some (acc, del, k') \<and> acc = del @ q_msgs k' 0"
  using kernel_queue_fifo [OF queue_state_idle(1), of "[Enq 7, Enq 9, Deq, Enq 8, Enq 5, Enq 4]"]
  by (simp only: queue_state_idle(2) append_Nil) blast

text \<open>\<open>OSQPostFront\<close> puts the message before all others: the next \<open>OSQAccept\<close> delivers it and leaves
  the messages that were stored; a full queue refuses it.\<close>

theorem OSQPostFront_overtakes:
  assumes "queue_idle e q k"
  shows "if length (q_msgs k q) < unat (OSQSize (osq k q))
    then \<exists>k1 k2. OSQPostFront e m k = Some (OS_ERR_NONE, k1) \<and> q_msgs k1 q = m # q_msgs k q \<and>
      OSQAccept e k1 = Some (m, OS_ERR_NONE, k2) \<and> q_msgs k2 q = q_msgs k q
    else OSQPostFront e m k = Some (OS_ERR_Q_FULL, k)"
proof (cases "OSQEntries (osq k q) < OSQSize (osq k q)")
  case True
  define k1 where "k1 = q_put_front q m k"
  have wf: "q_wf k q" using assms by (simp add: queue_idle_def)
  have k1: "OSQPostFront e m k = Some (OS_ERR_NONE, k1)" "queue_idle e q k1" "q_msgs k1 q = m # q_msgs k q"
    using assms True q_put_front_ring [OF wf True, of m] queue_idle_of [OF assms]
    by (simp_all add: k1_def OSQPostFront_def q_post_def queue_idle_def)
  obtain k2 where "accept_state e k1 = Some (OS_ERR_NONE, Some m, k2)" "q_msgs k2 q = q_msgs k q"
    using kq.deq_step [OF k1(2,3)] by blast
  then have "OSQAccept e k1 = Some (m, OS_ERR_NONE, k2)" "q_msgs k2 q = q_msgs k q"
    by (auto simp: accept_state_def bind_eq_Some_conv split: if_splits)
  then show ?thesis using k1 True by (auto simp: word_less_nat_alt)
next
  case False
  then show ?thesis using assms queue_idle_of [OF assms]
    by (simp add: OSQPostFront_def q_post_def queue_idle_def word_less_nat_alt word_le_nat_alt)
qed

theorem OSQPostFront_overtakes_witness:
  "\<exists>k1 k2. OSQPostFront 0 6 queue_state = Some (OS_ERR_NONE, k1) \<and> OSQAccept 0 k1 = Some (6, OS_ERR_NONE, k2)"
proof -
  have "unat (OSQSize (osq queue_state 0)) = 3" by code_simp
  then show ?thesis
    using OSQPostFront_overtakes [OF queue_state_idle(1), of 6] queue_state_idle(2) by auto
qed

text \<open>C19. A message posted to a mailbox or a queue on which tasks wait goes to the waiting task of highest
  priority, and to no other: the task leaves the wait list, its delay ends, and once it runs its
  \<open>Pend\<close> returns this message and no error.\<close>

theorem message_handoff:
  assumes "reachable k" "e < OS_MAX_EVENTS" "waiting k e \<noteq> {}"
    "(post, OSEventType (evt k e)) \<in> {(OSQPost, OS_EVENT_TYPE_Q), (OSQPostFront, OS_EVENT_TYPE_Q), (OSMboxPost, OS_EVENT_TYPE_MBOX)}"
  shows "\<exists>k' t. post e m k = Some (OS_ERR_NONE, k') \<and> own k (Min (waiting k e)) t \<and>
    waiting k' e = waiting k e - {Min (waiting k e)} \<and> OSTCBDly (tcb k' t) = 0 \<and>
    (\<forall>u. u \<noteq> t \<longrightarrow> OSTCBMsg (tcb k' u) = OSTCBMsg (tcb k u)) \<and>
    (\<forall>k2. OSTCBCur k2 = TCB t \<longrightarrow> tcb k2 t = tcb k' t \<longrightarrow> (\<exists>k3. pend_finish_msg e k2 = Some (m, OS_ERR_NONE, k3)))"
proof -
  note D = reachableD [OF assms(1)]
  define stat where "stat = stat_bit (OSEventType (evt k e))"
  obtain k1 t where k1: "OS_EventTaskRdy e m stat OS_STAT_PEND_OK k = Some (of_nat (Min (waiting k e)), k1)" "kinv k1"
    "waiting k1 e = waiting k e - {Min (waiting k e)}" "own k (Min (waiting k e)) t"
    "OSTCBMsg (tcb k1 t) = m" "OSTCBStatPend (tcb k1 t) = OS_STAT_PEND_OK" "OSTCBDly (tcb k1 t) = 0"
    "\<forall>u. u \<noteq> t \<longrightarrow> tcb k1 u = tcb k u"
    using rdy_ok [OF D(2) assms(2,3) stat_def, of m OS_STAT_PEND_OK] by blast
  obtain k2 where k2: "OS_Sched k1 = Some k2" "sched_eq k1 k2" using kinv_sched [OF k1(2)] by blast
  have "post e m k = Some (OS_ERR_NONE, k2)"
    using assms(3,4) grp_waiting [OF D(1) assms(2)] k1(1) k2(1)
    by (auto simp: OSQPost_def OSQPostFront_def OSMboxPost_def q_post_def stat_def stat_bit_def)
  moreover have "\<exists>k4. pend_finish_msg e k3 = Some (m, OS_ERR_NONE, k4)"
    if "OSTCBCur k3 = TCB t" "tcb k3 t = tcb k2 t" for k3
    using that k1(5,6) sched_eq_frame(15,16) [OF k2(2)] sched_eq_frame [OF k2(2)]
    by (simp add: pend_finish_msg_def pend_finish_def deref_def)
  ultimately show ?thesis
    using k1(3,4,7,8) sched_eq_frame [OF k2(2)] by (intro exI [of _ k2] exI [of _ t]) auto
qed

text \<open>A mailbox on which the statistics task waits.\<close>

definition mbox_state :: kernel where
  "mbox_state = the (run_service (MboxPend 0 0) (the (run_service (MboxCreate 0) boot_state)))"

lemma mbox_created:
  "OSPrioCur (the (run_service (MboxCreate 0) boot_state)) = 62"
  "OSTCBCur (the (run_service (MboxCreate 0) boot_state)) = TCB 1"
  "OSTCBEventPtr (tcb (the (run_service (MboxCreate 0) boot_state)) 1) = None"
  by code_simp+

lemma mbox_reachable: "reachable mbox_state"
proof -
  obtain k1 where k1: "run_service (MboxCreate 0) boot_state = Some k1"
    using service_world [of boot_state "MboxCreate 0"] reachable_world [OF boot_reachable] by fastforce
  have r1: "reachable k1" by (rule reachable_service [OF boot_reachable _ k1]) simp
  have "permitted (MboxPend 0 0) (the (run_service (MboxCreate 0) boot_state))"
    using mbox_created by (auto simp: task_call_def simp del: run_service.simps)
  then have p: "permitted (MboxPend 0 0) k1" by (simp only: k1 option.sel)
  obtain k2 where k2: "run_service (MboxPend 0 0) k1 = Some k2"
    using service_world [OF _ _ p] reachable_world [OF r1] by blast
  then have "mbox_state = k2" by (simp only: mbox_state_def k1 k2 option.sel)
  then show ?thesis using reachable_service [OF r1 p k2] by simp
qed

lemma mbox_facts: "OSEventType (evt mbox_state 0) = OS_EVENT_TYPE_MBOX" "62 \<in> waiting mbox_state 0"
proof -
  show "OSEventType (evt mbox_state 0) = OS_EVENT_TYPE_MBOX" by code_simp
  have "bit (Tbl (OSEventWait (evt mbox_state 0)) 7) 6" by code_simp
  then show "62 \<in> waiting mbox_state 0" by (simp add: waiting_def bm_elems_def)
qed

theorem message_handoff_witness:
  "\<exists>k' t. OSMboxPost 0 42 mbox_state = Some (OS_ERR_NONE, k') \<and> own mbox_state (Min (waiting mbox_state 0)) t"
proof -
  have "waiting mbox_state 0 \<noteq> {}" using mbox_facts(2) by blast
  then show ?thesis
    using message_handoff [OF mbox_reachable, of 0 OSMboxPost 42] mbox_facts(1) by auto
qed

end
