(* ===== verification/Kernel_Mutex_Thms.thy ===== *)
theory Kernel_Mutex_Thms
  imports Kernel_Thms
begin

text \<open>
  Properties of the mutexes: exclusion, no priority inversion, raising the owner, handing over, taking
  and giving back; and what the code does in the situations \<open>permitted\<close> leaves out.
\<close>

declare fun_upd_apply [code] tick_loop.simps [code] ready_all.simps [code]

lemma reachable_mutexes: "reachable k \<Longrightarrow> mutexes_ok k"
  using reachable_world by (simp add: kworld_def)

lemma reachable_mutex: "reachable k \<Longrightarrow> mutex_at k e \<Longrightarrow> mutex_ok k e"
  using mutexes_okD [OF reachable_mutexes UNIV_I] .

lemma reachable_held: "reachable k \<Longrightarrow> mutex_at k e \<Longrightarrow> OSEventPtr (evt k e) = PTCB t \<Longrightarrow> held k e t"
  using reachable_mutex by (fastforce simp: mutex_ok_def)

section \<open>A mutex a task of high priority waits for\<close>

text \<open>A task of priority 20 takes a mutex with ceiling 5 and creates a task of priority 10, which runs
  and waits for the mutex.\<close>

definition low_task :: kernel where
  "low_task = OSStart (the (create_all [(0, 20)] (the (OSInit 0 0 reset_state))))"

definition taken :: kernel where
  "taken = the (run_service (MutexAccept 0) (the (run_service (MutexCreate 5) low_task)))"

definition contended :: kernel where
  "contended = the (run_service (MutexPend 0 0) (the (run_service (TaskCreate 0 10) taken)))"

lemma low_reachable: "reachable low_task"
proof -
  obtain k1 where k1: "OSInit 0 0 reset_state = Some k1" "static_ok k1" "\<not> OSRunning k1"
    using OSInit_static [of 0 0 reset_state] by blast
  obtain k2 where k2: "create_all [(0, 20)] k1 = Some k2"
    using create_all_static [OF k1(2,3), of "[(0, 20)]"] by (auto simp: word_less_nat_alt)
  show ?thesis
    using reachable.boot [OF k1(1) _ k2] by (simp add: low_task_def k1(1) k2 word_less_nat_alt del: create_all.simps)
qed

lemma step_service:
  assumes "reachable k" "permitted c k"
  shows "reachable (the (run_service c k))"
proof -
  obtain k' where "run_service c k = Some k'" using service_world [OF _ _ assms(2)] reachable_world [OF assms(1)] by blast
  then show ?thesis using reachable_service [OF assms, of k'] by simp
qed

text \<open>One evaluation for all that is used of a state.\<close>

definition who_runs :: "kernel \<Rightarrow> tcb_ptr \<times> u8 \<times> nat option \<times> nat option" where
  "who_runs k = (OSTCBCur k, OSPrioCur k, OSTCBEventPtr (tcb k 2), OSTCBEventPtr (tcb k 3))"

definition owners :: "kernel \<Rightarrow> event_ptr list" where
  "owners k = map (\<lambda>e. OSEventPtr (evt k e)) (filter (\<lambda>e. OSEventType (evt k e) = OS_EVENT_TYPE_MUTEX) [0..<OS_MAX_EVENTS])"

lemma owns_none_owners: "PTCB t \<notin> set (owners k) \<Longrightarrow> owns_none k t"
  by (auto simp: owns_none_def owners_def mutex_at_def image_iff)

lemma created_runs:
  "(let k = the (run_service (MutexCreate 5) low_task) in (who_runs k, owners k)) = ((TCB 2, 20, None, None), [PNull])"
  by code_simp

lemma high_runs:
  "(let k = the (run_service (TaskCreate 0 10) taken) in (who_runs k, owners k, OSEventPtr (evt k 0))) =
   ((TCB 3, 10, None, None), [PTCB 2], PTCB 2)"
  by code_simp

lemma high_mutex:
  "(let k = the (run_service (TaskCreate 0 10) taken) in (OSIntNesting k, OSLockNesting k, mutex_pcp (evt k 0),
      OSTCBPrio (tcb k 2), mutex_prio (evt k 0), OSEventType (evt k 0))) = (0, 0, 5, 20, 20, OS_EVENT_TYPE_MUTEX)"
  by code_simp

lemma contended_runs:
  "(let k = contended in (who_runs k, (OSEventPtr (evt k 0), OSEventType (evt k 0), mutex_pcp (evt k 0), mutex_prio (evt k 0)),
      (bit (Tbl (OSRdy k) 0) 5, bit (Tbl (OSEventWait (evt k 0)) 1) 2, OSIntNesting k))) =
   ((TCB 2, 5, None, Some 0), (PTCB 2, OS_EVENT_TYPE_MUTEX, 5, 20), (True, True, 0))"
  by code_simp

lemma taken_reachable: "reachable taken"
proof -
  define k1 where "k1 = the (run_service (MutexCreate 5) low_task)"
  have r1: "reachable k1"
    unfolding k1_def by (rule step_service [OF low_reachable]) (simp add: word_less_nat_alt)
  have f: "OSTCBCur k1 = TCB 2" "OSPrioCur k1 = 20" "OSTCBEventPtr (tcb k1 2) = None" "owners k1 = [PNull]"
    using created_runs by (simp_all add: Let_def who_runs_def k1_def del: run_service.simps)
  have "permitted (MutexAccept 0) k1"
    using f owns_none_owners [of 2 k1] by (auto simp: takes_mutex_def task_call_def)
  then show ?thesis unfolding taken_def k1_def [symmetric] by (rule step_service [OF r1])
qed

lemma contended_reachable: "reachable contended"
proof -
  define k1 where "k1 = the (run_service (TaskCreate 0 10) taken)"
  have r1: "reachable k1"
    unfolding k1_def by (rule step_service [OF taken_reachable]) (simp add: word_less_nat_alt)
  have f: "OSTCBCur k1 = TCB 3" "OSPrioCur k1 = 10" "OSTCBEventPtr (tcb k1 2) = None" "OSTCBEventPtr (tcb k1 3) = None"
    "owners k1 = [PTCB 2]" "OSEventPtr (evt k1 0) = PTCB 2"
    using high_runs by (simp_all add: Let_def who_runs_def k1_def del: run_service.simps)
  have "permitted (MutexPend 0 0) k1"
    using f owns_none_owners [of 3 k1] by (auto simp: takes_mutex_def task_call_def owner_settled_def settled_def)
  then show ?thesis unfolding contended_def k1_def [symmetric] by (rule step_service [OF r1])
qed

lemma contended_facts:
  "mutex_at contended 0" "OSEventPtr (evt contended 0) = PTCB 2" "10 \<in> waiting contended 0" "mutex_pcp (evt contended 0) = 5"
  "mutex_prio (evt contended 0) = 20" "OSTCBCur contended = TCB 2" "OSIntNesting contended = 0" "OSPrioCur contended = 5"
  "OSTCBEventPtr (tcb contended 2) = None" "5 \<in> ready contended"
  using contended_runs
  by (simp_all add: Let_def who_runs_def mutex_at_def waiting_def ready_def bm_elems_def)

section \<open>Exclusion and priorities\<close>

lemma runs_highest:
  assumes "reachable k" "OSIntNesting k = 0" "OSLockNesting k = 0"
  shows "own k p u \<Longrightarrow> OSTCBStat (tcb k u) = 0 \<Longrightarrow> OSTCBDly (tcb k u) = 0 \<Longrightarrow> unat (OSPrioCur k) \<le> p"
proof -
  note D = reachableD [OF assms(1)]
  have "finite (ready k)" unfolding ready_def by (rule bm.finite_elems)
  then show "own k p u \<Longrightarrow> OSTCBStat (tcb k u) = 0 \<Longrightarrow> OSTCBDly (tcb k u) = 0 \<Longrightarrow> unat (OSPrioCur k) \<le> p"
    using D(1,4) ready_iff assms(2,3) by (simp add: kgood_def preempt_ok_def highest_runs_def)
qed

text \<open>The count of a free mutex after its lower byte was set and freed again.\<close>

lemma free_count:
  assumes "mutex_free v"
  shows "OSEventCnt (mutex_own q o' v) OR OS_MUTEX_AVAILABLE = OSEventCnt v"
proof (rule bit_word_eqI)
  fix n assume n: "n < LENGTH(16)"
  have "bit (OSEventCnt v AND OS_MUTEX_KEEP_LOWER_8) n = bit OS_MUTEX_AVAILABLE n"
    using assms by (simp add: mutex_free_def)
  then show "bit (OSEventCnt (mutex_own q o' v) OR OS_MUTEX_AVAILABLE) n = bit (OSEventCnt v) n"
    using n by (auto simp: mutex_own_def mutex_masks bit_simps dest: bit_imp_le_length)
qed

text \<open>C7. Mutual exclusion. In every reachable state a mutex is free, and then nobody waits for it, or it has
  exactly one owner, a task that exists, owns no other mutex and waits for none; so tasks that use mutexes
  cannot wait for each other in a circle.\<close>

theorem mutex_exclusion:
  assumes "reachable k" "mutex_at k e"
  shows "if mutex_free (evt k e) then OSEventPtr (evt k e) = PNull \<and> waiting k e = {}
    else \<exists>t. OSEventPtr (evt k e) = PTCB t \<and> own k (unat (OSTCBPrio (tcb k t))) t \<and>
      (\<forall>i. mutex_at k i \<longrightarrow> unat (OSTCBPrio (tcb k t)) \<notin> waiting k i \<and> (i \<noteq> e \<longrightarrow> OSEventPtr (evt k i) \<noteq> PTCB t))"
proof (cases "mutex_free (evt k e)")
  case True
  then show ?thesis using free_mutex [OF reachable_mutex [OF assms] True] by simp
next
  case False
  then obtain t where "OSEventPtr (evt k e) = PTCB t" "held k e t" using held_mutex [OF reachable_mutex [OF assms] False] by blast
  then show ?thesis using False held_own [OF reachableD(3) [OF assms(1)]] by (auto simp: held_def Let_def)
qed

theorem mutex_exclusion_witness:
  "\<not> mutex_free (evt contended 0) \<and> OSEventPtr (evt contended 0) = PTCB 2 \<and> 5 \<notin> waiting contended 0"
proof -
  have "\<not> mutex_free (evt contended 0)" using contended_facts(5) by (simp add: mutex_free_prio)
  moreover have "OSTCBPrio (tcb contended 2) = 5"
    using reachableD(2) [OF contended_reachable] contended_facts(6,8)
    by (auto simp: kinv_def cur_ok_def own_def word_unat_eq_iff)
  ultimately show ?thesis
    using mutex_exclusion [OF contended_reachable contended_facts(1)] contended_facts(1,2) by auto
qed

text \<open>C6. No priority inversion. When the ceiling of a mutex lies above the owner's own priority and above
  the priority of a task that waits for it, the owner runs at a higher priority than this task; and while
  the owner is ready, outside interrupts and with the scheduler unlocked, no task of middle priority runs.\<close>

theorem no_priority_inversion:
  assumes "reachable k" "mutex_at k e" "OSEventPtr (evt k e) = PTCB t" "p \<in> waiting k e"
    "mutex_pcp (evt k e) < mutex_prio (evt k e)" "unat (mutex_pcp (evt k e)) < p"
  shows "unat (OSTCBPrio (tcb k t)) < p \<and>
    (OSTCBStat (tcb k t) = 0 \<longrightarrow> OSTCBDly (tcb k t) = 0 \<longrightarrow> OSIntNesting k = 0 \<longrightarrow> OSLockNesting k = 0 \<longrightarrow>
      unat (OSPrioCur k) < p)"
proof -
  have h: "held k e t" by (rule reachable_held [OF assms(1-3)])
  have lt: "unat (OSTCBPrio (tcb k t)) < p"
    using h assms(4-6) by (cases "raised k e t") (auto simp: held_def Let_def raised_def)
  have "own k (unat (OSTCBPrio (tcb k t))) t" by (rule held_own [OF reachableD(3) [OF assms(1)] h])
  moreover have "\<forall>p u. own k p u \<longrightarrow> OSTCBStat (tcb k u) = 0 \<longrightarrow> OSTCBDly (tcb k u) = 0 \<longrightarrow> unat (OSPrioCur k) \<le> p"
    if "OSIntNesting k = 0" "OSLockNesting k = 0"
    using runs_highest [OF assms(1) that] by blast
  ultimately show ?thesis using lt by fastforce
qed

theorem no_priority_inversion_witness:
  "unat (OSTCBPrio (tcb contended 2)) < 10"
  using no_priority_inversion [OF contended_reachable contended_facts(1,2,3)] contended_facts(4,5)
  by (simp add: word_less_nat_alt)

section \<open>The services\<close>

text \<open>Taking a mutex with \<open>OSMutexAccept\<close> and giving it back leaves the kernel exactly as it was.\<close>

theorem OSMutexAccept_Post:
  assumes "reachable k" "e < OS_MAX_EVENTS" "OSMutexAccept e k = Some (True, err, k1)"
  shows "OSMutexPost e k1 = Some (OS_ERR_NONE, k)"
proof -
  obtain c where c: "OSTCBCur k = TCB c" "own k (unat (OSPrioCur k)) c"
    using reachableD(2) [OF assms(1)] by (auto simp: kinv_def cur_ok_def)
  define v where "v = evt k e"
  have f: "OSEventType v = OS_EVENT_TYPE_MUTEX" "OSIntNesting k = 0" "mutex_free v"
    and k1: "k1 = upd_evt e (mutex_own (OSTCBPrio (tcb k c)) (PTCB c)) k"
    using assms(3) c(1) by (auto simp: OSMutexAccept_def mutex_take_def deref_def v_def Let_def bind_eq_Some_conv split: if_splits)
  have at: "mutex_at k e" using f(1) assms(2) by (simp add: mutex_at_def v_def)
  note m = free_mutex [OF reachable_mutex [OF assms(1) at]]
  have p: "OSEventPtr v = PNull" "waiting k e = {}" "ceiling_reserved k v" using m f(3) by (simp_all add: v_def)
  have v1: "evt k1 e = mutex_own (OSTCBPrio (tcb k c)) (PTCB c) v" by (simp add: k1 upd_evt_def v_def)
  have ne: "OSTCBPrio (tcb k c) \<noteq> mutex_pcp v" if "mutex_pcp v \<noteq> OS_PRIO_MUTEX_CEIL_DIS"
    using p(3) that c(2) by (auto simp: ceiling_reserved_def own_def word_unat_eq_iff)
  have low: "lowered e c k1 = k1"
  proof (cases "mutex_pcp v = OS_PRIO_MUTEX_CEIL_DIS")
    case False
    have "OSTCBPrioTbl k1 (unat (mutex_pcp v)) = TReserved" "OSTCBPrio (tcb k1 c) \<noteq> mutex_pcp v"
      using p(3) ne False by (simp_all add: ceiling_reserved_def k1 upd_evt_def)
    moreover from this(1) have "k1\<lparr>OSTCBPrioTbl := (OSTCBPrioTbl k1)(unat (mutex_pcp v) := TReserved)\<rparr> = k1"
      by (intro kernel.equality) (simp_all add: fun_upd_idem)
    ultimately show ?thesis using v1 by (simp add: lowered_def)
  qed (simp add: lowered_def v1)
  have "Grp (OSEventWait v) = 0" using grp_waiting [OF reachableD(1) [OF assms(1)] assms(2)] p(2) by (simp add: v_def)
  moreover have "OSEventType (evt k1 e) = OS_EVENT_TYPE_MUTEX" "OSIntNesting k1 = 0" "OSEventPtr (evt k1 e) = PTCB c"
    "OSTCBCur k1 = TCB c"
    using f(1,2) c(1) v1 by (simp_all add: k1 upd_evt_def)
  ultimately have r: "OSMutexPost e k1 = Some (OS_ERR_NONE,
      upd_evt e (\<lambda>v. v\<lparr>OSEventCnt := OSEventCnt v OR OS_MUTEX_AVAILABLE, OSEventPtr := PNull\<rparr>) k1)"
    using post_run [of k1 e c] v1 by (simp add: low)
  have cnt: "OSEventCnt (mutex_own q o' v) OR OS_MUTEX_AVAILABLE = OSEventCnt v" for q o'
    using free_count [OF f(3)] by simp
  have "(mutex_own q o' v)\<lparr>OSEventCnt := OSEventCnt (mutex_own q o' v) OR OS_MUTEX_AVAILABLE, OSEventPtr := PNull\<rparr> = v" for q o'
    unfolding cnt using p(1) by (simp add: mutex_own_def)
  then have "upd_evt e (\<lambda>v. v\<lparr>OSEventCnt := OSEventCnt v OR OS_MUTEX_AVAILABLE, OSEventPtr := PNull\<rparr>) k1 = k"
    using v1 by (simp add: k1 upd_evt_def v_def)
  then show ?thesis using r by simp
qed

theorem OSMutexAccept_Post_witness:
  "\<exists>k err. OSMutexAccept 0 k = Some (True, err, taken) \<and> OSMutexPost 0 taken = Some (OS_ERR_NONE, k)"
proof -
  define k where "k = the (run_service (MutexCreate 5) low_task)"
  have r: "reachable k" unfolding k_def by (rule step_service [OF low_reachable]) (simp add: word_less_nat_alt)
  have "(case OSMutexAccept 0 k of Some (b, err, k') \<Rightarrow> b | None \<Rightarrow> False) = True"
    unfolding k_def by code_simp
  then obtain err k' where a: "OSMutexAccept 0 k = Some (True, err, k')" by (auto split: option.splits prod.splits)
  have "taken = the (run_service (MutexAccept 0) k)" by (simp only: taken_def k_def)
  then have "k' = taken" using a by simp
  then show ?thesis using OSMutexAccept_Post [OF r _ a] a by auto
qed

text \<open>C23. Handing over. When the owner posts a mutex tasks wait for, the waiting task of highest priority owns
  it, with the priority the task has as the one to return to, and it is told that its wait ended well;
  the ceiling is reserved again and the former owner is back at the priority it took the mutex with.\<close>

theorem OSMutexPost_hands_over:
  assumes "reachable k" "mutex_at k e" "OSTCBCur k = TCB c" "OSEventPtr (evt k e) = PTCB c" "OSIntNesting k = 0"
    "OSTCBEventPtr (tcb k c) = None" "unat (OSPrioCur k) \<in> ready k" "waiting k e \<noteq> {}"
  shows "\<exists>k' w. OSMutexPost e k = Some (pcp_err (mutex_pcp (evt k e)) (of_nat (Min (waiting k e))), k') \<and> reachable k' \<and>
    OSEventPtr (evt k' e) = PTCB w \<and> own k' (Min (waiting k e)) w \<and> unat (mutex_prio (evt k' e)) = Min (waiting k e) \<and>
    OSTCBStatPend (tcb k' w) = OS_STAT_PEND_OK \<and> OSTCBDly (tcb k' w) = 0 \<and> waiting k' e = waiting k e - {Min (waiting k e)} \<and>
    OSTCBPrio (tcb k' c) = mutex_prio (evt k e) \<and> ceiling_reserved k' (evt k' e)"
proof -
  note D = reachableD [OF assms(1)]
  obtain k' w where k': "OSMutexPost e k = Some (pcp_err (mutex_pcp (evt k e)) (of_nat (Min (waiting k e))), k')"
    "OSEventPtr (evt k' e) = PTCB w" "mutex_prio (evt k' e) = of_nat (Min (waiting k e))" "own k' (Min (waiting k e)) w"
    "waiting k' e = waiting k e - {Min (waiting k e)}" "OSTCBStatPend (tcb k' w) = OS_STAT_PEND_OK" "OSTCBDly (tcb k' w) = 0"
    "own k' (unat (mutex_prio (evt k e))) c" "ceiling_reserved k' (evt k' e)"
    using post_waiters [OF D(1) reachable_mutexes [OF assms(1)] assms(2,4,3,6,7,5,8)] by blast
  have "permitted (MutexPost e) k" using assms(2,3,6-8) by (simp add: gives_mutex_def mutex_at_def)
  then have "reachable k'" using reachable_service [OF assms(1), of "MutexPost e" k'] k'(1) by simp
  moreover have "Min (waiting k e) < 64" using own_less [OF k'(4)] .
  ultimately show ?thesis
    using k' by (intro exI [of _ k'] exI [of _ w]) (simp add: own_def word_unat_eq_iff unat_of_nat)
qed

theorem OSMutexPost_hands_over_witness:
  "\<exists>k' w. OSMutexPost 0 contended = Some (pcp_err 5 (of_nat (Min (waiting contended 0))), k') \<and>
    OSEventPtr (evt k' 0) = PTCB w \<and> OSTCBPrio (tcb k' 2) = 20"
proof -
  have "waiting contended 0 \<noteq> {}" using contended_facts(3) by blast
  then show ?thesis
    using OSMutexPost_hands_over [OF contended_reachable contended_facts(1,6,2,7,9)] contended_facts(4,5,8,10) by fastforce
qed

text \<open>A task that waits for a mutex whose owner has a lower own priority raises the owner to the ceiling,
  in the ready list or in the list of the event it waits for; the caller is in the wait list of the
  mutex, and when the owner was ready it runs, or a task above the ceiling does.\<close>

theorem OSMutexPend_raises:
  assumes "reachable k" "permitted (MutexPend e timeout) k" "mutex_at k e" "OSEventPtr (evt k e) = PTCB t"
    "OSIntNesting k = 0" "OSLockNesting k = 0" "mutex_pcp (evt k e) \<noteq> OS_PRIO_MUTEX_CEIL_DIS"
    "mutex_pcp (evt k e) < OSTCBPrio (tcb k t)" "OSPrioCur k < mutex_prio (evt k e)"
  shows "\<exists>k'. OSMutexPend e timeout k = Some (Blocked, k') \<and> reachable k' \<and> own k' (unat (mutex_pcp (evt k e))) t \<and>
    waiting k' e = insert (unat (OSPrioCur k)) (waiting k e) \<and>
    (unat (OSTCBPrio (tcb k t)) \<in> ready k \<longrightarrow> OSPrioCur k' \<le> mutex_pcp (evt k e))"
proof -
  note D = reachableD [OF assms(1)]
  have mo: "mutexes_ok k" by (rule reachable_mutexes [OF assms(1)])
  have h: "held k e t" by (rule reachable_held [OF assms(1,3,4)])
  obtain u where u: "OSTCBCur k = TCB u" "OSTCBEventPtr (tcb k u) = None" "OSPrioCur k \<noteq> OS_TASK_IDLE_PRIO" "owns_none k u"
    using assms(2) by (auto simp: takes_mutex_def task_call_def)
  have st: "settled k t" using assms(2,4) by (simp add: owner_settled_def)
  have o: "own k (unat (OSPrioCur k)) u" using D(2) u(1) by (auto simp: kinv_def cur_ok_def)
  have rd: "unat (OSPrioCur k) \<in> ready k" using cur_ready [OF D(2)] D(1) assms(5,6) by (simp add: kgood_def)
  note ow = owner_not_cur [OF D(3) h o u(4) assms(3,4)]
  define k1 where "k1 = mutex_boost t (mutex_pcp (evt k e)) k"
  have B: "kinv k1" "tcb k1 u = tcb k u" "OSTCBCur k1 = OSTCBCur k" "OSPrioCur k1 = OSPrioCur k" "OSIntNesting k1 = OSIntNesting k"
    "OSLockNesting k1 = OSLockNesting k" "unat (OSPrioCur k) \<in> ready k1" "\<forall>i. \<exists>w. evt k1 i = (evt k i)\<lparr>OSEventWait := w\<rparr>"
    "ready k1 = moved (unat (OSTCBPrio (tcb k t))) (unat (mutex_pcp (evt k e))) (ready k)" "own k1 (unat (mutex_pcp (evt k e))) t"
    "waiting k1 e = waiting k e"
    using assms(3) boost_ok [OF D(2,5) mo assms(3,4,8,7) st u(1) ow(1) [symmetric]] rd unfolding k1_def by blast+
  have ev: "OSEventType (evt k1 e) = OS_EVENT_TYPE_MUTEX"
    using B(8) [rule_format, of e] assms(3) by (auto simp: mutex_at_def)
  have e: "e < OS_MAX_EVENTS" using assms(3) by (simp add: mutex_at_def)
  obtain k' where k': "pend_block OS_STAT_MUTEX timeout e k1 = Some k'" "kinv k'" "preempt_ok k'" "wait_only e k1 k'"
    "ready k' = ready k1 - {unat (OSPrioCur k)}" "waiting k' e = insert (unat (OSPrioCur k)) (waiting k1 e)"
    using pend_block_rdy [OF B(1), of u e OS_STAT_MUTEX timeout] B(2-4,7) u e ev by (auto simp: stat_bit_def)
  have run: "OSMutexPend e timeout k = Some (Blocked, k')"
    using assms(3-9) u(1) o k'(1) h
    by (simp add: OSMutexPend_def mutex_at_def mutex_free_prio owner_of_def deref_def own_def word_unat_eq_iff held_def Let_def
        flip: k1_def) (auto simp: word_less_nat_alt)
  have "reachable k'" using reachable_service [OF assms(1,2), of k'] run by simp
  moreover have "own k' (unat (mutex_pcp (evt k e))) t"
    using same_tasks_own [of k1 k'] B(1,10) k'(2,4) by (simp add: wait_only_def kinv_def)
  moreover have "OSPrioCur k' \<le> mutex_pcp (evt k e)" if "unat (OSTCBPrio (tcb k t)) \<in> ready k"
  proof -
    have "OSTCBPrio (tcb k t) \<noteq> mutex_pcp (evt k e)" using assms(8) by auto
    then have "ceiling_reserved k (evt k e)" by (rule held_plain(2) [OF h])
    then have "unat (OSPrioCur k) \<noteq> unat (mutex_pcp (evt k e))"
      using o assms(7) by (auto simp: ceiling_reserved_def own_def)
    then have "unat (mutex_pcp (evt k e)) \<in> ready k'" using that by (auto simp: k'(5) B(9) moved_def)
    moreover have "unat (OSPrioCur k') = Min (ready k')"
      using k'(3,4) B(5,6) assms(5,6) by (simp add: preempt_ok_def highest_runs_def wait_only_def)
    moreover have "finite (ready k')" unfolding ready_def by (rule bm.finite_elems)
    ultimately show ?thesis by (simp add: word_le_nat_alt)
  qed
  ultimately show ?thesis using run k'(6) B(11) by auto
qed

theorem OSMutexPend_raises_witness:
  "\<exists>k'. OSMutexPend 0 0 (the (run_service (TaskCreate 0 10) taken)) = Some (Blocked, k') \<and> own k' 5 2"
proof -
  define k where "k = the (run_service (TaskCreate 0 10) taken)"
  have r: "reachable k" unfolding k_def by (rule step_service [OF taken_reachable]) (simp add: word_less_nat_alt)
  have f: "OSTCBCur k = TCB 3" "OSPrioCur k = 10" "OSTCBEventPtr (tcb k 2) = None" "OSTCBEventPtr (tcb k 3) = None"
    "owners k = [PTCB 2]" "OSEventPtr (evt k 0) = PTCB 2"
    using high_runs by (simp_all add: Let_def who_runs_def k_def del: run_service.simps)
  have g: "OSIntNesting k = 0" "OSLockNesting k = 0" "mutex_pcp (evt k 0) = 5" "OSTCBPrio (tcb k 2) = 20"
    "mutex_prio (evt k 0) = 20" "OSEventType (evt k 0) = OS_EVENT_TYPE_MUTEX"
    using high_mutex by (simp_all add: Let_def k_def del: run_service.simps)
  have p: "permitted (MutexPend 0 0) k"
    using f owns_none_owners [of 3 k] by (auto simp: takes_mutex_def task_call_def owner_settled_def settled_def)
  show ?thesis
    using OSMutexPend_raises [OF r p _ f(6) g(1,2)] g f(2) unfolding k_def [symmetric]
    by (fastforce simp: mutex_at_def OS_PRIO_MUTEX_CEIL_DIS_def)
qed

section \<open>A raised owner nobody waits for any more\<close>

text \<open>A wait with a timeout can end before the mutex is posted. The owner stays raised, and then three
  services go wrong; \<open>permitted\<close> excludes them.\<close>

datatype action = Call service | Resume nat | Tick

fun act :: "action \<Rightarrow> kernel \<Rightarrow> kernel option" where
  "act (Call c) k = run_service c k"
| "act (Resume e) k = map_option snd (pend_finish e k)"
| "act Tick k = OS_CPU_SysTickHandler k"

fun acts :: "action list \<Rightarrow> kernel \<Rightarrow> kernel option" where
  "acts [] k = Some k"
| "acts (a # as) k = (case act a k of None \<Rightarrow> None | Some k \<Rightarrow> acts as k)"

definition abandoned :: kernel where
  "abandoned = the (acts [Call (MutexCreate 5), Call (MutexAccept 0), Call (TaskCreate 0 10), Call (MutexPend 0 1), Tick,
     Call (TimeDly 1), Resume 0] low_task)"

lemma abandoned_runs:
  "(let k = abandoned in (who_runs k, (OSEventPtr (evt k 0), OSEventType (evt k 0), mutex_pcp (evt k 0), mutex_prio (evt k 0)),
      (Grp (OSEventWait (evt k 0)), OSIntNesting k, OSTCBPrio (tcb k 2)))) =
   ((TCB 3, 10, None, None), (PTCB 2, OS_EVENT_TYPE_MUTEX, 5, 20), (0, 0, 5))"
  by code_simp



text \<open>Deleting it with \<open>OS_DEL_ALWAYS\<close> from another task writes the priority of the owner into \<open>OSPrioCur\<close>.\<close>

theorem OSMutexDel_wrong_cur:
  assumes "OSEventType (evt k e) = OS_EVENT_TYPE_MUTEX" "OSIntNesting k = 0" "Grp (OSEventWait (evt k e)) = 0"
    "OSEventPtr (evt k e) = PTCB t" "OSTCBPrio (tcb k t) = mutex_pcp (evt k e)" "mutex_pcp (evt k e) \<noteq> OS_PRIO_MUTEX_CEIL_DIS"
    "OSTCBCur k = TCB u" "u \<noteq> t"
  shows "\<exists>k'. OSMutexDel e OS_DEL_ALWAYS k = Some (None, OS_ERR_NONE, k') \<and> OSTCBCur k' = TCB u \<and>
    OSTCBPrio (tcb k' u) = OSTCBPrio (tcb k u) \<and> OSPrioCur k' = mutex_prio (evt k e)"
proof -
  define k1 where "k1 = OSMutex_RdyAtPrio t (mutex_prio (evt k e)) k"
  have f: "evt k1 = evt k" "OSTCBCur k1 = TCB u" "tcb k1 u = tcb k u" "OSPrioCur k1 = mutex_prio (evt k e)"
    using assms(7,8)
    by (simp_all add: k1_def OSMutex_RdyAtPrio_def make_ready_def make_unready_def set_prio_def upd_tcb_def Let_def)
  have "ready_all e 0 OS_STAT_MUTEX OS_STAT_PEND_ABORT 0 k1 = Some (0, k1)"
    using assms(3) by (subst ready_all.simps) (simp add: f(1))
  then have "OSMutexDel e OS_DEL_ALWAYS k = Some (None, OS_ERR_NONE, free_event e (mutex_release e k1))"
    using assms(1-6) by (simp add: OSMutexDel_def OS_DEL_ALWAYS_def OS_DEL_NO_PEND_def owner_of_def Let_def flip: k1_def)
  then show ?thesis using f by (simp add: free_event_def upd_evt_def mutex_release_def Let_def)
qed

text \<open>Posting it lowers the owner without a call of the scheduler: the owner runs on, even when a task that
  is ready has a higher priority than the one it is back at.\<close>

theorem OSMutexPost_keeps_running:
  assumes "OSEventType (evt k e) = OS_EVENT_TYPE_MUTEX" "OSIntNesting k = 0" "Grp (OSEventWait (evt k e)) = 0"
    "OSEventPtr (evt k e) = PTCB c" "OSTCBPrio (tcb k c) = mutex_pcp (evt k e)" "mutex_pcp (evt k e) \<noteq> OS_PRIO_MUTEX_CEIL_DIS"
    "OSTCBCur k = TCB c"
  shows "\<exists>k'. OSMutexPost e k = Some (OS_ERR_NONE, k') \<and> OSTCBCur k' = TCB c \<and> OSPrioCur k' = mutex_prio (evt k e) \<and>
    OSTCBPrio (tcb k' c) = mutex_prio (evt k e) \<and> OSCtxSwCtr k' = OSCtxSwCtr k"
proof -
  have f: "evt (lowered e c k) = evt k" "OSTCBCur (lowered e c k) = TCB c" "OSPrioCur (lowered e c k) = mutex_prio (evt k e)"
    "OSTCBPrio (tcb (lowered e c k) c) = mutex_prio (evt k e)" "OSCtxSwCtr (lowered e c k) = OSCtxSwCtr k"
    using assms(5-7)
    by (simp_all add: lowered_def OSMutex_RdyAtPrio_def make_ready_def make_unready_def set_prio_def upd_tcb_def Let_def)
  then show ?thesis using post_run [OF assms(1,2,4,7)] assms(3) by (simp add: upd_evt_def)
qed

text \<open>An owner whose own wait has timed out, and which has not run since, is still in the wait list of its
  event. Raising it changes its priority and leaves the old one in that list, where no task removes it:
  the next post of the event is given to it and lost.\<close>

theorem mutex_boost_unsettled:
  assumes "own k p t" "p \<in> ready k" "p \<in> waiting k e" "pcp < 64" "unat pcp \<noteq> p" "bm_ok (OSEventWait (evt k e))"
  shows "let k1 = OS_EventTaskRemove t e (mutex_boost t pcp k) in p \<in> waiting k1 e \<and> OSTCBPrio (tcb k1 t) = pcp"
proof -
  define k1 where "k1 = mutex_boost t pcp k"
  have rd: "Tbl (OSRdy k) (unat (OSTCBY (tcb k t))) AND OSTCBBitX (tcb k t) \<noteq> 0"
    using rdy_bit [OF assms(1), of "OSRdy k"] assms(2) by (simp add: ready_def)
  have f: "evt k1 = evt k" "tcb k1 t = with_prio pcp (tcb k t)"
    using rd by (simp_all add: k1_def mutex_boost_def Let_def set_prio_eq make_ready_def make_unready_def)
  have q: "unat pcp < 64" using assms(4) by (simp add: word_less_nat_alt)
  have "own (k\<lparr>tcb := tcb k1, OSTCBPrioTbl := (OSTCBPrioTbl k)(unat pcp := TCB t)\<rparr>) (unat pcp) t"
    using assms(4) q by (simp add: own_def f)
  then have "bm_clr b (OSTCBY (tcb k1 t)) (OSTCBBitX (tcb k1 t)) (OSTCBBitY (tcb k1 t)) = bm_del (unat pcp) b" for b
    using own_bm by fastforce
  then have "waiting (OS_EventTaskRemove t e k1) e = waiting k e - {unat pcp}"
    using bm_move(2,4) [OF assms(6) q] by (simp add: OS_EventTaskRemove_def upd_evt_def waiting_def f)
  then show ?thesis
    using assms(3,5) by (simp add: Let_def flip: k1_def) (simp add: OS_EventTaskRemove_def upd_evt_def f)
qed

end
