(* ===== verification/Kernel_Flag.thy ===== *)
theory Kernel_Flag
  imports Kernel_Pend
begin

text \<open>
  The event flags \<open>src/ucosii/src/os_flag.c\<close>. The tasks that wait on a group are in a doubly linked list of
  nodes, each a local variable of the \<open>OSFlagPend\<close> in which its task waits; a node is named by this task.
  The field \<open>OSFlagWaitList\<close> also links the free groups, and the code does not always know which of the two
  it finds there. Following a pointer to the wrong kind of object is the result \<open>None\<close>, as is a loop that
  does not end.
\<close>

section \<open>Data\<close>

type_synonym OS_FLAGS = u16

abbreviation OS_MAX_FLAGS :: nat where "OS_MAX_FLAGS \<equiv> 5"
abbreviation OS_FLAG_WAIT_CLR_ALL :: u8 where "OS_FLAG_WAIT_CLR_ALL \<equiv> 0"
abbreviation OS_FLAG_WAIT_CLR_ANY :: u8 where "OS_FLAG_WAIT_CLR_ANY \<equiv> 1"
abbreviation OS_FLAG_WAIT_SET_ALL :: u8 where "OS_FLAG_WAIT_SET_ALL \<equiv> 2"
abbreviation OS_FLAG_WAIT_SET_ANY :: u8 where "OS_FLAG_WAIT_SET_ANY \<equiv> 3"
abbreviation OS_FLAG_CONSUME :: u8 where "OS_FLAG_CONSUME \<equiv> 0x80"
abbreviation OS_FLAG_CLR :: u8 where "OS_FLAG_CLR \<equiv> 0"
abbreviation OS_FLAG_SET :: u8 where "OS_FLAG_SET \<equiv> 1"

datatype flag_ptr = FNull | FNode nat | FGrp nat

record OS_FLAG_GRP =
  OSFlagType :: event_type
  OSFlagWaitList :: flag_ptr
  OSFlagFlags :: OS_FLAGS
  OSFlagName :: string

record OS_FLAG_NODE =
  OSFlagNodeNext :: flag_ptr
  OSFlagNodePrev :: flag_ptr
  OSFlagNodeTCB :: nat
  OSFlagNodeFlagGrp :: nat
  OSFlagNodeFlags :: OS_FLAGS
  OSFlagNodeWaitType :: u8

text \<open>The kernel, the table of groups, the nodes, and the two fields of the task control blocks that belong to
  flags.\<close>

record flags =
  fkern :: kernel
  OSFlagTbl :: "nat \<Rightarrow> OS_FLAG_GRP"
  OSFlagFreeList :: flag_ptr
  fnode :: "nat \<Rightarrow> OS_FLAG_NODE"
  OSTCBFlagsRdy :: "nat \<Rightarrow> OS_FLAGS"
  OSTCBFlagNode :: "nat \<Rightarrow> flag_ptr"

definition upd_grp :: "nat \<Rightarrow> (OS_FLAG_GRP \<Rightarrow> OS_FLAG_GRP) \<Rightarrow> flags \<Rightarrow> flags" where
  "upd_grp g f s = s\<lparr>OSFlagTbl := (OSFlagTbl s)(g := f (OSFlagTbl s g))\<rparr>"

definition upd_node :: "nat \<Rightarrow> (OS_FLAG_NODE \<Rightarrow> OS_FLAG_NODE) \<Rightarrow> flags \<Rightarrow> flags" where
  "upd_node n f s = s\<lparr>fnode := (fnode s)(n := f (fnode s n))\<rparr>"

text \<open>A pointer used as a node: \<open>Some None\<close> for the null pointer.\<close>

definition as_node :: "flag_ptr \<Rightarrow> nat option option" where
  "as_node p = (case p of FNull \<Rightarrow> Some None | FNode n \<Rightarrow> Some (Some n) | FGrp g \<Rightarrow> None)"

section \<open>Conditions\<close>

text \<open>The switch on the type of wait: whether the condition holds, and the flags that make it hold.\<close>

definition flag_match :: "u8 \<Rightarrow> OS_FLAGS \<Rightarrow> OS_FLAGS \<Rightarrow> (bool \<times> OS_FLAGS) option" where
  "flag_match wait_type flags cur =
     (if wait_type = OS_FLAG_WAIT_SET_ALL then let flags_rdy = cur AND flags in Some (flags_rdy = flags, flags_rdy)
      else if wait_type = OS_FLAG_WAIT_SET_ANY then let flags_rdy = cur AND flags in Some (flags_rdy \<noteq> 0, flags_rdy)
      else if wait_type = OS_FLAG_WAIT_CLR_ALL then let flags_rdy = NOT cur AND flags in Some (flags_rdy = flags, flags_rdy)
      else if wait_type = OS_FLAG_WAIT_CLR_ANY then let flags_rdy = NOT cur AND flags in Some (flags_rdy \<noteq> 0, flags_rdy)
      else None)"

text \<open>Consuming flags: those waited for to be set are cleared, and conversely.\<close>

definition flag_consume :: "u8 \<Rightarrow> OS_FLAGS \<Rightarrow> OS_FLAGS \<Rightarrow> OS_FLAGS" where
  "flag_consume wait_type flags_rdy cur =
     (if wait_type = OS_FLAG_WAIT_SET_ALL \<or> wait_type = OS_FLAG_WAIT_SET_ANY then cur AND NOT flags_rdy else cur OR flags_rdy)"

definition OSFlagAccept :: "nat \<Rightarrow> OS_FLAGS \<Rightarrow> u8 \<Rightarrow> flags \<Rightarrow> OS_FLAGS \<times> os_err \<times> flags" where
  "OSFlagAccept g flags wait_type s =
     (if OSFlagType (OSFlagTbl s g) \<noteq> OS_EVENT_TYPE_FLAG then (0, OS_ERR_EVENT_TYPE, s)
      else let consume = (wait_type AND OS_FLAG_CONSUME \<noteq> 0);
               wait_type = (if consume then wait_type AND NOT OS_FLAG_CONSUME else wait_type)
           in case flag_match wait_type flags (OSFlagFlags (OSFlagTbl s g)) of
                None \<Rightarrow> (0, OS_ERR_FLAG_WAIT_TYPE, s)
              | Some (rdy, flags_rdy) \<Rightarrow>
                  if rdy then (flags_rdy, OS_ERR_NONE,
                    if consume then upd_grp g (\<lambda>p. p\<lparr>OSFlagFlags := flag_consume wait_type flags_rdy (OSFlagFlags p)\<rparr>) s else s)
                  else (flags_rdy, OS_ERR_FLAG_NOT_RDY, s))"

section \<open>The wait list\<close>

definition OS_FlagBlock :: "nat \<Rightarrow> OS_FLAGS \<Rightarrow> u8 \<Rightarrow> u32 \<Rightarrow> flags \<Rightarrow> flags option" where
  "OS_FlagBlock g flags wait_type timeout s = do {
     t \<leftarrow> deref (OSTCBCur (fkern s));
     let k = upd_tcb t (\<lambda>c. c\<lparr>OSTCBStat := OSTCBStat c OR OS_STAT_FLAG, OSTCBStatPend := OS_STAT_PEND_OK,
                          OSTCBDly := timeout\<rparr>) (fkern s);
     let s = s\<lparr>OSTCBFlagNode := (OSTCBFlagNode s)(t := FNode t)\<rparr>;
     let s = upd_node t (\<lambda>_. \<lparr>OSFlagNodeNext = OSFlagWaitList (OSFlagTbl s g), OSFlagNodePrev = FNull, OSFlagNodeTCB = t,
         OSFlagNodeFlagGrp = g, OSFlagNodeFlags = flags, OSFlagNodeWaitType = wait_type\<rparr>) s;
     pnode_next \<leftarrow> as_node (OSFlagWaitList (OSFlagTbl s g));
     let s = (case pnode_next of Some n \<Rightarrow> upd_node n (\<lambda>p. p\<lparr>OSFlagNodePrev := FNode t\<rparr>) s | None \<Rightarrow> s);
     let s = upd_grp g (\<lambda>p. p\<lparr>OSFlagWaitList := FNode t\<rparr>) s;
     Some (s\<lparr>fkern := make_unready t k\<rparr>)
   }"

definition OS_FlagUnlink :: "nat \<Rightarrow> flags \<Rightarrow> flags option" where
  "OS_FlagUnlink n s = do {
     pnode_prev \<leftarrow> as_node (OSFlagNodePrev (fnode s n));
     pnode_next \<leftarrow> as_node (OSFlagNodeNext (fnode s n));
     let s = (case pnode_prev of
         None \<Rightarrow>
           let s = upd_grp (OSFlagNodeFlagGrp (fnode s n)) (\<lambda>p. p\<lparr>OSFlagWaitList := OSFlagNodeNext (fnode s n)\<rparr>) s
           in (case pnode_next of Some x \<Rightarrow> upd_node x (\<lambda>p. p\<lparr>OSFlagNodePrev := FNull\<rparr>) s | None \<Rightarrow> s)
       | Some y \<Rightarrow>
           let s = upd_node y (\<lambda>p. p\<lparr>OSFlagNodeNext := OSFlagNodeNext (fnode s n)\<rparr>) s
           in (case pnode_next of Some x \<Rightarrow> upd_node x (\<lambda>p. p\<lparr>OSFlagNodePrev := FNode y\<rparr>) s | None \<Rightarrow> s));
     Some (s\<lparr>OSTCBFlagNode := (OSTCBFlagNode s)(OSFlagNodeTCB (fnode s n) := FNull)\<rparr>)
   }"

text \<open>Whether the task became ready.\<close>

definition OS_FlagTaskRdy :: "nat \<Rightarrow> OS_FLAGS \<Rightarrow> pend_stat \<Rightarrow> flags \<Rightarrow> (bool \<times> flags) option" where
  "OS_FlagTaskRdy n flags_rdy pend_stat s = do {
     let t = OSFlagNodeTCB (fnode s n);
     let s = s\<lparr>OSTCBFlagsRdy := (OSTCBFlagsRdy s)(t := flags_rdy)\<rparr>;
     let k = upd_tcb t (\<lambda>c. c\<lparr>OSTCBDly := 0, OSTCBStat := OSTCBStat c AND NOT OS_STAT_FLAG, OSTCBStatPend := pend_stat\<rparr>) (fkern s);
     let sched = (OSTCBStat (tcb k t) = OS_STAT_RDY);
     let k = (if sched then make_ready (OSTCBY (tcb k t)) t k else k);
     s \<leftarrow> OS_FlagUnlink n (s\<lparr>fkern := k\<rparr>);
     Some (sched, s)
   }"

section \<open>Services\<close>

definition OSFlagCreate :: "OS_FLAGS \<Rightarrow> flags \<Rightarrow> (nat option \<times> os_err \<times> flags) option" where
  "OSFlagCreate flags s =
     (if OSIntNesting (fkern s) > 0 then Some (None, OS_ERR_CREATE_ISR, s)
      else case OSFlagFreeList s of
        FNull \<Rightarrow> Some (None, OS_ERR_FLAG_GRP_DEPLETED, s)
      | FGrp g \<Rightarrow>
          let s = s\<lparr>OSFlagFreeList := OSFlagWaitList (OSFlagTbl s g)\<rparr>
          in Some (Some g, OS_ERR_NONE, upd_grp g (\<lambda>_. \<lparr>OSFlagType = OS_EVENT_TYPE_FLAG, OSFlagWaitList = FNull,
               OSFlagFlags = flags, OSFlagName = ''?''\<rparr>) s)
      | FNode n \<Rightarrow> None)"

text \<open>The walk of \<open>OSFlagDel\<close> along the list, and the return of the group to the free list.\<close>

partial_function (option) abort_walk :: "nat option \<Rightarrow> flags \<Rightarrow> flags option" where
  "abort_walk pnode s = (case pnode of
       None \<Rightarrow> Some s
     | Some n \<Rightarrow> do {
         (rdy, s) \<leftarrow> OS_FlagTaskRdy n 0 OS_STAT_PEND_ABORT s;
         pnode \<leftarrow> as_node (OSFlagNodeNext (fnode s n));
         abort_walk pnode s
       })"

definition free_group :: "nat \<Rightarrow> flags \<Rightarrow> flags" where
  "free_group g s = (upd_grp g (\<lambda>_. \<lparr>OSFlagType = OS_EVENT_TYPE_UNUSED, OSFlagWaitList = OSFlagFreeList s,
     OSFlagFlags = 0, OSFlagName = ''?''\<rparr>) s)\<lparr>OSFlagFreeList := FGrp g\<rparr>"

definition OSFlagDel :: "nat \<Rightarrow> u8 \<Rightarrow> flags \<Rightarrow> (nat option \<times> os_err \<times> flags) option" where
  "OSFlagDel g opt s =
     (if OSIntNesting (fkern s) > 0 then Some (Some g, OS_ERR_DEL_ISR, s)
      else if OSFlagType (OSFlagTbl s g) \<noteq> OS_EVENT_TYPE_FLAG then Some (Some g, OS_ERR_EVENT_TYPE, s)
      else let tasks_waiting = (OSFlagWaitList (OSFlagTbl s g) \<noteq> FNull)
           in if opt = OS_DEL_NO_PEND then
                if \<not> tasks_waiting then Some (None, OS_ERR_NONE, free_group g s)
                else Some (Some g, OS_ERR_TASK_WAITING, s)
              else if opt = OS_DEL_ALWAYS then do {
                pnode \<leftarrow> as_node (OSFlagWaitList (OSFlagTbl s g));
                s \<leftarrow> abort_walk pnode s;
                let s = free_group g s;
                k \<leftarrow> (if tasks_waiting then OS_Sched (fkern s) else Some (fkern s));
                Some (None, OS_ERR_NONE, s\<lparr>fkern := k\<rparr>)
              } else Some (Some g, OS_ERR_INVALID_OPT, s))"

definition OSFlagNameGet :: "nat \<Rightarrow> flags \<Rightarrow> u8 \<times> string option \<times> os_err" where
  "OSFlagNameGet g s =
     (if OSIntNesting (fkern s) > 0 then (0, None, OS_ERR_NAME_GET_ISR)
      else if OSFlagType (OSFlagTbl s g) \<noteq> OS_EVENT_TYPE_FLAG then (0, None, OS_ERR_EVENT_TYPE)
      else (OS_StrLen (OSFlagName (OSFlagTbl s g)), Some (OSFlagName (OSFlagTbl s g)), OS_ERR_NONE))"

definition OSFlagNameSet :: "nat \<Rightarrow> string \<Rightarrow> flags \<Rightarrow> os_err \<times> flags" where
  "OSFlagNameSet g pname s =
     (if OSIntNesting (fkern s) > 0 then (OS_ERR_NAME_SET_ISR, s)
      else if OSFlagType (OSFlagTbl s g) \<noteq> OS_EVENT_TYPE_FLAG then (OS_ERR_EVENT_TYPE, s)
      else (OS_ERR_NONE, upd_grp g (\<lambda>p. p\<lparr>OSFlagName := pname\<rparr>) s))"

text \<open>\<open>OSFlagPend\<close> up to \<open>OS_Sched\<close>, and its second half, in which \<open>wait_type\<close> and \<open>consume\<close> are the local variables.\<close>

definition OSFlagPend :: "nat \<Rightarrow> OS_FLAGS \<Rightarrow> u8 \<Rightarrow> u32 \<Rightarrow> flags \<Rightarrow> ((OS_FLAGS \<times> os_err) call \<times> flags) option" where
  "OSFlagPend g flags wait_type timeout s =
     (if OSIntNesting (fkern s) > 0 then Some (Returned (0, OS_ERR_PEND_ISR), s)
      else if OSLockNesting (fkern s) > 0 then Some (Returned (0, OS_ERR_PEND_LOCKED), s)
      else if OSFlagType (OSFlagTbl s g) \<noteq> OS_EVENT_TYPE_FLAG then Some (Returned (0, OS_ERR_EVENT_TYPE), s)
      else let consume = (wait_type AND OS_FLAG_CONSUME \<noteq> 0);
               wait_type = (if consume then wait_type AND NOT OS_FLAG_CONSUME else wait_type)
           in case flag_match wait_type flags (OSFlagFlags (OSFlagTbl s g)) of
                None \<Rightarrow> Some (Returned (0, OS_ERR_FLAG_WAIT_TYPE), s)
              | Some (True, flags_rdy) \<Rightarrow> do {
                  let s = (if consume then upd_grp g (\<lambda>p. p\<lparr>OSFlagFlags := flag_consume wait_type flags_rdy (OSFlagFlags p)\<rparr>) s else s);
                  t \<leftarrow> deref (OSTCBCur (fkern s));
                  Some (Returned (flags_rdy, OS_ERR_NONE), s\<lparr>OSTCBFlagsRdy := (OSTCBFlagsRdy s)(t := flags_rdy)\<rparr>)
                }
              | Some (False, flags_rdy) \<Rightarrow> do {
                  s \<leftarrow> OS_FlagBlock g flags wait_type timeout s;
                  k \<leftarrow> OS_Sched (fkern s);
                  Some (Blocked, s\<lparr>fkern := k\<rparr>)
                })"

definition OSFlagPend_resumed :: "nat \<Rightarrow> u8 \<Rightarrow> bool \<Rightarrow> flags \<Rightarrow> (OS_FLAGS \<times> os_err \<times> flags) option" where
  "OSFlagPend_resumed g wait_type consume s = do {
     t \<leftarrow> deref (OSTCBCur (fkern s));
     if OSTCBStatPend (tcb (fkern s) t) \<noteq> OS_STAT_PEND_OK then do {
       let pend_stat = OSTCBStatPend (tcb (fkern s) t);
       let s = s\<lparr>fkern := upd_tcb t (\<lambda>c. c\<lparr>OSTCBStatPend := OS_STAT_PEND_OK\<rparr>) (fkern s)\<rparr>;
       s \<leftarrow> OS_FlagUnlink t s;
       let s = s\<lparr>fkern := upd_tcb t (\<lambda>c. c\<lparr>OSTCBStat := OS_STAT_RDY\<rparr>) (fkern s)\<rparr>;
       Some (0, if pend_stat = OS_STAT_PEND_ABORT then OS_ERR_PEND_ABORT else OS_ERR_TIMEOUT, s)
     } else do {
       let flags_rdy = OSTCBFlagsRdy s t;
       Some (flags_rdy, OS_ERR_NONE,
         if consume then upd_grp g (\<lambda>p. p\<lparr>OSFlagFlags := flag_consume wait_type flags_rdy (OSFlagFlags p)\<rparr>) s else s)
     }
   }"

definition OSFlagPendGetFlagsRdy :: "flags \<Rightarrow> OS_FLAGS option" where
  "OSFlagPendGetFlagsRdy s = map_option (OSTCBFlagsRdy s) (deref (OSTCBCur (fkern s)))"

text \<open>The walk of \<open>OSFlagPost\<close>; its first result is \<open>None\<close> when a node has a type of wait that does not exist.\<close>

partial_function (option) post_walk :: "nat \<Rightarrow> nat option \<Rightarrow> bool \<Rightarrow> flags \<Rightarrow> (bool option \<times> flags) option" where
  "post_walk g pnode sched s = (case pnode of
       None \<Rightarrow> Some (Some sched, s)
     | Some n \<Rightarrow>
         (case flag_match (OSFlagNodeWaitType (fnode s n)) (OSFlagNodeFlags (fnode s n)) (OSFlagFlags (OSFlagTbl s g)) of
            None \<Rightarrow> Some (None, s)
          | Some (met, flags_rdy) \<Rightarrow> do {
              (rdy, s) \<leftarrow> (if met then OS_FlagTaskRdy n flags_rdy OS_STAT_PEND_OK s else Some (False, s));
              pnode \<leftarrow> as_node (OSFlagNodeNext (fnode s n));
              post_walk g pnode (sched \<or> rdy) s
            }))"

definition OSFlagPost :: "nat \<Rightarrow> OS_FLAGS \<Rightarrow> u8 \<Rightarrow> flags \<Rightarrow> (OS_FLAGS \<times> os_err \<times> flags) option" where
  "OSFlagPost g flags opt s =
     (if OSFlagType (OSFlagTbl s g) \<noteq> OS_EVENT_TYPE_FLAG then Some (0, OS_ERR_EVENT_TYPE, s)
      else if opt \<noteq> OS_FLAG_CLR \<and> opt \<noteq> OS_FLAG_SET then Some (0, OS_ERR_FLAG_INVALID_OPT, s)
      else do {
        let s = upd_grp g (\<lambda>p. p\<lparr>OSFlagFlags :=
            (if opt = OS_FLAG_CLR then OSFlagFlags p AND NOT flags else OSFlagFlags p OR flags)\<rparr>) s;
        pnode \<leftarrow> as_node (OSFlagWaitList (OSFlagTbl s g));
        (sched, s) \<leftarrow> post_walk g pnode False s;
        case sched of
          None \<Rightarrow> Some (0, OS_ERR_FLAG_WAIT_TYPE, s)
        | Some sched \<Rightarrow> do {
            k \<leftarrow> (if sched then OS_Sched (fkern s) else Some (fkern s));
            let s = s\<lparr>fkern := k\<rparr>;
            Some (OSFlagFlags (OSFlagTbl s g), OS_ERR_NONE, s)
          }
      })"

definition OSFlagQuery :: "nat \<Rightarrow> flags \<Rightarrow> OS_FLAGS \<times> os_err" where
  "OSFlagQuery g s =
     (if OSFlagType (OSFlagTbl s g) \<noteq> OS_EVENT_TYPE_FLAG then (0, OS_ERR_EVENT_TYPE)
      else (OSFlagFlags (OSFlagTbl s g), OS_ERR_NONE))"

text \<open>The groups of the table are linked into the free list.\<close>

definition OS_FlagInit :: "flags \<Rightarrow> flags" where
  "OS_FlagInit s = s\<lparr>OSFlagTbl := (\<lambda>g. \<lparr>OSFlagType = OS_EVENT_TYPE_UNUSED,
       OSFlagWaitList = (if g + 1 < OS_MAX_FLAGS then FGrp (g + 1) else FNull), OSFlagFlags = 0, OSFlagName = ''?''\<rparr>),
     OSFlagFreeList := FGrp 0\<rparr>"

end
