(* ===== verification/Kernel_Flag_Thms.thy ===== *)
theory Kernel_Flag_Thms
  imports Kernel_Flag Kernel_Thms
begin

text \<open>
  The correctness of the event flags: the doubly linked list of a group against the list of the waiting
  tasks, what a post wakes, how a wait enters and leaves the list, and what deleting a group with waiting
  tasks leaves behind.
\<close>

section \<open>Conditions as sets of bits\<close>

text \<open>What the four types of wait mean.\<close>

definition flag_holds :: "u8 \<Rightarrow> OS_FLAGS \<Rightarrow> OS_FLAGS \<Rightarrow> bool" where
  "flag_holds wt flags cur =
     (if wt = OS_FLAG_WAIT_SET_ALL then \<forall>i. bit flags i \<longrightarrow> bit cur i
      else if wt = OS_FLAG_WAIT_SET_ANY then \<exists>i. bit flags i \<and> bit cur i
      else if wt = OS_FLAG_WAIT_CLR_ALL then \<forall>i. bit flags i \<longrightarrow> \<not> bit cur i
      else \<exists>i. bit flags i \<and> \<not> bit cur i)"

definition flags_got :: "u8 \<Rightarrow> OS_FLAGS \<Rightarrow> OS_FLAGS \<Rightarrow> OS_FLAGS" where
  "flags_got wt flags cur =
     (if wt = OS_FLAG_WAIT_SET_ALL \<or> wt = OS_FLAG_WAIT_SET_ANY then cur AND flags else NOT cur AND flags)"

lemma bit16_less: "bit (f :: u16) i \<Longrightarrow> i < 16"
  using bit_imp_le_length [of f i] by simp

lemma and_all: "(x AND f = f) \<longleftrightarrow> (\<forall>i. bit f i \<longrightarrow> bit (x :: u16) i)"
  using bit16_less [of f] by (auto simp: bit_eq_iff bit_and_iff)

lemma and_any: "(x AND f \<noteq> 0) \<longleftrightarrow> (\<exists>i. bit f i \<and> bit (x :: u16) i)"
  using bit16_less [of f] by (auto simp: bit_eq_iff bit_and_iff)

lemma bit_not16: "bit (f :: u16) i \<Longrightarrow> bit (NOT x :: u16) i \<longleftrightarrow> \<not> bit x i"
  using bit_imp_le_length [of f i] by (simp add: bit_not_iff)

lemma wait_type_cases: "(wt :: u8) < 4 \<Longrightarrow> wt = 0 \<or> wt = 1 \<or> wt = 2 \<or> wt = 3"
proof -
  assume "wt < 4"
  then have "unat wt < 4" by (simp add: word_less_nat_alt)
  then have "unat wt = 0 \<or> unat wt = 1 \<or> unat wt = 2 \<or> unat wt = 3" by arith
  then show ?thesis by (auto simp: word_unat_eq_iff)
qed

lemma flag_match_holds:
  "wt < 4 \<Longrightarrow> flag_match wt flags cur = Some (flag_holds wt flags cur, flags_got wt flags cur)"
  using wait_type_cases [of wt]
  by (auto simp: flag_match_def flag_holds_def flags_got_def Let_def and_all and_any bit_not16)

lemma flag_match_type: "flag_match wt flags cur = Some r \<Longrightarrow> wt < 4"
  by (auto simp: flag_match_def split: if_splits)

section \<open>The doubly linked list\<close>

text \<open>The pointer to the first node of a list that goes on with \<open>e\<close>, and to the last of one that started
  after \<open>p\<close>.\<close>

definition fhd :: "nat list \<Rightarrow> flag_ptr \<Rightarrow> flag_ptr" where
  "fhd ns e = (case ns of [] \<Rightarrow> e | n # _ \<Rightarrow> FNode n)"

definition flast :: "nat list \<Rightarrow> flag_ptr \<Rightarrow> flag_ptr" where
  "flast ns p = (if ns = [] then p else FNode (last ns))"

lemma fhd_simps [simp]: "fhd [] e = e" "fhd (n # ns) e = FNode n" "fhd (as @ bs) e = fhd as (fhd bs e)"
  by (auto simp: fhd_def split: list.splits)

lemma flast_simps [simp]: "flast [] p = p" "flast (n # ns) p = flast ns (FNode n)" "flast (as @ bs) p = flast bs (flast as p)"
  by (auto simp: flast_def)

fun flinked :: "(nat \<Rightarrow> OS_FLAG_NODE) \<Rightarrow> flag_ptr \<Rightarrow> nat list \<Rightarrow> flag_ptr \<Rightarrow> bool" where
  "flinked N p [] e \<longleftrightarrow> True"
| "flinked N p (n # ns) e \<longleftrightarrow> OSFlagNodePrev (N n) = p \<and> OSFlagNodeNext (N n) = fhd ns e \<and> flinked N (FNode n) ns e"

lemma flinked_append: "flinked N p (as @ bs) e \<longleftrightarrow> flinked N p as (fhd bs e) \<and> flinked N (flast as p) bs e"
  by (induction as arbitrary: p) auto

lemma flinked_cong: "(\<And>n. n \<in> set ns \<Longrightarrow> N' n = N n) \<Longrightarrow> flinked N' p ns e = flinked N p ns e"
  by (induction ns arbitrary: p) auto

lemma flinked_other [simp]: "x \<notin> set ns \<Longrightarrow> flinked (N(x := v)) p ns e = flinked N p ns e"
  by (rule flinked_cong) auto

text \<open>The tasks \<open>ns\<close>, in this order, wait on the group \<open>g\<close>.\<close>

definition flag_list :: "flags \<Rightarrow> nat \<Rightarrow> nat list \<Rightarrow> bool" where
  "flag_list s g ns \<longleftrightarrow> OSFlagWaitList (OSFlagTbl s g) = fhd ns FNull \<and> flinked (fnode s) FNull ns FNull \<and> distinct ns \<and>
     (\<forall>n \<in> set ns. OSFlagNodeTCB (fnode s n) = n \<and> OSFlagNodeFlagGrp (fnode s n) = g \<and> OSFlagNodeWaitType (fnode s n) < 4)"

text \<open>What the list operations leave alone: what a node waits for, the flags, the other groups.\<close>

definition node_info :: "OS_FLAG_NODE \<Rightarrow> nat \<times> nat \<times> OS_FLAGS \<times> u8" where
  "node_info n = (OSFlagNodeTCB n, OSFlagNodeFlagGrp n, OSFlagNodeFlags n, OSFlagNodeWaitType n)"

definition list_only :: "nat \<Rightarrow> flags \<Rightarrow> flags \<Rightarrow> bool" where
  "list_only g s s' \<longleftrightarrow> OSFlagFreeList s' = OSFlagFreeList s \<and> (\<forall>m. node_info (fnode s' m) = node_info (fnode s m)) \<and>
     (\<forall>h. \<exists>w. OSFlagTbl s' h = (OSFlagTbl s h)\<lparr>OSFlagWaitList := w\<rparr>) \<and>
     (\<forall>h. h \<noteq> g \<longrightarrow> OSFlagTbl s' h = OSFlagTbl s h)"

lemma waitlist_ex [simp]: "\<exists>w. x = x\<lparr>OSFlagWaitList := w\<rparr>" "\<exists>w. x\<lparr>OSFlagWaitList := v\<rparr> = x\<lparr>OSFlagWaitList := w\<rparr>"
  by (rule exI [of _ "OSFlagWaitList x"], simp) (rule exI, rule refl)

lemma list_only_refl [simp]: "list_only g s s"
  by (simp add: list_only_def)

lemma list_only_trans: "list_only g s s1 \<Longrightarrow> list_only g s1 s2 \<Longrightarrow> list_only g s s2"
  unfolding list_only_def by (metis (no_types, lifting) OS_FLAG_GRP.surjective OS_FLAG_GRP.update_convs(2))

lemma list_only_fields:
  assumes "list_only g s s'"
  shows "OSFlagFlags (OSFlagTbl s' h) = OSFlagFlags (OSFlagTbl s h)" "OSFlagType (OSFlagTbl s' h) = OSFlagType (OSFlagTbl s h)"
    "OSFlagNodeFlags (fnode s' m) = OSFlagNodeFlags (fnode s m)" "OSFlagNodeWaitType (fnode s' m) = OSFlagNodeWaitType (fnode s m)"
    "OSFlagNodeTCB (fnode s' m) = OSFlagNodeTCB (fnode s m)" "OSFlagNodeFlagGrp (fnode s' m) = OSFlagNodeFlagGrp (fnode s m)"
proof -
  obtain w where "OSFlagTbl s' h = (OSFlagTbl s h)\<lparr>OSFlagWaitList := w\<rparr>" using assms unfolding list_only_def by blast
  then show "OSFlagFlags (OSFlagTbl s' h) = OSFlagFlags (OSFlagTbl s h)" "OSFlagType (OSFlagTbl s' h) = OSFlagType (OSFlagTbl s h)"
    by simp_all
qed (use assms in \<open>auto simp: list_only_def node_info_def\<close>)

lemma as_node_simps [simp]: "as_node FNull = Some None" "as_node (FNode n) = Some (Some n)"
  by (simp_all add: as_node_def)

lemma as_node_fhd: "as_node (fhd ns FNull) = Some (case ns of [] \<Rightarrow> None | n # _ \<Rightarrow> Some n)"
  by (cases ns) auto

lemma OS_FlagUnlink_ok:
  assumes l: "flag_list s g (as @ n # bs)"
  shows "\<exists>s'. OS_FlagUnlink n s = Some s' \<and> flag_list s' g (as @ bs) \<and> list_only g s s' \<and> fkern s' = fkern s \<and>
    OSTCBFlagsRdy s' = OSTCBFlagsRdy s \<and> fnode s' n = fnode s n \<and> OSFlagNodeNext (fnode s n) = fhd bs FNull"
proof -
  note d = l [unfolded flag_list_def flinked_append]
  show ?thesis
  proof (cases as rule: rev_cases)
    case Nil
    show ?thesis
    proof (cases bs)
      case (Cons x bs')
      then show ?thesis using d Nil
        by (auto simp: OS_FlagUnlink_def upd_grp_def upd_node_def Let_def flag_list_def list_only_def node_info_def)
    qed (use d Nil in \<open>auto simp: OS_FlagUnlink_def upd_grp_def upd_node_def Let_def flag_list_def list_only_def node_info_def\<close>)
  next
    case (snoc as' y)
    show ?thesis
    proof (cases bs)
      case (Cons x bs')
      then show ?thesis using d snoc
        by (auto simp: OS_FlagUnlink_def upd_grp_def upd_node_def Let_def flag_list_def list_only_def node_info_def flinked_append)
    qed (use d snoc in \<open>auto simp: OS_FlagUnlink_def upd_grp_def upd_node_def Let_def flag_list_def list_only_def node_info_def flinked_append\<close>)
  qed
qed

section \<open>Waking a task\<close>

text \<open>What \<open>OS_FlagTaskRdy\<close> does to the kernel.\<close>

definition flag_wake :: "nat \<Rightarrow> pend_stat \<Rightarrow> kernel \<Rightarrow> kernel" where
  "flag_wake t ps k =
     (let k = upd_tcb t (\<lambda>c. c\<lparr>OSTCBDly := 0, OSTCBStat := OSTCBStat c AND NOT OS_STAT_FLAG, OSTCBStatPend := ps\<rparr>) k
      in if OSTCBStat (tcb k t) = OS_STAT_RDY then make_ready (OSTCBY (tcb k t)) t k else k)"

text \<open>Nothing but the group holds the task back.\<close>

definition only_flag :: "OS_TCB \<Rightarrow> bool" where
  "only_flag c \<longleftrightarrow> OSTCBStat c AND NOT OS_STAT_FLAG = OS_STAT_RDY"

definition flag_woken :: "pend_stat \<Rightarrow> OS_TCB \<Rightarrow> OS_TCB" where
  "flag_woken ps c = c\<lparr>OSTCBDly := 0, OSTCBStat := OSTCBStat c AND NOT OS_STAT_FLAG, OSTCBStatPend := ps\<rparr>"

lemma own_local:
  assumes "OSTCBPrioTbl k' = OSTCBPrioTbl k" "\<And>u. same_coords (tcb k u) (tcb k' u)"
  shows "own k' = own k"
  using assms by (intro ext) (auto simp: own_def coords_ok_def same_coords_def)

text \<open>Two kernels that differ in the ready list and the control blocks' states only.\<close>

definition ready_only :: "kernel \<Rightarrow> kernel \<Rightarrow> bool" where
  "ready_only k k' \<longleftrightarrow> (\<exists>R T. k' = k\<lparr>OSRdy := R, tcb := T\<rparr> \<and> (\<forall>u. same_coords (tcb k u) (T u)))"

lemma ready_only_frame:
  assumes "ready_only k k'"
  shows "own k' = own k" "waiting k' = waiting k" "OSTCBCur k' = OSTCBCur k" "OSPrioCur k' = OSPrioCur k"
    "OSIntNesting k' = OSIntNesting k" "OSLockNesting k' = OSLockNesting k" "evt k' = evt k"
    "OSTCBPrioTbl k' = OSTCBPrioTbl k" "OSPrioHighRdy k' = OSPrioHighRdy k"
proof -
  obtain R T where k': "k' = k\<lparr>OSRdy := R, tcb := T\<rparr>" "\<And>u. same_coords (tcb k u) (T u)"
    using assms by (auto simp: ready_only_def)
  show "own k' = own k" by (rule own_local) (simp_all add: k')
qed (use assms in \<open>auto simp: ready_only_def waiting_def fun_eq_iff\<close>)

lemma same_coords_refl [simp]: "same_coords c c" by (simp add: same_coords_def)

lemma ready_only_refl: "ready_only k k"
proof -
  have "k = k\<lparr>OSRdy := OSRdy k, tcb := tcb k\<rparr>" by simp
  then show ?thesis unfolding ready_only_def by (metis same_coords_refl)
qed

lemma ready_only_trans: "ready_only k k1 \<Longrightarrow> ready_only k1 k2 \<Longrightarrow> ready_only k k2"
  unfolding ready_only_def by (force simp: same_coords_def)

lemma ready_only_base:
  assumes b: "base_ok k" and o: "ready_only k k'" and r: "bm_ok (OSRdy k')" "63 \<in> ready k'"
    and e: "\<And>p. p \<in> ready k' \<Longrightarrow> \<exists>t. own k p t"
  shows "base_ok k'"
proof -
  have "OSTCBPrio (tcb k' u) = OSTCBPrio (tcb k u)" for u
    using o by (auto simp: ready_only_def same_coords_def)
  then show ?thesis using b r e ready_only_frame [OF o]
    unfolding base_ok_def by (simp add: ready_only_frame [OF o] b)
qed

lemma flag_wake_ok:
  assumes b: "base_ok k" and o: "own k p t"
  shows "ready_only k (flag_wake t ps k)" "base_ok (flag_wake t ps k)"
    "ready (flag_wake t ps k) = (if only_flag (tcb k t) then insert p (ready k) else ready k)"
    "tcb (flag_wake t ps k) = (tcb k)(t := flag_woken ps (tcb k t))"
proof -
  let ?k = "flag_wake t ps k"
  have k': "?k = k\<lparr>OSRdy := (if only_flag (tcb k t) then bm_ins p (OSRdy k) else OSRdy k),
      tcb := (tcb k)(t := flag_woken ps (tcb k t))\<rparr>"
    by (simp add: flag_wake_def kernel_defs Let_def only_flag_def flag_woken_def own_bm [OF o])
  show t: "tcb ?k = (tcb k)(t := flag_woken ps (tcb k t))" by (simp add: k')
  note bms = bm_move [OF baseD(1) [OF b] own_less [OF o]]
  show r: "ready ?k = (if only_flag (tcb k t) then insert p (ready k) else ready k)"
    by (simp add: k' ready_def bms)
  show ro: "ready_only k ?k"
    unfolding ready_only_def by (intro exI conjI) (rule k', simp add: same_coords_def flag_woken_def)
  show "base_ok ?k"
  proof (rule ready_only_base [OF b ro])
    show "bm_ok (OSRdy ?k)" using bms baseD(1) [OF b] by (simp add: k')
    show "63 \<in> ready ?k" using r baseD(3) [OF b] by simp
    show "\<exists>u. own k q u" if "q \<in> ready ?k" for q
      using that r o baseD(4) [OF b, of q] by (cases "q = p") (auto split: if_splits)
  qed
qed 


lemma OS_FlagTaskRdy_ok:
  assumes l: "flag_list s g (as @ n # bs)" and o: "own (fkern s) p n"
  shows "\<exists>s'. OS_FlagTaskRdy n r ps s = Some (only_flag (tcb (fkern s) n), s') \<and> flag_list s' g (as @ bs) \<and>
    list_only g s s' \<and> fkern s' = flag_wake n ps (fkern s) \<and> OSTCBFlagsRdy s' = (OSTCBFlagsRdy s)(n := r) \<and>
    fnode s' n = fnode s n \<and> OSFlagNodeNext (fnode s n) = fhd bs FNull"
proof -
  let ?s = "s\<lparr>OSTCBFlagsRdy := (OSTCBFlagsRdy s)(n := r), fkern := flag_wake n ps (fkern s)\<rparr>"
  have tcb: "OSFlagNodeTCB (fnode s n) = n" using l by (simp add: flag_list_def)
  have "flag_list ?s g (as @ n # bs)" using l by (simp add: flag_list_def)
  from OS_FlagUnlink_ok [OF this] obtain s' where u: "OS_FlagUnlink n ?s = Some s'"
    and s': "flag_list s' g (as @ bs)" "list_only g ?s s'" "fkern s' = flag_wake n ps (fkern s)"
      "OSTCBFlagsRdy s' = (OSTCBFlagsRdy s)(n := r)" "fnode s' n = fnode s n" "OSFlagNodeNext (fnode s n) = fhd bs FNull"
    by auto
  have "OS_FlagTaskRdy n r ps s = Some (only_flag (tcb (fkern s) n), s')"
    using u by (cases "OSTCBStat (tcb (fkern s) n) AND NOT OS_STAT_FLAG = OS_STAT_RDY")
      (simp_all add: OS_FlagTaskRdy_def tcb Let_def flag_wake_def only_flag_def upd_tcb_def)
  then show ?thesis using s' by (intro exI [of _ s']) (simp add: list_only_def)
qed

text \<open>The tasks \<open>ws\<close> were woken with the status \<open>ps\<close> and the flags \<open>got\<close>, and nothing else happened to the tasks.\<close>

definition woke :: "pend_stat \<Rightarrow> (nat \<Rightarrow> OS_FLAGS) \<Rightarrow> nat list \<Rightarrow> flags \<Rightarrow> flags \<Rightarrow> bool" where
  "woke ps got ws s s' \<longleftrightarrow> ready_only (fkern s) (fkern s') \<and>
     tcb (fkern s') = (\<lambda>t. if t \<in> set ws then flag_woken ps (tcb (fkern s) t) else tcb (fkern s) t) \<and>
     ready (fkern s') = ready (fkern s) \<union> {p. \<exists>t \<in> set ws. own (fkern s) p t \<and> only_flag (tcb (fkern s) t)} \<and>
     OSTCBFlagsRdy s' = (\<lambda>t. if t \<in> set ws then got t else OSTCBFlagsRdy s t)"

lemma woke_nil: "woke ps got [] s s"
  by (simp add: woke_def ready_only_refl)

lemma woke_Cons:
  assumes b: "base_ok (fkern s)" and o: "own (fkern s) p n" and n: "n \<notin> set ws"
    and k: "fkern s1 = flag_wake n ps (fkern s)" and f: "OSTCBFlagsRdy s1 = (OSTCBFlagsRdy s)(n := got n)"
    and w: "woke ps got ws s1 s'"
  shows "woke ps got (n # ws) s s'"
proof -
  note wk = flag_wake_ok [OF b o, of ps, folded k]
  note w = w [unfolded woke_def]
  have t1: "tcb (fkern s1) t = tcb (fkern s) t" if "t \<in> set ws" for t using n that by (auto simp: wk(4))
  have o1: "own (fkern s1) = own (fkern s)" by (rule ready_only_frame [OF wk(1)])
  have "{p. \<exists>t \<in> set ws. own (fkern s1) p t \<and> only_flag (tcb (fkern s1) t)} =
      {p. \<exists>t \<in> set ws. own (fkern s) p t \<and> only_flag (tcb (fkern s) t)}"
    by (auto simp: t1 o1)
  moreover have e: "own (fkern s) q n \<longleftrightarrow> q = p" for q using o own_inj(2) by blast
  ultimately have "ready (fkern s') = ready (fkern s1) \<union> {p. \<exists>t \<in> set ws. own (fkern s) p t \<and> only_flag (tcb (fkern s) t)}"
    using w by simp
  then have r: "ready (fkern s') =
      ready (fkern s) \<union> {p. \<exists>t \<in> set (n # ws). own (fkern s) p t \<and> only_flag (tcb (fkern s) t)}"
    by (auto simp: wk(3) e split: if_splits)
  have t: "tcb (fkern s') = (\<lambda>t. if t \<in> set (n # ws) then flag_woken ps (tcb (fkern s) t) else tcb (fkern s) t)"
    using w n by (auto simp: wk(4))
  have "OSTCBFlagsRdy s' = (\<lambda>t. if t \<in> set (n # ws) then got t else OSTCBFlagsRdy s t)"
    using w n f by auto
  moreover have "ready_only (fkern s) (fkern s')" using ready_only_trans [OF wk(1)] w by blast
  ultimately show ?thesis unfolding woke_def by (intro conjI r t)
qed

section \<open>The walk of a post\<close>

definition fmet :: "flags \<Rightarrow> nat \<Rightarrow> nat \<Rightarrow> bool" where
  "fmet s g n = flag_holds (OSFlagNodeWaitType (fnode s n)) (OSFlagNodeFlags (fnode s n)) (OSFlagFlags (OSFlagTbl s g))"

definition fgot :: "flags \<Rightarrow> nat \<Rightarrow> nat \<Rightarrow> OS_FLAGS" where
  "fgot s g n = flags_got (OSFlagNodeWaitType (fnode s n)) (OSFlagNodeFlags (fnode s n)) (OSFlagFlags (OSFlagTbl s g))"

lemma fmet_frame: "list_only g s s' \<Longrightarrow> fmet s' g = fmet s g" "list_only g s s' \<Longrightarrow> fgot s' g = fgot s g"
  by (intro ext; simp add: fmet_def fgot_def list_only_fields)+

lemma flag_list_node:
  assumes "flag_list s g (as @ n # bs)"
  shows "OSFlagNodeNext (fnode s n) = fhd bs FNull" "OSFlagNodeWaitType (fnode s n) < 4" "n \<notin> set as" "n \<notin> set bs"
  using assms by (auto simp: flag_list_def flinked_append)

abbreviation first :: "nat list \<Rightarrow> nat option" where
  "first ns \<equiv> (case ns of [] \<Rightarrow> None | n # _ \<Rightarrow> Some n)"

lemma post_walk_ok:
  "flag_list s g (as @ bs) \<Longrightarrow> base_ok (fkern s) \<Longrightarrow> \<forall>n \<in> set bs. \<exists>p. own (fkern s) p n \<Longrightarrow>
   \<exists>s'. post_walk g (first bs) sched s = Some (Some (sched \<or> (\<exists>n \<in> set bs. fmet s g n \<and> only_flag (tcb (fkern s) n))), s') \<and>
     flag_list s' g (as @ filter (\<lambda>n. \<not> fmet s g n) bs) \<and> list_only g s s' \<and> base_ok (fkern s') \<and>
     woke OS_STAT_PEND_OK (fgot s g) (filter (fmet s g) bs) s s'"
proof (induction bs arbitrary: as s sched)
  case Nil
  then show ?case by (subst post_walk.simps) (simp add: woke_nil)
next
  case (Cons n bs)
  note nd = flag_list_node [OF Cons.prems(1)]
  have m: "flag_match (OSFlagNodeWaitType (fnode s n)) (OSFlagNodeFlags (fnode s n)) (OSFlagFlags (OSFlagTbl s g)) =
      Some (fmet s g n, fgot s g n)"
    by (simp add: flag_match_holds nd(2) fmet_def fgot_def)
  show ?case
  proof (cases "fmet s g n")
    case False
    have step: "post_walk g (Some n) sched s = post_walk g (first bs) sched s"
      by (subst post_walk.simps) (simp add: m False nd(1) as_node_fhd)
    show ?thesis using Cons.IH [of s "as @ [n]" sched] Cons.prems False by (simp add: step)
  next
    case True
    obtain p where o: "own (fkern s) p n" using Cons.prems(3) by auto
    from OS_FlagTaskRdy_ok [OF Cons.prems(1) o, of "fgot s g n" OS_STAT_PEND_OK]
    obtain s1 where s1: "OS_FlagTaskRdy n (fgot s g n) OS_STAT_PEND_OK s = Some (only_flag (tcb (fkern s) n), s1)"
      "flag_list s1 g (as @ bs)" "list_only g s s1" "fkern s1 = flag_wake n OS_STAT_PEND_OK (fkern s)"
      "OSTCBFlagsRdy s1 = (OSTCBFlagsRdy s)(n := fgot s g n)" "fnode s1 n = fnode s n" by blast
    note wk = flag_wake_ok [OF Cons.prems(2) o, of OS_STAT_PEND_OK, folded s1(4)]
    note fr = fmet_frame [OF s1(3)]
    let ?sc = "sched \<or> only_flag (tcb (fkern s) n)"
    have step: "post_walk g (Some n) sched s = post_walk g (first bs) ?sc s1"
      by (subst post_walk.simps) (simp add: m True s1(1,6) nd(1) as_node_fhd)
    have t1: "tcb (fkern s1) t = tcb (fkern s) t" if "t \<in> set bs" for t using nd(4) that by (auto simp: wk(4))
    have "\<forall>n \<in> set bs. \<exists>p. own (fkern s1) p n" using Cons.prems(3) by (simp add: ready_only_frame [OF wk(1)])
    from Cons.IH [OF s1(2) wk(2) this, of ?sc, unfolded fr] obtain s' where
      s': "post_walk g (first bs) ?sc s1 = Some (Some (?sc \<or> (\<exists>n \<in> set bs. fmet s g n \<and> only_flag (tcb (fkern s1) n))), s')"
      "flag_list s' g (as @ filter (\<lambda>n. \<not> fmet s g n) bs)" "list_only g s1 s'" "base_ok (fkern s')"
      "woke OS_STAT_PEND_OK (fgot s g) (filter (fmet s g) bs) s1 s'" by blast
    have "woke OS_STAT_PEND_OK (fgot s g) (n # filter (fmet s g) bs) s s'"
      by (rule woke_Cons [OF Cons.prems(2) o _ s1(4,5) s'(5)]) (simp add: nd(4))
    moreover have "(\<exists>m \<in> set bs. fmet s g m \<and> only_flag (tcb (fkern s1) m)) \<longleftrightarrow>
        (\<exists>m \<in> set bs. fmet s g m \<and> only_flag (tcb (fkern s) m))"
      using t1 by auto
    ultimately show ?thesis
      using s' list_only_trans [OF s1(3) s'(3)] True by (intro exI [of _ s']) (simp add: step)
  qed
qed


section \<open>Posting\<close>

lemma preempt_sched:
  assumes "base_ok k1" "cur_ok k1" and p: "preempt_ok k" and o: "ready_only k k1" and c: "\<not> c \<Longrightarrow> ready k1 = ready k"
  shows "\<exists>k2. (if c then OS_Sched k1 else Some k1) = Some k2 \<and> sched_eq k1 k2 \<and> cur_ok k2 \<and> preempt_ok k2"
proof (cases c)
  case True
  then show ?thesis using OS_Sched_ok [of k1] assms by simp
next
  case False
  then have "preempt_ok k1" using p c ready_only_frame [OF o] by (simp add: preempt_ok_def highest_runs_def)
  then show ?thesis using assms False sched_eq_refl by auto
qed

definition posted_flags :: "OS_FLAGS \<Rightarrow> OS_FLAGS \<Rightarrow> u8 \<Rightarrow> OS_FLAGS" where
  "posted_flags old flags opt = (if opt = OS_FLAG_CLR then old AND NOT flags else old OR flags)"

text \<open>C27. A post that sets or clears flags walks the doubly linked list of the waiting tasks to its end and wakes exactly
  the tasks whose condition, read as the statement over the single bits of the flags, holds for the new flags: they leave the
  list, the others keep their order; each is told the flags that woke it, with its delay and its pend status reset, and it is
  ready if nothing else holds it back. No other task, group or condition changes, and the ready task of the highest priority
  runs.\<close>

theorem OSFlagPost_wakes:
  fixes s :: flags and flags :: OS_FLAGS
  assumes l: "flag_list s g ns" and ty: "OSFlagType (OSFlagTbl s g) = OS_EVENT_TYPE_FLAG"
    and op: "opt = OS_FLAG_CLR \<or> opt = OS_FLAG_SET"
    and k: "base_ok (fkern s)" "cur_ok (fkern s)" "preempt_ok (fkern s)" and own: "\<forall>n \<in> set ns. \<exists>p. own (fkern s) p n"
  defines "new \<equiv> posted_flags (OSFlagFlags (OSFlagTbl s g)) flags opt"
  defines "go \<equiv> (\<lambda>n. flag_holds (OSFlagNodeWaitType (fnode s n)) (OSFlagNodeFlags (fnode s n)) new)"
  shows "\<exists>s'. OSFlagPost g flags opt s = Some (new, OS_ERR_NONE, s') \<and> OSFlagFlags (OSFlagTbl s' g) = new \<and>
    flag_list s' g (filter (\<lambda>n. \<not> go n) ns) \<and> (\<forall>h. h \<noteq> g \<longrightarrow> OSFlagTbl s' h = OSFlagTbl s h) \<and>
    (\<forall>m. node_info (fnode s' m) = node_info (fnode s m)) \<and>
    base_ok (fkern s') \<and> cur_ok (fkern s') \<and> preempt_ok (fkern s') \<and>
    ready (fkern s') = ready (fkern s) \<union> {p. \<exists>t \<in> set ns. go t \<and> own (fkern s) p t \<and> only_flag (tcb (fkern s) t)} \<and>
    (\<forall>t. let c = tcb (fkern s) t; c' = tcb (fkern s') t
         in if t \<in> set ns \<and> go t
            then OSTCBDly c' = 0 \<and> OSTCBStat c' = OSTCBStat c AND NOT OS_STAT_FLAG \<and> OSTCBStatPend c' = OS_STAT_PEND_OK \<and>
              OSTCBFlagsRdy s' t = flags_got (OSFlagNodeWaitType (fnode s t)) (OSFlagNodeFlags (fnode s t)) new
            else OSTCBDly c' = OSTCBDly c \<and> OSTCBStat c' = OSTCBStat c \<and> OSTCBStatPend c' = OSTCBStatPend c \<and>
              OSTCBFlagsRdy s' t = OSTCBFlagsRdy s t)"
proof -
  let ?s = "upd_grp g (\<lambda>p. p\<lparr>OSFlagFlags := new\<rparr>) s"
  have go: "fmet ?s g = go" and got: "fgot ?s g = (\<lambda>t. flags_got (OSFlagNodeWaitType (fnode s t)) (OSFlagNodeFlags (fnode s t)) new)"
    by (auto simp: fmet_def fgot_def go_def upd_grp_def)
  have l0: "flag_list ?s g ns" using l by (simp add: flag_list_def upd_grp_def)
  have s0 [simp]: "fkern ?s = fkern s" "OSTCBFlagsRdy ?s = OSTCBFlagsRdy s" by (simp_all add: upd_grp_def)
  define c where "c = (\<exists>n \<in> set ns. go n \<and> only_flag (tcb (fkern s) n))"
  from post_walk_ok [of ?s g "[]" ns False, unfolded go got] l0 k(1) own obtain s1 where s1: "post_walk g (first ns) False ?s = Some (Some c, s1)"
    "flag_list s1 g (filter (\<lambda>n. \<not> go n) ns)" "list_only g ?s s1" "base_ok (fkern s1)"
    "woke OS_STAT_PEND_OK (\<lambda>t. flags_got (OSFlagNodeWaitType (fnode s t)) (OSFlagNodeFlags (fnode s t)) new) (filter go ns) ?s s1"
    by (auto simp: c_def)
  note w = s1(5) [unfolded woke_def s0]
  note ro = w [THEN conjunct1]
  have r: "ready (fkern s1) = ready (fkern s) \<union> {p. \<exists>t \<in> set ns. go t \<and> own (fkern s) p t \<and> only_flag (tcb (fkern s) t)}"
    using w by auto
  have cu: "cur_ok (fkern s1)" using k(2) cur_ok_frame ready_only_frame [OF ro] by blast
  have "\<not> c \<Longrightarrow> ready (fkern s1) = ready (fkern s)" using r by (auto simp: c_def)
  from preempt_sched [OF s1(4) cu k(3) ro this] obtain k2 where
    k2: "(if c then OS_Sched (fkern s1) else Some (fkern s1)) = Some k2" "sched_eq (fkern s1) k2" "cur_ok k2" "preempt_ok k2"
    by blast
  let ?s2 = "s1\<lparr>fkern := k2\<rparr>"
  have new: "(\<lambda>p. p\<lparr>OSFlagFlags := (if opt = OS_FLAG_CLR then OSFlagFlags p AND NOT flags else OSFlagFlags p OR flags)\<rparr>)
      (OSFlagTbl s g) = (OSFlagTbl s g)\<lparr>OSFlagFlags := new\<rparr>"
    by (simp add: new_def posted_flags_def)
  have f1: "OSFlagFlags (OSFlagTbl s1 g) = new" using list_only_fields(1) [OF s1(3), of g] by (simp add: upd_grp_def)
  have op': "(opt \<noteq> OS_FLAG_CLR \<and> opt \<noteq> OS_FLAG_SET) = False" using op by auto
  have "OSFlagPost g flags opt s = Some (new, OS_ERR_NONE, ?s2)"
    unfolding OSFlagPost_def op' if_False
    using k2(1) f1 s1(1) l0 ty new
    by (simp add: upd_grp_def flag_list_def as_node_fhd Let_def cong: if_cong split del: if_split)
  moreover have "flag_list ?s2 g (filter (\<lambda>n. \<not> go n) ns)" using s1(2) by (simp add: flag_list_def)
  moreover have "\<forall>h. h \<noteq> g \<longrightarrow> OSFlagTbl ?s2 h = OSFlagTbl s h" "\<forall>m. node_info (fnode ?s2 m) = node_info (fnode s m)"
    using s1(3) by (auto simp: list_only_def upd_grp_def)
  moreover have "base_ok k2" "ready k2 = ready (fkern s1)" using s1(4) sched_eq_frame [OF k2(2)] by auto
  moreover have "\<forall>t. let c = tcb (fkern s) t; c' = tcb k2 t
         in if t \<in> set ns \<and> go t
            then OSTCBDly c' = 0 \<and> OSTCBStat c' = OSTCBStat c AND NOT OS_STAT_FLAG \<and> OSTCBStatPend c' = OS_STAT_PEND_OK \<and>
              OSTCBFlagsRdy s1 t = flags_got (OSFlagNodeWaitType (fnode s t)) (OSFlagNodeFlags (fnode s t)) new
            else OSTCBDly c' = OSTCBDly c \<and> OSTCBStat c' = OSTCBStat c \<and> OSTCBStatPend c' = OSTCBStatPend c \<and>
              OSTCBFlagsRdy s1 t = OSTCBFlagsRdy s t"
    using w by (simp add: sched_eq_frame [OF k2(2)] flag_woken_def Let_def)
  ultimately show ?thesis using k2(3,4) f1 r by (intro exI [of _ ?s2]) (simp add: Let_def)
qed


section \<open>Waiting\<close>

definition flag_blocked :: "u32 \<Rightarrow> OS_TCB \<Rightarrow> OS_TCB" where
  "flag_blocked timeout c = c\<lparr>OSTCBStat := OSTCBStat c OR OS_STAT_FLAG, OSTCBStatPend := OS_STAT_PEND_OK, OSTCBDly := timeout\<rparr>"

lemma flag_block_kernel:
  assumes b: "base_ok k" and o: "own k p t" and p: "p \<noteq> 63"
    and eq: "k' = make_unready t (upd_tcb t (flag_blocked timeout) k)"
  shows "ready_only k k'" "base_ok k'" "ready k' = ready k - {p}" "tcb k' t = flag_blocked timeout (tcb k t)"
proof -
  have k': "k' = k\<lparr>OSRdy := bm_del p (OSRdy k), tcb := (tcb k)(t := flag_blocked timeout (tcb k t))\<rparr>"
    by (simp add: eq kernel_defs flag_blocked_def own_bm [OF o])
  note bms = bm_move [OF baseD(1) [OF b] own_less [OF o]]
  show r: "ready k' = ready k - {p}" by (simp add: k' ready_def bms)
  show ro: "ready_only k k'"
    unfolding ready_only_def by (intro exI conjI) (rule k', simp add: same_coords_def flag_blocked_def)
  show "tcb k' t = flag_blocked timeout (tcb k t)" by (simp add: k')
  show "base_ok k'"
  proof (rule ready_only_base [OF b ro])
    show "bm_ok (OSRdy k')" using bms by (simp add: k')
    show "63 \<in> ready k'" using r p baseD(3) [OF b] by simp
    show "\<exists>u. own k q u" if "q \<in> ready k'" for q using that r baseD(4) [OF b, of q] by simp
  qed
qed

lemma OS_FlagBlock_ok:
  assumes l: "flag_list s g ns" and t: "OSTCBCur (fkern s) = TCB t" "t \<notin> set ns" and wt: "wt < 4"
  shows "\<exists>s'. OS_FlagBlock g flags wt timeout s = Some s' \<and> flag_list s' g (t # ns) \<and>
    fkern s' = make_unready t (upd_tcb t (flag_blocked timeout) (fkern s)) \<and>
    node_info (fnode s' t) = (t, g, flags, wt) \<and> (\<forall>m. m \<noteq> t \<longrightarrow> node_info (fnode s' m) = node_info (fnode s m)) \<and>
    OSFlagFlags (OSFlagTbl s' g) = OSFlagFlags (OSFlagTbl s g) \<and> OSFlagType (OSFlagTbl s' g) = OSFlagType (OSFlagTbl s g) \<and>
    (\<forall>h. h \<noteq> g \<longrightarrow> OSFlagTbl s' h = OSFlagTbl s h)"
proof -
  have k: "upd_tcb t (\<lambda>c. c\<lparr>OSTCBStat := OSTCBStat c OR OS_STAT_FLAG, OSTCBStatPend := OS_STAT_PEND_OK, OSTCBDly := timeout\<rparr>) =
      upd_tcb t (flag_blocked timeout)"
    by (simp add: flag_blocked_def [abs_def])
  show ?thesis
  proof (cases ns)
    case Nil
    then show ?thesis using l t wt
      by (simp add: OS_FlagBlock_def deref_def Let_def k upd_node_def upd_grp_def flag_list_def node_info_def)
  next
    case (Cons n ns')
    then show ?thesis using l t wt
      by (auto simp: OS_FlagBlock_def deref_def Let_def k upd_node_def upd_grp_def flag_list_def node_info_def)
  qed
qed

text \<open>The type of wait without the bit for consuming.\<close>

abbreviation wait_of :: "u8 \<Rightarrow> u8" where "wait_of w \<equiv> w AND NOT OS_FLAG_CONSUME"

lemma wait_of_plain: "w AND OS_FLAG_CONSUME = 0 \<Longrightarrow> wait_of w = w"
proof -
  assume a: "w AND OS_FLAG_CONSUME = 0"
  have "w = (w AND OS_FLAG_CONSUME) OR wait_of w" by (metis bit.conj_disj_distrib bit.conj_one_right bit.disj_cancel_right)
  then show ?thesis by (simp add: a)
qed

lemma OSFlagPend_blocks:
  assumes l: "flag_list s g ns" and ty: "OSFlagType (OSFlagTbl s g) = OS_EVENT_TYPE_FLAG"
    and k: "base_ok (fkern s)" "cur_ok (fkern s)" "OSIntNesting (fkern s) = 0" "OSLockNesting (fkern s) = 0"
    and t: "OSTCBCur (fkern s) = TCB t" "t \<notin> set ns" "unat (OSPrioCur (fkern s)) \<noteq> 63"
    and w: "wait_of wt < 4" "\<not> flag_holds (wait_of wt) flags (OSFlagFlags (OSFlagTbl s g))"
  shows "\<exists>s'. OSFlagPend g flags wt timeout s = Some (Blocked, s') \<and> flag_list s' g (t # ns) \<and>
    node_info (fnode s' t) = (t, g, flags, wait_of wt) \<and> (\<forall>m. m \<noteq> t \<longrightarrow> node_info (fnode s' m) = node_info (fnode s m)) \<and>
    OSFlagFlags (OSFlagTbl s' g) = OSFlagFlags (OSFlagTbl s g) \<and> OSFlagType (OSFlagTbl s' g) = OS_EVENT_TYPE_FLAG \<and>
    (\<forall>h. h \<noteq> g \<longrightarrow> OSFlagTbl s' h = OSFlagTbl s h) \<and>
    base_ok (fkern s') \<and> cur_ok (fkern s') \<and> preempt_ok (fkern s') \<and> own (fkern s') = own (fkern s) \<and>
    ready (fkern s') = ready (fkern s) - {unat (OSPrioCur (fkern s))} \<and>
    OSTCBStat (tcb (fkern s') t) = OSTCBStat (tcb (fkern s) t) OR OS_STAT_FLAG \<and> OSTCBDly (tcb (fkern s') t) = timeout"
proof -
  have o: "own (fkern s) (unat (OSPrioCur (fkern s))) t" using k(2) t(1) by (auto simp: cur_ok_def)
  obtain s1 where s1: "OS_FlagBlock g flags (wait_of wt) timeout s = Some s1" "flag_list s1 g (t # ns)"
    "fkern s1 = make_unready t (upd_tcb t (flag_blocked timeout) (fkern s))"
    "node_info (fnode s1 t) = (t, g, flags, wait_of wt)" "\<forall>m. m \<noteq> t \<longrightarrow> node_info (fnode s1 m) = node_info (fnode s m)"
    "OSFlagFlags (OSFlagTbl s1 g) = OSFlagFlags (OSFlagTbl s g)" "OSFlagType (OSFlagTbl s1 g) = OSFlagType (OSFlagTbl s g)"
    "\<forall>h. h \<noteq> g \<longrightarrow> OSFlagTbl s1 h = OSFlagTbl s h"
    using OS_FlagBlock_ok [OF l t(1,2) w(1), of flags timeout] by blast
  note bk = flag_block_kernel [OF k(1) o t(3) s1(3)]
  have c1: "cur_ok (fkern s1)" using k(2) cur_ok_frame ready_only_frame [OF bk(1)] by blast
  obtain k2 where k2: "OS_Sched (fkern s1) = Some k2" "sched_eq (fkern s1) k2" "cur_ok k2" "preempt_ok k2"
    using OS_Sched_ok [OF bk(2) c1] by blast
  have wt: "(if wt AND OS_FLAG_CONSUME \<noteq> 0 then wait_of wt else wt) = wait_of wt" using wait_of_plain [of wt] by simp
  have m: "flag_match (wait_of wt) flags (OSFlagFlags (OSFlagTbl s g)) =
      Some (False, flags_got (wait_of wt) flags (OSFlagFlags (OSFlagTbl s g)))"
    using flag_match_holds [OF w(1)] w(2) by simp
  have "OSFlagPend g flags wt timeout s = Some (Blocked, s1\<lparr>fkern := k2\<rparr>)"
    using k(3,4) ty s1(1) k2(1) unfolding OSFlagPend_def Let_def wt m by simp
  moreover have "flag_list (s1\<lparr>fkern := k2\<rparr>) g (t # ns)" using s1(2) by (simp add: flag_list_def)
  ultimately show ?thesis
    using s1 k2(3,4) bk ready_only_frame [OF bk(1)] sched_eq_frame [OF k2(2)] ty
    by (intro exI [of _ "s1\<lparr>fkern := k2\<rparr>"]) (simp add: flag_blocked_def)
qed

lemma OSFlagPend_leaves:
  assumes l: "flag_list s g (as @ t # bs)" and t: "OSTCBCur (fkern s) = TCB t" "OSTCBStatPend (tcb (fkern s) t) = ps"
    "ps \<noteq> OS_STAT_PEND_OK"
  shows "\<exists>s'. OSFlagPend_resumed g wt consume s =
      Some (0, if ps = OS_STAT_PEND_ABORT then OS_ERR_PEND_ABORT else OS_ERR_TIMEOUT, s') \<and>
    flag_list s' g (as @ bs) \<and> list_only g s s'"
proof -
  let ?s = "s\<lparr>fkern := upd_tcb t (\<lambda>c. c\<lparr>OSTCBStatPend := OS_STAT_PEND_OK\<rparr>) (fkern s)\<rparr>"
  have "flag_list ?s g (as @ t # bs)" using l by (simp add: flag_list_def)
  from OS_FlagUnlink_ok [OF this] obtain s1 where s1: "OS_FlagUnlink t ?s = Some s1" "flag_list s1 g (as @ bs)" "list_only g ?s s1"
    by blast
  then show ?thesis using t by (simp add: OSFlagPend_resumed_def deref_def Let_def flag_list_def list_only_def)
qed


text \<open>C40. A task that waits for flags that do not hold enters the front of the list of the group with its condition, leaves
  the ready list, and the ready task of the highest priority runs; no other node, group or flag changes. When its wait ends
  with a timeout, wherever in the list the node is by then, the resumed call takes exactly this node out, reports
  \<open>OS_ERR_TIMEOUT\<close> and returns no flags.\<close>

theorem OSFlagPend_enters_leaves:
  assumes "flag_list s g ns" "OSFlagType (OSFlagTbl s g) = OS_EVENT_TYPE_FLAG"
    "base_ok (fkern s)" "cur_ok (fkern s)" "OSIntNesting (fkern s) = 0" "OSLockNesting (fkern s) = 0"
    "OSTCBCur (fkern s) = TCB t" "t \<notin> set ns" "unat (OSPrioCur (fkern s)) \<noteq> 63"
    "wait_of wt < 4" "\<not> flag_holds (wait_of wt) flags (OSFlagFlags (OSFlagTbl s g))"
  shows "\<exists>s1. OSFlagPend g flags wt timeout s = Some (Blocked, s1) \<and> flag_list s1 g (t # ns) \<and>
    node_info (fnode s1 t) = (t, g, flags, wait_of wt) \<and> (\<forall>m. m \<noteq> t \<longrightarrow> node_info (fnode s1 m) = node_info (fnode s m)) \<and>
    OSFlagFlags (OSFlagTbl s1 g) = OSFlagFlags (OSFlagTbl s g) \<and> (\<forall>h. h \<noteq> g \<longrightarrow> OSFlagTbl s1 h = OSFlagTbl s h) \<and>
    base_ok (fkern s1) \<and> cur_ok (fkern s1) \<and> preempt_ok (fkern s1) \<and>
    ready (fkern s1) = ready (fkern s) - {unat (OSPrioCur (fkern s))} \<and>
    (\<forall>s2 as bs. flag_list s2 g (as @ t # bs) \<longrightarrow> OSTCBCur (fkern s2) = TCB t \<longrightarrow>
       OSTCBStatPend (tcb (fkern s2) t) = OS_STAT_PEND_TO \<longrightarrow>
       (\<exists>s3. OSFlagPend_resumed g (wait_of wt) consume s2 = Some (0, OS_ERR_TIMEOUT, s3) \<and> flag_list s3 g (as @ bs) \<and>
         OSFlagFlags (OSFlagTbl s3 g) = OSFlagFlags (OSFlagTbl s2 g)))"
proof -
  have "\<exists>s3. OSFlagPend_resumed g (wait_of wt) consume s2 = Some (0, OS_ERR_TIMEOUT, s3) \<and> flag_list s3 g (as @ bs) \<and>
      OSFlagFlags (OSFlagTbl s3 g) = OSFlagFlags (OSFlagTbl s2 g)"
    if "flag_list s2 g (as @ t # bs)" "OSTCBCur (fkern s2) = TCB t" "OSTCBStatPend (tcb (fkern s2) t) = OS_STAT_PEND_TO"
    for s2 as bs
    using OSFlagPend_leaves [OF that(1,2,3), of "wait_of wt" consume] list_only_fields(1) by fastforce
  then show ?thesis using OSFlagPend_blocks [OF assms, of timeout] by blast
qed

section \<open>Deleting a group that tasks wait on\<close>

text \<open>C28. What \<open>OSFlagDel\<close> with \<open>OS_DEL_ALWAYS\<close> leaves behind. A task waits alone on the group \<open>g\<close>, above all ready
  tasks, and other groups are free. The deletion takes its node out of the list, links the group to the free groups and
  switches to the task. Its \<open>OSFlagPend\<close> reports the abort and takes the node out a second time, which writes the null
  pointer over the link of \<open>g\<close> to the free groups behind it: one group can be created again, and then
  \<open>OSFlagCreate\<close> reports that none is left, though \<open>f\<close> and all behind it are free.\<close>

theorem OSFlagDel_loses_groups:
  assumes l: "flag_list s g [t]" and ty: "OSFlagType (OSFlagTbl s g) = OS_EVENT_TYPE_FLAG"
    and k: "base_ok (fkern s)" "cur_ok (fkern s)" "OSIntNesting (fkern s) = 0" "OSLockNesting (fkern s) = 0"
    and o: "own (fkern s) p t" "only_flag (tcb (fkern s) t)" "\<forall>q \<in> ready (fkern s). p < q"
    and fr: "OSFlagFreeList s = FGrp f"
  shows "\<exists>s1 s2 s3. OSFlagDel g OS_DEL_ALWAYS s = Some (None, OS_ERR_NONE, s1) \<and>
    OSFlagFreeList s1 = FGrp g \<and> OSFlagWaitList (OSFlagTbl s1 g) = FGrp f \<and> OSTCBCur (fkern s1) = TCB t \<and>
    OSFlagPend_resumed g wt consume s1 = Some (0, OS_ERR_PEND_ABORT, s2) \<and>
    OSFlagCreate fl s2 = Some (Some g, OS_ERR_NONE, s3) \<and> OSFlagCreate fl' s3 = Some (None, OS_ERR_FLAG_GRP_DEPLETED, s3)"
proof -
  have n: "OSFlagNodeNext (fnode s t) = FNull" "OSFlagNodePrev (fnode s t) = FNull" "OSFlagNodeFlagGrp (fnode s t) = g"
    "OSFlagNodeTCB (fnode s t) = t" "OSFlagWaitList (OSFlagTbl s g) = FNode t"
    using l by (simp_all add: flag_list_def)
  obtain sa where sa: "OS_FlagTaskRdy t 0 OS_STAT_PEND_ABORT s = Some (True, sa)" "list_only g s sa"
    "fkern sa = flag_wake t OS_STAT_PEND_ABORT (fkern s)" "fnode sa t = fnode s t"
    using OS_FlagTaskRdy_ok [of s g "[]" t "[]" p 0 OS_STAT_PEND_ABORT] l o by auto
  note wk = flag_wake_ok [OF k(1) o(1), of OS_STAT_PEND_ABORT, folded sa(3)]
  note fk = ready_only_frame [OF wk(1)]
  have walk: "abort_walk (Some t) s = Some sa"
    by (subst abort_walk.simps) (simp add: sa(1,4) n abort_walk.simps [of None])
  have "cur_ok (fkern sa)" using k(2) cur_ok_frame fk by blast
  from OS_Sched_ok [OF wk(2) this] obtain k2 where k2: "OS_Sched (fkern sa) = Some k2" "sched_eq (fkern sa) k2" "cur_ok k2" "preempt_ok k2"
    by blast
  note fs = sched_eq_frame [OF k2(2)]
  define s1 where "s1 = (free_group g sa)\<lparr>fkern := k2\<rparr>"
  have "Min (ready k2) = p"
    using wk(3) o(2,3) by (intro Min_eqI) (auto simp: fs ready_def bm.finite_elems less_imp_le)
  then have "unat (OSPrioCur k2) = p" using k2(4) k(3,4) by (simp add: preempt_ok_def highest_runs_def fs fk)
  then have cur: "OSTCBCur k2 = TCB t" using k2(3) o(1) own_inj(1) by (fastforce simp: cur_ok_def fs fk)
  have del: "OSFlagDel g OS_DEL_ALWAYS s = Some (None, OS_ERR_NONE, s1)"
    using k(3) ty walk k2(1) by (simp add: OSFlagDel_def OS_DEL_NO_PEND_def OS_DEL_ALWAYS_def n(5) Let_def s1_def free_group_def upd_grp_def)
  have fa: "OSFlagFreeList sa = FGrp f" using sa(2) fr by (simp add: list_only_def)
  have f1: "OSFlagFreeList s1 = FGrp g" "OSFlagWaitList (OSFlagTbl s1 g) = FGrp f" "fkern s1 = k2" "fnode s1 t = fnode s t"
    using fa sa(4) by (simp_all add: s1_def free_group_def upd_grp_def)
  have "OSTCBStatPend (tcb k2 t) = OS_STAT_PEND_ABORT" using wk(4) by (simp add: fs flag_woken_def)
  then obtain s2 where s2: "OSFlagPend_resumed g wt consume s1 = Some (0, OS_ERR_PEND_ABORT, s2)"
    "OSFlagFreeList s2 = FGrp g" "OSFlagWaitList (OSFlagTbl s2 g) = FNull" "OSIntNesting (fkern s2) = 0"
    using k(3) cur f1 n
    by (simp add: OSFlagPend_resumed_def deref_def Let_def OS_FlagUnlink_def upd_grp_def upd_tcb_def fs fk)
  then obtain s3 where "OSFlagCreate fl s2 = Some (Some g, OS_ERR_NONE, s3)" "OSFlagFreeList s3 = FNull" "OSIntNesting (fkern s3) = 0"
    by (simp add: OSFlagCreate_def Let_def upd_grp_def)
  moreover from this have "OSFlagCreate fl' s3 = Some (None, OS_ERR_FLAG_GRP_DEPLETED, s3)" by (simp add: OSFlagCreate_def)
  ultimately show ?thesis using del f1 cur s2(1) by (intro exI [of _ s1] exI [of _ s2] exI [of _ s3]) simp
qed


section \<open>The flags of a booted system\<close>

text \<open>After the boot the statistics task creates a group and waits for its first flag.\<close>

definition flag_boot :: flags where
  "flag_boot = OS_FlagInit \<lparr>fkern = boot_state, OSFlagTbl = (\<lambda>g. \<lparr>OSFlagType = OS_EVENT_TYPE_UNUSED,
     OSFlagWaitList = FNull, OSFlagFlags = 0, OSFlagName = ''?''\<rparr>), OSFlagFreeList = FNull,
     fnode = (\<lambda>n. \<lparr>OSFlagNodeNext = FNull, OSFlagNodePrev = FNull, OSFlagNodeTCB = 0, OSFlagNodeFlagGrp = 0,
       OSFlagNodeFlags = 0, OSFlagNodeWaitType = 0\<rparr>), OSTCBFlagsRdy = (\<lambda>t. 0), OSTCBFlagNode = (\<lambda>t. FNull)\<rparr>"

definition flag_created :: flags where
  "flag_created = snd (snd (the (OSFlagCreate 0 flag_boot)))"

definition flag_waiting :: flags where
  "flag_waiting = snd (the (OSFlagPend 0 1 OS_FLAG_WAIT_SET_ALL 0 flag_created))"

lemma boot_kernel: "base_ok boot_state" "cur_ok boot_state" "preempt_ok boot_state"
  using reachableD [OF boot_reachable] by (auto simp: kgood_def kinv_def)

lemma boot_tasks:
  "OSTCBCur boot_state = TCB 1" "OSPrioCur boot_state = 62" "OSIntNesting boot_state = 0" "OSLockNesting boot_state = 0"
  "OSTCBStat (tcb boot_state 1) = 0" "own boot_state 62 1"
  by code_simp+

lemma boot_ready: "ready boot_state = {62, 63}"
proof -
  obtain k1 where "OSInit 0 0 reset_state = Some k1" "static_ok k1" "\<not> OSRunning k1" "ready k1 = {62, 63}"
    using OSInit_static [of 0 0 reset_state] by blast
  then show ?thesis using OSStart_world [of k1] by (simp add: boot_state_def)
qed

lemma created_facts:
  "fkern flag_created = boot_state" "flag_list flag_created 0 []" "OSFlagType (OSFlagTbl flag_created 0) = OS_EVENT_TYPE_FLAG"
  "OSFlagFlags (OSFlagTbl flag_created 0) = 0" "OSFlagFreeList flag_created = FGrp 1"
  by (simp_all add: flag_created_def flag_boot_def OS_FlagInit_def OSFlagCreate_def boot_tasks Let_def upd_grp_def flag_list_def)


lemma waiting_facts:
  "flag_list flag_waiting 0 [1]" "OSFlagType (OSFlagTbl flag_waiting 0) = OS_EVENT_TYPE_FLAG"
  "base_ok (fkern flag_waiting)" "cur_ok (fkern flag_waiting)" "preempt_ok (fkern flag_waiting)"
  "own (fkern flag_waiting) 62 1" "ready (fkern flag_waiting) = {63}" "only_flag (tcb (fkern flag_waiting) 1)"
  "OSFlagNodeFlags (fnode flag_waiting 1) = 1" "OSFlagNodeWaitType (fnode flag_waiting 1) = OS_FLAG_WAIT_SET_ALL"
  "OSFlagFlags (OSFlagTbl flag_waiting 0) = 0"
proof -
  have "\<not> flag_holds (wait_of OS_FLAG_WAIT_SET_ALL) 1 0" by (simp add: flag_holds_def bit_1_iff)
  from OSFlagPend_blocks [OF created_facts(2,3), unfolded created_facts(1,4), OF boot_kernel(1,2) boot_tasks(3,4,1) _ _ _ this, of 0]
  obtain s' where "OSFlagPend 0 1 OS_FLAG_WAIT_SET_ALL 0 flag_created = Some (Blocked, s')" "flag_list s' 0 [1]"
    "node_info (fnode s' 1) = (1, 0, 1, 2)" "OSFlagFlags (OSFlagTbl s' 0) = 0" "OSFlagType (OSFlagTbl s' 0) = OS_EVENT_TYPE_FLAG"
    "base_ok (fkern s')" "cur_ok (fkern s')" "preempt_ok (fkern s')" "own (fkern s') 62 1"
    "ready (fkern s') = {62, 63} - {62}" "OSTCBStat (tcb (fkern s') 1) = OS_STAT_FLAG"
    by (auto simp: boot_tasks boot_ready simp del: One_nat_def)
  then show "flag_list flag_waiting 0 [1]" "OSFlagType (OSFlagTbl flag_waiting 0) = OS_EVENT_TYPE_FLAG"
    "base_ok (fkern flag_waiting)" "cur_ok (fkern flag_waiting)" "preempt_ok (fkern flag_waiting)"
    "own (fkern flag_waiting) 62 1" "ready (fkern flag_waiting) = {63}" "only_flag (tcb (fkern flag_waiting) 1)"
    "OSFlagNodeFlags (fnode flag_waiting 1) = 1" "OSFlagNodeWaitType (fnode flag_waiting 1) = OS_FLAG_WAIT_SET_ALL"
    "OSFlagFlags (OSFlagTbl flag_waiting 0) = 0"
    by (simp_all add: flag_waiting_def only_flag_def node_info_def del: One_nat_def)
qed

lemma waiting_more:
  "OSIntNesting (fkern flag_waiting) = 0" "OSLockNesting (fkern flag_waiting) = 0" "OSFlagFreeList flag_waiting = FGrp 1"
  by code_simp+

theorem OSFlagPost_wakes_witness:
  "\<exists>s'. OSFlagPost 0 1 OS_FLAG_SET flag_waiting = Some (1, OS_ERR_NONE, s') \<and> flag_list s' 0 [] \<and> ready (fkern s') = {62, 63}"
proof -
  have "\<forall>n \<in> set [1]. \<exists>p. own (fkern flag_waiting) p n" using waiting_facts(6) by auto
  note wakes = OSFlagPost_wakes [OF waiting_facts(1,2) _ waiting_facts(3,4,5) this, of OS_FLAG_SET 1]
  have n: "posted_flags 0 1 OS_FLAG_SET = 1" by (simp add: posted_flags_def)
  have h: "flag_holds OS_FLAG_WAIT_SET_ALL 1 1" by (simp add: flag_holds_def)
  have "{63} \<union> {p. own (fkern flag_waiting) p 1} = {62, 63}" using waiting_facts(6) own_inj(2) by blast
  then show ?thesis using wakes by (auto simp: n waiting_facts h simp del: One_nat_def)
qed

theorem OSFlagPend_enters_leaves_witness:
  "\<exists>s1. OSFlagPend 0 1 OS_FLAG_WAIT_SET_ALL 0 flag_created = Some (Blocked, s1) \<and> flag_list s1 0 [1] \<and>
    ready (fkern s1) = {63}"
proof -
  have "\<not> flag_holds (wait_of OS_FLAG_WAIT_SET_ALL) 1 0" by (simp add: flag_holds_def bit_1_iff)
  from OSFlagPend_enters_leaves [OF created_facts(2,3), unfolded created_facts(1,4), OF boot_kernel(1,2) boot_tasks(3,4,1) _ _ _ this,
      of 0 True]
  show ?thesis by (auto simp: boot_tasks boot_ready simp del: One_nat_def)
qed

theorem OSFlagDel_loses_groups_witness:
  "\<exists>s1 s2 s3. OSFlagDel 0 OS_DEL_ALWAYS flag_waiting = Some (None, OS_ERR_NONE, s1) \<and>
    OSFlagPend_resumed 0 OS_FLAG_WAIT_SET_ALL False s1 = Some (0, OS_ERR_PEND_ABORT, s2) \<and>
    OSFlagCreate 0 s2 = Some (Some 0, OS_ERR_NONE, s3) \<and> OSFlagCreate 0 s3 = Some (None, OS_ERR_FLAG_GRP_DEPLETED, s3)"
  using OSFlagDel_loses_groups [OF waiting_facts(1-4) waiting_more(1,2) waiting_facts(6,8) _ waiting_more(3),
      of OS_FLAG_WAIT_SET_ALL False 0 0]
  by (auto simp: waiting_facts simp del: One_nat_def)

end
