(* ===== verification/Kernel_Task.thy ===== *)
theory Kernel_Task
  imports Kernel_Flag
begin

text \<open>
  The rest of \<open>src/ucosii/src/os_task.c\<close>: change of priority, deletion, the check of stacks, queries and task
  registers. Deleting a task unlinks it from a group of event flags, so it works on the state of \<open>Kernel_Flag\<close>.
\<close>

section \<open>Change of priority\<close>

text \<open>The task a priority names, with \<open>OS_PRIO_SELF\<close> for the calling one.\<close>

definition prio_of :: "u8 \<Rightarrow> kernel \<Rightarrow> u8 option" where
  "prio_of prio k = (if prio = OS_PRIO_SELF then map_option (\<lambda>c. OSTCBPrio (tcb k c)) (deref (OSTCBCur k)) else Some prio)"

definition move_prio :: "nat \<Rightarrow> u8 \<Rightarrow> u8 \<Rightarrow> kernel \<Rightarrow> kernel" where
  "move_prio t oldprio newprio k =
     (let y_new = prio_y newprio; x_new = prio_x newprio; bity_new = prio_bit y_new; bitx_new = prio_bit x_new;
          k = k\<lparr>OSTCBPrioTbl := (OSTCBPrioTbl k)(unat oldprio := TNull)\<rparr>;
          k = k\<lparr>OSTCBPrioTbl := (OSTCBPrioTbl k)(unat newprio := TCB t)\<rparr>;
          y_old = OSTCBY (tcb k t); bity_old = OSTCBBitY (tcb k t); bitx_old = OSTCBBitX (tcb k t);
          k = (if Tbl (OSRdy k) (unat y_old) AND bitx_old \<noteq> 0
               then k\<lparr>OSRdy := bm_set (bm_clr (OSRdy k) y_old bitx_old bity_old) y_new bitx_new bity_new\<rparr> else k);
          k = (case OSTCBEventPtr (tcb k t) of
                 None \<Rightarrow> k
               | Some e \<Rightarrow> upd_evt e (\<lambda>v. v\<lparr>OSEventWait :=
                   bm_set (bm_clr (OSEventWait v) y_old bitx_old bity_old) y_new bitx_new bity_new\<rparr>) k)
      in upd_tcb t (\<lambda>c. c\<lparr>OSTCBPrio := newprio, OSTCBY := y_new, OSTCBX := x_new,
           OSTCBBitY := bity_new, OSTCBBitX := bitx_new\<rparr>) k)"

definition OSTaskChangePrio :: "u8 \<Rightarrow> u8 \<Rightarrow> kernel \<Rightarrow> (os_err \<times> kernel) option" where
  "OSTaskChangePrio oldprio newprio k =
     (if OSTCBPrioTbl k (unat newprio) \<noteq> TNull then Some (OS_ERR_PRIO_EXIST, k)
      else do {
        oldprio \<leftarrow> prio_of oldprio k;
        case OSTCBPrioTbl k (unat oldprio) of
          TNull \<Rightarrow> Some (OS_ERR_PRIO, k)
        | TReserved \<Rightarrow> Some (OS_ERR_TASK_NOT_EXIST, k)
        | TCB t \<Rightarrow> do {
            let k = move_prio t oldprio newprio k;
            k \<leftarrow> (if OSRunning k then OS_Sched k else Some k);
            Some (OS_ERR_NONE, k)
          }
      })"

section \<open>Deletion\<close>

text \<open>The task leaves the list of all tasks, which is linked both ways, and joins the free list.\<close>

definition unlink_tcb :: "nat \<Rightarrow> kernel \<Rightarrow> kernel option" where
  "unlink_tcb t k = do {
     k \<leftarrow> (case OSTCBPrev (tcb k t) of
        TNull \<Rightarrow> do {
          n \<leftarrow> deref (OSTCBNext (tcb k t));
          let k = upd_tcb n (\<lambda>c. c\<lparr>OSTCBPrev := TNull\<rparr>) k;
          Some (k\<lparr>OSTCBList := OSTCBNext (tcb k t)\<rparr>)
        }
      | _ \<Rightarrow> do {
          p \<leftarrow> deref (OSTCBPrev (tcb k t));
          let k = upd_tcb p (\<lambda>c. c\<lparr>OSTCBNext := OSTCBNext (tcb k t)\<rparr>) k;
          n \<leftarrow> deref (OSTCBNext (tcb k t));
          Some (upd_tcb n (\<lambda>c. c\<lparr>OSTCBPrev := OSTCBPrev (tcb k t)\<rparr>) k)
        });
     let k = upd_tcb t (\<lambda>c. c\<lparr>OSTCBNext := OSTCBFreeList k\<rparr>) k;
     let k = k\<lparr>OSTCBFreeList := TCB t\<rparr>;
     Some (upd_tcb t (\<lambda>c. c\<lparr>OSTCBTaskName := ''?''\<rparr>) k)
   }"

text \<open>The task stops waiting and running; the scheduler is locked for the instruction in which interrupts are on.\<close>

definition forget_task :: "nat \<Rightarrow> u8 \<Rightarrow> flags \<Rightarrow> flags option" where
  "forget_task t prio s = do {
     let k = make_unready t (fkern s);
     let k = (case OSTCBEventPtr (tcb k t) of None \<Rightarrow> k | Some e \<Rightarrow> OS_EventTaskRemove t e k);
     pnode \<leftarrow> as_node (OSTCBFlagNode s t);
     s \<leftarrow> (case pnode of None \<Rightarrow> Some (s\<lparr>fkern := k\<rparr>) | Some n \<Rightarrow> OS_FlagUnlink n (s\<lparr>fkern := k\<rparr>));
     let k = upd_tcb t (\<lambda>c. c\<lparr>OSTCBDly := 0, OSTCBStat := OS_STAT_RDY, OSTCBStatPend := OS_STAT_PEND_OK\<rparr>) (fkern s);
     let k = (if OSLockNesting k < 255 then k\<lparr>OSLockNesting := OSLockNesting k + 1\<rparr> else k);
     let k = (if OSLockNesting k > 0 then k\<lparr>OSLockNesting := OSLockNesting k - 1\<rparr> else k);
     let k = k\<lparr>OSTaskCtr := OSTaskCtr k - 1\<rparr>;
     Some (s\<lparr>fkern := k\<lparr>OSTCBPrioTbl := (OSTCBPrioTbl k)(unat prio := TNull)\<rparr>\<rparr>)
   }"

definition OSTaskDel :: "u8 \<Rightarrow> flags \<Rightarrow> (os_err \<times> flags) option" where
  "OSTaskDel prio s =
     (if OSIntNesting (fkern s) > 0 then Some (OS_ERR_TASK_DEL_ISR, s)
      else if prio = OS_TASK_IDLE_PRIO then Some (OS_ERR_TASK_DEL_IDLE, s)
      else do {
        prio \<leftarrow> prio_of prio (fkern s);
        case OSTCBPrioTbl (fkern s) (unat prio) of
          TNull \<Rightarrow> Some (OS_ERR_TASK_NOT_EXIST, s)
        | TReserved \<Rightarrow> Some (OS_ERR_TASK_DEL, s)
        | TCB t \<Rightarrow> do {
            s \<leftarrow> forget_task t prio s;
            k \<leftarrow> unlink_tcb t (fkern s);
            k \<leftarrow> (if OSRunning k then OS_Sched k else Some k);
            Some (OS_ERR_NONE, s\<lparr>fkern := k\<rparr>)
          }
      })"

definition OS_TaskReturn :: "flags \<Rightarrow> flags option" where
  "OS_TaskReturn s = map_option snd (OSTaskDel OS_PRIO_SELF s)"

definition OSTaskDelReq :: "u8 \<Rightarrow> kernel \<Rightarrow> (os_err \<times> kernel) option" where
  "OSTaskDelReq prio k =
     (if prio = OS_TASK_IDLE_PRIO then Some (OS_ERR_TASK_DEL_IDLE, k)
      else if prio = OS_PRIO_SELF then do {
        c \<leftarrow> deref (OSTCBCur k);
        Some (OSTCBDelReq (tcb k c), k)
      } else case OSTCBPrioTbl k (unat prio) of
          TNull \<Rightarrow> Some (OS_ERR_TASK_NOT_EXIST, k)
        | TReserved \<Rightarrow> Some (OS_ERR_TASK_DEL, k)
        | TCB t \<Rightarrow> Some (OS_ERR_NONE, upd_tcb t (\<lambda>c. c\<lparr>OSTCBDelReq := OS_ERR_TASK_DEL_REQ\<rparr>) k))"

section \<open>Queries, registers, stacks\<close>

definition OSTaskQuery :: "u8 \<Rightarrow> kernel \<Rightarrow> (os_err \<times> OS_TCB option) option" where
  "OSTaskQuery prio k = do {
     prio \<leftarrow> prio_of prio k;
     case OSTCBPrioTbl k (unat prio) of
       TNull \<Rightarrow> Some (OS_ERR_PRIO, None)
     | TReserved \<Rightarrow> Some (OS_ERR_TASK_NOT_EXIST, None)
     | TCB t \<Rightarrow> Some (OS_ERR_NONE, Some (tcb k t))
   }"

definition OSTaskNameGet :: "u8 \<Rightarrow> kernel \<Rightarrow> (u8 \<times> string option \<times> os_err) option" where
  "OSTaskNameGet prio k =
     (if OSIntNesting k > 0 then Some (0, None, OS_ERR_NAME_GET_ISR)
      else do {
        prio \<leftarrow> prio_of prio k;
        case OSTCBPrioTbl k (unat prio) of
          TNull \<Rightarrow> Some (0, None, OS_ERR_TASK_NOT_EXIST)
        | TReserved \<Rightarrow> Some (0, None, OS_ERR_TASK_NOT_EXIST)
        | TCB t \<Rightarrow> Some (OS_StrLen (OSTCBTaskName (tcb k t)), Some (OSTCBTaskName (tcb k t)), OS_ERR_NONE)
      })"

text \<open>There is one register per task; the identifier 0 is the only one inside the table.\<close>

abbreviation OS_TASK_REG_TBL_SIZE :: u8 where "OS_TASK_REG_TBL_SIZE \<equiv> 1"

definition reg_task :: "u8 \<Rightarrow> kernel \<Rightarrow> nat option" where
  "reg_task prio k = deref (if prio = OS_PRIO_SELF then OSTCBCur k else OSTCBPrioTbl k (unat prio))"

definition OSTaskRegGet :: "u8 \<Rightarrow> u8 \<Rightarrow> kernel \<Rightarrow> (u32 \<times> os_err) option" where
  "OSTaskRegGet prio n k = do {
     t \<leftarrow> reg_task prio k;
     if n < OS_TASK_REG_TBL_SIZE then Some (OSTCBReg (tcb k t), OS_ERR_NONE) else None
   }"

definition OSTaskRegSet :: "u8 \<Rightarrow> u8 \<Rightarrow> u32 \<Rightarrow> kernel \<Rightarrow> (os_err \<times> kernel) option" where
  "OSTaskRegSet prio n val k = do {
     t \<leftarrow> reg_task prio k;
     if n < OS_TASK_REG_TBL_SIZE then Some (OS_ERR_NONE, upd_tcb t (\<lambda>c. c\<lparr>OSTCBReg := val\<rparr>) k) else None
   }"

definition OSTaskRegGetID :: "kernel \<Rightarrow> u8 \<times> os_err \<times> kernel" where
  "OSTaskRegGetID k =
     (if OSTaskRegNextAvailID k \<ge> OS_TASK_REG_TBL_SIZE then (OS_TASK_REG_TBL_SIZE, OS_ERR_NO_MORE_ID_AVAIL, k)
      else (OSTaskRegNextAvailID k, OS_ERR_NONE, k\<lparr>OSTaskRegNextAvailID := OSTaskRegNextAvailID k + 1\<rparr>))"

text \<open>The words of the stacks are a function of their address. The walk has no other end than a word that is not 0.\<close>

abbreviation OS_TASK_OPT_STK_CHK :: u16 where "OS_TASK_OPT_STK_CHK \<equiv> 1"
abbreviation OS_TASK_OPT_STK_CLR :: u16 where "OS_TASK_OPT_STK_CLR \<equiv> 2"

partial_function (option) zero_words :: "(addr \<Rightarrow> u32) \<Rightarrow> addr \<Rightarrow> u32 \<Rightarrow> u32 option" where
  "zero_words mem pchk nfree = (if mem pchk = 0 then zero_words mem (pchk + 4) (nfree + 1) else Some nfree)"

definition OSTaskStkChk :: "u8 \<Rightarrow> (addr \<Rightarrow> u32) \<Rightarrow> kernel \<Rightarrow> (os_err \<times> u32 \<times> u32) option" where
  "OSTaskStkChk prio mem k = do {
     prio \<leftarrow> prio_of prio k;
     case OSTCBPrioTbl k (unat prio) of
       TNull \<Rightarrow> Some (OS_ERR_TASK_NOT_EXIST, 0, 0)
     | TReserved \<Rightarrow> Some (OS_ERR_TASK_NOT_EXIST, 0, 0)
     | TCB t \<Rightarrow>
         if OSTCBOpt (tcb k t) AND OS_TASK_OPT_STK_CHK = 0 then Some (OS_ERR_TASK_OPT, 0, 0)
         else do {
           nfree \<leftarrow> zero_words mem (OSTCBStkBottom (tcb k t)) 0;
           Some (OS_ERR_NONE, nfree, OSTCBStkSize (tcb k t) - nfree)
         }
   }"

primrec clear_words :: "nat \<Rightarrow> addr \<Rightarrow> (addr \<Rightarrow> u32) \<Rightarrow> (addr \<Rightarrow> u32)" where
  "clear_words 0 pbos mem = mem"
| "clear_words (Suc n) pbos mem = clear_words n (pbos + 4) (mem(pbos := 0))"

definition OS_TaskStkClr :: "addr \<Rightarrow> u32 \<Rightarrow> u16 \<Rightarrow> (addr \<Rightarrow> u32) \<Rightarrow> (addr \<Rightarrow> u32)" where
  "OS_TaskStkClr pbos sz opt mem =
     (if opt AND OS_TASK_OPT_STK_CHK \<noteq> 0 then if opt AND OS_TASK_OPT_STK_CLR \<noteq> 0 then clear_words (unat sz) pbos mem else mem
      else mem)"

end
