(* ===== verification/Kernel_Task_Thms.thy ===== *)
theory Kernel_Task_Thms
  imports Kernel_Task Kernel_Flag_Thms Kernel_Mutex_Thms
begin

text \<open>
  The correctness of changing the priority of a task and of deleting one: the invariants of the kernel hold
  again afterwards, with the task moved or gone everywhere; and what change of priority does to a task that
  has been woken and has not run yet.
\<close>

section \<open>Scheduling when the current task is no longer ready\<close>

text \<open>The scheduler asks only that the ready list is in order and names tasks.\<close>

lemma sched_can:
  assumes b: "bm_ok (OSRdy k)" "ready k \<noteq> {}" and tk: "\<forall>p \<in> ready k. \<exists>t. OSTCBPrioTbl k p = TCB t"
  shows "\<exists>k'. OS_Sched k = Some k' \<and> sched_eq k k'"
proof (cases "OSIntNesting k = 0 \<and> OSLockNesting k = 0")
  case True
  define ph where "ph = bm_high (OSRdy k)"
  have "unat ph \<in> ready k" using bm.high_in [OF b(1)] b(2) by (simp add: ready_def ph_def)
  then obtain t where pt: "OSTCBPrioTbl k (unat ph) = TCB t" using tk by blast
  show ?thesis
  proof (cases "ph = OSPrioCur k")
    case eq: True
    let ?k = "k\<lparr>OSPrioHighRdy := ph, OSTCBHighRdy := TCB t\<rparr>"
    have "OS_Sched k = Some ?k"
      using True eq pt by (simp add: OS_Sched_def switch_to_high_def OS_SchedNew_def Let_def flip: ph_def)
    moreover have "sched_eq k ?k"
    proof (rule sched_eqI)
      show "?k = k\<lparr>OSPrioHighRdy := ph, OSPrioCur := OSPrioCur k, OSTCBCur := OSTCBCur k, OSTCBHighRdy := TCB t,
        OSCtxSwCtr := OSCtxSwCtr k, tcb := (\<lambda>u. (tcb k u)\<lparr>OSTCBCtxSwCtr := OSTCBCtxSwCtr (tcb k u)\<rparr>)\<rparr>" by simp
    qed
    ultimately show ?thesis by blast
  next
    case ne: False
    let ?k = "k\<lparr>OSPrioHighRdy := ph, OSPrioCur := ph, OSTCBCur := TCB t, OSTCBHighRdy := TCB t,
      OSCtxSwCtr := OSCtxSwCtr k + 1,
      tcb := (\<lambda>u. (tcb k u)\<lparr>OSTCBCtxSwCtr := OSTCBCtxSwCtr (tcb k u) + (if u = t then 1 else 0)\<rparr>)\<rparr>"
    have "(tcb k)(t := (tcb k t)\<lparr>OSTCBCtxSwCtr := OSTCBCtxSwCtr (tcb k t) + 1\<rparr>) =
        (\<lambda>u. (tcb k u)\<lparr>OSTCBCtxSwCtr := OSTCBCtxSwCtr (tcb k u) + (if u = t then 1 else 0)\<rparr>)"
      by (rule ext) simp
    then have "OS_Sched k = Some ?k"
      using True ne pt by (simp add: OS_Sched_def switch_to_high_def OS_SchedNew_def Let_def deref_def upd_tcb_def
          OS_TASK_SW_def flip: ph_def)
    moreover have "sched_eq k ?k" by (rule sched_eqI) (rule refl)
    ultimately show ?thesis by blast
  qed
qed (use sched_eq_refl in \<open>auto simp: OS_Sched_def\<close>)

lemma base_names: "base_ok k \<Longrightarrow> p \<in> ready k \<Longrightarrow> \<exists>t. OSTCBPrioTbl k p = TCB t"
  using baseD(4) [of k p] by (auto simp: own_def)

text \<open>If the current task is gone from the ready list, the switch goes to another one.\<close>

lemma sched_gone:
  assumes b: "base_ok k" and n: "OSIntNesting k = 0" "OSLockNesting k = 0" and g: "unat (OSPrioCur k) \<notin> ready k"
  shows "\<exists>k'. OS_Sched k = Some k' \<and> sched_eq k k' \<and> cur_ok k' \<and> preempt_ok k'"
proof -
  obtain k' where k': "OS_Sched k = Some k'" "sched_eq k k'" using sched_can [OF baseD(1) [OF b]] base_names [OF b] baseD(3) [OF b] by blast
  obtain t where t: "own k (Min (ready k)) t" using base_high(2) [OF b] by blast
  have ph: "unat (bm_high (OSRdy k)) = Min (ready k)" by (rule base_high(1) [OF b])
  then have "bm_high (OSRdy k) \<noteq> OSPrioCur k" using g base_high(3) [OF b] by metis
  moreover have "OSTCBPrioTbl k (unat (bm_high (OSRdy k))) = TCB t" using t ph by (simp add: own_def)
  ultimately have "OSTCBCur k' = TCB t" "unat (OSPrioCur k') = Min (ready k)"
    using k'(1) n ph by (auto simp: OS_Sched_def switch_to_high_def OS_SchedNew_def Let_def deref_def upd_tcb_def OS_TASK_SW_def)
  then show ?thesis
    using t k' by (simp add: cur_ok_def preempt_ok_def highest_runs_def sched_eq_frame [OF k'(2)])
qed

section \<open>Change of priority\<close>

text \<open>A task that points to an event is in its wait list.\<close>

definition really_waits :: "kernel \<Rightarrow> nat \<Rightarrow> nat \<Rightarrow> bool" where
  "really_waits k p t \<longleftrightarrow> (\<forall>e. OSTCBEventPtr (tcb k t) = Some e \<longrightarrow> e < OS_MAX_EVENTS \<and> p \<in> waiting k e)"

lemma move_prio_eq:
  assumes o: "own k p t" and new: "newprio < 64" "unat oldprio = p"
  shows "move_prio t oldprio newprio k = k\<lparr>OSTCBPrioTbl := (OSTCBPrioTbl k)(p := TNull, unat newprio := TCB t),
     tcb := (tcb k)(t := with_prio newprio (tcb k t)),
     OSRdy := (if p \<in> ready k then bm_ins (unat newprio) (bm_del p (OSRdy k)) else OSRdy k),
     evt := (case OSTCBEventPtr (tcb k t) of None \<Rightarrow> evt k
       | Some e \<Rightarrow> (evt k)(e := (evt k e)\<lparr>OSEventWait := bm_ins (unat newprio) (bm_del p (OSEventWait (evt k e)))\<rparr>))\<rparr>"
proof -
  have rd: "Tbl (OSRdy k) (unat (OSTCBY (tcb k t))) AND OSTCBBitX (tcb k t) \<noteq> 0 \<longleftrightarrow> p \<in> ready k"
    using rdy_bit [OF o] by (simp add: ready_def)
  have set: "bm_set b (prio_y newprio) (prio_bit (prio_x newprio)) (prio_bit (prio_y newprio)) = bm_ins (unat newprio) b" for b
    using with_prio_bm [OF new(1), of b "tcb k t"] by (simp add: with_prio_def)
  show ?thesis
    unfolding move_prio_def Let_def
    by (intro kernel.equality)
      (auto simp: rd [simplified] set own_bm(2) [OF o] new(2) upd_tcb_def upd_evt_def with_prio_def split: option.splits)
qed


lemma bm_shift:
  assumes "bm_ok b" "p < 64" "q < 64"
  shows "bm_ok (bm_ins q (bm_del p b))" "bm_elems (bm_ins q (bm_del p b)) = insert q (bm_elems b - {p})"
  using bm_move [OF assms(1,2)] bm_move [OF _ assms(3), of "bm_del p b"] by simp_all

lemma drop_entry:
  assumes b: "base_ok k" and s: "stat_ok k" and q: "\<forall>u. \<not> own k p u"
    and k1: "k1 = k\<lparr>OSTCBPrioTbl := (OSTCBPrioTbl k)(p := TNull)\<rparr>"
  shows "base_ok k1 \<and> stat_ok k1 \<and> own k1 = own k \<and> ready k1 = ready k \<and> waiting k1 = waiting k"
proof -
  have o: "own k1 = own k" using q by (auto simp: own_def k1 fun_eq_iff)
  have r: "ready k1 = ready k" and w: "waiting k1 = waiting k" by (simp_all add: ready_def waiting_def k1 fun_eq_iff)
  have "OSTCBPrioTbl k x = TCB t" if "OSTCBPrioTbl k1 x = TCB t" for x t using that by (auto simp: k1 split: if_splits)
  then have "base_ok k1" using b by (auto simp: base_ok_def o r w) (auto simp: k1)
  moreover have "task_ok k1 x t = task_ok k x t" for x t by (rule task_ok_frame) (simp_all add: r w, simp_all add: k1)
  then have "stat_ok k1" using s by (simp add: stat_ok_def o)
  ultimately show ?thesis using o r w by blast
qed



text \<open>The wake-up of the only task in a wait list, whatever else the task control block says.\<close>

lemma rdy_single:
  assumes b: "bm_ok (OSEventWait (evt k e))" "bm_elems (OSEventWait (evt k e)) = {q}" and o: "own k q t"
    and r: "bm_ok (OSRdy k)"
  shows "\<exists>k'. OS_EventTaskRdy e pmsg stat ps k = Some (of_nat q, k') \<and> bm_ok (OSRdy k') \<and>
    ready k \<subseteq> ready k' \<and> ready k' \<subseteq> insert q (ready k) \<and> OSTCBPrioTbl k' = OSTCBPrioTbl k \<and>
    OSEventCnt (evt k' e) = OSEventCnt (evt k e)"
proof -
  define b where "b = OSEventWait (evt k e)"
  have bok: "bm_ok b" "bm_elems b \<noteq> {}" using b by (auto simp: b_def)
  have h: "unat (bm_high b) = q" using bm_high_least [OF bok] b(2) by (simp add: b_def)
  have row: "of_nat (bm_row b) = OSTCBY (tcb k t)"
    using bm_high_row [OF bok] h o coords_of(1) [of "tcb k t"] by (simp add: own_def)
  have q8: "bm_high b = of_nat q" unfolding h [symmetric] by simp
  have pt: "OSTCBPrioTbl k q = TCB t" using o by (simp add: own_def)
  have hq: "unat (of_nat q :: u8) = q" using own_less [OF o] by (simp add: unat_of_nat)
  let ?c = "(tcb k t)\<lparr>OSTCBDly := 0, OSTCBMsg := pmsg, OSTCBStat := OSTCBStat (tcb k t) AND NOT stat, OSTCBStatPend := ps\<rparr>"
  let ?k = "k\<lparr>tcb := (tcb k)(t := ?c), evt := (evt k)(e := (evt k e)\<lparr>OSEventWait := bm_del q b\<rparr>),
    OSRdy := (if (OSTCBStat (tcb k t) AND NOT stat) AND OS_STAT_SUSPEND = 0 then bm_ins q (OSRdy k) else OSRdy k)\<rparr>"
  have "OS_EventTaskRdy e pmsg stat ps k = Some (of_nat q, ?k)"
    using own_bm [OF o] by (simp add: OS_EventTaskRdy_def deref_def pt hq kernel_defs Let_def q8 row flip: b_def)
  then show ?thesis
    using bm_move [OF r own_less [OF o]] r by (intro exI [of _ ?k]) (auto simp: ready_def)
qed

text \<open>C26. A post that is lost. A task was woken by a post on a semaphore and has not run yet: it is ready, in no wait list, but
  still points to the semaphore, on which nobody waits. A post now would count. If the priority of the task is changed first,
  \<open>OSTaskChangePrio\<close> enters the ready task into the wait list of the semaphore, and the next post is spent on waking it once
  more: it reports success and the count stays as it is.\<close>

theorem OSTaskChangePrio_loses_post:
  assumes b: "base_ok k" and o: "own k p t" "p \<noteq> 63" "p \<in> ready k"
    and e: "OSTCBEventPtr (tcb k t) = Some e" "e < OS_MAX_EVENTS" "OSEventType (evt k e) = OS_EVENT_TYPE_SEM"
    and w: "waiting k e = {}" "OSEventCnt (evt k e) < 65535"
    and new: "newprio < 63" "OSTCBPrioTbl k (unat newprio) = TNull" and old: "unat oldprio = p"
  shows "\<exists>k0 k1 k2. OSSemPost e k = Some (OS_ERR_NONE, k0) \<and> OSEventCnt (evt k0 e) = OSEventCnt (evt k e) + 1 \<and>
    OSTaskChangePrio oldprio newprio k = Some (OS_ERR_NONE, k1) \<and>
    unat newprio \<in> ready k1 \<and> waiting k1 e = {unat newprio} \<and>
    OSSemPost e k1 = Some (OS_ERR_NONE, k2) \<and> OSEventCnt (evt k2 e) = OSEventCnt (evt k e)"
proof -
  define q where "q = unat newprio"
  have q: "newprio < 64" "q < 64" using new(1) by (simp_all add: q_def word_less_nat_alt)
  note p64 = own_less [OF o(1)]
  have pq: "p \<noteq> q" using o(1) new(2) by (auto simp: own_def q_def)
  have p0: "prio_of oldprio k = Some oldprio" using old p64 by (auto simp: prio_of_def)
  have "Grp (OSEventWait (evt k e)) = 0" using grp_zero [OF b e(2)] w(1) by simp
  then have post: "OSSemPost e k = Some (OS_ERR_NONE, upd_evt e (\<lambda>v. v\<lparr>OSEventCnt := OSEventCnt v + 1\<rparr>) k)"
    using e(3) w(2) by (simp add: OSSemPost_def)
  define k1 where "k1 = move_prio t oldprio newprio k"
  note eq = move_prio_eq [OF o(1) q(1) old, folded q_def k1_def]
  note sh = bm_shift [OF baseD(1) [OF b] p64 q(2)]
  note wsh = bm_shift [OF baseD(2) [OF b e(2)] p64 q(2)]
  have r1: "bm_ok (OSRdy k1)" "ready k1 = insert q (ready k - {p})" using sh o(3) by (simp_all add: ready_def eq)
  have w1: "bm_ok (OSEventWait (evt k1 e))" "bm_elems (OSEventWait (evt k1 e)) = {q}"
    using wsh w(1) e(1) by (simp_all add: eq waiting_def)
  have tbl: "OSTCBPrioTbl k1 = (OSTCBPrioTbl k)(p := TNull, q := TCB t)" by (simp add: eq)
  have o1: "own k1 q t" using q by (simp add: own_def eq q_def)
  have names: "\<exists>u. OSTCBPrioTbl k1 x = TCB u" if "x \<in> ready k1" for x
    using that base_names [OF b, of x] by (auto simp: r1(2) tbl)
  obtain k2 where k2: "OS_Sched k1 = Some k2" "sched_eq k1 k2" using sched_can [OF r1(1)] names r1(2) by blast
  note f2 = sched_eq_frame [OF k2(2)]
  have "OSTCBPrioTbl k p = TCB t" using o(1) by (simp add: own_def)
  then have ch: "\<exists>k2. OSTaskChangePrio oldprio newprio k = Some (OS_ERR_NONE, k2) \<and> sched_eq k1 k2"
    using new(2) p0 old k2 sched_eq_refl by (cases "OSRunning k1") (auto simp: OSTaskChangePrio_def simp flip: k1_def)
  then obtain k3 where k3: "OSTaskChangePrio oldprio newprio k = Some (OS_ERR_NONE, k3)" "sched_eq k1 k3" by blast
  note f3 = sched_eq_frame [OF k3(2)]
  have wb: "bm_ok (OSEventWait (evt k3 e))" "bm_elems (OSEventWait (evt k3 e)) = {q}" using w1 by (simp_all add: f3)
  obtain k4 where k4: "OS_EventTaskRdy e 0 OS_STAT_SEM OS_STAT_PEND_OK k3 = Some (of_nat q, k4)" "bm_ok (OSRdy k4)"
    "ready k3 \<subseteq> ready k4" "ready k4 \<subseteq> insert q (ready k3)" "OSTCBPrioTbl k4 = OSTCBPrioTbl k3"
    "OSEventCnt (evt k4 e) = OSEventCnt (evt k3 e)"
    using rdy_single [OF wb, of t 0 OS_STAT_SEM OS_STAT_PEND_OK] o1 r1(1) f3 by auto
  have "ready k4 = ready k1" using k4(3,4) r1(2) f3 by auto
  then obtain k5 where k5: "OS_Sched k4 = Some k5" "sched_eq k4 k5"
    using sched_can [OF k4(2)] names r1(2) k4(5) f3 by auto
  have g: "Grp (OSEventWait (evt k3 e)) \<noteq> 0" using bm_emp_iff [OF wb(1)] wb(2) by auto
  have "OSSemPost e k3 = Some (OS_ERR_NONE, k5)"
    using g k4(1) k5(1) e(1,3) by (simp add: OSSemPost_def f3 eq)
  moreover have "OSEventCnt (evt k5 e) = OSEventCnt (evt k e)"
    using k4(6) e(1) by (simp add: sched_eq_frame [OF k5(2)] f3 eq)
  moreover have "unat newprio \<in> ready k3" "waiting k3 e = {unat newprio}"
    using r1(2) w1(2) f3 by (auto simp: waiting_def q_def)
  ultimately show ?thesis
    using post k3(1) by (intro exI [of _ "upd_evt e (\<lambda>v. v\<lparr>OSEventCnt := OSEventCnt v + 1\<rparr>) k"] exI [of _ k3] exI [of _ k5])
      (simp add: upd_evt_def)
qed


section \<open>The list of all tasks\<close>

text \<open>The tasks \<open>ts\<close> and at the end the idle task \<open>i\<close>, linked both ways.\<close>

definition nhd :: "nat list \<Rightarrow> nat \<Rightarrow> nat" where
  "nhd ts i = (case ts of [] \<Rightarrow> i | t # _ \<Rightarrow> t)"

definition tlast :: "nat list \<Rightarrow> tcb_ptr \<Rightarrow> tcb_ptr" where
  "tlast ts p = (if ts = [] then p else TCB (last ts))"

lemma nhd_simps [simp]: "nhd [] i = i" "nhd (t # ts) i = t" "nhd (as @ bs) i = nhd as (nhd bs i)"
  by (auto simp: nhd_def split: list.splits)

lemma tlast_simps [simp]: "tlast [] p = p" "tlast (t # ts) p = tlast ts (TCB t)" "tlast (as @ bs) p = tlast bs (tlast as p)"
  by (auto simp: tlast_def)

fun tlinked :: "(nat \<Rightarrow> OS_TCB) \<Rightarrow> tcb_ptr \<Rightarrow> nat list \<Rightarrow> nat \<Rightarrow> bool" where
  "tlinked N p [] x \<longleftrightarrow> True"
| "tlinked N p (t # ts) x \<longleftrightarrow> OSTCBPrev (N t) = p \<and> OSTCBNext (N t) = TCB (nhd ts x) \<and> tlinked N (TCB t) ts x"

definition dlist :: "kernel \<Rightarrow> nat list \<Rightarrow> nat \<Rightarrow> bool" where
  "dlist k ts i \<longleftrightarrow> OSTCBList k = TCB (nhd ts i) \<and> tlinked (tcb k) TNull ts i \<and> OSTCBPrev (tcb k i) = tlast ts TNull \<and>
     distinct (ts @ [i])"

lemma tlinked_append: "tlinked N p (as @ bs) x \<longleftrightarrow> tlinked N p as (nhd bs x) \<and> tlinked N (tlast as p) bs x"
  by (induction as arbitrary: p) auto

lemma tlinked_cong:
  "(\<And>t. t \<in> set ts \<Longrightarrow> OSTCBNext (N' t) = OSTCBNext (N t) \<and> OSTCBPrev (N' t) = OSTCBPrev (N t)) \<Longrightarrow>
   tlinked N' p ts x = tlinked N p ts x"
  by (induction ts arbitrary: p) auto

lemma tlinked_other [simp]: "u \<notin> set ts \<Longrightarrow> tlinked (N(u := v)) p ts x = tlinked N p ts x"
  by (rule tlinked_cong) auto

lemma tlinked_path: "tlinked (tcb k) p ts i \<Longrightarrow> tcb_path k (TCB (nhd ts i)) ts (TCB i)"
  by (induction ts arbitrary: p) auto

text \<open>What unlinking may write in the other control blocks.\<close>

definition links_only :: "OS_TCB \<Rightarrow> OS_TCB \<Rightarrow> bool" where
  "links_only c c' \<longleftrightarrow> c' = c\<lparr>OSTCBNext := OSTCBNext c', OSTCBPrev := OSTCBPrev c', OSTCBTaskName := OSTCBTaskName c'\<rparr>"

lemma links_only_fields:
  assumes "links_only c c'"
  shows "OSTCBPrio c' = OSTCBPrio c" "OSTCBX c' = OSTCBX c" "OSTCBY c' = OSTCBY c" "OSTCBBitX c' = OSTCBBitX c"
    "OSTCBBitY c' = OSTCBBitY c" "OSTCBEventPtr c' = OSTCBEventPtr c" "OSTCBStat c' = OSTCBStat c" "OSTCBDly c' = OSTCBDly c"
    "OSTCBStatPend c' = OSTCBStatPend c"
proof -
  obtain n p m where "c' = c\<lparr>OSTCBNext := n, OSTCBPrev := p, OSTCBTaskName := m\<rparr>" using assms unfolding links_only_def by blast
  then show "OSTCBPrio c' = OSTCBPrio c" "OSTCBX c' = OSTCBX c" "OSTCBY c' = OSTCBY c" "OSTCBBitX c' = OSTCBBitX c"
    "OSTCBBitY c' = OSTCBBitY c" "OSTCBEventPtr c' = OSTCBEventPtr c" "OSTCBStat c' = OSTCBStat c" "OSTCBDly c' = OSTCBDly c"
    "OSTCBStatPend c' = OSTCBStatPend c" by simp_all
qed

lemma unlink_tcb_ok:
  assumes l: "dlist k (as @ t # bs) i"
  shows "\<exists>T L. unlink_tcb t k = Some (k\<lparr>tcb := T, OSTCBList := L, OSTCBFreeList := TCB t\<rparr>) \<and>
    dlist (k\<lparr>tcb := T, OSTCBList := L, OSTCBFreeList := TCB t\<rparr>) (as @ bs) i \<and>
    OSTCBNext (T t) = OSTCBFreeList k \<and> (\<forall>u. links_only (tcb k u) (T u)) \<and>
    (\<forall>u. u \<notin> set (as @ t # bs @ [i]) \<longrightarrow> T u = tcb k u)"
proof -
  define x where "x = nhd bs i"
  note d = l [unfolded dlist_def tlinked_append]
  have x: "OSTCBNext (tcb k t) = TCB x" "x \<noteq> t" using d by (auto simp: x_def nhd_def split: list.splits)
  let ?wipe = "\<lambda>N. N(t := (N t)\<lparr>OSTCBNext := OSTCBFreeList k, OSTCBTaskName := ''?''\<rparr>)"
  have bs: "tlinked N (TCB t) bs i \<Longrightarrow> OSTCBPrev (N i) = tlast bs (TCB t) \<Longrightarrow> t \<notin> set bs \<Longrightarrow> distinct (bs @ [i]) \<Longrightarrow>
      tlinked (N(x := (N x)\<lparr>OSTCBPrev := p\<rparr>)) p bs i \<and> OSTCBPrev ((N(x := (N x)\<lparr>OSTCBPrev := p\<rparr>)) i) = tlast bs p" for N p
    by (cases bs) (auto simp: x_def tlast_def)
  show ?thesis
  proof (cases as rule: rev_cases)
    case Nil
    let ?T = "?wipe ((tcb k)(x := (tcb k x)\<lparr>OSTCBPrev := TNull\<rparr>))"
    have "unlink_tcb t k = Some (k\<lparr>tcb := ?T, OSTCBList := TCB x, OSTCBFreeList := TCB t\<rparr>)"
      using d Nil x by (simp add: unlink_tcb_def deref_def upd_tcb_def Let_def)
    moreover have "dlist (k\<lparr>tcb := ?T, OSTCBList := TCB x, OSTCBFreeList := TCB t\<rparr>) (as @ bs) i"
      using d Nil x bs [of "tcb k" TNull] by (auto simp: dlist_def x_def)
    ultimately show ?thesis
      using x by (intro exI [of _ ?T] exI [of _ "TCB x"]) (auto simp: links_only_def x_def nhd_def split: list.splits)
  next
    case (snoc as' y)
    have y: "y \<noteq> t" "y \<noteq> x" "OSTCBPrev (tcb k t) = TCB y" "y \<notin> set as'" using d snoc by (auto simp: x_def nhd_def split: list.splits)
    let ?N = "(tcb k)(y := (tcb k y)\<lparr>OSTCBNext := TCB x\<rparr>)"
    let ?T = "?wipe (?N(x := (?N x)\<lparr>OSTCBPrev := TCB y\<rparr>))"
    have "unlink_tcb t k = Some (k\<lparr>tcb := ?T, OSTCBFreeList := TCB t\<rparr>)"
      using x y by (simp add: unlink_tcb_def deref_def upd_tcb_def Let_def)
    then have u: "unlink_tcb t k = Some (k\<lparr>tcb := ?T, OSTCBList := OSTCBList k, OSTCBFreeList := TCB t\<rparr>)" by simp
    have n: "tlinked ?N (TCB t) bs i" "OSTCBPrev (?N i) = tlast bs (TCB t)" "t \<notin> set bs" "distinct (bs @ [i])"
      using d snoc by auto
    have "x \<notin> set as'" "t \<notin> set as'" using d snoc by (auto simp: x_def nhd_def split: list.splits)
    moreover have "tlinked (?N(x := (?N x)\<lparr>OSTCBPrev := TCB y\<rparr>)) (TCB y) bs i"
      "OSTCBPrev ((?N(x := (?N x)\<lparr>OSTCBPrev := TCB y\<rparr>)) i) = tlast bs (TCB y)"
      using bs [OF n, of "TCB y"] by blast+
    ultimately have "dlist (k\<lparr>tcb := ?T, OSTCBList := OSTCBList k, OSTCBFreeList := TCB t\<rparr>) (as @ bs) i"
      using d snoc x y by (simp add: dlist_def tlinked_append flip: x_def)
    then show ?thesis
      using u x y snoc by (intro exI [of _ ?T] exI [of _ "OSTCBList k"]) (auto simp: links_only_def x_def nhd_def split: list.splits)
  qed
qed


section \<open>Deletion\<close>

text \<open>What \<open>forget_task\<close> makes of the kernel when the task waits for no flags.\<close>

definition forgotten :: "nat \<Rightarrow> nat \<Rightarrow> kernel \<Rightarrow> kernel" where
  "forgotten t p k = k\<lparr>OSRdy := bm_del p (OSRdy k), OSTaskCtr := OSTaskCtr k - 1,
     OSTCBPrioTbl := (OSTCBPrioTbl k)(p := TNull),
     tcb := (tcb k)(t := (tcb k t)\<lparr>OSTCBDly := 0, OSTCBStat := OS_STAT_RDY, OSTCBStatPend := OS_STAT_PEND_OK\<rparr>),
     evt := (case OSTCBEventPtr (tcb k t) of None \<Rightarrow> evt k
       | Some e \<Rightarrow> (evt k)(e := (evt k e)\<lparr>OSEventWait := bm_del p (OSEventWait (evt k e))\<rparr>))\<rparr>"

lemma forget_task_eq:
  assumes "own (fkern s) p t" "unat prio = p" "OSTCBFlagNode s t = FNull" "OSLockNesting (fkern s) = 0"
  shows "forget_task t prio s = Some (s\<lparr>fkern := forgotten t p (fkern s)\<rparr>)"
proof -
  have "make_unready t (fkern s) = (fkern s)\<lparr>OSRdy := bm_del p (OSRdy (fkern s))\<rparr>"
    by (simp add: make_unready_def own_bm [OF assms(1)])
  then show ?thesis
    using assms(2-4) own_bm(2) [OF assms(1)]
    by (simp add: forget_task_def forgotten_def Let_def upd_tcb_def OS_EventTaskRemove_def upd_evt_def split: option.splits)
qed

text \<open>The kernel without the task \<open>t\<close> of priority \<open>p\<close>, whatever the links between control blocks are.\<close>

lemma forgotten_ok:
  assumes b: "base_ok k" and s: "stat_ok k" and o: "own k p t" "p \<noteq> 63" and only: "\<forall>x < 64. OSTCBPrioTbl k x = TCB t \<longrightarrow> x = p"
    and k1: "k1 = forgotten t p k"
    and k2: "OSRdy k2 = OSRdy k1" "evt k2 = evt k1" "OSTCBPrioTbl k2 = OSTCBPrioTbl k1" "\<And>u. links_only (tcb k1 u) (tcb k2 u)"
  shows "base_ok k2 \<and> stat_ok k2 \<and> (\<forall>x u. own k2 x u \<longleftrightarrow> own k x u \<and> u \<noteq> t) \<and> ready k2 = ready k - {p} \<and>
    (\<forall>e < OS_MAX_EVENTS. waiting k2 e = waiting k e - {p})"
proof -
  have st: "task_ok k p t" using stat_okD [OF s o(1)] .
  have c: "OSTCBPrio (tcb k2 u) = OSTCBPrio (tcb k u)" "coords_ok (tcb k2 u) = coords_ok (tcb k u)"
    "OSTCBEventPtr (tcb k2 u) = OSTCBEventPtr (tcb k u)" for u
    using links_only_fields [OF k2(4), of u] by (auto simp: k1 forgotten_def coords_ok_def)
  have c2: "OSTCBStat (tcb k2 u) = OSTCBStat (tcb k u)" "OSTCBDly (tcb k2 u) = OSTCBDly (tcb k u)"
    "OSTCBStatPend (tcb k2 u) = OSTCBStatPend (tcb k u)" if "u \<noteq> t" for u
    using links_only_fields [OF k2(4), of u] that by (auto simp: k1 forgotten_def)
  have tbl: "OSTCBPrioTbl k2 = (OSTCBPrioTbl k)(p := TNull)" by (simp add: k2 k1 forgotten_def)
  have own: "own k2 x u \<longleftrightarrow> own k x u \<and> u \<noteq> t" for x u
  proof (cases "x = p")
    case True
    then show ?thesis using o(1) own_inj(1) [of k p t u] by (auto simp: own_def tbl)
  next
    case False
    then show ?thesis using o(1) own_inj(2) [of k p t x] by (auto simp: own_def tbl c)
  qed
  have r: "bm_ok (OSRdy k2)" "ready k2 = ready k - {p}"
    using bm_move [OF baseD(1) [OF b] own_less [OF o(1)]] by (simp_all add: k2 k1 forgotten_def ready_def)
  have ev: "evt k2 e = (if OSTCBEventPtr (tcb k t) = Some e then (evt k e)\<lparr>OSEventWait := bm_del p (OSEventWait (evt k e))\<rparr> else evt k e)" for e
    by (simp add: k2 k1 forgotten_def split: option.splits)
  have w: "bm_ok (OSEventWait (evt k2 e))" "waiting k2 e = waiting k e - {p}" "OSEventType (evt k2 e) = OSEventType (evt k e)"
    if e: "e < OS_MAX_EVENTS" for e
  proof -
    have no: "p \<notin> waiting k e" if "OSTCBEventPtr (tcb k t) \<noteq> Some e"
      using st e that by (auto simp: task_ok_def wait_state_def)
    note bms = bm_move(2,4) [OF baseD(2) [OF b e] own_less [OF o(1)]]
    show "bm_ok (OSEventWait (evt k2 e))" using bms baseD(2) [OF b e] by (simp add: ev)
    show "waiting k2 e = waiting k e - {p}"
      using bms no by (cases "OSTCBEventPtr (tcb k t) = Some e") (simp_all add: ev waiting_def)
    show "OSEventType (evt k2 e) = OSEventType (evt k e)" by (simp add: ev)
  qed
  have ex: "\<exists>u. own k2 x u" if h: "\<exists>u. own k x u" "x \<noteq> p" for x
  proof -
    obtain u where u: "own k x u" using h(1) ..
    then have "u \<noteq> t" using o(1) own_inj(2) [of k x t p] h(2) by blast
    then show ?thesis using u own by blast
  qed
  have "base_ok k2"
    unfolding base_ok_def
  proof (intro conjI allI impI ballI)
    show "63 \<in> ready k2" using baseD(3) [OF b] o(2) by (simp add: r)
    show "own k2 (unat (OSTCBPrio (tcb k2 u))) u" if "x < 64" "OSTCBPrioTbl k2 x = TCB u" for x u
    proof -
      have x: "x \<noteq> p" "OSTCBPrioTbl k x = TCB u" using that(2) by (auto simp: tbl split: if_splits)
      have ou: "own k (unat (OSTCBPrio (tcb k u))) u" using b that(1) x(2) by (simp add: base_ok_def)
      moreover have "u \<noteq> t" using only that(1) x by blast
      ultimately show ?thesis by (simp add: own c)
    qed
    show "\<exists>u. own k2 x u" if "x \<in> ready k2" for x using that baseD(4) [OF b, of x] ex by (auto simp: r)
    show "\<exists>u. own k2 x u" if "e < OS_MAX_EVENTS" "x \<in> waiting k2 e" for e x
      using that baseD(5) [OF b that(1), of x] ex by (auto simp: w)
  qed (use r w in auto)
  moreover have "stat_ok k2"
    unfolding stat_ok_def
  proof (intro allI impI)
    fix x u assume "own k2 x u"
    then have xu: "own k x u" "u \<noteq> t" by (simp_all add: own)
    then have "x \<noteq> p" using o(1) own_inj(1) by blast
    then have "task_ok k2 x u = task_ok k x u"
      using xu(2) w c c2 by (intro task_ok_frame) (auto simp: r)
    then show "task_ok k2 x u" using stat_okD [OF s xu(1)] by simp
  qed
  ultimately show ?thesis using own r(2) w(2) by blast
qed


lemma sched_eq_links:
  assumes "sched_eq k k'"
  shows "dlist k' ts i = dlist k ts i" "tcb_path k' a fs b = tcb_path k a fs b" "OSTaskCtr k' = OSTaskCtr k"
proof -
  have n: "OSTCBNext (tcb k' u) = OSTCBNext (tcb k u)" "OSTCBPrev (tcb k' u) = OSTCBPrev (tcb k u)"
    "OSTCBList k' = OSTCBList k" for u
    using assms by (auto simp: sched_eq_def)
  show "dlist k' ts i = dlist k ts i"
    using tlinked_cong [of ts "tcb k'" "tcb k" TNull i] by (simp add: dlist_def n)
  show "tcb_path k' a fs b = tcb_path k a fs b" by (rule tcb_path_frame) (simp add: n)
qed (use assms in \<open>auto simp: sched_eq_def\<close>)



section \<open>On the booted system\<close>

text \<open>The statistics task changes its own priority to 10, and deletes itself.\<close>

lemma boot_only: "\<forall>x < 64. OSTCBPrioTbl boot_state x = TCB 1 \<longrightarrow> x = 62"
proof -
  have "list_all (\<lambda>x. OSTCBPrioTbl boot_state x = TCB 1 \<longrightarrow> x = 62) [0..<64]" by code_simp
  then show ?thesis by (simp add: list_all_iff)
qed

lemma boot_lists:
  "dlist boot_state ([] @ 1 # []) 0" "tcb_path boot_state (OSTCBFreeList boot_state) [2, 3, 4, 5, 6, 7] TNull"
  "OSRunning boot_state" "prio_of OS_PRIO_SELF boot_state = Some 62" "OSTCBPrioTbl boot_state 10 = TNull"
  by code_simp+



text \<open>The idle task locks the scheduler and posts: the statistics task is ready and has not run.\<close>

definition woken_state :: kernel where
  "woken_state = the (run_service (SemPost 0) (the (run_service SchedLock sem_state)))"

lemma woken_reachable: "reachable woken_state"
proof -
  have "reachable (the (run_service SchedLock sem_state))" by (rule step_service [OF sem_reachable]) simp
  then show ?thesis unfolding woken_state_def by (rule step_service) simp
qed

lemma woken_facts:
  "OSTCBEventPtr (tcb woken_state 1) = Some 0" "OSEventType (evt woken_state 0) = OS_EVENT_TYPE_SEM"
  "OSEventCnt (evt woken_state 0) = 0" "Grp (OSEventWait (evt woken_state 0)) = 0" "own woken_state 62 1"
  "OSTCBPrioTbl woken_state 10 = TNull"
  by code_simp+

lemma woken_ready: "62 \<in> ready woken_state"
proof -
  have "bit (Tbl (OSRdy woken_state) 7) 6" by code_simp
  then show ?thesis by (simp add: ready_def bm_elems_def)
qed

theorem OSTaskChangePrio_loses_post_witness:
  "\<exists>k1 k2. OSTaskChangePrio 62 10 woken_state = Some (OS_ERR_NONE, k1) \<and> OSSemPost 0 k1 = Some (OS_ERR_NONE, k2) \<and>
    OSEventCnt (evt k2 0) = 0"
proof -
  have b: "base_ok woken_state" by (rule reachableD(3) [OF woken_reachable])
  have "waiting woken_state 0 = {}" using grp_zero [OF b, of 0] woken_facts(4) by simp
  then show ?thesis
    using OSTaskChangePrio_loses_post [OF b woken_facts(5) _ woken_ready woken_facts(1) _ woken_facts(2), of 10 62] woken_facts(3,6)
    by auto
qed

end
