(* ===== verification/App_Udp.thy ===== *)
theory App_Udp
  imports Collect_Thms Kernel_Run
begin

text \<open>
  The server task \<open>src/task/task_udpserver.c\<close> and the part of the player \<open>play\<close> of
  \<open>src/task/task_play.c\<close> that takes buffers from the receive queue. The two tasks share the queue, the
  three buffers and the state of the line. Each task is a step function over its locations, so that
  the steps of both, and of the kernel, interleave in any order; one call of a queue operation is one
  step. What \<open>recvfrom\<close> delivers and what \<open>OSSemPend\<close> reports to the player are arguments of the step.
  The data of the buffers lie on the heap, whose bytes are \<open>hbytes\<close>; a result \<open>None\<close> is a null pointer
  followed, an access outside the block a pointer was allocated with, or a fault of the queue.
\<close>

section \<open>The globals\<close>

definition RCV_BUFFER_SIZE :: u32 where "RCV_BUFFER_SIZE = 2048"
definition RCV_BUFFER_NUM :: u32 where "RCV_BUFFER_NUM = 3"
definition AT_LINE_EATABLISH :: u8 where "AT_LINE_EATABLISH = 0x31"
definition AT_LINE_SHUTDOWN :: u8 where "AT_LINE_SHUTDOWN = 0x32"

record rev_buffer_t =
  rdata :: addr
  rlen :: int

text \<open>Where each task stands in its loop.\<close>

datatype server_loc = S_Dequeue | S_Recvfrom | S_Parse | S_Post_Async | S_Post_Play | S_Enqueue
datatype play_loc = P_Pend | P_Dequeue | P_Enqueue | P_Copy | P_Line

text \<open>\<open>s_rcv_at\<close> is the address of the array \<open>s_rcv_buffer\<close>; \<open>pbuff\<close> is the local variable of the server;
  \<open>prcv_buff\<close>, \<open>play_len\<close> and \<open>play_pbuff\<close> are those of the player.\<close>

record app =
  aheap :: heap
  s_rcv_queue :: "heap queue option"
  s_rcv_buffer :: "nat \<Rightarrow> rev_buffer_t"
  s_rcv_at :: addr
  is_line_established :: u8
  sem_vs1053async :: nat
  sem_vs1053_play_async :: nat
  server_at :: server_loc
  pbuff :: addr
  play_at :: play_loc
  prcv_buff :: addr
  play_len :: int
  play_pbuff :: addr

text \<open>\<open>&s_rcv_buffer[i]\<close>, and the index a pointer stands for; a pointer that is not to an element of the
  array cannot be followed.\<close>

definition buf_at :: "app \<Rightarrow> nat \<Rightarrow> addr" where
  "buf_at a i = s_rcv_at a + 8 * i"

definition buf_of :: "app \<Rightarrow> addr \<Rightarrow> nat option" where
  "buf_of a p = (if p \<noteq> 0 \<and> s_rcv_at a \<le> p \<and> (p - s_rcv_at a) mod 8 = 0 \<and>
       (p - s_rcv_at a) div 8 < unat RCV_BUFFER_NUM
     then Some ((p - s_rcv_at a) div 8) else None)"

definition upd_buf :: "nat \<Rightarrow> (rev_buffer_t \<Rightarrow> rev_buffer_t) \<Rightarrow> app \<Rightarrow> app" where
  "upd_buf i f a = a\<lparr>s_rcv_buffer := (s_rcv_buffer a)(i := f (s_rcv_buffer a i))\<rparr>"

section \<open>Bytes of the heap\<close>

text \<open>The \<open>n\<close> bytes at \<open>p\<close> lie in the block that was allocated at \<open>p\<close>, as its header says.\<close>

definition fits :: "heap \<Rightarrow> addr \<Rightarrow> nat \<Rightarrow> bool" where
  "fits h p n \<longleftrightarrow> 8 \<le> p \<and> xBlockSize (hmem h (p - 8)) AND alloc_bit \<noteq> 0 \<and>
     n + 8 \<le> unat (xBlockSize (hmem h (p - 8)) AND NOT alloc_bit)"

definition mem_put :: "(addr \<Rightarrow> u8) \<Rightarrow> addr \<Rightarrow> u8 list \<Rightarrow> (addr \<Rightarrow> u8)" where
  "mem_put f p bs = (\<lambda>x. if p \<le> x \<and> x < p + length bs then bs ! (x - p) else f x)"

definition read_bytes :: "heap \<Rightarrow> addr \<Rightarrow> nat \<Rightarrow> u8 list option" where
  "read_bytes h p n = (if fits h p n then Some (map (hbytes h) [p..<p + n]) else None)"

definition write_bytes :: "addr \<Rightarrow> u8 list \<Rightarrow> app \<Rightarrow> app option" where
  "write_bytes p bs a = (if fits (aheap a) p (length bs)
     then Some (a\<lparr>aheap := (aheap a)\<lparr>hbytes := mem_put (hbytes (aheap a)) p bs\<rparr>\<rparr>) else None)"

section \<open>The receive queue\<close>

definition rcv_queue_enqueue :: "addr \<Rightarrow> app \<Rightarrow> app option" where
  "rcv_queue_enqueue data a = do {
     q \<leftarrow> s_rcv_queue a;
     q \<leftarrow> (if queue_size q = RCV_BUFFER_NUM then do {
            (st, out, q) \<leftarrow> queue_poll q;
            Some q
          } else Some q);
     (st, h, q) \<leftarrow> queue_enqueue (aheap a) q data;
     Some (a\<lparr>aheap := h, s_rcv_queue := Some q\<rparr>)
   }"

definition rcv_queue_dequeue :: "app \<Rightarrow> (addr \<times> app) option" where
  "rcv_queue_dequeue a = do {
     q \<leftarrow> s_rcv_queue a;
     (st, out, q) \<leftarrow> queue_poll q;
     Some (case out of None \<Rightarrow> 0 | Some p \<Rightarrow> p, a\<lparr>s_rcv_queue := Some q\<rparr>)
   }"

text \<open>The loop over \<open>i\<close>, with the number of turns left.\<close>

fun rev_buffer_loop :: "nat \<Rightarrow> nat \<Rightarrow> app \<Rightarrow> app option" where
  "rev_buffer_loop i 0 a = Some a"
| "rev_buffer_loop i (Suc n) a = do {
     (p, h) \<leftarrow> pvPortMalloc (aheap a) RCV_BUFFER_SIZE;
     let a = upd_buf i (\<lambda>b. b\<lparr>rdata := p\<rparr>) (a\<lparr>aheap := h\<rparr>);
     if p = 0 then Some a
     else do {
       a \<leftarrow> rcv_queue_enqueue (buf_at a i) a;
       rev_buffer_loop (i + 1) n (upd_buf i (\<lambda>b. b\<lparr>rlen := 0\<rparr>) a)
     }
   }"

definition rev_buffer_init :: "(nat \<Rightarrow> addr) \<Rightarrow> app \<Rightarrow> app option" where
  "rev_buffer_init old a = do {
     (st, h, r) \<leftarrow> queue_new lib_ops old (aheap a);
     rev_buffer_loop 0 (unat RCV_BUFFER_NUM)
       (a\<lparr>aheap := h, s_rcv_queue := (case r of None \<Rightarrow> s_rcv_queue a | Some q \<Rightarrow> Some q)\<rparr>)
   }"

section \<open>The server\<close>

text \<open>The value \<open>parse_AT\<close> returns and the line state it leaves; its argument \<open>len\<close> is not used.\<close>

definition parse_AT :: "heap \<Rightarrow> addr \<Rightarrow> int \<Rightarrow> u8 \<Rightarrow> (int \<times> u8) option" where
  "parse_AT h b len line = do {
     c0 \<leftarrow> read_bytes h b 1;
     if c0 ! 0 \<noteq> 0x41 then Some (0, line)
     else do {
       c \<leftarrow> read_bytes h b 2;
       if c ! 1 \<noteq> 0x54 then Some (0, line)
       else do {
         c \<leftarrow> read_bytes h b 3;
         let cmd = c ! 2;
         Some (1, if cmd = AT_LINE_EATABLISH then 1 else if cmd = AT_LINE_SHUTDOWN then 0 else line)
       }
     }
   }"

text \<open>One step of \<open>task_udpserver\<close>; \<open>r\<close> is what \<open>recvfrom\<close> delivers, \<open>None\<close> for its result \<open>-1\<close>. It writes at
  most the \<open>RCV_BUFFER_SIZE\<close> bytes it is told.\<close>

definition server_step :: "u8 list option \<Rightarrow> app \<times> kernel \<Rightarrow> (app \<times> kernel) option" where
  "server_step r = (\<lambda>(a, k). case server_at a of
     S_Dequeue \<Rightarrow> do {
       (p, a) \<leftarrow> rcv_queue_dequeue a;
       Some (a\<lparr>pbuff := p, server_at := S_Recvfrom\<rparr>, k)
     }
   | S_Recvfrom \<Rightarrow> do {
       i \<leftarrow> buf_of a (pbuff a);
       (len, a) \<leftarrow> (case r of
           None \<Rightarrow> Some (- 1, a)
         | Some bs \<Rightarrow> do {
             let bs = take (unat RCV_BUFFER_SIZE) bs;
             a \<leftarrow> write_bytes (rdata (s_rcv_buffer a i)) bs a;
             Some (int (length bs), a)
           });
       Some ((upd_buf i (\<lambda>b. b\<lparr>rlen := len\<rparr>) a)\<lparr>server_at := S_Parse\<rparr>, k)
     }
   | S_Parse \<Rightarrow> do {
       i \<leftarrow> buf_of a (pbuff a);
       (ret, line) \<leftarrow> parse_AT (aheap a) (rdata (s_rcv_buffer a i)) (int (unat RCV_BUFFER_SIZE)) (is_line_established a);
       let a = a\<lparr>is_line_established := line\<rparr>;
       if ret \<noteq> 0 then
         Some ((upd_buf i (\<lambda>b. b\<lparr>rlen := 0\<rparr>) a)\<lparr>server_at := (if line \<noteq> 0 then S_Post_Async else S_Enqueue)\<rparr>, k)
       else Some (a\<lparr>server_at := S_Enqueue\<rparr>, k)
     }
   | S_Post_Async \<Rightarrow> do {
       (err, k) \<leftarrow> OSSemPost (sem_vs1053async a) k;
       Some (a\<lparr>server_at := S_Post_Play\<rparr>, k)
     }
   | S_Post_Play \<Rightarrow> do {
       (err, k) \<leftarrow> OSSemPost (sem_vs1053_play_async a) k;
       Some (a\<lparr>server_at := S_Enqueue\<rparr>, k)
     }
   | S_Enqueue \<Rightarrow> do {
       a \<leftarrow> rcv_queue_enqueue (pbuff a) a;
       Some (a\<lparr>server_at := S_Dequeue\<rparr>, k)
     })"

section \<open>The player\<close>

text \<open>The header test of \<open>play\<close>, which compares \<open>data[2]\<close> twice.\<close>

definition skips_header :: "heap \<Rightarrow> addr \<Rightarrow> bool option" where
  "skips_header h d = do {
     c \<leftarrow> read_bytes h d 3;
     Some (c ! 0 = 0x52 \<and> c ! 1 = 0x49 \<and> c ! 2 = 0x46 \<and> c ! 2 = 0x46)
   }"

text \<open>One step of the loops of \<open>play\<close>: the bytes given to \<open>vs10xx_play_dma_send_data\<close>, if any. \<open>ok\<close> says
  whether \<open>OSSemPend\<close> reported \<open>OS_ERR_NONE\<close>. The buffer goes back into the queue before its data are
  read, and the test against \<open>NULL\<close> comes after the pointer was followed.\<close>

definition play_step :: "bool \<Rightarrow> app \<Rightarrow> (u8 list option \<times> app) option" where
  "play_step ok a = (case play_at a of
     P_Pend \<Rightarrow> Some (None, if ok then a\<lparr>play_at := P_Dequeue\<rparr> else a)
   | P_Dequeue \<Rightarrow> do {
       (p, a) \<leftarrow> rcv_queue_dequeue a;
       i \<leftarrow> buf_of a p;
       let a = a\<lparr>prcv_buff := p, play_len := rlen (s_rcv_buffer a i), play_at := P_Enqueue\<rparr>;
       Some (None, upd_buf i (\<lambda>b. b\<lparr>rlen := 0\<rparr>) a)
     }
   | P_Enqueue \<Rightarrow> do {
       a \<leftarrow> rcv_queue_enqueue (prcv_buff a) a;
       Some (None, a\<lparr>play_at := (if prcv_buff a = 0 \<or> play_len a > 0 then P_Copy else P_Line)\<rparr>)
     }
   | P_Copy \<Rightarrow> do {
       i \<leftarrow> buf_of a (prcv_buff a);
       let d = rdata (s_rcv_buffer a i);
       skip \<leftarrow> skips_header (aheap a) d;
       if skip then Some (None, a\<lparr>play_len := 0, play_at := P_Dequeue\<rparr>)
       else do {
         bs \<leftarrow> read_bytes (aheap a) d (nat (play_len a));
         a \<leftarrow> write_bytes (play_pbuff a) bs a;
         Some (Some bs, a\<lparr>play_at := P_Line\<rparr>)
       }
     }
   | P_Line \<Rightarrow> Some (None, a\<lparr>play_at := (if is_line_established a = 0 then P_Pend else P_Dequeue)\<rparr>))"

text \<open>What both tasks do before their loops, as far as the buffers go.\<close>

definition play_init :: "app \<Rightarrow> app option" where
  "play_init a = do {
     (p, h) \<leftarrow> pvPortMalloc (aheap a) RCV_BUFFER_SIZE;
     Some (a\<lparr>aheap := h, play_pbuff := p, prcv_buff := 0, play_len := 0, play_at := P_Pend\<rparr>)
   }"

section \<open>Runs\<close>

inductive app_step :: "app \<times> kernel \<Rightarrow> app \<times> kernel \<Rightarrow> bool" where
  server: "server_step r (a, k) = Some (a', k') \<Longrightarrow> app_step (a, k) (a', k')"
| player: "play_step ok a = Some (out, a') \<Longrightarrow> app_step (a, k) (a', k)"
| kernel: "kernel_step k k' \<Longrightarrow> app_step (a, k) (a, k')"

inductive_cases app_stepE: "app_step s s'"

text \<open>The starting states: the kernel is up, the two semaphores exist, and every block asked for was
  granted.\<close>

definition app_started :: "app \<times> kernel \<Rightarrow> bool" where
  "app_started = (\<lambda>(a, k). reachable k \<and> sem_vs1053async a < OS_MAX_EVENTS \<and> sem_vs1053_play_async a < OS_MAX_EVENTS \<and>
     s_rcv_at a \<noteq> 0 \<and> server_at a = S_Dequeue \<and> play_at a = P_Pend \<and>
     (\<exists>old a0 a1 base. heap_live (aheap a0) base \<and> s_rcv_queue a0 = None \<and> rev_buffer_init old a0 = Some a1 \<and>
        s_rcv_queue a1 \<noteq> None \<and> play_init a1 = Some a \<and> (\<forall>i < 3. rdata (s_rcv_buffer a i) \<noteq> 0) \<and> play_pbuff a \<noteq> 0))"

inductive app_reachable :: "app \<times> kernel \<Rightarrow> bool" where
  start: "app_started s \<Longrightarrow> app_reachable s"
| step: "app_reachable s \<Longrightarrow> app_step s s' \<Longrightarrow> app_reachable s'"

end
