(* ===== verification/App_Pool.thy ===== *)
theory App_Pool
  imports App_Udp "HOL-Library.Multiset"
begin

text \<open>
  The invariant of the two tasks: the three buffers are in the queue or in the hands of a task, each
  once, their data and the copy of the player are different blocks of the heap, and no length exceeds
  a block. Every step of either task returns and keeps it.
\<close>

section \<open>Pointers into the array\<close>

definition bufs :: "app \<Rightarrow> addr list" where
  "bufs a = [buf_at a 0, buf_at a 1, buf_at a 2]"

lemma buf_of_at: "s_rcv_at a \<noteq> 0 \<Longrightarrow> i < 3 \<Longrightarrow> buf_of a (buf_at a i) = Some i"
  by (simp add: buf_of_def buf_at_def RCV_BUFFER_NUM_def)

lemma buf_of_SomeD:
  assumes "buf_of a p = Some i"
  shows "i < 3 \<and> p = buf_at a i"
proof -
  from assms have *: "s_rcv_at a \<le> p" "(p - s_rcv_at a) mod 8 = 0" "i = (p - s_rcv_at a) div 8" "i < 3"
    by (auto simp: buf_of_def RCV_BUFFER_NUM_def split: if_splits)
  then have "p - s_rcv_at a = 8 * i" by presburger
  then show ?thesis using * by (simp add: buf_at_def)
qed

lemma less_3: "i < 3 \<longleftrightarrow> i = 0 \<or> i = 1 \<or> i = (2::nat)"
  by auto

lemma bufsE:
  assumes "p \<in> set (bufs a)" "s_rcv_at a \<noteq> 0"
  obtains i where "i < 3" "p = buf_at a i" "buf_of a p = Some i"
proof -
  from assms(1) have "\<exists>i < 3. p = buf_at a i" by (auto simp: bufs_def less_3)
  then show ?thesis using that buf_of_at assms(2) by blast
qed

lemma distinct_bufs: "distinct (bufs a)"
  by (simp add: bufs_def buf_at_def)

text \<open>The array does not move.\<close>

lemma bufs_cong: "s_rcv_at a' = s_rcv_at a \<Longrightarrow> bufs a' = bufs a \<and> buf_of a' = buf_of a \<and> buf_at a' = buf_at a"
  by (simp add: bufs_def buf_at_def buf_of_def fun_eq_iff)

lemma upd_buf_simps [simp]:
  "s_rcv_at (upd_buf i f a) = s_rcv_at a" "aheap (upd_buf i f a) = aheap a" "s_rcv_queue (upd_buf i f a) = s_rcv_queue a"
  "server_at (upd_buf i f a) = server_at a" "pbuff (upd_buf i f a) = pbuff a" "play_at (upd_buf i f a) = play_at a"
  "prcv_buff (upd_buf i f a) = prcv_buff a" "play_len (upd_buf i f a) = play_len a"
  "play_pbuff (upd_buf i f a) = play_pbuff a" "is_line_established (upd_buf i f a) = is_line_established a"
  "s_rcv_buffer (upd_buf i f a) = (s_rcv_buffer a)(i := f (s_rcv_buffer a i))"
  "sem_vs1053async (upd_buf i f a) = sem_vs1053async a" "sem_vs1053_play_async (upd_buf i f a) = sem_vs1053_play_async a"
  by (simp_all add: upd_buf_def)

section \<open>The queue with room\<close>

text \<open>The receive queue is well formed among the blocks \<open>base\<close> and need not grow for three elements.\<close>

definition queue_room :: "(addr \<rightharpoonup> nat) \<Rightarrow> app \<Rightarrow> bool" where
  "queue_room base a \<longleftrightarrow> (\<exists>q. s_rcv_queue a = Some q \<and> heap_queue base (aheap a, q) \<and> 2 < unat (capacity (qd q)))"

definition view :: "app \<Rightarrow> addr list" where
  "view a = (case s_rcv_queue a of None \<Rightarrow> [] | Some q \<Rightarrow> queue_view q)"

lemma poll_capacity: "queue_poll q = Some (st, out, q') \<Longrightarrow> capacity (qd q') = capacity (qd q)"
  by (auto simp: queue_poll_def deque_remove_last_def bind_eq_Some_conv Let_def split: if_splits)

lemma enqueue_capacity:
  "dsize (qd q) < capacity (qd q) \<Longrightarrow> queue_enqueue h q x = Some (st, h', q') \<Longrightarrow> h' = h \<and> capacity (qd q') = capacity (qd q)"
  by (auto simp: queue_enqueue_def deque_add_first_def expand_if_def bind_eq_Some_conv Let_def split: if_splits)

lemma dequeue_ok:
  assumes "queue_room base a" "view a = x # xs"
  shows "\<exists>q. rcv_queue_dequeue a = Some (x, a\<lparr>s_rcv_queue := Some q\<rparr>) \<and> queue_view q = xs \<and>
    queue_room base (a\<lparr>s_rcv_queue := Some q\<rparr>)"
proof -
  obtain q where q: "s_rcv_queue a = Some q" "heap_queue base (aheap a, q)" "2 < unat (capacity (qd q))"
    using assms(1) by (auto simp: queue_room_def)
  have "queue_view q = x # xs" using assms(2) q(1) by (simp add: view_def)
  then obtain q' where q': "queue_poll q = Some (CC_OK, Some x, q')" "queue_view q' = xs" "heap_queue base (aheap a, q')"
    using callocator.poll_step [OF lib_mem.callocator_axioms q(2)] by blast
  show ?thesis
    using q q' poll_capacity [OF q'(1)] by (intro exI [of _ q']) (simp add: rcv_queue_dequeue_def queue_room_def)
qed

lemma view_size: "s_rcv_queue a = Some q \<Longrightarrow> unat (queue_size q) = length (view a)"
  by (simp add: view_def queue_view_def queue_size_def deque_size_def)

lemma enqueue_ok:
  assumes "queue_room base a" "length (view a) < 3"
  shows "\<exists>q. rcv_queue_enqueue x a = Some (a\<lparr>s_rcv_queue := Some q\<rparr>) \<and> queue_view q = view a @ [x] \<and>
    queue_room base (a\<lparr>s_rcv_queue := Some q\<rparr>)"
proof -
  obtain q where q: "s_rcv_queue a = Some q" "heap_queue base (aheap a, q)" "2 < unat (capacity (qd q))"
    using assms(1) by (auto simp: queue_room_def)
  have n: "unat (queue_size q) < 3" using view_size [OF q(1)] assms(2) by simp
  then have no: "queue_size q \<noteq> RCV_BUFFER_NUM" by (auto simp: RCV_BUFFER_NUM_def)
  have room: "dsize (qd q) < capacity (qd q)"
    using n q(3) by (simp add: queue_size_def deque_size_def word_less_nat_alt)
  from callocator.enqueue_step [OF lib_mem.callocator_axioms q(2), of x]
  show ?thesis
  proof (elim disjE exE conjE)
    fix h' q' assume r: "queue_enqueue (aheap a) q x = Some (CC_OK, h', q')" "queue_view q' = queue_view q @ [x]"
      "heap_queue base (h', q')"
    have h: "h' = aheap a" "capacity (qd q') = capacity (qd q)" using enqueue_capacity [OF room r(1)] by auto
    have "a\<lparr>aheap := aheap a, s_rcv_queue := Some q'\<rparr> = a\<lparr>s_rcv_queue := Some q'\<rparr>" by simp
    then show ?thesis
      using q no r h by (intro exI [of _ q']) (simp add: rcv_queue_enqueue_def queue_room_def view_def)
  qed (use room in simp_all)
qed

section \<open>Blocks\<close>

lemma heap_live_fits:
  assumes "heap_live h al" "al p = Some s" "n \<le> s"
  shows "fits h p n"
proof -
  obtain bs bl where inv: "heap_inv h bs bl" "al = payloads bl" using assms(1) by (auto simp: heap_live_def)
  then obtain t where t: "8 \<le> p" "bl (p - 8) = Some t" "s = t - 8"
    using assms(2) by (auto simp: payloads_def split: if_splits)
  have b: "heap_lo \<le> p - 8" "p - 8 + t \<le> heap_hi" "16 \<le> t"
    and m: "hmem h (p - 8) = \<lparr>pxNextFreeBlock = 0, xBlockSize = of_nat t OR alloc_bit\<rparr>"
    using inv(1) t(2) by (auto simp: heap_inv_def alloc_part_def)
  have "t < 2 ^ 31" using b by simp
  then have "unat (of_nat t :: u32) = t" by (simp add: unsigned_of_nat take_bit_nat_eq_self)
  moreover note top_bit_set [OF \<open>t < 2 ^ 31\<close>]
  ultimately show ?thesis using m t assms(3) b(3) by (simp add: fits_def)
qed

lemma base_live:
  assumes "heap_queue base (h, q)"
  obtains al where "heap_live h al" "\<And>p s. base p = Some s \<Longrightarrow> al p = Some s"
proof -
  obtain al where "deque_ok heap_live (mk_ops pvPortMalloc pvPortCalloc vPortFree) h al (qd q)" "other_blocks al q = base"
    using assms by (auto simp: queue_ok_def)
  then have "heap_live h al" "\<And>p s. base p = Some s \<Longrightarrow> al p = Some s"
    by (auto simp: deque_ok_def other_blocks_def fun_upd_def split: if_splits)
  then show ?thesis by (rule that)
qed

lemma room_fits: "queue_room base a \<Longrightarrow> base p = Some s \<Longrightarrow> n \<le> s \<Longrightarrow> fits (aheap a) p n"
  unfolding queue_room_def by (meson base_live heap_live_fits)

lemma room_apart:
  assumes "queue_room base a" "base p = Some s" "base r = Some t" "p \<noteq> r"
  shows "p + s \<le> r \<or> r + t \<le> p"
proof -
  obtain q where "heap_queue base (aheap a, q)" using assms(1) by (auto simp: queue_room_def)
  then obtain al where "heap_live (aheap a) al" "al p = Some s" "al r = Some t"
    using base_live assms(2,3) by metis
  then show ?thesis using lib_mem.live_disjoint assms(4) by blast
qed

lemma queue_bytes: "heap_queue base (h, q) \<Longrightarrow> heap_queue base (h\<lparr>hbytes := f\<rparr>, q)"
  unfolding queue_ok_def deque_ok_def using heap_live_bytes by fastforce

lemma write_ok:
  assumes "queue_room base a" "base p = Some s" "length bs \<le> s"
  shows "write_bytes p bs a = Some (a\<lparr>aheap := (aheap a)\<lparr>hbytes := mem_put (hbytes (aheap a)) p bs\<rparr>\<rparr>) \<and>
    queue_room base (a\<lparr>aheap := (aheap a)\<lparr>hbytes := f\<rparr>\<rparr>)"
  using room_fits [OF assms] assms(1) queue_bytes by (fastforce simp: write_bytes_def queue_room_def)

lemma read_ok: "queue_room base a \<Longrightarrow> base p = Some s \<Longrightarrow> n \<le> s \<Longrightarrow>
    read_bytes (aheap a) p n = Some (map (hbytes (aheap a)) [p..<p + n])"
  using room_fits by (simp add: read_bytes_def)

lemma queue_alloc:
  assumes "heap_queue base (h, q)" "pvPortMalloc h w = Some (p, h')" "p \<noteq> 0"
  shows "\<exists>s \<ge> unat w. heap_queue (base(p \<mapsto> s)) (h', q) \<and> p \<notin> dom base"
proof -
  obtain al where al: "deque_ok heap_live (mk_ops pvPortMalloc pvPortCalloc vPortFree) h al (qd q)" "queue_owns al q"
    "qmem q = mk_ops pvPortMalloc pvPortCalloc vPortFree" "other_blocks al q = base"
    using assms(1) by (auto simp: queue_ok_def)
  have live: "heap_live h al" using al(1) by (simp add: deque_ok_def)
  obtain s where s: "p \<notin> dom al" "unat w \<le> s" "heap_live h' (al(p \<mapsto> s))"
    using lib_mem.alloc_step [OF live, of w] assms(2,3) by auto
  have ne: "p \<noteq> buffer_at (qd q)" "p \<noteq> deque_at (qd q)" "p \<noteq> queue_at q"
    using s(1) al(1,2) by (auto simp: deque_ok_def deque_owns_def queue_owns_def)
  then have "deque_ok heap_live (mk_ops pvPortMalloc pvPortCalloc vPortFree) h' (al(p \<mapsto> s)) (qd q)"
    "queue_owns (al(p \<mapsto> s)) q"
    using al(1,2) s(3) by (auto simp: deque_ok_def deque_owns_def queue_owns_def)
  moreover have "other_blocks (al(p \<mapsto> s)) q = base(p \<mapsto> s)"
    using ne by (simp add: other_blocks_def fun_upd_twist flip: al(4))
  moreover have "p \<notin> dom base" using s(1) al(4) by (auto simp: other_blocks_def split: if_splits)
  ultimately show ?thesis using al(3) s(2) by (auto simp: queue_ok_def)
qed

section \<open>The invariant\<close>

definition server_holds :: "app \<Rightarrow> addr list" where
  "server_holds a = (if server_at a = S_Dequeue then [] else [pbuff a])"

definition player_holds :: "app \<Rightarrow> addr list" where
  "player_holds a = (if play_at a = P_Enqueue then [prcv_buff a] else [])"

definition data_blocks :: "app \<Rightarrow> addr list" where
  "data_blocks a = [rdata (s_rcv_buffer a 0), rdata (s_rcv_buffer a 1), rdata (s_rcv_buffer a 2), play_pbuff a]"

definition blocks_good :: "(addr \<rightharpoonup> nat) \<Rightarrow> app \<Rightarrow> bool" where
  "blocks_good base a \<longleftrightarrow> distinct (data_blocks a) \<and> (\<forall>p \<in> set (data_blocks a). \<exists>s \<ge> 2048. base p = Some s)"

definition lengths_good :: "app \<Rightarrow> bool" where
  "lengths_good a \<longleftrightarrow> (\<forall>i < 3. rlen (s_rcv_buffer a i) \<le> 2048) \<and> play_len a \<le> 2048"

definition pool_ok :: "(addr \<rightharpoonup> nat) \<Rightarrow> app \<Rightarrow> bool" where
  "pool_ok base a \<longleftrightarrow> queue_room base a \<and> s_rcv_at a \<noteq> 0 \<and>
     mset (view a) + mset (server_holds a) + mset (player_holds a) = mset (bufs a) \<and>
     blocks_good base a \<and> lengths_good a \<and>
     (play_at a = P_Enqueue \<longrightarrow> (\<forall>i. buf_of a (prcv_buff a) = Some i \<longrightarrow> rlen (s_rcv_buffer a i) = 0)) \<and>
     (play_at a = P_Copy \<longrightarrow> prcv_buff a \<in> set (bufs a) \<and> 0 < play_len a)"

lemma pool_okD:
  assumes "pool_ok base a"
  shows "queue_room base a" "s_rcv_at a \<noteq> 0" "mset (view a) + mset (server_holds a) + mset (player_holds a) = mset (bufs a)"
    "blocks_good base a" "lengths_good a"
  using assms by (simp_all add: pool_ok_def)

lemma pool_counts:
  assumes "pool_ok base a"
  shows "length (view a) + length (server_holds a) + length (player_holds a) = 3"
proof -
  have "size (mset (view a) + mset (server_holds a) + mset (player_holds a)) = size (mset (bufs a))"
    using pool_okD(3) [OF assms] by simp
  then show ?thesis by (simp add: bufs_def)
qed

lemma pool_sets:
  assumes "pool_ok base a"
  shows "set (view a) \<union> set (server_holds a) \<union> set (player_holds a) = set (bufs a)"
    "distinct (view a @ server_holds a @ player_holds a)"
proof -
  have m: "mset (view a @ server_holds a @ player_holds a) = mset (bufs a)"
    using pool_okD(3) [OF assms] by (simp add: union_assoc)
  show "distinct (view a @ server_holds a @ player_holds a)"
    using distinct_bufs [of a] m mset_eq_imp_distinct_iff by blast
  show "set (view a) \<union> set (server_holds a) \<union> set (player_holds a) = set (bufs a)"
    using mset_eq_setD [OF m] by auto
qed

text \<open>Of three buffers each task holds at most one: a task that takes one always finds one.\<close>

lemma view_nonempty:
  assumes "pool_ok base a" "server_at a = S_Dequeue \<or> play_at a \<noteq> P_Enqueue"
  obtains x xs where "view a = x # xs"
  using pool_counts [OF assms(1)] assms(2) that
  by (cases "view a") (auto simp: server_holds_def player_holds_def split: if_splits)

lemma data_block:
  assumes "blocks_good base a" "i < 3"
  obtains s where "2048 \<le> s" "base (rdata (s_rcv_buffer a i)) = Some s"
  using assms by (auto simp: blocks_good_def data_blocks_def less_3)

lemma play_block:
  assumes "blocks_good base a"
  obtains s where "2048 \<le> s" "base (play_pbuff a) = Some s"
  using assms by (auto simp: blocks_good_def data_blocks_def)

lemma blocks_cong:
  "(\<And>i. rdata (s_rcv_buffer a' i) = rdata (s_rcv_buffer a i)) \<Longrightarrow> play_pbuff a' = play_pbuff a \<Longrightarrow>
    blocks_good base a' = blocks_good base a"
  by (simp add: blocks_good_def data_blocks_def)

lemma parse_ok:
  assumes "queue_room base a" "base p = Some s" "2048 \<le> s"
  shows "\<exists>ret line'. parse_AT (aheap a) p len line = Some (ret, line')"
proof -
  have "1 \<le> s" "2 \<le> s" "3 \<le> s" using assms(3) by auto
  then show ?thesis using read_ok [OF assms(1,2)] by (simp add: parse_AT_def Let_def)
qed

section \<open>The steps of the server\<close>

definition sems_ok :: "app \<Rightarrow> bool" where
  "sems_ok a \<longleftrightarrow> sem_vs1053async a < OS_MAX_EVENTS \<and> sem_vs1053_play_async a < OS_MAX_EVENTS"

lemma post_reachable:
  assumes "reachable k" "e < OS_MAX_EVENTS"
  shows "\<exists>err k'. OSSemPost e k = Some (err, k') \<and> reachable k'"
proof -
  have p: "permitted (SemPost e) k" using assms(2) by simp
  obtain k' where k': "run_service (SemPost e) k = Some k'"
    using service_world [OF _ _ p] reachable_world [OF assms(1)] by blast
  then have "reachable k'" using assms(1) p by (blast intro: reachable.step kernel_step.call)
  then show ?thesis using k' by auto
qed

text \<open>Steps that leave the queue and the buffers alone.\<close>

lemma pool_same:
  assumes "pool_ok base a" "s_rcv_queue a' = s_rcv_queue a" "queue_room base a'" "s_rcv_at a' = s_rcv_at a"
    "server_holds a' = server_holds a" "player_holds a' = player_holds a" "prcv_buff a' = prcv_buff a"
    "play_pbuff a' = play_pbuff a"
    "\<And>i. rdata (s_rcv_buffer a' i) = rdata (s_rcv_buffer a i)" "lengths_good a'"
    "\<And>i. i < 3 \<Longrightarrow> buf_at a i \<notin> set (server_holds a) \<Longrightarrow> rlen (s_rcv_buffer a' i) = rlen (s_rcv_buffer a i)"
    "play_at a' = P_Copy \<Longrightarrow> play_at a = P_Copy \<and> play_len a' = play_len a"
  shows "pool_ok base a'"
proof -
  note b = bufs_cong [OF assms(4)]
  have v: "view a' = view a" using assms(2) by (simp add: view_def)
  have l: "rlen (s_rcv_buffer a' i) = 0" if "play_at a' = P_Enqueue" "buf_of a' (prcv_buff a') = Some i" for i
  proof -
    have i: "i < 3" "prcv_buff a = buf_at a i" "buf_of a (prcv_buff a) = Some i"
      using buf_of_SomeD that(2) b assms(7) by auto
    have p: "play_at a = P_Enqueue" using assms(6) that(1) by (auto simp: player_holds_def split: if_splits)
    then have "buf_at a i \<notin> set (server_holds a)"
      using pool_sets(2) [OF assms(1)] i(2) by (auto simp: player_holds_def)
    moreover have "rlen (s_rcv_buffer a i) = 0" using assms(1) p i(3) by (simp add: pool_ok_def)
    ultimately show ?thesis using assms(11) i(1) by simp
  qed
  show ?thesis
    using assms(1,3,4,5,6,7,8,10,12) b v blocks_cong [OF assms(9,8)] l unfolding pool_ok_def by auto
qed

lemma server_dequeue:
  assumes ok: "pool_ok base a" and at: "server_at a = S_Dequeue"
  shows "\<exists>q x xs. view a = x # xs \<and> queue_view q = xs \<and>
    server_step r (a, k) = Some (a\<lparr>s_rcv_queue := Some q, pbuff := x, server_at := S_Recvfrom\<rparr>, k) \<and>
    pool_ok base (a\<lparr>s_rcv_queue := Some q, pbuff := x, server_at := S_Recvfrom\<rparr>)"
proof -
  obtain x xs where v: "view a = x # xs" using view_nonempty [OF ok] at by blast
  obtain q where q: "rcv_queue_dequeue a = Some (x, a\<lparr>s_rcv_queue := Some q\<rparr>)" "queue_view q = xs"
    "queue_room base (a\<lparr>s_rcv_queue := Some q\<rparr>)"
    using dequeue_ok [OF pool_okD(1) [OF ok] v] by blast
  let ?a = "a\<lparr>s_rcv_queue := Some q, pbuff := x, server_at := S_Recvfrom\<rparr>"
  have "server_step r (a, k) = Some (?a, k)" using q(1) at by (simp add: server_step_def)
  moreover have "pool_ok base ?a"
  proof -
    have "view ?a = xs" using q(2) by (simp add: view_def)
    then have "mset (view ?a) + mset (server_holds ?a) + mset (player_holds ?a) = mset (bufs ?a)"
      using pool_okD(3) [OF ok] v at by (auto simp: server_holds_def player_holds_def bufs_def buf_at_def)
    moreover have "queue_room base ?a" using q(3) by (simp add: queue_room_def)
    ultimately show ?thesis
      using ok bufs_cong [of ?a a] by (simp add: pool_ok_def blocks_good_def data_blocks_def lengths_good_def)
  qed
  ultimately show ?thesis using v q(2) by blast
qed

lemma server_enqueue:
  assumes ok: "pool_ok base a" and at: "server_at a = S_Enqueue"
  shows "\<exists>q. queue_view q = view a @ [pbuff a] \<and>
    server_step r (a, k) = Some (a\<lparr>s_rcv_queue := Some q, server_at := S_Dequeue\<rparr>, k) \<and>
    pool_ok base (a\<lparr>s_rcv_queue := Some q, server_at := S_Dequeue\<rparr>)"
proof -
  have "length (view a) < 3" using pool_counts [OF ok] at by (simp add: server_holds_def)
  then obtain q where q: "rcv_queue_enqueue (pbuff a) a = Some (a\<lparr>s_rcv_queue := Some q\<rparr>)"
    "queue_view q = view a @ [pbuff a]" "queue_room base (a\<lparr>s_rcv_queue := Some q\<rparr>)"
    using enqueue_ok [OF pool_okD(1) [OF ok]] by blast
  let ?a = "a\<lparr>s_rcv_queue := Some q, server_at := S_Dequeue\<rparr>"
  have "server_step r (a, k) = Some (?a, k)" using q(1) at by (simp add: server_step_def)
  moreover have "pool_ok base ?a"
  proof -
    have "view ?a = view a @ [pbuff a]" using q(2) by (simp add: view_def)
    then have "mset (view ?a) + mset (server_holds ?a) + mset (player_holds ?a) = mset (bufs ?a)"
      using pool_okD(3) [OF ok] at by (auto simp: server_holds_def player_holds_def bufs_def buf_at_def)
    moreover have "queue_room base ?a" using q(3) by (simp add: queue_room_def)
    ultimately show ?thesis
      using ok bufs_cong [of ?a a] by (simp add: pool_ok_def blocks_good_def data_blocks_def lengths_good_def)
  qed
  ultimately show ?thesis using q(2) by blast
qed

lemma server_buffer:
  assumes ok: "pool_ok base a" and at: "server_at a \<noteq> S_Dequeue"
  obtains i where "i < 3" "pbuff a = buf_at a i" "buf_of a (pbuff a) = Some i"
proof -
  have "pbuff a \<in> set (bufs a)" using pool_sets(1) [OF ok] at by (auto simp: server_holds_def)
  then show ?thesis using bufsE pool_okD(2) [OF ok] that by blast
qed

lemma buf_at_inj: "buf_at a i = buf_at a j \<longleftrightarrow> i = j"
  by (simp add: buf_at_def)

lemma server_recvfrom:
  assumes ok: "pool_ok base a" and at: "server_at a = S_Recvfrom"
  shows "\<exists>i a'. buf_of a (pbuff a) = Some i \<and> server_step r (a, k) = Some (a', k) \<and> pool_ok base a' \<and>
    a' = (upd_buf i (\<lambda>b. b\<lparr>rlen := (case r of None \<Rightarrow> - 1 | Some bs \<Rightarrow> int (length (take 2048 bs)))\<rparr>)
      (a\<lparr>aheap := (aheap a)\<lparr>hbytes := (case r of None \<Rightarrow> hbytes (aheap a)
         | Some bs \<Rightarrow> mem_put (hbytes (aheap a)) (rdata (s_rcv_buffer a i)) (take 2048 bs))\<rparr>\<rparr>))\<lparr>server_at := S_Parse\<rparr>"
proof -
  obtain i where i: "i < 3" "pbuff a = buf_at a i" "buf_of a (pbuff a) = Some i"
    using server_buffer [OF ok] at by auto
  obtain s where s: "2048 \<le> s" "base (rdata (s_rcv_buffer a i)) = Some s"
    using data_block [OF pool_okD(4) [OF ok] i(1)] .
  define a' where "a' = (upd_buf i (\<lambda>b. b\<lparr>rlen := (case r of None \<Rightarrow> - 1 | Some bs \<Rightarrow> int (length (take 2048 bs)))\<rparr>)
      (a\<lparr>aheap := (aheap a)\<lparr>hbytes := (case r of None \<Rightarrow> hbytes (aheap a)
         | Some bs \<Rightarrow> mem_put (hbytes (aheap a)) (rdata (s_rcv_buffer a i)) (take 2048 bs))\<rparr>\<rparr>))\<lparr>server_at := S_Parse\<rparr>"
  have "write_bytes (rdata (s_rcv_buffer a i)) (take 2048 bs) a =
    Some (a\<lparr>aheap := (aheap a)\<lparr>hbytes := mem_put (hbytes (aheap a)) (rdata (s_rcv_buffer a i)) (take 2048 bs)\<rparr>\<rparr>)" for bs
    using write_ok [OF pool_okD(1) [OF ok] s(2), of "take 2048 bs"] s(1) by simp
  then have "server_step r (a, k) = Some (a', k)"
    using at i(3) by (cases r) (simp_all add: server_step_def a'_def RCV_BUFFER_SIZE_def)
  moreover have "queue_room base (a\<lparr>aheap := (aheap a)\<lparr>hbytes := f\<rparr>\<rparr>)" for f
    using write_ok [OF pool_okD(1) [OF ok] s(2), of "[]"] s(1) by simp
  then have "queue_room base a'" by (simp add: a'_def queue_room_def)
  then have "pool_ok base a'"
  proof (rule pool_same [OF ok, rotated])
    show "lengths_good a'" using pool_okD(5) [OF ok]
      by (auto simp: a'_def lengths_good_def split: option.splits)
    show "rlen (s_rcv_buffer a' j) = rlen (s_rcv_buffer a j)" if "buf_at a j \<notin> set (server_holds a)" for j
      using that i(2) at by (auto simp: a'_def server_holds_def)
  qed (auto simp: a'_def server_holds_def player_holds_def at)
  ultimately show ?thesis using i(3) a'_def by blast
qed

lemma server_parse:
  assumes ok: "pool_ok base a" and at: "server_at a = S_Parse"
  shows "\<exists>i ret line loc. buf_of a (pbuff a) = Some i \<and>
    parse_AT (aheap a) (rdata (s_rcv_buffer a i)) 2048 (is_line_established a) = Some (ret, line) \<and>
    server_step r (a, k) = Some ((upd_buf i (\<lambda>b. if ret \<noteq> 0 then b\<lparr>rlen := 0\<rparr> else b) (a\<lparr>is_line_established := line\<rparr>))\<lparr>server_at := loc\<rparr>, k) \<and>
    loc = (if ret \<noteq> 0 \<and> line \<noteq> 0 then S_Post_Async else S_Enqueue) \<and>
    pool_ok base ((upd_buf i (\<lambda>b. if ret \<noteq> 0 then b\<lparr>rlen := 0\<rparr> else b) (a\<lparr>is_line_established := line\<rparr>))\<lparr>server_at := loc\<rparr>)"
proof -
  obtain i where i: "i < 3" "pbuff a = buf_at a i" "buf_of a (pbuff a) = Some i"
    using server_buffer [OF ok] at by auto
  obtain s where s: "2048 \<le> s" "base (rdata (s_rcv_buffer a i)) = Some s"
    using data_block [OF pool_okD(4) [OF ok] i(1)] .
  obtain ret line where p: "parse_AT (aheap a) (rdata (s_rcv_buffer a i)) 2048 (is_line_established a) = Some (ret, line)"
    using parse_ok [OF pool_okD(1) [OF ok] s(2,1)] by blast
  define loc where "loc = (if ret \<noteq> 0 \<and> line \<noteq> 0 then S_Post_Async else S_Enqueue)"
  define a' where "a' = (upd_buf i (\<lambda>b. if ret \<noteq> 0 then b\<lparr>rlen := 0\<rparr> else b) (a\<lparr>is_line_established := line\<rparr>))\<lparr>server_at := loc\<rparr>"
  have same: "upd_buf i (\<lambda>b. b) b = b" for b by (simp add: upd_buf_def)
  have "server_step r (a, k) = Some (a', k)"
    using at i(3) p same by (simp add: server_step_def a'_def loc_def RCV_BUFFER_SIZE_def Let_def)
  moreover have "queue_room base a'" using pool_okD(1) [OF ok] by (simp add: a'_def queue_room_def)
  then have "pool_ok base a'"
  proof (rule pool_same [OF ok, rotated])
    show "lengths_good a'" using pool_okD(5) [OF ok] by (auto simp: a'_def lengths_good_def)
    show "rlen (s_rcv_buffer a' j) = rlen (s_rcv_buffer a j)" if "buf_at a j \<notin> set (server_holds a)" for j
      using that i(2) at by (auto simp: a'_def server_holds_def)
  qed (auto simp: a'_def server_holds_def player_holds_def at loc_def)
  ultimately show ?thesis using i(3) p unfolding a'_def loc_def by blast
qed

lemma server_post:
  assumes ok: "pool_ok base a" and at: "server_at a = S_Post_Async \<or> server_at a = S_Post_Play"
    and k: "reachable k" "sems_ok a"
  shows "\<exists>loc k'. server_step r (a, k) = Some (a\<lparr>server_at := loc\<rparr>, k') \<and> reachable k' \<and>
    loc \<in> {S_Post_Play, S_Enqueue} \<and> pool_ok base (a\<lparr>server_at := loc\<rparr>)"
proof -
  have ok': "pool_ok base (a\<lparr>server_at := loc\<rparr>)" if "loc \<in> {S_Post_Play, S_Enqueue}" for loc
  proof (rule pool_same [OF ok])
    show "queue_room base (a\<lparr>server_at := loc\<rparr>)" using pool_okD(1) [OF ok] by (simp add: queue_room_def)
    show "lengths_good (a\<lparr>server_at := loc\<rparr>)" using pool_okD(5) [OF ok] by (simp add: lengths_good_def)
  qed (use at that in \<open>auto simp: server_holds_def player_holds_def\<close>)
  from at show ?thesis
  proof
    assume l: "server_at a = S_Post_Async"
    obtain err k' where "OSSemPost (sem_vs1053async a) k = Some (err, k')" "reachable k'"
      using post_reachable [OF k(1)] k(2) unfolding sems_ok_def by blast
    then have "server_step r (a, k) = Some (a\<lparr>server_at := S_Post_Play\<rparr>, k')" "reachable k'"
      using l by (simp_all add: server_step_def)
    then show ?thesis using ok' by blast
  next
    assume l: "server_at a = S_Post_Play"
    obtain err k' where "OSSemPost (sem_vs1053_play_async a) k = Some (err, k')" "reachable k'"
      using post_reachable [OF k(1)] k(2) unfolding sems_ok_def by blast
    then have "server_step r (a, k) = Some (a\<lparr>server_at := S_Enqueue\<rparr>, k')" "reachable k'"
      using l by (simp_all add: server_step_def)
    then show ?thesis using ok' by blast
  qed
qed

section \<open>The steps of the player\<close>

lemma player_dequeue:
  assumes ok: "pool_ok base a" and at: "play_at a = P_Dequeue"
  shows "\<exists>q x xs i a'. view a = x # xs \<and> queue_view q = xs \<and> buf_of a x = Some i \<and> play_step ok a = Some (None, a') \<and>
    pool_ok base a' \<and>
    a' = upd_buf i (\<lambda>b. b\<lparr>rlen := 0\<rparr>)
      (a\<lparr>s_rcv_queue := Some q, prcv_buff := x, play_len := rlen (s_rcv_buffer a i), play_at := P_Enqueue\<rparr>)"
proof -
  obtain x xs where v: "view a = x # xs" using view_nonempty [OF ok] at by auto
  obtain q where q: "rcv_queue_dequeue a = Some (x, a\<lparr>s_rcv_queue := Some q\<rparr>)" "queue_view q = xs"
    "queue_room base (a\<lparr>s_rcv_queue := Some q\<rparr>)"
    using dequeue_ok [OF pool_okD(1) [OF ok] v] by blast
  have "x \<in> set (bufs a)" using pool_sets(1) [OF ok] v by auto
  then obtain i where i: "i < 3" "x = buf_at a i" "buf_of a x = Some i"
    using bufsE pool_okD(2) [OF ok] by metis
  define a' where "a' = upd_buf i (\<lambda>b. b\<lparr>rlen := 0\<rparr>)
      (a\<lparr>s_rcv_queue := Some q, prcv_buff := x, play_len := rlen (s_rcv_buffer a i), play_at := P_Enqueue\<rparr>)"
  have b: "buf_of (a\<lparr>s_rcv_queue := Some q\<rparr>) = buf_of a" "bufs a' = bufs a" "buf_of a' = buf_of a"
    using bufs_cong [of "a\<lparr>s_rcv_queue := Some q\<rparr>" a] bufs_cong [of a' a] by (simp_all add: a'_def)
  have "play_step ok a = Some (None, a')" using q(1) at i(3) b(1) by (simp add: play_step_def a'_def Let_def)
  moreover have "pool_ok base a'"
  proof -
    have "view a' = xs" using q(2) by (simp add: view_def a'_def)
    then have m: "mset (view a') + mset (server_holds a') + mset (player_holds a') = mset (bufs a')"
      using pool_okD(3) [OF ok] v at b by (auto simp: server_holds_def player_holds_def a'_def)
    have "queue_room base a'" using q(3) by (simp add: queue_room_def a'_def)
    moreover have "lengths_good a'" using pool_okD(5) [OF ok] i(1) by (auto simp: lengths_good_def a'_def)
    moreover have "blocks_good base a' = blocks_good base a" by (rule blocks_cong) (simp_all add: a'_def)
    ultimately show ?thesis
      using m ok i(3) b unfolding pool_ok_def by (simp add: a'_def)
  qed
  ultimately show ?thesis using v q(2) i(3) a'_def by blast
qed

lemma player_enqueue:
  assumes ok: "pool_ok base a" and at: "play_at a = P_Enqueue"
  shows "\<exists>q loc. queue_view q = view a @ [prcv_buff a] \<and> loc = (if 0 < play_len a then P_Copy else P_Line) \<and>
    play_step ok a = Some (None, a\<lparr>s_rcv_queue := Some q, play_at := loc\<rparr>) \<and>
    pool_ok base (a\<lparr>s_rcv_queue := Some q, play_at := loc\<rparr>)"
proof -
  have "length (view a) < 3" using pool_counts [OF ok] at by (simp add: player_holds_def)
  then obtain q where q: "rcv_queue_enqueue (prcv_buff a) a = Some (a\<lparr>s_rcv_queue := Some q\<rparr>)"
    "queue_view q = view a @ [prcv_buff a]" "queue_room base (a\<lparr>s_rcv_queue := Some q\<rparr>)"
    using enqueue_ok [OF pool_okD(1) [OF ok]] by blast
  have p: "prcv_buff a \<in> set (bufs a)" using pool_sets(1) [OF ok] at by (auto simp: player_holds_def)
  then have nz: "prcv_buff a \<noteq> 0" using pool_okD(2) [OF ok] by (auto simp: bufs_def buf_at_def)
  define a' where "a' = a\<lparr>s_rcv_queue := Some q, play_at := (if 0 < play_len a then P_Copy else P_Line)\<rparr>"
  have "play_step ok a = Some (None, a')" using q(1) at nz by (simp add: play_step_def a'_def)
  moreover have "pool_ok base a'"
  proof -
    have b: "bufs a' = bufs a" using bufs_cong [of a' a] by (simp add: a'_def)
    have "view a' = view a @ [prcv_buff a]" using q(2) by (simp add: view_def a'_def)
    then have m: "mset (view a') + mset (server_holds a') + mset (player_holds a') = mset (bufs a')"
      using pool_okD(3) [OF ok] at b by (auto simp: server_holds_def player_holds_def a'_def)
    have "queue_room base a'" using q(3) by (simp add: queue_room_def a'_def)
    moreover have "lengths_good a'" using pool_okD(5) [OF ok] by (simp add: lengths_good_def a'_def)
    moreover have "blocks_good base a' = blocks_good base a" by (rule blocks_cong) (simp_all add: a'_def)
    ultimately show ?thesis
      using m ok p unfolding pool_ok_def by (auto simp: a'_def bufs_def buf_at_def)
  qed
  ultimately show ?thesis using q(2) unfolding a'_def by blast
qed

lemma player_copy:
  assumes ok: "pool_ok base a" and at: "play_at a = P_Copy"
  shows "\<exists>i d bs skip. buf_of a (prcv_buff a) = Some i \<and> d = rdata (s_rcv_buffer a i) \<and>
    bs = map (hbytes (aheap a)) [d..<d + nat (play_len a)] \<and> skips_header (aheap a) d = Some skip \<and>
    (if skip then play_step ok a = Some (None, a\<lparr>play_len := 0, play_at := P_Dequeue\<rparr>) \<and>
       pool_ok base (a\<lparr>play_len := 0, play_at := P_Dequeue\<rparr>)
     else play_step ok a = Some (Some bs, a\<lparr>aheap := (aheap a)\<lparr>hbytes := mem_put (hbytes (aheap a)) (play_pbuff a) bs\<rparr>, play_at := P_Line\<rparr>) \<and>
       pool_ok base (a\<lparr>aheap := (aheap a)\<lparr>hbytes := mem_put (hbytes (aheap a)) (play_pbuff a) bs\<rparr>, play_at := P_Line\<rparr>))"
proof -
  have "prcv_buff a \<in> set (bufs a)" "0 < play_len a" using ok at by (simp_all add: pool_ok_def)
  then obtain i where i: "i < 3" "buf_of a (prcv_buff a) = Some i" and pos: "0 < play_len a"
    using bufsE pool_okD(2) [OF ok] by metis
  define d where "d = rdata (s_rcv_buffer a i)"
  obtain s where s: "2048 \<le> s" "base d = Some s"
    using data_block [OF pool_okD(4) [OF ok] i(1)] by (auto simp: d_def)
  obtain t where t: "2048 \<le> t" "base (play_pbuff a) = Some t"
    using play_block [OF pool_okD(4) [OF ok]] .
  have n: "nat (play_len a) \<le> 2048" using pool_okD(5) [OF ok] by (simp add: lengths_good_def nat_le_iff)
  define bs where "bs = map (hbytes (aheap a)) [d..<d + nat (play_len a)]"
  have r3: "read_bytes (aheap a) d 3 = Some (map (hbytes (aheap a)) [d..<d + 3])"
    using read_ok [OF pool_okD(1) [OF ok] s(2), of 3] s(1) by simp
  then obtain skip where sk: "skips_header (aheap a) d = Some skip" by (simp add: skips_header_def)
  have rn: "read_bytes (aheap a) d (nat (play_len a)) = Some bs"
    using read_ok [OF pool_okD(1) [OF ok] s(2), of "nat (play_len a)"] s(1) n by (simp add: bs_def)
  have "length bs \<le> t" using n t(1) by (simp add: bs_def)
  note w = write_ok [OF pool_okD(1) [OF ok] t(2) this]
  have room: "queue_room base (a\<lparr>aheap := (aheap a)\<lparr>hbytes := f\<rparr>, play_at := P_Line\<rparr>)" for f
    using w [of f] by (simp add: queue_room_def)
  show ?thesis
  proof (cases skip)
    case True
    have "pool_ok base (a\<lparr>play_len := 0, play_at := P_Dequeue\<rparr>)"
    proof (rule pool_same [OF ok])
      show "queue_room base (a\<lparr>play_len := 0, play_at := P_Dequeue\<rparr>)" using pool_okD(1) [OF ok] by (simp add: queue_room_def)
      show "lengths_good (a\<lparr>play_len := 0, play_at := P_Dequeue\<rparr>)" using pool_okD(5) [OF ok] by (simp add: lengths_good_def)
    qed (use at in \<open>auto simp: server_holds_def player_holds_def\<close>)
    moreover have "play_step ok a = Some (None, a\<lparr>play_len := 0, play_at := P_Dequeue\<rparr>)"
      using i(2) sk True at by (simp add: play_step_def d_def Let_def)
    ultimately have "play_step ok a = Some (None, a\<lparr>play_len := 0, play_at := P_Dequeue\<rparr>) \<and>
       pool_ok base (a\<lparr>play_len := 0, play_at := P_Dequeue\<rparr>)" by blast
    with True show ?thesis by (auto simp: i(2) sk d_def [symmetric])
  next
    case False
    let ?a = "a\<lparr>aheap := (aheap a)\<lparr>hbytes := mem_put (hbytes (aheap a)) (play_pbuff a) bs\<rparr>, play_at := P_Line\<rparr>"
    have "pool_ok base ?a"
    proof (rule pool_same [OF ok _ room])
      show "lengths_good ?a" using pool_okD(5) [OF ok] by (simp add: lengths_good_def)
    qed (use at in \<open>auto simp: server_holds_def player_holds_def\<close>)
    moreover have "play_step ok a = Some (Some bs, ?a)"
      using w i(2) sk False at rn by (simp add: play_step_def d_def Let_def)
    ultimately have "play_step ok a = Some (Some bs, ?a) \<and> pool_ok base ?a" by blast
    with False show ?thesis by (auto simp: i(2) sk d_def [symmetric] bs_def [symmetric])
  qed
qed

lemma player_idle:
  assumes ok: "pool_ok base a" and at: "play_at a = P_Pend \<or> play_at a = P_Line"
  shows "\<exists>loc. play_step ok a = Some (None, a\<lparr>play_at := loc\<rparr>) \<and> loc \<in> {P_Pend, P_Dequeue} \<and> pool_ok base (a\<lparr>play_at := loc\<rparr>)"
proof -
  define loc where "loc = (if play_at a = P_Pend then (if ok then P_Dequeue else P_Pend)
    else if is_line_established a = 0 then P_Pend else P_Dequeue)"
  have "a\<lparr>play_at := P_Pend\<rparr> = a" if "play_at a = P_Pend" using that by (cases a) simp
  then have "play_step ok a = Some (None, a\<lparr>play_at := loc\<rparr>)"
    using at by (auto simp: play_step_def loc_def)
  moreover have "pool_ok base (a\<lparr>play_at := loc\<rparr>)"
  proof (rule pool_same [OF ok])
    show "queue_room base (a\<lparr>play_at := loc\<rparr>)" using pool_okD(1) [OF ok] by (simp add: queue_room_def)
    show "lengths_good (a\<lparr>play_at := loc\<rparr>)" using pool_okD(5) [OF ok] by (simp add: lengths_good_def)
  qed (use at in \<open>auto simp: server_holds_def player_holds_def loc_def split: if_splits\<close>)
  moreover have "loc \<in> {P_Pend, P_Dequeue}" by (simp add: loc_def)
  ultimately show ?thesis by blast
qed

section \<open>The pool in the reachable states\<close>

text \<open>The semaphores and the array stay what they are.\<close>

lemma server_returns:
  assumes "pool_ok base a" "reachable k" "sems_ok a"
  shows "\<exists>a' k'. server_step r (a, k) = Some (a', k') \<and> pool_ok base a' \<and> reachable k' \<and> sems_ok a'"
proof (cases "server_at a")
  case S_Dequeue
  then show ?thesis using server_dequeue [OF assms(1)] assms(2,3) by (fastforce simp: sems_ok_def)
next
  case S_Recvfrom
  then show ?thesis using server_recvfrom [OF assms(1)] assms(2,3) by (fastforce simp: sems_ok_def)
next
  case S_Parse
  then show ?thesis using server_parse [OF assms(1)] assms(2,3) by (fastforce simp: sems_ok_def)
next
  case S_Enqueue
  then show ?thesis using server_enqueue [OF assms(1)] assms(2,3) by (fastforce simp: sems_ok_def)
qed (use server_post [OF assms(1) _ assms(2,3)] assms(3) in \<open>fastforce simp: sems_ok_def\<close>)+

lemma play_returns:
  assumes "pool_ok base a" "sems_ok a"
  shows "\<exists>out a'. play_step ok a = Some (out, a') \<and> pool_ok base a' \<and> sems_ok a'"
proof (cases "play_at a")
  case P_Dequeue
  then show ?thesis using player_dequeue [OF assms(1)] assms(2) by (fastforce simp: sems_ok_def)
next
  case P_Enqueue
  then show ?thesis using player_enqueue [OF assms(1)] assms(2) by (fastforce simp: sems_ok_def)
next
  case P_Copy
  then show ?thesis using player_copy [OF assms(1)] assms(2) by (fastforce simp: sems_ok_def split: if_splits)
qed (use player_idle [OF assms(1)] assms(2) in \<open>fastforce simp: sems_ok_def\<close>)+

end
