(* ===== verification/App_Thms.thy ===== *)
theory App_Thms
  imports App_Pool Kernel_Thms "HOL-Library.Sublist"
begin

text \<open>
  The properties of the server and the player on their shared buffers.
\<close>

section \<open>The start\<close>

lemma three: "unat RCV_BUFFER_NUM = Suc (Suc (Suc 0))"
  by (simp add: RCV_BUFFER_NUM_def)

lemma fresh_buffer: "(b :: rev_buffer_t)\<lparr>rdata := p, rlen := n\<rparr> = \<lparr>rdata = p, rlen = n\<rparr>"
  by (cases b) simp

lemma queue_new_capacity:
  "queue_new lib_ops old h = Some (st, h', Some q) \<Longrightarrow> capacity (qd q) = 8"
  using upper_pow_two_pow [of 8 3]
  by (auto simp: queue_new_def queue_new_conf_def queue_conf_init_def deque_conf_init_def deque_new_conf_def
      DEFAULT_CAPACITY_def bind_eq_Some_conv split: if_splits)

text \<open>One turn of the loop that was granted its block.\<close>

lemma init_turn:
  assumes room: "queue_room base a" "length (view a) < 3" and run: "rev_buffer_loop i (Suc n) a = Some a'"
    and granted: "rdata (s_rcv_buffer a' i) \<noteq> 0" and j: "j = i + 1"
  shows "\<exists>p h q s a1. 2048 \<le> s \<and> p \<notin> dom base \<and> queue_room (base(p \<mapsto> s)) a1 \<and> view a1 = view a @ [buf_at a i] \<and>
    a1 = a\<lparr>aheap := h, s_rcv_queue := Some q, s_rcv_buffer := (s_rcv_buffer a)(i := \<lparr>rdata = p, rlen = 0\<rparr>)\<rparr> \<and>
    rev_buffer_loop j n a1 = Some a'"
proof -
  obtain q0 where q0: "s_rcv_queue a = Some q0" "heap_queue base (aheap a, q0)" "2 < unat (capacity (qd q0))"
    using room(1) by (auto simp: queue_room_def)
  obtain p h where m: "pvPortMalloc (aheap a) RCV_BUFFER_SIZE = Some (p, h)"
    using run by (auto simp: bind_eq_Some_conv)
  define a0 where "a0 = upd_buf i (\<lambda>b. b\<lparr>rdata := p\<rparr>) (a\<lparr>aheap := h\<rparr>)"
  have p: "p \<noteq> 0"
  proof
    assume "p = 0"
    then have "a' = a0" using run m by (simp add: a0_def Let_def)
    then show False using granted \<open>p = 0\<close> by (simp add: a0_def)
  qed
  obtain s where s: "2048 \<le> s" "heap_queue (base(p \<mapsto> s)) (h, q0)" "p \<notin> dom base"
    using queue_alloc [OF q0(2) m p] by (auto simp: RCV_BUFFER_SIZE_def)
  have r0: "queue_room (base(p \<mapsto> s)) a0" "view a0 = view a"
    using q0 s(2) by (simp_all add: queue_room_def view_def a0_def)
  then obtain q where q: "rcv_queue_enqueue (buf_at a0 i) a0 = Some (a0\<lparr>s_rcv_queue := Some q\<rparr>)"
    "queue_view q = view a0 @ [buf_at a0 i]" "queue_room (base(p \<mapsto> s)) (a0\<lparr>s_rcv_queue := Some q\<rparr>)"
    using enqueue_ok [OF r0(1)] room(2) by metis
  define a1 where "a1 = upd_buf i (\<lambda>b. b\<lparr>rlen := 0\<rparr>) (a0\<lparr>s_rcv_queue := Some q\<rparr>)"
  have at: "buf_at a0 i = buf_at a i" by (simp add: buf_at_def a0_def)
  have "rev_buffer_loop j n a1 = Some a'"
    using run m p q(1) j by (simp add: Let_def a0_def [symmetric] a1_def)
  moreover have "queue_room (base(p \<mapsto> s)) a1" using q(3) by (simp add: queue_room_def a1_def)
  moreover have "view a1 = view a @ [buf_at a i]" using q(2) r0(2) at by (simp add: view_def a1_def)
  moreover have "a1 = a\<lparr>aheap := h, s_rcv_queue := Some q, s_rcv_buffer := (s_rcv_buffer a)(i := \<lparr>rdata = p, rlen = 0\<rparr>)\<rparr>"
    by (simp add: a1_def a0_def upd_buf_def fresh_buffer)
  ultimately show ?thesis using s(1,3) by blast
qed

declare rev_buffer_loop.simps(2) [simp del]

lemma started_pool:
  assumes "app_started (a, k)"
  shows "reachable k \<and> sems_ok a \<and> (\<exists>base. pool_ok base a) \<and> (\<forall>i < 3. rlen (s_rcv_buffer a i) = 0)"
proof -
  obtain old a0 a1 base where st: "reachable k" "sems_ok a" "s_rcv_at a \<noteq> 0" "server_at a = S_Dequeue" "play_at a = P_Pend"
    and live: "heap_live (aheap a0) base" and init: "rev_buffer_init old a0 = Some a1" "play_init a1 = Some a"
    and got: "\<forall>i < 3. rdata (s_rcv_buffer a i) \<noteq> 0" "play_pbuff a \<noteq> 0" and none: "s_rcv_queue a0 = None"
    using assms by (auto simp: app_started_def sems_ok_def)
  obtain p4 h4 where m4: "pvPortMalloc (aheap a1) RCV_BUFFER_SIZE = Some (p4, h4)"
    and a: "a = a1\<lparr>aheap := h4, play_pbuff := p4, prcv_buff := 0, play_len := 0, play_at := P_Pend\<rparr>"
    using init(2) by (auto simp: play_init_def bind_eq_Some_conv)
  have got1: "rdata (s_rcv_buffer a1 0) \<noteq> 0" "rdata (s_rcv_buffer a1 1) \<noteq> 0" "rdata (s_rcv_buffer a1 2) \<noteq> 0" "p4 \<noteq> 0"
    using got by (auto simp: a)
  obtain stt h r where new: "queue_new lib_ops old (aheap a0) = Some (stt, h, r)"
    and loop: "rev_buffer_loop 0 (Suc (Suc (Suc 0)))
       (a0\<lparr>aheap := h, s_rcv_queue := (case r of None \<Rightarrow> s_rcv_queue a0 | Some q \<Rightarrow> Some q)\<rparr>) = Some a1"
    using init(1) unfolding rev_buffer_init_def three by (auto simp: bind_eq_Some_conv simp del: rev_buffer_loop.simps)
  obtain q where q: "r = Some q"
    using loop none got1(1) by (cases r) (auto simp: rev_buffer_loop.simps(2) rcv_queue_enqueue_def bind_eq_Some_conv Let_def split: if_splits)
  have "stt = CC_OK" using new q
    by (auto simp: queue_new_def queue_new_conf_def bind_eq_Some_conv split: if_splits)
  then have n: "queue_view q = []" "heap_queue base (h, q)" "capacity (qd q) = 8"
    using callocator.queue_new_ok [OF lib_mem.callocator_axioms live] new q queue_new_capacity
    by (auto simp: lib_ops_def)
  define b0 where "b0 = a0\<lparr>aheap := h, s_rcv_queue := Some q\<rparr>"
  have b0: "queue_room base b0" "view b0 = []" "rev_buffer_loop 0 (Suc (Suc (Suc 0))) b0 = Some a1"
    using n loop q by (simp_all add: queue_room_def view_def b0_def)
  have e: "(1::nat) = 0 + 1" "(2::nat) = 1 + 1" "(3::nat) = 2 + 1" by simp_all
  have l0: "length (view b0) < 3" using b0(2) by simp
  obtain p1 h1 q1 s1 b1 where t1: "2048 \<le> s1" "p1 \<notin> dom base" "queue_room (base(p1 \<mapsto> s1)) b1" "view b1 = [buf_at b0 0]"
    "b1 = b0\<lparr>aheap := h1, s_rcv_queue := Some q1, s_rcv_buffer := (s_rcv_buffer b0)(0 := \<lparr>rdata = p1, rlen = 0\<rparr>)\<rparr>"
    "rev_buffer_loop 1 (Suc (Suc 0)) b1 = Some a1"
    using init_turn [OF b0(1) l0 b0(3) got1(1) e(1)] unfolding b0(2) append_Nil by blast
  have l1: "length (view b1) < 3" "buf_at b1 1 = buf_at b0 1" using t1(4,5) by (simp_all add: buf_at_def)
  obtain p2 h2 q2 s2 b2 where t2: "2048 \<le> s2" "p2 \<notin> dom (base(p1 \<mapsto> s1))" "queue_room (base(p1 \<mapsto> s1, p2 \<mapsto> s2)) b2"
    "view b2 = [buf_at b0 0, buf_at b0 1]"
    "b2 = b1\<lparr>aheap := h2, s_rcv_queue := Some q2, s_rcv_buffer := (s_rcv_buffer b1)(1 := \<lparr>rdata = p2, rlen = 0\<rparr>)\<rparr>"
    "rev_buffer_loop 2 (Suc 0) b2 = Some a1"
    using init_turn [OF t1(3) l1(1) t1(6) got1(2) e(2)] unfolding t1(4) l1(2) append_Cons append_Nil by blast
  have l2: "length (view b2) < 3" "buf_at b2 2 = buf_at b0 2" using t2(4,5) t1(5) by (simp_all add: buf_at_def)
  obtain p3 h3 q3 s3 b3 where t3: "2048 \<le> s3" "p3 \<notin> dom (base(p1 \<mapsto> s1, p2 \<mapsto> s2))"
    "queue_room (base(p1 \<mapsto> s1, p2 \<mapsto> s2, p3 \<mapsto> s3)) b3" "view b3 = [buf_at b0 0, buf_at b0 1, buf_at b0 2]"
    "b3 = b2\<lparr>aheap := h3, s_rcv_queue := Some q3, s_rcv_buffer := (s_rcv_buffer b2)(2 := \<lparr>rdata = p3, rlen = 0\<rparr>)\<rparr>"
    "b3 = a1"
    using init_turn [OF t2(3) l2(1) t2(6) got1(3) e(3)] unfolding t2(4) l2(2) append_Cons append_Nil
      rev_buffer_loop.simps(1) option.inject by blast
  obtain q4 where q4: "s_rcv_queue a1 = Some q4" "heap_queue (base(p1 \<mapsto> s1, p2 \<mapsto> s2, p3 \<mapsto> s3)) (aheap a1, q4)"
    "2 < unat (capacity (qd q4))"
    using t3(3,6) by (auto simp: queue_room_def)
  obtain s4 where s4: "2048 \<le> s4" "heap_queue (base(p1 \<mapsto> s1, p2 \<mapsto> s2, p3 \<mapsto> s3, p4 \<mapsto> s4)) (h4, q4)"
    "p4 \<notin> dom (base(p1 \<mapsto> s1, p2 \<mapsto> s2, p3 \<mapsto> s3))"
    using queue_alloc [OF q4(2) m4 got1(4)] by (auto simp: RCV_BUFFER_SIZE_def)
  have d: "data_blocks a = [p1, p2, p3, p4]" and l: "i < 3 \<Longrightarrow> rlen (s_rcv_buffer a i) = 0" for i
    using t1(5) t2(5) t3(5,6) by (auto simp: a data_blocks_def less_3)
  have at: "s_rcv_at a = s_rcv_at b0" using t1(5) t2(5) t3(5,6) by (simp add: a)
  have "pool_ok (base(p1 \<mapsto> s1, p2 \<mapsto> s2, p3 \<mapsto> s3, p4 \<mapsto> s4)) a"
    unfolding pool_ok_def
  proof (intro conjI impI)
    show "queue_room (base(p1 \<mapsto> s1, p2 \<mapsto> s2, p3 \<mapsto> s3, p4 \<mapsto> s4)) a"
      using q4(1,3) s4(2) by (simp add: queue_room_def a)
    have "view a = [buf_at b0 0, buf_at b0 1, buf_at b0 2]" using t3(4,6) by (simp add: view_def a)
    then show "mset (view a) + mset (server_holds a) + mset (player_holds a) = mset (bufs a)"
      using at st(4,5) by (simp add: server_holds_def player_holds_def bufs_def buf_at_def)
    show "blocks_good (base(p1 \<mapsto> s1, p2 \<mapsto> s2, p3 \<mapsto> s3, p4 \<mapsto> s4)) a"
      using t1(1,2) t2(1,2) t3(1,2) s4(1,3) by (auto simp: blocks_good_def d)
    show "lengths_good a" using l by (auto simp: lengths_good_def a)
  qed (use st(3,5) in simp_all)
  then show ?thesis using st(1,2) l by blast
qed

section \<open>Every reachable state\<close>

lemma app_reachable_pool:
  "app_reachable s \<Longrightarrow> reachable (snd s) \<and> sems_ok (fst s) \<and> (\<exists>base. pool_ok base (fst s))"
proof (induction rule: app_reachable.induct)
  case (start s)
  then show ?case using started_pool [of "fst s" "snd s"] by simp
next
  case (step s s')
  then obtain base where s: "reachable (snd s)" "sems_ok (fst s)" "pool_ok base (fst s)" by blast
  from step(2) show ?case
  proof (cases rule: app_step.cases)
    case (server r a k a' k')
    then show ?thesis using server_returns [OF s(3,1,2), of r] s by auto
  next
    case (player ok a out a' k)
    then show ?thesis using play_returns [OF s(3,2), of ok] s by auto
  next
    case (kernel k k' a)
    then show ?thesis using s by (auto intro: reachable.step)
  qed
qed

section \<open>A start\<close>

lemma loop_serves:
  assumes "queue_room base a" "length (view a) + n \<le> 3" "heap_inv (aheap a) [(x, s)] al" "2056 * n + 16 < s"
  shows "\<exists>h q b al'. rev_buffer_loop i n a = Some (a\<lparr>aheap := h, s_rcv_queue := Some q, s_rcv_buffer := b\<rparr>) \<and>
    (\<forall>j. i \<le> j \<longrightarrow> j < i + n \<longrightarrow> rdata (b j) \<noteq> 0) \<and> (\<forall>j < i. b j = s_rcv_buffer a j) \<and>
    heap_inv h [(x + 2056 * n, s - 2056 * n)] al'"
  using assms
proof (induction n arbitrary: base a x s al i)
  case 0
  obtain q where q: "s_rcv_queue a = Some q" using 0(1) by (auto simp: queue_room_def)
  have "a\<lparr>aheap := aheap a, s_rcv_queue := Some q, s_rcv_buffer := s_rcv_buffer a\<rparr> = a" using q by (cases a) simp
  then have "rev_buffer_loop i 0 a = Some (a\<lparr>aheap := aheap a, s_rcv_queue := Some q, s_rcv_buffer := s_rcv_buffer a\<rparr>)"
    by simp
  moreover have "heap_inv (aheap a) [(x + 2056 * 0, s - 2056 * 0)] al" using 0(3) by simp
  ultimately show ?case by (metis add_0_right not_le)
next
  case (Suc n)
  obtain q0 where q0: "s_rcv_queue a = Some q0" "heap_queue base (aheap a, q0)" "2 < unat (capacity (qd q0))"
    using Suc.prems(1) by (auto simp: queue_room_def)
  have need: "block_need RCV_BUFFER_SIZE = 2056" "unat RCV_BUFFER_SIZE = 2048"
    by (simp_all add: block_need_def RCV_BUFFER_SIZE_def)
  have "block_need RCV_BUFFER_SIZE + 16 < s" "0 < unat RCV_BUFFER_SIZE" "unat RCV_BUFFER_SIZE < 2 ^ 31"
    using Suc.prems(4) need by simp_all
  then obtain h where m: "pvPortMalloc (aheap a) RCV_BUFFER_SIZE = Some (x + 8, h)"
    "heap_inv h [(x + 2056, s - 2056)] (al(x \<mapsto> 2056))"
    using pvPortMalloc_single [OF Suc.prems(3), of RCV_BUFFER_SIZE] need(1) by metis
  obtain t where t: "heap_queue (base(x + 8 \<mapsto> t)) (h, q0)" using queue_alloc [OF q0(2) m(1)] by auto
  define a0 where "a0 = upd_buf i (\<lambda>b. b\<lparr>rdata := x + 8\<rparr>) (a\<lparr>aheap := h\<rparr>)"
  have r0: "queue_room (base(x + 8 \<mapsto> t)) a0" "view a0 = view a"
    using q0 t by (simp_all add: queue_room_def view_def a0_def)
  have l: "length (view a0) < 3" using Suc.prems(2) r0(2) by simp
  obtain q where q: "rcv_queue_enqueue (buf_at a0 i) a0 = Some (a0\<lparr>s_rcv_queue := Some q\<rparr>)"
    "queue_view q = view a0 @ [buf_at a0 i]" "queue_room (base(x + 8 \<mapsto> t)) (a0\<lparr>s_rcv_queue := Some q\<rparr>)"
    using enqueue_ok [OF r0(1) l] by blast
  define a1 where "a1 = upd_buf i (\<lambda>b. b\<lparr>rlen := 0\<rparr>) (a0\<lparr>s_rcv_queue := Some q\<rparr>)"
  have run: "rev_buffer_loop i (Suc n) a = rev_buffer_loop (i + 1) n a1"
    using m(1) q(1) by (simp add: rev_buffer_loop.simps(2) Let_def a0_def [symmetric] a1_def)
  have p: "queue_room (base(x + 8 \<mapsto> t)) a1" "length (view a1) + n \<le> 3" "heap_inv (aheap a1) [(x + 2056, s - 2056)] (al(x \<mapsto> 2056))"
    "2056 * n + 16 < s - 2056"
    using q(2,3) m(2) Suc.prems(2,4) r0(2) by (simp_all add: queue_room_def view_def a1_def a0_def)
  obtain h' q' b al' where ih: "rev_buffer_loop (i + 1) n a1 = Some (a1\<lparr>aheap := h', s_rcv_queue := Some q', s_rcv_buffer := b\<rparr>)"
    "\<forall>j. i + 1 \<le> j \<longrightarrow> j < i + 1 + n \<longrightarrow> rdata (b j) \<noteq> 0" "\<forall>j < i + 1. b j = s_rcv_buffer a1 j"
    "heap_inv h' [(x + 2056 + 2056 * n, s - 2056 - 2056 * n)] al'"
    using Suc.IH [OF p, of "i + 1"] by blast
  have a1: "a1\<lparr>aheap := h', s_rcv_queue := Some q', s_rcv_buffer := b\<rparr> = a\<lparr>aheap := h', s_rcv_queue := Some q', s_rcv_buffer := b\<rparr>"
    by (simp add: a1_def a0_def upd_buf_def)
  have at: "rdata (b i) = x + 8" "\<forall>j < i. b j = s_rcv_buffer a j" using ih(3) by (simp_all add: a1_def a0_def)
  have "rdata (b j) \<noteq> 0" if "i \<le> j" "j < i + Suc n" for j
    using ih(2) at(1) that by (cases "j = i") auto
  moreover have "heap_inv h' [(x + 2056 * Suc n, s - 2056 * Suc n)] al'"
    using ih(4) by (simp add: algebra_simps)
  ultimately show ?case using run ih(1) a1 at(2) by metis
qed

text \<open>The globals as the startup code leaves them, with the heap initialised.\<close>

definition app0 :: app where
  "app0 = \<lparr>aheap = prvHeapInit heap0, s_rcv_queue = None, s_rcv_buffer = (\<lambda>_. \<lparr>rdata = 0, rlen = 0\<rparr>), s_rcv_at = 0x20000400,
     is_line_established = 0, sem_vs1053async = 0, sem_vs1053_play_async = 1, server_at = S_Dequeue, pbuff = 0,
     play_at = P_Pend, prcv_buff = 0, play_len = 0, play_pbuff = 0\<rparr>"

lemma app_starts:
  assumes "reachable k"
  shows "\<exists>a. app_started (a, k) \<and> server_at a = S_Dequeue \<and> play_at a = P_Pend"
proof -
  obtain h1 q where new: "queue_new lib_ops (\<lambda>_. 0) (prvHeapInit heap0) = Some (CC_OK, h1, Some q)"
    and h1: "\<exists>al. heap_inv h1 [(heap_lo + 104, 999880)] al"
    using queue_new_initial_heap by blast
  obtain al where inv: "heap_inv h1 [(heap_lo + 104, 999880)] al" using h1 by blast
  define b0 where "b0 = app0\<lparr>aheap := h1, s_rcv_queue := Some q\<rparr>"
  have n: "queue_view q = []" "heap_queue Map.empty (h1, q)" "capacity (qd q) = 8"
    using callocator.queue_new_ok [OF lib_mem.callocator_axioms initial_live] new queue_new_capacity
    by (auto simp: lib_ops_def)
  have b0: "queue_room Map.empty b0" "length (view b0) + 3 \<le> 3" "heap_inv (aheap b0) [(heap_lo + 104, 999880)] al"
    using n inv by (simp_all add: queue_room_def view_def b0_def)
  obtain h q' b al' where l: "rev_buffer_loop 0 3 b0 = Some (b0\<lparr>aheap := h, s_rcv_queue := Some q', s_rcv_buffer := b\<rparr>)"
    "\<forall>j < 3. rdata (b j) \<noteq> 0" "heap_inv h [(heap_lo + 104 + 2056 * 3, 999880 - 2056 * 3)] al'"
    using loop_serves [OF b0, of 0] by auto
  define a1 where "a1 = b0\<lparr>aheap := h, s_rcv_queue := Some q', s_rcv_buffer := b\<rparr>"
  have init: "rev_buffer_init (\<lambda>_. 0) app0 = Some a1"
    using new l(1) by (simp add: rev_buffer_init_def a1_def b0_def app0_def RCV_BUFFER_NUM_def)
  obtain h' where m: "pvPortMalloc h RCV_BUFFER_SIZE = Some (heap_lo + 104 + 2056 * 3 + 8, h')"
    using pvPortMalloc_single [OF l(3), of RCV_BUFFER_SIZE] by (auto simp: block_need_def RCV_BUFFER_SIZE_def)
  define a where "a = a1\<lparr>aheap := h', play_pbuff := heap_lo + 104 + 2056 * 3 + 8, prcv_buff := 0, play_len := 0, play_at := P_Pend\<rparr>"
  have play: "play_init a1 = Some a" using m by (simp add: play_init_def a_def a1_def)
  have f: "s_rcv_queue app0 = None" "heap_live (aheap app0) Map.empty" "server_at a = S_Dequeue" "play_at a = P_Pend"
    "s_rcv_at a \<noteq> 0" "sem_vs1053async a < OS_MAX_EVENTS" "sem_vs1053_play_async a < OS_MAX_EVENTS" "play_pbuff a \<noteq> 0"
    "s_rcv_queue a1 \<noteq> None" "\<forall>i < 3. rdata (s_rcv_buffer a i) \<noteq> 0"
    using initial_live l(2) by (simp_all add: app0_def a_def a1_def b0_def)
  then have "app_started (a, k)" using init play assms unfolding app_started_def by blast
  then show ?thesis using f(3,4) by blast
qed

lemma server_goes_on:
  assumes "app_reachable (a, k)"
  shows "\<exists>a' k'. server_step r (a, k) = Some (a', k')"
proof -
  obtain base where s: "reachable k" "sems_ok a" "pool_ok base a" using app_reachable_pool [OF assms] by auto
  show ?thesis using server_returns [OF s(3,1,2)] by metis
qed

section \<open>Properties\<close>



end
