(* ===== verification/App_Order.thy ===== *)
theory App_Order
  imports App_Thms
begin

text \<open>
  What the player sends to the decoder, compared with what the network delivered: a lossy channel that
  keeps the order and adds nothing.
\<close>

section \<open>Datagrams on their way\<close>

definition block_of :: "app \<Rightarrow> nat \<Rightarrow> int \<Rightarrow> u8 list" where
  "block_of a i n = map (hbytes (aheap a)) [rdata (s_rcv_buffer a i)..<rdata (s_rcv_buffer a i) + nat n]"

text \<open>The datagram a buffer holds, the one the player has in its hands, and all of them in order.\<close>

definition datum :: "app \<Rightarrow> addr \<Rightarrow> u8 list list" where
  "datum a p = (case buf_of a p of None \<Rightarrow> []
   | Some i \<Rightarrow> if 0 < rlen (s_rcv_buffer a i) then [block_of a i (rlen (s_rcv_buffer a i))] else [])"

definition in_hand :: "app \<Rightarrow> u8 list list" where
  "in_hand a = (if (play_at a = P_Enqueue \<or> play_at a = P_Copy) \<and> 0 < play_len a
     then (case buf_of a (prcv_buff a) of None \<Rightarrow> [] | Some i \<Rightarrow> [block_of a i (play_len a)]) else [])"

definition at_server :: "app \<Rightarrow> u8 list list" where
  "at_server a = (if server_at a = S_Dequeue \<or> server_at a = S_Recvfrom then [] else datum a (pbuff a))"

definition outstanding :: "app \<Rightarrow> u8 list list" where
  "outstanding a = in_hand a @ concat (map (datum a) (view a)) @ at_server a"

text \<open>The player gives its buffer back before it has copied the data; the server overtakes it when it
  receives into that buffer.\<close>

definition overtakes :: "app \<Rightarrow> bool" where
  "overtakes a \<longleftrightarrow> server_at a = S_Recvfrom \<and> play_at a = P_Copy \<and> pbuff a = prcv_buff a"

definition received :: "app \<Rightarrow> u8 list option \<Rightarrow> u8 list list" where
  "received a r = (if server_at a = S_Recvfrom then (case r of None \<Rightarrow> [] | Some bs \<Rightarrow> [take 2048 bs]) else [])"

text \<open>A run in which the server never overtakes the player: the datagrams received and those played.\<close>

inductive app_trace :: "app \<times> kernel \<Rightarrow> u8 list list \<Rightarrow> u8 list list \<Rightarrow> app \<times> kernel \<Rightarrow> bool" where
  none: "app_trace s [] [] s"
| server: "app_trace s ins outs (a, k) \<Longrightarrow> server_step r (a, k) = Some (a', k') \<Longrightarrow> \<not> overtakes a \<Longrightarrow>
    app_trace s (ins @ received a r) outs (a', k')"
| player: "app_trace s ins outs (a, k) \<Longrightarrow> play_step ok a = Some (out, a') \<Longrightarrow>
    app_trace s ins (outs @ (case out of None \<Rightarrow> [] | Some bs \<Rightarrow> [bs])) (a', k)"
| kernel: "app_trace s ins outs (a, k) \<Longrightarrow> kernel_step k k' \<Longrightarrow> app_trace s ins outs (a, k')"

lemma app_trace_reachable: "app_trace s ins outs s' \<Longrightarrow> app_reachable s \<Longrightarrow> app_reachable s'"
  by (induction rule: app_trace.induct) (auto intro: app_reachable.step app_step.intros)

section \<open>What a step leaves alone\<close>

lemma block_cong:
  "rdata (s_rcv_buffer a' i) = rdata (s_rcv_buffer a i) \<Longrightarrow>
   (\<And>x. rdata (s_rcv_buffer a i) \<le> x \<Longrightarrow> x < rdata (s_rcv_buffer a i) + nat n \<Longrightarrow> hbytes (aheap a') x = hbytes (aheap a) x) \<Longrightarrow>
   block_of a' i n = block_of a i n"
  by (simp add: block_of_def)

lemma datum_cong:
  assumes "s_rcv_at a' = s_rcv_at a" "lengths_good a"
    "\<And>i. i < 3 \<Longrightarrow> p = buf_at a i \<Longrightarrow> s_rcv_buffer a' i = s_rcv_buffer a i \<and> block_of a' i (rlen (s_rcv_buffer a i)) = block_of a i (rlen (s_rcv_buffer a i))"
  shows "datum a' p = datum a p"
proof (cases "buf_of a p")
  case None
  then show ?thesis using bufs_cong [OF assms(1)] by (simp add: datum_def)
next
  case (Some i)
  then show ?thesis using bufs_cong [OF assms(1)] assms(3) buf_of_SomeD [OF Some] by (simp add: datum_def)
qed

text \<open>A write to one block does not show in another.\<close>

lemma mem_put_apart:
  "p + length bs \<le> x \<or> x < p \<Longrightarrow> mem_put f p bs x = f x"
  by (auto simp: mem_put_def)

lemma mem_put_self: "map (mem_put f p bs) [p..<p + length bs] = bs"
  by (rule nth_equalityI) (simp_all add: mem_put_def)

lemma rlen_le: "lengths_good a \<Longrightarrow> i < 3 \<Longrightarrow> nat (rlen (s_rcv_buffer a i)) \<le> 2048"
  by (simp add: lengths_good_def nat_le_iff)

lemma block_put_other:
  assumes "pool_ok base a" "i < 3" "n \<le> 2048" "base p = Some t" "length bs \<le> t" "p \<noteq> rdata (s_rcv_buffer a i)"
  shows "block_of (a\<lparr>aheap := (aheap a)\<lparr>hbytes := mem_put (hbytes (aheap a)) p bs\<rparr>\<rparr>) i n = block_of a i n"
proof (rule block_cong)
  obtain s where s: "2048 \<le> s" "base (rdata (s_rcv_buffer a i)) = Some s"
    using data_block [OF pool_okD(4) [OF assms(1)] assms(2)] .
  have ap: "p + t \<le> rdata (s_rcv_buffer a i) \<or> rdata (s_rcv_buffer a i) + s \<le> p"
    by (rule room_apart [OF pool_okD(1) [OF assms(1)] assms(4) s(2) assms(6)])
  fix x assume "rdata (s_rcv_buffer a i) \<le> x" "x < rdata (s_rcv_buffer a i) + nat n"
  then have "p + length bs \<le> x \<or> x < p" using ap assms(3,5) s(1) by auto
  then show "hbytes (aheap (a\<lparr>aheap := (aheap a)\<lparr>hbytes := mem_put (hbytes (aheap a)) p bs\<rparr>\<rparr>)) x = hbytes (aheap a) x"
    by (simp add: mem_put_apart)
qed simp

lemma data_differ:
  assumes "pool_ok base a" "i < 3" "j < 3" "i \<noteq> j"
  shows "rdata (s_rcv_buffer a i) \<noteq> rdata (s_rcv_buffer a j)" "rdata (s_rcv_buffer a i) \<noteq> play_pbuff a"
  using pool_okD(4) [OF assms(1)] assms(2-4) by (auto simp: blocks_good_def data_blocks_def less_3)

text \<open>The three parts of what is outstanding, compared one by one.\<close>

lemma outstanding_le:
  assumes "subseq (in_hand a') (in_hand a)" "subseq (concat (map (datum a') (view a'))) (concat (map (datum a) (view a)))"
    "subseq (at_server a') (at_server a @ new)"
  shows "subseq (outstanding a') (outstanding a @ new)"
  unfolding outstanding_def append_assoc using assms by (blast intro: list_emb_append_mono)

lemma concat_same: "(\<And>p. p \<in> set ps \<Longrightarrow> f p = g p) \<Longrightarrow> concat (map f ps) = concat (map g ps)"
  by (metis map_eq_conv)

lemma held_not_queued:
  assumes "pool_ok base a"
  shows "server_at a \<noteq> S_Dequeue \<Longrightarrow> pbuff a \<notin> set (view a)" "play_at a = P_Enqueue \<Longrightarrow> prcv_buff a \<notin> set (view a)"
    "server_at a \<noteq> S_Dequeue \<Longrightarrow> play_at a = P_Enqueue \<Longrightarrow> pbuff a \<noteq> prcv_buff a"
  using pool_sets(2) [OF assms] by (auto simp: server_holds_def player_holds_def)

text \<open>Moves that touch no buffer.\<close>

lemma outstanding_moves:
  "server_at a \<notin> {S_Dequeue, S_Recvfrom} \<Longrightarrow> loc \<notin> {S_Dequeue, S_Recvfrom} \<Longrightarrow> outstanding (a\<lparr>server_at := loc\<rparr>) = outstanding a"
  "play_at a \<notin> {P_Enqueue, P_Copy} \<Longrightarrow> ploc \<notin> {P_Enqueue, P_Copy} \<Longrightarrow> outstanding (a\<lparr>play_at := ploc\<rparr>) = outstanding a"
proof -
  have d: "datum (a\<lparr>server_at := loc\<rparr>) = datum a" "datum (a\<lparr>play_at := ploc\<rparr>) = datum a"
    by (simp_all add: datum_def block_of_def buf_of_def fun_eq_iff)
  show "outstanding (a\<lparr>server_at := loc\<rparr>) = outstanding a"
    if "server_at a \<notin> {S_Dequeue, S_Recvfrom}" "loc \<notin> {S_Dequeue, S_Recvfrom}"
    using d(1) that by (simp add: outstanding_def in_hand_def at_server_def view_def block_of_def buf_of_def)
  show "outstanding (a\<lparr>play_at := ploc\<rparr>) = outstanding a"
    if "play_at a \<notin> {P_Enqueue, P_Copy}" "ploc \<notin> {P_Enqueue, P_Copy}"
    using d(2) that by (simp add: outstanding_def in_hand_def at_server_def view_def)
qed

section \<open>The server\<close>

lemma server_order:
  assumes ok: "pool_ok base a" and k: "reachable k" "sems_ok a" and no: "\<not> overtakes a"
    and run: "server_step r (a, k) = Some (a', k')"
  shows "subseq (outstanding a') (outstanding a @ received a r)"
proof (cases "server_at a")
  case S_Dequeue
  then obtain q x xs where q: "view a = x # xs" "queue_view q = xs"
    "a' = a\<lparr>s_rcv_queue := Some q, pbuff := x, server_at := S_Recvfrom\<rparr>"
    using server_dequeue [OF ok, of r k] run by auto
  have "datum a' = datum a" using q(3) by (simp add: datum_def block_of_def buf_of_def fun_eq_iff)
  moreover have "in_hand a' = in_hand a" using q(3) by (simp add: in_hand_def block_of_def buf_of_def)
  moreover have "view a' = xs" using q(2,3) by (simp add: view_def)
  moreover have "at_server a' = []" using q(3) by (simp add: at_server_def)
  ultimately show ?thesis using q(1) by (intro outstanding_le) (simp_all add: subseq_drop_many)
next
  case S_Recvfrom
  then obtain i where i: "buf_of a (pbuff a) = Some i"
    and a': "a' = (upd_buf i (\<lambda>b. b\<lparr>rlen := (case r of None \<Rightarrow> - 1 | Some bs \<Rightarrow> int (length (take 2048 bs)))\<rparr>)
      (a\<lparr>aheap := (aheap a)\<lparr>hbytes := (case r of None \<Rightarrow> hbytes (aheap a)
         | Some bs \<Rightarrow> mem_put (hbytes (aheap a)) (rdata (s_rcv_buffer a i)) (take 2048 bs))\<rparr>\<rparr>))\<lparr>server_at := S_Parse\<rparr>"
    using server_recvfrom [OF ok, of r k] run by auto
  have i3: "i < 3" "pbuff a = buf_at a i" using buf_of_SomeD [OF i] by auto
  obtain t where t: "2048 \<le> t" "base (rdata (s_rcv_buffer a i)) = Some t"
    using data_block [OF pool_okD(4) [OF ok] i3(1)] .
  have blk: "block_of a' j n = block_of a j n" if "j < 3" "j \<noteq> i" "n \<le> 2048" for j n
  proof (cases r)
    case None
    then show ?thesis by (simp add: block_of_def a' that)
  next
    case (Some bs)
    have "length (take 2048 bs) \<le> t" using t(1) by simp
    then show ?thesis
      using block_put_other [OF ok that(1,3) t(2), of "take 2048 bs"] data_differ(1) [OF ok i3(1) that(1)] that(2) Some
      by (simp add: block_of_def a')
  qed
  have dat: "datum a' p = datum a p" if "p \<noteq> pbuff a" for p
  proof (rule datum_cong [OF _ pool_okD(5) [OF ok]])
    fix j assume j: "j < 3" "p = buf_at a j"
    then have "j \<noteq> i" using that i3(2) by auto
    then show "s_rcv_buffer a' j = s_rcv_buffer a j \<and> block_of a' j (rlen (s_rcv_buffer a j)) = block_of a j (rlen (s_rcv_buffer a j))"
      using blk [OF j(1)] pool_okD(5) [OF ok] j(1) by (simp add: a' lengths_good_def)
  qed (simp add: a')
  have "in_hand a' = in_hand a"
  proof (cases "buf_of a (prcv_buff a)")
    case (Some j)
    then have j: "j < 3" "prcv_buff a = buf_at a j" using buf_of_SomeD by auto
    have "j \<noteq> i" if "play_at a = P_Enqueue \<or> play_at a = P_Copy"
      using that no held_not_queued(3) [OF ok] j(2) i3(2) S_Recvfrom by (auto simp: overtakes_def)
    moreover have "play_len a \<le> 2048" using pool_okD(5) [OF ok] by (simp add: lengths_good_def)
    ultimately show ?thesis
      using Some blk [OF j(1)] bufs_cong [of a' a] by (auto simp: in_hand_def a')
  qed (use bufs_cong [of a' a] in \<open>simp add: in_hand_def a'\<close>)
  moreover have "view a' = view a" by (simp add: view_def a')
  moreover have "concat (map (datum a') (view a)) = concat (map (datum a) (view a))"
    using held_not_queued(1) [OF ok] S_Recvfrom by (intro concat_same dat) auto
  moreover have "subseq (at_server a') (received a r)"
  proof (cases r)
    case None
    then show ?thesis using i bufs_cong [of a' a] by (simp add: at_server_def datum_def a')
  next
    case (Some bs)
    have "block_of a' i (int (length (take 2048 bs))) = take 2048 bs"
      using mem_put_self [of "hbytes (aheap a)" _ "take 2048 bs"] Some by (simp add: block_of_def a' nat_int)
    moreover have "rlen (s_rcv_buffer a' i) = int (length (take 2048 bs))" using Some by (simp add: a')
    ultimately show ?thesis
      using i bufs_cong [of a' a] Some S_Recvfrom by (simp add: at_server_def datum_def received_def a' del: length_take)
  qed
  ultimately show ?thesis
    using S_Recvfrom by (intro outstanding_le) (simp_all add: at_server_def)
next
  case S_Parse
  then obtain i and ret :: int and line loc where i: "buf_of a (pbuff a) = Some i"
    and a': "a' = (upd_buf i (\<lambda>b. if ret \<noteq> 0 then b\<lparr>rlen := 0\<rparr> else b) (a\<lparr>is_line_established := line\<rparr>))\<lparr>server_at := loc\<rparr>"
    and loc: "loc = (if ret \<noteq> 0 \<and> line \<noteq> 0 then S_Post_Async else S_Enqueue)"
    using server_parse [OF ok S_Parse, of r k] unfolding run option.inject prod.inject by blast
  have i3: "i < 3" "pbuff a = buf_at a i" using buf_of_SomeD [OF i] by auto
  have blk: "block_of a' j n = block_of a j n" for j n by (simp add: block_of_def a')
  have dat: "datum a' p = datum a p" if "p \<noteq> pbuff a" for p
    using that i3(2) blk by (intro datum_cong [OF _ pool_okD(5) [OF ok]]) (auto simp: a')
  have "concat (map (datum a') (view a)) = concat (map (datum a) (view a))"
    using held_not_queued(1) [OF ok] S_Parse by (intro concat_same dat) auto
  moreover have "in_hand a' = in_hand a" using blk bufs_cong [of a' a] by (simp add: in_hand_def a' cong: option.case_cong)
  moreover have "view a' = view a" by (simp add: view_def a')
  moreover have "subseq (at_server a') (at_server a)"
    using i bufs_cong [of a' a] blk S_Parse by (simp add: at_server_def datum_def a' loc)
  ultimately show ?thesis using S_Parse by (intro outstanding_le) (simp_all add: received_def)
next
  case S_Enqueue
  then obtain q where q: "queue_view q = view a @ [pbuff a]" "a' = a\<lparr>s_rcv_queue := Some q, server_at := S_Dequeue\<rparr>"
    using server_enqueue [OF ok, of r k] run by auto
  have "datum a' = datum a" using q(2) by (simp add: datum_def block_of_def buf_of_def fun_eq_iff)
  moreover have "in_hand a' = in_hand a" using q(2) by (simp add: in_hand_def block_of_def buf_of_def)
  moreover have "view a' = view a @ [pbuff a]" using q by (simp add: view_def)
  moreover have "at_server a' = []" "at_server a = datum a (pbuff a)" using q(2) S_Enqueue by (simp_all add: at_server_def)
  ultimately show ?thesis by (simp add: outstanding_def received_def S_Enqueue)
next
  case S_Post_Async
  then show ?thesis using server_post [OF ok _ k, of r] run outstanding_moves(1) [of a] by (auto simp: received_def)
next
  case S_Post_Play
  then show ?thesis using server_post [OF ok _ k, of r] run outstanding_moves(1) [of a] by (auto simp: received_def)
qed

section \<open>The player\<close>

lemma play_order:
  assumes ok: "pool_ok base a" and run: "play_step b a = Some (out, a')"
  shows "subseq ((case out of None \<Rightarrow> [] | Some bs \<Rightarrow> [bs]) @ outstanding a') (outstanding a)"
proof (cases "play_at a")
  case P_Dequeue
  then obtain q x xs i where q: "view a = x # xs" "queue_view q = xs" "buf_of a x = Some i" "out = None"
    and a': "a' = upd_buf i (\<lambda>b. b\<lparr>rlen := 0\<rparr>)
      (a\<lparr>s_rcv_queue := Some q, prcv_buff := x, play_len := rlen (s_rcv_buffer a i), play_at := P_Enqueue\<rparr>)"
    using player_dequeue [OF ok P_Dequeue, of b] unfolding run option.inject prod.inject by blast
  have i: "i < 3" "x = buf_at a i" using buf_of_SomeD [OF q(3)] by auto
  have blk: "block_of a' j n = block_of a j n" for j n by (simp add: block_of_def a')
  have bo: "buf_of a' = buf_of a" using bufs_cong [of a' a] by (simp add: a')
  have dat: "datum a' p = datum a p" if "p \<noteq> x" for p
    using that i(2) blk by (intro datum_cong [OF _ pool_okD(5) [OF ok]]) (auto simp: a')
  have "x \<notin> set xs" using pool_sets(2) [OF ok] q(1) by simp
  then have "concat (map (datum a') xs) = concat (map (datum a) xs)"
    by (intro concat_same dat) auto
  moreover have "view a' = xs" using q(2) by (simp add: view_def a')
  moreover have "in_hand a' = datum a x" using q(3) bo blk by (simp add: in_hand_def datum_def a')
  moreover have "pbuff a \<noteq> x" if "server_at a \<noteq> S_Dequeue"
    using held_not_queued(1) [OF ok that] q(1) by auto
  then have "at_server a' = at_server a" using dat by (auto simp: at_server_def a')
  moreover have "in_hand a = []" using P_Dequeue by (simp add: in_hand_def)
  ultimately show ?thesis using q(1,4) by (simp add: outstanding_def)
next
  case P_Enqueue
  then obtain q loc where q: "queue_view q = view a @ [prcv_buff a]" "out = None"
    "loc = (if 0 < play_len a then P_Copy else P_Line)" "a' = a\<lparr>s_rcv_queue := Some q, play_at := loc\<rparr>"
    using player_enqueue [OF ok P_Enqueue, of b] unfolding run option.inject prod.inject by blast
  have "datum a' = datum a" using q(4) by (simp add: datum_def block_of_def buf_of_def fun_eq_iff)
  moreover have "in_hand a' = in_hand a" using q(3,4) P_Enqueue by (simp add: in_hand_def block_of_def buf_of_def)
  moreover have "view a' = view a @ [prcv_buff a]" using q by (simp add: view_def)
  moreover have "datum a (prcv_buff a) = []"
    using ok P_Enqueue by (auto simp: pool_ok_def datum_def split: option.splits)
  moreover have "at_server a' = at_server a" using q(4) calculation(1) by (simp add: at_server_def)
  ultimately show ?thesis using q(2) by (simp add: outstanding_def)
next
  case P_Copy
  obtain i d bs skip where i: "buf_of a (prcv_buff a) = Some i" "d = rdata (s_rcv_buffer a i)"
    "bs = map (hbytes (aheap a)) [d..<d + nat (play_len a)]" "skips_header (aheap a) d = Some skip"
    and r: "if skip then play_step b a = Some (None, a\<lparr>play_len := 0, play_at := P_Dequeue\<rparr>) \<and>
       pool_ok base (a\<lparr>play_len := 0, play_at := P_Dequeue\<rparr>)
     else play_step b a = Some (Some bs, a\<lparr>aheap := (aheap a)\<lparr>hbytes := mem_put (hbytes (aheap a)) (play_pbuff a) bs\<rparr>, play_at := P_Line\<rparr>) \<and>
       pool_ok base (a\<lparr>aheap := (aheap a)\<lparr>hbytes := mem_put (hbytes (aheap a)) (play_pbuff a) bs\<rparr>, play_at := P_Line\<rparr>)"
    using player_copy [OF ok P_Copy, of b] by blast
  have pos: "0 < play_len a" using ok P_Copy by (simp add: pool_ok_def)
  then have hand: "in_hand a = [bs]" using i P_Copy by (simp add: in_hand_def block_of_def)
  show ?thesis
  proof (cases skip)
    case True
    then have a': "a' = a\<lparr>play_len := 0, play_at := P_Dequeue\<rparr>" "out = None" using r run by simp_all
    have "datum a' = datum a" "view a' = view a" "in_hand a' = []" "at_server a' = at_server a"
      using a'(1) by (simp_all add: datum_def block_of_def buf_of_def fun_eq_iff view_def in_hand_def at_server_def)
    then show ?thesis using a'(2) hand by (simp add: outstanding_def subseq_Cons')
  next
    case False
    then have a': "a' = a\<lparr>aheap := (aheap a)\<lparr>hbytes := mem_put (hbytes (aheap a)) (play_pbuff a) bs\<rparr>, play_at := P_Line\<rparr>"
      "out = Some bs" using r run by simp_all
    obtain t where t: "2048 \<le> t" "base (play_pbuff a) = Some t" using play_block [OF pool_okD(4) [OF ok]] .
    have n: "play_len a \<le> 2048" using pool_okD(5) [OF ok] by (simp add: lengths_good_def)
    then have len: "length bs \<le> t" using t(1) i(3) by simp
    have blk: "block_of a' j (rlen (s_rcv_buffer a j)) = block_of a j (rlen (s_rcv_buffer a j))" if "j < 3" for j
    proof -
      have "play_pbuff a \<noteq> rdata (s_rcv_buffer a j)"
        using pool_okD(4) [OF ok] that by (auto simp: blocks_good_def data_blocks_def less_3)
      moreover have "rlen (s_rcv_buffer a j) \<le> 2048" using pool_okD(5) [OF ok] that by (simp add: lengths_good_def)
      ultimately show ?thesis
        using block_put_other [OF ok that _ t(2) len] by (simp add: a'(1) block_of_def)
    qed
    have "datum a' p = datum a p" for p
      using blk by (intro datum_cong [OF _ pool_okD(5) [OF ok]]) (simp_all add: a'(1))
    then have "datum a' = datum a" by (simp add: fun_eq_iff)
    moreover from this have "view a' = view a" "in_hand a' = []" "at_server a' = at_server a"
      by (simp_all add: a'(1) view_def in_hand_def at_server_def)
    ultimately show ?thesis using a'(2) hand by (simp add: outstanding_def)
  qed
next
  case P_Pend
  then show ?thesis using player_idle [OF ok, of b] run outstanding_moves(2) [of a] by auto
next
  case P_Line
  then show ?thesis using player_idle [OF ok, of b] run outstanding_moves(2) [of a] by auto
qed

section \<open>The channel\<close>

lemma trace_order:
  assumes "app_trace s ins outs s'" "app_reachable s"
  shows "subseq (outs @ outstanding (fst s')) (outstanding (fst s) @ ins)"
  using assms
proof (induction rule: app_trace.induct)
  case (server s ins outs a k r a' k')
  obtain base where p: "reachable k" "sems_ok a" "pool_ok base a"
    using app_reachable_pool [OF app_trace_reachable [OF server(1,5)]] by auto
  have "subseq (outstanding a') (outstanding a @ received a r)"
    by (rule server_order [OF p(3,1,2) server(3,2)])
  then have "subseq (outs @ outstanding a') (outs @ outstanding a @ received a r)"
    by (rule list_emb_append_mono [OF subseq_order.order_refl])
  moreover have "subseq (outs @ outstanding a) (outstanding (fst s) @ ins)" using server by simp
  then have "subseq ((outs @ outstanding a) @ received a r) ((outstanding (fst s) @ ins) @ received a r)"
    by (rule list_emb_append_mono) simp
  ultimately show ?case using subseq_order.order_trans by fastforce
next
  case (player s ins outs a k b out a')
  obtain base where p: "pool_ok base a" using app_reachable_pool [OF app_trace_reachable [OF player(1,4)]] by auto
  have "subseq ((case out of None \<Rightarrow> [] | Some bs \<Rightarrow> [bs]) @ outstanding a') (outstanding a)"
    by (rule play_order [OF p player(2)])
  then have "subseq (outs @ (case out of None \<Rightarrow> [] | Some bs \<Rightarrow> [bs]) @ outstanding a') (outs @ outstanding a)"
    by (rule list_emb_append_mono [OF subseq_order.order_refl])
  moreover have "subseq (outs @ outstanding a) (outstanding (fst s) @ ins)" using player by simp
  ultimately show ?case using subseq_order.order_trans by fastforce
qed simp_all

lemma started_outstanding:
  assumes "app_started (a, k)"
  shows "outstanding a = []"
proof -
  have "rlen (s_rcv_buffer a i) = 0" if "i < 3" for i using started_pool [OF assms] that by blast
  then have "datum a p = []" for p using buf_of_SomeD [of a p] by (auto simp: datum_def split: option.splits)
  then show ?thesis using assms by (simp add: outstanding_def in_hand_def at_server_def app_started_def)
qed


text \<open>From a start the server takes its first buffer and waits.\<close>

lemma server_waits:
  assumes "app_started (a, k)"
  shows "\<exists>a1. server_step r (a, k) = Some (a1, k) \<and> server_at a1 = S_Recvfrom \<and> play_at a1 = P_Pend \<and> \<not> overtakes a"
proof -
  obtain base where ok: "pool_ok base a" using started_pool [OF assms] by blast
  have at: "server_at a = S_Dequeue" "play_at a = P_Pend" using assms by (simp_all add: app_started_def)
  show ?thesis using server_dequeue [OF ok at(1), of r k] at by (fastforce simp: overtakes_def)
qed




end
