(* ===== verification/Spi.thy ===== *)
theory Spi
  imports YH_Prelude
begin

text \<open>
  The SPI unit as the ports of the decoder (\<open>vs10xx_port.c\<close>, \<open>vs10xx_play_port.c\<close>) and the Ethernet driver
  (\<open>enc28j60.c\<close>) use it. The state is the history of accesses to the unit, the pins and the semaphore of
  the driver, newest first. What the hardware answers is a parameter that may depend on the whole history.
\<close>

section \<open>Accesses\<close>

datatype port_event = Poll_TXE | Poll_RXNE | SendData u8 | ReceiveData u8 u8 | Prescaler u8 | DQ_pin
  | RST_pin u8 | XCS_pin u8 | XDCS_pin u8 | CS_pin u8 | Delay_ms nat | Delay_us nat | DMA_sent "u8 list" | Time_Dly nat
  | Sem_Pend u8 | Sem_Post

type_synonym history = "port_event list"

text \<open>The flags of the unit and its data register.\<close>

record spi_hw =
  flag_TXE :: "history \<Rightarrow> bool"
  flag_RXNE :: "history \<Rightarrow> bool"
  spi_data :: "history \<Rightarrow> u8"

section \<open>One transfer\<close>

text \<open>\<open>while (flag == RESET) { retry++; if (retry > 200) return 0; }\<close>: whether the flag came.\<close>

function spi_poll :: "(history \<Rightarrow> bool) \<Rightarrow> port_event \<Rightarrow> nat \<Rightarrow> history \<Rightarrow> bool \<times> history" where
  "spi_poll flag ev retry h =
     (if flag h then (True, ev # h)
      else if retry + 1 > 200 then (False, ev # h)
      else spi_poll flag ev (retry + 1) (ev # h))"
  by pat_completeness auto
termination by (relation "measure (\<lambda>(flag, ev, retry, h). 200 - retry)") auto

declare spi_poll.simps [simp del]

definition spi_read_write :: "'a spi_hw_scheme \<Rightarrow> u8 \<Rightarrow> history \<Rightarrow> u8 \<times> history" where
  "spi_read_write hw TxData h =
     (let (came, h) = spi_poll (flag_TXE hw) Poll_TXE 0 h
      in if \<not> came then (0, h)
         else let h = SendData TxData # h;
                  (came, h) = spi_poll (flag_RXNE hw) Poll_RXNE 0 h
              in if \<not> came then (0, h) else (spi_data hw h, ReceiveData TxData (spi_data hw h) # h))"

section \<open>Hardware that works\<close>

text \<open>The flags come before the driver gives up.\<close>

definition spi_works :: "'a spi_hw_scheme \<Rightarrow> bool" where
  "spi_works hw \<longleftrightarrow> (\<forall>h. \<exists>n \<le> 200. flag_TXE hw (replicate n Poll_TXE @ h)) \<and>
     (\<forall>h. \<exists>n \<le> 200. flag_RXNE hw (replicate n Poll_RXNE @ h))"

lemma spi_poll_comes:
  assumes "flag (replicate n ev @ h)" "retry + n \<le> 200"
  shows "\<exists>m. spi_poll flag ev retry h = (True, replicate (Suc m) ev @ h)"
  using assms
proof (induction n arbitrary: retry h)
  case 0
  then show ?case by (subst spi_poll.simps) (auto intro: exI [of _ 0])
next
  case (Suc n)
  show ?case
  proof (cases "flag h")
    case True
    then show ?thesis by (subst spi_poll.simps) (auto intro: exI [of _ 0])
  next
    case False
    have "flag (replicate n ev @ ev # h)" using Suc.prems(1) by (simp add: replicate_app_Cons_same)
    then obtain m where "spi_poll flag ev (retry + 1) (ev # h) = (True, replicate (Suc m) ev @ ev # h)"
      using Suc.IH [of "ev # h" "retry + 1"] Suc.prems(2) by auto
    then show ?thesis using False Suc.prems(2)
      by (subst spi_poll.simps) (auto simp: replicate_app_Cons_same intro!: exI [of _ "Suc m"])
  qed
qed

lemma spi_transfer:
  assumes "spi_works hw"
  shows "\<exists>r m m'. spi_read_write hw b h =
    (r, ReceiveData b r # replicate m' Poll_RXNE @ SendData b # replicate m Poll_TXE @ h)"
proof -
  obtain n where n: "n \<le> 200" "flag_TXE hw (replicate n Poll_TXE @ h)" using assms unfolding spi_works_def by blast
  obtain m where m: "spi_poll (flag_TXE hw) Poll_TXE 0 h = (True, replicate (Suc m) Poll_TXE @ h)"
    using spi_poll_comes [where flag = "flag_TXE hw" and n = n and retry = 0] n by auto
  define h1 where "h1 = SendData b # replicate (Suc m) Poll_TXE @ h"
  obtain n' where n': "n' \<le> 200" "flag_RXNE hw (replicate n' Poll_RXNE @ h1)" using assms unfolding spi_works_def by blast
  obtain m' where m': "spi_poll (flag_RXNE hw) Poll_RXNE 0 h1 = (True, replicate (Suc m') Poll_RXNE @ h1)"
    using spi_poll_comes [where flag = "flag_RXNE hw" and n = n' and retry = 0] n' by auto
  have "spi_read_write hw b h = (spi_data hw (replicate (Suc m') Poll_RXNE @ h1),
    ReceiveData b (spi_data hw (replicate (Suc m') Poll_RXNE @ h1)) # replicate (Suc m') Poll_RXNE @ h1)"
    using m m' unfolding h1_def by (simp add: spi_read_write_def)
  then show ?thesis unfolding h1_def by blast
qed

end
