(* ===== verification/Vs_Core.thy ===== *)
theory Vs_Core
  imports YH_Prelude
begin

text \<open>
  The driver of the VS1003/VS1053 audio decoder, \<open>src/HARDWARE/VS10XX/vs10xx_core.c\<close>. The driver reaches the
  hardware only through the function pointers of \<open>vs10xx_cfg_t\<close>, which here act on a state of type \<open>'s\<close>;
  \<open>Vs_Port\<close> has the functions of the two ports. A result \<open>None\<close> is an access outside an array or a
  loop that does not end.
\<close>

section \<open>The configuration\<close>

text \<open>\<open>VS_Init\<close> is called by the set-up of the ports only and is not a field here.
  \<open>delay_ms\<close> and \<open>delay_us\<close> are the busy waits of \<open>SYSTEM/delay\<close>, which the driver calls directly.\<close>

record 's vs10xx_cfg_t =
  VS_SPI_ReadWriteByte :: "u8 \<Rightarrow> 's \<Rightarrow> u8 \<times> 's"
  VS_SPI_SpeedLow :: "'s \<Rightarrow> 's"
  VS_SPI_SpeedHigh :: "'s \<Rightarrow> 's"
  VS_WAIT_DQ :: "'s \<Rightarrow> (u8 \<times> 's) option"
  VS_DQ :: "'s \<Rightarrow> u8 \<times> 's"
  VS_RST :: "u8 \<Rightarrow> 's \<Rightarrow> 's"
  VS_XCS :: "u8 \<Rightarrow> 's \<Rightarrow> 's"
  VS_XDCS :: "u8 \<Rightarrow> 's \<Rightarrow> 's"
  delay_ms :: "nat \<Rightarrow> 's \<Rightarrow> 's"
  delay_us :: "nat \<Rightarrow> 's \<Rightarrow> 's"

definition SEND_NUM_PER_FRAME :: int where "SEND_NUM_PER_FRAME = 160"

abbreviation VS_WRITE_COMMAND :: u8 where "VS_WRITE_COMMAND \<equiv> 0x02"
abbreviation VS_READ_COMMAND :: u8 where "VS_READ_COMMAND \<equiv> 0x03"
abbreviation SPI_MODE :: u8 where "SPI_MODE \<equiv> 0x00"
abbreviation SPI_BASS :: u8 where "SPI_BASS \<equiv> 0x02"
abbreviation SPI_CLOCKF :: u8 where "SPI_CLOCKF \<equiv> 0x03"
abbreviation SPI_DECODE_TIME :: u8 where "SPI_DECODE_TIME \<equiv> 0x04"
abbreviation SPI_WRAM :: u8 where "SPI_WRAM \<equiv> 0x06"
abbreviation SPI_WRAMADDR :: u8 where "SPI_WRAMADDR \<equiv> 0x07"
abbreviation SPI_HDAT0 :: u8 where "SPI_HDAT0 \<equiv> 0x08"
abbreviation SPI_HDAT1 :: u8 where "SPI_HDAT1 \<equiv> 0x09"
abbreviation SPI_VOL :: u8 where "SPI_VOL \<equiv> 0x0b"
abbreviation SPI_AICTRL0 :: u8 where "SPI_AICTRL0 \<equiv> 0x0c"
abbreviation SPI_AICTRL1 :: u8 where "SPI_AICTRL1 \<equiv> 0x0d"
abbreviation SPI_AICTRL2 :: u8 where "SPI_AICTRL2 \<equiv> 0x0e"
abbreviation SPI_AICTRL3 :: u8 where "SPI_AICTRL3 \<equiv> 0x0f"
abbreviation GPIO_DDR :: u16 where "GPIO_DDR \<equiv> 0xC017"
abbreviation GPIO_ODATA :: u16 where "GPIO_ODATA \<equiv> 0xC019"

section \<open>Registers\<close>

text \<open>\<open>while (cfg->VS_DQ () == 0);\<close>\<close>

partial_function (option) dq_wait :: "'s vs10xx_cfg_t \<Rightarrow> 's \<Rightarrow> 's option" where
  "dq_wait cfg s = (let (v, s) = VS_DQ cfg s in if v = 0 then dq_wait cfg s else Some s)"

text \<open>Bytes sent one after the other, the answers dropped.\<close>

fun send_bytes :: "'s vs10xx_cfg_t \<Rightarrow> u8 list \<Rightarrow> 's \<Rightarrow> 's" where
  "send_bytes cfg [] s = s"
| "send_bytes cfg (b # bs) s = send_bytes cfg bs (snd (VS_SPI_ReadWriteByte cfg b s))"

definition VS_WR_Cmd :: "'s vs10xx_cfg_t \<Rightarrow> u8 \<Rightarrow> u16 \<Rightarrow> 's \<Rightarrow> 's option" where
  "VS_WR_Cmd cfg address data s = do {
     s \<leftarrow> dq_wait cfg s;
     let s = VS_SPI_SpeedLow cfg s;
     let s = VS_XDCS cfg 1 s;
     let s = VS_XCS cfg 0 s;
     let s = send_bytes cfg [VS_WRITE_COMMAND, address, ucast (drop_bit 8 data), ucast data] s;
     let s = VS_XCS cfg 1 s;
     Some (VS_SPI_SpeedHigh cfg s)
   }"

definition VS_WR_Data :: "'s vs10xx_cfg_t \<Rightarrow> u8 \<Rightarrow> 's \<Rightarrow> 's" where
  "VS_WR_Data cfg data s =
     VS_XDCS cfg 1 (send_bytes cfg [data] (VS_XDCS cfg 0 (VS_SPI_SpeedHigh cfg s)))"

definition VS_RD_Reg :: "'s vs10xx_cfg_t \<Rightarrow> u8 \<Rightarrow> 's \<Rightarrow> (u16 \<times> 's) option" where
  "VS_RD_Reg cfg address s = do {
     s \<leftarrow> dq_wait cfg s;
     let s = VS_SPI_SpeedLow cfg s;
     let s = VS_XDCS cfg 1 s;
     let s = VS_XCS cfg 0 s;
     let s = send_bytes cfg [VS_READ_COMMAND, address] s;
     let (b, s) = VS_SPI_ReadWriteByte cfg 0xff s;
     let temp = push_bit 8 (ucast b :: u16);
     let (b, s) = VS_SPI_ReadWriteByte cfg 0xff s;
     let temp = temp + ucast b;
     let s = VS_XCS cfg 1 s;
     Some (temp, VS_SPI_SpeedHigh cfg s)
   }"

definition VS_WRAM_Read :: "'s vs10xx_cfg_t \<Rightarrow> u16 \<Rightarrow> 's \<Rightarrow> (u16 \<times> 's) option" where
  "VS_WRAM_Read cfg addr s = do {
     s \<leftarrow> VS_WR_Cmd cfg SPI_WRAMADDR addr s;
     VS_RD_Reg cfg SPI_WRAM s
   }"

definition VS_WRAM_Write :: "'s vs10xx_cfg_t \<Rightarrow> u16 \<Rightarrow> u16 \<Rightarrow> 's \<Rightarrow> 's option" where
  "VS_WRAM_Write cfg addr val s = do {
     s \<leftarrow> VS_WR_Cmd cfg SPI_WRAMADDR addr s;
     s \<leftarrow> dq_wait cfg s;
     VS_WR_Cmd cfg SPI_WRAM val s
   }"

definition VS_Set_Speed :: "'s vs10xx_cfg_t \<Rightarrow> u8 \<Rightarrow> 's \<Rightarrow> 's option" where
  "VS_Set_Speed cfg t s = VS_WRAM_Write cfg 0x1E04 (ucast t) s"

section \<open>Resets and tests\<close>

text \<open>The two loops of \<open>VS_Soft_Reset\<close>: write until the register reads back, at most until \<open>retry\<close> has
  passed 100.\<close>

partial_function (option) write_until ::
  "'s vs10xx_cfg_t \<Rightarrow> u8 \<Rightarrow> u16 \<Rightarrow> u16 \<Rightarrow> ('s \<Rightarrow> 's) \<Rightarrow> u8 \<Rightarrow> 's \<Rightarrow> 's option" where
  "write_until cfg reg goal val pause retry s = do {
     (v, s) \<leftarrow> VS_RD_Reg cfg reg s;
     if v \<noteq> goal then do {
       s \<leftarrow> VS_WR_Cmd cfg reg val s;
       let s = pause s;
       if retry > 100 then Some s else write_until cfg reg goal val pause (retry + 1) s
     } else Some s
   }"

definition VS_Soft_Reset :: "'s vs10xx_cfg_t \<Rightarrow> 's \<Rightarrow> 's option" where
  "VS_Soft_Reset cfg s = do {
     (r, s) \<leftarrow> VS_WAIT_DQ cfg s;
     let s = send_bytes cfg [0xff] s;
     s \<leftarrow> write_until cfg SPI_MODE 0x0800 0x0804 (delay_ms cfg 2) 0 s;
     (r, s) \<leftarrow> VS_WAIT_DQ cfg s;
     s \<leftarrow> write_until cfg SPI_CLOCKF 0x9800 0x9800 id 0 s;
     Some (delay_ms cfg 20 s)
   }"

partial_function (option) hd_reset_wait :: "'s vs10xx_cfg_t \<Rightarrow> u8 \<Rightarrow> 's \<Rightarrow> (u8 \<times> 's) option" where
  "hd_reset_wait cfg retry s =
     (let (v, s) = VS_DQ cfg s
      in if v = 0 \<and> retry < 200 then hd_reset_wait cfg (retry + 1) (delay_us cfg 50 s) else Some (retry, s))"

definition VS_HD_Reset :: "'s vs10xx_cfg_t \<Rightarrow> 's \<Rightarrow> (u8 \<times> 's) option" where
  "VS_HD_Reset cfg s = do {
     let s = delay_ms cfg 20 (VS_RST cfg 0 s);
     let s = VS_RST cfg 1 (VS_XCS cfg 1 (VS_XDCS cfg 1 s));
     (retry, s) \<leftarrow> hd_reset_wait cfg 0 s;
     Some (if retry \<ge> 200 then 1 else 0, delay_ms cfg 20 s)
   }"

text \<open>One command of the test mode on the data interface.\<close>

definition sdi_test :: "'s vs10xx_cfg_t \<Rightarrow> u8 list \<Rightarrow> nat \<Rightarrow> 's \<Rightarrow> 's" where
  "sdi_test cfg bs ms s = VS_XDCS cfg 1 (delay_ms cfg ms (send_bytes cfg bs (VS_XDCS cfg 0 s)))"

definition VS_Sine_Test :: "'s vs10xx_cfg_t \<Rightarrow> 's \<Rightarrow> 's option" where
  "VS_Sine_Test cfg s = do {
     (r, s) \<leftarrow> VS_HD_Reset cfg s;
     s \<leftarrow> VS_WR_Cmd cfg 0x0b 0x2020 s;
     s \<leftarrow> VS_WR_Cmd cfg SPI_MODE 0x0820 s;
     s \<leftarrow> dq_wait cfg s;
     let s = VS_SPI_SpeedLow cfg s;
     let s = sdi_test cfg [0x53, 0xef, 0x6e, 0x24, 0, 0, 0, 0] 100 s;
     let s = sdi_test cfg [0x45, 0x78, 0x69, 0x74, 0, 0, 0, 0] 100 s;
     let s = sdi_test cfg [0x53, 0xef, 0x6e, 0x44, 0, 0, 0, 0] 100 s;
     Some (sdi_test cfg [0x45, 0x78, 0x69, 0x74, 0, 0, 0, 0] 100 s)
   }"

definition VS_Ram_Test :: "'s vs10xx_cfg_t \<Rightarrow> 's \<Rightarrow> (u16 \<times> 's) option" where
  "VS_Ram_Test cfg s = do {
     (r, s) \<leftarrow> VS_HD_Reset cfg s;
     s \<leftarrow> VS_WR_Cmd cfg SPI_MODE 0x0820 s;
     s \<leftarrow> dq_wait cfg s;
     let s = VS_SPI_SpeedLow cfg s;
     let s = sdi_test cfg [0x4d, 0xea, 0x6d, 0x54, 0, 0, 0, 0] 150 s;
     VS_RD_Reg cfg SPI_HDAT0 s
   }"

section \<open>Information on the stream\<close>

definition bitrate :: "u16 list list" where
  "bitrate = [[0, 8, 16, 24, 32, 40, 48, 56, 64, 80, 96, 112, 128, 144, 160, 0],
     [0, 32, 40, 48, 56, 64, 80, 96, 112, 128, 160, 192, 224, 256, 320, 0]]"

definition VS_Get_HeadInfo :: "'s vs10xx_cfg_t \<Rightarrow> 's \<Rightarrow> (u16 \<times> 's) option" where
  "VS_Get_HeadInfo cfg s = do {
     (v, s) \<leftarrow> VS_RD_Reg cfg SPI_HDAT0 s;
     let HEAD0 = (ucast v :: u32);
     (v, s) \<leftarrow> VS_RD_Reg cfg SPI_HDAT1 s;
     let HEAD1 = (ucast v :: u32);
     if HEAD1 \<in> {0x7665, 0x4D54, 0x4154, 0x4144, 0x4D34, 0x4F67, 0x574D, 0x664C} then do {
       let HEAD1 = HEAD0 * 2 div 25;
       Some (if HEAD1 mod 10 > 5 then ucast (HEAD1 div 10 + 1) else ucast (HEAD1 div 10), s)
     } else do {
       let HEAD1 = drop_bit 3 HEAD1;
       let HEAD1 = HEAD1 AND 0x03;
       let HEAD1 = (if HEAD1 = 3 then 1 else 0 :: u32);
       row \<leftarrow> rd bitrate (unat HEAD1);
       rate \<leftarrow> rd row (unat (drop_bit 12 HEAD0));
       Some (rate, s)
     }
   }"

definition VS_Get_ByteRate :: "'s vs10xx_cfg_t \<Rightarrow> 's \<Rightarrow> (u32 \<times> 's) option" where
  "VS_Get_ByteRate cfg s = do {
     (v, s) \<leftarrow> VS_WRAM_Read cfg 0x1E05 s;
     Some (ucast v, s)
   }"

definition VS_Get_EndFillByte :: "'s vs10xx_cfg_t \<Rightarrow> 's \<Rightarrow> (u16 \<times> 's) option" where
  "VS_Get_EndFillByte cfg s = VS_WRAM_Read cfg 0x1E06 s"

definition VS_Reset_DecodeTime :: "'s vs10xx_cfg_t \<Rightarrow> 's \<Rightarrow> 's option" where
  "VS_Reset_DecodeTime cfg s = do {
     s \<leftarrow> VS_WR_Cmd cfg SPI_DECODE_TIME 0x0000 s;
     VS_WR_Cmd cfg SPI_DECODE_TIME 0x0000 s
   }"

definition VS_Get_DecodeTime :: "'s vs10xx_cfg_t \<Rightarrow> 's \<Rightarrow> (u16 \<times> 's) option" where
  "VS_Get_DecodeTime cfg s = VS_RD_Reg cfg SPI_DECODE_TIME s"

section \<open>Music\<close>

text \<open>\<open>for (n = 0; n < k; n++) VS_SPI_ReadWriteByte (buf[n])\<close> with a counter of eight bits.\<close>

partial_function (option) send_from :: "'s vs10xx_cfg_t \<Rightarrow> u8 list \<Rightarrow> int \<Rightarrow> u8 \<Rightarrow> 's \<Rightarrow> 's option" where
  "send_from cfg buf k n s =
     (if uint n < k then do {
        b \<leftarrow> rd buf (unat n);
        send_from cfg buf k (n + 1) (snd (VS_SPI_ReadWriteByte cfg b s))
      } else Some s)"

definition VS_Send_MusicData2 :: "'s vs10xx_cfg_t \<Rightarrow> u8 list \<Rightarrow> int \<Rightarrow> 's \<Rightarrow> (u8 \<times> 's) option" where
  "VS_Send_MusicData2 cfg buf len s =
     (let (v, s) = VS_DQ cfg s
      in if v \<noteq> 0 then do {
           s \<leftarrow> send_from cfg buf len 0 (VS_XDCS cfg 0 s);
           Some (0, VS_XDCS cfg 1 s)
         } else Some (1, s))"

definition VS_Send_MusicData :: "'s vs10xx_cfg_t \<Rightarrow> u8 list \<Rightarrow> 's \<Rightarrow> (u8 \<times> 's) option" where
  "VS_Send_MusicData cfg buf s = do {
     (r, s) \<leftarrow> VS_WAIT_DQ cfg s;
     let (v, s) = VS_DQ cfg s;
     if v \<noteq> 0 then do {
       s \<leftarrow> send_from cfg buf SEND_NUM_PER_FRAME 0 (VS_XDCS cfg 0 s);
       Some (0, VS_XDCS cfg 1 s)
     } else Some (1, s)
   }"

text \<open>The two loops of \<open>VS_Restart_Play\<close>: zeros until the bit \<open>SM_CANCEL\<close> is clear or 2048 bytes are sent,
  giving the final \<open>i\<close>; then 2052 fill bytes.\<close>

partial_function (option) cancel_loop :: "'s vs10xx_cfg_t \<Rightarrow> u8 list \<Rightarrow> u16 \<Rightarrow> 's \<Rightarrow> (u16 \<times> 's) option" where
  "cancel_loop cfg vsbuf i s =
     (if i < 2048 then do {
        (r, s) \<leftarrow> VS_Send_MusicData cfg vsbuf s;
        if r = 0 then do {
          (temp, s) \<leftarrow> VS_RD_Reg cfg SPI_MODE s;
          if temp AND push_bit 3 1 = 0 then Some (i + 32, s) else cancel_loop cfg vsbuf (i + 32) s
        } else cancel_loop cfg vsbuf i s
      } else Some (i, s))"

partial_function (option) fill_loop :: "'s vs10xx_cfg_t \<Rightarrow> u8 list \<Rightarrow> u16 \<Rightarrow> 's \<Rightarrow> 's option" where
  "fill_loop cfg vsbuf i s =
     (if i < 2052 then do {
        (r, s) \<leftarrow> VS_Send_MusicData cfg vsbuf s;
        fill_loop cfg vsbuf (if r = 0 then i + 32 else i) s
      } else Some s)"

definition VS_Restart_Play :: "'s vs10xx_cfg_t \<Rightarrow> 's \<Rightarrow> 's option" where
  "VS_Restart_Play cfg s = do {
     let vsbuf = replicate 32 0;
     (temp, s) \<leftarrow> VS_RD_Reg cfg SPI_MODE s;
     let temp = temp OR push_bit 3 1;
     let temp = temp OR push_bit 2 1;
     s \<leftarrow> VS_WR_Cmd cfg SPI_MODE temp s;
     (i, s) \<leftarrow> cancel_loop cfg vsbuf 0 s;
     s \<leftarrow> (if i < 2048 then do {
         (v, s) \<leftarrow> VS_Get_EndFillByte cfg s;
         let temp = v AND 0xff;
         fill_loop cfg (replicate 32 (ucast temp)) 0 s
       } else VS_Soft_Reset cfg s);
     (t0, s) \<leftarrow> VS_RD_Reg cfg SPI_HDAT0 s;
     (t1, s) \<leftarrow> VS_RD_Reg cfg SPI_HDAT1 s;
     if t0 + t1 \<noteq> 0 then do {
       (r, s) \<leftarrow> VS_HD_Reset cfg s;
       VS_Soft_Reset cfg s
     } else Some s
   }"

section \<open>Patches\<close>

text \<open>\<open>while (n--) VS_WR_Cmd (cfg, addr, val);\<close> and the loop that copies \<open>n\<close> words from index \<open>i\<close>.\<close>

fun write_run :: "'s vs10xx_cfg_t \<Rightarrow> u8 \<Rightarrow> u16 \<Rightarrow> nat \<Rightarrow> 's \<Rightarrow> 's option" where
  "write_run cfg addr val 0 s = Some s"
| "write_run cfg addr val (Suc n) s = do {
     s \<leftarrow> VS_WR_Cmd cfg addr val s;
     write_run cfg addr val n s
   }"

fun write_copy :: "'s vs10xx_cfg_t \<Rightarrow> u16 list \<Rightarrow> u8 \<Rightarrow> u16 \<Rightarrow> nat \<Rightarrow> 's \<Rightarrow> (u16 \<times> 's) option" where
  "write_copy cfg patch addr i 0 s = Some (i, s)"
| "write_copy cfg patch addr i (Suc n) s = do {
     val \<leftarrow> rd patch (unat i);
     s \<leftarrow> VS_WR_Cmd cfg addr val s;
     write_copy cfg patch addr (i + 1) n s
   }"

partial_function (option) load_patch_from :: "'s vs10xx_cfg_t \<Rightarrow> u16 list \<Rightarrow> u16 \<Rightarrow> u16 \<Rightarrow> 's \<Rightarrow> 's option" where
  "load_patch_from cfg patch len i s =
     (if i < len then do {
        addr \<leftarrow> rd patch (unat i);
        n \<leftarrow> rd patch (unat (i + 1));
        if n AND 0x8000 \<noteq> 0 then do {
          let n = n AND 0x7FFF;
          val \<leftarrow> rd patch (unat (i + 2));
          s \<leftarrow> write_run cfg (ucast addr) val (unat n) s;
          load_patch_from cfg patch len (i + 3) s
        } else do {
          (i, s) \<leftarrow> write_copy cfg patch (ucast addr) (i + 2) (unat n) s;
          load_patch_from cfg patch len i s
        }
      } else Some s)"

definition VS_Load_Patch :: "'s vs10xx_cfg_t \<Rightarrow> u16 list \<Rightarrow> u16 \<Rightarrow> 's \<Rightarrow> 's option" where
  "VS_Load_Patch cfg patch len s = load_patch_from cfg patch len 0 s"

section \<open>Settings\<close>

definition VS_Set_Vol :: "'s vs10xx_cfg_t \<Rightarrow> u8 \<Rightarrow> 's \<Rightarrow> 's option" where
  "VS_Set_Vol cfg volx s = do {
     let volt = 254 - ucast volx;
     let volt = push_bit 8 volt;
     let volt = volt + (254 - ucast volx);
     VS_WR_Cmd cfg SPI_VOL volt s
   }"

text \<open>\<open>temp\<close> is a \<open>signed char\<close>.\<close>

definition bass_word :: "u8 \<Rightarrow> u8 \<Rightarrow> u8 \<Rightarrow> u8 \<Rightarrow> u16" where
  "bass_word bfreq bass tfreq treble =
     (let temp = (if treble = 0 then 0 else if treble > 8 then treble - 8 else treble - 9);
          bass_set = (scast temp :: u16) AND 0x0F;
          bass_set = push_bit 4 bass_set;
          bass_set = bass_set + (ucast tfreq AND 0xf);
          bass_set = push_bit 4 bass_set;
          bass_set = bass_set + (ucast bass AND 0xf);
          bass_set = push_bit 4 bass_set
      in bass_set + (ucast bfreq AND 0xf))"

definition VS_Set_Bass :: "'s vs10xx_cfg_t \<Rightarrow> u8 \<Rightarrow> u8 \<Rightarrow> u8 \<Rightarrow> u8 \<Rightarrow> 's \<Rightarrow> 's option" where
  "VS_Set_Bass cfg bfreq bass tfreq treble s = VS_WR_Cmd cfg SPI_BASS (bass_word bfreq bass tfreq treble) s"

definition effect_word :: "u8 \<Rightarrow> u16 \<Rightarrow> u16" where
  "effect_word eft temp =
     (let temp = (if eft AND 0x01 \<noteq> 0 then temp OR push_bit 4 1 else temp AND NOT (push_bit 5 1))
      in if eft AND 0x02 \<noteq> 0 then temp OR push_bit 7 1 else temp AND NOT (push_bit 7 1))"

definition VS_Set_Effect :: "'s vs10xx_cfg_t \<Rightarrow> u8 \<Rightarrow> 's \<Rightarrow> 's option" where
  "VS_Set_Effect cfg eft s = do {
     (temp, s) \<leftarrow> VS_RD_Reg cfg SPI_MODE s;
     VS_WR_Cmd cfg SPI_MODE (effect_word eft temp) s
   }"

definition VS_SPK_Set :: "'s vs10xx_cfg_t \<Rightarrow> u8 \<Rightarrow> 's \<Rightarrow> 's option" where
  "VS_SPK_Set cfg sw s = do {
     s \<leftarrow> VS_WRAM_Write cfg GPIO_DDR (push_bit 4 1) s;
     VS_WRAM_Write cfg GPIO_ODATA (push_bit 4 (ucast sw)) s
   }"

record vs10xx_obj =
  mvol :: u8
  bflimit :: u8
  bass :: u8
  tflimit :: u8
  treble :: u8
  effect :: u8
  speakersw :: u8
  saveflag :: u8

definition vsset :: vs10xx_obj where
  "vsset = \<lparr>mvol = 220, bflimit = 6, bass = 15, tflimit = 10, treble = 15, effect = 0, speakersw = 1, saveflag = 0\<rparr>"

definition VS_Set_All :: "'s vs10xx_cfg_t \<Rightarrow> 's \<Rightarrow> 's option" where
  "VS_Set_All cfg s = do {
     s \<leftarrow> VS_Set_Vol cfg (mvol vsset) s;
     s \<leftarrow> VS_Set_Bass cfg (bflimit vsset) (bass vsset) (tflimit vsset) (treble vsset) s;
     s \<leftarrow> VS_Set_Effect cfg (effect vsset) s;
     VS_SPK_Set cfg (speakersw vsset) s
   }"

definition wav_plugin :: "u16 list" where
  "wav_plugin =
    [0x0007, 0x0001, 0x8010, 0x0006, 0x001c, 0x3e12, 0xb817, 0x3e14,
     0xf812, 0x3e01, 0xb811, 0x0007, 0x9717, 0x0020, 0xffd2, 0x0030,
     0x11d1, 0x3111, 0x8024, 0x3704, 0xc024, 0x3b81, 0x8024, 0x3101,
     0x8024, 0x3b81, 0x8024, 0x3f04, 0xc024, 0x2808, 0x4800, 0x36f1,
     0x9811, 0x0007, 0x0001, 0x8028, 0x0006, 0x0002, 0x2a00, 0x040e]"

definition recoder_enter_rec_mode :: "'s vs10xx_cfg_t \<Rightarrow> u16 \<Rightarrow> 's \<Rightarrow> 's option" where
  "recoder_enter_rec_mode cfg agc s = do {
     s \<leftarrow> VS_WR_Cmd cfg SPI_BASS 0x0000 s;
     s \<leftarrow> VS_WR_Cmd cfg SPI_AICTRL0 8000 s;
     s \<leftarrow> VS_WR_Cmd cfg SPI_AICTRL1 agc s;
     s \<leftarrow> VS_WR_Cmd cfg SPI_AICTRL2 0 s;
     s \<leftarrow> VS_WR_Cmd cfg SPI_AICTRL3 6 s;
     s \<leftarrow> VS_WR_Cmd cfg SPI_CLOCKF 0x2000 s;
     s \<leftarrow> VS_WR_Cmd cfg SPI_MODE 0x1804 s;
     let s = delay_ms cfg 5 s;
     VS_Load_Patch cfg wav_plugin 40 s
   }"

end
