(* ===== verification/Vs_Wire.thy ===== *)
theory Vs_Wire
  imports Vs_Core
begin

text \<open>
  The serial interface of the decoder as its data sheet gives it: what the chip makes of the select lines
  and the bytes. The interface \<open>vs_bus\<close> says what the functions of a configuration do to the chip; under
  it every operation of the driver is described by the register accesses and data the chip sees.
\<close>

section \<open>The chip\<close>

text \<open>A transfer on the command interface writes or reads a register, one on the data interface is data.
  A frame that is neither is \<open>Sci_Bad\<close>.\<close>

datatype vs_op = Sci_Write u8 u16 | Sci_Read u8 u16 | Sci_Bad "u8 list" | Sdi "u8 list"

text \<open>The select lines, the bytes sent and answered since one of them fell, what was understood so far, and
  whether both were ever low at once.\<close>

record vs_chip =
  xcs_low :: bool
  xdcs_low :: bool
  frame :: "(u8 \<times> u8) list"
  ops :: "vs_op list"
  clash :: bool

definition word_of :: "u8 \<Rightarrow> u8 \<Rightarrow> u16" where
  "word_of h l = push_bit 8 (ucast h) + ucast l"

fun sci_op :: "(u8 \<times> u8) list \<Rightarrow> vs_op" where
  "sci_op [(c, _), (a, _), (h, h'), (l, l')] =
     (if c = VS_WRITE_COMMAND then Sci_Write a (word_of h l)
      else if c = VS_READ_COMMAND then Sci_Read a (word_of h' l')
      else Sci_Bad [c, a, h, l])"
| "sci_op xs = Sci_Bad (map fst xs)"

definition chip_xcs :: "u8 \<Rightarrow> vs_chip \<Rightarrow> vs_chip" where
  "chip_xcs v c = (if v = 0 then (if xcs_low c then c else c\<lparr>xcs_low := True, frame := [], clash := clash c \<or> xdcs_low c\<rparr>)
     else if xcs_low c then c\<lparr>xcs_low := False, frame := [], ops := ops c @ [sci_op (frame c)]\<rparr> else c)"

definition chip_xdcs :: "u8 \<Rightarrow> vs_chip \<Rightarrow> vs_chip" where
  "chip_xdcs v c = (if v = 0 then (if xdcs_low c then c else c\<lparr>xdcs_low := True, frame := [], clash := clash c \<or> xcs_low c\<rparr>)
     else if xdcs_low c then c\<lparr>xdcs_low := False, frame := [], ops := ops c @ [Sdi (map fst (frame c))]\<rparr> else c)"

definition chip_xfer :: "u8 \<Rightarrow> u8 \<Rightarrow> vs_chip \<Rightarrow> vs_chip" where
  "chip_xfer t r c = (if xcs_low c \<or> xdcs_low c then c\<lparr>frame := frame c @ [(t, r)]\<rparr> else c)"

text \<open>Between two operations of the driver no line is low.\<close>

definition idle :: "vs_chip \<Rightarrow> bool" where
  "idle c \<longleftrightarrow> \<not> xcs_low c \<and> \<not> xdcs_low c \<and> frame c = []"

definition understood :: "vs_op list \<Rightarrow> vs_chip \<Rightarrow> vs_chip" where
  "understood os c = c\<lparr>ops := ops c @ os\<rparr>"

lemma idle_understood [simp]: "idle (understood os c) = idle c"
  by (simp add: idle_def understood_def)

lemma understood_Nil [simp]: "understood [] c = c"
  by (simp add: understood_def)

lemma understood_understood [simp]: "understood os2 (understood os1 c) = understood (os1 @ os2) c"
  by (simp add: understood_def)

lemma word_of_split: "word_of (ucast (drop_bit 8 d)) (ucast d) = d"
proof -
  have "word_of (ucast (drop_bit 8 d)) (ucast d) = push_bit 8 (ucast (ucast (drop_bit 8 d :: u16) :: u8)) OR ucast (ucast d :: u8)"
    unfolding word_of_def by (rule disjunctive_add) (auto simp: bit_simps)
  also have "\<dots> = d"
    by (rule bit_word_eqI) (auto simp: bit_simps not_le less_diff_conv2)
  finally show ?thesis .
qed

section \<open>The interface of a configuration\<close>

locale vs_bus =
  fixes cfg :: "'s vs10xx_cfg_t" and ok :: "'s \<Rightarrow> bool" and chip :: "'s \<Rightarrow> vs_chip"
  assumes xfer: "ok s \<Longrightarrow> \<exists>r s'. VS_SPI_ReadWriteByte cfg b s = (r, s') \<and> ok s' \<and> chip s' = chip_xfer b r (chip s)"
    and speed_low: "ok s \<Longrightarrow> ok (VS_SPI_SpeedLow cfg s) \<and> chip (VS_SPI_SpeedLow cfg s) = chip s"
    and speed_high: "ok s \<Longrightarrow> ok (VS_SPI_SpeedHigh cfg s) \<and> chip (VS_SPI_SpeedHigh cfg s) = chip s"
    and dq: "ok s \<Longrightarrow> ok (snd (VS_DQ cfg s)) \<and> chip (snd (VS_DQ cfg s)) = chip s"
    and dq_rises: "ok s \<Longrightarrow> \<exists>n. fst (VS_DQ cfg (((\<lambda>s. snd (VS_DQ cfg s)) ^^ n) s)) \<noteq> 0"
    and waits: "ok s \<Longrightarrow> \<exists>r s'. VS_WAIT_DQ cfg s = Some (r, s') \<and> ok s' \<and> chip s' = chip s"
    and rst: "ok s \<Longrightarrow> ok (VS_RST cfg v s) \<and> chip (VS_RST cfg v s) = chip s"
    and xcs: "ok s \<Longrightarrow> ok (VS_XCS cfg v s) \<and> chip (VS_XCS cfg v s) = chip_xcs v (chip s)"
    and xdcs: "ok s \<Longrightarrow> ok (VS_XDCS cfg v s) \<and> chip (VS_XDCS cfg v s) = chip_xdcs v (chip s)"
    and ms: "ok s \<Longrightarrow> ok (delay_ms cfg n s) \<and> chip (delay_ms cfg n s) = chip s"
    and us: "ok s \<Longrightarrow> ok (delay_us cfg n s) \<and> chip (delay_us cfg n s) = chip s"
begin

lemma dq_wait_returns:
  assumes "ok s"
  shows "\<exists>s'. dq_wait cfg s = Some s' \<and> ok s' \<and> chip s' = chip s"
proof -
  obtain n where "fst (VS_DQ cfg (((\<lambda>s. snd (VS_DQ cfg s)) ^^ n) s)) \<noteq> 0" using dq_rises [OF assms] by blast
  then show ?thesis using assms
  proof (induction n arbitrary: s)
    case 0
    then show ?case using dq [OF 0(2)] by (subst dq_wait.simps) (auto simp: case_prod_beta)
  next
    case (Suc n)
    show ?case
    proof (cases "fst (VS_DQ cfg s) = 0")
      case True
      have "fst (VS_DQ cfg (((\<lambda>s. snd (VS_DQ cfg s)) ^^ n) (snd (VS_DQ cfg s)))) \<noteq> 0"
        using Suc.prems(1) unfolding funpow_Suc_right o_apply .
      then obtain s' where "dq_wait cfg (snd (VS_DQ cfg s)) = Some s'" "ok s'" "chip s' = chip (snd (VS_DQ cfg s))"
        using Suc.IH dq [OF Suc.prems(2)] by blast
      then show ?thesis using True dq [OF Suc.prems(2)] by (subst dq_wait.simps) (simp add: case_prod_beta)
    next
      case False
      then show ?thesis using dq [OF Suc.prems(2)] by (subst dq_wait.simps) (auto simp: case_prod_beta)
    qed
  qed
qed

text \<open>Bytes sent while a line is low end up in the frame.\<close>

lemma send_bytes_frame:
  assumes "ok s" "xcs_low (chip s) \<or> xdcs_low (chip s)"
  shows "\<exists>rs. ok (send_bytes cfg bs s) \<and> length rs = length bs \<and>
    chip (send_bytes cfg bs s) = (chip s)\<lparr>frame := frame (chip s) @ zip bs rs\<rparr>"
  using assms
proof (induction bs arbitrary: s)
  case (Cons b bs)
  obtain r s1 where s1: "VS_SPI_ReadWriteByte cfg b s = (r, s1)" "ok s1" "chip s1 = chip_xfer b r (chip s)"
    using xfer [OF Cons.prems(1)] by blast
  have c: "chip s1 = (chip s)\<lparr>frame := frame (chip s) @ [(b, r)]\<rparr>" using s1(3) Cons.prems(2) by (simp add: chip_xfer_def)
  then obtain rs where "ok (send_bytes cfg bs s1)" "length rs = length bs"
    "chip (send_bytes cfg bs s1) = (chip s1)\<lparr>frame := frame (chip s1) @ zip bs rs\<rparr>"
    using Cons.IH [OF s1(2)] Cons.prems(2) by auto
  then show ?case using s1(1) c by (intro exI [of _ "r # rs"]) simp
qed (auto intro: exI [of _ "[]"])

lemma send_bytes_idle:
  assumes "ok s" "idle (chip s)"
  shows "ok (send_bytes cfg bs s) \<and> chip (send_bytes cfg bs s) = chip s"
  using assms
proof (induction bs arbitrary: s)
  case (Cons b bs)
  obtain r s1 where s1: "VS_SPI_ReadWriteByte cfg b s = (r, s1)" "ok s1" "chip s1 = chip_xfer b r (chip s)"
    using xfer [OF Cons.prems(1)] by blast
  have "chip s1 = chip s" using s1(3) Cons.prems(2) by (simp add: chip_xfer_def idle_def)
  then show ?case using Cons.IH [OF s1(2)] Cons.prems(2) s1(1) by simp
qed simp

section \<open>What an operation makes the chip understand\<close>

definition does :: "'s \<Rightarrow> 's option \<Rightarrow> vs_op list \<Rightarrow> bool" where
  "does s r os \<longleftrightarrow> (\<exists>s'. r = Some s' \<and> ok s' \<and> idle (chip s') \<and> chip s' = understood os (chip s))"

definition yields :: "'s \<Rightarrow> ('a \<times> 's) option \<Rightarrow> 'a \<Rightarrow> vs_op list \<Rightarrow> bool" where
  "yields s r v os \<longleftrightarrow> (\<exists>s'. r = Some (v, s') \<and> ok s' \<and> idle (chip s') \<and> chip s' = understood os (chip s))"

lemma does_bind:
  assumes "does s r os" "\<And>s'. r = Some s' \<Longrightarrow> ok s' \<Longrightarrow> idle (chip s') \<Longrightarrow> does s' (f s') os'"
  shows "does s (r \<bind> f) (os @ os')"
  using assms unfolding does_def by fastforce

lemma does_yields:
  assumes "does s r os" "\<And>s'. ok s' \<Longrightarrow> idle (chip s') \<Longrightarrow> yields s' (f s') v os'"
  shows "yields s (r \<bind> f) v (os @ os')"
  using assms unfolding does_def yields_def by fastforce

lemma yields_does:
  assumes "yields s r v os" "\<And>s'. ok s' \<Longrightarrow> idle (chip s') \<Longrightarrow> does s' (f v s') os'"
  shows "does s (do { (v, s) \<leftarrow> r; f v s }) (os @ os')"
  using assms unfolding does_def yields_def by fastforce

lemma yields_yields:
  assumes "yields s r v os" "\<And>s'. ok s' \<Longrightarrow> idle (chip s') \<Longrightarrow> yields s' (f v s') w os'"
  shows "yields s (do { (v, s) \<leftarrow> r; f v s }) w (os @ os')"
  using assms unfolding yields_def by fastforce

lemma does_quiet: "ok s' \<Longrightarrow> idle (chip s') \<Longrightarrow> chip s' = chip s \<Longrightarrow> does s (Some s') []"
  by (simp add: does_def)

lemma does_from: "does s' r os \<Longrightarrow> chip s' = chip s \<Longrightarrow> does s r os"
  by (simp add: does_def)

lemma yields_from: "yields s' r v os \<Longrightarrow> chip s' = chip s \<Longrightarrow> yields s r v os"
  by (simp add: yields_def)

lemma VS_WR_Cmd_does:
  assumes "ok s" "idle (chip s)"
  shows "does s (VS_WR_Cmd cfg a d s) [Sci_Write a d]"
proof -
  obtain s1 where s1: "dq_wait cfg s = Some s1" "ok s1" "chip s1 = chip s" using dq_wait_returns [OF assms(1)] by blast
  define s2 where "s2 = VS_XCS cfg 0 (VS_XDCS cfg 1 (VS_SPI_SpeedLow cfg s1))"
  have s2: "ok s2" "chip s2 = (chip s)\<lparr>xcs_low := True\<rparr>"
    using s1 speed_low xdcs xcs assms(2) by (auto simp: s2_def chip_xdcs_def chip_xcs_def idle_def)
  define bs where "bs = [VS_WRITE_COMMAND, a, ucast (drop_bit 8 d), ucast d]"
  obtain rs where rs: "ok (send_bytes cfg bs s2)" "length rs = length bs"
    "chip (send_bytes cfg bs s2) = (chip s2)\<lparr>frame := frame (chip s2) @ zip bs rs\<rparr>"
    using send_bytes_frame [OF s2(1)] s2(2) by auto
  obtain r1 r2 r3 r4 where r: "rs = [r1, r2, r3, r4]"
    using rs(2) unfolding bs_def by (auto simp: length_Suc_conv)
  define s3 where "s3 = VS_SPI_SpeedHigh cfg (VS_XCS cfg 1 (send_bytes cfg bs s2))"
  have fr: "frame (chip s) = []" "\<not> xcs_low (chip s)" using assms(2) by (simp_all add: idle_def)
  have op: "sci_op (zip bs rs) = Sci_Write a d"
    using word_of_split [of d] by (simp add: r bs_def)
  have "chip s3 = understood [Sci_Write a d] (chip s)"
    using xcs [OF rs(1)] speed_high op s2(2) fr
    by (simp add: s3_def rs(3) chip_xcs_def understood_def)
  moreover have "ok s3" using xcs [OF rs(1)] speed_high by (simp add: s3_def)
  moreover have "VS_WR_Cmd cfg a d s = Some s3"
    using s1(1) by (simp add: VS_WR_Cmd_def Let_def s2_def s3_def bs_def)
  ultimately show ?thesis using assms(2) by (simp add: does_def)
qed

lemma VS_RD_Reg_yields:
  assumes "ok s" "idle (chip s)"
  shows "\<exists>v. yields s (VS_RD_Reg cfg a s) v [Sci_Read a v]"
proof -
  obtain s1 where s1: "dq_wait cfg s = Some s1" "ok s1" "chip s1 = chip s" using dq_wait_returns [OF assms(1)] by blast
  define s2 where "s2 = VS_XCS cfg 0 (VS_XDCS cfg 1 (VS_SPI_SpeedLow cfg s1))"
  have s2: "ok s2" "chip s2 = (chip s)\<lparr>xcs_low := True\<rparr>"
    using s1 speed_low xdcs xcs assms(2) by (auto simp: s2_def chip_xdcs_def chip_xcs_def idle_def)
  define bs where "bs = [VS_READ_COMMAND, a]"
  obtain rs where rs: "ok (send_bytes cfg bs s2)" "length rs = length bs"
    "chip (send_bytes cfg bs s2) = (chip s2)\<lparr>frame := frame (chip s2) @ zip bs rs\<rparr>"
    using send_bytes_frame [OF s2(1)] s2(2) by auto
  obtain r1 r2 where r: "rs = [r1, r2]" using rs(2) unfolding bs_def by (auto simp: length_Suc_conv)
  obtain h s3 where s3: "VS_SPI_ReadWriteByte cfg 0xff (send_bytes cfg bs s2) = (h, s3)" "ok s3"
    "chip s3 = chip_xfer 0xff h (chip (send_bytes cfg bs s2))" using xfer [OF rs(1)] by blast
  obtain l s4 where s4: "VS_SPI_ReadWriteByte cfg 0xff s3 = (l, s4)" "ok s4" "chip s4 = chip_xfer 0xff l (chip s3)"
    using xfer [OF s3(2)] by blast
  have fr: "frame (chip s) = []" "\<not> xcs_low (chip s)" using assms(2) by (simp_all add: idle_def)
  have "chip (send_bytes cfg bs s2) = (chip s)\<lparr>xcs_low := True, frame := [(VS_READ_COMMAND, r1), (a, r2)]\<rparr>"
    unfolding rs(3) s2(2) by (simp add: fr r bs_def)
  then have c4: "chip s4 = (chip s)\<lparr>xcs_low := True, frame := [(VS_READ_COMMAND, r1), (a, r2), (0xff, h), (0xff, l)]\<rparr>"
    unfolding s4(3) s3(3) by (simp add: chip_xfer_def)
  define s5 where "s5 = VS_SPI_SpeedHigh cfg (VS_XCS cfg 1 s4)"
  have "chip s5 = understood [Sci_Read a (word_of h l)] (chip s)"
    using xcs [OF s4(2)] speed_high fr by (simp add: s5_def c4 chip_xcs_def understood_def)
  moreover have "ok s5" using xcs [OF s4(2)] speed_high by (simp add: s5_def)
  moreover have "VS_RD_Reg cfg a s = Some (word_of h l, s5)"
    using s1(1) s3(1) s4(1) by (simp add: VS_RD_Reg_def Let_def s2_def s5_def bs_def word_of_def)
  ultimately show ?thesis using assms(2) by (auto simp: yields_def)
qed

lemma VS_WRAM_Write_does:
  assumes "ok s" "idle (chip s)"
  shows "does s (VS_WRAM_Write cfg a d s) [Sci_Write SPI_WRAMADDR a, Sci_Write SPI_WRAM d]"
proof -
  have "does s (do { s \<leftarrow> dq_wait cfg s; VS_WR_Cmd cfg SPI_WRAM d s }) [Sci_Write SPI_WRAM d]"
    if "ok s" "idle (chip s)" for s
    using dq_wait_returns [OF that(1)] VS_WR_Cmd_does that(2) by (fastforce intro: does_from)
  then show ?thesis
    unfolding VS_WRAM_Write_def using does_bind [OF VS_WR_Cmd_does [OF assms]] by fastforce
qed

lemma VS_WRAM_Read_yields:
  assumes "ok s" "idle (chip s)"
  shows "\<exists>v. yields s (VS_WRAM_Read cfg a s) v [Sci_Write SPI_WRAMADDR a, Sci_Read SPI_WRAM v]"
proof -
  obtain s1 where s1: "VS_WR_Cmd cfg SPI_WRAMADDR a s = Some s1" "ok s1" "idle (chip s1)"
    "chip s1 = understood [Sci_Write SPI_WRAMADDR a] (chip s)"
    using VS_WR_Cmd_does [OF assms, of SPI_WRAMADDR a] unfolding does_def by blast
  then show ?thesis using VS_RD_Reg_yields [OF s1(2,3)] by (fastforce simp: VS_WRAM_Read_def yields_def)
qed

end

end
