(* ===== verification/Vs_Driver.thy ===== *)
theory Vs_Driver
  imports Vs_Wire
begin

text \<open>
  Every operation of the decoder driver under the interface \<open>vs_bus\<close>: it returns, and the chip
  understands exactly the register accesses given here. Patches are compared with a decompressor on
  lists.
\<close>

section \<open>Patches as lists\<close>

text \<open>The words a compressed patch stands for: a run is a word to repeat, a copy the words themselves.\<close>

function plugin_writes :: "u16 list \<Rightarrow> (u8 \<times> u16) list option" where
  "plugin_writes [] = Some []"
| "plugin_writes [a] = None"
| "plugin_writes (a # n # rest) =
     (if n AND 0x8000 \<noteq> 0 then
        (case rest of [] \<Rightarrow> None
         | v # rest' \<Rightarrow> map_option ((@) (replicate (unat (n AND 0x7FFF)) (ucast a, v))) (plugin_writes rest'))
      else if unat n \<le> length rest then
        map_option ((@) (map (Pair (ucast a)) (take (unat n) rest))) (plugin_writes (drop (unat n) rest))
      else None)"
  by pat_completeness auto
termination by (relation "measure length") auto

definition sci_writes :: "(u8 \<times> u16) list \<Rightarrow> vs_op list" where
  "sci_writes ws = map (\<lambda>(a, v). Sci_Write a v) ws"

lemma sci_writes_simps [simp]:
  "sci_writes [] = []" "sci_writes ((a, v) # ws) = Sci_Write a v # sci_writes ws"
  "sci_writes (xs @ ys) = sci_writes xs @ sci_writes ys"
  by (simp_all add: sci_writes_def)

text \<open>An index of sixteen bits into an array that is short enough does not wrap.\<close>

lemma unat_add_index:
  fixes i :: u16
  assumes "unat i + k < 65536"
  shows "unat (i + of_nat k) = unat i + k"
  using assms by (simp add: unat_word_ariths unat_of_nat)

text \<open>The commands of the test mode that start and stop a tone.\<close>

abbreviation sine_on :: "u8 \<Rightarrow> vs_op" where "sine_on n \<equiv> Sdi [0x53, 0xef, 0x6e, n, 0, 0, 0, 0]"
abbreviation sine_off :: vs_op where "sine_off \<equiv> Sdi [0x45, 0x78, 0x69, 0x74, 0, 0, 0, 0]"

context vs_bus
begin

section \<open>Settings and patches\<close>

lemma write_run_does:
  assumes "ok s" "idle (chip s)"
  shows "does s (write_run cfg a v n s) (sci_writes (replicate n (a, v)))"
  using assms
proof (induction n arbitrary: s)
  case 0
  then show ?case by (simp add: does_def)
next
  case (Suc n)
  have "does s (VS_WR_Cmd cfg a v s \<bind> write_run cfg a v n) ([Sci_Write a v] @ sci_writes (replicate n (a, v)))"
    using Suc.IH by (intro does_bind VS_WR_Cmd_does Suc.prems) simp_all
  then show ?case by simp
qed

lemma write_copy_yields:
  assumes "ok s" "idle (chip s)" "unat i + n \<le> length patch" "length patch < 65536"
  shows "yields s (write_copy cfg patch a i n s) (i + of_nat n) (sci_writes (map (Pair a) (take n (drop (unat i) patch))))"
  using assms
proof (induction n arbitrary: s i)
  case 0
  then show ?case by (simp add: yields_def)
next
  case (Suc n)
  have i: "unat i < length patch" "unat (i + 1) = unat i + 1"
    using Suc.prems(3,4) unat_add_index [of i 1] by simp_all
  have d: "drop (unat i) patch = patch ! unat i # drop (unat (i + 1)) patch"
    using i by (simp add: Cons_nth_drop_Suc)
  have ih: "yields s' (write_copy cfg patch a (i + 1) n s') (i + 1 + of_nat n) (sci_writes (map (Pair a) (take n (drop (unat (i + 1)) patch))))"
    if "ok s'" "idle (chip s')" for s'
    using Suc.IH [of s' "i + 1"] that Suc.prems(3,4) i(2) by simp
  have "yields s (VS_WR_Cmd cfg a (patch ! unat i) s \<bind> write_copy cfg patch a (i + 1) n) (i + 1 + of_nat n)
    ([Sci_Write a (patch ! unat i)] @ sci_writes (map (Pair a) (take n (drop (unat (i + 1)) patch))))"
    by (intro does_yields VS_WR_Cmd_does Suc.prems(1,2) ih)
  then show ?case using i(1) by (simp add: rd_def d add.assoc del: of_nat_Suc) (simp add: ac_simps)
qed

lemma load_patch_does:
  assumes "ok s" "idle (chip s)" "length patch < 65536" "unat i \<le> length patch" "plugin_writes (drop (unat i) patch) = Some ws"
  shows "does s (load_patch_from cfg patch (of_nat (length patch)) i s) (sci_writes ws)"
  using assms
proof (induction "length patch - unat i" arbitrary: i s ws rule: less_induct)
  case less
  have len: "unat (of_nat (length patch) :: u16) = length patch"
    using less.prems(3) by (simp add: unat_of_nat take_bit_nat_eq_self)
  show ?case
  proof (cases "unat i < length patch")
    case False
    then have "ws = []" using less.prems(4,5) by simp
    then show ?thesis
      using False less.prems(1,2) len by (subst load_patch_from.simps) (simp add: word_less_nat_alt does_def)
  next
    case True
    then have lt: "i < of_nat (length patch)" by (simp add: word_less_nat_alt len)
    obtain a n rest where d: "drop (unat i) patch = a # n # rest"
      using less.prems(5) True by (cases "drop (unat i) patch"; cases "tl (drop (unat i) patch)") auto
    have k: "patch ! (unat i + j) = (a # n # rest) ! j" "unat i + j < length patch" if "j < length (a # n # rest)" for j
      using nth_drop [of "unat i" patch j] that True unfolding d by (simp_all flip: d)
    have l: "length patch = unat i + 2 + length rest"
      using arg_cong [OF d, of length] True by simp
    have i1: "unat (i + 1) = unat i + 1" "unat (i + 2) = unat i + 2"
      using unat_add_index [of i 1] unat_add_index [of i 2] less.prems(3) l by simp_all
    have r: "rd patch (unat i) = Some a" "rd patch (unat (i + 1)) = Some n"
      using k [of 0] k [of 1] i1 by (simp_all add: rd_def)
    show ?thesis
    proof (cases "n AND 0x8000 \<noteq> 0")
      case run: True
      then obtain v rest' ws' where v: "rest = v # rest'" "plugin_writes rest' = Some ws'"
        "ws = replicate (unat (n AND 0x7FFF)) (ucast a, v) @ ws'"
        using less.prems(5) by (auto simp: d split: list.splits)
      have i3: "unat (i + 3) = unat i + 3" using unat_add_index [of i 3] less.prems(3) l v(1) by simp
      have "drop (unat (i + 3)) patch = rest'"
      proof -
        have "drop 3 (drop (unat i) patch) = rest'" using v(1) by (simp add: d)
        then show ?thesis by (simp add: i3 add.commute)
      qed
      then have goes: "does s' (load_patch_from cfg patch (of_nat (length patch)) (i + 3) s') (sci_writes ws')"
        if "ok s'" "idle (chip s')" for s'
        using less.hyps [of "i + 3" s' ws'] that less.prems(3) v l i3 by simp
      have r2: "rd patch (unat (i + 2)) = Some v" using k [of 2] i1 v(1) by (simp add: rd_def)
      have "does s (write_run cfg (ucast a) v (unat (n AND 0x7FFF)) s \<bind> load_patch_from cfg patch (of_nat (length patch)) (i + 3))
        (sci_writes (replicate (unat (n AND 0x7FFF)) (ucast a, v)) @ sci_writes ws')"
        by (rule does_bind [OF write_run_does [OF less.prems(1,2)] goes])
      then show ?thesis using lt r r2 run v(3) by (subst load_patch_from.simps) (simp add: Let_def)
    next
      case copy: False
      then obtain ws' where v: "unat n \<le> length rest" "plugin_writes (drop (unat n) rest) = Some ws'"
        "ws = map (Pair (ucast a)) (take (unat n) rest) @ ws'"
        using less.prems(5) by (auto simp: d split: if_splits)
      define j where "j = i + 2 + of_nat (unat n)"
      have j: "unat j = unat i + 2 + unat n"
        using unat_add_index [of "i + 2" "unat n"] less.prems(3) l v(1) i1 by (simp add: j_def)
      have d2: "drop (unat (i + 2)) patch = rest"
      proof -
        have "drop 2 (drop (unat i) patch) = rest" by (simp add: d)
        then show ?thesis by (simp add: i1 add.commute)
      qed
      have "drop (unat j) patch = drop (unat n) rest"
        unfolding d2 [symmetric] by (simp add: j i1 ac_simps)
      then have goes: "does s' (load_patch_from cfg patch (of_nat (length patch)) j s') (sci_writes ws')"
        if "ok s'" "idle (chip s')" for s'
        using less.hyps [of j s' ws'] that less.prems(3) v l j by simp
      have "yields s (write_copy cfg patch (ucast a) (i + 2) (unat n) s) j (sci_writes (map (Pair (ucast a)) (take (unat n) rest)))"
        using write_copy_yields [OF less.prems(1,2), of "i + 2" "unat n" patch "ucast a"] less.prems(3) l v(1) i1 d2
        by (simp add: j_def)
      then have "does s (do { (i, s) \<leftarrow> write_copy cfg patch (ucast a) (i + 2) (unat n) s; load_patch_from cfg patch (of_nat (length patch)) i s })
        (sci_writes (map (Pair (ucast a)) (take (unat n) rest)) @ sci_writes ws')"
        by (rule yields_does) (rule goes)
      then show ?thesis using lt r copy v(3) by (subst load_patch_from.simps) (simp add: Let_def)
    qed
  qed
qed

lemma VS_Load_Patch_does:
  assumes "ok s" "idle (chip s)" "length patch < 65536" "plugin_writes patch = Some ws"
  shows "does s (VS_Load_Patch cfg patch (of_nat (length patch)) s) (sci_writes ws)"
  using load_patch_does [OF assms(1,2,3), of 0 ws] assms(4) by (simp add: VS_Load_Patch_def)

section \<open>Resets\<close>

text \<open>At most 102 turns: \<open>retry\<close> counts to 101.\<close>

lemma write_until_does:
  assumes "ok s" "idle (chip s)" "\<And>s. ok s \<Longrightarrow> ok (pause s) \<and> chip (pause s) = chip s" "retry \<le> 101"
  shows "\<exists>os. does s (write_until cfg reg goal val pause retry s) os \<and> length os \<le> 2 * (102 - unat retry) + 1"
  using assms(1,2,4)
proof (induction "101 - unat retry" arbitrary: retry s rule: less_induct)
  case less
  obtain v s1 where s1: "VS_RD_Reg cfg reg s = Some (v, s1)" "ok s1" "idle (chip s1)"
    "chip s1 = understood [Sci_Read reg v] (chip s)"
    using VS_RD_Reg_yields [OF less.prems(1,2)] unfolding yields_def by blast
  obtain s2 where s2: "VS_WR_Cmd cfg reg val s1 = Some s2" "ok s2" "idle (chip s2)"
    "chip s2 = understood [Sci_Write reg val] (chip s1)"
    using VS_WR_Cmd_does [OF s1(2,3)] unfolding does_def by blast
  have p: "ok (pause s2)" "chip (pause s2) = chip s2" using assms(3) [OF s2(2)] by blast+
  show ?case
  proof (cases "v = goal")
    case True
    then have "does s (write_until cfg reg goal val pause retry s) [Sci_Read reg v]"
      using s1 by (subst write_until.simps) (simp add: does_def)
    then show ?thesis by (intro exI [of _ "[Sci_Read reg v]"]) simp
  next
    case False
    let ?os = "[Sci_Read reg v, Sci_Write reg val]"
    show ?thesis
    proof (cases "retry > 100")
      case True
      then have "does s (write_until cfg reg goal val pause retry s) ?os"
        using False s1 s2 p by (subst write_until.simps) (simp add: does_def)
      moreover have "unat retry = 101" using True less.prems(3) by (simp add: word_less_nat_alt word_le_nat_alt)
      ultimately show ?thesis by (intro exI [of _ ?os]) simp
    next
      case small: False
      then have r: "unat retry \<le> 100" "unat (retry + 1) = unat retry + 1"
        by (simp_all add: word_less_nat_alt unat_word_ariths)
      have lt: "101 - unat (retry + 1) < 101 - unat retry" using r by simp
      obtain os s3 where s3: "write_until cfg reg goal val pause (retry + 1) (pause s2) = Some s3" "ok s3" "idle (chip s3)"
        "chip s3 = understood os (chip (pause s2))" "length os \<le> 2 * (102 - unat (retry + 1)) + 1"
        using less.hyps [OF lt p(1)] r p(2) s2(3) unfolding does_def by (auto simp: word_le_nat_alt)
      have "does s (write_until cfg reg goal val pause retry s) (?os @ os)"
        using False small s1 s2 p s3 by (subst write_until.simps) (simp add: does_def)
      then show ?thesis using s3(5) r by (intro exI [of _ "?os @ os"]) simp
    qed
  qed
qed

lemma hd_reset_wait_returns:
  assumes "ok s" "retry \<le> 200"
  shows "\<exists>r s'. hd_reset_wait cfg retry s = Some (r, s') \<and> r \<le> 200 \<and> ok s' \<and> chip s' = chip s"
  using assms
proof (induction "200 - unat retry" arbitrary: retry s rule: less_induct)
  case less
  define s1 where "s1 = snd (VS_DQ cfg s)"
  have s1: "ok s1" "chip s1 = chip s" "ok (delay_us cfg 50 s1)" "chip (delay_us cfg 50 s1) = chip s"
    using dq [OF less.prems(1)] us by (auto simp: s1_def)
  have step: "hd_reset_wait cfg retry s = (if fst (VS_DQ cfg s) = 0 \<and> retry < 200
      then hd_reset_wait cfg (retry + 1) (delay_us cfg 50 s1) else Some (retry, s1))"
    by (subst hd_reset_wait.simps) (simp add: case_prod_beta s1_def)
  show ?case
  proof (cases "fst (VS_DQ cfg s) = 0 \<and> retry < 200")
    case True
    then have "unat (retry + 1) = unat retry + 1" "unat retry < 200"
      by (simp_all add: word_less_nat_alt unat_word_ariths)
    then show ?thesis
      using less.hyps [of "retry + 1" "delay_us cfg 50 s1"] s1(3,4) True unfolding step by (simp add: word_le_nat_alt)
  next
    case False
    then show ?thesis using s1(1,2) less.prems(2) unfolding step by auto
  qed
qed

lemma VS_HD_Reset_yields:
  assumes "ok s" "idle (chip s)"
  shows "\<exists>v. v \<le> 1 \<and> yields s (VS_HD_Reset cfg s) v []"
proof -
  define s1 where "s1 = VS_RST cfg 1 (VS_XCS cfg 1 (VS_XDCS cfg 1 (delay_ms cfg 20 (VS_RST cfg 0 s))))"
  have "ok (delay_ms cfg 20 (VS_RST cfg 0 s))" "chip (delay_ms cfg 20 (VS_RST cfg 0 s)) = chip s"
    using rst ms assms(1) by auto
  then have s1: "ok s1" "chip s1 = chip s"
    using xdcs xcs rst assms(2) by (auto simp: s1_def chip_xcs_def chip_xdcs_def idle_def)
  obtain r s2 where s2: "hd_reset_wait cfg 0 s1 = Some (r, s2)" "ok s2" "chip s2 = chip s1"
    using hd_reset_wait_returns [OF s1(1), of 0] by auto
  have "VS_HD_Reset cfg s = Some (if r \<ge> 200 then 1 else 0, delay_ms cfg 20 s2)"
    using s2(1) by (simp add: VS_HD_Reset_def Let_def s1_def)
  then have "yields s (VS_HD_Reset cfg s) (if r \<ge> 200 then 1 else 0) []"
    using ms [OF s2(2)] s2(3) s1(2) assms(2) by (simp add: yields_def)
  then show ?thesis by (intro exI [of _ "if r \<ge> 200 then 1 else 0"]) simp
qed

lemma VS_Soft_Reset_does:
  assumes "ok s" "idle (chip s)"
  shows "\<exists>os. does s (VS_Soft_Reset cfg s) os \<and> length os \<le> 410"
proof -
  obtain r s1 where s1: "VS_WAIT_DQ cfg s = Some (r, s1)" "ok s1" "chip s1 = chip s" using waits [OF assms(1)] by blast
  define s2 where "s2 = send_bytes cfg [0xff] s1"
  have s2: "ok s2" "chip s2 = chip s" using send_bytes_idle [OF s1(2)] s1(3) assms(2) by (simp_all only: s2_def)
  obtain os s3 where s3: "write_until cfg SPI_MODE 0x0800 0x0804 (delay_ms cfg 2) 0 s2 = Some s3" "ok s3" "idle (chip s3)"
    "chip s3 = understood os (chip s2)" "length os \<le> 205"
    using write_until_does [OF s2(1), of "delay_ms cfg 2" 0 SPI_MODE "0x0800" "0x0804"] s2(2) assms(2) ms
    unfolding does_def by auto
  obtain r' s4 where s4: "VS_WAIT_DQ cfg s3 = Some (r', s4)" "ok s4" "chip s4 = chip s3" using waits [OF s3(2)] by blast
  obtain os' s5 where s5: "write_until cfg SPI_CLOCKF 0x9800 0x9800 id 0 s4 = Some s5" "ok s5" "idle (chip s5)"
    "chip s5 = understood os' (chip s4)" "length os' \<le> 205"
    using write_until_does [OF s4(2), of id 0 SPI_CLOCKF "0x9800" "0x9800"] s4(3) s3(3)
    unfolding does_def by auto
  have "VS_Soft_Reset cfg s = Some (delay_ms cfg 20 s5)"
    using s1(1) s3(1) s4(1) s5(1) by (simp add: VS_Soft_Reset_def Let_def s2_def del: send_bytes.simps)
  then have "does s (VS_Soft_Reset cfg s) (os @ os')"
    using ms [OF s5(2)] s5(3,4) s4(3) s3(4) s2(2) by (simp add: does_def)
  then show ?thesis using s3(5) s5(5) by (intro exI [of _ "os @ os'"]) simp
qed

section \<open>Data\<close>

text \<open>A block of at most 255 bytes is one transfer on the data interface.\<close>

lemma send_from_bytes:
  assumes "ok s" "xdcs_low (chip s)" "0 \<le> k" "k \<le> 255" "k \<le> int (length buf)" "uint n \<le> k"
  shows "\<exists>s' rs. send_from cfg buf k n s = Some s' \<and> ok s' \<and> length rs = nat k - unat n \<and>
    chip s' = (chip s)\<lparr>frame := frame (chip s) @ zip (drop (unat n) (take (nat k) buf)) rs\<rparr>"
  using assms(1,2,6)
proof (induction "nat k - unat n" arbitrary: n s rule: less_induct)
  case less
  have un: "uint n = int (unat n)" by simp
  show ?case
  proof (cases "uint n < k")
    case False
    then have "unat n = nat k" using less.prems(3) un by linarith
    then show ?thesis using False less.prems(1) by (subst send_from.simps) (intro exI [of _ s] exI [of _ "[]"], simp)
  next
    case True
    then have lt: "unat n < nat k" "unat n < length buf" "unat n < 255" using assms(4,5) un by linarith+
    have n1: "unat (n + 1) = unat n + 1" using lt(3) by (simp add: unat_word_ariths)
    obtain r s1 where s1: "VS_SPI_ReadWriteByte cfg (buf ! unat n) s = (r, s1)" "ok s1"
      "chip s1 = chip_xfer (buf ! unat n) r (chip s)" using xfer [OF less.prems(1)] by blast
    have c: "chip s1 = (chip s)\<lparr>frame := frame (chip s) @ [(buf ! unat n, r)]\<rparr>"
      using s1(3) less.prems(2) by (simp add: chip_xfer_def)
    have "uint (n + 1) \<le> k" using n1 lt(1) by (simp flip: of_nat_Suc add: uint_nat) 
    have ls: "nat k - unat (n + 1) < nat k - unat n" using n1 lt(1) by simp
    from \<open>uint (n + 1) \<le> k\<close> obtain s' rs where s': "send_from cfg buf k (n + 1) s1 = Some s'" "ok s'" "length rs = nat k - unat (n + 1)"
      "chip s' = (chip s1)\<lparr>frame := frame (chip s1) @ zip (drop (unat (n + 1)) (take (nat k) buf)) rs\<rparr>"
      using less.hyps [OF ls s1(2)] c less.prems(2) by auto
    have d: "drop (unat n) (take (nat k) buf) = buf ! unat n # drop (unat (n + 1)) (take (nat k) buf)"
      using lt n1 by (subst Cons_nth_drop_Suc [symmetric]) simp_all
    have "send_from cfg buf k n s = Some s'"
      using True lt(2) s1(1) s'(1) by (subst send_from.simps) (simp add: rd_def)
    then show ?thesis
      using s'(2-4) c d n1 lt(1) by (intro exI [of _ s'] exI [of _ "r # rs"]) simp
  qed
qed

lemma sdi_block:
  assumes "ok s" "idle (chip s)" "0 \<le> k" "k \<le> 255" "k \<le> int (length buf)"
  shows "\<exists>s'. send_from cfg buf k 0 (VS_XDCS cfg 0 s) = Some s' \<and> ok (VS_XDCS cfg 1 s') \<and>
    chip (VS_XDCS cfg 1 s') = understood [Sdi (take (nat k) buf)] (chip s)"
proof -
  have s1: "ok (VS_XDCS cfg 0 s)" "chip (VS_XDCS cfg 0 s) = (chip s)\<lparr>xdcs_low := True\<rparr>"
    using xdcs [OF assms(1)] assms(2) by (auto simp: chip_xdcs_def idle_def)
  obtain s' rs where s': "send_from cfg buf k 0 (VS_XDCS cfg 0 s) = Some s'" "ok s'" "length rs = nat k"
    "chip s' = (chip (VS_XDCS cfg 0 s))\<lparr>frame := frame (chip (VS_XDCS cfg 0 s)) @ zip (take (nat k) buf) rs\<rparr>"
    using send_from_bytes [OF s1(1) _ assms(3-5), of 0] s1(2) assms(3) by auto
  have l: "length (take (nat k) buf) = length rs" using s'(3) assms(5) by simp
  then have "chip (VS_XDCS cfg 1 s') = understood [Sdi (take (nat k) buf)] (chip s)"
    using xdcs [OF s'(2)] s'(4) s1(2) assms(2) by (simp add: chip_xdcs_def understood_def idle_def)
  then show ?thesis using s'(1) xdcs [OF s'(2)] by blast
qed

lemma VS_Send_MusicData2_yields:
  assumes "ok s" "idle (chip s)" "0 \<le> k" "k \<le> 255" "k \<le> int (length buf)"
  shows "\<exists>v. yields s (VS_Send_MusicData2 cfg buf k s) v (if v = 0 then [Sdi (take (nat k) buf)] else []) \<and>
    (v = 0 \<longleftrightarrow> fst (VS_DQ cfg s) \<noteq> 0)"
proof -
  define s1 where "s1 = snd (VS_DQ cfg s)"
  have s1: "ok s1" "chip s1 = chip s" using dq [OF assms(1)] by (auto simp: s1_def)
  then obtain s2 where s2: "send_from cfg buf k 0 (VS_XDCS cfg 0 s1) = Some s2" "ok (VS_XDCS cfg 1 s2)"
    "chip (VS_XDCS cfg 1 s2) = understood [Sdi (take (nat k) buf)] (chip s)"
    using sdi_block [OF s1(1) _ assms(3-5)] assms(2) by auto
  have "VS_Send_MusicData2 cfg buf k s = (if fst (VS_DQ cfg s) \<noteq> 0 then Some (0, VS_XDCS cfg 1 s2) else Some (1, s1))"
    using s2(1) by (simp add: VS_Send_MusicData2_def Let_def case_prod_beta s1_def)
  then show ?thesis using s1 s2(2,3) assms(2) by (auto simp: yields_def)
qed

lemma VS_Send_MusicData_yields:
  assumes "ok s" "idle (chip s)" "160 \<le> length buf"
  shows "\<exists>v. yields s (VS_Send_MusicData cfg buf s) v (if v = 0 then [Sdi (take 160 buf)] else [])"
proof -
  obtain r s1 where s1: "VS_WAIT_DQ cfg s = Some (r, s1)" "ok s1" "chip s1 = chip s" using waits [OF assms(1)] by blast
  have p: "idle (chip s1)" "(0::int) \<le> 160" "(160::int) \<le> 255" "160 \<le> int (length buf)" "nat 160 = 160"
    using s1(3) assms(2,3) by simp_all
  obtain v where "yields s1 (VS_Send_MusicData2 cfg buf 160 s1) v (if v = 0 then [Sdi (take 160 buf)] else [])"
    using VS_Send_MusicData2_yields [OF s1(2) p(1-4)] unfolding p(5) by blast
  moreover have "VS_Send_MusicData cfg buf s = VS_Send_MusicData2 cfg buf 160 s1"
    using s1(1) by (simp add: VS_Send_MusicData_def VS_Send_MusicData2_def SEND_NUM_PER_FRAME_def case_prod_beta)
  ultimately show ?thesis using yields_from [OF _ s1(3)] by metis
qed

text \<open>A frame of 160 bytes cannot come from a shorter buffer.\<close>

lemma send_from_short:
  assumes "ok s" "int (length buf) < k" "k \<le> 255" "unat n \<le> length buf"
  shows "send_from cfg buf k n s = None"
  using assms(1,4)
proof (induction "length buf - unat n" arbitrary: n s rule: less_induct)
  case less
  have un: "uint n = int (unat n)" by simp
  show ?case
  proof (cases "unat n < length buf")
    case False
    then have "uint n < k" "rd buf (unat n) = None" using less.prems(2) assms(2) un by (simp_all add: rd_def)
    then show ?thesis by (subst send_from.simps) simp
  next
    case True
    then have n1: "unat (n + 1) = unat n + 1" using assms(2,3) by (simp add: unat_word_ariths)
    obtain r s1 where s1: "VS_SPI_ReadWriteByte cfg (buf ! unat n) s = (r, s1)" "ok s1" using xfer [OF less.prems(1)] by blast
    have "send_from cfg buf k (n + 1) s1 = None"
      using less.hyps [of "n + 1" s1] s1(2) n1 True by simp
    moreover have "uint n < k" using True assms(2) un by linarith
    ultimately show ?thesis using s1(1) True by (subst send_from.simps) (simp add: rd_def)
  qed
qed

text \<open>\<open>VS_Restart_Play\<close> hands a buffer of 32 bytes to \<open>VS_Send_MusicData\<close>.\<close>

lemma send_short:
  assumes "ok s" "idle (chip s)" "length buf < 160" "VS_Send_MusicData cfg buf s = Some (r, s')"
  shows "r = 1 \<and> ok s' \<and> chip s' = chip s"
proof -
  obtain r1 s1 where s1: "VS_WAIT_DQ cfg s = Some (r1, s1)" "ok s1" "chip s1 = chip s" using waits [OF assms(1)] by blast
  define s2 where "s2 = snd (VS_DQ cfg s1)"
  have s2: "ok s2" "chip s2 = chip s1" using dq [OF s1(2)] by (auto simp: s2_def)
  have "ok (VS_XDCS cfg 0 s2)" using xdcs [OF s2(1)] by blast
  then have "send_from cfg buf 160 0 (VS_XDCS cfg 0 s2) = None"
    using send_from_short [of "VS_XDCS cfg 0 s2" buf 160 0] assms(3) by simp
  then have "VS_Send_MusicData cfg buf s = (if fst (VS_DQ cfg s1) \<noteq> 0 then None else Some (1, s2))"
    using s1(1) by (simp add: VS_Send_MusicData_def SEND_NUM_PER_FRAME_def case_prod_beta s2_def)
  then show ?thesis using assms(4) s2 s1(3) by (auto split: if_splits)
qed

lemma cancel_loop_short:
  assumes "cancel_loop cfg buf i s = Some y" "length buf < 160" "ok s" "idle (chip s)" "i < 2048"
  shows False
proof -
  have "c = cfg \<longrightarrow> length b < 160 \<longrightarrow> ok t \<longrightarrow> idle (chip t) \<longrightarrow> j < 2048 \<longrightarrow> False"
    if "cancel_loop c b j t = Some y" for c b j t
  proof (rule cancel_loop.raw_induct [OF _ that])
    fix loop c b j t y
    assume ih: "\<And>c b j t y. loop c b j t = Some y \<Longrightarrow>
        c = cfg \<longrightarrow> length b < 160 \<longrightarrow> ok t \<longrightarrow> idle (chip t) \<longrightarrow> j < 2048 \<longrightarrow> False"
      and run: "(if j < 2048 then do {
        (r, s) \<leftarrow> VS_Send_MusicData c b t;
        if r = 0 then do {
          (temp, s) \<leftarrow> VS_RD_Reg c SPI_MODE s;
          if temp AND push_bit 3 1 = 0 then Some (j + 32, s) else loop c b (j + 32) s
        } else loop c b j s
      } else Some (j, t)) = Some y"
    show "c = cfg \<longrightarrow> length b < 160 \<longrightarrow> ok t \<longrightarrow> idle (chip t) \<longrightarrow> j < 2048 \<longrightarrow> False"
    proof (intro impI)
      assume h: "c = cfg" "length b < 160" "ok t" "idle (chip t)" "j < 2048"
      then obtain r t' where m: "VS_Send_MusicData cfg b t = Some (r, t')" using run by (auto simp: bind_eq_Some_conv)
      have "r = 1" "ok t'" "idle (chip t')" using send_short [OF h(3,4,2) m] h(4) by auto
      moreover from this have "loop cfg b j t' = Some y" using run h(1,5) m by simp
      ultimately show False using ih h by blast
    qed
  qed
  then show ?thesis using assms by blast
qed

lemma VS_Restart_Play_None:
  assumes "ok s" "idle (chip s)"
  shows "VS_Restart_Play cfg s = None"
proof -
  obtain t s1 where s1: "VS_RD_Reg cfg SPI_MODE s = Some (t, s1)" "ok s1" "idle (chip s1)"
    using VS_RD_Reg_yields [OF assms] unfolding yields_def by blast
  define v where "v = (t OR push_bit 3 1) OR push_bit 2 1"
  obtain s2 where s2: "VS_WR_Cmd cfg SPI_MODE v s1 = Some s2" "ok s2" "idle (chip s2)"
    using VS_WR_Cmd_does [OF s1(2,3), of SPI_MODE v] unfolding does_def by blast
  have "cancel_loop cfg (replicate 32 0) 0 s2 = None"
    using cancel_loop_short [of "replicate 32 0" 0 s2] s2(2,3) by (cases "cancel_loop cfg (replicate 32 0) 0 s2") auto
  then show ?thesis
    using s1(1) s2(1) by (simp add: VS_Restart_Play_def Let_def v_def)
qed

section \<open>The composed operations\<close>

lemma VS_Set_Effect_does:
  assumes "ok s" "idle (chip s)"
  shows "\<exists>v. does s (VS_Set_Effect cfg e s) [Sci_Read SPI_MODE v, Sci_Write SPI_MODE (effect_word e v)]"
proof -
  obtain v where v: "yields s (VS_RD_Reg cfg SPI_MODE s) v [Sci_Read SPI_MODE v]" using VS_RD_Reg_yields [OF assms] by blast
  have "does s (do { (temp, s) \<leftarrow> VS_RD_Reg cfg SPI_MODE s; VS_WR_Cmd cfg SPI_MODE (effect_word e temp) s })
      ([Sci_Read SPI_MODE v] @ [Sci_Write SPI_MODE (effect_word e v)])"
    by (rule yields_does [OF v]) (rule VS_WR_Cmd_does)
  then show ?thesis by (auto simp: VS_Set_Effect_def)
qed

lemma VS_SPK_Set_does:
  assumes "ok s" "idle (chip s)"
  shows "does s (VS_SPK_Set cfg sw s) [Sci_Write SPI_WRAMADDR GPIO_DDR, Sci_Write SPI_WRAM 0x10,
     Sci_Write SPI_WRAMADDR GPIO_ODATA, Sci_Write SPI_WRAM (push_bit 4 (ucast sw))]"
proof -
  have "does s (VS_SPK_Set cfg sw s) ([Sci_Write SPI_WRAMADDR GPIO_DDR, Sci_Write SPI_WRAM (push_bit 4 1)] @
     [Sci_Write SPI_WRAMADDR GPIO_ODATA, Sci_Write SPI_WRAM (push_bit 4 (ucast sw))])"
    unfolding VS_SPK_Set_def by (intro does_bind VS_WRAM_Write_does assms)
  then show ?thesis by simp
qed

lemma VS_Set_All_does:
  assumes "ok s" "idle (chip s)"
  shows "\<exists>v. does s (VS_Set_All cfg s) [Sci_Write SPI_VOL 0x2222, Sci_Write SPI_BASS 0x7AF6,
     Sci_Read SPI_MODE v, Sci_Write SPI_MODE (v AND NOT 0x20 AND NOT 0x80),
     Sci_Write SPI_WRAMADDR GPIO_DDR, Sci_Write SPI_WRAM 0x10, Sci_Write SPI_WRAMADDR GPIO_ODATA, Sci_Write SPI_WRAM 0x10]"
proof -
  have w: "bass_word (bflimit vsset) (bass vsset) (tflimit vsset) (treble vsset) = 0x7AF6"
    by (simp add: bass_word_def vsset_def Let_def)
  have e: "effect_word (effect vsset) v = v AND NOT 0x20 AND NOT 0x80" for v
    by (simp add: effect_word_def vsset_def Let_def push_bit_eq_mult and.assoc)
  obtain s1 where s1: "VS_Set_Vol cfg (mvol vsset) s = Some s1" "ok s1" "idle (chip s1)"
    "chip s1 = understood [Sci_Write SPI_VOL 0x2222] (chip s)"
    using VS_WR_Cmd_does [OF assms, of SPI_VOL "0x2222"] unfolding does_def by (auto simp: VS_Set_Vol_def vsset_def Let_def)
  obtain s2 where s2: "VS_WR_Cmd cfg SPI_BASS 0x7AF6 s1 = Some s2" "ok s2" "idle (chip s2)"
    "chip s2 = understood [Sci_Write SPI_BASS 0x7AF6] (chip s1)"
    using VS_WR_Cmd_does [OF s1(2,3), of SPI_BASS "0x7AF6"] unfolding does_def by blast
  obtain v s3 where s3: "VS_Set_Effect cfg (effect vsset) s2 = Some s3" "ok s3" "idle (chip s3)"
    "chip s3 = understood [Sci_Read SPI_MODE v, Sci_Write SPI_MODE (effect_word (effect vsset) v)] (chip s2)"
    using VS_Set_Effect_does [OF s2(2,3)] unfolding does_def by blast
  obtain s4 where s4: "VS_SPK_Set cfg (speakersw vsset) s3 = Some s4" "ok s4" "idle (chip s4)"
    "chip s4 = understood [Sci_Write SPI_WRAMADDR GPIO_DDR, Sci_Write SPI_WRAM 0x10,
     Sci_Write SPI_WRAMADDR GPIO_ODATA, Sci_Write SPI_WRAM (push_bit 4 (ucast (speakersw vsset)))] (chip s3)"
    using VS_SPK_Set_does [OF s3(2,3), of "speakersw vsset"] unfolding does_def by blast
  have "VS_Set_All cfg s = Some s4"
    using s1(1) s2(1) s3(1) s4(1) by (simp add: VS_Set_All_def VS_Set_Bass_def w)
  moreover have "push_bit 4 (ucast (speakersw vsset) :: u16) = 0x10" by (simp add: vsset_def)
  ultimately show ?thesis
    using s1(4) s2(4) s3(4) s4(2-4) unfolding does_def e by (intro exI [of _ v] exI [of _ s4]) simp
qed

lemma recoder_enter_rec_mode_does:
  assumes "ok s" "idle (chip s)"
  shows "does s (recoder_enter_rec_mode cfg agc s)
    ([Sci_Write SPI_BASS 0, Sci_Write SPI_AICTRL0 8000, Sci_Write SPI_AICTRL1 agc, Sci_Write SPI_AICTRL2 0,
      Sci_Write SPI_AICTRL3 6, Sci_Write SPI_CLOCKF 0x2000, Sci_Write SPI_MODE 0x1804] @
     sci_writes (the (plugin_writes wav_plugin)))"
proof -
  have "plugin_writes wav_plugin \<noteq> None" by code_simp
  then obtain ws where p: "plugin_writes wav_plugin = Some ws" by blast
  have l: "(40 :: u16) = of_nat (length wav_plugin)" "length wav_plugin < 65536" by (simp_all add: wav_plugin_def)
  have "does s' (VS_Load_Patch cfg wav_plugin 40 (delay_ms cfg 5 s')) (sci_writes (the (plugin_writes wav_plugin)))"
    if "ok s'" "idle (chip s')" for s'
  proof -
    have d: "ok (delay_ms cfg 5 s')" "chip (delay_ms cfg 5 s') = chip s'" using ms [OF that(1)] by blast+
    have "does (delay_ms cfg 5 s') (VS_Load_Patch cfg wav_plugin 40 (delay_ms cfg 5 s')) (sci_writes ws)"
      unfolding l(1) by (rule VS_Load_Patch_does [OF d(1) _ l(2) p]) (simp add: d(2) that(2))
    then show ?thesis unfolding p option.sel by (rule does_from) (rule d(2))
  qed
  then have "does s (recoder_enter_rec_mode cfg agc s)
    ([Sci_Write SPI_BASS 0] @ [Sci_Write SPI_AICTRL0 8000] @ [Sci_Write SPI_AICTRL1 agc] @ [Sci_Write SPI_AICTRL2 0] @
      [Sci_Write SPI_AICTRL3 6] @ [Sci_Write SPI_CLOCKF 0x2000] @ [Sci_Write SPI_MODE 0x1804] @
      sci_writes (the (plugin_writes wav_plugin)))"
    unfolding recoder_enter_rec_mode_def Let_def by (intro does_bind VS_WR_Cmd_does assms)
  then show ?thesis by simp
qed

text \<open>The bit rate is looked up inside the table, whatever the registers hold.\<close>

lemma VS_Get_HeadInfo_yields:
  assumes "ok s" "idle (chip s)"
  shows "\<exists>h0 h1 v. yields s (VS_Get_HeadInfo cfg s) v [Sci_Read SPI_HDAT0 h0, Sci_Read SPI_HDAT1 h1]"
proof -
  obtain h0 s1 where s1: "VS_RD_Reg cfg SPI_HDAT0 s = Some (h0, s1)" "ok s1" "idle (chip s1)"
    "chip s1 = understood [Sci_Read SPI_HDAT0 h0] (chip s)"
    using VS_RD_Reg_yields [OF assms] unfolding yields_def by blast
  obtain h1 s2 where s2: "VS_RD_Reg cfg SPI_HDAT1 s1 = Some (h1, s2)" "ok s2" "idle (chip s2)"
    "chip s2 = understood [Sci_Read SPI_HDAT1 h1] (chip s1)"
    using VS_RD_Reg_yields [OF s1(2,3)] unfolding yields_def by blast
  define row where "row = (if drop_bit 3 (ucast h1 :: u32) AND 0x03 = 3 then 1 else 0 :: u32)"
  have r: "rd bitrate (unat row) = Some (bitrate ! unat row)" "length (bitrate ! unat row) = 16"
    by (simp_all add: rd_def bitrate_def row_def)
  have "unat h0 < 65536" using unsigned_less [of h0, where 'a = nat] by simp
  moreover from this have "unat (ucast h0 :: u32) = unat h0" by (simp add: unsigned_ucast_eq take_bit_nat_eq_self)
  ultimately have "unat (drop_bit 12 (ucast h0 :: u32)) < 16"
    by (simp add: drop_bit_eq_div unat_div)
  then have c: "rd (bitrate ! unat row) (unat (drop_bit 12 (ucast h0 :: u32))) \<noteq> None"
    using r(2) by (simp add: rd_def)
  have "\<exists>v. VS_Get_HeadInfo cfg s = Some (v, s2)"
    using s1(1) s2(1) r(1) c by (auto simp: VS_Get_HeadInfo_def Let_def row_def split: if_splits)
  then show ?thesis using s2 s1(4) unfolding yields_def by fastforce
qed

lemma sdi_test_does:
  assumes "ok s" "idle (chip s)"
  shows "does s (Some (sdi_test cfg bs n s)) [Sdi bs]"
proof -
  have s1: "ok (VS_XDCS cfg 0 s)" "chip (VS_XDCS cfg 0 s) = (chip s)\<lparr>xdcs_low := True\<rparr>"
    using xdcs [OF assms(1)] assms(2) by (auto simp: chip_xdcs_def idle_def)
  obtain rs where rs: "ok (send_bytes cfg bs (VS_XDCS cfg 0 s))" "length rs = length bs"
    "chip (send_bytes cfg bs (VS_XDCS cfg 0 s)) = (chip (VS_XDCS cfg 0 s))\<lparr>frame := frame (chip (VS_XDCS cfg 0 s)) @ zip bs rs\<rparr>"
    using send_bytes_frame [OF s1(1)] s1(2) by auto
  have d: "ok (delay_ms cfg n (send_bytes cfg bs (VS_XDCS cfg 0 s)))"
    "chip (delay_ms cfg n (send_bytes cfg bs (VS_XDCS cfg 0 s))) = chip (send_bytes cfg bs (VS_XDCS cfg 0 s))"
    using ms [OF rs(1)] by blast+
  then show ?thesis
    using xdcs [OF d(1)] rs(2,3) s1(2) assms(2) by (simp add: does_def sdi_test_def chip_xdcs_def understood_def idle_def)
qed

lemma test_mode:
  assumes "ok s" "idle (chip s)"
  shows "\<exists>s'. dq_wait cfg s = Some s' \<and> ok (VS_SPI_SpeedLow cfg s') \<and> chip (VS_SPI_SpeedLow cfg s') = chip s"
  using dq_wait_returns [OF assms(1)] speed_low by fastforce

lemma VS_Ram_Test_yields:
  assumes "ok s" "idle (chip s)"
  shows "\<exists>v. yields s (VS_Ram_Test cfg s) v
    [Sci_Write SPI_MODE 0x0820, Sdi [0x4d, 0xea, 0x6d, 0x54, 0, 0, 0, 0], Sci_Read SPI_HDAT0 v]"
proof -
  obtain r s1 where s1: "VS_HD_Reset cfg s = Some (r, s1)" "ok s1" "idle (chip s1)" "chip s1 = chip s"
    using VS_HD_Reset_yields [OF assms] unfolding yields_def by auto
  obtain s2 where s2: "VS_WR_Cmd cfg SPI_MODE 0x0820 s1 = Some s2" "ok s2" "idle (chip s2)"
    "chip s2 = understood [Sci_Write SPI_MODE 0x0820] (chip s1)"
    using VS_WR_Cmd_does [OF s1(2,3), of SPI_MODE "0x0820"] unfolding does_def by blast
  obtain s3 where s3: "dq_wait cfg s2 = Some s3" "ok (VS_SPI_SpeedLow cfg s3)" "chip (VS_SPI_SpeedLow cfg s3) = chip s2"
    using test_mode [OF s2(2,3)] by blast
  define s4 where "s4 = sdi_test cfg [0x4d, 0xea, 0x6d, 0x54, 0, 0, 0, 0] 150 (VS_SPI_SpeedLow cfg s3)"
  have s4: "ok s4" "idle (chip s4)" "chip s4 = understood [Sdi [0x4d, 0xea, 0x6d, 0x54, 0, 0, 0, 0]] (chip s2)"
    using sdi_test_does [OF s3(2)] s3(3) s2(3) unfolding does_def s4_def by auto
  obtain v s5 where s5: "VS_RD_Reg cfg SPI_HDAT0 s4 = Some (v, s5)" "ok s5" "idle (chip s5)"
    "chip s5 = understood [Sci_Read SPI_HDAT0 v] (chip s4)"
    using VS_RD_Reg_yields [OF s4(1,2)] unfolding yields_def by blast
  have "VS_Ram_Test cfg s = Some (v, s5)"
    using s1(1) s2(1) s3(1) s5(1) by (simp add: VS_Ram_Test_def Let_def s4_def)
  then show ?thesis using s5(2-4) s4(3) s2(4) s1(4) unfolding yields_def by auto
qed

lemma VS_Sine_Test_does:
  assumes "ok s" "idle (chip s)"
  shows "does s (VS_Sine_Test cfg s)
    [Sci_Write 0x0b 0x2020, Sci_Write SPI_MODE 0x0820, sine_on 0x24, sine_off, sine_on 0x44, sine_off]"
proof -
  obtain r s1 where s1: "VS_HD_Reset cfg s = Some (r, s1)" "ok s1" "idle (chip s1)" "chip s1 = chip s"
    using VS_HD_Reset_yields [OF assms] unfolding yields_def by auto
  obtain s2 where s2: "VS_WR_Cmd cfg 0x0b 0x2020 s1 = Some s2" "ok s2" "idle (chip s2)"
    "chip s2 = understood [Sci_Write 0x0b 0x2020] (chip s1)"
    using VS_WR_Cmd_does [OF s1(2,3), of "0x0b" "0x2020"] unfolding does_def by blast
  obtain s3 where s3: "VS_WR_Cmd cfg SPI_MODE 0x0820 s2 = Some s3" "ok s3" "idle (chip s3)"
    "chip s3 = understood [Sci_Write SPI_MODE 0x0820] (chip s2)"
    using VS_WR_Cmd_does [OF s2(2,3), of SPI_MODE "0x0820"] unfolding does_def by blast
  obtain s4 where s4: "dq_wait cfg s3 = Some s4" "ok (VS_SPI_SpeedLow cfg s4)" "chip (VS_SPI_SpeedLow cfg s4) = chip s3"
    using test_mode [OF s3(2,3)] by blast
  have t: "ok (sdi_test cfg bs 100 x) \<and> idle (chip (sdi_test cfg bs 100 x)) \<and> chip (sdi_test cfg bs 100 x) = understood [Sdi bs] (chip x)"
    if "ok x" "idle (chip x)" for bs x
    using sdi_test_does [OF that] that unfolding does_def by auto
  define x1 where "x1 = sdi_test cfg [0x53, 0xef, 0x6e, 0x24, 0, 0, 0, 0] 100 (VS_SPI_SpeedLow cfg s4)"
  define x2 where "x2 = sdi_test cfg [0x45, 0x78, 0x69, 0x74, 0, 0, 0, 0] 100 x1"
  define x3 where "x3 = sdi_test cfg [0x53, 0xef, 0x6e, 0x44, 0, 0, 0, 0] 100 x2"
  define x4 where "x4 = sdi_test cfg [0x45, 0x78, 0x69, 0x74, 0, 0, 0, 0] 100 x3"
  have "idle (chip (VS_SPI_SpeedLow cfg s4))" using s4(3) s3(3) by simp
  then have x1: "ok x1" "idle (chip x1)" "chip x1 = understood [sine_on 0x24] (chip s3)"
    using t [OF s4(2)] unfolding x1_def s4(3) [symmetric] by blast+
  have x2: "ok x2" "idle (chip x2)" "chip x2 = understood [sine_off] (chip x1)" using t [OF x1(1,2)] unfolding x2_def by blast+
  have x3: "ok x3" "idle (chip x3)" "chip x3 = understood [sine_on 0x44] (chip x2)" using t [OF x2(1,2)] unfolding x3_def by blast+
  have x4: "ok x4" "idle (chip x4)" "chip x4 = understood [sine_off] (chip x3)" using t [OF x3(1,2)] unfolding x4_def by blast+
  have "VS_Sine_Test cfg s = Some x4"
    using s1(1) s2(1) s3(1) s4(1) by (simp add: VS_Sine_Test_def Let_def x1_def x2_def x3_def x4_def)
  then show ?thesis using x4 x3(3) x2(3) x1(3) s3(4) s2(4) s1(4) unfolding does_def by simp
qed

end

end
