(* ===== verification/Vs_Port.thy ===== *)
theory Vs_Port
  imports Vs_Driver Spi
begin

text \<open>
  The two ports of the decoder driver, \<open>vs10xx_port.c\<close> (the recorder on SPI1) and \<open>vs10xx_play_port.c\<close> (the
  player on SPI3, with DMA). The state is the history of accesses of \<open>Spi\<close>. The set-up of pins, clocks and
  DMA channels is not modelled.
\<close>

section \<open>The hardware\<close>

text \<open>The level of \<open>DREQ\<close> beside the SPI unit.\<close>

record port_hw = spi_hw +
  dreq :: "history \<Rightarrow> u8"

text \<open>What the decoder makes of a history. A transfer is complete when its answer is fetched.\<close>

fun chip_of :: "history \<Rightarrow> vs_chip" where
  "chip_of [] = \<lparr>xcs_low = False, xdcs_low = False, frame = [], ops = [], clash = False\<rparr>"
| "chip_of (ReceiveData t r # h) = chip_xfer t r (chip_of h)"
| "chip_of (XCS_pin v # h) = chip_xcs v (chip_of h)"
| "chip_of (XDCS_pin v # h) = chip_xdcs v (chip_of h)"
| "chip_of (DMA_sent bs # h) = fold (\<lambda>b. chip_xfer b 0) bs (chip_of h)"
| "chip_of (_ # h) = chip_of h"

section \<open>The SPI unit\<close>

definition SPI1_ReadWriteByte :: "port_hw \<Rightarrow> u8 \<Rightarrow> history \<Rightarrow> u8 \<times> history" where
  "SPI1_ReadWriteByte hw TxData h = spi_read_write hw TxData h"

definition SPI3_ReadWriteByte :: "port_hw \<Rightarrow> u8 \<Rightarrow> history \<Rightarrow> u8 \<times> history" where
  "SPI3_ReadWriteByte hw TxData h = spi_read_write hw TxData h"

definition SPI1_SetSpeed :: "u8 \<Rightarrow> history \<Rightarrow> history" where "SPI1_SetSpeed v h = Prescaler v # h"
definition SPI3_SetSpeed :: "u8 \<Rightarrow> history \<Rightarrow> history" where "SPI3_SetSpeed v h = Prescaler v # h"

abbreviation SPI_BaudRatePrescaler_8 :: u8 where "SPI_BaudRatePrescaler_8 \<equiv> 0x10"
abbreviation SPI_BaudRatePrescaler_32 :: u8 where "SPI_BaudRatePrescaler_32 \<equiv> 0x20"

section \<open>The pins\<close>

definition vs10xx_dq :: "port_hw \<Rightarrow> history \<Rightarrow> u8 \<times> history" where
  "vs10xx_dq hw h = (dreq hw h, DQ_pin # h)"

definition vs10xx_rst :: "u8 \<Rightarrow> history \<Rightarrow> history" where "vs10xx_rst stat h = RST_pin stat # h"
definition vs10xx_xcs :: "u8 \<Rightarrow> history \<Rightarrow> history" where "vs10xx_xcs stat h = XCS_pin stat # h"
definition vs10xx_xdcs :: "u8 \<Rightarrow> history \<Rightarrow> history" where "vs10xx_xdcs stat h = XDCS_pin stat # h"

partial_function (option) vs10xx_wait_dq :: "port_hw \<Rightarrow> history \<Rightarrow> (u8 \<times> history) option" where
  "vs10xx_wait_dq hw h = (let (v, h) = vs10xx_dq hw h in if v = 0 then vs10xx_wait_dq hw h else Some (0, h))"

definition vs10xx_play_dq :: "port_hw \<Rightarrow> history \<Rightarrow> u8 \<times> history" where
  "vs10xx_play_dq hw h = (dreq hw h, DQ_pin # h)"

definition vs10xx_play_rst :: "u8 \<Rightarrow> history \<Rightarrow> history" where "vs10xx_play_rst stat h = RST_pin stat # h"
definition vs10xx_play_xcs :: "u8 \<Rightarrow> history \<Rightarrow> history" where "vs10xx_play_xcs stat h = XCS_pin stat # h"
definition vs10xx_play_xdcs :: "u8 \<Rightarrow> history \<Rightarrow> history" where "vs10xx_play_xdcs stat h = XDCS_pin stat # h"

partial_function (option) vs10xx_play_wait_dq :: "port_hw \<Rightarrow> history \<Rightarrow> (u8 \<times> history) option" where
  "vs10xx_play_wait_dq hw h =
     (let (v, h) = vs10xx_play_dq hw h in if v = 0 then vs10xx_play_wait_dq hw h else Some (0, h))"

text \<open>The DMA channel sends the first \<open>cndtr\<close> bytes of the static buffer.\<close>

definition vs10xx_play_dma_enable :: "u8 list \<Rightarrow> nat \<Rightarrow> history \<Rightarrow> history option" where
  "vs10xx_play_dma_enable buff cndtr h = (if cndtr \<le> length buff then Some (DMA_sent (take cndtr buff) # h) else None)"

section \<open>The configurations\<close>

definition vs10xx_cfg :: "port_hw \<Rightarrow> history vs10xx_cfg_t" where
  "vs10xx_cfg hw = \<lparr>VS_SPI_ReadWriteByte = SPI1_ReadWriteByte hw,
     VS_SPI_SpeedLow = SPI1_SetSpeed SPI_BaudRatePrescaler_32, VS_SPI_SpeedHigh = SPI1_SetSpeed SPI_BaudRatePrescaler_8,
     VS_WAIT_DQ = vs10xx_wait_dq hw, VS_DQ = vs10xx_dq hw, VS_RST = vs10xx_rst, VS_XCS = vs10xx_xcs,
     VS_XDCS = vs10xx_xdcs, delay_ms = (\<lambda>n h. Delay_ms n # h), delay_us = (\<lambda>n h. Delay_us n # h)\<rparr>"

definition vs10xx_play_cfg :: "port_hw \<Rightarrow> history vs10xx_cfg_t" where
  "vs10xx_play_cfg hw = \<lparr>VS_SPI_ReadWriteByte = SPI3_ReadWriteByte hw,
     VS_SPI_SpeedLow = SPI3_SetSpeed SPI_BaudRatePrescaler_32, VS_SPI_SpeedHigh = SPI3_SetSpeed SPI_BaudRatePrescaler_8,
     VS_WAIT_DQ = vs10xx_play_wait_dq hw, VS_DQ = vs10xx_play_dq hw, VS_RST = vs10xx_play_rst, VS_XCS = vs10xx_play_xcs,
     VS_XDCS = vs10xx_play_xdcs, delay_ms = (\<lambda>n h. Delay_ms n # h), delay_us = (\<lambda>n h. Delay_us n # h)\<rparr>"

definition vs10xx_cfg_setup :: "port_hw \<Rightarrow> history \<Rightarrow> history option" where
  "vs10xx_cfg_setup hw h = do {
     (r, h) \<leftarrow> VS_Ram_Test (vs10xx_cfg hw) h;
     Some h
   }"

definition vs10xx_play_cfg_setup :: "port_hw \<Rightarrow> history \<Rightarrow> history option" where
  "vs10xx_play_cfg_setup hw h = do {
     (r, h) \<leftarrow> VS_Ram_Test (vs10xx_play_cfg hw) h;
     VS_Sine_Test (vs10xx_play_cfg hw) h
   }"

section \<open>The ports implement the interface\<close>

text \<open>Hardware that works: the flags of the SPI unit come before the driver gives up, and \<open>DREQ\<close> rises
  when it is polled for long enough.\<close>

definition hw_works :: "port_hw \<Rightarrow> bool" where
  "hw_works hw \<longleftrightarrow> spi_works hw \<and> (\<forall>h. \<exists>n. dreq hw (replicate n DQ_pin @ h) \<noteq> 0)"

lemma chip_replicate: "e \<in> {Poll_TXE, Poll_RXNE, DQ_pin} \<Longrightarrow> chip_of (replicate n e @ h) = chip_of h"
  by (induction n) auto

lemma spi_read_write_works:
  assumes "hw_works hw"
  shows "\<exists>r h'. spi_read_write hw b h = (r, h') \<and> chip_of h' = chip_xfer b r (chip_of h)"
proof -
  have "spi_works hw" using assms by (simp add: hw_works_def)
  from spi_transfer [OF this, of b h] show ?thesis
    using chip_replicate [of Poll_RXNE] chip_replicate [of Poll_TXE] by auto
qed

lemma dq_funpow: "((\<lambda>h. snd (dreq hw h, DQ_pin # h)) ^^ n) h = replicate n DQ_pin @ h"
  by (induction n) simp_all

lemma wait_dq_works:
  assumes "dreq hw (replicate n DQ_pin @ h) \<noteq> 0"
  shows "\<exists>m. vs10xx_wait_dq hw h = Some (0, replicate m DQ_pin @ h) \<and> vs10xx_play_wait_dq hw h = Some (0, replicate m DQ_pin @ h)"
  using assms
proof (induction n arbitrary: h)
  case 0
  then show ?case
    by (subst vs10xx_wait_dq.simps, subst vs10xx_play_wait_dq.simps)
      (auto simp: vs10xx_dq_def vs10xx_play_dq_def intro!: exI [of _ 1])
next
  case (Suc n)
  have "dreq hw (replicate n DQ_pin @ DQ_pin # h) \<noteq> 0" using Suc.prems by (simp add: replicate_app_Cons_same)
  then obtain m where m: "vs10xx_wait_dq hw (DQ_pin # h) = Some (0, replicate m DQ_pin @ DQ_pin # h)"
    "vs10xx_play_wait_dq hw (DQ_pin # h) = Some (0, replicate m DQ_pin @ DQ_pin # h)"
    using Suc.IH by blast
  show ?case
  proof (cases "dreq hw h = 0")
    case True
    then show ?thesis using m
      by (subst vs10xx_wait_dq.simps, subst vs10xx_play_wait_dq.simps)
        (auto simp: vs10xx_dq_def vs10xx_play_dq_def replicate_app_Cons_same intro!: exI [of _ "Suc m"])
  next
    case False
    then show ?thesis
      by (subst vs10xx_wait_dq.simps, subst vs10xx_play_wait_dq.simps)
        (auto simp: vs10xx_dq_def vs10xx_play_dq_def intro!: exI [of _ 1])
  qed
qed

lemma waits_work:
  assumes "hw_works hw"
  shows "\<exists>r h'. vs10xx_wait_dq hw h = Some (r, h') \<and> chip_of h' = chip_of h"
    "\<exists>r h'. vs10xx_play_wait_dq hw h = Some (r, h') \<and> chip_of h' = chip_of h"
proof -
  obtain n where "dreq hw (replicate n DQ_pin @ h) \<noteq> 0" using assms unfolding hw_works_def by blast
  then obtain m where "vs10xx_wait_dq hw h = Some (0, replicate m DQ_pin @ h)"
    "vs10xx_play_wait_dq hw h = Some (0, replicate m DQ_pin @ h)" using wait_dq_works by blast
  then show "\<exists>r h'. vs10xx_wait_dq hw h = Some (r, h') \<and> chip_of h' = chip_of h"
    "\<exists>r h'. vs10xx_play_wait_dq hw h = Some (r, h') \<and> chip_of h' = chip_of h"
    using chip_replicate [of DQ_pin m h] by auto
qed

interpretation recorder: vs_bus "vs10xx_cfg hw" "\<lambda>_. hw_works hw" chip_of for hw
proof
  fix h b assume w: "hw_works hw"
  show "\<exists>r h'. VS_SPI_ReadWriteByte (vs10xx_cfg hw) b h = (r, h') \<and> hw_works hw \<and> chip_of h' = chip_xfer b r (chip_of h)"
    using spi_read_write_works [OF w] w by (auto simp: vs10xx_cfg_def SPI1_ReadWriteByte_def)
  show "\<exists>n. fst (VS_DQ (vs10xx_cfg hw) (((\<lambda>s. snd (VS_DQ (vs10xx_cfg hw) s)) ^^ n) h)) \<noteq> 0"
    using w dq_funpow [where hw = hw and h = h] by (simp add: vs10xx_cfg_def vs10xx_dq_def hw_works_def)
  show "\<exists>r s'. VS_WAIT_DQ (vs10xx_cfg hw) h = Some (r, s') \<and> hw_works hw \<and> chip_of s' = chip_of h"
    using waits_work(1) [OF w, of h] w by (simp add: vs10xx_cfg_def)
qed (simp_all add: vs10xx_cfg_def SPI1_SetSpeed_def vs10xx_dq_def vs10xx_rst_def vs10xx_xcs_def vs10xx_xdcs_def)

interpretation player: vs_bus "vs10xx_play_cfg hw" "\<lambda>_. hw_works hw" chip_of for hw
proof
  fix h b assume w: "hw_works hw"
  show "\<exists>r h'. VS_SPI_ReadWriteByte (vs10xx_play_cfg hw) b h = (r, h') \<and> hw_works hw \<and> chip_of h' = chip_xfer b r (chip_of h)"
    using spi_read_write_works [OF w] w by (auto simp: vs10xx_play_cfg_def SPI3_ReadWriteByte_def)
  show "\<exists>n. fst (VS_DQ (vs10xx_play_cfg hw) (((\<lambda>s. snd (VS_DQ (vs10xx_play_cfg hw) s)) ^^ n) h)) \<noteq> 0"
    using w dq_funpow [where hw = hw and h = h] by (simp add: vs10xx_play_cfg_def vs10xx_play_dq_def hw_works_def)
  show "\<exists>r s'. VS_WAIT_DQ (vs10xx_play_cfg hw) h = Some (r, s') \<and> hw_works hw \<and> chip_of s' = chip_of h"
    using waits_work(2) [OF w, of h] w by (simp add: vs10xx_play_cfg_def)
qed (simp_all add: vs10xx_play_cfg_def SPI3_SetSpeed_def vs10xx_play_dq_def vs10xx_play_rst_def vs10xx_play_xcs_def
    vs10xx_play_xdcs_def)

end
