(* ===== verification/Wav.thy ===== *)
theory Wav
  imports YH_Prelude
begin

text \<open>
  The header of a WAV file, \<open>src/init/wav.c\<close> with the packed structures of \<open>include/wav.h\<close>, and its bytes in
  memory on the little-endian target.
\<close>

section \<open>Words as bytes\<close>

definition le16 :: "u16 \<Rightarrow> u8 list" where
  "le16 w = [ucast w, ucast (drop_bit 8 w)]"

definition le32 :: "u32 \<Rightarrow> u8 list" where
  "le32 w = [ucast w, ucast (drop_bit 8 w), ucast (drop_bit 16 w), ucast (drop_bit 24 w)]"

fun un16 :: "u8 list \<Rightarrow> u16" where
  "un16 [a, b] = ucast a OR push_bit 8 (ucast b)"
| "un16 _ = 0"

fun un32 :: "u8 list \<Rightarrow> u32" where
  "un32 [a, b, c, d] = ucast a OR push_bit 8 (ucast b) OR push_bit 16 (ucast c) OR push_bit 24 (ucast d)"
| "un32 _ = 0"

lemma un16_le16 [simp]: "un16 (le16 w) = w"
  unfolding le16_def un16.simps by (rule bit_word_eqI) (auto simp: bit_simps not_le)

lemma un32_le32 [simp]: "un32 (le32 w) = w"
unfolding le32_def un32.simps
proof (rule bit_word_eqI)
  fix n assume "n < LENGTH(32)"
  then consider "n < 8" | "8 \<le> n" "n < 16" | "16 \<le> n" "n < 24" | "24 \<le> n" "n < 32" by fastforce
  then show "bit (ucast (ucast w :: u8) OR push_bit 8 (ucast (ucast (drop_bit 8 w) :: u8)) OR
      push_bit 16 (ucast (ucast (drop_bit 16 w) :: u8)) OR push_bit 24 (ucast (ucast (drop_bit 24 w) :: u8)) :: u32) n = bit w n"
    by cases (auto simp: bit_simps)
qed

lemma length_le [simp]: "length (le16 w) = 2" "length (le32 v) = 4"
  by (simp_all add: le16_def le32_def)

section \<open>The header\<close>

record ChunkRIFF =
  riff_ChunkID :: u32
  riff_ChunkSize :: u32
  riff_Format :: u32

record ChunkFMT =
  fmt_ChunkID :: u32
  fmt_ChunkSize :: u32
  AudioFormat :: u16
  NumOfChannels :: u16
  SampleRate :: u32
  ByteRate :: u32
  BlockAlign :: u16
  BitsPerSample :: u16

record ChunkDATA =
  data_ChunkID :: u32
  data_ChunkSize :: u32

record WaveHeaderStruct =
  wh_riff :: ChunkRIFF
  wh_fmt :: ChunkFMT
  wh_data :: ChunkDATA

text \<open>Every field is written, whatever the structure held.\<close>

definition wav_header_init :: "u32 \<Rightarrow> u32 \<Rightarrow> WaveHeaderStruct \<Rightarrow> WaveHeaderStruct" where
  "wav_header_init riff_sz data_sz wavhead =
     (let rate = 8000 in
      \<lparr>wh_riff = \<lparr>riff_ChunkID = 0x46464952, riff_ChunkSize = riff_sz, riff_Format = 0x45564157\<rparr>,
       wh_fmt = \<lparr>fmt_ChunkID = 0x20746D66, fmt_ChunkSize = 16, AudioFormat = 0x01, NumOfChannels = 1,
         SampleRate = rate, ByteRate = rate * 2, BlockAlign = 2, BitsPerSample = 16\<rparr>,
       wh_data = \<lparr>data_ChunkID = 0x61746164, data_ChunkSize = data_sz\<rparr>\<rparr>)"

text \<open>The structure as the bytes that \<open>sendto\<close> and \<open>vs10xx_send_data\<close> are given.\<close>

definition wav_bytes :: "WaveHeaderStruct \<Rightarrow> u8 list" where
  "wav_bytes w =
     le32 (riff_ChunkID (wh_riff w)) @ le32 (riff_ChunkSize (wh_riff w)) @ le32 (riff_Format (wh_riff w)) @
     le32 (fmt_ChunkID (wh_fmt w)) @ le32 (fmt_ChunkSize (wh_fmt w)) @ le16 (AudioFormat (wh_fmt w)) @
     le16 (NumOfChannels (wh_fmt w)) @ le32 (SampleRate (wh_fmt w)) @ le32 (ByteRate (wh_fmt w)) @
     le16 (BlockAlign (wh_fmt w)) @ le16 (BitsPerSample (wh_fmt w)) @
     le32 (data_ChunkID (wh_data w)) @ le32 (data_ChunkSize (wh_data w))"

lemma length_wav_bytes [simp]: "length (wav_bytes w) = 44"
  by (simp add: wav_bytes_def)

text \<open>A reader of such a header: the fields at their offsets.\<close>

definition field32 :: "nat \<Rightarrow> u8 list \<Rightarrow> u32" where "field32 i bs = un32 (take 4 (drop i bs))"
definition field16 :: "nat \<Rightarrow> u8 list \<Rightarrow> u16" where "field16 i bs = un16 (take 2 (drop i bs))"

definition wav_parse :: "u8 list \<Rightarrow> WaveHeaderStruct option" where
  "wav_parse bs = (if length bs < 44 then None else Some
     \<lparr>wh_riff = \<lparr>riff_ChunkID = field32 0 bs, riff_ChunkSize = field32 4 bs, riff_Format = field32 8 bs\<rparr>,
      wh_fmt = \<lparr>fmt_ChunkID = field32 12 bs, fmt_ChunkSize = field32 16 bs, AudioFormat = field16 20 bs,
        NumOfChannels = field16 22 bs, SampleRate = field32 24 bs, ByteRate = field32 28 bs,
        BlockAlign = field16 32 bs, BitsPerSample = field16 34 bs\<rparr>,
      wh_data = \<lparr>data_ChunkID = field32 36 bs, data_ChunkSize = field32 40 bs\<rparr>\<rparr>)"

lemma wav_parse_bytes: "wav_parse (wav_bytes w @ rest) = Some w"
  by (cases w) (simp add: wav_parse_def wav_bytes_def field32_def field16_def)

end
