(* ===== verification/Player.thy ===== *)
theory Player
  imports Vs_Port Wav "HOL-Library.Sublist"
begin

text \<open>
  The side of \<open>src/task/task_play.c\<close> that feeds the decoder: a file header sent by the processor, music sent
  by DMA in frames of \<open>SEND_NUM_PER_FRAME\<close> bytes, and what \<open>play\<close> does before its loop.
\<close>

section \<open>Music by the processor\<close>

function send_frames :: "'s vs10xx_cfg_t \<Rightarrow> u8 list \<Rightarrow> int \<Rightarrow> int \<Rightarrow> 's \<Rightarrow> (int \<times> 's) option" where
  "send_frames cfg pbuff len i s =
     (if i < len - SEND_NUM_PER_FRAME then do {
        (r, s) \<leftarrow> VS_Send_MusicData cfg (drop (nat i) pbuff) s;
        send_frames cfg pbuff len (i + SEND_NUM_PER_FRAME) s
      } else Some (i, s))"
  by pat_completeness auto
termination by (relation "measure (\<lambda>(cfg, pbuff, len, i, s). nat (len - i))") (auto simp: SEND_NUM_PER_FRAME_def)

declare send_frames.simps [simp del]

definition vs10xx_send_data :: "'s vs10xx_cfg_t \<Rightarrow> u8 list \<Rightarrow> int \<Rightarrow> 's \<Rightarrow> 's option" where
  "vs10xx_send_data cfg pbuff len s = do {
     (i, s) \<leftarrow> send_frames cfg pbuff len 0 s;
     if i < len then do {
       (r, s) \<leftarrow> VS_Send_MusicData2 cfg (drop (nat i) pbuff) (len - i) s;
       Some s
     } else Some s
   }"

section \<open>Music by DMA\<close>

text \<open>The frame at \<open>i\<close>, of \<open>n\<close> bytes, is copied to \<open>vs10xx_play_dma_buff\<close> and, if \<open>DREQ\<close> is high, handed to the
  DMA channel while \<open>XDCS\<close> is low; then the task sleeps for two ticks. The state is that buffer and the
  history of the port.\<close>

definition dma_frame :: "port_hw \<Rightarrow> u8 list \<Rightarrow> int \<Rightarrow> int \<Rightarrow> u8 list \<times> history \<Rightarrow> (u8 list \<times> history) option" where
  "dma_frame hw pbuff i n = (\<lambda>(buff, h). do {
     buff \<leftarrow> blit buff 0 pbuff (nat i) (nat n);
     let (v, h) = VS_DQ (vs10xx_play_cfg hw) h;
     h \<leftarrow> (if v \<noteq> 0 then vs10xx_play_dma_enable buff (nat n) (VS_XDCS (vs10xx_play_cfg hw) 0 h) else Some h);
     Some (buff, Time_Dly 2 # h)
   })"

function dma_frames :: "port_hw \<Rightarrow> u8 list \<Rightarrow> int \<Rightarrow> int \<Rightarrow> u8 list \<times> history \<Rightarrow> (int \<times> u8 list \<times> history) option" where
  "dma_frames hw pbuff len i s =
     (if i < len - SEND_NUM_PER_FRAME then do {
        (buff, h) \<leftarrow> dma_frame hw pbuff i SEND_NUM_PER_FRAME s;
        dma_frames hw pbuff len (i + SEND_NUM_PER_FRAME) (buff, VS_XDCS (vs10xx_play_cfg hw) 1 h)
      } else Some (i, s))"
  by pat_completeness auto
termination by (relation "measure (\<lambda>(hw, pbuff, len, i, s). nat (len - i))") (auto simp: SEND_NUM_PER_FRAME_def)

declare dma_frames.simps [simp del]

definition vs10xx_play_dma_send_data :: "port_hw \<Rightarrow> u8 list \<Rightarrow> int \<Rightarrow> u8 list \<times> history \<Rightarrow> (u8 list \<times> history) option" where
  "vs10xx_play_dma_send_data hw pbuff len s = do {
     (i, s) \<leftarrow> dma_frames hw pbuff len 0 s;
     if i < len then dma_frame hw pbuff i (len - i) s else Some s
   }"

section \<open>Before the loop\<close>

definition play_prologue :: "port_hw \<Rightarrow> WaveHeaderStruct \<Rightarrow> history \<Rightarrow> history option" where
  "play_prologue hw wh h = do {
     let wh = wav_header_init (512 + 36) 512 wh;
     h \<leftarrow> VS_Restart_Play (vs10xx_play_cfg hw) h;
     h \<leftarrow> VS_Set_All (vs10xx_play_cfg hw) h;
     h \<leftarrow> VS_Reset_DecodeTime (vs10xx_play_cfg hw) h;
     let h = VS_SPI_SpeedHigh (vs10xx_play_cfg hw) h;
     vs10xx_send_data (vs10xx_play_cfg hw) (wav_bytes wh) 44 h
   }"

section \<open>Frames\<close>

text \<open>The data cut into frames of \<open>n\<close> bytes, the last one shorter.\<close>

function frames :: "nat \<Rightarrow> u8 list \<Rightarrow> u8 list list" where
  "frames n xs = (if n = 0 \<or> xs = [] then [] else take n xs # frames n (drop n xs))"
  by pat_completeness auto
termination by (relation "measure (\<lambda>(n, xs). length xs)") auto

declare frames.simps [simp del]

lemma frames_Nil [simp]: "frames n [] = []"
  by (simp add: frames.simps)

lemma concat_frames: "n \<noteq> 0 \<Longrightarrow> concat (frames n xs) = xs"
proof (induction n xs rule: frames.induct)
  case (1 n xs)
  then show ?case by (cases "xs = []") (simp_all add: frames.simps [of n xs])
qed

text \<open>The music a decoder has been given: the transfers on its data interface, the one in progress
  included.\<close>

definition sdi_data :: "vs_op \<Rightarrow> u8 list" where
  "sdi_data op = (case op of Sdi bs \<Rightarrow> bs | _ \<Rightarrow> [])"

definition music :: "vs_chip \<Rightarrow> u8 list" where
  "music c = concat (map sdi_data (ops c)) @ (if xdcs_low c then map fst (frame c) else [])"

lemma fold_xfer:
  "xdcs_low c \<Longrightarrow> fold (\<lambda>b. chip_xfer b 0) bs c = c\<lparr>frame := frame c @ map (\<lambda>b. (b, 0)) bs\<rparr>"
  by (induction bs arbitrary: c) (simp_all add: chip_xfer_def)

text \<open>A frame is given to the decoder whole, or not at all when \<open>DREQ\<close> is low.\<close>

lemma dma_frame_music:
  assumes "\<not> xcs_low (chip_of h)" "0 \<le> i" "0 \<le> n" "n \<le> 160" "nat i + nat n \<le> length pbuff" "length buff = 160"
  shows "\<exists>buff' h'. dma_frame hw pbuff i n (buff, h) = Some (buff', h') \<and> length buff' = 160 \<and> \<not> xcs_low (chip_of h') \<and>
    music (chip_of h') = music (chip_of h) @ (if dreq hw h \<noteq> 0 then take (nat n) (drop (nat i) pbuff) else [])"
proof -
  define b where "b = take (nat n) (drop (nat i) pbuff) @ drop (nat n) buff"
  have b: "blit buff 0 pbuff (nat i) (nat n) = Some b" "length b = 160" "take (nat n) b = take (nat n) (drop (nat i) pbuff)"
    using assms(2-6) by (simp_all add: blit_def b_def)
  have d: "VS_DQ (vs10xx_play_cfg hw) h = (dreq hw h, DQ_pin # h)" "VS_XDCS (vs10xx_play_cfg hw) 0 = (#) (XDCS_pin 0)"
    by (simp_all add: vs10xx_play_cfg_def vs10xx_play_dq_def vs10xx_play_xdcs_def fun_eq_iff)
  show ?thesis
  proof (cases "dreq hw h = 0")
    case True
    then show ?thesis using b assms(1) by (simp add: dma_frame_def d)
  next
    case False
    define h' where "h' = Time_Dly 2 # DMA_sent (take (nat n) b) # XDCS_pin 0 # DQ_pin # h"
    have "nat n \<le> 160" using assms(4) by simp
    then have "dma_frame hw pbuff i n (buff, h) = Some (b, h')"
      using b False by (simp add: dma_frame_def d vs10xx_play_dma_enable_def h'_def)
    moreover have "chip_of h' = (chip_xdcs 0 (chip_of h))\<lparr>frame := frame (chip_xdcs 0 (chip_of h)) @ map (\<lambda>b. (b, 0)) (take (nat n) b)\<rparr>"
      by (simp add: h'_def) (rule fold_xfer, simp add: chip_xdcs_def)
    then have "music (chip_of h') = music (chip_of h) @ take (nat n) b \<and> \<not> xcs_low (chip_of h')"
      using assms(1) by (simp add: music_def chip_xdcs_def comp_def)
    ultimately show ?thesis using b False by auto
  qed
qed

lemma xdcs_music: "music (chip_xdcs 1 c) = music c"
  by (simp add: music_def chip_xdcs_def sdi_data_def)

lemma XDCS_pin: "VS_XDCS (vs10xx_play_cfg hw) v h = XDCS_pin v # h"
  by (simp add: vs10xx_play_cfg_def vs10xx_play_xdcs_def)

lemma dma_run_music:
  assumes "\<not> xcs_low (chip_of h)" "0 \<le> i" "len \<le> int (length pbuff)" "length buff = 160"
  shows "\<exists>buff' h' cs. do { (i, s) \<leftarrow> dma_frames hw pbuff len i (buff, h);
       if i < len then dma_frame hw pbuff i (len - i) s else Some s } = Some (buff', h') \<and>
    length buff' = 160 \<and> \<not> xcs_low (chip_of h') \<and> music (chip_of h') = music (chip_of h) @ concat cs \<and>
    subseq cs (frames 160 (drop (nat i) (take (nat len) pbuff))) \<and>
    ((\<forall>h. dreq hw h \<noteq> 0) \<longrightarrow> cs = frames 160 (drop (nat i) (take (nat len) pbuff)))"
  using assms(1,2,4)
proof (induction "nat (len - i)" arbitrary: i buff h rule: less_induct)
  case less
  define xs where "xs = drop (nat i) (take (nat len) pbuff)"
  have lx: "length xs = nat (len - i)" using assms(3) less.prems(2) by (simp add: xs_def)
  show ?case
  proof (cases "i < len - 160")
    case False
    then have stop: "dma_frames hw pbuff len i (buff, h) = Some (i, buff, h)"
      by (subst dma_frames.simps) (simp add: SEND_NUM_PER_FRAME_def)
    show ?thesis
    proof (cases "i < len")
      case no: False
      then have "xs = []" using lx by simp
      then show ?thesis using stop no less.prems by (auto simp flip: xs_def intro: exI [of _ "[]"])
    next
      case True
      have n: "0 \<le> len - i" "len - i \<le> 160" "nat i + nat (len - i) \<le> length pbuff"
        using True False assms(3) less.prems(2) by auto
      have tk: "take (nat (len - i)) (drop (nat i) pbuff) = xs"
        using less.prems(2) True by (simp add: xs_def drop_take nat_diff_distrib)
      obtain buff' h' where r: "dma_frame hw pbuff i (len - i) (buff, h) = Some (buff', h')" "length buff' = 160"
        "\<not> xcs_low (chip_of h')" "music (chip_of h') = music (chip_of h) @ (if dreq hw h \<noteq> 0 then xs else [])"
        using dma_frame_music [OF less.prems(1,2) n less.prems(3), of hw] unfolding tk by blast
      have fr: "frames 160 xs = [xs]"
      proof -
        have "xs \<noteq> []" "length xs \<le> 160" using lx True n(2) by auto
        then show ?thesis by (simp add: frames.simps [of 160 xs])
      qed
      show ?thesis
        using stop True r unfolding xs_def [symmetric] fr
        by (intro exI [of _ buff'] exI [of _ h'] exI [of _ "if dreq hw h \<noteq> 0 then [xs] else []"]) simp
    qed
  next
    case True
    have n: "(0::int) \<le> 160" "(160::int) \<le> 160" "nat i + nat 160 \<le> length pbuff" using True assms(3) less.prems(2) by auto
    have tk: "take (nat 160) (drop (nat i) pbuff) = take 160 xs"
      using less.prems(2) True by (simp add: xs_def drop_take)
    obtain b1 h1 where r: "dma_frame hw pbuff i 160 (buff, h) = Some (b1, h1)" "length b1 = 160"
      "\<not> xcs_low (chip_of h1)" "music (chip_of h1) = music (chip_of h) @ (if dreq hw h \<noteq> 0 then take 160 xs else [])"
      using dma_frame_music [OF less.prems(1,2) n less.prems(3), of hw] unfolding tk by blast
    define h2 where "h2 = XDCS_pin 1 # h1"
    have h2: "\<not> xcs_low (chip_of h2)" "music (chip_of h2) = music (chip_of h1)"
      using r(3) xdcs_music by (simp_all add: h2_def chip_xdcs_def)
    have go: "dma_frames hw pbuff len i (buff, h) = dma_frames hw pbuff len (i + 160) (b1, h2)"
      using True r(1) by (subst dma_frames.simps) (simp add: SEND_NUM_PER_FRAME_def XDCS_pin h2_def)
    have "nat (len - (i + 160)) < nat (len - i)" using True by simp
    from less.hyps [OF this h2(1) _ r(2)] less.prems(2) obtain b3 h3 cs where ih:
      "do { (i, s) \<leftarrow> dma_frames hw pbuff len (i + 160) (b1, h2);
         if i < len then dma_frame hw pbuff i (len - i) s else Some s } = Some (b3, h3)"
      "length b3 = 160" "\<not> xcs_low (chip_of h3)" "music (chip_of h3) = music (chip_of h2) @ concat cs"
      "subseq cs (frames 160 (drop (nat (i + 160)) (take (nat len) pbuff)))"
      "(\<forall>h. dreq hw h \<noteq> 0) \<longrightarrow> cs = frames 160 (drop (nat (i + 160)) (take (nat len) pbuff))"
      by auto
    have dr: "drop (nat (i + 160)) (take (nat len) pbuff) = drop 160 xs"
      using less.prems(2) by (simp add: xs_def nat_add_distrib add.commute)
    have fr: "frames 160 xs = take 160 xs # frames 160 (drop 160 xs)"
      using lx True by (subst frames.simps) auto
    show ?thesis
      using ih r(4) h2(2) unfolding go dr xs_def [symmetric] fr
      by (intro exI [of _ b3] exI [of _ h3] exI [of _ "(if dreq hw h \<noteq> 0 then [take 160 xs] else []) @ cs"]) auto
  qed
qed

end
