(* ===== verification/Recorder.thy ===== *)
theory Recorder
  imports Vs_Port Wav
begin

text \<open>
  The recorder task \<open>src/task/task_udpclient.c\<close>: while the line is open it reads blocks of samples from the
  decoder chip and sends each as a datagram, after the header of a WAV file. The datagrams are the
  result; the state of the line at the end of each turn is an argument, since the server task sets it.
\<close>

section \<open>One block\<close>

text \<open>\<open>while (idx < 512) { w = VS_RD_Reg (SPI_HDAT0); snddata[idx++] = w & 0XFF; snddata[idx++] = w >> 8; }\<close>\<close>

function record_block :: "'s vs10xx_cfg_t \<Rightarrow> nat \<Rightarrow> u8 list \<Rightarrow> 's \<Rightarrow> (u8 list \<times> 's) option" where
  "record_block cfg idx snddata s =
     (if idx < 512 then do {
        (w, s) \<leftarrow> VS_RD_Reg cfg SPI_HDAT0 s;
        snddata \<leftarrow> wr snddata idx (ucast (w AND 0xFF));
        snddata \<leftarrow> wr snddata (idx + 1) (ucast (drop_bit 8 w));
        record_block cfg (idx + 2) snddata s
      } else Some (snddata, s))"
  by pat_completeness auto
termination by (relation "measure (\<lambda>(cfg, idx, snddata, s). 512 - idx)") auto

declare record_block.simps [simp del]

text \<open>One turn of the inner loop: the datagram sent, if a block is ready.\<close>

definition client_turn :: "'s vs10xx_cfg_t \<Rightarrow> u8 list \<Rightarrow> 's \<Rightarrow> (u8 list list \<times> u8 list \<times> 's) option" where
  "client_turn cfg snddata s = do {
     (w, s) \<leftarrow> VS_RD_Reg cfg SPI_HDAT1 s;
     if w \<ge> 256 \<and> w < 896 then do {
       (snddata, s) \<leftarrow> record_block cfg 0 snddata s;
       Some ([snddata], snddata, s)
     } else Some ([], snddata, s)
   }"

text \<open>The inner loop, given what \<open>is_line_established\<close> is at the end of each turn, ends when it is 0 (or when
  no more turns are looked at).\<close>

fun client_turns :: "'s vs10xx_cfg_t \<Rightarrow> u8 list \<Rightarrow> u8 list \<Rightarrow> 's \<Rightarrow> (u8 list list \<times> u8 list \<times> 's) option" where
  "client_turns cfg snddata [] s = Some ([], snddata, s)"
| "client_turns cfg snddata (line # lines) s = do {
     (out, snddata, s) \<leftarrow> client_turn cfg snddata s;
     if line = 0 then Some (out, snddata, s)
     else do {
       (outs, snddata, s) \<leftarrow> client_turns cfg snddata lines s;
       Some (out @ outs, snddata, s)
     }
   }"

text \<open>What follows \<open>OSSemPend\<close>: the header for 500 blocks, then the blocks.\<close>

definition client_session ::
  "'s vs10xx_cfg_t \<Rightarrow> WaveHeaderStruct \<Rightarrow> u8 list \<Rightarrow> u8 list \<Rightarrow> 's \<Rightarrow> (u8 list list \<times> u8 list \<times> 's) option" where
  "client_session cfg wav_header snddata lines s = do {
     let cnt = 500;
     let wav_header = wav_header_init (cnt * 512 + 36) (cnt * 512) wav_header;
     (outs, snddata, s) \<leftarrow> client_turns cfg snddata lines s;
     Some (wav_bytes wav_header # outs, snddata, s)
   }"

text \<open>\<open>while (VS_RD_Reg (&g_vs10xx_rec_cfg, SPI_HDAT1) >> 8);\<close>\<close>

partial_function (option) hdat1_wait :: "'s vs10xx_cfg_t \<Rightarrow> 's \<Rightarrow> 's option" where
  "hdat1_wait cfg s = do {
     (w, s) \<leftarrow> VS_RD_Reg cfg SPI_HDAT1 s;
     if drop_bit 8 w \<noteq> 0 then hdat1_wait cfg s else Some s
   }"

text \<open>What the task does before its loop, as far as the decoder goes.\<close>

definition client_start :: "'s vs10xx_cfg_t \<Rightarrow> 's \<Rightarrow> 's option" where
  "client_start cfg s = do {
     s \<leftarrow> recoder_enter_rec_mode cfg (1024 * 4) s;
     hdat1_wait cfg s
   }"

section \<open>Blocks are the words read\<close>

lemma byte_of_word: "ucast ((w :: u16) AND 0xFF) = (ucast w :: u8)"
proof -
  have e: "(0xFF :: u16) = mask 8" by (simp add: mask_eq_exp_minus_1)
  show ?thesis unfolding e by (rule bit_word_eqI) (auto simp: bit_simps)
qed

text \<open>A turn as the chip sees it: the word read from \<open>SPI_HDAT1\<close> and the words of the block, if there was one.\<close>

definition good_turn :: "u16 \<times> u16 list \<Rightarrow> bool" where
  "good_turn t \<longleftrightarrow> length (snd t) = (if 256 \<le> fst t \<and> fst t < 896 then 256 else 0)"

definition turn_ops :: "u16 \<times> u16 list \<Rightarrow> vs_op list" where
  "turn_ops t = Sci_Read SPI_HDAT1 (fst t) # map (Sci_Read SPI_HDAT0) (snd t)"

definition turn_out :: "u16 \<times> u16 list \<Rightarrow> u8 list list" where
  "turn_out t = (if snd t = [] then [] else [concat (map le16 (snd t))])"

text \<open>The loop makes one turn more than the line was open at the end of a turn.\<close>

fun turns_made :: "u8 list \<Rightarrow> nat" where
  "turns_made [] = 0"
| "turns_made (line # lines) = (if line = 0 then 1 else Suc (turns_made lines))"

context vs_bus
begin

lemma record_block_yields:
  assumes "ok s" "idle (chip s)" "length d = 512" "even idx" "idx \<le> 512"
  shows "\<exists>ws. length ws = (512 - idx) div 2 \<and>
    yields s (record_block cfg idx d s) (take idx d @ concat (map le16 ws)) (map (Sci_Read SPI_HDAT0) ws)"
  using assms
proof (induction "512 - idx" arbitrary: idx d s rule: less_induct)
  case less
  show ?case
  proof (cases "idx < 512")
    case False
    then show ?thesis using less.prems by (subst record_block.simps) (simp add: yields_def)
  next
    case True
    then have idx: "idx + 1 < 512" using less.prems(4) by presburger
    obtain w s1 where s1: "VS_RD_Reg cfg SPI_HDAT0 s = Some (w, s1)" "ok s1" "idle (chip s1)"
      "chip s1 = understood [Sci_Read SPI_HDAT0 w] (chip s)"
      using VS_RD_Reg_yields [OF less.prems(1,2)] unfolding yields_def by blast
    define d1 where "d1 = d[idx := ucast w, idx + 1 := ucast (drop_bit 8 w)]"
    have go: "record_block cfg idx d s = record_block cfg (idx + 2) d1 s1"
      using True idx less.prems(3) s1(1) by (subst record_block.simps) (simp add: wr_def d1_def byte_of_word)
    have "512 - (idx + 2) < 512 - idx" "length d1 = 512" "even (idx + 2)" "idx + 2 \<le> 512"
      using True idx less.prems(3,4) by (auto simp: d1_def)
    then obtain ws s2 where ws: "length ws = (512 - (idx + 2)) div 2"
      "record_block cfg (idx + 2) d1 s1 = Some (take (idx + 2) d1 @ concat (map le16 ws), s2)" "ok s2" "idle (chip s2)"
      "chip s2 = understood (map (Sci_Read SPI_HDAT0) ws) (chip s1)"
      using less.hyps [of "idx + 2" s1 d1] s1(2,3) unfolding yields_def by blast
    have t: "take (idx + 2) d1 = take idx d @ le16 w"
      using idx less.prems(3) by (simp add: d1_def le16_def take_Suc_conv_app_nth nth_list_update)
    have "yields s (record_block cfg idx d s) (take idx d @ concat (map le16 (w # ws))) (map (Sci_Read SPI_HDAT0) (w # ws))"
      using ws(2-5) s1(4) unfolding go t yields_def by simp
    moreover have "length (w # ws) = (512 - idx) div 2" using ws(1) idx less.prems(4) by auto
    ultimately show ?thesis by blast
  qed
qed

lemma client_turn_does:
  assumes "ok s" "idle (chip s)" "length d = 512"
  shows "\<exists>t d' s'. client_turn cfg d s = Some (turn_out t, d', s') \<and> length d' = 512 \<and> good_turn t \<and>
    ok s' \<and> idle (chip s') \<and> chip s' = understood (turn_ops t) (chip s)"
proof -
  obtain v s1 where s1: "VS_RD_Reg cfg SPI_HDAT1 s = Some (v, s1)" "ok s1" "idle (chip s1)"
    "chip s1 = understood [Sci_Read SPI_HDAT1 v] (chip s)"
    using VS_RD_Reg_yields [OF assms(1,2)] unfolding yields_def by blast
  show ?thesis
  proof (cases "v \<ge> 256 \<and> v < 896")
    case True
    obtain ws s2 where ws: "length ws = 256" "record_block cfg 0 d s1 = Some (concat (map le16 ws), s2)" "ok s2" "idle (chip s2)"
      "chip s2 = understood (map (Sci_Read SPI_HDAT0) ws) (chip s1)"
      using record_block_yields [OF s1(2,3) assms(3), of 0] unfolding yields_def by auto
    have "length (concat (map le16 ws)) = 512" using ws(1) by (simp add: length_concat comp_def sum_list_triv)
    moreover have "ws \<noteq> []" using ws(1) by auto
    ultimately show ?thesis
      using s1 ws True by (intro exI [of _ "(v, ws)"]) (simp add: client_turn_def turn_out_def turn_ops_def good_turn_def)
  next
    case False
    then show ?thesis
      using s1 assms(3) by (intro exI [of _ "(v, [])"]) (auto simp: client_turn_def turn_out_def turn_ops_def good_turn_def)
  qed
qed

lemma client_turns_does:
  assumes "ok s" "idle (chip s)" "length d = 512"
  shows "\<exists>ts d' s'. client_turns cfg d lines s = Some (concat (map turn_out ts), d', s') \<and> length d' = 512 \<and>
    length ts = turns_made lines \<and> (\<forall>t \<in> set ts. good_turn t) \<and>
    ok s' \<and> idle (chip s') \<and> chip s' = understood (concat (map turn_ops ts)) (chip s)"
  using assms
proof (induction lines arbitrary: s d)
  case Nil
  then have "client_turns cfg d [] s = Some (concat (map turn_out []), d, s)" by simp
  with Nil show ?case by fastforce
next
  case (Cons line lines)
  obtain t d1 s1 where t: "client_turn cfg d s = Some (turn_out t, d1, s1)" "length d1 = 512" "good_turn t"
    "ok s1" "idle (chip s1)" "chip s1 = understood (turn_ops t) (chip s)"
    using client_turn_does [OF Cons.prems] by blast
  show ?case
  proof (cases "line = 0")
    case True
    then show ?thesis using t by (intro exI [of _ "[t]"]) simp
  next
    case False
    obtain ts d' s' where ts: "client_turns cfg d1 lines s1 = Some (concat (map turn_out ts), d', s')" "length d' = 512"
      "length ts = turns_made lines" "\<forall>t \<in> set ts. good_turn t" "ok s'" "idle (chip s')"
      "chip s' = understood (concat (map turn_ops ts)) (chip s1)"
      using Cons.IH [OF t(4,5,2)] by blast
    then show ?thesis using t False by (intro exI [of _ "t # ts"]) simp
  qed
qed

end

end
