(* ===== verification/Vs_Thms.thy ===== *)
theory Vs_Thms
  imports Player Recorder App_Pool
begin

text \<open>
  The properties of the decoder driver and of the tasks that use it, on the two ports.
\<close>

section \<open>Hardware that works\<close>

definition ready_hw :: port_hw where
  "ready_hw = \<lparr>flag_TXE = (\<lambda>_. True), flag_RXNE = (\<lambda>_. True), spi_data = (\<lambda>_. 0x80), dreq = (\<lambda>_. 1)\<rparr>"

lemma ready_hw_works: "hw_works ready_hw"
  by (auto simp: hw_works_def spi_works_def ready_hw_def)

definition wh0 :: WaveHeaderStruct where
  "wh0 = \<lparr>wh_riff = \<lparr>riff_ChunkID = 0, riff_ChunkSize = 0, riff_Format = 0\<rparr>,
     wh_fmt = \<lparr>fmt_ChunkID = 0, fmt_ChunkSize = 0, AudioFormat = 0, NumOfChannels = 0, SampleRate = 0, ByteRate = 0,
       BlockAlign = 0, BitsPerSample = 0\<rparr>,
     wh_data = \<lparr>data_ChunkID = 0, data_ChunkSize = 0\<rparr>\<rparr>"

lemma idle_start: "idle (chip_of [])"
  by (simp add: idle_def)

section \<open>Properties\<close>

text \<open>C30. Registers. On hardware that works a write of the driver is understood by the chip as that write and
  nothing else, and a read returns the word the chip answered with; both leave the select lines high.\<close>

theorem registers_roundtrip:
  assumes "hw_works hw" "idle (chip_of h)"
  shows "(\<exists>h'. VS_WR_Cmd (vs10xx_play_cfg hw) a d h = Some h' \<and> idle (chip_of h') \<and>
      chip_of h' = understood [Sci_Write a d] (chip_of h)) \<and>
    (\<exists>v h'. VS_RD_Reg (vs10xx_cfg hw) a h = Some (v, h') \<and> idle (chip_of h') \<and>
      chip_of h' = understood [Sci_Read a v] (chip_of h))"
  using player.VS_WR_Cmd_does [OF assms, of a d] recorder.VS_RD_Reg_yields [OF assms, of a]
  unfolding player.does_def recorder.yields_def by blast

theorem registers_roundtrip_witness:
  "\<exists>h'. VS_WR_Cmd (vs10xx_play_cfg ready_hw) 0x0b 0x2222 [] = Some h' \<and> ops (chip_of h') = [Sci_Write 0x0b 0x2222]"
  using registers_roundtrip [OF ready_hw_works idle_start, of "0x0b" "0x2222"] by (auto simp: understood_def)

text \<open>C31. Patches. The loop with the index of sixteen bits writes exactly the words that the decompressor
  on lists gives, for every well-formed patch of less than 65536 words.\<close>

theorem VS_Load_Patch_decompresses:
  assumes "hw_works hw" "idle (chip_of h)" "length patch < 65536" "plugin_writes patch = Some ws"
  shows "\<exists>h'. VS_Load_Patch (vs10xx_cfg hw) patch (of_nat (length patch)) h = Some h' \<and> idle (chip_of h') \<and>
    chip_of h' = understood (map (\<lambda>(a, v). Sci_Write a v) ws) (chip_of h)"
  using recorder.VS_Load_Patch_does [OF assms] unfolding recorder.does_def sci_writes_def by blast

theorem VS_Load_Patch_decompresses_witness:
  "\<exists>h'. VS_Load_Patch (vs10xx_cfg ready_hw) [7, 1, 0x8010, 6, 0x8002, 5] 6 [] = Some h' \<and>
     ops (chip_of h') = [Sci_Write 7 0x8010, Sci_Write 6 5, Sci_Write 6 5]"
proof -
  have "plugin_writes [7, 1, 0x8010, 6, 0x8002, 5] = Some [(7, 0x8010), (6, 5), (6, 5)]" by code_simp
  from VS_Load_Patch_decompresses [OF ready_hw_works idle_start _ this] show ?thesis
    by (auto simp: understood_def)
qed

text \<open>Recording mode. The set-up of the recorder returns, and what the chip understands is the seven
  settings and the words of the plugin, in order.\<close>

theorem recorder_configured:
  assumes "hw_works hw" "idle (chip_of h)"
  shows "\<exists>h'. recoder_enter_rec_mode (vs10xx_cfg hw) agc h = Some h' \<and> idle (chip_of h') \<and>
    chip_of h' = understood
      ([Sci_Write SPI_BASS 0, Sci_Write SPI_AICTRL0 8000, Sci_Write SPI_AICTRL1 agc, Sci_Write SPI_AICTRL2 0,
        Sci_Write SPI_AICTRL3 6, Sci_Write SPI_CLOCKF 0x2000, Sci_Write SPI_MODE 0x1804] @
       [Sci_Write SPI_WRAMADDR 0x8010] @ map (Sci_Write SPI_WRAM) (take 28 (drop 5 wav_plugin)) @
       [Sci_Write SPI_WRAMADDR 0x8028] @ map (Sci_Write SPI_WRAM) [0x2a00, 0x040e]) (chip_of h)"
proof -
  have e: "sci_writes (the (plugin_writes wav_plugin)) =
    [Sci_Write SPI_WRAMADDR 0x8010] @ map (Sci_Write SPI_WRAM) (take 28 (drop 5 wav_plugin)) @
    [Sci_Write SPI_WRAMADDR 0x8028] @ map (Sci_Write SPI_WRAM) [0x2a00, 0x040e]"
    by code_simp
  show ?thesis
    using recorder.recoder_enter_rec_mode_does [OF assms, of agc] unfolding recorder.does_def e by blast
qed

theorem recorder_configured_witness:
  "\<exists>h'. recoder_enter_rec_mode (vs10xx_cfg ready_hw) 4096 [] = Some h' \<and> length (ops (chip_of h')) = 39"
  using recorder_configured [OF ready_hw_works idle_start, of 4096] by (auto simp: understood_def wav_plugin_def)





text \<open>C34. The recorder. A session sends one header and then, in the order of reading, one datagram for each
  turn that found a block ready: the 512 bytes, low byte first, of the 256 words read from the chip in
  that turn. The session ends with the turn that finds the line closed.\<close>

theorem recorder_sends_blocks:
  assumes "hw_works hw" "idle (chip_of h)" "length snddata = 512"
  shows "\<exists>ts d h'. client_session (vs10xx_cfg hw) wh snddata lines h =
      Some (wav_bytes (wav_header_init 256036 256000 wh) # concat (map turn_out ts), d, h') \<and>
    length ts = turns_made lines \<and> (\<forall>t \<in> set ts. good_turn t) \<and> (\<forall>bs \<in> set (concat (map turn_out ts)). length bs = 512) \<and>
    chip_of h' = understood (concat (map turn_ops ts)) (chip_of h)"
proof -
  obtain ts d h' where t: "client_turns (vs10xx_cfg hw) snddata lines h = Some (concat (map turn_out ts), d, h')"
    "length ts = turns_made lines" "\<forall>t \<in> set ts. good_turn t" "chip_of h' = understood (concat (map turn_ops ts)) (chip_of h)"
    using recorder.client_turns_does [OF assms] by blast
  have "length bs = 512" if "bs \<in> set (turn_out t)" "good_turn t" for bs t
    using that by (auto simp: turn_out_def good_turn_def length_concat comp_def sum_list_triv split: if_splits)
  then have "\<forall>bs \<in> set (concat (map turn_out ts)). length bs = 512" using t(3) by auto
  then show ?thesis using t by (fastforce simp: client_session_def)
qed

theorem recorder_sends_blocks_witness:
  "\<exists>ts d h'. client_session (vs10xx_cfg ready_hw) wh0 (replicate 512 0) [1, 0] [] =
      Some (wav_bytes (wav_header_init 256036 256000 wh0) # concat (map turn_out ts), d, h') \<and> length ts = 2"
  using recorder_sends_blocks [OF ready_hw_works idle_start, of "replicate 512 0" wh0 "[1, 0]"] by fastforce

text \<open>Headers. A reader of the 44 bytes of a header finds the fields as they were set: one channel of 16
  bits at 8000 samples in a second, with rates that agree. And the player drops a header it is sent.\<close>

theorem wav_header_roundtrip:
  "wav_parse (wav_bytes w @ rest) = Some w \<and> length (wav_bytes w) = 44 \<and>
   (let f = wh_fmt (wav_header_init r d w)
    in SampleRate f = 8000 \<and> ByteRate f = SampleRate f * ucast (NumOfChannels f) * ucast (BitsPerSample f) div 8 \<and>
       BlockAlign f = NumOfChannels f * BitsPerSample f div 8) \<and>
   (fits h p 44 \<and> map (hbytes h) [p..<p + 44] = wav_bytes (wav_header_init r d w) \<longrightarrow> skips_header h p = Some True)"
proof -
  have "skips_header h p = Some True"
    if "fits h p 44" "map (hbytes h) [p..<p + 44] = wav_bytes (wav_header_init r d w)"
  proof -
    have f: "hbytes h (p + j) = wav_bytes (wav_header_init r d w) ! j" if "j < 44" for j
      using arg_cong [OF \<open>map (hbytes h) [p..<p + 44] = _\<close>, of "\<lambda>l. l ! j"] that by simp
    have "hbytes h p = 0x52" "hbytes h (p + 1) = 0x49" "hbytes h (p + 2) = 0x46"
      using f [of 0] f [of 1] f [of 2] by (simp_all add: wav_bytes_def wav_header_init_def le32_def)
    moreover have "fits h p 3" using that(1) by (simp add: fits_def)
    ultimately show ?thesis by (simp add: skips_header_def read_bytes_def)
  qed
  then show ?thesis by (simp add: wav_parse_bytes wav_header_init_def Let_def)
qed

theorem wav_header_roundtrip_witness:
  "\<exists>h p. fits h p 44 \<and> map (hbytes h) [p..<p + 44] = wav_bytes (wav_header_init 548 512 wh0) \<and> skips_header h p = Some True"
proof -
  obtain h where m: "pvPortMalloc (prvHeapInit heap0) 44 = Some (heap_lo + 8, h)"
    "heap_inv h [(heap_lo + block_need 44, 999984 - block_need 44)] (Map.empty(heap_lo \<mapsto> block_need 44))"
    using pvPortMalloc_single [OF heap0_inv, of 44] by (auto simp: block_need_def)
  have "payloads (Map.empty(heap_lo \<mapsto> block_need 44)) (heap_lo + 8) = Some (block_need 44 - 8)" by (simp add: payloads_def)
  moreover have "heap_live h (payloads (Map.empty(heap_lo \<mapsto> block_need 44)))" using m(2) heap_live_def by blast
  ultimately have f: "fits h (heap_lo + 8) 44"
    using heap_live_fits [of h "payloads (Map.empty(heap_lo \<mapsto> block_need 44))" "heap_lo + 8" "block_need 44 - 8" 44]
    by (simp add: block_need_def)
  define g where "g = h\<lparr>hbytes := mem_put (hbytes h) (heap_lo + 8) (wav_bytes (wav_header_init 548 512 wh0))\<rparr>"
  have put: "map (mem_put u q bs) [q..<q + 44] = bs" if "length bs = 44" for u q and bs :: "u8 list"
    using that by (intro nth_equalityI) (simp_all add: mem_put_def)
  have "length (wav_bytes (wav_header_init 548 512 wh0)) = 44" by simp
  moreover have "hbytes g = mem_put (hbytes h) (heap_lo + 8) (wav_bytes (wav_header_init 548 512 wh0))" by (simp add: g_def)
  ultimately have b: "map (hbytes g) [heap_lo + 8..<heap_lo + 8 + 44] = wav_bytes (wav_header_init 548 512 wh0)"
    by (simp only: put)
  have fg: "fits g (heap_lo + 8) 44" using f by (simp add: fits_def g_def)
  show ?thesis
    using wav_header_roundtrip [of wh0 "[]" 548 512 g "heap_lo + 8"] fg b by blast
qed

text \<open>Set-up. On hardware that works the set-up of the player's decoder returns: a memory test and two
  sine tones, and nothing else, whatever the chip answers.\<close>

theorem player_set_up:
  assumes "hw_works hw" "idle (chip_of h)"
  shows "\<exists>v h'. vs10xx_play_cfg_setup hw h = Some h' \<and> idle (chip_of h') \<and> chip_of h' = understood
    [Sci_Write SPI_MODE 0x0820, Sdi [0x4d, 0xea, 0x6d, 0x54, 0, 0, 0, 0], Sci_Read SPI_HDAT0 v,
     Sci_Write 0x0b 0x2020, Sci_Write SPI_MODE 0x0820, sine_on 0x24, sine_off, sine_on 0x44, sine_off] (chip_of h)"
proof -
  obtain v h1 where h1: "VS_Ram_Test (vs10xx_play_cfg hw) h = Some (v, h1)" "idle (chip_of h1)"
    "chip_of h1 = understood [Sci_Write SPI_MODE 0x0820, Sdi [0x4d, 0xea, 0x6d, 0x54, 0, 0, 0, 0], Sci_Read SPI_HDAT0 v] (chip_of h)"
    using player.VS_Ram_Test_yields [OF assms] unfolding player.yields_def by blast
  show ?thesis
    using h1 player.VS_Sine_Test_does [OF assms(1) h1(2)] unfolding player.does_def
    by (auto simp: vs10xx_play_cfg_setup_def)
qed

theorem player_set_up_witness: "\<exists>h'. vs10xx_play_cfg_setup ready_hw [] = Some h' \<and> length (ops (chip_of h')) = 9"
  using player_set_up [OF ready_hw_works idle_start] by (auto simp: understood_def)

end
