(* ===== verification/Enc_Core.thy ===== *)
theory Enc_Core
  imports Spi
begin

text \<open>
  The driver of the ENC28J60 Ethernet controller, \<open>src/HARDWARE/ENC28J60/enc28j60.c\<close>, over the SPI unit of
  \<open>Spi\<close>. The semaphore \<open>sem_enc28j60lock\<close> is seen from the task that uses the driver: a \<open>Sem_Pend\<close> with
  what \<open>OSSemPend\<close> reported when the task went on, and a \<open>Sem_Post\<close>. The DMA
  functions, which nothing calls, and the interrupt handler, whose interrupt is never enabled, are not modelled.
\<close>

section \<open>Registers\<close>

text \<open>The low five bits are the address, the next two the bank, the top bit marks MAC and MII registers.\<close>

abbreviation ADDR_MASK :: u8 where "ADDR_MASK \<equiv> 0x1F"
abbreviation BANK_MASK :: u8 where "BANK_MASK \<equiv> 0x60"
abbreviation EIE :: u8 where "EIE \<equiv> 0x1B"
abbreviation EIR :: u8 where "EIR \<equiv> 0x1C"
abbreviation ESTAT :: u8 where "ESTAT \<equiv> 0x1D"
abbreviation ECON2 :: u8 where "ECON2 \<equiv> 0x1E"
abbreviation ECON1 :: u8 where "ECON1 \<equiv> 0x1F"
abbreviation ERDPTL :: u8 where "ERDPTL \<equiv> 0x00"
abbreviation ERDPTH :: u8 where "ERDPTH \<equiv> 0x01"
abbreviation EWRPTL :: u8 where "EWRPTL \<equiv> 0x02"
abbreviation EWRPTH :: u8 where "EWRPTH \<equiv> 0x03"
abbreviation ETXSTL :: u8 where "ETXSTL \<equiv> 0x04"
abbreviation ETXSTH :: u8 where "ETXSTH \<equiv> 0x05"
abbreviation ETXNDL :: u8 where "ETXNDL \<equiv> 0x06"
abbreviation ETXNDH :: u8 where "ETXNDH \<equiv> 0x07"
abbreviation ERXSTL :: u8 where "ERXSTL \<equiv> 0x08"
abbreviation ERXSTH :: u8 where "ERXSTH \<equiv> 0x09"
abbreviation ERXNDL :: u8 where "ERXNDL \<equiv> 0x0A"
abbreviation ERXNDH :: u8 where "ERXNDH \<equiv> 0x0B"
abbreviation ERXRDPTL :: u8 where "ERXRDPTL \<equiv> 0x0C"
abbreviation ERXRDPTH :: u8 where "ERXRDPTH \<equiv> 0x0D"
abbreviation EPMM0 :: u8 where "EPMM0 \<equiv> 0x28"
abbreviation EPMM1 :: u8 where "EPMM1 \<equiv> 0x29"
abbreviation EPMCSL :: u8 where "EPMCSL \<equiv> 0x30"
abbreviation EPMCSH :: u8 where "EPMCSH \<equiv> 0x31"
abbreviation ERXFCON :: u8 where "ERXFCON \<equiv> 0x38"
abbreviation EPKTCNT :: u8 where "EPKTCNT \<equiv> 0x39"
abbreviation MACON1 :: u8 where "MACON1 \<equiv> 0xC0"
abbreviation MACON2 :: u8 where "MACON2 \<equiv> 0xC1"
abbreviation MACON3 :: u8 where "MACON3 \<equiv> 0xC2"
abbreviation MABBIPG :: u8 where "MABBIPG \<equiv> 0xC4"
abbreviation MAIPGL :: u8 where "MAIPGL \<equiv> 0xC6"
abbreviation MAIPGH :: u8 where "MAIPGH \<equiv> 0xC7"
abbreviation MAMXFLL :: u8 where "MAMXFLL \<equiv> 0xCA"
abbreviation MAMXFLH :: u8 where "MAMXFLH \<equiv> 0xCB"
abbreviation MIREGADR :: u8 where "MIREGADR \<equiv> 0xD4"
abbreviation MIWRL :: u8 where "MIWRL \<equiv> 0xD6"
abbreviation MIWRH :: u8 where "MIWRH \<equiv> 0xD7"
abbreviation MAADR1 :: u8 where "MAADR1 \<equiv> 0xE0"
abbreviation MAADR0 :: u8 where "MAADR0 \<equiv> 0xE1"
abbreviation MAADR3 :: u8 where "MAADR3 \<equiv> 0xE2"
abbreviation MAADR2 :: u8 where "MAADR2 \<equiv> 0xE3"
abbreviation MAADR5 :: u8 where "MAADR5 \<equiv> 0xE4"
abbreviation MAADR4 :: u8 where "MAADR4 \<equiv> 0xE5"
abbreviation MISTAT :: u8 where "MISTAT \<equiv> 0xEA"
abbreviation EREVID :: u8 where "EREVID \<equiv> 0x72"
abbreviation PHCON1 :: u8 where "PHCON1 \<equiv> 0x00"
abbreviation PHCON2 :: u8 where "PHCON2 \<equiv> 0x10"

abbreviation READ_CTRL_REG :: u8 where "READ_CTRL_REG \<equiv> 0x00"
abbreviation READ_BUF_MEM :: u8 where "READ_BUF_MEM \<equiv> 0x3A"
abbreviation WRITE_CTRL_REG :: u8 where "WRITE_CTRL_REG \<equiv> 0x40"
abbreviation WRITE_BUF_MEM :: u8 where "WRITE_BUF_MEM \<equiv> 0x7A"
abbreviation BIT_FIELD_SET :: u8 where "BIT_FIELD_SET \<equiv> 0x80"
abbreviation BIT_FIELD_CLR :: u8 where "BIT_FIELD_CLR \<equiv> 0xA0"
abbreviation SOFT_RESET :: u8 where "SOFT_RESET \<equiv> 0xFF"

abbreviation EIR_TXIF :: u8 where "EIR_TXIF \<equiv> 0x08"
abbreviation EIR_TXERIF :: u8 where "EIR_TXERIF \<equiv> 0x02"
abbreviation EIR_RXERIF :: u8 where "EIR_RXERIF \<equiv> 0x01"
abbreviation ESTAT_BUFFER :: u8 where "ESTAT_BUFFER \<equiv> 0x40"
abbreviation ESTAT_LATECOL :: u8 where "ESTAT_LATECOL \<equiv> 0x10"
abbreviation ESTAT_RXBUSY :: u8 where "ESTAT_RXBUSY \<equiv> 0x04"
abbreviation ESTAT_TXABRT :: u8 where "ESTAT_TXABRT \<equiv> 0x02"
abbreviation ESTAT_CLKRDY :: u8 where "ESTAT_CLKRDY \<equiv> 0x01"
abbreviation ECON2_PKTDEC :: u8 where "ECON2_PKTDEC \<equiv> 0x40"
abbreviation ECON1_TXRST :: u8 where "ECON1_TXRST \<equiv> 0x80"
abbreviation ECON1_DMAST :: u8 where "ECON1_DMAST \<equiv> 0x20"
abbreviation ECON1_TXRTS :: u8 where "ECON1_TXRTS \<equiv> 0x08"
abbreviation ECON1_RXEN :: u8 where "ECON1_RXEN \<equiv> 0x04"
abbreviation MISTAT_BUSY :: u8 where "MISTAT_BUSY \<equiv> 0x01"

abbreviation TXSTART_INIT :: u32 where "TXSTART_INIT \<equiv> 0x0000"
abbreviation TXSTOP_INIT :: u32 where "TXSTOP_INIT \<equiv> 0x05f0"
abbreviation RXSTART_INIT :: u32 where "RXSTART_INIT \<equiv> 0x0600"
abbreviation RXSTOP_INIT :: u32 where "RXSTOP_INIT \<equiv> 0x1ff0"
abbreviation MAX_FRAMELEN :: u32 where "MAX_FRAMELEN \<equiv> 1518"

section \<open>State\<close>

text \<open>The static variables of the file, and the history of the hardware.\<close>

record enc =
  ENC28J60BANK :: u8
  NextPacketPtr :: u32
  LastPacketPtr :: u32
  eir :: u8
  estat :: u8
  econ1 :: u8
  ptk_cnt :: u8
  hist :: history

text \<open>What \<open>OSSemPend\<close> reports is a parameter beside the SPI unit.\<close>

record enc_hw = spi_hw +
  pend_err :: "history \<Rightarrow> u8"

definition g_enc28j60_mac :: "u8 list" where
  "g_enc28j60_mac = [0x2, 0x0, 0x0, 0x1, 0x2, 0x3]"

definition happens :: "port_event \<Rightarrow> enc \<Rightarrow> enc" where
  "happens ev s = s\<lparr>hist := ev # hist s\<rparr>"

definition SPI2_SetSpeed :: "u8 \<Rightarrow> enc \<Rightarrow> enc" where
  "SPI2_SetSpeed prescaler = happens (Prescaler prescaler)"

definition SPI2_ReadWriteByte :: "enc_hw \<Rightarrow> u8 \<Rightarrow> enc \<Rightarrow> u8 \<times> enc" where
  "SPI2_ReadWriteByte hw TxData s = (let (r, h) = spi_read_write hw TxData (hist s) in (r, s\<lparr>hist := h\<rparr>))"

definition ENC28J60_CS :: "u8 \<Rightarrow> enc \<Rightarrow> enc" where
  "ENC28J60_CS v = happens (CS_pin v)"

text \<open>The pins of this chip and the divisor the set-up of the SPI unit leaves (the rest of it fills structures of
  the ST library and raises the select lines of two chips that the firmware does not use).\<close>

definition ENC28J60_SPI2_Init :: "enc \<Rightarrow> enc" where
  "ENC28J60_SPI2_Init s = happens (Prescaler 0x38) (happens (RST_pin 1) (ENC28J60_CS 1 s))"

definition ENC28J60_Reset :: "enc \<Rightarrow> enc" where
  "ENC28J60_Reset s =
     happens (Delay_ms 10) (happens (RST_pin 1) (happens (Delay_ms 10) (happens (RST_pin 0) (SPI2_SetSpeed 0x08 (ENC28J60_SPI2_Init s)))))"

section \<open>Operations of the chip\<close>

definition ENC28J60_Read_Op :: "enc_hw \<Rightarrow> u8 \<Rightarrow> u8 \<Rightarrow> enc \<Rightarrow> u8 \<times> enc" where
  "ENC28J60_Read_Op hw op addr s =
     (let s = ENC28J60_CS 0 s;
          (_, s) = SPI2_ReadWriteByte hw (op OR (addr AND ADDR_MASK)) s;
          (dat, s) = SPI2_ReadWriteByte hw 0xFF s;
          (dat, s) = (if addr AND 0x80 \<noteq> 0 then SPI2_ReadWriteByte hw 0xFF s else (dat, s))
      in (dat, ENC28J60_CS 1 s))"

definition ENC28J60_Write_Op :: "enc_hw \<Rightarrow> u8 \<Rightarrow> u8 \<Rightarrow> u8 \<Rightarrow> enc \<Rightarrow> enc" where
  "ENC28J60_Write_Op hw op addr data s =
     (let s = ENC28J60_CS 0 s;
          (_, s) = SPI2_ReadWriteByte hw (op OR (addr AND ADDR_MASK)) s;
          (_, s) = SPI2_ReadWriteByte hw data s
      in ENC28J60_CS 1 s)"

text \<open>The loops of \<open>ENC28J60_Read_Buf\<close> and \<open>ENC28J60_Write_Buf\<close>, at index \<open>i\<close> of the array.\<close>

fun read_bytes_from :: "enc_hw \<Rightarrow> nat \<Rightarrow> nat \<Rightarrow> u8 list \<Rightarrow> enc \<Rightarrow> (u8 list \<times> enc) option" where
  "read_bytes_from hw 0 i data s = Some (data, s)"
| "read_bytes_from hw (Suc n) i data s = do {
     let (b, s) = SPI2_ReadWriteByte hw 0 s;
     data \<leftarrow> wr data i b;
     read_bytes_from hw n (i + 1) data s
   }"

fun write_bytes_from :: "enc_hw \<Rightarrow> nat \<Rightarrow> nat \<Rightarrow> u8 list \<Rightarrow> enc \<Rightarrow> enc option" where
  "write_bytes_from hw 0 i data s = Some s"
| "write_bytes_from hw (Suc n) i data s = do {
     b \<leftarrow> rd data i;
     let (_, s) = SPI2_ReadWriteByte hw b s;
     write_bytes_from hw n (i + 1) data s
   }"

definition ENC28J60_Read_Buf :: "enc_hw \<Rightarrow> u32 \<Rightarrow> u8 list \<Rightarrow> enc \<Rightarrow> (u8 list \<times> enc) option" where
  "ENC28J60_Read_Buf hw len data s = do {
     let s = ENC28J60_CS 0 s;
     let (_, s) = SPI2_ReadWriteByte hw READ_BUF_MEM s;
     (data, s) \<leftarrow> read_bytes_from hw (unat len) 0 data s;
     data \<leftarrow> wr data (unat len) 0;
     Some (data, ENC28J60_CS 1 s)
   }"

definition ENC28J60_Write_Buf :: "enc_hw \<Rightarrow> u32 \<Rightarrow> u8 list \<Rightarrow> enc \<Rightarrow> enc option" where
  "ENC28J60_Write_Buf hw len data s = do {
     let s = ENC28J60_CS 0 s;
     let (_, s) = SPI2_ReadWriteByte hw WRITE_BUF_MEM s;
     s \<leftarrow> write_bytes_from hw (unat len) 0 data s;
     Some (ENC28J60_CS 1 s)
   }"

section \<open>Banked registers\<close>

definition ENC28J60_Set_Bank :: "enc_hw \<Rightarrow> u8 \<Rightarrow> enc \<Rightarrow> enc" where
  "ENC28J60_Set_Bank hw bank s =
     (if bank AND BANK_MASK \<noteq> ENC28J60BANK s then
        let s = ENC28J60_Write_Op hw BIT_FIELD_CLR ECON1 (0x02 OR 0x01) s;
            s = ENC28J60_Write_Op hw BIT_FIELD_SET ECON1 (drop_bit 5 (bank AND BANK_MASK)) s
        in s\<lparr>ENC28J60BANK := bank AND BANK_MASK\<rparr>
      else s)"

definition ENC28J60_Read :: "enc_hw \<Rightarrow> u8 \<Rightarrow> enc \<Rightarrow> u8 \<times> enc" where
  "ENC28J60_Read hw addr s = ENC28J60_Read_Op hw READ_CTRL_REG addr (ENC28J60_Set_Bank hw addr s)"

definition ENC28J60_Write :: "enc_hw \<Rightarrow> u8 \<Rightarrow> u8 \<Rightarrow> enc \<Rightarrow> enc" where
  "ENC28J60_Write hw addr data s = ENC28J60_Write_Op hw WRITE_CTRL_REG addr data (ENC28J60_Set_Bank hw addr s)"

text \<open>Calls of \<open>ENC28J60_Write\<close> one after the other.\<close>

fun write_all :: "enc_hw \<Rightarrow> (u8 \<times> u8) list \<Rightarrow> enc \<Rightarrow> enc" where
  "write_all hw [] s = s"
| "write_all hw ((r, v) # ws) s = write_all hw ws (ENC28J60_Write hw r v s)"

text \<open>\<open>while ((ENC28J60_Read (MISTAT) & MISTAT_BUSY) && retry < 0XFFF) retry++;\<close>\<close>

function phy_wait :: "enc_hw \<Rightarrow> nat \<Rightarrow> enc \<Rightarrow> enc" where
  "phy_wait hw retry s =
     (let (v, s) = ENC28J60_Read hw MISTAT s
      in if v AND MISTAT_BUSY \<noteq> 0 \<and> retry < 0xFFF then phy_wait hw (retry + 1) s else s)"
  by pat_completeness auto
termination by (relation "measure (\<lambda>(hw, retry, s). 0xFFF - retry)") auto

declare phy_wait.simps [simp del]

definition ENC28J60_PHY_Write :: "enc_hw \<Rightarrow> u8 \<Rightarrow> u32 \<Rightarrow> enc \<Rightarrow> enc" where
  "ENC28J60_PHY_Write hw addr data s =
     phy_wait hw 0 (write_all hw [(MIREGADR, addr), (MIWRL, ucast data), (MIWRH, ucast (drop_bit 8 data))] s)"

definition ENC28J60_Get_EREVID :: "enc_hw \<Rightarrow> enc \<Rightarrow> u8 \<times> enc" where
  "ENC28J60_Get_EREVID hw s = ENC28J60_Read hw EREVID s"

section \<open>Initialisation\<close>

text \<open>The loop that waits for the clock, giving the final \<open>retry\<close>.\<close>

function clock_wait :: "enc_hw \<Rightarrow> nat \<Rightarrow> enc \<Rightarrow> nat \<times> enc" where
  "clock_wait hw retry s =
     (let (v, s) = ENC28J60_Read hw ESTAT s
      in if v AND ESTAT_CLKRDY = 0 \<and> retry < 250 then clock_wait hw (retry + 1) (happens (Delay_ms 1) s) else (retry, s))"
  by pat_completeness auto
termination by (relation "measure (\<lambda>(hw, retry, s). 250 - retry)") auto

declare clock_wait.simps [simp del]

definition init_buffers :: "(u8 \<times> u8) list" where
  "init_buffers =
    [(ERXSTL, ucast (RXSTART_INIT AND 0xFF)), (ERXSTH, ucast (drop_bit 8 RXSTART_INIT)),
     (ERXRDPTL, ucast (RXSTART_INIT AND 0xFF)), (ERXRDPTH, ucast (drop_bit 8 RXSTART_INIT)),
     (ERXNDL, ucast (RXSTOP_INIT AND 0xFF)), (ERXNDH, ucast (drop_bit 8 RXSTOP_INIT)),
     (ETXSTL, ucast (TXSTART_INIT AND 0xFF)), (ETXSTH, ucast (drop_bit 8 TXSTART_INIT)),
     (ETXNDL, ucast (TXSTOP_INIT AND 0xFF)), (ETXNDH, ucast (drop_bit 8 TXSTOP_INIT))]"

definition init_filter :: "(u8 \<times> u8) list" where
  "init_filter = [(ERXFCON, 0x80 OR 0x20 OR 0x10), (EPMM0, 0x3f), (EPMM1, 0x30), (EPMCSL, 0xf9), (EPMCSH, 0xf7)]"

definition init_mac_enable :: "(u8 \<times> u8) list" where
  "init_mac_enable = [(MACON1, 0x01 OR 0x08 OR 0x04), (MACON2, 0x00)]"

definition init_mac_gaps :: "(u8 \<times> u8) list" where
  "init_mac_gaps = [(MAIPGL, 0x12), (MAIPGH, 0x0C), (MABBIPG, 0x15),
     (MAMXFLL, ucast (MAX_FRAMELEN AND 0xFF)), (MAMXFLH, ucast (drop_bit 8 MAX_FRAMELEN))]"

definition ENC28J60_Init :: "enc_hw \<Rightarrow> u8 list \<Rightarrow> enc \<Rightarrow> (u8 \<times> enc) option" where
  "ENC28J60_Init hw macaddr s = do {
     let s = ENC28J60_Reset s;
     let s = ENC28J60_Write_Op hw SOFT_RESET 0 SOFT_RESET s;
     let (retry, s) = clock_wait hw 0 s;
     if retry \<ge> 250 then Some (1, s)
     else do {
       let s = s\<lparr>NextPacketPtr := RXSTART_INIT\<rparr>;
       let s = write_all hw (init_buffers @ init_filter @ init_mac_enable) s;
       let s = ENC28J60_Write_Op hw BIT_FIELD_SET MACON3 (0x20 OR 0x10 OR 0x02 OR 0x01) s;
       let s = write_all hw init_mac_gaps s;
       m0 \<leftarrow> rd macaddr 0;
       m1 \<leftarrow> rd macaddr 1;
       m2 \<leftarrow> rd macaddr 2;
       m3 \<leftarrow> rd macaddr 3;
       m4 \<leftarrow> rd macaddr 4;
       m5 \<leftarrow> rd macaddr 5;
       let s = write_all hw [(MAADR5, m0), (MAADR4, m1), (MAADR3, m2), (MAADR2, m3), (MAADR1, m4), (MAADR0, m5)] s;
       let s = ENC28J60_PHY_Write hw PHCON1 0x0100 s;
       let s = ENC28J60_PHY_Write hw PHCON2 0x0100 s;
       let s = ENC28J60_Set_Bank hw ECON1 s;
       let s = ENC28J60_Write_Op hw BIT_FIELD_CLR EIE (0x80 OR 0x40 OR 0x01) s;
       let s = ENC28J60_Write_Op hw BIT_FIELD_SET ECON1 ECON1_RXEN s;
       let (v, s) = ENC28J60_Read hw MAADR5 s;
       Some (if v = m0 then 0 else 1, s)
     }
   }"

section \<open>Packets\<close>

text \<open>\<open>OSSemPend (sem_enc28j60lock, 0, &err)\<close> and \<open>OSSemPost (sem_enc28j60lock)\<close>.\<close>

definition lock_pend :: "enc_hw \<Rightarrow> enc \<Rightarrow> u8 \<times> enc" where
  "lock_pend hw s = (let err = pend_err hw (hist s) in (err, happens (Sem_Pend err) s))"

definition lock_post :: "enc \<Rightarrow> enc" where
  "lock_post = happens Sem_Post"

definition read_eir :: "enc_hw \<Rightarrow> enc \<Rightarrow> enc" where
  "read_eir hw s = (let (v, s) = ENC28J60_Read hw EIR s in s\<lparr>eir := v\<rparr>)"

definition read_estat :: "enc_hw \<Rightarrow> enc \<Rightarrow> enc" where
  "read_estat hw s = (let (v, s) = ENC28J60_Read hw ESTAT s in s\<lparr>estat := v\<rparr>)"

definition read_econ1 :: "enc_hw \<Rightarrow> enc \<Rightarrow> enc" where
  "read_econ1 hw s = (let (v, s) = ENC28J60_Read hw ECON1 s in s\<lparr>econ1 := v\<rparr>)"

text \<open>The loop before a transmission: whether the transmitter got ready within 200 rounds.\<close>

function send_wait :: "enc_hw \<Rightarrow> nat \<Rightarrow> enc \<Rightarrow> bool \<times> enc" where
  "send_wait hw retry s =
     (let s = read_econ1 hw (read_estat hw (read_eir hw s));
          s = (if estat s AND (ESTAT_TXABRT OR ESTAT_LATECOL) \<noteq> 0
               then ENC28J60_Write_Op hw BIT_FIELD_CLR EIR EIR_TXERIF
                      (ENC28J60_Write_Op hw BIT_FIELD_CLR ESTAT (ESTAT_TXABRT OR ESTAT_LATECOL) s)
               else s)
      in if retry + 1 > 200 then (False, s)
         else if (econ1 s AND ECON1_TXRTS OR econ1 s AND ECON1_DMAST) OR (estat s AND ESTAT_TXABRT) \<noteq> 0
         then send_wait hw (retry + 1) s
         else (True, s))"
  by pat_completeness auto
termination by (relation "measure (\<lambda>(hw, retry, s). 200 - retry)") auto

declare send_wait.simps [simp del]

text \<open>What follows when the transmitter is ready.\<close>

definition transmit_packet :: "enc_hw \<Rightarrow> u32 \<Rightarrow> u8 list \<Rightarrow> enc \<Rightarrow> enc option" where
  "transmit_packet hw len packet s = do {
     let s = ENC28J60_Write_Op hw BIT_FIELD_SET ECON1 ECON1_TXRST s;
     let s = ENC28J60_Write_Op hw BIT_FIELD_CLR ECON1 ECON1_TXRST s;
     let s = write_all hw [(EWRPTL, ucast (TXSTART_INIT AND 0xFF)), (EWRPTH, ucast (drop_bit 8 TXSTART_INIT)),
       (ETXNDL, ucast ((TXSTART_INIT + len) AND 0xFF)), (ETXNDH, ucast (drop_bit 8 (TXSTART_INIT + len)))] s;
     let s = ENC28J60_Write_Op hw BIT_FIELD_CLR EIR EIR_TXIF s;
     let s = ENC28J60_Write_Op hw WRITE_BUF_MEM 0 0x00 s;
     s \<leftarrow> ENC28J60_Write_Buf hw len packet s;
     let s = ENC28J60_Write_Op hw BIT_FIELD_SET ECON1 ECON1_TXRTS s;
     let (v, s) = ENC28J60_Read hw EIR s;
     let s = (if v AND EIR_TXERIF \<noteq> 0 then ENC28J60_Write_Op hw BIT_FIELD_CLR ECON1 ECON1_TXRTS s else s);
     Some (lock_post s)
   }"

definition ENC28J60_Packet_Send :: "enc_hw \<Rightarrow> u32 \<Rightarrow> u8 list \<Rightarrow> enc \<Rightarrow> enc option" where
  "ENC28J60_Packet_Send hw len packet s = do {
     let (err, s) = lock_pend hw s;
     if err = 0 then do {
       let (ready, s) = send_wait hw 0 s;
       if \<not> ready then Some (lock_post s)
       else transmit_packet hw len packet s
     } else Some s
   }"

text \<open>The loop before a reception, which does not read the registers again: \<open>busy\<close> never changes.\<close>

function recv_wait :: "bool \<Rightarrow> nat \<Rightarrow> bool" where
  "recv_wait busy retry = (if retry + 1 > 200 then False else if busy then recv_wait busy (retry + 1) else True)"
  by pat_completeness auto
termination by (relation "measure (\<lambda>(busy, retry). 200 - retry)") auto

declare recv_wait.simps [simp del]

text \<open>Two reads of the buffer memory, low byte first.\<close>

definition read_word :: "enc_hw \<Rightarrow> enc \<Rightarrow> u32 \<times> enc" where
  "read_word hw s =
     (let (lo, s) = ENC28J60_Read_Op hw READ_BUF_MEM 0 s;
          (hi, s) = ENC28J60_Read_Op hw READ_BUF_MEM 0 s
      in (ucast lo OR push_bit 8 (ucast hi), s))"

text \<open>What follows once a packet can be read. \<open>len0\<close> is what the local variable \<open>len\<close> holds before it is
  assigned.\<close>

definition fetch_packet :: "enc_hw \<Rightarrow> u32 \<Rightarrow> u32 \<Rightarrow> u8 list \<Rightarrow> enc \<Rightarrow> (u32 \<times> u8 list \<times> enc) option" where
  "fetch_packet hw len0 maxlen packet s = do {
     let s = write_all hw [(ERDPTL, ucast (NextPacketPtr s)), (ERDPTH, ucast (drop_bit 8 (NextPacketPtr s)))] s;
     let s = s\<lparr>LastPacketPtr := NextPacketPtr s\<rparr>;
     let (next, s) = read_word hw s;
     let s = s\<lparr>NextPacketPtr := next\<rparr>;
     if NextPacketPtr s < RXSTART_INIT \<or> NextPacketPtr s > RXSTOP_INIT then do {
       let s = read_econ1 hw (read_eir hw (read_estat hw s));
       (r, s) \<leftarrow> ENC28J60_Init hw g_enc28j60_mac s;
       let s = read_econ1 hw (read_eir hw (read_estat hw s));
       Some (len0, packet, lock_post s)
     } else do {
       let (len, s) = read_word hw s;
       let len = len - 4;
       let (rxstat, s) = read_word hw s;
       let len = (if len > maxlen - 1 then maxlen - 1 else len);
       (len, packet, s) \<leftarrow> (if rxstat AND 0x80 = 0 then Some (0, packet, s)
         else do {
           (packet, s) \<leftarrow> ENC28J60_Read_Buf hw len packet s;
           Some (len, packet, s)
         });
       let s = write_all hw [(ERXRDPTL, ucast (NextPacketPtr s)), (ERXRDPTH, ucast (drop_bit 8 (NextPacketPtr s)))] s;
       let s = ENC28J60_Write_Op hw BIT_FIELD_SET ECON2 ECON2_PKTDEC s;
       Some (len, packet, lock_post s)
     }
   }"

definition ENC28J60_Packet_Receive :: "enc_hw \<Rightarrow> u32 \<Rightarrow> u32 \<Rightarrow> u8 list \<Rightarrow> enc \<Rightarrow> (u32 \<times> u8 list \<times> enc) option" where
  "ENC28J60_Packet_Receive hw len0 maxlen packet s = do {
     let (err, s) = lock_pend hw s;
     if err = 0 then do {
       let s = read_econ1 hw (read_eir hw (read_estat hw s));
       let (v, s) = ENC28J60_Read hw EPKTCNT s;
       let s = s\<lparr>ptk_cnt := v\<rparr>;
       if ptk_cnt s = 0 then do {
         s \<leftarrow> (if (econ1 s AND ECON1_RXEN = 0 \<and> estat s AND ESTAT_CLKRDY \<noteq> 0) \<or>
                 (uint (eir s) * uint EIR_RXERIF \<noteq> 0 \<and> estat s AND ESTAT_BUFFER \<noteq> 0)
               then do {
                 (r, s) \<leftarrow> ENC28J60_Init hw g_enc28j60_mac s;
                 Some (read_econ1 hw (read_eir hw (read_estat hw s)))
               } else Some s);
         Some (0, packet, lock_post s)
       } else if \<not> recv_wait ((econ1 s AND ECON1_TXRTS OR econ1 s AND ECON1_DMAST) OR (estat s AND ESTAT_RXBUSY) \<noteq> 0) 0
       then Some (0, packet, lock_post s)
       else fetch_packet hw len0 maxlen packet s
     } else Some (len0, packet, s)
   }"

end
