(* ===== verification/Enc_Wire.thy ===== *)
theory Enc_Wire
  imports Enc_Core
begin

text \<open>
  The serial interface of the ENC28J60 as its data sheet gives it: frames between two edges of the select
  line, the register banks chosen by two bits of \<open>ECON1\<close>, the dummy byte before the answer of a MAC or MII
  register. Every operation of the driver is described by what the chip is asked to do, with the bank
  resolved; for this the driver's \<open>ENC28J60BANK\<close> and the bank of the chip have to agree.
\<close>

section \<open>The chip\<close>

text \<open>What the chip is asked; registers are named by bank and address. \<open>Took\<close> and \<open>Gave\<close> are the semaphore.\<close>

datatype enc_op = Reg_Read u8 u8 | Reg_Write u8 u8 | Bit_Set u8 u8 | Bit_Clear u8 u8
  | Mem_Read "u8 list" | Mem_Write "u8 list" | Soft_Reset | Hard_Reset | Nonsense "u8 list" | Took u8 | Gave

record enc_chip =
  ecs_low :: bool
  eframe :: "(u8 \<times> u8) list"
  ebank :: u8
  eops :: "enc_op list"

text \<open>The last five addresses are the same registers in every bank.\<close>

definition reg_id :: "u8 \<Rightarrow> u8 \<Rightarrow> u8" where
  "reg_id b a = (if a \<ge> 0x1B then a else b OR a)"

definition is_mac :: "u8 \<Rightarrow> bool" where
  "is_mac r \<longleftrightarrow> (0x40 \<le> r \<and> r < 0x5B) \<or> (0x60 \<le> r \<and> r < 0x66) \<or> r = 0x6A"

text \<open>The first byte of a frame is an opcode of three bits and an argument.\<close>

definition decode :: "u8 \<Rightarrow> (u8 \<times> u8) list \<Rightarrow> enc_op" where
  "decode b fr = (case fr of [] \<Rightarrow> Nonsense [] | (t, _) # rest \<Rightarrow>
     (let opc = t AND 0xE0; r = reg_id b (t AND 0x1F); bad = Nonsense (map fst fr)
      in if opc = 0x00 then (case rest of [(_, v)] \<Rightarrow> if is_mac r then bad else Reg_Read r v
                             | [_, (_, v)] \<Rightarrow> if is_mac r then Reg_Read r v else bad | _ \<Rightarrow> bad)
         else if opc = 0x20 then Mem_Read (map snd rest)
         else if opc = 0x60 then Mem_Write (map fst rest)
         else if opc = 0xE0 then Soft_Reset
         else (case rest of [(v, _)] \<Rightarrow>
             if opc = 0x40 then Reg_Write r v else if opc = 0x80 then Bit_Set r v
             else if opc = 0xA0 then Bit_Clear r v else bad
           | _ \<Rightarrow> bad)))"

definition bank_after :: "enc_op \<Rightarrow> u8 \<Rightarrow> u8" where
  "bank_after op b = (case op of
       Reg_Write r v \<Rightarrow> if r = ECON1 then push_bit 5 (v AND 0x03) else b
     | Bit_Set r v \<Rightarrow> if r = ECON1 then b OR push_bit 5 (v AND 0x03) else b
     | Bit_Clear r v \<Rightarrow> if r = ECON1 then b AND NOT (push_bit 5 (v AND 0x03)) else b
     | Soft_Reset \<Rightarrow> 0
     | _ \<Rightarrow> b)"

text \<open>A frame that only chooses the bank is not recorded.\<close>

definition bank_only :: "enc_op \<Rightarrow> bool" where
  "bank_only op = (case op of Bit_Set r v \<Rightarrow> r = ECON1 \<and> v AND 0xFC = 0
     | Bit_Clear r v \<Rightarrow> r = ECON1 \<and> v AND 0xFC = 0 | _ \<Rightarrow> False)"

definition finish :: "enc_op \<Rightarrow> enc_chip \<Rightarrow> enc_chip" where
  "finish op c = c\<lparr>ecs_low := False, eframe := [], ebank := bank_after op (ebank c),
     eops := (if bank_only op then eops c else eops c @ [op])\<rparr>"

definition enc_cs :: "u8 \<Rightarrow> enc_chip \<Rightarrow> enc_chip" where
  "enc_cs v c = (if v = 0 then (if ecs_low c then c else c\<lparr>ecs_low := True, eframe := []\<rparr>)
     else if ecs_low c then finish (decode (ebank c) (eframe c)) c else c)"

definition enc_xfer :: "u8 \<Rightarrow> u8 \<Rightarrow> enc_chip \<Rightarrow> enc_chip" where
  "enc_xfer t r c = (if ecs_low c then c\<lparr>eframe := eframe c @ [(t, r)]\<rparr> else c)"

fun enc_of :: "history \<Rightarrow> enc_chip" where
  "enc_of [] = \<lparr>ecs_low = False, eframe = [], ebank = 0, eops = []\<rparr>"
| "enc_of (ReceiveData t r # h) = enc_xfer t r (enc_of h)"
| "enc_of (CS_pin v # h) = enc_cs v (enc_of h)"
| "enc_of (RST_pin v # h) = (if v = 0 then (enc_of h)\<lparr>ebank := 0, eops := eops (enc_of h) @ [Hard_Reset]\<rparr> else enc_of h)"
| "enc_of (Sem_Pend e # h) = (enc_of h)\<lparr>eops := eops (enc_of h) @ [Took e]\<rparr>"
| "enc_of (Sem_Post # h) = (enc_of h)\<lparr>eops := eops (enc_of h) @ [Gave]\<rparr>"
| "enc_of (_ # h) = enc_of h"

abbreviation chip :: "enc \<Rightarrow> enc_chip" where "chip s \<equiv> enc_of (hist s)"

section \<open>Frames\<close>

lemma enc_replicate: "e \<in> {Poll_TXE, Poll_RXNE} \<Longrightarrow> enc_of (replicate n e @ h) = enc_of h"
  by (induction n) auto

lemma transfer:
  assumes "spi_works hw"
  shows "\<exists>r h. SPI2_ReadWriteByte hw b s = (r, s\<lparr>hist := h\<rparr>) \<and> enc_of h = enc_xfer b r (chip s)"
proof -
  obtain r m m' where t: "spi_read_write hw b (hist s) =
      (r, ReceiveData b r # replicate m' Poll_RXNE @ SendData b # replicate m Poll_TXE @ hist s)"
    using spi_transfer [OF assms] by blast
  then have "SPI2_ReadWriteByte hw b s =
      (r, s\<lparr>hist := ReceiveData b r # replicate m' Poll_RXNE @ SendData b # replicate m Poll_TXE @ hist s\<rparr>)"
    by (simp add: SPI2_ReadWriteByte_def)
  moreover have "enc_of (ReceiveData b r # replicate m' Poll_RXNE @ SendData b # replicate m Poll_TXE @ hist s) = enc_xfer b r (chip s)"
    by (simp add: enc_replicate)
  ultimately show ?thesis by blast
qed

lemma opcode_parts:
  fixes op a :: u8
  assumes "op AND 0x1F = 0"
  shows "(op OR a AND 0x1F) AND 0xE0 = op AND 0xE0" "(op OR a AND 0x1F) AND 0x1F = a AND 0x1F"
  using assms by (simp_all add: bit.conj_disj_distrib2 and.assoc)

lemma Write_Op_frame:
  assumes "spi_works hw" "\<not> ecs_low (chip s)"
  shows "\<exists>h r1 r2. ENC28J60_Write_Op hw op a v s = s\<lparr>hist := h\<rparr> \<and>
    enc_of h = finish (decode (ebank (chip s)) [(op OR a AND 0x1F, r1), (v, r2)]) (chip s)"
proof -
  define s1 where "s1 = ENC28J60_CS 0 s"
  have c1: "chip s1 = (chip s)\<lparr>ecs_low := True, eframe := []\<rparr>" using assms(2) by (simp add: s1_def ENC28J60_CS_def happens_def enc_cs_def)
  obtain r1 h1 where t1: "SPI2_ReadWriteByte hw (op OR a AND 0x1F) s1 = (r1, s1\<lparr>hist := h1\<rparr>)" "enc_of h1 = enc_xfer (op OR a AND 0x1F) r1 (chip s1)"
    using transfer [OF assms(1)] by blast
  obtain r2 h2 where t2: "SPI2_ReadWriteByte hw v (s1\<lparr>hist := h1\<rparr>) = (r2, s1\<lparr>hist := h1\<rparr>\<lparr>hist := h2\<rparr>)" "enc_of h2 = enc_xfer v r2 (chip (s1\<lparr>hist := h1\<rparr>))"
    using transfer [OF assms(1)] by blast
  have "enc_of h2 = (chip s)\<lparr>ecs_low := True, eframe := [(op OR a AND 0x1F, r1), (v, r2)]\<rparr>"
    using t1(2) t2(2) c1 by (simp add: enc_xfer_def)
  then have "enc_of (CS_pin 1 # h2) = finish (decode (ebank (chip s)) [(op OR a AND 0x1F, r1), (v, r2)]) (chip s)"
    by (simp add: enc_cs_def finish_def)
  moreover have "ENC28J60_Write_Op hw op a v s = s\<lparr>hist := CS_pin 1 # h2\<rparr>"
    using t1(1) t2(1) unfolding s1_def by (simp add: ENC28J60_Write_Op_def ENC28J60_CS_def happens_def)
  ultimately show ?thesis by blast
qed

lemma Read_Op_frame:
  assumes "spi_works hw" "\<not> ecs_low (chip s)"
  shows "\<exists>h r1 x v. ENC28J60_Read_Op hw op a s = (v, s\<lparr>hist := h\<rparr>) \<and>
    enc_of h = finish (decode (ebank (chip s)) ((op OR a AND 0x1F, r1) #
      (if a AND 0x80 \<noteq> 0 then [(0xFF, x), (0xFF, v)] else [(0xFF, v)]))) (chip s)"
proof -
  define s1 where "s1 = ENC28J60_CS 0 s"
  have c1: "chip s1 = (chip s)\<lparr>ecs_low := True, eframe := []\<rparr>" using assms(2) by (simp add: s1_def ENC28J60_CS_def happens_def enc_cs_def)
  obtain r1 h1 where t1: "SPI2_ReadWriteByte hw (op OR a AND 0x1F) s1 = (r1, s1\<lparr>hist := h1\<rparr>)" "enc_of h1 = enc_xfer (op OR a AND 0x1F) r1 (chip s1)"
    using transfer [OF assms(1)] by blast
  obtain r2 h2 where t2: "SPI2_ReadWriteByte hw 0xFF (s1\<lparr>hist := h1\<rparr>) = (r2, s1\<lparr>hist := h1\<rparr>\<lparr>hist := h2\<rparr>)" "enc_of h2 = enc_xfer 0xFF r2 (chip (s1\<lparr>hist := h1\<rparr>))"
    using transfer [OF assms(1)] by blast
  obtain r3 h3 where t3: "SPI2_ReadWriteByte hw 0xFF (s1\<lparr>hist := h2\<rparr>) = (r3, s1\<lparr>hist := h2\<rparr>\<lparr>hist := h3\<rparr>)" "enc_of h3 = enc_xfer 0xFF r3 (chip (s1\<lparr>hist := h2\<rparr>))"
    using transfer [OF assms(1)] by blast
  have e2: "enc_of h2 = (chip s)\<lparr>ecs_low := True, eframe := [(op OR a AND 0x1F, r1), (0xFF, r2)]\<rparr>"
    using t1(2) t2(2) c1 by (simp add: enc_xfer_def)
  then have e3: "enc_of h3 = (chip s)\<lparr>ecs_low := True, eframe := [(op OR a AND 0x1F, r1), (0xFF, r2), (0xFF, r3)]\<rparr>"
    using t3(2) by (simp add: enc_xfer_def)
  show ?thesis
  proof (cases "a AND 0x80 = 0")
    case True
    then show ?thesis using t1(1) t2(1) e2 unfolding s1_def
      by (intro exI [of _ "CS_pin 1 # h2"] exI [of _ r1] exI [of _ r1] exI [of _ r2])
        (simp add: ENC28J60_Read_Op_def ENC28J60_CS_def happens_def enc_cs_def finish_def)
  next
    case False
    then show ?thesis using t1(1) t2(1) t3(1) e3 unfolding s1_def
      by (intro exI [of _ "CS_pin 1 # h3"] exI [of _ r1] exI [of _ r2] exI [of _ r3])
        (simp add: ENC28J60_Read_Op_def ENC28J60_CS_def happens_def enc_cs_def finish_def)
  qed
qed

end
