(* ===== verification/Enc_Driver.thy ===== *)
theory Enc_Driver
  imports Enc_Wire
begin

text \<open>
  What each operation of the Ethernet driver asks the chip to do. The banks agree (\<open>synced\<close>) from the first
  access after a reset on, whatever \<open>ENC28J60BANK\<close> held before.
\<close>

section \<open>Runs of the driver\<close>

definition synced :: "enc \<Rightarrow> bool" where
  "synced s \<longleftrightarrow> \<not> ecs_low (chip s) \<and> ebank (chip s) = ENC28J60BANK s \<and> ENC28J60BANK s AND BANK_MASK = ENC28J60BANK s"

text \<open>After a reset the chip is in bank 0; the driver may remember another one.\<close>

definition fresh :: "enc \<Rightarrow> bool" where
  "fresh s \<longleftrightarrow> \<not> ecs_low (chip s) \<and> ebank (chip s) = 0"

text \<open>\<open>goes\<close>: of the variables only the history and the bank change. \<open>runs\<close>: the packet pointer stays.\<close>

definition goes :: "enc \<Rightarrow> enc_op list \<Rightarrow> enc \<Rightarrow> bool" where
  "goes s os s' \<longleftrightarrow> synced s' \<and> (\<exists>h b. s' = s\<lparr>hist := h, ENC28J60BANK := b\<rparr>) \<and> eops (chip s') = eops (chip s) @ os"

definition runs :: "enc \<Rightarrow> enc_op list \<Rightarrow> enc \<Rightarrow> bool" where
  "runs s os s' \<longleftrightarrow> synced s' \<and> NextPacketPtr s' = NextPacketPtr s \<and> eops (chip s') = eops (chip s) @ os"

lemma goes_synced: "goes s os s' \<Longrightarrow> synced s'"
  by (simp add: goes_def)

lemma goes_trans: "goes s os s' \<Longrightarrow> goes s' os' s'' \<Longrightarrow> goes s (os @ os') s''"
  unfolding goes_def by fastforce

lemma goes_refl: "synced s \<Longrightarrow> goes s [] s"
  unfolding goes_def by (auto intro!: exI [of _ "hist s"] exI [of _ "ENC28J60BANK s"])

lemma goes_runs: "goes s os s' \<Longrightarrow> runs s os s'"
  by (auto simp: goes_def runs_def)

lemma runs_synced: "runs s os s' \<Longrightarrow> synced s'"
  by (simp add: runs_def)

lemma runs_trans: "runs s os s' \<Longrightarrow> runs s' os' s'' \<Longrightarrow> runs s (os @ os') s''"
  by (simp add: runs_def)

lemma runs_refl: "synced s \<Longrightarrow> runs s [] s"
  by (simp add: runs_def)

lemma goes_vars:
  assumes "goes s os s'"
  shows "eir s' = eir s" "estat s' = estat s" "econ1 s' = econ1 s" "ptk_cnt s' = ptk_cnt s"
    "NextPacketPtr s' = NextPacketPtr s" "LastPacketPtr s' = LastPacketPtr s"
  using assms by (auto simp: goes_def)

lemma synced_vars [simp]:
  "synced (s\<lparr>eir := v\<rparr>) = synced s" "synced (s\<lparr>estat := v\<rparr>) = synced s" "synced (s\<lparr>econ1 := v\<rparr>) = synced s"
  "synced (s\<lparr>ptk_cnt := v\<rparr>) = synced s" "synced (s\<lparr>NextPacketPtr := p\<rparr>) = synced s"
  "synced (s\<lparr>LastPacketPtr := p\<rparr>) = synced s"
  by (simp_all add: synced_def)

section \<open>Single frames\<close>

lemma finish_goes:
  assumes "s' = s\<lparr>hist := h\<rparr>" "enc_of h = finish op (chip s)" "synced s" "bank_after op (ebank (chip s)) = ebank (chip s)" "\<not> bank_only op"
  shows "goes s [op] s'"
  using assms by (auto simp: goes_def synced_def finish_def intro!: exI [of _ h] exI [of _ "ENC28J60BANK s"])

text \<open>The registers the driver names carry the mark of a MAC register where the chip has one.\<close>

definition reg_ok :: "u8 \<Rightarrow> bool" where
  "reg_ok r \<longleftrightarrow> (r AND 0x80 \<noteq> 0 \<longleftrightarrow> is_mac (r AND 0x7F)) \<and> (r AND 0x1F \<ge> 0x1B \<longrightarrow> r AND 0x60 = 0)"

lemma reg_id_of:
  assumes "reg_ok r" "b = r AND 0x60"
  shows "reg_id b (r AND 0x1F) = r AND 0x7F"
proof -
  have "(r AND 0x60) OR (r AND 0x1F) = r AND (0x60 OR 0x1F)" by (simp only: bit.conj_disj_distrib)
  then have e: "(r AND 0x60) OR (r AND 0x1F) = r AND 0x7F" by simp
  show ?thesis using assms e by (auto simp: reg_id_def reg_ok_def)
qed

lemma set_bank_goes:
  assumes "spi_works hw" "synced s \<or> fresh s \<and> r AND 0x60 = 0"
  shows "goes s [] (ENC28J60_Set_Bank hw r s) \<and> ENC28J60BANK (ENC28J60_Set_Bank hw r s) = r AND 0x60"
proof (cases "r AND 0x60 = ENC28J60BANK s")
  case True
  then have "synced s" using assms(2) by (auto simp: synced_def fresh_def and.assoc)
  then show ?thesis using True by (simp add: ENC28J60_Set_Bank_def goes_refl)
next
  case False
  have ns: "\<not> ecs_low (chip s)" using assms(2) by (auto simp: synced_def fresh_def)
  have b0: "ebank (chip s) AND NOT (push_bit 5 0x03) = 0"
  proof -
    have "b AND NOT 0x60 = 0" if "b AND 0x60 = b" for b :: u8
      by (subst that [symmetric]) (simp add: and.assoc)
    moreover have "push_bit 5 0x03 = (0x60 :: u8)" by simp
    ultimately show ?thesis using assms(2) unfolding synced_def fresh_def by (metis bit.conj_zero_left)
  qed
  obtain h r1 r2 where 1: "ENC28J60_Write_Op hw BIT_FIELD_CLR ECON1 3 s = s\<lparr>hist := h\<rparr>"
    "enc_of h = finish (decode (ebank (chip s)) [(BIT_FIELD_CLR OR ECON1 AND 0x1F, r1), (3, r2)]) (chip s)"
    using Write_Op_frame [OF assms(1) ns] by blast
  have c1: "enc_of h = (chip s)\<lparr>eframe := [], ebank := 0\<rparr>"
    using ns b0 unfolding 1(2) by (simp add: decode_def reg_id_def finish_def bank_after_def bank_only_def)
  define v where "v = drop_bit 5 (r AND 0x60)"
  have v: "v AND 0xFC = 0" "push_bit 5 (v AND 3) = r AND 0x60"
  proof -
    have v': "v = drop_bit 5 r AND 3" by (simp add: v_def drop_bit_and)
    then show "v AND 0xFC = 0" by (simp add: and.assoc)
    have "push_bit 5 (drop_bit 5 r) AND 0x60 = r AND 0x60"
    proof (rule bit_word_eqI)
      fix n assume "n < LENGTH(8)"
      then have "n = 0 \<or> n = 1 \<or> n = 2 \<or> n = 3 \<or> n = 4 \<or> n \<ge> 5" by auto
      then show "bit (push_bit 5 (drop_bit 5 r) AND 0x60) n = bit (r AND 0x60) n" by (auto simp: bit_simps)
    qed
    then show "push_bit 5 (v AND 3) = r AND 0x60" by (simp add: v' push_bit_and and.assoc)
  qed
  have "\<not> ecs_low (chip (s\<lparr>hist := h\<rparr>))" using ns by (simp add: c1)
  then obtain h' r1' r2' where 2: "ENC28J60_Write_Op hw BIT_FIELD_SET ECON1 v (s\<lparr>hist := h\<rparr>) = s\<lparr>hist := h\<rparr>\<lparr>hist := h'\<rparr>"
    "enc_of h' = finish (decode (ebank (chip (s\<lparr>hist := h\<rparr>))) [(BIT_FIELD_SET OR ECON1 AND 0x1F, r1'), (v, r2')]) (chip (s\<lparr>hist := h\<rparr>))"
    using Write_Op_frame [OF assms(1)] by blast
  have c2: "enc_of h' = (chip s)\<lparr>eframe := [], ebank := r AND 0x60\<rparr>"
    using ns v unfolding 2(2) by (simp add: c1 decode_def reg_id_def finish_def bank_after_def bank_only_def)
  have "ENC28J60_Set_Bank hw r s = s\<lparr>hist := h', ENC28J60BANK := r AND 0x60\<rparr>"
    using False 1(1) 2(1) by (simp add: ENC28J60_Set_Bank_def v_def)
  then show ?thesis using ns c2 by (auto simp: goes_def synced_def and.assoc intro!: exI [of _ h'] exI [of _ "r AND 0x60"])
qed

text \<open>A register frame on a known bank.\<close>

lemma opcode_decode:
  assumes "reg_ok r" "op \<in> {0x40, 0x80, 0xA0}"
  shows "decode (r AND 0x60) [(op OR r AND 0x1F, x), (v, y)] =
    (if op = 0x40 then Reg_Write (r AND 0x7F) v else if op = 0x80 then Bit_Set (r AND 0x7F) v else Bit_Clear (r AND 0x7F) v)"
proof -
  have "op AND 0x1F = 0" "op AND 0xE0 = op" using assms(2) by auto
  then show ?thesis using assms(2) reg_id_of [OF assms(1) refl] opcode_parts [of op r]
    by (auto simp: decode_def)
qed

lemma read_decode:
  assumes "reg_ok r"
  shows "decode (r AND 0x60) ((0x00 OR r AND 0x1F, x) # (if r AND 0x80 \<noteq> 0 then [(0xFF, y), (0xFF, v)] else [(0xFF, v)])) =
    Reg_Read (r AND 0x7F) v"
  using assms reg_id_of [OF assms refl] opcode_parts [of 0 r] unfolding reg_ok_def
  by (cases "r AND 0x80 = 0") (simp_all add: decode_def)

lemma Read_goes:
  assumes "spi_works hw" "reg_ok r" "synced s \<or> fresh s \<and> r AND 0x60 = 0"
  shows "\<exists>v s'. ENC28J60_Read hw r s = (v, s') \<and> goes s [Reg_Read (r AND 0x7F) v] s' \<and> ENC28J60BANK s' = r AND 0x60"
proof -
  define s1 where "s1 = ENC28J60_Set_Bank hw r s"
  have s1: "goes s [] s1" "ENC28J60BANK s1 = r AND 0x60" using set_bank_goes [OF assms(1,3)] by (simp_all add: s1_def)
  then have b: "\<not> ecs_low (chip s1)" "ebank (chip s1) = r AND 0x60" "synced s1" by (auto simp: goes_def synced_def)
  obtain h x y v where f: "ENC28J60_Read_Op hw 0 r s1 = (v, s1\<lparr>hist := h\<rparr>)"
    "enc_of h = finish (decode (ebank (chip s1)) ((0 OR r AND 0x1F, x) #
      (if r AND 0x80 \<noteq> 0 then [(0xFF, y), (0xFF, v)] else [(0xFF, v)]))) (chip s1)"
    using Read_Op_frame [OF assms(1) b(1)] by blast
  have "goes s1 [Reg_Read (r AND 0x7F) v] (s1\<lparr>hist := h\<rparr>)"
    using f(2) unfolding b(2) read_decode [OF assms(2)]
    by (intro finish_goes [OF refl _ b(3)]) (simp_all add: bank_after_def bank_only_def)
  then have "goes s ([] @ [Reg_Read (r AND 0x7F) v]) (s1\<lparr>hist := h\<rparr>)" using s1(1) goes_trans by blast
  then show ?thesis using f(1) s1(2) by (simp add: ENC28J60_Read_def s1_def)
qed

lemma Write_goes:
  assumes "spi_works hw" "reg_ok r" "r AND 0x7F \<noteq> ECON1" "synced s"
  shows "goes s [Reg_Write (r AND 0x7F) v] (ENC28J60_Write hw r v s) \<and> ENC28J60BANK (ENC28J60_Write hw r v s) = r AND 0x60"
proof -
  define s1 where "s1 = ENC28J60_Set_Bank hw r s"
  have s1: "goes s [] s1" "ENC28J60BANK s1 = r AND 0x60" using set_bank_goes [of hw s r] assms by (simp_all add: s1_def)
  then have b: "\<not> ecs_low (chip s1)" "ebank (chip s1) = r AND 0x60" "synced s1" by (auto simp: goes_def synced_def)
  obtain h x y where f: "ENC28J60_Write_Op hw 0x40 r v s1 = s1\<lparr>hist := h\<rparr>"
    "enc_of h = finish (decode (ebank (chip s1)) [(0x40 OR r AND 0x1F, x), (v, y)]) (chip s1)"
    using Write_Op_frame [OF assms(1) b(1)] by blast
  have "goes s1 [Reg_Write (r AND 0x7F) v] (s1\<lparr>hist := h\<rparr>)"
    using f(2) assms(3) opcode_decode [OF assms(2), of "0x40"] unfolding b(2)
    by (intro finish_goes [OF refl _ b(3)]) (simp_all add: bank_after_def bank_only_def)
  then have "goes s ([] @ [Reg_Write (r AND 0x7F) v]) (s1\<lparr>hist := h\<rparr>)" using s1(1) goes_trans by blast
  then show ?thesis using f(1) s1(2) by (simp add: ENC28J60_Write_def s1_def)
qed

text \<open>Bit operations go to the bank the driver is in; for the registers of all banks it does not matter.\<close>

lemma Bit_goes:
  assumes "spi_works hw" "synced s" "reg_ok r" "r AND 0x60 = ENC28J60BANK s \<or> 0x1B \<le> r \<and> r < 0x20"
    "r AND 0x7F = ECON1 \<longrightarrow> v AND 3 = 0 \<and> v \<noteq> 0"
  shows "goes s [Bit_Set (r AND 0x7F) v] (ENC28J60_Write_Op hw BIT_FIELD_SET r v s)"
    "goes s [Bit_Clear (r AND 0x7F) v] (ENC28J60_Write_Op hw BIT_FIELD_CLR r v s)"
    "ENC28J60BANK (ENC28J60_Write_Op hw op r v s) = ENC28J60BANK s"
proof -
  have b: "\<not> ecs_low (chip s)" "ebank (chip s) = ENC28J60BANK s" using assms(2) by (auto simp: synced_def)
  have d: "decode (ebank (chip s)) ((op OR r AND 0x1F, x) # fr) = decode (r AND 0x60) ((op OR r AND 0x1F, x) # fr)"
    if "op \<in> {0x80, 0xA0}" for op x fr
  proof (cases "r AND 0x60 = ENC28J60BANK s")
    case False
    then have a: "0x1B \<le> r AND 0x1F"
    proof -
      have "r AND 0x1F = r"
      proof -
        have "unat r < 2 ^ 5" using assms(4) False by (simp add: word_less_nat_alt)
        then have "unat (take_bit 5 r) = unat r" by (simp add: unsigned_take_bit_eq take_bit_nat_eq_self)
        then have "take_bit 5 r = r" by (simp only: word_unat_eq_iff)
        then show ?thesis by (simp add: take_bit_eq_mask mask_eq_exp_minus_1)
      qed
      then show ?thesis using assms(4) False by simp
    qed
    have "op AND 0x1F = 0" using that by auto
    then show ?thesis using a opcode_parts(2) [of op r] by (simp add: decode_def reg_id_def)
  qed (simp add: b)
  have k: "v AND 0xFC \<noteq> 0" if "v AND 3 = 0" "v \<noteq> 0"
  proof
    assume "v AND 0xFC = 0"
    have "v AND (0xFC OR 3) = (v AND 0xFC) OR (v AND 3)" by (simp only: bit.conj_disj_distrib)
    then have "v AND 0xFF = 0" using \<open>v AND 0xFC = 0\<close> that(1) by simp
    moreover have "v AND 0xFF = v" by (rule bit_word_eqI) (auto simp: bit_simps less_Suc_eq numeral_eq_Suc)
    ultimately show False using that(2) by simp
  qed
  obtain h x y where f: "ENC28J60_Write_Op hw 0x80 r v s = s\<lparr>hist := h\<rparr>"
    "enc_of h = finish (decode (ebank (chip s)) [(0x80 OR r AND 0x1F, x), (v, y)]) (chip s)"
    using Write_Op_frame [OF assms(1) b(1)] by blast
  show "goes s [Bit_Set (r AND 0x7F) v] (ENC28J60_Write_Op hw BIT_FIELD_SET r v s)"
    using f(2) assms(5) d [of "0x80"] opcode_decode [OF assms(3), of "0x80"] k unfolding f(1)
    by (intro finish_goes [OF refl _ assms(2)]) (auto simp: bank_after_def bank_only_def)
  obtain h x y where f: "ENC28J60_Write_Op hw 0xA0 r v s = s\<lparr>hist := h\<rparr>"
    "enc_of h = finish (decode (ebank (chip s)) [(0xA0 OR r AND 0x1F, x), (v, y)]) (chip s)"
    using Write_Op_frame [OF assms(1) b(1)] by blast
  show "goes s [Bit_Clear (r AND 0x7F) v] (ENC28J60_Write_Op hw BIT_FIELD_CLR r v s)"
    using f(2) assms(5) d [of "0xA0"] opcode_decode [OF assms(3), of "0xA0"] k unfolding f(1)
    by (intro finish_goes [OF refl _ assms(2)]) (auto simp: bank_after_def bank_only_def)
  show "ENC28J60BANK (ENC28J60_Write_Op hw op r v s) = ENC28J60BANK s"
    using Write_Op_frame [OF assms(1) b(1), of op r v] by auto
qed

section \<open>Sequences\<close>

definition good_reg :: "u8 \<Rightarrow> bool" where
  "good_reg r \<longleftrightarrow> reg_ok r \<and> r AND 0x7F \<noteq> ECON1"

definition reg_writes :: "(u8 \<times> u8) list \<Rightarrow> enc_op list" where
  "reg_writes = map (\<lambda>(r, v). Reg_Write (r AND 0x7F) v)"

lemma reg_writes_simps [simp]:
  "reg_writes [] = []" "reg_writes ((r, v) # ws) = Reg_Write (r AND 0x7F) v # reg_writes ws"
  "reg_writes (xs @ ys) = reg_writes xs @ reg_writes ys"
  by (simp_all add: reg_writes_def)

lemma write_all_goes:
  assumes "spi_works hw" "\<forall>(r, v) \<in> set ws. good_reg r" "synced s"
  shows "goes s (reg_writes ws) (write_all hw ws s) \<and>
    (ws \<noteq> [] \<longrightarrow> ENC28J60BANK (write_all hw ws s) = fst (last ws) AND 0x60)"
  using assms(2,3)
proof (induction ws arbitrary: s)
  case Nil
  then show ?case by (simp add: goes_refl)
next
  case (Cons w ws)
  obtain r v where w: "w = (r, v)" by (cases w)
  have 1: "goes s [Reg_Write (r AND 0x7F) v] (ENC28J60_Write hw r v s)" "ENC28J60BANK (ENC28J60_Write hw r v s) = r AND 0x60"
    using Write_goes [OF assms(1)] Cons.prems by (auto simp: w good_reg_def)
  then have 2: "goes (ENC28J60_Write hw r v s) (reg_writes ws) (write_all hw ws (ENC28J60_Write hw r v s))"
    "ws \<noteq> [] \<longrightarrow> ENC28J60BANK (write_all hw ws (ENC28J60_Write hw r v s)) = fst (last ws) AND 0x60"
    using Cons.IH Cons.prems(1) goes_synced by auto
  then show ?case using goes_trans [OF 1(1) 2(1)] 1(2) by (auto simp: w)
qed

text \<open>A loop reads the register \<open>r\<close> some times.\<close>

definition reads :: "u8 \<Rightarrow> u8 list \<Rightarrow> enc_op list" where
  "reads r = map (Reg_Read r)"

lemma reads_simps [simp]: "reads r [] = []" "reads r (v # vs) = Reg_Read r v # reads r vs"
  by (simp_all add: reads_def)

lemma reg_ok_consts [simp]:
  "reg_ok MISTAT" "reg_ok ESTAT" "reg_ok EIR" "reg_ok ECON1" "reg_ok ECON2" "reg_ok EIE" "reg_ok EPKTCNT"
  "reg_ok MACON3" "reg_ok MAADR5" "reg_ok EREVID"
  by (simp_all add: reg_ok_def is_mac_def)

lemma phy_wait_goes:
  assumes "spi_works hw" "synced s"
  shows "\<exists>vs. vs \<noteq> [] \<and> goes s (reads 0x6A vs) (phy_wait hw retry s)"
  using assms(2)
proof (induction "0xFFF - retry" arbitrary: retry s rule: less_induct)
  case less
  obtain v s1 where r: "ENC28J60_Read hw MISTAT s = (v, s1)" "goes s [Reg_Read 0x6A v] s1"
    using Read_goes [OF assms(1), of MISTAT s] less.prems by auto
  show ?case
  proof (cases "v AND MISTAT_BUSY \<noteq> 0 \<and> retry < 0xFFF")
    case True
    then have "0xFFF - (retry + 1) < 0xFFF - retry" by arith
    then obtain vs where "goes s1 (reads 0x6A vs) (phy_wait hw (retry + 1) s1)"
      using less.hyps goes_synced [OF r(2)] by blast
    then have "goes s (reads 0x6A (v # vs)) (phy_wait hw (retry + 1) s1)" using goes_trans [OF r(2)] by fastforce
    moreover have "phy_wait hw retry s = phy_wait hw (retry + 1) s1"
      using r(1) True by (subst phy_wait.simps) simp
    ultimately show ?thesis by (metis list.distinct(1))
  next
    case False
    then have "phy_wait hw retry s = s1" using r(1) by (subst phy_wait.simps) auto
    then show ?thesis using r(2) by (intro exI [of _ "[v]"]) simp
  qed
qed

lemma PHY_Write_goes:
  assumes "spi_works hw" "synced s"
  shows "\<exists>vs. vs \<noteq> [] \<and> goes s ([Reg_Write 0x54 a, Reg_Write 0x56 (ucast d), Reg_Write 0x57 (ucast (drop_bit 8 d))] @ reads 0x6A vs)
    (ENC28J60_PHY_Write hw a d s)"
proof -
  have 1: "goes s (reg_writes [(MIREGADR, a), (MIWRL, ucast d), (MIWRH, ucast (drop_bit 8 d))])
      (write_all hw [(MIREGADR, a), (MIWRL, ucast d), (MIWRH, ucast (drop_bit 8 d))] s)"
    using write_all_goes [OF assms(1) _ assms(2), of "[(MIREGADR, a), (MIWRL, ucast d), (MIWRH, ucast (drop_bit 8 d))]"]
    by (simp add: good_reg_def reg_ok_def is_mac_def del: write_all.simps)
  show ?thesis
    using phy_wait_goes [OF assms(1) goes_synced [OF 1], of 0] goes_trans [OF 1] by (fastforce simp: ENC28J60_PHY_Write_def)
qed

lemma happens_quiet:
  assumes "ev \<in> {Delay_ms n, Prescaler p}"
  shows "chip (happens ev s) = chip s" "ENC28J60BANK (happens ev s) = ENC28J60BANK s" "NextPacketPtr (happens ev s) = NextPacketPtr s"
    "synced (happens ev s) = synced s"
  using assms by (auto simp: happens_def synced_def)

lemma clock_wait_runs:
  assumes "spi_works hw" "synced s \<or> fresh s"
  shows "\<exists>vs n s'. clock_wait hw retry s = (n, s') \<and> runs s (reads ESTAT vs) s' \<and> vs \<noteq> [] \<and>
    (n < 250 \<longrightarrow> last vs AND ESTAT_CLKRDY \<noteq> 0)"
  using assms(2)
proof (induction "250 - retry" arbitrary: retry s rule: less_induct)
  case less
  obtain v s1 where r: "ENC28J60_Read hw ESTAT s = (v, s1)" "goes s [Reg_Read ESTAT v] s1"
    using Read_goes [OF assms(1), of ESTAT s] less.prems by auto
  show ?case
  proof (cases "v AND ESTAT_CLKRDY = 0 \<and> retry < 250")
    case True
    have y: "synced (happens (Delay_ms 1) s1)" using goes_synced [OF r(2)] happens_quiet(4) by blast
    have "250 - (retry + 1) < 250 - retry" using True by arith
    then obtain vs n s' where i: "clock_wait hw (retry + 1) (happens (Delay_ms 1) s1) = (n, s')"
      "runs (happens (Delay_ms 1) s1) (reads ESTAT vs) s'" "vs \<noteq> []" "n < 250 \<longrightarrow> last vs AND ESTAT_CLKRDY \<noteq> 0"
      using less.hyps [of "retry + 1" "happens (Delay_ms 1) s1"] y by blast
    have "runs s1 (reads ESTAT vs) s'" using i(2) happens_quiet [of "Delay_ms 1" 1 _ s1] by (simp add: runs_def)
    then have "runs s (reads ESTAT (v # vs)) s'" using runs_trans [OF goes_runs [OF r(2)]] by fastforce
    moreover have "clock_wait hw retry s = (n, s')" using r(1) i(1) True by (subst clock_wait.simps) simp
    ultimately show ?thesis using i(3,4) by (intro exI [of _ "v # vs"] exI [of _ n] exI [of _ s']) simp
  next
    case False
    then have "clock_wait hw retry s = (retry, s1)" using r(1) by (subst clock_wait.simps) auto
    then show ?thesis using goes_runs [OF r(2)] False by (intro exI [of _ "[v]"] exI [of _ retry] exI [of _ s1]) auto
  qed
qed

section \<open>Buffer memory\<close>

lemma mem_decode:
  "decode b ((0x3A OR 0 AND 0x1F, x) # fr) = Mem_Read (map snd fr)"
  "decode b ((0x7A OR 0 AND 0x1F, x) # fr) = Mem_Write (map fst fr)"
  "decode b ((0xFF OR 0 AND 0x1F, x) # fr) = Soft_Reset"
  by (simp_all add: decode_def)

lemma Mem_Read_goes:
  assumes "spi_works hw" "synced s"
  shows "\<exists>v s'. ENC28J60_Read_Op hw READ_BUF_MEM 0 s = (v, s') \<and> goes s [Mem_Read [v]] s'"
proof -
  have b: "\<not> ecs_low (chip s)" using assms(2) by (simp add: synced_def)
  obtain h x v where "ENC28J60_Read_Op hw READ_BUF_MEM 0 s = (v, s\<lparr>hist := h\<rparr>)"
    "enc_of h = finish (Mem_Read [v]) (chip s)"
    using Read_Op_frame [OF assms(1) b, of READ_BUF_MEM 0] unfolding mem_decode by auto
  then show ?thesis using finish_goes [OF refl _ assms(2)] by (fastforce simp: bank_after_def bank_only_def)
qed

lemma Mem_Write_goes:
  assumes "spi_works hw" "synced s"
  shows "goes s [Mem_Write [v]] (ENC28J60_Write_Op hw WRITE_BUF_MEM 0 v s)"
proof -
  have b: "\<not> ecs_low (chip s)" using assms(2) by (simp add: synced_def)
  obtain h where "ENC28J60_Write_Op hw WRITE_BUF_MEM 0 v s = s\<lparr>hist := h\<rparr>"
    "enc_of h = finish (Mem_Write [v]) (chip s)"
    using Write_Op_frame [OF assms(1) b, of WRITE_BUF_MEM 0] unfolding mem_decode by auto
  then show ?thesis using finish_goes [OF refl _ assms(2)] by (fastforce simp: bank_after_def bank_only_def)
qed

text \<open>The loops of the two buffer functions, while the select line is low.\<close>

lemma read_bytes_frame:
  assumes "spi_works hw" "ecs_low (chip s)" "i + n \<le> length data"
  shows "\<exists>bs h. read_bytes_from hw n i data s = Some (take i data @ bs @ drop (i + n) data, s\<lparr>hist := h\<rparr>) \<and> length bs = n \<and>
    enc_of h = (chip s)\<lparr>eframe := eframe (chip s) @ map (Pair 0) bs\<rparr>"
  using assms(2,3)
proof (induction n arbitrary: i data s)
  case 0
  then show ?case by (intro exI [of _ "[]"] exI [of _ "hist s"]) simp
next
  case (Suc n)
  obtain b h1 where b: "SPI2_ReadWriteByte hw 0 s = (b, s\<lparr>hist := h1\<rparr>)" "enc_of h1 = enc_xfer 0 b (chip s)"
    using transfer [OF assms(1)] by blast
  have c: "enc_of h1 = (chip s)\<lparr>eframe := eframe (chip s) @ [(0, b)]\<rparr>" using b(2) Suc.prems(1) by (simp add: enc_xfer_def)
  obtain bs h where ih: "read_bytes_from hw n (i + 1) (data[i := b]) (s\<lparr>hist := h1\<rparr>) =
      Some (take (i + 1) (data[i := b]) @ bs @ drop (i + 1 + n) (data[i := b]), s\<lparr>hist := h1\<rparr>\<lparr>hist := h\<rparr>)" "length bs = n"
    "enc_of h = (enc_of h1)\<lparr>eframe := eframe (enc_of h1) @ map (Pair 0) bs\<rparr>"
    using Suc.IH [of "s\<lparr>hist := h1\<rparr>" "i + 1" "data[i := b]"] Suc.prems c by auto
  have "take (i + 1) (data[i := b]) @ bs @ drop (i + 1 + n) (data[i := b]) = take i data @ (b # bs) @ drop (i + Suc n) data"
    using Suc.prems(2) by (simp add: take_Suc_conv_app_nth)
  then show ?case using ih b(1) c Suc.prems(2)
    by (intro exI [of _ "b # bs"] exI [of _ h]) (simp add: array_simps)
qed

lemma write_bytes_frame:
  assumes "spi_works hw" "ecs_low (chip s)" "i + n \<le> length data"
  shows "\<exists>rs h. write_bytes_from hw n i data s = Some (s\<lparr>hist := h\<rparr>) \<and> length rs = n \<and>
    enc_of h = (chip s)\<lparr>eframe := eframe (chip s) @ zip (take n (drop i data)) rs\<rparr>"
  using assms(2,3)
proof (induction n arbitrary: i s)
  case 0
  then show ?case by (auto intro!: exI [of _ "hist s"])
next
  case (Suc n)
  obtain b h1 where b: "SPI2_ReadWriteByte hw (data ! i) s = (b, s\<lparr>hist := h1\<rparr>)" "enc_of h1 = enc_xfer (data ! i) b (chip s)"
    using transfer [OF assms(1)] by blast
  have c: "enc_of h1 = (chip s)\<lparr>eframe := eframe (chip s) @ [(data ! i, b)]\<rparr>" using b(2) Suc.prems(1) by (simp add: enc_xfer_def)
  obtain rs h where ih: "write_bytes_from hw n (i + 1) data (s\<lparr>hist := h1\<rparr>) = Some (s\<lparr>hist := h1\<rparr>\<lparr>hist := h\<rparr>)" "length rs = n"
    "enc_of h = (enc_of h1)\<lparr>eframe := eframe (enc_of h1) @ zip (take n (drop (i + 1) data)) rs\<rparr>"
    using Suc.IH [of "s\<lparr>hist := h1\<rparr>" "i + 1"] Suc.prems c by auto
  have "drop i data = data ! i # drop (i + 1) data" using Suc.prems(2) by (simp add: Cons_nth_drop_Suc)
  then show ?case using ih b(1) c Suc.prems(2)
    by (intro exI [of _ "b # rs"] exI [of _ h]) (simp add: array_simps)
qed

lemma Read_Buf_goes:
  assumes "spi_works hw" "synced s" "unat len < length data"
  shows "\<exists>bs s'. ENC28J60_Read_Buf hw len data s = Some (bs @ 0 # drop (unat len + 1) data, s') \<and> length bs = unat len \<and>
    goes s [Mem_Read bs] s'"
proof -
  define s1 where "s1 = ENC28J60_CS 0 s"
  have c1: "chip s1 = (chip s)\<lparr>ecs_low := True, eframe := []\<rparr>" using assms(2)
    by (simp add: s1_def ENC28J60_CS_def happens_def enc_cs_def synced_def)
  obtain r h1 where r: "SPI2_ReadWriteByte hw READ_BUF_MEM s1 = (r, s1\<lparr>hist := h1\<rparr>)" "enc_of h1 = enc_xfer READ_BUF_MEM r (chip s1)"
    using transfer [OF assms(1)] by blast
  have c2: "enc_of h1 = (chip s)\<lparr>ecs_low := True, eframe := [(0x3A, r)]\<rparr>" using r(2) c1 by (simp add: enc_xfer_def)
  obtain bs h where b: "read_bytes_from hw (unat len) 0 data (s1\<lparr>hist := h1\<rparr>) =
      Some (take 0 data @ bs @ drop (0 + unat len) data, s1\<lparr>hist := h1\<rparr>\<lparr>hist := h\<rparr>)" "length bs = unat len"
    "enc_of h = (enc_of h1)\<lparr>eframe := eframe (enc_of h1) @ map (Pair 0) bs\<rparr>"
    using read_bytes_frame [OF assms(1), of "s1\<lparr>hist := h1\<rparr>" 0 "unat len" data] c2 assms(3) by auto
  have "enc_of h = (chip s)\<lparr>ecs_low := True, eframe := (0x3A, r) # map (Pair 0) bs\<rparr>" using b(3) c2 by simp
  then have f: "enc_of (CS_pin 1 # h) = finish (Mem_Read bs) (chip s)"
    using mem_decode(1) [of _ r "map (Pair 0) bs"] by (simp add: enc_cs_def finish_def comp_def)
  have w: "wr (bs @ drop (unat len) data) (unat len) 0 = Some (bs @ 0 # drop (unat len + 1) data)"
    using assms(3) b(2) by (simp add: wr_def list_update_append Cons_nth_drop_Suc [symmetric])
  have e: "ENC28J60_Read_Buf hw len data s = Some (bs @ 0 # drop (unat len + 1) data, s\<lparr>hist := CS_pin 1 # h\<rparr>)"
    using r(1) b(1) w unfolding ENC28J60_Read_Buf_def s1_def by (simp add: ENC28J60_CS_def happens_def)
  show ?thesis
    using finish_goes [OF refl f assms(2)] e b(2) by (auto simp: bank_after_def bank_only_def)
qed

lemma Write_Buf_goes:
  assumes "spi_works hw" "synced s" "unat len \<le> length data"
  shows "\<exists>s'. ENC28J60_Write_Buf hw len data s = Some s' \<and> goes s [Mem_Write (take (unat len) data)] s'"
proof -
  define s1 where "s1 = ENC28J60_CS 0 s"
  have c1: "chip s1 = (chip s)\<lparr>ecs_low := True, eframe := []\<rparr>" using assms(2)
    by (simp add: s1_def ENC28J60_CS_def happens_def enc_cs_def synced_def)
  obtain r h1 where r: "SPI2_ReadWriteByte hw WRITE_BUF_MEM s1 = (r, s1\<lparr>hist := h1\<rparr>)" "enc_of h1 = enc_xfer WRITE_BUF_MEM r (chip s1)"
    using transfer [OF assms(1)] by blast
  have c2: "enc_of h1 = (chip s)\<lparr>ecs_low := True, eframe := [(0x7A, r)]\<rparr>" using r(2) c1 by (simp add: enc_xfer_def)
  obtain rs h where b: "write_bytes_from hw (unat len) 0 data (s1\<lparr>hist := h1\<rparr>) = Some (s1\<lparr>hist := h1\<rparr>\<lparr>hist := h\<rparr>)" "length rs = unat len"
    "enc_of h = (enc_of h1)\<lparr>eframe := eframe (enc_of h1) @ zip (take (unat len) (drop 0 data)) rs\<rparr>"
    using write_bytes_frame [OF assms(1), of "s1\<lparr>hist := h1\<rparr>" 0 "unat len" data] c2 assms(3) by auto
  have "enc_of h = (chip s)\<lparr>ecs_low := True, eframe := (0x7A, r) # zip (take (unat len) data) rs\<rparr>" using b(3) c2 by simp
  then have f: "enc_of (CS_pin 1 # h) = finish (Mem_Write (take (unat len) data)) (chip s)"
    using mem_decode(2) [of _ r "zip (take (unat len) data) rs"] b(2) assms(3) by (simp add: enc_cs_def finish_def)
  have "ENC28J60_Write_Buf hw len data s = Some (s\<lparr>hist := CS_pin 1 # h\<rparr>)"
    using r(1) b(1) unfolding ENC28J60_Write_Buf_def s1_def by (simp add: ENC28J60_CS_def happens_def)
  then show ?thesis
    using finish_goes [OF refl f assms(2)] by (auto simp: bank_after_def bank_only_def)
qed

end
