(* ===== verification/Enc_Packets.thy ===== *)
theory Enc_Packets
  imports Enc_Driver
begin

text \<open>
  Initialisation, transmission and reception: which requests the chip gets on every path, and what the
  writes leave in its registers and buffer memory.
\<close>

section \<open>What the writes leave in the chip\<close>

text \<open>The registers and the buffer memory of 8K. A write to the memory starts at the write pointer and
  advances it; the read pointer and the bank bits of \<open>ECON1\<close> are not followed.\<close>

definition reg_word :: "(u8 \<Rightarrow> u8) \<Rightarrow> u8 \<Rightarrow> nat" where
  "reg_word regs r = unat (regs r) + 256 * unat (regs (r + 1))"

fun effect :: "enc_op \<Rightarrow> (u8 \<Rightarrow> u8) \<times> (nat \<Rightarrow> u8) \<Rightarrow> (u8 \<Rightarrow> u8) \<times> (nat \<Rightarrow> u8)" where
  "effect (Reg_Write r v) (regs, ram) = (regs(r := v), ram)"
| "effect (Bit_Set r v) (regs, ram) = (regs(r := regs r OR v), ram)"
| "effect (Bit_Clear r v) (regs, ram) = (regs(r := regs r AND NOT v), ram)"
| "effect (Mem_Write bs) (regs, ram) =
     (let p = reg_word regs EWRPTL; q = (p + length bs) mod 0x2000
      in (regs(EWRPTL := of_nat q, EWRPTH := of_nat (q div 256)),
          fold (\<lambda>i ram. ram((p + i) mod 0x2000 := bs ! i)) [0..<length bs] ram))"
| "effect _ m = m"

definition after :: "enc_op list \<Rightarrow> (u8 \<Rightarrow> u8) \<times> (nat \<Rightarrow> u8) \<Rightarrow> (u8 \<Rightarrow> u8) \<times> (nat \<Rightarrow> u8)" where
  "after os m = fold effect os m"

lemma after_simps [simp]:
  "after [] m = m" "after (op # os) m = after os (effect op m)" "after (xs @ ys) m = after ys (after xs m)"
  by (simp_all add: after_def)

lemma effect_reads [simp]: "after (reads r vs) m = m"
proof (induction vs)
  case (Cons v vs)
  then show ?case by (cases m) simp
qed simp

lemma fold_ram:
  assumes "p + n \<le> 0x2000"
  shows "fold (\<lambda>i ram. ram((p + i) mod 0x2000 := f i)) [0..<n] ram =
    (\<lambda>a. if p \<le> a \<and> a < p + n then f (a - p) else ram a)"
  using assms
proof (induction n)
  case (Suc n)
  then show ?case by (auto simp: fun_eq_iff less_Suc_eq)
qed (auto simp: fun_eq_iff)

section \<open>Initialisation\<close>

definition config_ops :: "u8 list \<Rightarrow> u8 list \<Rightarrow> u8 list \<Rightarrow> enc_op list" where
  "config_ops mac ps qs = reg_writes (init_buffers @ init_filter @ init_mac_enable) @ [Bit_Set 0x42 0x33] @
     reg_writes init_mac_gaps @
     [Reg_Write 0x64 (mac ! 0), Reg_Write 0x65 (mac ! 1), Reg_Write 0x62 (mac ! 2), Reg_Write 0x63 (mac ! 3),
      Reg_Write 0x60 (mac ! 4), Reg_Write 0x61 (mac ! 5)] @
     [Reg_Write 0x54 PHCON1, Reg_Write 0x56 0, Reg_Write 0x57 1] @ reads 0x6A ps @
     [Reg_Write 0x54 PHCON2, Reg_Write 0x56 0, Reg_Write 0x57 1] @ reads 0x6A qs @
     [Bit_Clear EIE 0xC1, Bit_Set ECON1 ECON1_RXEN]"

lemma reset_fresh:
  assumes "spi_works hw" "\<not> ecs_low (chip s)"
  shows "fresh (ENC28J60_Write_Op hw SOFT_RESET 0 SOFT_RESET (ENC28J60_Reset s)) \<and>
    eops (chip (ENC28J60_Write_Op hw SOFT_RESET 0 SOFT_RESET (ENC28J60_Reset s))) = eops (chip s) @ [Hard_Reset, Soft_Reset]"
proof -
  have c: "chip (ENC28J60_Reset s) = (chip s)\<lparr>ebank := 0, eops := eops (chip s) @ [Hard_Reset]\<rparr>"
    using assms(2) by (simp add: ENC28J60_Reset_def ENC28J60_SPI2_Init_def ENC28J60_CS_def enc_cs_def SPI2_SetSpeed_def happens_def)
  then have "\<not> ecs_low (chip (ENC28J60_Reset s))" using assms(2) by simp
  then obtain h where "ENC28J60_Write_Op hw SOFT_RESET 0 SOFT_RESET (ENC28J60_Reset s) = (ENC28J60_Reset s)\<lparr>hist := h\<rparr>"
    "enc_of h = finish Soft_Reset (chip (ENC28J60_Reset s))"
    using Write_Op_frame [OF assms(1), of "ENC28J60_Reset s" SOFT_RESET 0 SOFT_RESET] unfolding mem_decode by auto
  then show ?thesis by (simp add: fresh_def c finish_def bank_after_def bank_only_def)
qed

lemma small_reg [simp]: "\<not> (0x1B :: u8) \<le> 1" "\<not> (0x40 :: u8) \<le> 1" "\<not> (0x60 :: u8) \<le> 1"
  by (simp_all add: word_le_nat_alt)

lemma u8_256 [simp]: "(256 :: u8) = 0"
  by (simp add: word_unat_eq_iff)

lemma init_regs_good: "\<forall>(r, v) \<in> set (init_buffers @ init_filter @ init_mac_enable). good_reg r"
  "\<forall>(r, v) \<in> set init_mac_gaps. good_reg r"
  by (simp_all add: init_buffers_def init_filter_def init_mac_enable_def init_mac_gaps_def good_reg_def reg_ok_def is_mac_def)

text \<open>Everything after the clock is ready, up to the test at the end.\<close>

lemma configure:
  assumes "spi_works hw" "synced s" "length mac = 6"
  shows "\<exists>ps qs s'. goes s (config_ops mac ps qs) s' \<and> s' =
    (let s = write_all hw (init_buffers @ init_filter @ init_mac_enable) s;
         s = ENC28J60_Write_Op hw BIT_FIELD_SET MACON3 (0x20 OR 0x10 OR 0x02 OR 0x01) s;
         s = write_all hw init_mac_gaps s;
         s = write_all hw [(MAADR5, mac ! 0), (MAADR4, mac ! 1), (MAADR3, mac ! 2), (MAADR2, mac ! 3), (MAADR1, mac ! 4), (MAADR0, mac ! 5)] s;
         s = ENC28J60_PHY_Write hw PHCON1 0x0100 s;
         s = ENC28J60_PHY_Write hw PHCON2 0x0100 s;
         s = ENC28J60_Set_Bank hw ECON1 s;
         s = ENC28J60_Write_Op hw BIT_FIELD_CLR EIE (0x80 OR 0x40 OR 0x01) s
     in ENC28J60_Write_Op hw BIT_FIELD_SET ECON1 ECON1_RXEN s)"
proof -
  define ms where "ms = [(MAADR5, mac ! 0), (MAADR4, mac ! 1), (MAADR3, mac ! 2), (MAADR2, mac ! 3), (MAADR1, mac ! 4), (MAADR0, mac ! 5)]"
  define s1 where "s1 = write_all hw (init_buffers @ init_filter @ init_mac_enable) s"
  have 1: "goes s (reg_writes (init_buffers @ init_filter @ init_mac_enable)) s1" "ENC28J60BANK s1 = 0x40"
    using write_all_goes [OF assms(1) init_regs_good(1) assms(2)] by (simp_all add: s1_def init_mac_enable_def)
  define s2 where "s2 = ENC28J60_Write_Op hw BIT_FIELD_SET MACON3 (0x20 OR 0x10 OR 0x02 OR 0x01) s1"
  have 2: "goes s1 [Bit_Set 0x42 0x33] s2"
    using Bit_goes(1) [OF assms(1) goes_synced [OF 1(1)], of MACON3 "0x33"] 1(2) by (simp add: s2_def)
  define s3 where "s3 = write_all hw init_mac_gaps s2"
  have 3: "goes s2 (reg_writes init_mac_gaps) s3"
    using write_all_goes [OF assms(1) init_regs_good(2) goes_synced [OF 2]] by (simp add: s3_def)
  define s4 where "s4 = write_all hw ms s3"
  have 4: "goes s3 (reg_writes ms) s4"
    using write_all_goes [OF assms(1) _ goes_synced [OF 3], of ms] by (simp add: s4_def ms_def good_reg_def reg_ok_def is_mac_def del: write_all.simps)
  obtain ps where 5: "goes s4 ([Reg_Write 0x54 PHCON1, Reg_Write 0x56 0, Reg_Write 0x57 1] @ reads 0x6A ps) (ENC28J60_PHY_Write hw PHCON1 0x0100 s4)"
    using PHY_Write_goes [OF assms(1) goes_synced [OF 4], of PHCON1 "0x0100"] by auto
  define s5 where "s5 = ENC28J60_PHY_Write hw PHCON1 0x0100 s4"
  obtain qs where 6: "goes s5 ([Reg_Write 0x54 PHCON2, Reg_Write 0x56 0, Reg_Write 0x57 1] @ reads 0x6A qs) (ENC28J60_PHY_Write hw PHCON2 0x0100 s5)"
    using PHY_Write_goes [OF assms(1) goes_synced [OF 5], of PHCON2 "0x0100"] by (auto simp: s5_def)
  define s6 where "s6 = ENC28J60_PHY_Write hw PHCON2 0x0100 s5"
  define s7 where "s7 = ENC28J60_Set_Bank hw ECON1 s6"
  have 7: "goes s6 [] s7" using set_bank_goes [OF assms(1), of s6 ECON1] goes_synced [OF 6] by (simp add: s6_def s7_def)
  define s8 where "s8 = ENC28J60_Write_Op hw BIT_FIELD_CLR EIE (0x80 OR 0x40 OR 0x01) s7"
  have 8: "goes s7 [Bit_Clear EIE 0xC1] s8"
    using Bit_goes(2) [OF assms(1) goes_synced [OF 7], of EIE "0xC1"] by (simp add: s8_def)
  define s9 where "s9 = ENC28J60_Write_Op hw BIT_FIELD_SET ECON1 ECON1_RXEN s8"
  have 9: "goes s8 [Bit_Set ECON1 ECON1_RXEN] s9"
    using Bit_goes(1) [OF assms(1) goes_synced [OF 8], of ECON1 ECON1_RXEN] by (simp add: s9_def)
  have "goes s (reg_writes (init_buffers @ init_filter @ init_mac_enable) @ [Bit_Set 0x42 0x33] @ reg_writes init_mac_gaps @
      reg_writes ms @ ([Reg_Write 0x54 PHCON1, Reg_Write 0x56 0, Reg_Write 0x57 1] @ reads 0x6A ps) @
      ([Reg_Write 0x54 PHCON2, Reg_Write 0x56 0, Reg_Write 0x57 1] @ reads 0x6A qs) @ [] @ [Bit_Clear EIE 0xC1] @ [Bit_Set ECON1 ECON1_RXEN]) s9"
    using 1(1) 2 3 4 5 [folded s5_def] 6 [folded s6_def] 7 8 9 by (meson goes_trans)
  then have "goes s (config_ops mac ps qs) s9" by (simp add: config_ops_def ms_def)
  then show ?thesis
    unfolding Let_def s9_def s8_def s7_def s6_def s5_def s4_def s3_def s2_def s1_def ms_def by blast
qed

lemma Init_runs:
  assumes "spi_works hw" "\<not> ecs_low (chip s)" "length mac = 6"
  shows "\<exists>r s' vs. ENC28J60_Init hw mac s = Some (r, s') \<and> synced s' \<and> vs \<noteq> [] \<and>
    (r = 1 \<and> eops (chip s') = eops (chip s) @ [Hard_Reset, Soft_Reset] @ reads ESTAT vs \<or>
     (\<exists>ps qs v. eops (chip s') = eops (chip s) @ [Hard_Reset, Soft_Reset] @ reads ESTAT vs @ config_ops mac ps qs @ [Reg_Read 0x64 v] \<and>
        last vs AND ESTAT_CLKRDY \<noteq> 0 \<and> r = (if v = mac ! 0 then 0 else 1) \<and> NextPacketPtr s' = RXSTART_INIT))"
proof -
  define s0 where "s0 = ENC28J60_Write_Op hw SOFT_RESET 0 SOFT_RESET (ENC28J60_Reset s)"
  have 0: "fresh s0" "eops (chip s0) = eops (chip s) @ [Hard_Reset, Soft_Reset]"
    using reset_fresh [OF assms(1,2)] by (simp_all add: s0_def)
  obtain vs n s1 where 1: "clock_wait hw 0 s0 = (n, s1)" "runs s0 (reads ESTAT vs) s1" "vs \<noteq> []" "n < 250 \<longrightarrow> last vs AND ESTAT_CLKRDY \<noteq> 0"
    using clock_wait_runs [OF assms(1), of s0 0] 0(1) by blast
  show ?thesis
  proof (cases "n \<ge> 250")
    case True
    then have "ENC28J60_Init hw mac s = Some (1, s1)" using 1(1) unfolding ENC28J60_Init_def s0_def by simp
    then show ?thesis using 0(2) 1(2,3) by (fastforce simp: runs_def)
  next
    case False
    define s2 where "s2 = s1\<lparr>NextPacketPtr := RXSTART_INIT\<rparr>"
    have y: "synced s2" "eops (chip s2) = eops (chip s) @ [Hard_Reset, Soft_Reset] @ reads ESTAT vs"
      using 0(2) 1(2) by (simp_all add: s2_def runs_def)
    obtain ps qs s3 where 3: "goes s2 (config_ops mac ps qs) s3" and s3: "s3 =
    (let s = write_all hw (init_buffers @ init_filter @ init_mac_enable) s2;
         s = ENC28J60_Write_Op hw BIT_FIELD_SET MACON3 (0x20 OR 0x10 OR 0x02 OR 0x01) s;
         s = write_all hw init_mac_gaps s;
         s = write_all hw [(MAADR5, mac ! 0), (MAADR4, mac ! 1), (MAADR3, mac ! 2), (MAADR2, mac ! 3), (MAADR1, mac ! 4), (MAADR0, mac ! 5)] s;
         s = ENC28J60_PHY_Write hw PHCON1 0x0100 s;
         s = ENC28J60_PHY_Write hw PHCON2 0x0100 s;
         s = ENC28J60_Set_Bank hw ECON1 s;
         s = ENC28J60_Write_Op hw BIT_FIELD_CLR EIE (0x80 OR 0x40 OR 0x01) s
     in ENC28J60_Write_Op hw BIT_FIELD_SET ECON1 ECON1_RXEN s)"
      using configure [OF assms(1) y(1) assms(3)] by blast
    obtain v s4 where 4: "ENC28J60_Read hw MAADR5 s3 = (v, s4)" "goes s3 [Reg_Read 0x64 v] s4"
      using Read_goes [OF assms(1), of MAADR5 s3] goes_synced [OF 3] by auto
    have "ENC28J60_Init hw mac s = Some (if v = mac ! 0 then 0 else 1, s4)"
      using 1(1) False 4(1) assms(3) unfolding ENC28J60_Init_def s3 s2_def s0_def
      by (simp add: rd_def Let_def del: write_all.simps)
    moreover have "eops (chip s4) = eops (chip s) @ [Hard_Reset, Soft_Reset] @ reads ESTAT vs @ config_ops mac ps qs @ [Reg_Read 0x64 v]"
      using y(2) 3 4(2) by (simp add: goes_def)
    moreover have "NextPacketPtr s4 = RXSTART_INIT" using goes_vars(5) [OF 3] goes_vars(5) [OF 4(2)] by (simp add: s2_def)
    ultimately show ?thesis using 1(3,4) False goes_synced [OF 4(2)] by fastforce
  qed
qed

text \<open>The registers that the configuration leaves.\<close>

lemma config_effect:
  assumes "after (config_ops mac ps qs) (regs, ram) = (regs', ram')"
  shows "reg_word regs' ERXSTL = 0x600" "reg_word regs' ERXNDL = 0x1ff0" "reg_word regs' ERXRDPTL = 0x600"
    "reg_word regs' ETXSTL = 0" "reg_word regs' ETXNDL = 0x5f0" "reg_word regs' 0x4A = 1518"
    "map regs' [0x64, 0x65, 0x62, 0x63, 0x60, 0x61] = map ((!) mac) [0, 1, 2, 3, 4, 5]"
    "regs' ECON1 AND ECON1_RXEN = ECON1_RXEN" "regs' EIE AND 0xC1 = 0"
  using assms by (auto simp: config_ops_def init_buffers_def init_filter_def init_mac_enable_def init_mac_gaps_def reg_word_def
      bit.conj_disj_distrib2 and.assoc)

section \<open>Status\<close>

lemma reads_status:
  assumes "spi_works hw" "synced s"
  shows "\<exists>v s'. read_eir hw s = s' \<and> runs s [Reg_Read EIR v] s' \<and> eir s' = v \<and> estat s' = estat s \<and> econ1 s' = econ1 s"
    "\<exists>v s'. read_estat hw s = s' \<and> runs s [Reg_Read ESTAT v] s' \<and> estat s' = v \<and> eir s' = eir s \<and> econ1 s' = econ1 s"
    "\<exists>v s'. read_econ1 hw s = s' \<and> runs s [Reg_Read ECON1 v] s' \<and> econ1 s' = v \<and> eir s' = eir s \<and> estat s' = estat s"
proof -
  obtain v s1 where 1: "ENC28J60_Read hw EIR s = (v, s1)" "goes s [Reg_Read EIR v] s1"
    using Read_goes [OF assms(1), of EIR s] assms(2) by auto
  then show "\<exists>v s'. read_eir hw s = s' \<and> runs s [Reg_Read EIR v] s' \<and> eir s' = v \<and> estat s' = estat s \<and> econ1 s' = econ1 s"
    using goes_vars [OF 1(2)] by (auto simp: read_eir_def goes_def runs_def)
  obtain v s1 where 1: "ENC28J60_Read hw ESTAT s = (v, s1)" "goes s [Reg_Read ESTAT v] s1"
    using Read_goes [OF assms(1), of ESTAT s] assms(2) by auto
  then show "\<exists>v s'. read_estat hw s = s' \<and> runs s [Reg_Read ESTAT v] s' \<and> estat s' = v \<and> eir s' = eir s \<and> econ1 s' = econ1 s"
    using goes_vars [OF 1(2)] by (auto simp: read_estat_def goes_def runs_def)
  obtain v s1 where 1: "ENC28J60_Read hw ECON1 s = (v, s1)" "goes s [Reg_Read ECON1 v] s1"
    using Read_goes [OF assms(1), of ECON1 s] assms(2) by auto
  then show "\<exists>v s'. read_econ1 hw s = s' \<and> runs s [Reg_Read ECON1 v] s' \<and> econ1 s' = v \<and> eir s' = eir s \<and> estat s' = estat s"
    using goes_vars [OF 1(2)] by (auto simp: read_econ1_def goes_def runs_def)
qed

lemma lock_runs:
  assumes "synced s"
  shows "\<exists>s'. lock_pend hw s = (pend_err hw (hist s), s') \<and> runs s [Took (pend_err hw (hist s))] s'" "runs s [Gave] (lock_post s)"
  using assms by (simp_all add: lock_pend_def lock_post_def happens_def runs_def synced_def Let_def)

section \<open>Transmission\<close>

text \<open>One round of the loop that waits for the transmitter, by the values read.\<close>

definition round_ops :: "u8 \<times> u8 \<times> u8 \<Rightarrow> enc_op list" where
  "round_ops = (\<lambda>(a, b, c). [Reg_Read EIR a, Reg_Read ESTAT b, Reg_Read ECON1 c] @
     (if b AND 0x12 \<noteq> 0 then [Bit_Clear ESTAT 0x12, Bit_Clear EIR EIR_TXERIF] else []))"

definition round_busy :: "u8 \<times> u8 \<times> u8 \<Rightarrow> bool" where
  "round_busy = (\<lambda>(a, b, c). (c AND ECON1_TXRTS OR c AND ECON1_DMAST) OR (b AND ESTAT_TXABRT) \<noteq> 0)"

lemma send_wait_runs:
  assumes "spi_works hw" "synced s" "retry \<le> 200"
  shows "\<exists>ts ok s'. send_wait hw retry s = (ok, s') \<and> runs s (concat (map round_ops ts)) s' \<and> ts \<noteq> [] \<and>
    (\<forall>t \<in> set (butlast ts). round_busy t) \<and> retry + length ts \<le> 201 \<and>
    (ok \<longrightarrow> \<not> round_busy (last ts)) \<and> (\<not> ok \<longrightarrow> retry + length ts = 201)"
  using assms(2,3)
proof (induction "200 - retry" arbitrary: retry s rule: less_induct)
  case less
  obtain a s1 where 1: "read_eir hw s = s1" "runs s [Reg_Read EIR a] s1" using reads_status(1) [OF assms(1) less.prems(1)] by blast
  obtain b s2 where 2: "read_estat hw s1 = s2" "runs s1 [Reg_Read ESTAT b] s2" "estat s2 = b"
    using reads_status(2) [OF assms(1) runs_synced [OF 1(2)]] by blast
  obtain c s3 where 3: "read_econ1 hw s2 = s3" "runs s2 [Reg_Read ECON1 c] s3" "econ1 s3 = c" "estat s3 = b"
    using reads_status(3) [OF assms(1) runs_synced [OF 2(2)]] 2(3) by blast
  define s4 where "s4 = (if b AND 0x12 \<noteq> 0
    then ENC28J60_Write_Op hw BIT_FIELD_CLR EIR EIR_TXERIF (ENC28J60_Write_Op hw BIT_FIELD_CLR ESTAT 0x12 s3) else s3)"
  have 4: "runs s3 (if b AND 0x12 \<noteq> 0 then [Bit_Clear ESTAT 0x12, Bit_Clear EIR EIR_TXERIF] else []) s4" "econ1 s4 = c" "estat s4 = b"
  proof -
    have g: "goes s3 [Bit_Clear ESTAT 0x12] (ENC28J60_Write_Op hw BIT_FIELD_CLR ESTAT 0x12 s3)"
      using Bit_goes(2) [OF assms(1) runs_synced [OF 3(2)], of ESTAT "0x12"] by simp
    have g': "goes (ENC28J60_Write_Op hw BIT_FIELD_CLR ESTAT 0x12 s3) [Bit_Clear EIR EIR_TXERIF]
      (ENC28J60_Write_Op hw BIT_FIELD_CLR EIR EIR_TXERIF (ENC28J60_Write_Op hw BIT_FIELD_CLR ESTAT 0x12 s3))"
      using Bit_goes(2) [OF assms(1) goes_synced [OF g], of EIR EIR_TXERIF] by simp
    have "goes s3 ([Bit_Clear ESTAT 0x12] @ [Bit_Clear EIR EIR_TXERIF])
      (ENC28J60_Write_Op hw BIT_FIELD_CLR EIR EIR_TXERIF (ENC28J60_Write_Op hw BIT_FIELD_CLR ESTAT 0x12 s3))"
      using goes_trans [OF g g'] .
    then show "runs s3 (if b AND 0x12 \<noteq> 0 then [Bit_Clear ESTAT 0x12, Bit_Clear EIR EIR_TXERIF] else []) s4"
      using goes_runs runs_refl [OF runs_synced [OF 3(2)]] by (simp add: s4_def)
    show "econ1 s4 = c" "estat s4 = b" using goes_vars [OF g] goes_vars [OF g'] 3(3,4) by (simp_all add: s4_def)
  qed
  have rn: "runs s (round_ops (a, b, c)) s4"
    using runs_trans [OF runs_trans [OF runs_trans [OF 1(2) 2(2)] 3(2)] 4(1)] by (simp add: round_ops_def)
  have e: "(if estat s3 AND (ESTAT_TXABRT OR ESTAT_LATECOL) \<noteq> 0
      then ENC28J60_Write_Op hw BIT_FIELD_CLR EIR EIR_TXERIF
             (ENC28J60_Write_Op hw BIT_FIELD_CLR ESTAT (ESTAT_TXABRT OR ESTAT_LATECOL) s3) else s3) = s4"
    by (simp add: s4_def 3(4))
  have go: "send_wait hw retry s = (if retry + 1 > 200 then (False, s4)
    else if round_busy (a, b, c) then send_wait hw (retry + 1) s4 else (True, s4))"
    by (subst send_wait.simps) (simp only: Let_def 1(1) 2(1) 3(1) e 4(2,3) round_busy_def prod.case)
  show ?case
  proof (cases "retry + 1 > 200 \<or> \<not> round_busy (a, b, c)")
    case True
    then show ?thesis using go rn less.prems(2)
      by (intro exI [of _ "[(a, b, c)]"] exI [of _ "retry + 1 \<le> 200"] exI [of _ s4]) auto
  next
    case False
    then have "200 - (retry + 1) < 200 - retry" "retry + 1 \<le> 200" by arith+
    then obtain ts ok s' where i: "send_wait hw (retry + 1) s4 = (ok, s')" "runs s4 (concat (map round_ops ts)) s'" "ts \<noteq> []"
      "\<forall>t \<in> set (butlast ts). round_busy t" "retry + 1 + length ts \<le> 201" "ok \<longrightarrow> \<not> round_busy (last ts)"
      "\<not> ok \<longrightarrow> retry + 1 + length ts = 201"
      using less.hyps [of "retry + 1" s4] runs_synced [OF rn] by blast
    then show ?thesis using go False runs_trans [OF rn i(2)]
      by (intro exI [of _ "(a, b, c) # ts"] exI [of _ ok] exI [of _ s']) auto
  qed
qed

definition send_ops :: "u32 \<Rightarrow> u8 list \<Rightarrow> enc_op list" where
  "send_ops len packet = [Bit_Set ECON1 ECON1_TXRST, Bit_Clear ECON1 ECON1_TXRST, Reg_Write EWRPTL 0, Reg_Write EWRPTH 0,
     Reg_Write ETXNDL (ucast (len AND 0xFF)), Reg_Write ETXNDH (ucast (drop_bit 8 len)), Bit_Clear EIR EIR_TXIF,
     Mem_Write [0], Mem_Write (take (unat len) packet), Bit_Set ECON1 ECON1_TXRTS]"

lemma transmit_runs:
  assumes "spi_works hw" "synced s" "unat len \<le> length packet"
  shows "\<exists>s1 v s'. goes s (send_ops len packet @ [Reg_Read EIR v]) s1 \<and>
    goes s1 (if v AND EIR_TXERIF \<noteq> 0 then [Bit_Clear ECON1 ECON1_TXRTS] else []) s' \<and>
    transmit_packet hw len packet s = Some (lock_post s')"
proof -
  define ws where "ws = [(EWRPTL, 0 :: u8), (EWRPTH, 0), (ETXNDL, ucast (len AND 0xFF)), (ETXNDH, ucast (drop_bit 8 len))]"
  define s1 where "s1 = ENC28J60_Write_Op hw BIT_FIELD_SET ECON1 ECON1_TXRST s"
  have 1: "goes s [Bit_Set ECON1 ECON1_TXRST] s1" using Bit_goes(1) [OF assms(1,2), of ECON1 ECON1_TXRST] by (simp add: s1_def)
  define s2 where "s2 = ENC28J60_Write_Op hw BIT_FIELD_CLR ECON1 ECON1_TXRST s1"
  have 2: "goes s1 [Bit_Clear ECON1 ECON1_TXRST] s2"
    using Bit_goes(2) [OF assms(1) goes_synced [OF 1], of ECON1 ECON1_TXRST] by (simp add: s2_def)
  define s3 where "s3 = write_all hw ws s2"
  have 3: "goes s2 (reg_writes ws) s3"
    using write_all_goes [OF assms(1) _ goes_synced [OF 2], of ws]
    by (simp add: s3_def ws_def good_reg_def reg_ok_def is_mac_def del: write_all.simps)
  define s4 where "s4 = ENC28J60_Write_Op hw BIT_FIELD_CLR EIR EIR_TXIF s3"
  have 4: "goes s3 [Bit_Clear EIR EIR_TXIF] s4"
    using Bit_goes(2) [OF assms(1) goes_synced [OF 3], of EIR EIR_TXIF] by (simp add: s4_def)
  define s5 where "s5 = ENC28J60_Write_Op hw WRITE_BUF_MEM 0 0x00 s4"
  have 5: "goes s4 [Mem_Write [0]] s5" using Mem_Write_goes [OF assms(1) goes_synced [OF 4]] by (simp add: s5_def)
  obtain s6 where 6: "ENC28J60_Write_Buf hw len packet s5 = Some s6" "goes s5 [Mem_Write (take (unat len) packet)] s6"
    using Write_Buf_goes [OF assms(1) goes_synced [OF 5] assms(3)] by blast
  define s7 where "s7 = ENC28J60_Write_Op hw BIT_FIELD_SET ECON1 ECON1_TXRTS s6"
  have 7: "goes s6 [Bit_Set ECON1 ECON1_TXRTS] s7"
    using Bit_goes(1) [OF assms(1) goes_synced [OF 6(2)], of ECON1 ECON1_TXRTS] by (simp add: s7_def)
  obtain v s8 where 8: "ENC28J60_Read hw EIR s7 = (v, s8)" "goes s7 [Reg_Read EIR v] s8"
    using Read_goes [OF assms(1), of EIR s7] goes_synced [OF 7] by auto
  define s9 where "s9 = (if v AND EIR_TXERIF \<noteq> 0 then ENC28J60_Write_Op hw BIT_FIELD_CLR ECON1 ECON1_TXRTS s8 else s8)"
  have 9: "goes s8 (if v AND EIR_TXERIF \<noteq> 0 then [Bit_Clear ECON1 ECON1_TXRTS] else []) s9"
    using Bit_goes(2) [OF assms(1) goes_synced [OF 8(2)], of ECON1 ECON1_TXRTS] goes_refl [OF goes_synced [OF 8(2)]] by (simp add: s9_def)
  have "goes s ([Bit_Set ECON1 ECON1_TXRST] @ [Bit_Clear ECON1 ECON1_TXRST] @ reg_writes ws @ [Bit_Clear EIR EIR_TXIF] @ [Mem_Write [0]] @
      [Mem_Write (take (unat len) packet)] @ [Bit_Set ECON1 ECON1_TXRTS] @ [Reg_Read EIR v]) s8"
    using 1 2 3 4 5 6(2) 7 8(2) by (meson goes_trans)
  then have "goes s (send_ops len packet @ [Reg_Read EIR v]) s8" by (simp add: send_ops_def ws_def)
  then show ?thesis using 9 6(1) 8(1)
    by (intro exI [of _ s8] exI [of _ v] exI [of _ s9])
      (simp add: transmit_packet_def s1_def s2_def s3_def s4_def s5_def s7_def s9_def ws_def Let_def del: write_all.simps)
qed

section \<open>Reception\<close>

lemma recv_wait_iff: "recv_wait busy 0 = (\<not> busy)"
proof (cases busy)
  case True
  have "\<not> recv_wait True r" for r
  proof (induction "200 - r" arbitrary: r rule: less_induct)
    case less
    show ?case
    proof (cases "r + 1 > 200")
      case False
      then have "200 - (r + 1) < 200 - r" by arith
      then show ?thesis using less False by (subst recv_wait.simps) simp
    qed (subst recv_wait.simps, simp)
  qed
  then show ?thesis using True by simp
qed (subst recv_wait.simps, simp)

definition status_ops :: "u8 \<Rightarrow> u8 \<Rightarrow> u8 \<Rightarrow> enc_op list" where
  "status_ops b a c = [Reg_Read ESTAT b, Reg_Read EIR a, Reg_Read ECON1 c]"

lemma status_runs:
  assumes "spi_works hw" "synced s"
  shows "\<exists>b a c s'. read_econ1 hw (read_eir hw (read_estat hw s)) = s' \<and> runs s (status_ops b a c) s' \<and>
    estat s' = b \<and> eir s' = a \<and> econ1 s' = c"
proof -
  obtain b s1 where 1: "read_estat hw s = s1" "runs s [Reg_Read ESTAT b] s1" "estat s1 = b" using reads_status(2) [OF assms] by blast
  obtain a s2 where 2: "read_eir hw s1 = s2" "runs s1 [Reg_Read EIR a] s2" "eir s2 = a" "estat s2 = b"
    using reads_status(1) [OF assms(1) runs_synced [OF 1(2)]] 1(3) by blast
  obtain c s3 where 3: "read_econ1 hw s2 = s3" "runs s2 [Reg_Read ECON1 c] s3" "econ1 s3 = c" "eir s3 = a" "estat s3 = b"
    using reads_status(3) [OF assms(1) runs_synced [OF 2(2)]] 2(3,4) by blast
  have "runs s (status_ops b a c) s3" using runs_trans [OF runs_trans [OF 1(2) 2(2)] 3(2)] by (simp add: status_ops_def)
  then show ?thesis using 1(1) 2(1) 3(1,3,4,5) by blast
qed

lemma no_gave [simp]: "Gave \<notin> set (reads r vs)" "Gave \<notin> set (reg_writes ws)" "Gave \<notin> set (config_ops mac ps qs)"
  by (auto simp: reads_def reg_writes_def config_ops_def)

text \<open>Starting again: the chip is configured (or not), the semaphore is not touched.\<close>

lemma restart_runs:
  assumes "spi_works hw" "synced s"
  shows "\<exists>s' os. do {
      (r, s) \<leftarrow> ENC28J60_Init hw g_enc28j60_mac s;
      Some (read_econ1 hw (read_eir hw (read_estat hw s)))
    } = Some s' \<and> synced s' \<and> eops (chip s') = eops (chip s) @ os \<and> Gave \<notin> set os \<and> Hard_Reset \<in> set os"
proof -
  have mac: "length g_enc28j60_mac = 6" by (simp add: g_enc28j60_mac_def)
  have "\<not> ecs_low (chip s)" using assms(2) by (simp add: synced_def)
  then obtain r s1 vs where 1: "ENC28J60_Init hw g_enc28j60_mac s = Some (r, s1)" "synced s1"
    "eops (chip s1) = eops (chip s) @ [Hard_Reset, Soft_Reset] @ reads ESTAT vs \<or>
     (\<exists>ps qs v. eops (chip s1) = eops (chip s) @ [Hard_Reset, Soft_Reset] @ reads ESTAT vs @ config_ops g_enc28j60_mac ps qs @ [Reg_Read 0x64 v])"
    using Init_runs [OF assms(1), of s g_enc28j60_mac] mac by blast
  obtain os where 2: "eops (chip s1) = eops (chip s) @ os" "Gave \<notin> set os" "Hard_Reset \<in> set os"
    using 1(3) by fastforce
  obtain b a c s2 where 3: "read_econ1 hw (read_eir hw (read_estat hw s1)) = s2" "runs s1 (status_ops b a c) s2"
    using status_runs [OF assms(1) 1(2)] by blast
  show ?thesis using 1(1) 2 3
    by (intro exI [of _ s2] exI [of _ "os @ status_ops b a c"]) (auto simp: runs_def status_ops_def)
qed

definition word_of_bytes :: "u8 \<Rightarrow> u8 \<Rightarrow> u32" where
  "word_of_bytes lo hi = ucast lo OR push_bit 8 (ucast hi)"

lemma read_word_goes:
  assumes "spi_works hw" "synced s"
  shows "\<exists>lo hi s'. read_word hw s = (word_of_bytes lo hi, s') \<and> goes s [Mem_Read [lo], Mem_Read [hi]] s'"
proof -
  obtain lo s1 where 1: "ENC28J60_Read_Op hw READ_BUF_MEM 0 s = (lo, s1)" "goes s [Mem_Read [lo]] s1"
    using Mem_Read_goes [OF assms] by blast
  obtain hi s2 where 2: "ENC28J60_Read_Op hw READ_BUF_MEM 0 s1 = (hi, s2)" "goes s1 [Mem_Read [hi]] s2"
    using Mem_Read_goes [OF assms(1) goes_synced [OF 1(2)]] by blast
  show ?thesis using 1(1) 2(1) goes_trans [OF 1(2) 2(2)]
    by (intro exI [of _ lo] exI [of _ hi] exI [of _ s2]) (simp add: read_word_def word_of_bytes_def)
qed

text \<open>A pointer is written as two registers.\<close>

definition pointer_ops :: "u8 \<Rightarrow> u32 \<Rightarrow> enc_op list" where
  "pointer_ops r p = [Reg_Write r (ucast p), Reg_Write (r + 1) (ucast (drop_bit 8 p))]"

lemma pointer_goes:
  assumes "spi_works hw" "synced s" "r \<in> {ERDPTL, ERXRDPTL}"
  shows "goes s (pointer_ops r p) (write_all hw [(r, ucast p), (r + 1, ucast (drop_bit 8 p))] s)"
proof -
  have "\<forall>(x, v) \<in> set [(r, ucast p :: u8), (r + 1, ucast (drop_bit 8 p))]. good_reg x"
    using assms(3) by (auto simp: good_reg_def reg_ok_def is_mac_def)
  moreover have "reg_writes [(r, ucast p), (r + 1, ucast (drop_bit 8 p))] = pointer_ops r p"
    using assms(3) by (auto simp: pointer_ops_def)
  ultimately show ?thesis using write_all_goes [OF assms(1) _ assms(2)] by metis
qed

definition recv_busy :: "u8 \<Rightarrow> u8 \<Rightarrow> bool" where
  "recv_busy b c \<longleftrightarrow> (c AND ECON1_TXRTS OR c AND ECON1_DMAST) OR (b AND ESTAT_RXBUSY) \<noteq> 0"

text \<open>The length of the data, by the length field of the packet.\<close>

definition data_len :: "u32 \<Rightarrow> u32 \<Rightarrow> u32" where
  "data_len maxlen l = (if l - 4 > maxlen - 1 then maxlen - 1 else l - 4)"

definition good_next :: "u32 \<Rightarrow> bool" where
  "good_next p \<longleftrightarrow> RXSTART_INIT \<le> p \<and> p \<le> RXSTOP_INIT"

lemma fetch_packet_outcomes:
  assumes "spi_works hw" "synced s" "0 < maxlen" "unat maxlen \<le> length packet"
  shows "\<exists>p0 p1 len packet' s' os. fetch_packet hw len0 maxlen packet s = Some (len, packet', s') \<and> synced s' \<and> length packet' = length packet \<and>
    eops (chip s') = eops (chip s) @ pointer_ops ERDPTL (NextPacketPtr s) @ [Mem_Read [p0], Mem_Read [p1]] @ os @ [Gave] \<and> Gave \<notin> set os \<and>
    (\<not> good_next (word_of_bytes p0 p1) \<and> len = len0 \<and> packet' = packet \<and> Hard_Reset \<in> set os \<or>
     good_next (word_of_bytes p0 p1) \<and> NextPacketPtr s' = word_of_bytes p0 p1 \<and>
       (\<exists>l0 l1 x0 x1 body. os = [Mem_Read [l0], Mem_Read [l1], Mem_Read [x0], Mem_Read [x1]] @ body @
          pointer_ops ERXRDPTL (word_of_bytes p0 p1) @ [Bit_Set ECON2 ECON2_PKTDEC] \<and>
          (if word_of_bytes x0 x1 AND 0x80 = 0 then len = 0 \<and> packet' = packet \<and> body = []
           else len = data_len maxlen (word_of_bytes l0 l1) \<and>
             (\<exists>bs. body = [Mem_Read bs] \<and> packet' = bs @ 0 # drop (unat len + 1) packet \<and> length bs = unat len))))"
proof -
  define s1 where "s1 = write_all hw [(ERDPTL, ucast (NextPacketPtr s)), (ERDPTH, ucast (drop_bit 8 (NextPacketPtr s)))] s"
  have 1: "goes s (pointer_ops ERDPTL (NextPacketPtr s)) s1"
    using pointer_goes [OF assms(1,2), of ERDPTL] by (simp add: s1_def del: write_all.simps)
  define s2 where "s2 = s1\<lparr>LastPacketPtr := NextPacketPtr s1\<rparr>"
  have y2: "synced s2" using goes_synced [OF 1] by (simp add: s2_def)
  obtain p0 p1 s3 where 3: "read_word hw s2 = (word_of_bytes p0 p1, s3)" "goes s2 [Mem_Read [p0], Mem_Read [p1]] s3"
    using read_word_goes [OF assms(1) y2] by blast
  define s4 where "s4 = s3\<lparr>NextPacketPtr := word_of_bytes p0 p1\<rparr>"
  have y4: "synced s4" using goes_synced [OF 3(2)] by (simp add: s4_def)
  have e4: "eops (chip s4) = eops (chip s) @ pointer_ops ERDPTL (NextPacketPtr s) @ [Mem_Read [p0], Mem_Read [p1]]"
    using 1 3(2) by (simp add: goes_def s2_def s4_def)
  have n4: "NextPacketPtr s4 = word_of_bytes p0 p1" by (simp add: s4_def)
  have bad: "(NextPacketPtr s4 < RXSTART_INIT \<or> NextPacketPtr s4 > RXSTOP_INIT) = (\<not> good_next (word_of_bytes p0 p1))"
    by (auto simp: good_next_def n4 not_le)
  show ?thesis
  proof (cases "good_next (word_of_bytes p0 p1)")
    case False
    obtain b a c s5 where 5: "read_econ1 hw (read_eir hw (read_estat hw s4)) = s5" "runs s4 (status_ops b a c) s5"
      using status_runs [OF assms(1) y4] by blast
    obtain r6 s6 s7 os where 6: "ENC28J60_Init hw g_enc28j60_mac s5 = Some (r6, s6)" "read_econ1 hw (read_eir hw (read_estat hw s6)) = s7"
      "synced s7" "eops (chip s7) = eops (chip s5) @ os" "Gave \<notin> set os" "Hard_Reset \<in> set os"
      using restart_runs [OF assms(1) runs_synced [OF 5(2)]] by (auto split: option.splits bind_splits)
    have f: "fetch_packet hw len0 maxlen packet s = Some (len0, packet, lock_post s7)"
      using False 3(1) 5(1) 6(1,2) bad unfolding fetch_packet_def s1_def [symmetric] Let_def s2_def [symmetric] by (simp add: s4_def)
    show ?thesis using f lock_runs(2) [OF 6(3)] 5(2) 6(4-6) e4 False
      by (intro exI [of _ p0] exI [of _ p1] exI [of _ len0] exI [of _ packet] exI [of _ "lock_post s7"] exI [of _ "status_ops b a c @ os"])
        (auto simp: runs_def status_ops_def)
  next
    case True
    obtain l0 l1 s5 where 5: "read_word hw s4 = (word_of_bytes l0 l1, s5)" "goes s4 [Mem_Read [l0], Mem_Read [l1]] s5"
      using read_word_goes [OF assms(1) y4] by blast
    obtain x0 x1 s6 where 6: "read_word hw s5 = (word_of_bytes x0 x1, s6)" "goes s5 [Mem_Read [x0], Mem_Read [x1]] s6"
      using read_word_goes [OF assms(1) goes_synced [OF 5(2)]] by blast
    define stat where "stat = word_of_bytes x0 x1 AND 0x80"
    define L where "L = data_len maxlen (word_of_bytes l0 l1)"
    have "L \<le> maxlen - 1" unfolding L_def data_len_def by auto
    then have lt: "unat L < length packet"
      using assms(3,4) by (simp add: word_le_nat_alt word_less_nat_alt unat_sub_if_size)
    obtain len packet' s7 body where 7: "(if stat = 0 then Some (0, packet, s6)
         else do {
           (packet, s) \<leftarrow> ENC28J60_Read_Buf hw L packet s6;
           Some (L, packet, s)
         }) = Some (len, packet', s7)" "goes s6 body s7" "length packet' = length packet" "Gave \<notin> set body"
      "if stat = 0 then len = 0 \<and> packet' = packet \<and> body = []
       else len = L \<and> (\<exists>bs. body = [Mem_Read bs] \<and> packet' = bs @ 0 # drop (unat len + 1) packet \<and> length bs = unat len)"
    proof (cases "stat = 0")
      case True
      then show ?thesis using that [of 0 packet s6 "[]"] goes_refl [OF goes_synced [OF 6(2)]] by simp
    next
      case False
      obtain bs s7 where "ENC28J60_Read_Buf hw L packet s6 = Some (bs @ 0 # drop (unat L + 1) packet, s7)" "length bs = unat L"
        "goes s6 [Mem_Read bs] s7" using Read_Buf_goes [OF assms(1) goes_synced [OF 6(2)] lt] by blast
      then show ?thesis using that [of L "bs @ 0 # drop (unat L + 1) packet" s7 "[Mem_Read bs]"] False lt by simp
    qed
    have n7: "NextPacketPtr s7 = word_of_bytes p0 p1" using goes_vars(5) [OF 5(2)] goes_vars(5) [OF 6(2)] goes_vars(5) [OF 7(2)] n4 by simp
    define s8 where "s8 = write_all hw [(ERXRDPTL, ucast (NextPacketPtr s7)), (ERXRDPTH, ucast (drop_bit 8 (NextPacketPtr s7)))] s7"
    have 8: "goes s7 (pointer_ops ERXRDPTL (word_of_bytes p0 p1)) s8"
      using pointer_goes [OF assms(1) goes_synced [OF 7(2)], of ERXRDPTL] n7 by (simp add: s8_def del: write_all.simps)
    define s9 where "s9 = ENC28J60_Write_Op hw BIT_FIELD_SET ECON2 ECON2_PKTDEC s8"
    have 9: "goes s8 [Bit_Set ECON2 ECON2_PKTDEC] s9"
      using Bit_goes(1) [OF assms(1) goes_synced [OF 8], of ECON2 ECON2_PKTDEC] by (simp add: s9_def)
    have f: "fetch_packet hw len0 maxlen packet s = Some (len, packet', lock_post s9)"
    proof -
      have nb: "\<not> (NextPacketPtr s4 < RXSTART_INIT \<or> NextPacketPtr s4 > RXSTOP_INIT)" using True bad by blast
      have cap: "(if word_of_bytes l0 l1 - 4 > maxlen - 1 then maxlen - 1 else word_of_bytes l0 l1 - 4) = L"
        by (simp add: L_def data_len_def)
      show ?thesis
        unfolding fetch_packet_def Let_def s1_def [symmetric] s2_def [symmetric] 3(1) prod.case s4_def [symmetric] if_not_P [OF nb]
          5(1) 6(1) cap stat_def [symmetric] 7(1)
        by (simp only: bind.bind_lunit prod.case s8_def s9_def)
    qed
    have n9: "NextPacketPtr (lock_post s9) = word_of_bytes p0 p1"
      using goes_vars(5) [OF 8] goes_vars(5) [OF 9] n7 by (simp add: lock_post_def happens_def)
    have e9: "eops (chip (lock_post s9)) = eops (chip s) @ pointer_ops ERDPTL (NextPacketPtr s) @ [Mem_Read [p0], Mem_Read [p1]] @
      ([Mem_Read [l0], Mem_Read [l1], Mem_Read [x0], Mem_Read [x1]] @ body @ pointer_ops ERXRDPTL (word_of_bytes p0 p1) @
       [Bit_Set ECON2 ECON2_PKTDEC]) @ [Gave]" "synced (lock_post s9)"
      using e4 5(2) 6(2) 7(2) 8 9 lock_runs(2) [OF goes_synced [OF 9]] by (simp_all add: goes_def runs_def)
    show ?thesis
      using f e9 n9 True 7(3-5) unfolding stat_def L_def
      by (intro exI [of _ p0] exI [of _ p1] exI [of _ len] exI [of _ packet'] exI [of _ "lock_post s9"]
          exI [of _ "[Mem_Read [l0], Mem_Read [l1], Mem_Read [x0], Mem_Read [x1]] @ body @ pointer_ops ERXRDPTL (word_of_bytes p0 p1) @
       [Bit_Set ECON2 ECON2_PKTDEC]"]) (auto simp: pointer_ops_def)
  qed
qed

end
