(* ===== verification/Ethernetif.thy ===== *)
theory Ethernetif
  imports Enc_Packets
begin

text \<open>
  The functions of \<open>src/LWIP/lwip-1.4.1/src/netif/ethernetif.c\<close> that move packets between the chains of
  buffers of lwIP and the driver. A chain is the list of the payloads of its buffers; \<open>pbuf_alloc\<close> is an
  argument that gives the lengths of the buffers of a new chain.
\<close>

section \<open>Output and input\<close>

definition s_lwip_buf0 :: "u8 list" where
  "s_lwip_buf0 = replicate 2048 0"

text \<open>The loop of \<open>low_level_output\<close> over the chain.\<close>

fun gather :: "u8 list list \<Rightarrow> nat \<Rightarrow> u8 list \<Rightarrow> (nat \<times> u8 list) option" where
  "gather [] send_len s_lwip_buf = Some (send_len, s_lwip_buf)"
| "gather (q # qs) send_len s_lwip_buf = do {
     s_lwip_buf \<leftarrow> blit s_lwip_buf send_len q 0 (length q);
     gather qs (send_len + length q) s_lwip_buf
   }"

definition low_level_output :: "enc_hw \<Rightarrow> u8 list list \<Rightarrow> u8 list \<times> enc \<Rightarrow> (u8 list \<times> enc) option" where
  "low_level_output hw p = (\<lambda>(s_lwip_buf, s). do {
     (send_len, s_lwip_buf) \<leftarrow> gather p 0 s_lwip_buf;
     s \<leftarrow> ENC28J60_Packet_Send hw (of_nat send_len) s_lwip_buf s;
     Some (s_lwip_buf, s)
   })"

text \<open>The loop of \<open>low_level_input\<close> over the new chain.\<close>

fun scatter :: "nat list \<Rightarrow> nat \<Rightarrow> u8 list \<Rightarrow> u8 list list option" where
  "scatter [] rev_len s_lwip_buf = Some []"
| "scatter (n # ns) rev_len s_lwip_buf = do {
     q \<leftarrow> (if rev_len + n \<le> length s_lwip_buf then Some (take n (drop rev_len s_lwip_buf)) else None);
     qs \<leftarrow> scatter ns (rev_len + n) s_lwip_buf;
     Some (q # qs)
   }"

definition low_level_input ::
  "enc_hw \<Rightarrow> u32 \<Rightarrow> (u16 \<Rightarrow> nat list option) \<Rightarrow> u8 list \<times> enc \<Rightarrow> (u8 list list option \<times> u8 list \<times> enc) option" where
  "low_level_input hw len0 pbuf_alloc = (\<lambda>(s_lwip_buf, s). do {
     (r, s_lwip_buf, s) \<leftarrow> ENC28J60_Packet_Receive hw len0 MAX_FRAMELEN s_lwip_buf s;
     let len = (ucast r :: u16);
     if len = 0 then Some (None, s_lwip_buf, s)
     else (case pbuf_alloc len of
         None \<Rightarrow> Some (None, s_lwip_buf, s)
       | Some ns \<Rightarrow> do {
           p \<leftarrow> scatter ns 0 s_lwip_buf;
           Some (Some p, s_lwip_buf, s)
         })
   })"

lemma gather_concat:
  assumes "n + length (concat p) \<le> length buf"
  shows "\<exists>buf'. gather p n buf = Some (n + length (concat p), buf') \<and> length buf' = length buf \<and>
    take (n + length (concat p)) buf' = take n buf @ concat p"
  using assms
proof (induction p arbitrary: n buf)
  case (Cons q qs)
  define buf1 where "buf1 = take n buf @ q @ drop (n + length q) buf"
  have b: "blit buf n q 0 (length q) = Some buf1" "length buf1 = length buf" using Cons.prems by (simp_all add: blit_def buf1_def)
  obtain buf' where "gather qs (n + length q) buf1 = Some (n + length q + length (concat qs), buf')" "length buf' = length buf1"
    "take (n + length q + length (concat qs)) buf' = take (n + length q) buf1 @ concat qs"
    using Cons.IH [of "n + length q" buf1] Cons.prems b(2) by (auto simp: ac_simps)
  moreover have "take (n + length q) buf1 = take n buf @ q" using Cons.prems by (simp add: buf1_def)
  ultimately show ?case using b by (simp add: ac_simps)
qed simp

lemma scatter_concat:
  assumes "r + sum_list ns \<le> length buf"
  shows "\<exists>qs. scatter ns r buf = Some qs \<and> concat qs = take (sum_list ns) (drop r buf) \<and> map length qs = ns"
  using assms
proof (induction ns arbitrary: r)
  case (Cons n ns)
  have "(r + n) + sum_list ns \<le> length buf" using Cons.prems by simp
  then obtain qs where "scatter ns (r + n) buf = Some qs" "concat qs = take (sum_list ns) (drop (r + n) buf)" "map length qs = ns"
    using Cons.IH by blast
  then show ?case using Cons.prems by (auto simp: take_add add.commute)
qed simp

end
