(* ===== verification/Enc_Thms.thy ===== *)
theory Enc_Thms
  imports Ethernetif
begin

text \<open>
  The properties of the Ethernet driver and of the functions of lwIP's interface that call it.
\<close>

section \<open>Hardware for the witnesses\<close>

text \<open>Hardware that answers every transfer with the same byte.\<close>

definition echo_hw :: "u8 \<Rightarrow> enc_hw" where
  "echo_hw v = \<lparr>flag_TXE = (\<lambda>_. True), flag_RXNE = (\<lambda>_. True), spi_data = (\<lambda>_. v), pend_err = (\<lambda>_. 0)\<rparr>"

definition enc0 :: enc where
  "enc0 = \<lparr>ENC28J60BANK = 0, NextPacketPtr = 0x600, LastPacketPtr = 0, eir = 0, estat = 0, econ1 = 0, ptk_cnt = 0, hist = []\<rparr>"

lemma echo_works: "spi_works (echo_hw v)"
  by (auto simp: spi_works_def echo_hw_def)

lemma enc0_synced: "synced enc0" "\<not> ecs_low (chip enc0)"
  by (simp_all add: synced_def enc0_def)

section \<open>Properties\<close>

text \<open>C38. Initialisation. \<open>ENC28J60_Init\<close> always returns, whatever bank the driver remembers from before the
  reset. It reports 0 only when the clock came and the address reads back; then the buffers, the frame
  length and the station address are set, reception is on, interrupts are off and the packet pointer is at
  the start of the receive buffer. From then on driver and chip agree on the bank.\<close>

theorem ENC28J60_Init_configures:
  assumes "spi_works hw" "\<not> ecs_low (chip s)" "length mac = 6"
  shows "\<exists>r s' os. ENC28J60_Init hw mac s = Some (r, s') \<and> synced s' \<and> r \<in> {0, 1} \<and>
    eops (chip s') = eops (chip s) @ Hard_Reset # Soft_Reset # os \<and>
    (r = 0 \<longrightarrow> NextPacketPtr s' = RXSTART_INIT \<and> last os = Reg_Read 0x64 (mac ! 0) \<and>
      (\<exists>v. Reg_Read ESTAT v \<in> set os \<and> v AND ESTAT_CLKRDY \<noteq> 0) \<and>
      (\<forall>m regs ram. after os m = (regs, ram) \<longrightarrow>
         reg_word regs ERXSTL = 0x600 \<and> reg_word regs ERXNDL = 0x1ff0 \<and> reg_word regs ERXRDPTL = 0x600 \<and>
         reg_word regs ETXSTL = 0 \<and> reg_word regs 0x4A = 1518 \<and>
         map regs [0x64, 0x65, 0x62, 0x63, 0x60, 0x61] = map ((!) mac) [0, 1, 2, 3, 4, 5] \<and>
         regs ECON1 AND ECON1_RXEN = ECON1_RXEN \<and> regs EIE AND 0xC1 = 0))"
proof -
  obtain r s' vs where r: "ENC28J60_Init hw mac s = Some (r, s')" "synced s' \<and> vs \<noteq> []"
    "r = 1 \<and> eops (chip s') = eops (chip s) @ [Hard_Reset, Soft_Reset] @ reads ESTAT vs \<or>
     (\<exists>ps qs v. eops (chip s') = eops (chip s) @ [Hard_Reset, Soft_Reset] @ reads ESTAT vs @ config_ops mac ps qs @ [Reg_Read 0x64 v] \<and>
        last vs AND ESTAT_CLKRDY \<noteq> 0 \<and> r = (if v = mac ! 0 then 0 else 1) \<and> NextPacketPtr s' = RXSTART_INIT)"
    using Init_runs [OF assms] by blast
  from r(3) show ?thesis
  proof
    assume "r = 1 \<and> eops (chip s') = eops (chip s) @ [Hard_Reset, Soft_Reset] @ reads ESTAT vs"
    then show ?thesis using r(1,2) by simp
  next
    assume "\<exists>ps qs v. eops (chip s') = eops (chip s) @ [Hard_Reset, Soft_Reset] @ reads ESTAT vs @ config_ops mac ps qs @ [Reg_Read 0x64 v] \<and>
        last vs AND ESTAT_CLKRDY \<noteq> 0 \<and> r = (if v = mac ! 0 then 0 else 1) \<and> NextPacketPtr s' = RXSTART_INIT"
    then obtain ps qs v where c: "eops (chip s') = eops (chip s) @ [Hard_Reset, Soft_Reset] @ reads ESTAT vs @ config_ops mac ps qs @ [Reg_Read 0x64 v]"
      "r = (if v = mac ! 0 then 0 else 1)" "NextPacketPtr s' = RXSTART_INIT" "last vs AND ESTAT_CLKRDY \<noteq> 0" by blast
    have l: "Reg_Read ESTAT (last vs) \<in> set (reads ESTAT vs)" using r(2) by (simp add: reads_def)
    have e: "after (reads ESTAT vs @ config_ops mac ps qs @ [Reg_Read 0x64 v]) m = after (config_ops mac ps qs) m" for m
      by (cases "after (config_ops mac ps qs) m") simp
    show ?thesis
      using r(1,2) c l config_effect [of mac ps qs] unfolding e [symmetric]
      by (intro exI [of _ r] exI [of _ s'] exI [of _ "reads ESTAT vs @ config_ops mac ps qs @ [Reg_Read 0x64 v]"])
        (auto simp del: after_simps)
  qed
qed

theorem ENC28J60_Init_configures_witness:
  "\<exists>r s'. ENC28J60_Init (echo_hw 3) g_enc28j60_mac enc0 = Some (r, s') \<and> synced s' \<and> r \<in> {0, 1}"
  using ENC28J60_Init_configures [OF echo_works enc0_synced(2), of g_enc28j60_mac 3] by (auto simp: g_enc28j60_mac_def)

text \<open>At the moment transmission is requested the frame stands in the chip: a control byte of 0, then the data,
  with the end pointer on the last byte, and the receive buffer is as it was.\<close>

definition transmits :: "u8 list \<Rightarrow> enc_op list \<Rightarrow> bool" where
  "transmits data os \<longleftrightarrow> (\<exists>os1 os2. os = os1 @ Bit_Set ECON1 ECON1_TXRTS # os2 \<and>
     (\<forall>regs ram regs' ram'. after os1 (regs, ram) = (regs', ram') \<longrightarrow>
        reg_word regs' ETXNDL = length data \<and> ram' 0 = 0 \<and> map ram' [1..<1 + length data] = data \<and>
        (\<forall>a \<ge> 0x600. ram' a = ram a)))"

lemma reg_word_of_u32:
  fixes len :: u32
  assumes "unat len < 65536"
  shows "unat (ucast (len AND 0xFF) :: u8) + 256 * unat (ucast (drop_bit 8 len) :: u8) = unat len"
proof -
  have "len AND 0xFF = take_bit 8 len" by (simp add: take_bit_eq_mask mask_eq_exp_minus_1)
  then have "unat (ucast (len AND 0xFF) :: u8) = unat len mod 256"
    by (simp add: unsigned_ucast_eq unsigned_take_bit_eq take_bit_eq_mod unat_mod)
  moreover have "unat (ucast (drop_bit 8 len) :: u8) = unat len div 256"
    using assms by (simp add: unsigned_ucast_eq unsigned_drop_bit_eq take_bit_eq_mod drop_bit_eq_div unat_div)
  ultimately show ?thesis by simp
qed

lemma send_ops_transmit:
  assumes "unat len < 0x600" "unat len \<le> length packet"
  shows "transmits (take (unat len) packet) (send_ops len packet @ os)"
proof -
  define data where "data = take (unat len) packet"
  define os1 where "os1 = [Bit_Set ECON1 ECON1_TXRST, Bit_Clear ECON1 ECON1_TXRST, Reg_Write EWRPTL 0, Reg_Write EWRPTH 0,
     Reg_Write ETXNDL (ucast (len AND 0xFF)), Reg_Write ETXNDH (ucast (drop_bit 8 len)), Bit_Clear EIR EIR_TXIF,
     Mem_Write [0], Mem_Write data]"
  have l: "length data = unat len" using assms(2) by (simp add: data_def)
  have "reg_word regs' ETXNDL = length data \<and> ram' 0 = 0 \<and> map ram' [1..<1 + length data] = data \<and> (\<forall>a \<ge> 0x600. ram' a = ram a)"
    if a: "after os1 (regs, ram) = (regs', ram')" for regs ram regs' ram'
  proof -
    have n: "reg_word regs' ETXNDL = length data"
      using a reg_word_of_u32 [of len] assms(1) l by (auto simp: os1_def reg_word_def Let_def)
    have r: "ram' = (\<lambda>a. if 1 \<le> a \<and> a < 1 + length data then data ! (a - 1) else (ram(0 := 0)) a)"
      using a fold_ram [of 1 "length data" "(!) data" "ram(0 := 0)"] assms(1) l
      by (auto simp: os1_def reg_word_def Let_def)
    have "map ram' [1..<1 + length data] = data" by (rule nth_equalityI) (simp_all add: r del: upt_Suc)
    then show ?thesis using n r assms(1) l by auto
  qed
  moreover have "send_ops len packet @ os = os1 @ Bit_Set ECON1 ECON1_TXRTS # os" by (simp add: send_ops_def os1_def data_def)
  ultimately show ?thesis unfolding transmits_def data_def [symmetric] by blast
qed

text \<open>C10. Output. \<open>low_level_output\<close> returns for every chain of up to 1535 bytes. With the semaphore it waits
  for the transmitter, at most 201 rounds; once the transmitter is ready the chip is asked to send exactly the
  concatenation of the payloads, with the receive buffer untouched, and else nothing is sent. The
  semaphore is given back once on every path.\<close>

theorem low_level_output_transmits:
  assumes "spi_works hw" "synced s" "length buf = 2048" "length (concat p) < 0x600"
  shows "\<exists>buf' s'. low_level_output hw p (buf, s) = Some (buf', s') \<and> length buf' = 2048 \<and> synced s' \<and>
    NextPacketPtr s' = NextPacketPtr s \<and>
    (if pend_err hw (hist s) \<noteq> 0 then eops (chip s') = eops (chip s) @ [Took (pend_err hw (hist s))]
     else \<exists>ts os. ts \<noteq> [] \<and> (\<forall>t \<in> set (butlast ts). round_busy t) \<and> length ts \<le> 201 \<and>
       eops (chip s') = eops (chip s) @ Took 0 # concat (map round_ops ts) @ os @ [Gave] \<and>
       (os = [] \<and> length ts = 201 \<or> \<not> round_busy (last ts) \<and> transmits (concat p) os \<and> Gave \<notin> set os))"
proof -
  define n where "n = length (concat p)"
  obtain buf' where b: "gather p 0 buf = Some (n, buf')" "length buf' = 2048" "take n buf' = concat p"
    using gather_concat [of 0 p buf] assms(3,4) by (auto simp: n_def)
  have u: "unat (of_nat n :: u32) = n" using assms(4) by (simp add: unat_of_nat n_def take_bit_nat_eq_self)
  obtain s1 where 1: "lock_pend hw s = (pend_err hw (hist s), s1)" "runs s [Took (pend_err hw (hist s))] s1"
    using lock_runs(1) [OF assms(2)] by blast
  show ?thesis
  proof (cases "pend_err hw (hist s) = 0")
    case False
    then show ?thesis using b 1 by (auto simp: low_level_output_def ENC28J60_Packet_Send_def runs_def)
  next
    case True
    obtain ts ok s2 where 2: "send_wait hw 0 s1 = (ok, s2)" "runs s1 (concat (map round_ops ts)) s2" "ts \<noteq> []"
      "\<forall>t \<in> set (butlast ts). round_busy t" "length ts \<le> 201" "ok \<longrightarrow> \<not> round_busy (last ts)" "\<not> ok \<longrightarrow> length ts = 201"
      using send_wait_runs [OF assms(1) runs_synced [OF 1(2)], of 0] by auto
    show ?thesis
    proof (cases ok)
      case False
      then show ?thesis using b 1 2 True lock_runs(2) [OF runs_synced [OF 2(2)]]
        by (intro exI [of _ buf'] exI [of _ "lock_post s2"])
          (auto simp: low_level_output_def ENC28J60_Packet_Send_def runs_def intro!: exI [of _ ts])
    next
      case ok: True
      obtain s3 v s4 where 3: "goes s2 (send_ops (of_nat n) buf' @ [Reg_Read EIR v]) s3"
        "goes s3 (if v AND EIR_TXERIF \<noteq> 0 then [Bit_Clear ECON1 ECON1_TXRTS] else []) s4"
        "transmit_packet hw (of_nat n) buf' s2 = Some (lock_post s4)"
        using transmit_runs [OF assms(1) runs_synced [OF 2(2)], of "of_nat n" buf'] b(2) assms(4) u n_def by auto
      define os where "os = send_ops (of_nat n) buf' @ [Reg_Read EIR v] @ (if v AND EIR_TXERIF \<noteq> 0 then [Bit_Clear ECON1 ECON1_TXRTS] else [])"
      have r: "runs s (Took 0 # concat (map round_ops ts) @ os @ [Gave]) (lock_post s4)"
        using runs_trans [OF runs_trans [OF runs_trans [OF runs_trans [OF 1(2) 2(2)] goes_runs [OF 3(1)]] goes_runs [OF 3(2)]]
            lock_runs(2) [OF goes_synced [OF 3(2)]]] True by (simp add: os_def)
      have t: "transmits (concat p) os"
        using send_ops_transmit [of "of_nat n" buf'] u b(2,3) assms(4) by (simp add: os_def n_def)
      have g: "Gave \<notin> set os" by (auto simp: os_def send_ops_def)
      have "low_level_output hw p (buf, s) = Some (buf', lock_post s4)"
        using b(1) 1(1) 2(1) 3(3) True ok by (simp add: low_level_output_def ENC28J60_Packet_Send_def)
      then show ?thesis using r t g 2(3-6) ok True b(2)
        by (intro exI [of _ buf'] exI [of _ "lock_post s4"]) (auto simp: runs_def intro!: exI [of _ ts] exI [of _ os])
    qed
  qed
qed

theorem low_level_output_transmits_witness:
  "\<exists>buf' s'. low_level_output (echo_hw 0) [[1, 2], [3]] (s_lwip_buf0, enc0) = Some (buf', s') \<and> synced s' \<and>
     (\<exists>ts os. eops (chip s') = Took 0 # concat (map round_ops ts) @ os @ [Gave])"
proof -
  have "pend_err (echo_hw 0) (hist enc0) = 0" "eops (chip enc0) = []" by (simp_all add: echo_hw_def enc0_def)
  then show ?thesis
    using low_level_output_transmits [OF echo_works enc0_synced(1), of s_lwip_buf0 "[[1, 2], [3]]" 0]
    by (fastforce simp: s_lwip_buf0_def)
qed

section \<open>Reception\<close>

text \<open>The requests that take one packet, of the chain at \<open>p\<close>: the pointer \<open>q\<close> to the next one, the length, the
  status, then the data if the status is good; at the end the packet is given up.\<close>

definition took_packet :: "u32 \<Rightarrow> u32 \<Rightarrow> u32 \<Rightarrow> bool \<Rightarrow> u8 list \<Rightarrow> enc_op list \<Rightarrow> bool" where
  "took_packet maxlen p q good data os \<longleftrightarrow> good_next q \<and>
     (\<exists>p0 p1 l0 l1 x0 x1. q = word_of_bytes p0 p1 \<and> good = (word_of_bytes x0 x1 AND 0x80 \<noteq> 0) \<and>
        os = pointer_ops ERDPTL p @ map (\<lambda>v. Mem_Read [v]) [p0, p1, l0, l1, x0, x1] @ (if good then [Mem_Read data] else []) @
          pointer_ops ERXRDPTL q @ [Bit_Set ECON2 ECON2_PKTDEC] \<and>
        (if good then length data = unat (data_len maxlen (word_of_bytes l0 l1)) else data = []))"

lemma took_packet_length:
  assumes "took_packet maxlen p q good data os"
  shows "good \<and> (\<exists>l. length data = unat (data_len maxlen l)) \<or> \<not> good \<and> data = []"
proof (cases good)
  case True
  then show ?thesis using assms unfolding took_packet_def by (simp only: if_True) blast
next
  case False
  then show ?thesis using assms unfolding took_packet_def by (simp only: if_False) blast
qed

lemma fetch_packet_takes:
  assumes "spi_works hw" "synced s" "0 < maxlen" "unat maxlen \<le> length packet"
  shows "\<exists>len packet' s' os. fetch_packet hw len0 maxlen packet s = Some (len, packet', s') \<and> synced s' \<and> length packet' = length packet \<and>
    eops (chip s') = eops (chip s) @ os @ [Gave] \<and> Gave \<notin> set os \<and>
    (len = len0 \<and> packet' = packet \<and> Hard_Reset \<in> set os \<or>
     (\<exists>good data. took_packet maxlen (NextPacketPtr s) (NextPacketPtr s') good data os \<and> len = of_nat (length data) \<and>
        packet' = (if good then data @ 0 # drop (length data + 1) packet else packet)))"
proof -
  obtain p0 p1 len packet' s' os where o: "fetch_packet hw len0 maxlen packet s = Some (len, packet', s')" "synced s'"
    "length packet' = length packet"
    "eops (chip s') = eops (chip s) @ pointer_ops ERDPTL (NextPacketPtr s) @ [Mem_Read [p0], Mem_Read [p1]] @ os @ [Gave]" "Gave \<notin> set os"
    and c: "\<not> good_next (word_of_bytes p0 p1) \<and> len = len0 \<and> packet' = packet \<and> Hard_Reset \<in> set os \<or>
     good_next (word_of_bytes p0 p1) \<and> NextPacketPtr s' = word_of_bytes p0 p1 \<and>
       (\<exists>l0 l1 x0 x1 body. os = [Mem_Read [l0], Mem_Read [l1], Mem_Read [x0], Mem_Read [x1]] @ body @
          pointer_ops ERXRDPTL (word_of_bytes p0 p1) @ [Bit_Set ECON2 ECON2_PKTDEC] \<and>
          (if word_of_bytes x0 x1 AND 0x80 = 0 then len = 0 \<and> packet' = packet \<and> body = []
           else len = data_len maxlen (word_of_bytes l0 l1) \<and>
             (\<exists>bs. body = [Mem_Read bs] \<and> packet' = bs @ 0 # drop (unat len + 1) packet \<and> length bs = unat len)))"
    using fetch_packet_outcomes [OF assms, of len0] by blast
  define ops where "ops = pointer_ops ERDPTL (NextPacketPtr s) @ [Mem_Read [p0], Mem_Read [p1]] @ os"
  have e: "eops (chip s') = eops (chip s) @ ops @ [Gave]" "Gave \<notin> set ops" using o(4,5) by (auto simp: ops_def pointer_ops_def)
  from c show ?thesis
  proof
    assume "\<not> good_next (word_of_bytes p0 p1) \<and> len = len0 \<and> packet' = packet \<and> Hard_Reset \<in> set os"
    then have "len = len0 \<and> packet' = packet \<and> Hard_Reset \<in> set ops" by (simp add: ops_def)
    then show ?thesis using o(1-3) e by blast
  next
    assume g: "good_next (word_of_bytes p0 p1) \<and> NextPacketPtr s' = word_of_bytes p0 p1 \<and>
       (\<exists>l0 l1 x0 x1 body. os = [Mem_Read [l0], Mem_Read [l1], Mem_Read [x0], Mem_Read [x1]] @ body @
          pointer_ops ERXRDPTL (word_of_bytes p0 p1) @ [Bit_Set ECON2 ECON2_PKTDEC] \<and>
          (if word_of_bytes x0 x1 AND 0x80 = 0 then len = 0 \<and> packet' = packet \<and> body = []
           else len = data_len maxlen (word_of_bytes l0 l1) \<and>
             (\<exists>bs. body = [Mem_Read bs] \<and> packet' = bs @ 0 # drop (unat len + 1) packet \<and> length bs = unat len)))"
    then obtain l0 l1 x0 x1 body where b: "os = [Mem_Read [l0], Mem_Read [l1], Mem_Read [x0], Mem_Read [x1]] @ body @
        pointer_ops ERXRDPTL (word_of_bytes p0 p1) @ [Bit_Set ECON2 ECON2_PKTDEC]"
      and f: "if word_of_bytes x0 x1 AND 0x80 = 0 then len = 0 \<and> packet' = packet \<and> body = []
        else len = data_len maxlen (word_of_bytes l0 l1) \<and>
          (\<exists>bs. body = [Mem_Read bs] \<and> packet' = bs @ 0 # drop (unat len + 1) packet \<and> length bs = unat len)" by blast
    obtain data where d: "body = (if word_of_bytes x0 x1 AND 0x80 \<noteq> 0 then [Mem_Read data] else [])" "len = of_nat (length data)"
      "packet' = (if word_of_bytes x0 x1 AND 0x80 \<noteq> 0 then data @ 0 # drop (length data + 1) packet else packet)"
      "if word_of_bytes x0 x1 AND 0x80 \<noteq> 0 then length data = unat (data_len maxlen (word_of_bytes l0 l1)) else data = []"
    proof (cases "word_of_bytes x0 x1 AND 0x80 = 0")
      case True
      then show ?thesis using that [of "[]"] f by simp
    next
      case False
      then obtain bs where bs: "len = data_len maxlen (word_of_bytes l0 l1)" "body = [Mem_Read bs]"
        "packet' = bs @ 0 # drop (unat len + 1) packet" "length bs = unat len" using f by auto
      then show ?thesis using that [of bs] False by simp
    qed
    have "took_packet maxlen (NextPacketPtr s) (NextPacketPtr s') (word_of_bytes x0 x1 AND 0x80 \<noteq> 0) data ops"
      unfolding took_packet_def using g d(1,4)
      by (intro conjI exI [of _ p0] exI [of _ p1] exI [of _ l0] exI [of _ l1] exI [of _ x0] exI [of _ x1]) (simp_all add: ops_def b)
    then show ?thesis using o(1-3) e d(2,3) by blast
  qed
qed

text \<open>The ways a reception can end: no packet, a chip that is busy, a bad packet pointer, a packet.\<close>

lemma Receive_outcomes:
  assumes "spi_works hw" "synced s" "0 < maxlen" "unat maxlen \<le> length packet" "pend_err hw (hist s) = 0"
  shows "\<exists>b a c n os len packet' s'. ENC28J60_Packet_Receive hw len0 maxlen packet s = Some (len, packet', s') \<and> synced s' \<and>
    length packet' = length packet \<and>
    eops (chip s') = eops (chip s) @ Took 0 # status_ops b a c @ [Reg_Read 0x39 n] @ os @ [Gave] \<and> Gave \<notin> set os \<and>
    (n = 0 \<and> len = 0 \<and> packet' = packet \<and> (os = [] \<or> Hard_Reset \<in> set os) \<or>
     n \<noteq> 0 \<and> recv_busy b c \<and> len = 0 \<and> packet' = packet \<and> os = [] \<or>
     n \<noteq> 0 \<and> \<not> recv_busy b c \<and> (len = len0 \<and> packet' = packet \<and> Hard_Reset \<in> set os \<or>
       (\<exists>good data. took_packet maxlen (NextPacketPtr s) (NextPacketPtr s') good data os \<and> len = of_nat (length data) \<and>
          packet' = (if good then data @ 0 # drop (length data + 1) packet else packet))))"
proof -
  obtain s1 where 1: "lock_pend hw s = (0, s1)" "runs s [Took 0] s1" using lock_runs(1) [OF assms(2)] assms(5) by metis
  obtain b a c s2 where 2: "read_econ1 hw (read_eir hw (read_estat hw s1)) = s2" "runs s1 (status_ops b a c) s2"
    "estat s2 = b" "econ1 s2 = c" using status_runs [OF assms(1) runs_synced [OF 1(2)]] by blast
  obtain n s3 where 3: "ENC28J60_Read hw EPKTCNT s2 = (n, s3)" "goes s2 [Reg_Read 0x39 n] s3"
    using Read_goes [OF assms(1), of EPKTCNT s2] runs_synced [OF 2(2)] by auto
  define s4 where "s4 = s3\<lparr>ptk_cnt := n\<rparr>"
  have y4: "synced s4" using goes_synced [OF 3(2)] by (simp add: s4_def)
  have v4: "estat s4 = b" "econ1 s4 = c" "NextPacketPtr s4 = NextPacketPtr s" "ptk_cnt s4 = n"
    using goes_vars [OF 3(2)] 2(2-4) 1(2) by (simp_all add: s4_def runs_def)
  have e4: "eops (chip s4) = eops (chip s) @ Took 0 # status_ops b a c @ [Reg_Read 0x39 n]"
    using 1(2) 2(2) 3(2) by (simp add: s4_def runs_def goes_def)
  note go = ENC28J60_Packet_Receive_def Let_def 1(1) prod.case 2(1) 3(1) s4_def [symmetric] v4(1,2,4) if_P [OF refl]
  consider (none) "n = 0" | (busy) "n \<noteq> 0" "recv_busy b c" | (packet) "n \<noteq> 0" "\<not> recv_busy b c" by blast
  then show ?thesis
  proof cases
    case none
    obtain s5 os where 5: "(if (c AND ECON1_RXEN = 0 \<and> b AND ESTAT_CLKRDY \<noteq> 0) \<or>
                 (uint (eir s4) * uint EIR_RXERIF \<noteq> 0 \<and> b AND ESTAT_BUFFER \<noteq> 0)
               then do {
                 (r, s) \<leftarrow> ENC28J60_Init hw g_enc28j60_mac s4;
                 Some (read_econ1 hw (read_eir hw (read_estat hw s)))
               } else Some s4) = Some s5" "synced s5" "eops (chip s5) = eops (chip s4) @ os" "Gave \<notin> set os" "os = [] \<or> Hard_Reset \<in> set os"
    proof (cases "(c AND ECON1_RXEN = 0 \<and> b AND ESTAT_CLKRDY \<noteq> 0) \<or> (uint (eir s4) * uint EIR_RXERIF \<noteq> 0 \<and> b AND ESTAT_BUFFER \<noteq> 0)")
      case True
      then show ?thesis using restart_runs [OF assms(1) y4] that unfolding if_P [OF True] by blast
    next
      case False
      then show ?thesis using that [of s4 "[]"] y4 unfolding if_not_P [OF False] by simp
    qed
    have r: "ENC28J60_Packet_Receive hw len0 maxlen packet s = Some (0, packet, lock_post s5)"
      unfolding go if_P [OF none] 5(1) by simp
    have y: "synced (lock_post s5)" using runs_synced [OF lock_runs(2) [OF 5(2)]] .
    have e: "eops (chip (lock_post s5)) = eops (chip s) @ Took 0 # status_ops b a c @ [Reg_Read 0x39 n] @ os @ [Gave]"
      using lock_runs(2) [OF 5(2)] 5(3) e4 by (simp add: runs_def)
    show ?thesis
    proof (intro exI)
      show "ENC28J60_Packet_Receive hw len0 maxlen packet s = Some (0, packet, lock_post s5) \<and> synced (lock_post s5) \<and>
        length packet = length packet \<and>
        eops (chip (lock_post s5)) = eops (chip s) @ Took 0 # status_ops b a c @ [Reg_Read 0x39 n] @ os @ [Gave] \<and> Gave \<notin> set (os) \<and>
        (n = 0 \<and> 0 = 0 \<and> packet = packet \<and> (os = [] \<or> Hard_Reset \<in> set (os)) \<or>
         n \<noteq> 0 \<and> recv_busy b c \<and> 0 = 0 \<and> packet = packet \<and> os = [] \<or>
         n \<noteq> 0 \<and> \<not> recv_busy b c \<and> (0 = len0 \<and> packet = packet \<and> Hard_Reset \<in> set (os) \<or>
           (\<exists>good data. took_packet maxlen (NextPacketPtr s) (NextPacketPtr (lock_post s5)) good data (os) \<and> 0 = of_nat (length data) \<and>
              packet = (if good then data @ 0 # drop (length data + 1) packet else packet))))"
        by (intro conjI disjI1 r y e 5(4,5) none refl)
    qed
  next
    case busy
    have r: "ENC28J60_Packet_Receive hw len0 maxlen packet s = Some (0, packet, lock_post s4)"
      unfolding go if_not_P [OF busy(1)] recv_wait_iff recv_busy_def [symmetric] using busy(2) by simp
    have y: "synced (lock_post s4)" using runs_synced [OF lock_runs(2) [OF y4]] .
    have e: "eops (chip (lock_post s4)) = eops (chip s) @ Took 0 # status_ops b a c @ [Reg_Read 0x39 n] @ [] @ [Gave]"
      using lock_runs(2) [OF y4] e4 by (simp add: runs_def)
    have g: "Gave \<notin> set []" by simp
    show ?thesis
    proof (intro exI)
      show "ENC28J60_Packet_Receive hw len0 maxlen packet s = Some (0, packet, lock_post s4) \<and> synced (lock_post s4) \<and>
        length packet = length packet \<and>
        eops (chip (lock_post s4)) = eops (chip s) @ Took 0 # status_ops b a c @ [Reg_Read 0x39 n] @ [] @ [Gave] \<and> Gave \<notin> set ([]) \<and>
        (n = 0 \<and> 0 = 0 \<and> packet = packet \<and> ([] = [] \<or> Hard_Reset \<in> set ([])) \<or>
         n \<noteq> 0 \<and> recv_busy b c \<and> 0 = 0 \<and> packet = packet \<and> [] = [] \<or>
         n \<noteq> 0 \<and> \<not> recv_busy b c \<and> (0 = len0 \<and> packet = packet \<and> Hard_Reset \<in> set ([]) \<or>
           (\<exists>good data. took_packet maxlen (NextPacketPtr s) (NextPacketPtr (lock_post s4)) good data ([]) \<and> 0 = of_nat (length data) \<and>
              packet = (if good then data @ 0 # drop (length data + 1) packet else packet))))"
        by (rule conjI [OF r] conjI [OF y] conjI [OF refl] conjI [OF e] conjI [OF g] disjI2 disjI1 conjI [OF busy(1)]
            conjI [OF busy(2)] refl)+
    qed
  next
    case packet
    have f: "ENC28J60_Packet_Receive hw len0 maxlen packet s = fetch_packet hw len0 maxlen packet s4"
      unfolding go if_not_P [OF packet(1)] recv_wait_iff recv_busy_def [symmetric] using packet(2) by simp
    obtain len packet' s' os where t: "fetch_packet hw len0 maxlen packet s4 = Some (len, packet', s')" "synced s'"
      "length packet' = length packet" "eops (chip s') = eops (chip s4) @ os @ [Gave]" "Gave \<notin> set os"
      "len = len0 \<and> packet' = packet \<and> Hard_Reset \<in> set os \<or>
       (\<exists>good data. took_packet maxlen (NextPacketPtr s) (NextPacketPtr s') good data os \<and> len = of_nat (length data) \<and>
        packet' = (if good then data @ 0 # drop (length data + 1) packet else packet))"
      using fetch_packet_takes [OF assms(1) y4 assms(3,4), of len0] unfolding v4(3) by blast
    have e: "eops (chip s') = eops (chip s) @ Took 0 # status_ops b a c @ [Reg_Read 0x39 n] @ os @ [Gave]"
      using t(4) e4 by simp
    have r: "ENC28J60_Packet_Receive hw len0 maxlen packet s = Some (len, packet', s')" using f t(1) by (rule trans)
    show ?thesis
    proof (intro exI)
      show "ENC28J60_Packet_Receive hw len0 maxlen packet s = Some (len, packet', s') \<and> synced s' \<and>
        length packet' = length packet \<and>
        eops (chip s') = eops (chip s) @ Took 0 # status_ops b a c @ [Reg_Read 0x39 n] @ os @ [Gave] \<and> Gave \<notin> set os \<and>
        (n = 0 \<and> len = 0 \<and> packet' = packet \<and> (os = [] \<or> Hard_Reset \<in> set os) \<or>
         n \<noteq> 0 \<and> recv_busy b c \<and> len = 0 \<and> packet' = packet \<and> os = [] \<or>
         n \<noteq> 0 \<and> \<not> recv_busy b c \<and> (len = len0 \<and> packet' = packet \<and> Hard_Reset \<in> set os \<or>
           (\<exists>good data. took_packet maxlen (NextPacketPtr s) (NextPacketPtr s') good data os \<and> len = of_nat (length data) \<and>
              packet' = (if good then data @ 0 # drop (length data + 1) packet else packet))))"
        by (intro conjI disjI2 r t(2,3) e t(5) packet t(6))
    qed
  qed
qed





end
