(* ===== verification/Sys_Arch.thy ===== *)
theory Sys_Arch
  imports Kernel_Mbox Kernel_Sem Kernel_Time LibMem
begin

text \<open>
  The port of lwIP to the kernel, \<open>src/LWIP/arch/sys_arch.c\<close>: mailboxes are kernel message queues whose
  descriptor and message table lie in one block of the heap, semaphores are kernel semaphores, times are
  converted between milliseconds and ticks of 5 ms. A call that may block is split as in the kernel: the
  first half up to \<open>OS_Sched\<close>, the second when the task runs again. A result \<open>None\<close> is a null pointer that
  is followed, or a loop that does not end.
\<close>

section \<open>State\<close>

datatype err_t = ERR_OK | ERR_MEM | ERR_CONN

text \<open>A mailbox is the address of its \<open>TQ_DESCR\<close>: the field \<open>pQ\<close>, then \<open>pvQEntries\<close>, which the kernel uses as
  the message table. \<open>pvNullPointer_at\<close> is where the linker put the constant \<open>pvNullPointer\<close>.\<close>

record sys =
  skern :: kernel
  sheap :: heap
  pQ :: "addr \<Rightarrow> nat option"
  pvNullPointer_at :: addr

definition MAX_QUEUE_ENTRIES :: int where "MAX_QUEUE_ENTRIES = 20"

text \<open>\<open>sizeof (TQ_DESCR)\<close>: 21 pointers.\<close>

definition sizeof_TQ_DESCR :: u32 where "sizeof_TQ_DESCR = 84"

abbreviation SYS_ARCH_TIMEOUT :: u32 where "SYS_ARCH_TIMEOUT \<equiv> 0xffffffff"

text \<open>\<open>memset ((*mbox), 0, sizeof (TQ_DESCR))\<close>.\<close>

definition clear_descr :: "addr \<Rightarrow> sys \<Rightarrow> sys option" where
  "clear_descr m s =
     (if m = 0 then None
      else Some (s\<lparr>pQ := (pQ s)(m := None),
        skern := (skern s)\<lparr>qcells := (\<lambda>a. if m + 4 \<le> a \<and> a < m + unat sizeof_TQ_DESCR then 0 else qcells (skern s) a)\<rparr>\<rparr>))"

text \<open>\<open>m_box->pQ\<close>, for use.\<close>

definition mbox_q :: "addr \<Rightarrow> sys \<Rightarrow> nat option" where
  "mbox_q m s = (if m = 0 then None else pQ s m)"

section \<open>Mailboxes\<close>

definition sys_mbox_new :: "int \<Rightarrow> sys \<Rightarrow> (addr \<times> err_t \<times> sys) option" where
  "sys_mbox_new sz s = do {
     (m, h) \<leftarrow> pvPortMalloc (sheap s) sizeof_TQ_DESCR;
     s \<leftarrow> clear_descr m (s\<lparr>sheap := h\<rparr>);
     if m \<noteq> 0 then do {
       let sz = (if sz > MAX_QUEUE_ENTRIES then MAX_QUEUE_ENTRIES else sz);
       let (e, k) = OSQCreate (m + 4) (word_of_int sz) (skern s);
       let s = s\<lparr>skern := k, pQ := (pQ s)(m := e)\<rparr>;
       if e \<noteq> None then Some (m, ERR_OK, s)
       else do {
         h \<leftarrow> vPortFree (sheap s) m;
         Some (m, ERR_MEM, s\<lparr>sheap := h\<rparr>)
       }
     } else Some (m, ERR_MEM, s)
   }"

definition sys_mbox_free :: "addr \<Rightarrow> sys \<Rightarrow> (addr \<times> sys) option" where
  "sys_mbox_free m s = do {
     e \<leftarrow> mbox_q m s;
     (_, err, k) \<leftarrow> OSQDel e OS_DEL_ALWAYS (skern s);
     h \<leftarrow> vPortFree (sheap s) m;
     Some (0, s\<lparr>skern := k, sheap := h\<rparr>)
   }"

text \<open>The null message travels as the address of \<open>pvNullPointer\<close>.\<close>

definition wrap_msg :: "sys \<Rightarrow> addr \<Rightarrow> addr" where
  "wrap_msg s msg = (if msg = 0 then pvNullPointer_at s else msg)"

definition unwrap_msg :: "sys \<Rightarrow> addr \<Rightarrow> addr" where
  "unwrap_msg s temp = (if temp = pvNullPointer_at s then 0 else temp)"

text \<open>\<open>while (OSQPost (...) != OS_ERR_NONE);\<close>. What interrupts do to the kernel between two tries is an
  argument.\<close>

partial_function (option) post_loop :: "(kernel \<Rightarrow> kernel) \<Rightarrow> nat \<Rightarrow> addr \<Rightarrow> kernel \<Rightarrow> kernel option" where
  "post_loop between e msg k = do {
     (err, k) \<leftarrow> OSQPost e msg k;
     if err \<noteq> OS_ERR_NONE then post_loop between e msg (between k) else Some k
   }"

definition sys_mbox_post :: "(kernel \<Rightarrow> kernel) \<Rightarrow> addr \<Rightarrow> addr \<Rightarrow> sys \<Rightarrow> sys option" where
  "sys_mbox_post between m msg s = do {
     e \<leftarrow> mbox_q m s;
     k \<leftarrow> post_loop between e (wrap_msg s msg) (skern s);
     Some (s\<lparr>skern := k\<rparr>)
   }"

definition sys_mbox_trypost :: "addr \<Rightarrow> addr \<Rightarrow> sys \<Rightarrow> (err_t \<times> sys) option" where
  "sys_mbox_trypost m msg s = do {
     e \<leftarrow> mbox_q m s;
     (err, k) \<leftarrow> OSQPost e (wrap_msg s msg) (skern s);
     Some (if err \<noteq> OS_ERR_NONE then ERR_MEM else ERR_OK, s\<lparr>skern := k\<rparr>)
   }"

section \<open>Waiting\<close>

text \<open>Milliseconds to ticks, at least one, 0 for no limit; \<open>OSQPend\<close> gets the low half of it.\<close>

definition ucos_timeout :: "u32 \<Rightarrow> u32" where
  "ucos_timeout timeout =
     (if timeout \<noteq> 0 then let t = (timeout * OS_TICKS_PER_SEC) div 1000 in if t < 1 then 1 else t else 0)"

text \<open>The result of \<open>sys_arch_mbox_fetch\<close> once \<open>OSQPend\<close> has returned \<open>temp\<close> and \<open>err\<close>; \<open>start\<close> is the time before.\<close>

definition mbox_waited :: "u32 \<Rightarrow> os_err \<Rightarrow> kernel \<Rightarrow> u32" where
  "mbox_waited start err k =
     (if err = OS_ERR_TIMEOUT then SYS_ARCH_TIMEOUT
      else let timeout_new = OSTimeGet k;
               timeout_new = (if timeout_new > start then timeout_new - start else 0xffffffff - start + timeout_new)
           in timeout_new * 1000 div OS_TICKS_PER_SEC + 1)"

text \<open>The message is stored if the caller gave a place for it.\<close>

definition fetch_done :: "bool \<Rightarrow> u32 \<Rightarrow> addr \<times> os_err \<Rightarrow> sys \<Rightarrow> u32 \<times> addr option" where
  "fetch_done store start r s =
     (mbox_waited start (snd r) (skern s), if store then Some (unwrap_msg s (fst r)) else None)"

text \<open>The first half also gives the event and the time that the second half uses.\<close>

definition sys_arch_mbox_fetch ::
  "addr \<Rightarrow> bool \<Rightarrow> u32 \<Rightarrow> sys \<Rightarrow> ((u32 \<times> addr option) call \<times> nat \<times> u32 \<times> sys) option" where
  "sys_arch_mbox_fetch m store timeout s = do {
     let start = OSTimeGet (skern s);
     e \<leftarrow> mbox_q m s;
     (r, k) \<leftarrow> OSQPend e (ucast (ucast (ucos_timeout timeout) :: u16)) (skern s);
     let s = s\<lparr>skern := k\<rparr>;
     Some (case r of Returned v \<Rightarrow> Returned (fetch_done store start v s) | Blocked \<Rightarrow> Blocked, e, start, s)
   }"

definition sys_arch_mbox_fetch_resumed :: "bool \<Rightarrow> nat \<Rightarrow> u32 \<Rightarrow> sys \<Rightarrow> ((u32 \<times> addr option) \<times> sys) option" where
  "sys_arch_mbox_fetch_resumed store e start s = do {
     (temp, err, k) \<leftarrow> OSQPend_resumed e (skern s);
     let s = s\<lparr>skern := k\<rparr>;
     Some (fetch_done store start (temp, err) s, s)
   }"

definition sys_arch_mbox_tryfetch ::
  "addr \<Rightarrow> bool \<Rightarrow> sys \<Rightarrow> ((u32 \<times> addr option) call \<times> nat \<times> u32 \<times> sys) option" where
  "sys_arch_mbox_tryfetch m store = sys_arch_mbox_fetch m store 1"

definition sys_mbox_valid :: "addr \<Rightarrow> sys \<Rightarrow> bool option" where
  "sys_mbox_valid m s = do {
     e \<leftarrow> mbox_q m s;
     (ucErr, d) \<leftarrow> OSQQuery e (skern s);
     let q_data = (case d of Some q \<Rightarrow> q | None \<Rightarrow> \<lparr>q_Msg = 0, q_NMsgs = 0, q_Size = 0, q_Wait = \<lparr>Grp = 0, Tbl = (\<lambda>_. 0)\<rparr>\<rparr>);
     Some ((ucErr = OS_ERR_NONE \<or> ucErr = OS_ERR_EVENT_TYPE) \<and> q_NMsgs q_data < q_Size q_data)
   }"

definition sys_mbox_set_invalid :: addr where
  "sys_mbox_set_invalid = 0"

text \<open>How \<open>netconn_recv_data\<close> of lwIP uses the receive mailbox of a connection: it gives up unless the mailbox is
  valid, and if the last error of the connection is fatal, and otherwise waits for a message.\<close>

definition netconn_recv_data ::
  "addr \<Rightarrow> err_t option \<Rightarrow> u32 \<Rightarrow> sys \<Rightarrow> (err_t + (u32 \<times> addr option) call \<times> nat \<times> u32 \<times> sys) option" where
  "netconn_recv_data recvmbox fatal_err recv_timeout s = do {
     valid \<leftarrow> sys_mbox_valid recvmbox s;
     if \<not> valid then Some (Inl ERR_CONN)
     else case fatal_err of
       Some err \<Rightarrow> Some (Inl err)
     | None \<Rightarrow> map_option Inr (sys_arch_mbox_fetch recvmbox True recv_timeout s)
   }"

section \<open>Semaphores\<close>

definition sys_sem_new :: "u8 \<Rightarrow> sys \<Rightarrow> nat option \<times> err_t \<times> sys" where
  "sys_sem_new count s =
     (case OSSemCreate (ucast count) (skern s) of
        (None, k) \<Rightarrow> (None, ERR_MEM, s\<lparr>skern := k\<rparr>)
      | (Some e, k) \<Rightarrow> (let (err, k) = OSEventNameSet e ''LWIP Sem'' k in (Some e, ERR_OK, s\<lparr>skern := k\<rparr>)))"

text \<open>Here the comparison of the times includes equality.\<close>

definition sem_waited :: "u32 \<Rightarrow> os_err \<Rightarrow> kernel \<Rightarrow> u32" where
  "sem_waited start err k =
     (if err = OS_ERR_TIMEOUT then SYS_ARCH_TIMEOUT
      else let timeout_new = OSTimeGet k;
               timeout_new = (if timeout_new \<ge> start then timeout_new - start else 0xffffffff - start + timeout_new)
           in timeout_new * 1000 div OS_TICKS_PER_SEC + 1)"

definition sys_arch_sem_wait :: "nat option \<Rightarrow> u32 \<Rightarrow> sys \<Rightarrow> (u32 call \<times> u32 \<times> sys) option" where
  "sys_arch_sem_wait sem timeout s = do {
     let start = OSTimeGet (skern s);
     e \<leftarrow> sem;
     (r, k) \<leftarrow> OSSemPend e (ucast (ucast (ucos_timeout timeout) :: u16)) (skern s);
     Some (case r of Returned err \<Rightarrow> Returned (sem_waited start err k) | Blocked \<Rightarrow> Blocked, start, s\<lparr>skern := k\<rparr>)
   }"

definition sys_arch_sem_wait_resumed :: "nat \<Rightarrow> u32 \<Rightarrow> sys \<Rightarrow> (u32 \<times> sys) option" where
  "sys_arch_sem_wait_resumed e start s = do {
     (err, k) \<leftarrow> OSSemPend_resumed e (skern s);
     Some (sem_waited start err k, s\<lparr>skern := k\<rparr>)
   }"

definition sys_sem_signal :: "nat option \<Rightarrow> sys \<Rightarrow> sys option" where
  "sys_sem_signal sem s = do {
     e \<leftarrow> sem;
     (err, k) \<leftarrow> OSSemPost e (skern s);
     Some (s\<lparr>skern := k\<rparr>)
   }"

definition sys_sem_free :: "nat option \<Rightarrow> sys \<Rightarrow> (nat option \<times> sys) option" where
  "sys_sem_free sem s = do {
     e \<leftarrow> sem;
     (_, err, k) \<leftarrow> OSSemDel e OS_DEL_ALWAYS (skern s);
     Some (None, s\<lparr>skern := k\<rparr>)
   }"

definition sys_sem_valid :: "nat option \<Rightarrow> sys \<Rightarrow> bool option" where
  "sys_sem_valid sem s = do {
     e \<leftarrow> sem;
     Some (fst (OSSemQuery e (skern s)) = OS_ERR_NONE)
   }"

definition sys_sem_set_invalid :: "nat option" where
  "sys_sem_set_invalid = None"

section \<open>Threads and time\<close>

text \<open>\<open>stk\<close> is \<open>TCPIP_THREAD_TASK_STK\<close>; the result of the function is always 0.\<close>

definition sys_thread_new :: "string \<Rightarrow> addr \<Rightarrow> nat \<Rightarrow> u8 \<Rightarrow> sys \<Rightarrow> sys option" where
  "sys_thread_new name stk stacksize prio s =
     (if name = ''tcpip_thread'' then do {
        (err, k) \<leftarrow> OSTaskCreate (stk + 4 * stacksize - 4) prio (skern s);
        Some (s\<lparr>skern := k\<rparr>)
      } else Some s)"

definition sys_now :: "sys \<Rightarrow> u32" where
  "sys_now s = OSTimeGet (skern s) * 1000 div OS_TICKS_PER_SEC + 1"

end
