(* ===== verification/Sys_Thms.thy ===== *)
theory Sys_Thms
  imports Sys_Arch Kernel_Msgs Collect_Thms
begin

text \<open>
  Properties of the port of lwIP: a mailbox is first in, first out, with the null message among the
  messages; when posting returns; what times are reported; what a full mailbox does to its reader; and
  how mailboxes are made.
\<close>

section \<open>A mailbox nobody waits on\<close>

definition mbox_idle :: "addr \<Rightarrow> nat \<Rightarrow> nat \<Rightarrow> sys \<Rightarrow> bool" where
  "mbox_idle m e q s \<longleftrightarrow> m \<noteq> 0 \<and> pQ s m = Some e \<and> queue_idle e q (skern s) \<and>
     OSIntNesting (skern s) = 0 \<and> OSLockNesting (skern s) = 0"

definition mbox_view :: "nat \<Rightarrow> sys \<Rightarrow> addr list" where
  "mbox_view q s = map (unwrap_msg s) (q_msgs (skern s) q)"

definition mbox_full :: "nat \<Rightarrow> sys \<Rightarrow> bool" where
  "mbox_full q s \<longleftrightarrow> length (mbox_view q s) = unat (OSQSize (osq (skern s) q))"

text \<open>A post of anything but the address that stands for the null message; a fetch when there is a message.\<close>

definition mbox_put :: "addr \<Rightarrow> addr \<Rightarrow> sys \<Rightarrow> (err_t \<times> sys) option" where
  "mbox_put m x s = (if x = pvNullPointer_at s then Some (ERR_MEM, s) else sys_mbox_trypost m x s)"

definition mbox_take :: "addr \<Rightarrow> sys \<Rightarrow> (err_t \<times> addr option \<times> sys) option" where
  "mbox_take m s = do {
     e \<leftarrow> mbox_q m s;
     q \<leftarrow> queue_of e (skern s);
     if OSQEntries (osq (skern s) q) = 0 then Some (ERR_MEM, None, s)
     else do {
       (r, _, _, s) \<leftarrow> sys_arch_mbox_fetch m True 0 s;
       case r of Returned (time, msg) \<Rightarrow> Some (ERR_OK, msg, s) | Blocked \<Rightarrow> None
     }
   }"

lemma mbox_idleD:
  assumes "mbox_idle m e q s"
  shows "mbox_q m s = Some e" "queue_idle e q (skern s)" "queue_of e (skern s) = Some q"
    "OSEventType (evt (skern s) e) = OS_EVENT_TYPE_Q" "q_wf (skern s) q" "Grp (OSEventWait (evt (skern s) e)) = 0"
    "OSIntNesting (skern s) = 0" "OSLockNesting (skern s) = 0"
  using assms queue_idle_of by (auto simp: mbox_idle_def mbox_q_def queue_idle_def)

lemma unwrap_wrap: "x \<noteq> pvNullPointer_at s \<Longrightarrow> unwrap_msg s (wrap_msg s x) = x"
  by (simp add: unwrap_msg_def wrap_msg_def)

lemma mbox_full_iff: "q_wf (skern s) q \<Longrightarrow> mbox_full q s \<longleftrightarrow> \<not> OSQEntries (osq (skern s) q) < OSQSize (osq (skern s) q)"
  by (auto simp: mbox_full_def mbox_view_def q_wf_def Let_def word_less_nat_alt word_le_nat_alt)

lemma q_entries_0: "OSQEntries (osq k q) = 0 \<longleftrightarrow> q_msgs k q = []"
  by (metis length_0_conv length_q_msgs unat_eq_zero)

lemma idle_cong:
  assumes "mbox_idle m e q s" "queue_idle e q k" "OSIntNesting k = 0" "OSLockNesting k = 0"
  shows "mbox_idle m e q (s\<lparr>skern := k\<rparr>)"
  using assms by (simp add: mbox_idle_def)

lemma view_upd: "mbox_view q (s\<lparr>skern := k\<rparr>) = map (unwrap_msg s) (q_msgs k q)"
  by (simp add: mbox_view_def unwrap_msg_def fun_eq_iff)

lemma q_ops_nest [simp]:
  "OSIntNesting (q_put q m k) = OSIntNesting k" "OSLockNesting (q_put q m k) = OSLockNesting k"
  "OSIntNesting (snd (q_take q k)) = OSIntNesting k" "OSLockNesting (snd (q_take q k)) = OSLockNesting k"
  "OSTime (q_put q m k) = OSTime k" "OSTime (snd (q_take q k)) = OSTime k"
  by (simp_all add: q_put_def q_take_def upd_q_def Let_def)

lemma trypost_cases:
  assumes "mbox_idle m e q s"
  shows "if mbox_full q s then sys_mbox_trypost m x s = Some (ERR_MEM, s)
    else sys_mbox_trypost m x s = Some (ERR_OK, s\<lparr>skern := q_put q (wrap_msg s x) (skern s)\<rparr>) \<and>
      mbox_idle m e q (s\<lparr>skern := q_put q (wrap_msg s x) (skern s)\<rparr>) \<and>
      mbox_view q (s\<lparr>skern := q_put q (wrap_msg s x) (skern s)\<rparr>) = mbox_view q s @ [unwrap_msg s (wrap_msg s x)]"
proof (cases "mbox_full q s")
  case True
  then show ?thesis using mbox_idleD [OF assms]
    by (simp add: mbox_full_iff sys_mbox_trypost_def OSQPost_def q_post_def not_less)
next
  case False
  then have room: "OSQEntries (osq (skern s) q) < OSQSize (osq (skern s) q)" using mbox_idleD(5) [OF assms] by (simp add: mbox_full_iff)
  have "queue_idle e q (q_put q (wrap_msg s x) (skern s))"
    using mbox_idleD [OF assms] q_put_ring(1) [OF _ room] by (simp add: queue_idle_def)
  then show ?thesis using False room mbox_idleD [OF assms] q_put_ring(2) [OF _ room]
    by (simp add: sys_mbox_trypost_def OSQPost_def q_post_def idle_cong [OF assms] view_upd not_le [symmetric])
      (simp add: mbox_view_def)
qed

lemma fetch_idle:
  assumes "mbox_idle m e q s" "mbox_view q s = x # xs"
  shows "sys_arch_mbox_fetch m store timeout s = Some (Returned (21474832, if store then Some x else None), e,
      OSTime (skern s), s\<lparr>skern := snd (q_take q (skern s))\<rparr>) \<and>
    mbox_idle m e q (s\<lparr>skern := snd (q_take q (skern s))\<rparr>) \<and>
    mbox_view q (s\<lparr>skern := snd (q_take q (skern s))\<rparr>) = xs"
proof -
  have ne: "q_msgs (skern s) q \<noteq> []" using assms(2) by (auto simp: mbox_view_def)
  then have pos: "0 < OSQEntries (osq (skern s) q)" by (simp add: word_gt_0 q_entries_0)
  note t = q_take_ring [OF mbox_idleD(5) [OF assms(1)] pos]
  have "queue_idle e q (snd (q_take q (skern s)))" using mbox_idleD [OF assms(1)] t(2) by (simp add: queue_idle_def)
  moreover have "OSQPend e v (skern s) = Some (Returned (hd (q_msgs (skern s) q), OS_ERR_NONE), snd (q_take q (skern s)))" for v
    using mbox_idleD [OF assms(1)] pos t(1) by (simp add: OSQPend_def case_prod_beta)
  moreover have "mbox_waited (OSTime (skern s)) OS_ERR_NONE (snd (q_take q (skern s))) = 21474832"
    by (simp add: mbox_waited_def OSTimeGet_def Let_def)
  ultimately show ?thesis
    using assms(2) ne t(3) mbox_idleD [OF assms(1)]
    by (cases "q_msgs (skern s) q")
      (auto simp: sys_arch_mbox_fetch_def fetch_done_def OSTimeGet_def idle_cong [OF assms(1)] view_upd mbox_view_def unwrap_msg_def)
qed

interpretation sysq: fifo_total "mbox_idle m e q" "mbox_view q" ERR_OK "mbox_put m" "mbox_take m" for m e q
proof
  fix s x
  assume s: "mbox_idle m e q s"
  show "mbox_put m x s = None \<or> (\<exists>st. st \<noteq> ERR_OK \<and> mbox_put m x s = Some (st, s)) \<or>
      (\<exists>s'. mbox_put m x s = Some (ERR_OK, s') \<and> mbox_idle m e q s' \<and> mbox_view q s' = mbox_view q s @ [x])"
    using trypost_cases [OF s, of x] unwrap_wrap [of x s] by (auto simp: mbox_put_def split: if_splits)
  show "mbox_put m x s \<noteq> None"
    using trypost_cases [OF s, of x] by (auto simp: mbox_put_def split: if_splits)
next
  fix s x xs
  assume s: "mbox_idle m e q s" "mbox_view q s = x # xs"
  then have "OSQEntries (osq (skern s) q) \<noteq> 0" by (auto simp: q_entries_0 mbox_view_def)
  then show "\<exists>s'. mbox_take m s = Some (ERR_OK, Some x, s') \<and> mbox_idle m e q s' \<and> mbox_view q s' = xs"
    using fetch_idle [OF s, of True 0] mbox_idleD [OF s(1)] by (simp add: mbox_take_def)
next
  fix s
  assume s: "mbox_idle m e q s" "mbox_view q s = []"
  then have "OSQEntries (osq (skern s) q) = 0" by (simp add: q_entries_0 mbox_view_def)
  then show "\<exists>st. mbox_take m s = Some (st, None, s)"
    using mbox_idleD [OF s(1)] by (simp add: mbox_take_def)
qed

lemma trypost_run:
  assumes "mbox_idle m e q s" "\<forall>x. Enq x \<in> set ops \<longrightarrow> x \<noteq> pvNullPointer_at s"
  shows "fifo_run ERR_OK (sys_mbox_trypost m) (mbox_take m) ops s = fifo_run ERR_OK (mbox_put m) (mbox_take m) ops s"
  using assms
proof (induction ops arbitrary: s)
  case (Cons op ops)
  show ?case
  proof (cases op)
    case (Enq x)
    then have "mbox_put m x s = sys_mbox_trypost m x s" using Cons.prems(2) by (simp add: mbox_put_def)
    then show ?thesis using Enq trypost_cases [OF Cons.prems(1), of x] Cons.IH Cons.prems
      by (auto split: if_splits)
  next
    case Deq
    show ?thesis
    proof (cases "mbox_view q s")
      case Nil
      then have "mbox_take m s = Some (ERR_MEM, None, s)"
        using mbox_idleD [OF Cons.prems(1)] by (simp add: mbox_take_def mbox_view_def q_entries_0)
      then show ?thesis using Deq Cons.IH [OF Cons.prems(1)] Cons.prems(2) by simp
    next
      case (Cons x xs)
      then have "OSQEntries (osq (skern s) q) \<noteq> 0" by (auto simp: q_entries_0 mbox_view_def)
      then have "mbox_take m s = Some (ERR_OK, Some x, s\<lparr>skern := snd (q_take q (skern s))\<rparr>)"
        using fetch_idle [OF Cons.prems(1) Cons, of True 0] mbox_idleD [OF Cons.prems(1)] by (simp add: mbox_take_def)
      then show ?thesis using Deq Cons.IH [OF fetch_idle [OF Cons.prems(1) Cons, THEN conjunct2, THEN conjunct1]] Cons.prems(2) by simp
    qed
  qed
qed simp

text \<open>C11. Mailboxes. On a mailbox nobody waits on every sequence of posts and fetches returns; what was
  accepted comes out in this order, the null message included. A post is refused only when it is full, a
  fetch on an empty mailbox is left out, since it waits.\<close>

theorem mailbox_fifo:
  assumes "mbox_idle m e q s" "\<forall>x. Enq x \<in> set ops \<longrightarrow> x \<noteq> pvNullPointer_at s"
  shows "\<exists>acc del s'. fifo_run ERR_OK (sys_mbox_trypost m) (mbox_take m) ops s = Some (acc, del, s') \<and>
    mbox_idle m e q s' \<and> mbox_view q s @ acc = del @ mbox_view q s'"
  unfolding trypost_run [OF assms] by (rule sysq.run_total [OF assms(1)])

text \<open>A system with a mailbox of three entries whose descriptor is at \<open>60\<close>.\<close>

definition sys0 :: sys where
  "sys0 = \<lparr>skern = queue_state, sheap = heap0, pQ = (\<lambda>_. None)(60 := Some 0), pvNullPointer_at = 0x08000100\<rparr>"

lemma sys0_idle: "mbox_idle 60 0 0 sys0" "mbox_view 0 sys0 = []"
proof -
  have "OSIntNesting queue_state = 0" "OSLockNesting queue_state = 0" by code_simp+
  then show "mbox_idle 60 0 0 sys0" using queue_state_idle(1) by (simp add: mbox_idle_def sys0_def)
  show "mbox_view 0 sys0 = []" using queue_state_idle(2) by (simp add: mbox_view_def sys0_def)
qed

theorem mailbox_fifo_witness:
  "\<exists>acc del s'. fifo_run ERR_OK (sys_mbox_trypost 60) (mbox_take 60) [Enq 7, Enq 0, Deq, Enq 9, Deq] sys0 = Some (acc, del, s') \<and>
    acc = del @ mbox_view 0 s'"
  using mailbox_fifo [OF sys0_idle(1), of "[Enq 7, Enq 0, Deq, Enq 9, Deq]"] sys0_idle(2) by (auto simp: sys0_def)

section \<open>Times\<close>

lemma ticks_to_ms:
  assumes "d < 4294968"
  shows "(of_nat d :: u32) * 1000 div 200 + 1 = of_nat (5 * d + 1)"
proof -
  have d: "unat (of_nat d :: u32) = d" using assms by (simp add: unat_of_nat take_bit_nat_eq_self)
  have m: "unat ((of_nat d :: u32) * 1000) = 1000 * d" using assms d by (simp add: unat_word_ariths)
  have "unat ((of_nat d :: u32) * 1000 div 200) = 5 * d" unfolding unat_div m by simp
  then have "(of_nat d :: u32) * 1000 div 200 = of_nat (5 * d)" by (metis of_nat_unat ucast_id)
  then show ?thesis by simp
qed

lemma waited_ticks:
  assumes "err \<noteq> OS_ERR_TIMEOUT" "OSTime k = start + of_nat d" "unat start + d < 2 ^ 32" "d < 4294968"
  shows "0 < d \<Longrightarrow> mbox_waited start err k = of_nat (5 * d + 1)" "sem_waited start err k = of_nat (5 * d + 1)"
proof -
  have d: "unat (of_nat d :: u32) = d" using assms(4) by (simp add: unat_of_nat take_bit_nat_eq_self)
  have "unat (start + of_nat d) = unat start + d" using assms(3) d by (simp add: unat_word_ariths)
  then have c: "start + of_nat d > start \<longleftrightarrow> 0 < d" "start + of_nat d \<ge> start" by (simp_all add: word_less_nat_alt word_le_nat_alt)
  have t: "(start + of_nat d) - start = (of_nat d :: u32)" by simp
  have v: "(start + of_nat d - start) * 1000 div 200 + 1 = (of_nat (5 * d + 1) :: u32)" unfolding t ticks_to_ms [OF assms(4)] ..
  show "0 < d \<Longrightarrow> mbox_waited start err k = of_nat (5 * d + 1)"
    using assms(1) c(1) by (simp only: mbox_waited_def OSTimeGet_def Let_def assms(2) if_False if_True v simp_thms)
  show "sem_waited start err k = of_nat (5 * d + 1)"
    using assms(1) c(2) by (simp only: sem_waited_def OSTimeGet_def Let_def assms(2) if_False if_True v simp_thms)
qed

lemma OSQPend_resumed_time: "OSQPend_resumed e k = Some (temp, err, k') \<Longrightarrow> OSTime k' = OSTime k"
  by (auto simp: OSQPend_resumed_def pend_finish_msg_def pend_finish_def bind_eq_Some_conv upd_tcb_def OS_EventTaskRemove_def
      upd_evt_def Let_def split: pend_stat.splits) (metis pend_stat.exhaust)

text \<open>C18. Waiting times. A fetch whose message is already there reports 21474832 milliseconds, almost six
  hours, though no tick has passed: the comparison of the times excludes equality. A fetch or a wait for a
  semaphore that is resumed \<open>d > 0\<close> ticks later reports the \<open>5 * d\<close> milliseconds and one, as does a semaphore
  that was there at once.\<close>

theorem mbox_fetch_time:
  assumes "mbox_idle m e q s" "mbox_view q s = x # xs"
  shows "(\<exists>s'. sys_arch_mbox_fetch m True timeout s = Some (Returned (21474832, Some x), e, OSTime (skern s), s') \<and>
      OSTime (skern s') = OSTime (skern s)) \<and>
    (\<forall>s2 start d temp err k3. OSQPend_resumed e (skern s2) = Some (temp, err, k3) \<longrightarrow> err \<noteq> OS_ERR_TIMEOUT \<longrightarrow>
      OSTime (skern s2) = start + of_nat d \<longrightarrow> unat start + d < 2 ^ 32 \<longrightarrow> 0 < d \<longrightarrow> d < 4294968 \<longrightarrow>
      sys_arch_mbox_fetch_resumed True e start s2 = Some ((of_nat (5 * d + 1), Some (unwrap_msg s2 temp)), s2\<lparr>skern := k3\<rparr>)) \<and>
    (\<forall>e2 timeout s2. OSEventType (evt (skern s2) e2) = OS_EVENT_TYPE_SEM \<longrightarrow> OSEventCnt (evt (skern s2) e2) > 0 \<longrightarrow>
      OSIntNesting (skern s2) = 0 \<longrightarrow> OSLockNesting (skern s2) = 0 \<longrightarrow>
      (\<exists>s'. sys_arch_sem_wait (Some e2) timeout s2 = Some (Returned 1, OSTime (skern s2), s')))"
proof (intro conjI allI impI)
  show "\<exists>s'. sys_arch_mbox_fetch m True timeout s = Some (Returned (21474832, Some x), e, OSTime (skern s), s') \<and>
      OSTime (skern s') = OSTime (skern s)"
    using fetch_idle [OF assms, of True timeout] by simp
next
  fix s2 :: sys and start :: u32 and d temp err k3
  assume a: "OSQPend_resumed e (skern s2) = Some (temp, err, k3)" "err \<noteq> OS_ERR_TIMEOUT" "OSTime (skern s2) = start + of_nat d"
    "unat start + d < 2 ^ 32" "0 < d" "d < 4294968"
  have "OSTime k3 = start + of_nat d" using OSQPend_resumed_time [OF a(1)] a(3) by simp
  then have "mbox_waited start err k3 = of_nat (5 * d + 1)" using waited_ticks(1) [OF a(2) _ a(4,6,5)] by blast
  then show "sys_arch_mbox_fetch_resumed True e start s2 = Some ((of_nat (5 * d + 1), Some (unwrap_msg s2 temp)), s2\<lparr>skern := k3\<rparr>)"
    using a(1) by (simp add: sys_arch_mbox_fetch_resumed_def fetch_done_def unwrap_msg_def)
next
  fix e2 timeout and s2 :: sys
  assume "OSEventType (evt (skern s2) e2) = OS_EVENT_TYPE_SEM" "OSEventCnt (evt (skern s2) e2) > 0"
    "OSIntNesting (skern s2) = 0" "OSLockNesting (skern s2) = 0"
  then show "\<exists>s'. sys_arch_sem_wait (Some e2) timeout s2 = Some (Returned 1, OSTime (skern s2), s')"
    by (simp add: sys_arch_sem_wait_def OSSemPend_def sem_waited_def OSTimeGet_def upd_evt_def)
qed

lemma q_put_size: "OSQSize (osq (q_put q m k) p) = OSQSize (osq k p)"
  by (simp add: q_put_def upd_q_def Let_def)

lemma sys0_posts:
  "length xs \<le> 3 \<Longrightarrow> 0 \<notin> set xs \<Longrightarrow> 0x08000100 \<notin> set xs \<Longrightarrow>
   \<exists>s. mbox_idle 60 0 0 s \<and> mbox_view 0 s = xs \<and> unat (OSQSize (osq (skern s) 0)) = 3 \<and> pvNullPointer_at s = 0x08000100"
proof (induction xs rule: rev_induct)
  case Nil
  have "unat (OSQSize (osq queue_state 0)) = 3" by code_simp
  then show ?case using sys0_idle by (intro exI [of _ sys0]) (simp add: sys0_def)
next
  case (snoc x xs)
  then obtain s where s: "mbox_idle 60 0 0 s" "mbox_view 0 s = xs" "unat (OSQSize (osq (skern s) 0)) = 3" "pvNullPointer_at s = 0x08000100"
    by auto
  have "\<not> mbox_full 0 s" using s(2,3) snoc.prems(1) by (simp add: mbox_full_def)
  then show ?case using trypost_cases [OF s(1), of x] s unwrap_wrap [of x s] snoc.prems
    by (intro exI [of _ "s\<lparr>skern := q_put 0 (wrap_msg s x) (skern s)\<rparr>"]) (simp add: q_put_size)
qed

theorem mbox_fetch_time_witness:
  "\<exists>s s' t. mbox_view 0 s = [7] \<and> sys_arch_mbox_fetch 60 True 0 s = Some (Returned (21474832, Some 7), 0, t, s') \<and>
     OSTime (skern s') = OSTime (skern s)"
proof -
  obtain s where s: "mbox_idle 60 0 0 s" "mbox_view 0 s = [7]" using sys0_posts [of "[7]"] by auto
  then show ?thesis using mbox_fetch_time [OF s, of 0] by blast
qed

section \<open>Full mailboxes\<close>

lemma queue_valid:
  assumes "mbox_idle m e q s"
  shows "sys_mbox_valid m s = Some (\<not> mbox_full q s)"
  using mbox_idleD [OF assms] by (simp add: sys_mbox_valid_def OSQQuery_def mbox_full_iff)

text \<open>C15. Full mailboxes. \<open>sys_mbox_valid\<close> takes a full mailbox for an invalid one. The reader of a connection
  therefore gives up with \<open>ERR_CONN\<close>, while posts are refused: nothing is read from the mailbox of a connection
  again once it was full. Otherwise the reader gets the oldest message.\<close>

theorem full_mailbox_stuck:
  assumes "mbox_idle m e q s"
  shows "if mbox_full q s
    then netconn_recv_data m None timeout s = Some (Inl ERR_CONN) \<and> sys_mbox_trypost m x s = Some (ERR_MEM, s)
    else case mbox_view q s of
      [] \<Rightarrow> netconn_recv_data m None timeout s = map_option Inr (sys_arch_mbox_fetch m True timeout s)
    | y # ys \<Rightarrow> \<exists>t s'. netconn_recv_data m None timeout s = Some (Inr (Returned (t, Some y), e, OSTime (skern s), s')) \<and>
        mbox_idle m e q s' \<and> mbox_view q s' = ys"
proof (cases "mbox_full q s")
  case True
  then show ?thesis using queue_valid [OF assms] trypost_cases [OF assms, of x] by (simp add: netconn_recv_data_def)
next
  case False
  then show ?thesis using queue_valid [OF assms] fetch_idle [OF assms, of _ _ True timeout]
    by (cases "mbox_view q s") (auto simp: netconn_recv_data_def)
qed

theorem full_mailbox_stuck_witness:
  "\<exists>s. mbox_view 0 s = [7, 8, 9] \<and> netconn_recv_data 60 None 0 s = Some (Inl ERR_CONN) \<and> sys_mbox_trypost 60 5 s = Some (ERR_MEM, s)"
proof -
  obtain s where s: "mbox_idle 60 0 0 s" "mbox_view 0 s = [7, 8, 9]" "unat (OSQSize (osq (skern s) 0)) = 3"
    using sys0_posts [of "[7, 8, 9]"] by auto
  then have "mbox_full 0 s" by (simp add: mbox_full_def)
  then show ?thesis using full_mailbox_stuck [OF s(1), of 0 5] s(2) by auto
qed

section \<open>Posting until it succeeds\<close>

definition has_room :: "nat \<Rightarrow> kernel \<Rightarrow> bool" where
  "has_room q k \<longleftrightarrow> OSQEntries (osq k q) < OSQSize (osq k q)"

lemma OSQPost_room:
  assumes "queue_idle e q k"
  shows "OSQPost e x k = Some (if has_room q k then (OS_ERR_NONE, q_put q x k) else (OS_ERR_Q_FULL, k))"
  using assms queue_idle_of [OF assms] by (simp add: OSQPost_def q_post_def queue_idle_def has_room_def not_le [symmetric])

lemma post_loop_room:
  assumes "\<forall>i \<le> n. queue_idle e q ((between ^^ i) k)" "has_room q ((between ^^ n) k)" "\<forall>i < n. \<not> has_room q ((between ^^ i) k)"
  shows "post_loop between e x k = Some (q_put q x ((between ^^ n) k))"
  using assms
proof (induction n arbitrary: k)
  case 0
  then show ?case using OSQPost_room [of e q k] by (subst post_loop.simps) simp
next
  case (Suc n)
  have s: "(between ^^ i) (between k) = (between ^^ Suc i) k" for i by (simp add: funpow_swap1)
  have "post_loop between e x (between k) = Some (q_put q x ((between ^^ n) (between k)))"
    using Suc.prems by (intro Suc.IH) (auto simp: s simp del: funpow.simps)
  moreover have "OSQPost e x k = Some (OS_ERR_Q_FULL, k)" using OSQPost_room [of e q k x] Suc.prems by force
  ultimately show ?case by (subst post_loop.simps) (simp add: s del: funpow.simps)
qed

lemma post_loop_full:
  assumes "\<forall>i. queue_idle e q ((between ^^ i) k) \<and> \<not> has_room q ((between ^^ i) k)"
  shows "post_loop between e x k = None"
proof -
  define stuck where "stuck = (\<lambda>(between :: kernel \<Rightarrow> kernel) e k. \<forall>i. queue_idle e q ((between ^^ i) k) \<and> \<not> has_room q ((between ^^ i) k))"
  have step: "stuck between e (between k)" if "stuck between e k" for between :: "kernel \<Rightarrow> kernel" and e k
    using that unfolding stuck_def by (metis funpow_swap1 funpow.simps(2) comp_apply)
  have "\<not> stuck between e k" if "post_loop between e x k = Some r" for k r
  proof (rule post_loop.raw_induct [where P = "\<lambda>between e x k r. \<not> stuck between e k", OF _ that])
    fix pl and between :: "kernel \<Rightarrow> kernel" and e x k r
    assume ih: "\<And>between e x k r. pl between e x k = Some r \<Longrightarrow> \<not> stuck between e k"
      and r: "do { (err, k) \<leftarrow> OSQPost e x k; if err \<noteq> OS_ERR_NONE then pl between e x (between k) else Some k } = Some r"
    show "\<not> stuck between e k"
    proof
      assume a: "stuck between e k"
      then have "queue_idle e q k" "\<not> has_room q k" unfolding stuck_def using funpow_0 by metis+
      then have "OSQPost e x k = Some (OS_ERR_Q_FULL, k)" using OSQPost_room [of e q k x] by simp
      then have "pl between e x (between k) = Some r" using r by simp
      then show False using ih step [OF a] by blast
    qed
  qed
  then have "post_loop between e x k \<noteq> Some r" for r using assms unfolding stuck_def by blast
  then show ?thesis by (cases "post_loop between e x k") auto
qed

text \<open>C35. Posting. \<open>sys_mbox_post\<close> returns exactly when what interrupts do between its tries makes room in the
  mailbox at some time, at once if there is room: then the message is the last of the mailbox. If nothing
  makes room it spins for ever; no task of lower priority can empty the mailbox meanwhile.\<close>

theorem sys_mbox_post_returns:
  assumes "mbox_idle m e q s" "\<forall>i. queue_idle e q ((between ^^ i) (skern s))"
  shows "(\<forall>n. has_room q ((between ^^ n) (skern s)) \<longrightarrow> (\<forall>i < n. \<not> has_room q ((between ^^ i) (skern s))) \<longrightarrow>
      (\<exists>s'. sys_mbox_post between m x s = Some s' \<and>
        q_msgs (skern s') q = q_msgs ((between ^^ n) (skern s)) q @ [wrap_msg s x])) \<and>
    ((\<forall>n. \<not> has_room q ((between ^^ n) (skern s))) \<longrightarrow> sys_mbox_post between m x s = None)"
proof (intro conjI allI impI)
  fix n assume n: "has_room q ((between ^^ n) (skern s))" "\<forall>i < n. \<not> has_room q ((between ^^ i) (skern s))"
  have "post_loop between e (wrap_msg s x) (skern s) = Some (q_put q (wrap_msg s x) ((between ^^ n) (skern s)))"
    using assms(2) n by (intro post_loop_room) auto
  moreover have "q_msgs (q_put q (wrap_msg s x) ((between ^^ n) (skern s))) q = q_msgs ((between ^^ n) (skern s)) q @ [wrap_msg s x]"
    using spec [OF assms(2), of n] n(1) q_put_ring(2) by (simp add: queue_idle_def has_room_def)
  ultimately show "\<exists>s'. sys_mbox_post between m x s = Some s' \<and>
      q_msgs (skern s') q = q_msgs ((between ^^ n) (skern s)) q @ [wrap_msg s x]"
    using mbox_idleD(1) [OF assms(1)] by (simp add: sys_mbox_post_def)
next
  assume "\<forall>n. \<not> has_room q ((between ^^ n) (skern s))"
  then have "post_loop between e (wrap_msg s x) (skern s) = None" using assms(2) by (intro post_loop_full) blast
  then show "sys_mbox_post between m x s = None" using mbox_idleD(1) [OF assms(1)] by (simp add: sys_mbox_post_def)
qed

theorem sys_mbox_post_returns_witness:
  "(\<exists>s s'. mbox_view 0 s = [7] \<and> sys_mbox_post id 60 5 s = Some s') \<and>
   (\<exists>s. mbox_view 0 s = [7, 8, 9] \<and> sys_mbox_post id 60 5 s = None)"
proof (intro conjI)
  obtain s where s: "mbox_idle 60 0 0 s" "mbox_view 0 s = [7]" "unat (OSQSize (osq (skern s) 0)) = 3" using sys0_posts [of "[7]"] by auto
  have "has_room 0 (skern s)" using s mbox_full_iff [OF mbox_idleD(5) [OF s(1)]] by (simp add: has_room_def mbox_full_def)
  then show "\<exists>s s'. mbox_view 0 s = [7] \<and> sys_mbox_post id 60 5 s = Some s'"
    using sys_mbox_post_returns [OF s(1), of id 5] mbox_idleD(2) [OF s(1)] s(2) by fastforce
next
  obtain s where s: "mbox_idle 60 0 0 s" "mbox_view 0 s = [7, 8, 9]" "unat (OSQSize (osq (skern s) 0)) = 3"
    using sys0_posts [of "[7, 8, 9]"] by auto
  have "\<not> has_room 0 (skern s)" using s mbox_full_iff [OF mbox_idleD(5) [OF s(1)]] by (simp add: has_room_def mbox_full_def)
  then show "\<exists>s. mbox_view 0 s = [7, 8, 9] \<and> sys_mbox_post id 60 5 s = None"
    using sys_mbox_post_returns [OF s(1), of id 5] mbox_idleD(2) [OF s(1)] s(2) by fastforce
qed

section \<open>Making and freeing mailboxes\<close>

lemma OSQCreate_idle:
  assumes "OSQCreate start sz k = (Some e, k')" "0 < sz"
  shows "\<exists>q. queue_idle e q k' \<and> q_msgs k' q = [] \<and> OSQSize (osq k' q) = sz \<and> OSQStart (osq k' q) = start \<and>
    OSQEnd (osq k' q) = start + 4 * unat sz \<and> OSIntNesting k' = OSIntNesting k \<and> OSLockNesting k' = OSLockNesting k"
proof -
  obtain q where q: "OSEventFreeList k = Some e" "OSQFreeList k = Some q"
    using assms(1) by (auto simp: OSQCreate_def alloc_event_def Let_def split: if_splits option.splits)
  have "0 < unat sz" using assms(2) by (simp add: word_less_nat_alt)
  then show ?thesis using assms(1) q
    by (intro exI [of _ q])
      (auto simp: OSQCreate_def alloc_event_def Let_def upd_q_def upd_evt_def OS_EventWaitListInit_def queue_idle_def q_wf_def
        q_front_def q_msgs_def bm_clear_def split: if_splits)
qed

lemma OSQDel_idle:
  assumes "queue_idle e q k" "OSIntNesting k = 0"
  shows "\<exists>k'. OSQDel e OS_DEL_ALWAYS k = Some (None, OS_ERR_NONE, k')"
  using assms queue_idle_of [OF assms(1)]
  by (simp add: OSQDel_def del_event_def queue_idle_def OS_DEL_ALWAYS_def OS_DEL_NO_PEND_def q_release_def ready_all.simps Let_def)

lemma clear_descr_Some: "m \<noteq> 0 \<Longrightarrow> \<exists>s'. clear_descr m s = Some s' \<and> sheap s' = sheap s \<and> pvNullPointer_at s' = pvNullPointer_at s \<and>
    OSIntNesting (skern s') = OSIntNesting (skern s) \<and> OSLockNesting (skern s') = OSLockNesting (skern s)"
  by (simp add: clear_descr_def)

text \<open>Making a mailbox. When the heap is exhausted \<open>sys_mbox_new\<close> clears a descriptor at the null pointer.
  Otherwise it makes an empty mailbox of at most 20 entries, whose message table lies inside a new block
  of the heap, and which can be freed again without loss, or it reports the shortage of the kernel and
  leaves no block behind.\<close>

theorem sys_mbox_new_works:
  assumes "heap_live (sheap s) al" "0 < sz" "OSIntNesting (skern s) = 0" "OSLockNesting (skern s) = 0"
  shows "case sys_mbox_new sz s of
      None \<Rightarrow> pvPortMalloc (sheap s) sizeof_TQ_DESCR = Some (0, sheap s)
    | Some (m, r, s') \<Rightarrow>
        if r = ERR_OK then \<exists>e q n. mbox_idle m e q s' \<and> mbox_view q s' = [] \<and>
          unat (OSQSize (osq (skern s') q)) = nat (min sz 20) \<and> m \<notin> dom al \<and> heap_live (sheap s') (al(m \<mapsto> n)) \<and>
          m < OSQStart (osq (skern s') q) \<and> OSQEnd (osq (skern s') q) \<le> m + n \<and>
          (\<exists>s''. sys_mbox_free m s' = Some (0, s'') \<and> heap_live (sheap s'') al)
        else r = ERR_MEM \<and> heap_live (sheap s') al"
proof (cases "pvPortMalloc (sheap s) sizeof_TQ_DESCR = Some (0, sheap s)")
  case True
  then show ?thesis by (simp add: sys_mbox_new_def clear_descr_def)
next
  case False
  then obtain m h n where m: "pvPortMalloc (sheap s) sizeof_TQ_DESCR = Some (m, h)" "m \<noteq> 0" "m \<notin> dom al" "84 \<le> n" "heap_live h (al(m \<mapsto> n))"
    using lib_mem.alloc_step [OF assms(1), of sizeof_TQ_DESCR] by (auto simp: sizeof_TQ_DESCR_def)
  have same: "al(m := None) = al" using m(3) by (auto simp: domIff)
  obtain s1 where s1: "clear_descr m (s\<lparr>sheap := h\<rparr>) = Some s1" "sheap s1 = h" "OSIntNesting (skern s1) = 0" "OSLockNesting (skern s1) = 0"
    using clear_descr_Some [OF m(2), of "s\<lparr>sheap := h\<rparr>"] assms(3,4) by auto
  define z where "z = (if sz > MAX_QUEUE_ENTRIES then MAX_QUEUE_ENTRIES else sz)"
  have z: "z = int (nat (min sz 20))" using assms(2) by (simp add: z_def MAX_QUEUE_ENTRIES_def)
  have w: "(word_of_int z :: u16) = of_nat (nat (min sz 20))" unfolding z by simp
  have zu: "unat (word_of_int z :: u16) = nat (min sz 20)" unfolding w by (simp add: unat_of_nat take_bit_nat_eq_self)
  obtain eo k where k: "OSQCreate (m + 4) (word_of_int z) (skern s1) = (eo, k)" by fastforce
  show ?thesis
  proof (cases eo)
    case None
    obtain h' where "vPortFree h m = Some h'" "heap_live h' al"
      using lib_mem.release_step [OF m(5), of m] same by auto
    then have "sys_mbox_new sz s = Some (m, ERR_MEM, s1\<lparr>skern := k, pQ := (pQ s1)(m := None), sheap := h'\<rparr>)"
      using m(1,2) s1(1,2) k None by (simp add: sys_mbox_new_def z_def [symmetric])
    then show ?thesis using \<open>heap_live h' al\<close> by simp
  next
    case (Some e)
    have "0 < (word_of_int z :: u16)" using zu assms(2) by (simp add: word_less_nat_alt)
    then obtain q where q: "queue_idle e q k" "q_msgs k q = []" "OSQSize (osq k q) = word_of_int z" "OSQStart (osq k q) = m + 4"
      "OSQEnd (osq k q) = m + 4 + 4 * nat (min sz 20)" "OSIntNesting k = 0" "OSLockNesting k = 0"
      using OSQCreate_idle [of "m + 4" "word_of_int z" "skern s1" e k] k Some s1(3,4) zu by auto
    define s2 where "s2 = s1\<lparr>skern := k, pQ := (pQ s1)(m := Some e)\<rparr>"
    have new: "sys_mbox_new sz s = Some (m, ERR_OK, s2)"
      using m(1,2) s1(1,2) k Some by (simp add: sys_mbox_new_def z_def [symmetric] s2_def)
    have idle: "mbox_idle m e q s2" "mbox_view q s2 = []" using q m(2) by (simp_all add: mbox_idle_def mbox_view_def s2_def)
    obtain k' where "OSQDel e OS_DEL_ALWAYS k = Some (None, OS_ERR_NONE, k')" using OSQDel_idle [OF q(1,6)] by blast
    moreover obtain h' where h': "vPortFree h m = Some h'" "heap_live h' al"
      using lib_mem.release_step [OF m(5), of m] same by auto
    ultimately have "sys_mbox_free m s2 = Some (0, s2\<lparr>skern := k', sheap := h'\<rparr>)"
      using m(2) s1(2) by (simp add: sys_mbox_free_def mbox_q_def s2_def)
    then have free: "\<exists>s''. sys_mbox_free m s2 = Some (0, s'') \<and> heap_live (sheap s'') al" using h'(2) by simp
    have "OSQEnd (osq k q) \<le> m + n" using q(5) m(4) by auto
    moreover have "skern s2 = k" "sheap s2 = h" using s1(2) by (simp_all add: s2_def)
    ultimately show ?thesis using idle free m(3,5) q(3,4) zu unfolding new option.case prod.case if_P [OF refl]
      by (intro exI [of _ e] exI [of _ q] exI [of _ n]) simp
  qed
qed

definition sys1 :: sys where
  "sys1 = sys0\<lparr>sheap := prvHeapInit heap0\<rparr>"

lemma sys1_facts: "heap_live (sheap sys1) Map.empty" "OSIntNesting (skern sys1) = 0" "OSLockNesting (skern sys1) = 0"
  "pvPortMalloc (sheap sys1) sizeof_TQ_DESCR \<noteq> Some (0, sheap sys1)"
proof -
  show "heap_live (sheap sys1) Map.empty"
    using heap0_inv by (auto simp: heap_live_def sys1_def payloads_def fun_eq_iff intro!: exI)
  show "OSIntNesting (skern sys1) = 0" "OSLockNesting (skern sys1) = 0"
    using mbox_idleD(7,8) [OF sys0_idle(1)] by (simp_all add: sys1_def)
  have "\<not> refused sizeof_TQ_DESCR [(heap_lo, 999984)]" by (simp add: refused_def block_need_def sizeof_TQ_DESCR_def)
  then show "pvPortMalloc (sheap sys1) sizeof_TQ_DESCR \<noteq> Some (0, sheap sys1)"
    using pvPortMalloc_served [OF heap0_inv] by (fastforce simp: sys1_def)
qed

theorem sys_mbox_new_works_witness:
  "\<exists>m r s'. sys_mbox_new 100 sys1 = Some (m, r, s') \<and> (r = ERR_OK \<longrightarrow> (\<exists>e q. mbox_idle m e q s' \<and> mbox_view q s' = []))"
proof -
  have n: "(0 :: int) < 100" by simp
  show ?thesis using sys_mbox_new_works [OF sys1_facts(1) n sys1_facts(2,3)] sys1_facts(4)
    by (cases "sys_mbox_new 100 sys1") (auto split: if_splits, blast)
qed

section \<open>The clock of lwIP\<close>

text \<open>\<open>sys_now\<close> gives the milliseconds of the ticks and one, but only for the first 21474 seconds: the product
  overflows, and the clock jumps back.\<close>

theorem sys_now_wraps:
  "(unat (OSTime (skern s)) < 4294968 \<longrightarrow> sys_now s = of_nat (5 * unat (OSTime (skern s)) + 1)) \<and>
   (OSTime (skern s) = 4294968 \<longrightarrow> sys_now s = 4)"
proof -
  have "sys_now s = of_nat (5 * unat (OSTime (skern s)) + 1)" if "unat (OSTime (skern s)) < 4294968"
    using ticks_to_ms [OF that] by (simp add: sys_now_def OSTimeGet_def)
  then show ?thesis by (auto simp: sys_now_def OSTimeGet_def)
qed

end
