(* ===== verification/Lwip_Comm.thy ===== *)
theory Lwip_Comm
  imports Sys_Thms Enc_Thms
begin

text \<open>
  The start of the network stack, \<open>src/LWIP/lwip_app/lwip_comm/lwip_comm.c\<close>: memory from the heap, two
  semaphores, the Ethernet driver, the thread of lwIP and the input task. \<open>memp_get_memorysize\<close>,
  \<open>tcpip_init\<close> and the functions on network interfaces belong to lwIP and are arguments.
\<close>

section \<open>State\<close>

record lwip_dev =
  remoteip :: "u8 list"
  mac :: "u8 list"
  ip :: "u8 list"
  netmask :: "u8 list"
  gateway :: "u8 list"
  dhcpstatus :: u8

record lwip =
  lsys :: sys
  memp_memory :: addr
  ram_heap :: addr
  TCPIP_THREAD_TASK_STK :: addr
  LWIP_ENC28J60_INPUT_TASK_STK :: addr
  LWIP_DHCP_TASK_STK :: addr
  sem_enc28j60input :: "nat option"
  sem_enc28j60lock :: "nat option"
  lwipdev :: lwip_dev
  netcard :: enc

definition upd_sys :: "(sys \<Rightarrow> sys) \<Rightarrow> lwip \<Rightarrow> lwip" where
  "upd_sys f s = s\<lparr>lsys := f (lsys s)\<rparr>"

definition LWIP_MEM_ALIGN_SIZE :: "u32 \<Rightarrow> u32" where
  "LWIP_MEM_ALIGN_SIZE n = (n + 4 - 1) AND NOT (4 - 1)"

definition ramheapsize :: u32 where
  "ramheapsize = LWIP_MEM_ALIGN_SIZE (6 * 1024) + 2 * LWIP_MEM_ALIGN_SIZE (4 * 3) + 4"

abbreviation TCPIP_THREAD_STACKSIZE :: u32 where "TCPIP_THREAD_STACKSIZE \<equiv> 1024"
abbreviation LWIP_DM9000_INPUT_TASK_SIZE :: u32 where "LWIP_DM9000_INPUT_TASK_SIZE \<equiv> 512"
abbreviation LWIP_DM9000_INPUT_TASK_PRIO :: u8 where "LWIP_DM9000_INPUT_TASK_PRIO \<equiv> 6"

section \<open>Memory\<close>

definition take_memory :: "u32 \<Rightarrow> lwip \<Rightarrow> (addr \<times> lwip) option" where
  "take_memory n s = do {
     (p, h) \<leftarrow> pvPortMalloc (sheap (lsys s)) n;
     Some (p, upd_sys (sheap_update (\<lambda>_. h)) s)
   }"

definition give_memory :: "addr \<Rightarrow> lwip \<Rightarrow> lwip option" where
  "give_memory p s = do {
     h \<leftarrow> vPortFree (sheap (lsys s)) p;
     Some (upd_sys (sheap_update (\<lambda>_. h)) s)
   }"

text \<open>\<open>memp_memory\<close> is not given back.\<close>

definition lwip_comm_mem_free :: "lwip \<Rightarrow> lwip option" where
  "lwip_comm_mem_free s = do {
     s \<leftarrow> give_memory (ram_heap s) s;
     s \<leftarrow> give_memory (TCPIP_THREAD_TASK_STK s) s;
     s \<leftarrow> give_memory (LWIP_DHCP_TASK_STK s) s;
     give_memory (LWIP_ENC28J60_INPUT_TASK_STK s) s
   }"

definition lwip_comm_mem_malloc :: "u32 \<Rightarrow> lwip \<Rightarrow> (u8 \<times> lwip) option" where
  "lwip_comm_mem_malloc mempsize s = do {
     (p, s) \<leftarrow> take_memory mempsize s;
     let s = s\<lparr>memp_memory := p\<rparr>;
     (p, s) \<leftarrow> take_memory ramheapsize s;
     let s = s\<lparr>ram_heap := p\<rparr>;
     (p, s) \<leftarrow> take_memory (TCPIP_THREAD_STACKSIZE * 4) s;
     let s = s\<lparr>TCPIP_THREAD_TASK_STK := p\<rparr>;
     (p, s) \<leftarrow> take_memory (LWIP_DM9000_INPUT_TASK_SIZE * 4) s;
     let s = s\<lparr>LWIP_ENC28J60_INPUT_TASK_STK := p\<rparr>;
     if memp_memory s = 0 \<or> ram_heap s = 0 \<or> TCPIP_THREAD_TASK_STK s = 0 \<or> LWIP_ENC28J60_INPUT_TASK_STK s = 0
     then do {
       s \<leftarrow> lwip_comm_mem_free s;
       Some (1, s)
     } else Some (0, s)
   }"

section \<open>Start\<close>

definition lwip_comm_default_ip_set :: "lwip_dev \<Rightarrow> lwip_dev" where
  "lwip_comm_default_ip_set d =
     d\<lparr>remoteip := [192, 168, 3, 106], mac := g_enc28j60_mac, ip := [192, 168, 2, 60],
       netmask := [255, 255, 255, 0], gateway := [192, 168, 2, 1], dhcpstatus := 0\<rparr>"

definition lwip_comm_init ::
  "enc_hw \<Rightarrow> u32 \<Rightarrow> (lwip \<Rightarrow> lwip option) \<Rightarrow> (lwip \<Rightarrow> (bool \<times> lwip) option) \<Rightarrow> (lwip \<Rightarrow> lwip option) \<Rightarrow> lwip \<Rightarrow> (u8 \<times> lwip) option" where
  "lwip_comm_init hw mempsize tcpip_init netif_add netif_set_up s = do {
     (r, s) \<leftarrow> lwip_comm_mem_malloc mempsize s;
     if r \<noteq> 0 then Some (1, s)
     else do {
       let (e, k) = OSSemCreate 0 (skern (lsys s));
       let s = (upd_sys (skern_update (\<lambda>_. k)) s)\<lparr>sem_enc28j60input := e\<rparr>;
       let (e, k) = OSSemCreate 1 (skern (lsys s));
       let s = (upd_sys (skern_update (\<lambda>_. k)) s)\<lparr>sem_enc28j60lock := e\<rparr>;
       let s = s\<lparr>lwipdev := lwip_comm_default_ip_set (lwipdev s)\<rparr>;
       (r, d) \<leftarrow> ENC28J60_Init hw (mac (lwipdev s)) (netcard s);
       let s = s\<lparr>netcard := d\<rparr>;
       if r \<noteq> 0 then Some (2, s)
       else do {
         s \<leftarrow> tcpip_init s;
         (added, s) \<leftarrow> netif_add s;
         s \<leftarrow> (if added then netif_set_up s else Some s);
         (err, k) \<leftarrow> OSTaskCreate (LWIP_ENC28J60_INPUT_TASK_STK s + 4 * (unat LWIP_DM9000_INPUT_TASK_SIZE - 1))
           LWIP_DM9000_INPUT_TASK_PRIO (skern (lsys s));
         Some (0, upd_sys (skern_update (\<lambda>_. k)) s)
       }
     }
   }"

section \<open>Properties\<close>

text \<open>The blocks of the heap with, and without, the block at a pointer that may be null.\<close>

definition with_block :: "addr \<Rightarrow> nat \<Rightarrow> (addr \<rightharpoonup> nat) \<Rightarrow> (addr \<rightharpoonup> nat)" where
  "with_block p n al = (if p = 0 then al else al(p \<mapsto> n))"

definition no_block :: "addr \<Rightarrow> (addr \<rightharpoonup> nat) \<Rightarrow> (addr \<rightharpoonup> nat)" where
  "no_block p al = (if p = 0 then al else al(p := None))"

lemma dom_with_block: "dom (with_block p n al) = (if p = 0 then dom al else insert p (dom al))"
  by (simp add: with_block_def)

abbreviation blocks :: "lwip \<Rightarrow> (addr \<rightharpoonup> nat) \<Rightarrow> bool" where
  "blocks s \<equiv> heap_live (sheap (lsys s))"

lemma take_memory_cases:
  assumes "blocks s al"
  shows "\<exists>p h n. take_memory w s = Some (p, upd_sys (sheap_update (\<lambda>_. h)) s) \<and> heap_live h (with_block p n al) \<and>
    (p \<noteq> 0 \<longrightarrow> p \<notin> dom al \<and> unat w \<le> n)"
proof -
  from lib_mem.alloc_step [OF assms, of w] show ?thesis
  proof
    assume "pvPortMalloc (sheap (lsys s)) w = Some (0, sheap (lsys s))"
    then show ?thesis using assms
      by (intro exI [of _ 0] exI [of _ "sheap (lsys s)"] exI [of _ 0]) (simp add: take_memory_def with_block_def)
  next
    assume "\<exists>p h' n. pvPortMalloc (sheap (lsys s)) w = Some (p, h') \<and> p \<noteq> 0 \<and> p \<notin> dom al \<and> unat w \<le> n \<and> heap_live h' (al(p \<mapsto> n))"
    then obtain p h n where "pvPortMalloc (sheap (lsys s)) w = Some (p, h)" "p \<noteq> 0" "p \<notin> dom al" "unat w \<le> n" "heap_live h (al(p \<mapsto> n))"
      by blast
    then show ?thesis by (intro exI [of _ p] exI [of _ h] exI [of _ n]) (simp add: take_memory_def with_block_def)
  qed
qed

lemma give_memory_live:
  assumes "blocks s al" "p = 0 \<or> p \<in> dom al"
  shows "\<exists>h. give_memory p s = Some (upd_sys (sheap_update (\<lambda>_. h)) s) \<and> heap_live h (no_block p al)"
  using lib_mem.release_step [OF assms(1), of p] lib_mem.release_null assms
  by (cases "p = 0") (auto simp: give_memory_def no_block_def)

lemma give_null: "give_memory 0 s = Some (upd_sys (sheap_update (\<lambda>_. sheap (lsys s))) s)"
  by (simp add: give_memory_def lib_mem.release_null)

lemma upd_sheap [simp]:
  "sheap (lsys (upd_sys (sheap_update (\<lambda>_. h)) s)) = h" "memp_memory (upd_sys f s) = memp_memory s" "ram_heap (upd_sys f s) = ram_heap s"
  "TCPIP_THREAD_TASK_STK (upd_sys f s) = TCPIP_THREAD_TASK_STK s" "LWIP_DHCP_TASK_STK (upd_sys f s) = LWIP_DHCP_TASK_STK s"
  "LWIP_ENC28J60_INPUT_TASK_STK (upd_sys f s) = LWIP_ENC28J60_INPUT_TASK_STK s"
  by (simp_all add: upd_sys_def)

text \<open>Giving back three blocks of four.\<close>

lemma free_three:
  assumes "blocks s al" "LWIP_DHCP_TASK_STK s = 0"
    "\<forall>p \<in> {ram_heap s, TCPIP_THREAD_TASK_STK s, LWIP_ENC28J60_INPUT_TASK_STK s} - {0}. p \<in> dom al"
    "ram_heap s = 0 \<or> ram_heap s \<notin> {TCPIP_THREAD_TASK_STK s, LWIP_ENC28J60_INPUT_TASK_STK s}"
    "TCPIP_THREAD_TASK_STK s = 0 \<or> TCPIP_THREAD_TASK_STK s \<noteq> LWIP_ENC28J60_INPUT_TASK_STK s"
  shows "\<exists>s'. lwip_comm_mem_free s = Some s' \<and> memp_memory s' = memp_memory s \<and>
    blocks s' (no_block (LWIP_ENC28J60_INPUT_TASK_STK s) (no_block (TCPIP_THREAD_TASK_STK s) (no_block (ram_heap s) al)))"
proof -
  define a b c where "a = ram_heap s" and "b = TCPIP_THREAD_TASK_STK s" and "c = LWIP_ENC28J60_INPUT_TASK_STK s"
  have "a = 0 \<or> a \<in> dom al" using assms(3) by (auto simp: a_def)
  from give_memory_live [OF assms(1) this]
  obtain h1 where 1: "give_memory a s = Some (upd_sys (sheap_update (\<lambda>_. h1)) s)" "heap_live h1 (no_block a al)" by metis
  define s1 where "s1 = upd_sys (sheap_update (\<lambda>_. h1)) s"
  have "b = 0 \<or> b \<in> dom (no_block a al)" using assms(3,4) by (auto simp: no_block_def a_def b_def)
  then obtain h2 where 2: "give_memory b s1 = Some (upd_sys (sheap_update (\<lambda>_. h2)) s1)" "heap_live h2 (no_block b (no_block a al))"
    using give_memory_live [of s1 "no_block a al" b] 1(2) s1_def by auto
  define s2 where "s2 = upd_sys (sheap_update (\<lambda>_. h2)) s1"
  define s3 where "s3 = upd_sys (sheap_update (\<lambda>_. sheap (lsys s2))) s2"
  have "c = 0 \<or> c \<in> dom (no_block b (no_block a al))" using assms(3-5) by (auto simp: no_block_def a_def b_def c_def)
  then obtain h4 where 4: "give_memory c s3 = Some (upd_sys (sheap_update (\<lambda>_. h4)) s3)" "heap_live h4 (no_block c (no_block b (no_block a al)))"
    using give_memory_live [of s3 "no_block b (no_block a al)" c] 2(2) s3_def s2_def by auto
  define s4 where "s4 = upd_sys (sheap_update (\<lambda>_. h4)) s3"
  have f1: "TCPIP_THREAD_TASK_STK s1 = b" "LWIP_DHCP_TASK_STK s1 = 0" "LWIP_ENC28J60_INPUT_TASK_STK s1 = c" "memp_memory s1 = memp_memory s"
    by (simp_all add: s1_def b_def c_def assms(2))
  have f2: "LWIP_DHCP_TASK_STK s2 = 0" "LWIP_ENC28J60_INPUT_TASK_STK s2 = c" "memp_memory s2 = memp_memory s"
    by (simp_all add: s2_def f1)
  have f3: "LWIP_ENC28J60_INPUT_TASK_STK s3 = c" "memp_memory s3 = memp_memory s" by (simp_all add: s3_def f2)
  have r: "give_memory (ram_heap s) s = Some s1" "give_memory (TCPIP_THREAD_TASK_STK s1) s1 = Some s2"
    "give_memory (LWIP_DHCP_TASK_STK s2) s2 = Some s3" "give_memory (LWIP_ENC28J60_INPUT_TASK_STK s3) s3 = Some s4"
    using 1(1) 2(1) 4(1) give_null [of s2]
    by (simp_all only: f1 f2 f3 a_def [symmetric] s1_def [symmetric] s2_def [symmetric] s3_def [symmetric] s4_def [symmetric])
  have "lwip_comm_mem_free s = Some s4" by (simp add: lwip_comm_mem_free_def r)
  moreover have "memp_memory s4 = memp_memory s" "sheap (lsys s4) = h4" by (simp_all add: s4_def f3)
  ultimately show ?thesis using 4(2) by (simp add: a_def b_def c_def)
qed

text \<open>C36. Memory of the network stack. \<open>lwip_comm_mem_malloc\<close> always returns. When it succeeds its four blocks are
  new, apart and large enough; when it fails it gives back what it took, except the memory of the pools,
  which stays allocated.\<close>

theorem lwip_memory:
  assumes "blocks s al" "LWIP_DHCP_TASK_STK s = 0"
  shows "\<exists>r s' n1 n2 n3 n4. lwip_comm_mem_malloc w s = Some (r, s') \<and>
    (r = 0 \<and> blocks s' (al(memp_memory s' \<mapsto> n1, ram_heap s' \<mapsto> n2, TCPIP_THREAD_TASK_STK s' \<mapsto> n3, LWIP_ENC28J60_INPUT_TASK_STK s' \<mapsto> n4)) \<and>
       unat w \<le> n1 \<and> 6172 \<le> n2 \<and> 4096 \<le> n3 \<and> 2048 \<le> n4 \<and>
       distinct [memp_memory s', ram_heap s', TCPIP_THREAD_TASK_STK s', LWIP_ENC28J60_INPUT_TASK_STK s'] \<and>
       dom al \<inter> {memp_memory s', ram_heap s', TCPIP_THREAD_TASK_STK s', LWIP_ENC28J60_INPUT_TASK_STK s'} = {} \<or>
     r = 1 \<and> blocks s' (with_block (memp_memory s') n1 al))"
proof -
  obtain p1 h1 n1 where 1: "take_memory w s = Some (p1, upd_sys (sheap_update (\<lambda>_. h1)) s)" "heap_live h1 (with_block p1 n1 al)"
    "p1 \<noteq> 0 \<longrightarrow> p1 \<notin> dom al \<and> unat w \<le> n1" using take_memory_cases [OF assms(1), of w] by metis
  define s1 where "s1 = (upd_sys (sheap_update (\<lambda>_. h1)) s)\<lparr>memp_memory := p1\<rparr>"
  define al1 where "al1 = with_block p1 n1 al"
  have v1: "blocks s1 al1" "memp_memory s1 = p1" "LWIP_DHCP_TASK_STK s1 = 0" using 1(2) assms(2) by (simp_all add: s1_def al1_def upd_sys_def)
  obtain p2 h2 n2 where 2: "take_memory ramheapsize s1 = Some (p2, upd_sys (sheap_update (\<lambda>_. h2)) s1)" "heap_live h2 (with_block p2 n2 al1)"
    "p2 \<noteq> 0 \<longrightarrow> p2 \<notin> dom al1 \<and> unat ramheapsize \<le> n2" using take_memory_cases [OF v1(1), of ramheapsize] by metis
  define s2 where "s2 = (upd_sys (sheap_update (\<lambda>_. h2)) s1)\<lparr>ram_heap := p2\<rparr>"
  define al2 where "al2 = with_block p2 n2 al1"
  have v2: "blocks s2 al2" "memp_memory s2 = p1" "ram_heap s2 = p2" "LWIP_DHCP_TASK_STK s2 = 0"
    using 2(2) v1 by (simp_all add: s2_def al2_def upd_sys_def)
  obtain p3 h3 n3 where 3: "take_memory (TCPIP_THREAD_STACKSIZE * 4) s2 = Some (p3, upd_sys (sheap_update (\<lambda>_. h3)) s2)"
    "heap_live h3 (with_block p3 n3 al2)" "p3 \<noteq> 0 \<longrightarrow> p3 \<notin> dom al2 \<and> unat (TCPIP_THREAD_STACKSIZE * 4) \<le> n3"
    using take_memory_cases [OF v2(1), of "TCPIP_THREAD_STACKSIZE * 4"] by metis
  define s3 where "s3 = (upd_sys (sheap_update (\<lambda>_. h3)) s2)\<lparr>TCPIP_THREAD_TASK_STK := p3\<rparr>"
  define al3 where "al3 = with_block p3 n3 al2"
  have v3: "blocks s3 al3" "memp_memory s3 = p1" "ram_heap s3 = p2" "TCPIP_THREAD_TASK_STK s3 = p3" "LWIP_DHCP_TASK_STK s3 = 0"
    using 3(2) v2 by (simp_all add: s3_def al3_def upd_sys_def)
  obtain p4 h4 n4 where 4: "take_memory (LWIP_DM9000_INPUT_TASK_SIZE * 4) s3 = Some (p4, upd_sys (sheap_update (\<lambda>_. h4)) s3)"
    "heap_live h4 (with_block p4 n4 al3)" "p4 \<noteq> 0 \<longrightarrow> p4 \<notin> dom al3 \<and> unat (LWIP_DM9000_INPUT_TASK_SIZE * 4) \<le> n4"
    using take_memory_cases [OF v3(1), of "LWIP_DM9000_INPUT_TASK_SIZE * 4"] by metis
  define s4 where "s4 = (upd_sys (sheap_update (\<lambda>_. h4)) s3)\<lparr>LWIP_ENC28J60_INPUT_TASK_STK := p4\<rparr>"
  define al4 where "al4 = with_block p4 n4 al3"
  have v4: "blocks s4 al4" "memp_memory s4 = p1" "ram_heap s4 = p2" "TCPIP_THREAD_TASK_STK s4 = p3" "LWIP_ENC28J60_INPUT_TASK_STK s4 = p4"
    "LWIP_DHCP_TASK_STK s4 = 0" using 4(2) v3 by (simp_all add: s4_def al4_def upd_sys_def)
  note als = al4_def al3_def al2_def al1_def with_block_def
  have run: "lwip_comm_mem_malloc w s = (if p1 = 0 \<or> p2 = 0 \<or> p3 = 0 \<or> p4 = 0 then do { s \<leftarrow> lwip_comm_mem_free s4; Some (1, s) } else Some (0, s4))"
    unfolding lwip_comm_mem_malloc_def Let_def
    by (simp only: 1(1) 2(1) 3(1) 4(1) v4 s1_def [symmetric] s2_def [symmetric] s3_def [symmetric] s4_def [symmetric] bind.bind_lunit prod.case)
  have new: "p1 \<noteq> 0 \<longrightarrow> p1 \<notin> dom al" "p2 \<noteq> 0 \<longrightarrow> p2 \<notin> dom al \<and> p2 \<noteq> p1" "p3 \<noteq> 0 \<longrightarrow> p3 \<notin> dom al \<and> p3 \<noteq> p1 \<and> p3 \<noteq> p2"
    "p4 \<noteq> 0 \<longrightarrow> p4 \<notin> dom al \<and> p4 \<noteq> p1 \<and> p4 \<noteq> p2 \<and> p4 \<noteq> p3"
    using 1(3) 2(3) 3(3) 4(3) by (auto simp: al3_def al2_def al1_def dom_with_block split: if_splits)
  show ?thesis
  proof (cases "p1 = 0 \<or> p2 = 0 \<or> p3 = 0 \<or> p4 = 0")
    case True
    obtain s5 where s5: "lwip_comm_mem_free s4 = Some s5" "memp_memory s5 = p1" "blocks s5 (no_block p4 (no_block p3 (no_block p2 al4)))"
    proof -
      have "\<forall>p \<in> {p2, p3, p4} - {0}. p \<in> dom al4" by (auto simp: al4_def al3_def al2_def dom_with_block)
      moreover have "p2 = 0 \<or> p2 \<notin> {p3, p4}" "p3 = 0 \<or> p3 \<noteq> p4" using new by auto
      ultimately show ?thesis using free_three [OF v4(1,6)] that unfolding v4 by blast
    qed
    have "no_block p4 (no_block p3 (no_block p2 al4)) = with_block p1 n1 al"
    proof
      fix x show "no_block p4 (no_block p3 (no_block p2 al4)) x = with_block p1 n1 al x"
        using new by (simp add: als no_block_def domIff) auto
    qed
    then show ?thesis using run True s5 by (intro exI [of _ 1] exI [of _ s5] exI [of _ n1]) simp
  next
    case False
    have "unat w \<le> n1" "6172 \<le> n2" "4096 \<le> n3" "2048 \<le> n4"
      using 1(3) 2(3) 3(3) 4(3) False by (simp_all add: ramheapsize_def LWIP_MEM_ALIGN_SIZE_def)
    moreover have "al4 = al(p1 \<mapsto> n1, p2 \<mapsto> n2, p3 \<mapsto> n3, p4 \<mapsto> n4)" using False by (simp add: als)
    moreover have "distinct [p1, p2, p3, p4]" "dom al \<inter> {p1, p2, p3, p4} = {}" using new False by auto
    ultimately show ?thesis using run False v4
      by (intro exI [of _ 0] exI [of _ s4] exI [of _ n1] exI [of _ n2] exI [of _ n3] exI [of _ n4]) simp
  qed
qed

definition lwip0 :: lwip where
  "lwip0 = \<lparr>lsys = sys1, memp_memory = 0, ram_heap = 0, TCPIP_THREAD_TASK_STK = 0, LWIP_ENC28J60_INPUT_TASK_STK = 0,
     LWIP_DHCP_TASK_STK = 0, sem_enc28j60input = None, sem_enc28j60lock = None,
     lwipdev = \<lparr>remoteip = [], mac = [], ip = [], netmask = [], gateway = [], dhcpstatus = 0\<rparr>, netcard = enc0\<rparr>"

theorem lwip_memory_witness:
  "\<exists>r s'. lwip_comm_mem_malloc 20000 lwip0 = Some (r, s') \<and> (r = 0 \<or> r = 1)"
proof -
  have "blocks lwip0 Map.empty" "LWIP_DHCP_TASK_STK lwip0 = 0" using sys1_facts(1) by (simp_all add: lwip0_def)
  from lwip_memory [OF this, of 20000] show ?thesis by blast
qed

text \<open>When the controller does not answer \<open>lwip_comm_init\<close> gives up with 2 and gives nothing back: neither the
  memory nor the two semaphores.\<close>

lemma lwip_comm_init_gives_up:
  assumes "lwip_comm_mem_malloc w s = Some (0, s1)" "OSSemCreate 0 (skern (lsys s1)) = (e1, k1)" "OSSemCreate 1 k1 = (e2, k2)"
    "ENC28J60_Init hw g_enc28j60_mac (netcard s1) = Some (1, d)"
  shows "\<exists>s'. lwip_comm_init hw w ti na ns s = Some (2, s') \<and> sheap (lsys s') = sheap (lsys s1) \<and> skern (lsys s') = k2 \<and>
    sem_enc28j60input s' = e1 \<and> sem_enc28j60lock s' = e2"
  using assms by (simp add: lwip_comm_init_def upd_sys_def lwip_comm_default_ip_set_def)

end
