(* ===== verification/Spec2Isabelle.thy ===== *)
theory Spec2Isabelle
  imports YH_Prelude Allocator LibMem LibMem_List LibMem_Inv LibMem_Thms
    Deque Deque_Ring Deque_Mem Deque_Thms Queue Fifo Collect_Thms
    Kernel_Bitmap Kernel_Core Kernel_Time Kernel_Pend Kernel_Sem Kernel_Mbox Kernel_Mutex
    Kernel_Inv Kernel_Ops Kernel_Tick Kernel_Calls Kernel_Events Kernel_Services Kernel_Safe
    Kernel_Boot Kernel_Run Kernel_Thms Kernel_Ceiling Kernel_Mutex_Safe Kernel_Ring Kernel_Msgs Kernel_Mutex_Thms Kernel_Flag Kernel_Flag_Thms
    Kernel_Task Kernel_Task_Thms App_Order
    Spi Vs_Core Vs_Wire Vs_Driver Vs_Port Wav Player Recorder Vs_Thms
    Enc_Core Enc_Wire Enc_Driver Enc_Packets Ethernetif Enc_Thms Sys_Arch Sys_Thms Lwip_Comm
begin

text \<open>
  \<^bold>\<open>The program.\<close> The firmware of a network audio player: an STM32F103 with an ENC28J60 Ethernet
  controller and a VS1053 audio decoder, the real-time kernel uC/OS-II, the network stack lwIP and a
  small collections library. A PC sends audio over UDP; a server task fills buffers, a player task
  feeds the decoder. All files below are under \<open>src/src/\<close>.

  \<^bold>\<open>The heap\<close> (\<open>mem/lib_mem.c\<close>): \<open>LibMem\<close> has the free list as a store of block headers at 32-bit
  addresses and every operation; \<open>LibMem_List\<close> the walks along the list, which are partial functions
  that return on the lists the allocator builds; \<open>LibMem_Inv\<close> the invariant: the free list is sorted by
  address, blocks do not overlap, neighbours are merged, the sizes of free and live blocks and the byte
  count agree; \<open>LibMem_Thms\<close> the properties. \<open>Allocator\<close> is the interface the collections use, with its
  interpretation on the heap.

  \<^bold>\<open>The collections\<close> (\<open>collect/deque.c\<close>, \<open>collect/queue.c\<close>): \<open>Deque\<close> and \<open>Queue\<close> hold the structures with
  the fields of the code, the buffer being a list of cells; every access out of its bounds is the result
  \<open>None\<close>. \<open>Deque_Ring\<close> relates the ring buffer to a list, \<open>Deque_Mem\<close> tracks the memory it owns,
  \<open>Deque_Thms\<close> states the properties. \<open>Fifo\<close> is the contract of first-in first-out queues as locales;
  \<open>Collect_Thms\<close> interprets it for the queue on the heap and \<open>Kernel_Ring\<close> for the queues of the kernel.

  \<^bold>\<open>The kernel\<close> (\<open>ucosii/src/os_*.c\<close>, \<open>ucosii/port/os_cpu_c.c\<close>): the record \<open>kernel\<close> in \<open>Kernel_Core\<close> holds the
  global variables; control blocks are addressed by their index in the tables. \<open>Kernel_Bitmap\<close> models
  the ready list and the wait lists with the table \<open>OSUnMapTbl\<close>; \<open>Kernel_Core\<close> the scheduler, the events
  and the creation of tasks; \<open>Kernel_Time\<close>, \<open>Kernel_Pend\<close>, \<open>Kernel_Sem\<close>, \<open>Kernel_Mbox\<close> (mailboxes and message
  queues) and \<open>Kernel_Mutex\<close> the services. A service that blocks is split where \<open>OS_Sched\<close> switches away:
  the call up to there, and the second half, which runs when the task is scheduled again.
  The result \<open>None\<close> of a service means that a null pointer was followed or a loop did not end.

  The invariants: \<open>Kernel_Inv\<close> (the lists of ready and waiting tasks agree with the state of each task,
  the current task is the highest one), \<open>Kernel_Events\<close> (the control blocks are used once, a task waits
  only for an event that has nothing to give), \<open>Kernel_Ceiling\<close> (owners, ceilings and priorities of
  mutexes). \<open>Kernel_Ops\<close>, \<open>Kernel_Tick\<close>, \<open>Kernel_Calls\<close>, \<open>Kernel_Services\<close>, \<open>Kernel_Safe\<close> and
  \<open>Kernel_Mutex_Safe\<close> show that every service keeps them. \<open>Kernel_Boot\<close> shows that \<open>OSInit\<close>, the creation
  of tasks and \<open>OSStart\<close> establish them; \<open>Kernel_Run\<close> has the step relation and the reachable states. Its
  predicate \<open>permitted\<close> says what the code relies on the caller for, argument checks being configured
  out. \<open>Kernel_Thms\<close>, \<open>Kernel_Msgs\<close> and \<open>Kernel_Mutex_Thms\<close> state the properties.
  The event flags of \<open>os_flag.c\<close> are beside these steps: \<open>Kernel_Flag\<close> has a state of its own around the kernel, with the
  groups and the wait nodes, \<open>Kernel_Flag_Thms\<close> relates the doubly linked list of nodes to a list of tasks and states
  the properties, which ask of the kernel only that its lists are well formed. \<open>Kernel_Task\<close> has the rest of
  \<open>os_task.c\<close>, with change of priority and deletion, which unlinks a task from flags; \<open>Kernel_Task_Thms\<close> shows that
  both keep the invariants of the kernel, under what they rely on, and what happens otherwise.

  \<^bold>\<open>The receive path\<close> (\<open>task/task_udpserver.c\<close>, the loops of \<open>play\<close> in \<open>task/task_play.c\<close>): \<open>App_Udp\<close> has the three
  receive buffers, the queue that passes them between the tasks (the modelled queue on the modelled heap),
  the parser of commands and both loops, one step for each call that can let the other task in.
  \<open>App_Pool\<close> is the invariant of the buffers, \<open>App_Thms\<close> shows that every step keeps it and returns,
  \<open>App_Order\<close> what the player plays of what the server receives.

  \<^bold>\<open>The decoder\<close> (\<open>HARDWARE/VS10XX/vs10xx_core.c\<close> and its two ports, \<open>task/task_udpclient.c\<close>, \<open>init/wav.c\<close>, the
  feeding of the decoder in \<open>task_play.c\<close>): \<open>Vs_Core\<close> is the driver over the function pointers of
  \<open>vs10xx_cfg_t\<close>; \<open>Vs_Wire\<close> says what the chip makes of transfers and select lines and states, as the locale
  \<open>vs_bus\<close>, what the driver expects of those functions; \<open>Vs_Driver\<close> proves in it what each operation makes the
  chip understand; \<open>Vs_Port\<close> models the ports over a history of accesses to the SPI unit and the pins and
  interprets the locale for both. \<open>Wav\<close>, \<open>Player\<close> and \<open>Recorder\<close> are the tasks, \<open>Vs_Thms\<close> the properties.
  They hold on hardware that works, \<open>hw_works\<close>: flags come before the driver gives up polling.

  \<^bold>\<open>The network\<close> (\<open>HARDWARE/ENC28J60/enc28j60.c\<close>, \<open>LWIP/lwip-1.4.1/src/netif/ethernetif.c\<close>): \<open>Spi\<close> is the SPI unit as
  both drivers use it. \<open>Enc_Core\<close> has every operation of the Ethernet driver, \<open>Enc_Wire\<close> the serial interface of
  the chip, with its register banks; \<open>Enc_Driver\<close> shows what each access asks the chip for, provided the bank
  the driver remembers is the one of the chip, which every operation keeps and initialisation
  establishes; \<open>Enc_Packets\<close> does this for whole operations, and gives the requests a meaning on registers and
  buffer memory. \<open>Ethernetif\<close> moves packets between the driver and the buffers of lwIP, \<open>Enc_Thms\<close> states the
  properties, on an SPI unit that works and for every answer of the chip.

  \<^bold>\<open>The port of lwIP\<close> (\<open>LWIP/arch/sys_arch.c\<close>, \<open>LWIP/lwip_app/lwip_comm/lwip_comm.c\<close>): \<open>Sys_Arch\<close> has mailboxes and
  semaphores over the kernel model, with the descriptors of mailboxes on the modelled heap; \<open>Sys_Thms\<close>
  interprets the contract of queues for mailboxes and states the properties; \<open>Lwip_Comm\<close> takes the memory
  of the stack from the heap and starts driver and tasks.

  \<^bold>\<open>Bounds.\<close> No definition uses fuel: loops are structural, have a measure, or are \<open>partial_function\<close>s for
  which the theorems show that they return. Machine integers keep their width.

  \<^bold>\<open>Not modelled.\<close> The idle and statistics loops; the other
  collections, which the firmware does not use; the set-up of
  clocks, pins and DMA channels and the start-up task, which only call the ST library and the kernel. lwIP and the ST
  library are third-party code, the web server is an lwIP contribution, the file system data are generated.
\<close>

end
